(* ===== verification/Prelude.thy ===== *)
theory Prelude
  imports Main "HOL-Library.Word" "HOL-Library.Sublist"
begin

text \<open>
  The shared ground of the development. It fixes how Go values and effects are represented:
  \<^item> a Go string or byte slice is a \<^typ>\<open>string\<close> (a list of 8-bit characters), a
    \<^verbatim>\<open>[32]byte\<close> digest is a 256-bit word, \<^verbatim>\<open>time.Time\<close> is the number of nanoseconds since
    Go's zero time (so \<^verbatim>\<open>IsZero\<close> is \<^verbatim>\<open>= 0\<close>) and \<^verbatim>\<open>time.Duration\<close> is a signed 64-bit number of
    nanoseconds kept as an integer;
  \<^item> an \<^verbatim>\<open>error\<close> is a value of the datatype \<open>err\<close>: one constructor per package for its sentinel
    variables, one for errors of a driver, and the two wrapping shapes of \<^verbatim>\<open>fmt.Errorf\<close>;
  \<^item> what a manager reads from outside (its clock, the operating system's random bytes, fresh
    UUIDs) is the record \<open>world\<close>: every reading consumes one position of a tape, so that two
    calls of \<^verbatim>\<open>now()\<close> may return different instants and a random read may fail.
  The generic lemmas at the end serve every component.
\<close>

named_theorems store_spec \<open>the reference operations of the storage contracts\<close>
named_theorems err_simps \<open>what each error is and is not, for errors.Is\<close>
named_theorems world_simps \<open>which parts of the world a reading leaves alone\<close>

type_synonym time = int
type_synonym duration = int
type_synonym hash = "256 word"

section \<open>Errors\<close>

datatype token_err = Token_ErrInvalidToken

datatype session_err =
    Session_ErrCacheMiss | Session_ErrCacheSync | Session_ErrConflict | Session_ErrInactive
  | Session_ErrInvalidConfig | Session_ErrInvalidRecord | Session_ErrNotFound

datatype refresh_err =
    Refresh_ErrConflict | Refresh_ErrInactive | Refresh_ErrInvalidConfig
  | Refresh_ErrInvalidRecord | Refresh_ErrNotFound | Refresh_ErrReuseDetected

datatype access_err =
    Access_ErrInactiveSession | Access_ErrInvalidConfig | Access_ErrInvalidToken

datatype password_err =
    Password_ErrInvalidHash | Password_ErrPasswordTooLong | Password_ErrUnsupportedAlgorithm

datatype authlier_err = Authlier_ErrInvalidConfig

datatype emailaddress_err = Emailaddress_ErrInvalid

datatype emailpassword_err =
    Emailpassword_ErrAttemptBlocked | Emailpassword_ErrConflict | Emailpassword_ErrInvalidConfig
  | Emailpassword_ErrInvalidCredentials | Emailpassword_ErrInvalidInput
  | Emailpassword_ErrInvalidPassword | Emailpassword_ErrInvalidRecord
  | Emailpassword_ErrLastCredential | Emailpassword_ErrNotFound
  | Emailpassword_ErrPasswordUnchanged | Emailpassword_ErrRegistrationUnavailable

datatype verification_err =
    Verification_ErrAlreadyVerified | Verification_ErrAttemptBlocked | Verification_ErrConflict
  | Verification_ErrInactiveToken | Verification_ErrInvalidConfig | Verification_ErrInvalidRecord
  | Verification_ErrNotFound

datatype reset_err =
    Reset_ErrAttemptBlocked | Reset_ErrConflict | Reset_ErrInactiveToken | Reset_ErrInvalidConfig
  | Reset_ErrInvalidPassword | Reset_ErrInvalidRecord | Reset_ErrNotFound

datatype google_err =
    Google_ErrConflict | Google_ErrInvalidConfig | Google_ErrInvalidInput | Google_ErrInvalidRecord
  | Google_ErrInvalidState | Google_ErrLastCredential | Google_ErrLinkRequired | Google_ErrNotFound
  | Google_ErrUnverified

datatype totp_err =
    Totp_ErrAlreadyEnabled | Totp_ErrAttemptBlocked | Totp_ErrConflict | Totp_ErrInactiveChallenge
  | Totp_ErrInactiveEnrollment | Totp_ErrInvalidChallenge | Totp_ErrInvalidCode | Totp_ErrInvalidConfig
  | Totp_ErrInvalidInput | Totp_ErrInvalidRecord | Totp_ErrNotFound

datatype passkey_err =
    Passkey_ErrAttemptBlocked | Passkey_ErrConflict | Passkey_ErrInactiveCeremony
  | Passkey_ErrInvalidCeremony | Passkey_ErrInvalidConfig | Passkey_ErrInvalidInput
  | Passkey_ErrInvalidRecord | Passkey_ErrLastCredential | Passkey_ErrNotFound | Passkey_ErrVerification

datatype oidc_err =
    Oidc_ErrAttemptBlocked | Oidc_ErrConflict | Oidc_ErrInactiveState | Oidc_ErrInvalidConfig
  | Oidc_ErrInvalidIdentity | Oidc_ErrInvalidInput | Oidc_ErrInvalidRecord | Oidc_ErrInvalidState
  | Oidc_ErrNotFound | Oidc_ErrUnverifiedEmail

datatype saml_err =
    Saml_ErrAttemptBlocked | Saml_ErrConflict | Saml_ErrInactiveRequest | Saml_ErrInvalidConfig
  | Saml_ErrInvalidIdentity | Saml_ErrInvalidInput | Saml_ErrInvalidRecord | Saml_ErrInvalidResponse
  | Saml_ErrInvalidState | Saml_ErrNotFound

datatype err =
    EToken token_err
  | ESession session_err
  | ERefresh refresh_err
  | EAccess access_err
  | EPassword password_err
  | EAuthlier authlier_err
  | EEmailaddress emailaddress_err
  | EEmailpassword emailpassword_err
  | EVerification verification_err
  | EReset reset_err
  | EGoogle google_err
  | ETotp totp_err
  | EPasskey passkey_err
  | EOidc oidc_err
  | ESaml saml_err
  | EAdapter string \<comment> \<open>\<^verbatim>\<open>ErrInvalidConfig\<close> of the named storage adapter\<close>
  | EDriver string \<comment> \<open>an error of a database, cache or operating-system call\<close>
  | ENoRows \<comment> \<open>a driver's "no rows", "no documents" or "nil" reply\<close>
  | EUnique \<comment> \<open>a driver's unique-key violation\<close>
  | ENew string \<comment> \<open>an error with no sentinel in its chain\<close>
  | EWrap string err \<comment> \<open>\<^verbatim>\<open>fmt.Errorf("text: %w", err)\<close>\<close>
  | EWrap2 err err \<comment> \<open>\<^verbatim>\<open>fmt.Errorf("%w: %w", first, second)\<close>\<close>

text \<open>\<^verbatim>\<open>errors.Is(err, target)\<close> for a sentinel target: the target occurs in the chain.\<close>

fun errors_is :: "err \<Rightarrow> err \<Rightarrow> bool" where
  "errors_is (EWrap m e) t = errors_is e t"
| "errors_is (EWrap2 a b) t = (errors_is a t \<or> errors_is b t)"
| "errors_is e t = (e = t)"

text \<open>An error that carries no sentinel of any package: what a driver reports.\<close>

definition is_driver :: "err \<Rightarrow> bool" where
  "is_driver e = (case e of EDriver _ \<Rightarrow> True | ENoRows \<Rightarrow> True | EUnique \<Rightarrow> True | _ \<Rightarrow> False)"

text \<open>An error whose chain ends in one: a failure of the infrastructure, whatever wraps it.\<close>

fun driver_chain :: "err \<Rightarrow> bool" where
  "driver_chain (EWrap m e) = driver_chain e"
| "driver_chain (EWrap2 a b) = (driver_chain a \<or> driver_chain b)"
| "driver_chain e = is_driver e"

section \<open>Strings\<close>

text \<open>
  \<^verbatim>\<open>strings.TrimSpace\<close> removes leading and trailing Unicode white space. The UTF-8 encodings of
  the code points for which \<^verbatim>\<open>unicode.IsSpace\<close> holds:
\<close>

definition space_runes :: "string list" where
  "space_runes =
     [[CHR 0x09], [CHR 0x0A], [CHR 0x0B], [CHR 0x0C], [CHR 0x0D], [CHR 0x20],
      [CHR 0xC2, CHR 0x85], [CHR 0xC2, CHR 0xA0],
      [CHR 0xE1, CHR 0x9A, CHR 0x80],
      [CHR 0xE2, CHR 0x80, CHR 0x80], [CHR 0xE2, CHR 0x80, CHR 0x81],
      [CHR 0xE2, CHR 0x80, CHR 0x82], [CHR 0xE2, CHR 0x80, CHR 0x83],
      [CHR 0xE2, CHR 0x80, CHR 0x84], [CHR 0xE2, CHR 0x80, CHR 0x85],
      [CHR 0xE2, CHR 0x80, CHR 0x86], [CHR 0xE2, CHR 0x80, CHR 0x87],
      [CHR 0xE2, CHR 0x80, CHR 0x88], [CHR 0xE2, CHR 0x80, CHR 0x89],
      [CHR 0xE2, CHR 0x80, CHR 0x8A], [CHR 0xE2, CHR 0x80, CHR 0xA8],
      [CHR 0xE2, CHR 0x80, CHR 0xA9], [CHR 0xE2, CHR 0x80, CHR 0xAF],
      [CHR 0xE2, CHR 0x81, CHR 0x9F], [CHR 0xE3, CHR 0x80, CHR 0x80]]"

text \<open>Drop the first of the given pieces that the string starts with.\<close>

fun strip_one :: "string list \<Rightarrow> string \<Rightarrow> string option" where
  "strip_one [] s = None"
| "strip_one (p # ps) s =
     (if p \<noteq> [] \<and> take (length p) s = p then Some (drop (length p) s) else strip_one ps s)"

text \<open>One piece per round; the string bounds the number of rounds.\<close>

fun strip_many :: "nat \<Rightarrow> string list \<Rightarrow> string \<Rightarrow> string" where
  "strip_many 0 ps s = s"
| "strip_many (Suc n) ps s =
     (case strip_one ps s of None \<Rightarrow> s | Some r \<Rightarrow> strip_many n ps r)"

definition trim_left :: "string \<Rightarrow> string" where
  "trim_left s = strip_many (length s) space_runes s"

definition trim_right :: "string \<Rightarrow> string" where
  "trim_right s = rev (strip_many (length s) (map rev space_runes) (rev s))"

definition TrimSpace :: "string \<Rightarrow> string" where
  "TrimSpace s = trim_right (trim_left s)"

abbreviation blank :: "string \<Rightarrow> bool" where
  "blank s \<equiv> TrimSpace s = []"

section \<open>Time\<close>

definition second_ns :: int where
  "second_ns = 1000000000"

text \<open>\<^verbatim>\<open>Time.Sub\<close> saturates at the bounds of a signed 64-bit duration.\<close>

definition time_Sub :: "time \<Rightarrow> time \<Rightarrow> duration" where
  "time_Sub a b = max (- (2 ^ 63)) (min (2 ^ 63 - 1) (a - b))"

text \<open>\<^verbatim>\<open>Time.Truncate(time.Second)\<close> rounds down to a multiple of a second since the zero time.\<close>

definition truncate_second :: "time \<Rightarrow> time" where
  "truncate_second t = t - t mod second_ns"

section \<open>Readings of the outside world\<close>

record world =
  pos :: nat
  clock :: "nat \<Rightarrow> time"
  rand_byte :: "nat \<Rightarrow> nat \<Rightarrow> char"
  rand_err :: "nat \<Rightarrow> bool"
  uuid_v7 :: "nat \<Rightarrow> string option"

definition now :: "'a world_scheme \<Rightarrow> time \<times> 'a world_scheme" where
  "now w = (clock w (pos w), w\<lparr>pos := Suc (pos w)\<rparr>)"

text \<open>The same as a computation that never fails.\<close>

definition read_clock :: "'a world_scheme \<Rightarrow> (err + time) \<times> 'a world_scheme" where
  "read_clock w = (Inr (fst (now w)), snd (now w))"

text \<open>\<^verbatim>\<open>rand.Read\<close> into a buffer of \<open>n\<close> bytes.\<close>

definition rand_read :: "nat \<Rightarrow> 'a world_scheme \<Rightarrow> (err + string) \<times> 'a world_scheme" where
  "rand_read n w =
     ((if rand_err w (pos w) then Inl (EDriver ''rand'')
       else Inr (map (rand_byte w (pos w)) [0..<n])),
      w\<lparr>pos := Suc (pos w)\<rparr>)"

text \<open>\<^verbatim>\<open>uuid.NewV7().String()\<close>, of the package \<^verbatim>\<open>github.com/google/uuid\<close>.\<close>

definition uuid_NewV7 :: "'a world_scheme \<Rightarrow> (err + string) \<times> 'a world_scheme" where
  "uuid_NewV7 w =
     ((case uuid_v7 w (pos w) of None \<Rightarrow> Inl (EDriver ''uuid'') | Some u \<Rightarrow> Inr u),
      w\<lparr>pos := Suc (pos w)\<rparr>)"

text \<open>A world for the witnesses: a clock that advances by one second per reading.\<close>

definition sample_world :: world where
  "sample_world =
     \<lparr>pos = 0, clock = (\<lambda>n. (1000 + int n) * second_ns), rand_byte = (\<lambda>n i. char_of (n + i)),
      rand_err = (\<lambda>_. False), uuid_v7 = (\<lambda>n. Some (''id'' @ [char_of (n + 48)]))\<rparr>"

section \<open>Computations with early return\<close>

definition bindM ::
  "('s \<Rightarrow> (err + 'a) \<times> 's) \<Rightarrow> ('a \<Rightarrow> 's \<Rightarrow> (err + 'b) \<times> 's) \<Rightarrow> 's \<Rightarrow> (err + 'b) \<times> 's" where
  "bindM m k s = (case m s of (Inl e, s1) \<Rightarrow> (Inl e, s1) | (Inr v, s1) \<Rightarrow> k v s1)"

definition on_err :: "(err \<Rightarrow> err) \<Rightarrow> ('s \<Rightarrow> (err + 'a) \<times> 's) \<Rightarrow> 's \<Rightarrow> (err + 'a) \<times> 's" where
  "on_err f m s = (case m s of (Inl e, s1) \<Rightarrow> (Inl (f e), s1) | (Inr v, s1) \<Rightarrow> (Inr v, s1))"

definition retM :: "err + 'a \<Rightarrow> 's \<Rightarrow> (err + 'a) \<times> 's" where
  "retM r s = (r, s)"

section \<open>Shared lemmas\<close>

lemma retM_simps [simp]: "retM r s = (r, s)"
  by (simp add: retM_def)

lemma is_driver_simps [simp]: "is_driver (EDriver m)" "is_driver ENoRows" "is_driver EUnique"
  by (simp_all add: is_driver_def)

lemma is_driver_not_session [simp]: "\<not> is_driver (ESession e)"
  by (simp add: is_driver_def)

lemma is_driver_not_refresh [simp]: "\<not> is_driver (ERefresh e)"
  by (simp add: is_driver_def)

lemma is_driver_not_access [simp]: "\<not> is_driver (EAccess e)"
  by (simp add: is_driver_def)

lemma is_driver_not_account [simp]:
  "\<not> is_driver (EEmailpassword p)" "\<not> is_driver (EVerification v)" "\<not> is_driver (EReset r)"
  "\<not> is_driver (EGoogle g)" "\<not> is_driver (ETotp t)" "\<not> is_driver (EPasskey k)" "\<not> is_driver (EOidc o')"
  "\<not> is_driver (ESaml s)" "\<not> is_driver (EAdapter a)"
  by (simp_all add: is_driver_def)

lemma is_driverE: "is_driver e \<Longrightarrow> e = ENoRows \<or> e = EUnique \<or> (\<exists>m. e = EDriver m)"
  by (cases e) (auto simp: is_driver_def)

lemma driver_errors_is [err_simps]:
  assumes "is_driver e"
  shows "errors_is e (ESession s) = False" "errors_is e (ERefresh r) = False"
    "errors_is e (EToken t) = False" "errors_is e (EAccess a) = False"
    "errors_is e (EEmailpassword p) = False" "errors_is e (EVerification v) = False"
    "errors_is e (EReset q) = False" "errors_is e (EGoogle g) = False"
    "errors_is e (ETotp u) = False" "errors_is e (EPasskey k) = False" "errors_is e (EOidc o') = False"
    "errors_is e (ESaml w) = False"
  using is_driverE [OF assms] by auto

lemma is_driver_chain: "is_driver e \<Longrightarrow> driver_chain e"
  by (cases e) (auto simp: is_driver_def)

text \<open>
  The effects compose with the early return of Go: a computation takes the state and returns an
  error or a value with the new state. \<open>bindM m k\<close> is \<^verbatim>\<open>v, err := m(); if err != nil { return err }\<close>
  followed by \<open>k v\<close>, and \<open>on_err f m\<close> wraps the error as the \<^verbatim>\<open>return\<close> statement does.
\<close>

lemma fst_bindM_Inr:
  "(fst (bindM m k s) = Inr v) = (\<exists>a. fst (m s) = Inr a \<and> fst (k a (snd (m s))) = Inr v)"
  by (auto simp: bindM_def split: prod.splits sum.splits)

lemma fst_bindM_Inl:
  "(fst (bindM m k s) = Inl e) =
     (fst (m s) = Inl e \<or> (\<exists>a. fst (m s) = Inr a \<and> fst (k a (snd (m s))) = Inl e))"
  by (auto simp: bindM_def split: prod.splits sum.splits)

lemma bindM_Inr [simp]: "m s = (Inr a, s1) \<Longrightarrow> bindM m k s = k a s1"
  by (simp add: bindM_def)

lemma bindM_Inl [simp]: "m s = (Inl e, s1) \<Longrightarrow> bindM m k s = (Inl e, s1)"
  by (simp add: bindM_def)

lemma fst_on_err_Inr [simp]: "(fst (on_err f m s) = Inr v) = (fst (m s) = Inr v)"
  by (auto simp: on_err_def split: prod.splits sum.splits)

lemma snd_on_err [simp]: "snd (on_err f m s) = snd (m s)"
  by (auto simp: on_err_def split: prod.splits sum.splits)

lemma now_simps [simp]:
  "fst (now w) = clock w (pos w)"
  "snd (now w) = w\<lparr>pos := Suc (pos w)\<rparr>"
  by (simp_all add: now_def)

lemma read_clock_simps [simp]:
  "read_clock w = (Inr (clock w (pos w)), w\<lparr>pos := Suc (pos w)\<rparr>)"
  by (simp add: read_clock_def)

lemma rand_read_snd [simp]: "snd (rand_read n w) = w\<lparr>pos := Suc (pos w)\<rparr>"
  by (simp add: rand_read_def)

lemma rand_read_length: "fst (rand_read n w) = Inr bs \<Longrightarrow> length bs = n"
  by (auto simp: rand_read_def split: if_splits)

lemma uuid_NewV7_snd [simp]: "snd (uuid_NewV7 w) = w\<lparr>pos := Suc (pos w)\<rparr>"
  by (simp add: uuid_NewV7_def)

lemma strip_one_drop: "strip_one ps s = Some r \<Longrightarrow> \<exists>n>0. n \<le> length s \<and> r = drop n s"
proof (induction ps s rule: strip_one.induct)
  case (2 p ps s)
  show ?case
  proof (cases "p \<noteq> [] \<and> take (length p) s = p")
    case True
    then have "length p \<le> length s" by (metis length_take min.cobounded1)
    moreover have "r = drop (length p) s" using 2(2) True by simp
    ultimately show ?thesis using True by (intro exI [of _ "length p"]) simp
  next
    case False
    then have "strip_one ps s = Some r" using 2(2) by (auto split: if_splits)
    then show ?thesis using 2(1) False by blast
  qed
qed simp

lemma strip_many_suffix: "suffix (strip_many n ps s) s"
proof (induction n ps s rule: strip_many.induct)
  case (2 n ps s)
  show ?case
  proof (cases "strip_one ps s")
    case (Some r)
    then obtain k where "r = drop k s" using strip_one_drop by blast
    then have "suffix r s" by (simp add: suffix_drop)
    with 2 Some show ?thesis by (auto intro: suffix_order.trans)
  qed simp
qed simp

lemma strip_many_done: "length s \<le> n \<Longrightarrow> strip_one ps (strip_many n ps s) = None"
proof (induction n ps s rule: strip_many.induct)
  case (1 ps s)
  then show ?case by (induction ps) auto
next
  case (2 n ps s)
  show ?case
  proof (cases "strip_one ps s")
    case (Some r)
    then have "length r < length s" using strip_one_drop [OF Some] by auto
    with 2 Some show ?thesis by simp
  qed simp
qed

lemma strip_one_prefix: "strip_one ps t = None \<Longrightarrow> prefix s t \<Longrightarrow> strip_one ps s = None"
proof (induction ps t rule: strip_one.induct)
  case (2 p ps t)
  have "take (length p) s \<noteq> p \<or> p = []"
  proof (rule ccontr)
    assume "\<not> (take (length p) s \<noteq> p \<or> p = [])"
    then have "prefix p s" by (metis take_is_prefix)
    then have "prefix p t" using 2(3) prefix_order.trans by blast
    then have "take (length p) t = p" by (auto simp: prefix_def)
    with 2(2) \<open>\<not> _\<close> show False by simp
  qed
  moreover have "strip_one ps t = None" using 2(2) by (auto split: if_splits)
  ultimately show ?case using 2 by (auto split: if_splits)
qed simp

lemma strip_many_id: "strip_one ps s = None \<Longrightarrow> strip_many n ps s = s"
  by (cases n) auto

lemma trim_right_prefix: "prefix (trim_right s) s"
  using strip_many_suffix [of "length s" "map rev space_runes" "rev s"]
  by (simp add: trim_right_def suffix_to_prefix)

lemma TrimSpace_idem [simp]: "TrimSpace (TrimSpace s) = TrimSpace s"
proof -
  let ?l = "trim_left s"
  have "strip_one space_runes ?l = None" by (simp add: trim_left_def strip_many_done)
  then have "strip_one space_runes (trim_right ?l) = None"
    using strip_one_prefix trim_right_prefix by blast
  then have l: "trim_left (trim_right ?l) = trim_right ?l"
    unfolding trim_left_def [of "trim_right ?l"] by (rule strip_many_id)
  have "strip_one (map rev space_runes) (rev (trim_right ?l)) = None"
    by (simp add: trim_right_def strip_many_done)
  then have "trim_right (trim_right ?l) = trim_right ?l"
    by (simp add: trim_right_def [of "trim_right ?l"] strip_many_id)
  with l show ?thesis by (simp add: TrimSpace_def)
qed

lemma strip_one_other: "\<forall>p \<in> set ps. p \<noteq> [] \<longrightarrow> hd p \<notin> set s \<Longrightarrow> strip_one ps s = None"
proof (induction ps s rule: strip_one.induct)
  case (2 p ps s)
  have "take (length p) s \<noteq> p" if "p \<noteq> []"
    using 2(2) that by (metis hd_in_set in_set_takeD list.set_intros(1))
  with 2 show ?case by auto
qed simp

text \<open>A string without any byte that begins or ends an encoding of white space is kept as it is.\<close>

lemma TrimSpace_id:
  assumes "\<forall>p \<in> set space_runes. hd p \<notin> set s \<and> last p \<notin> set s"
  shows "TrimSpace s = s"
proof -
  have "strip_one space_runes s = None" using assms by (intro strip_one_other) blast
  moreover have "strip_one (map rev space_runes) (rev s) = None"
    using assms by (intro strip_one_other) (auto simp: hd_rev)
  ultimately show ?thesis by (simp add: TrimSpace_def trim_left_def trim_right_def strip_many_id)
qed

lemma TrimSpace_Nil [simp]: "TrimSpace [] = []"
  by (simp add: TrimSpace_def trim_left_def trim_right_def)

lemma truncate_second_le: "truncate_second t \<le> t"
  by (simp add: truncate_second_def second_ns_def)

lemma truncate_second_mono: "s \<le> t \<Longrightarrow> truncate_second s \<le> truncate_second t"
  by (simp add: truncate_second_def second_ns_def minus_mod_eq_mult_div zdiv_mono1)

lemma truncate_second_idem [simp]: "truncate_second (truncate_second t) = truncate_second t"
  by (simp add: truncate_second_def second_ns_def minus_mod_eq_mult_div)

lemma time_Sub_pos: "(0 < time_Sub a b) = (b < a)"
  by (auto simp: time_Sub_def)

lemma time_Sub_le: "b \<le> a \<Longrightarrow> time_Sub a b \<le> a - b"
  by (auto simp: time_Sub_def)

text \<open>A call that did not fail has a result.\<close>

lemma sample_result: "\<not> isl (fst x) \<Longrightarrow> \<exists>r w. x = (Inr r, w)"
  by (cases x; cases "fst x") auto

end
