(* ===== verification/Token.thy ===== *)
theory Token
  imports Prelude
begin

text \<open>
  The package \<^verbatim>\<open>token\<close> (src/token/token.go): opaque bearer credentials. \<^verbatim>\<open>Generate\<close> draws 32
  random bytes and returns their unpadded URL-safe base64 text with their SHA-256 digest;
  \<^verbatim>\<open>HashToken\<close> accepts exactly such a text and returns the digest. The base64 codec is the part of
  \<^verbatim>\<open>encoding/base64\<close> the sources use (raw encodings over the URL and the standard alphabet, the
  strict decoder, which skips carriage returns and line feeds). SHA-256 is the parameter \<open>sha\<close>:
  nothing here depends on what it computes.
\<close>

section \<open>Unpadded base64\<close>

definition b64_url :: string where
  "b64_url = ''ABCDEFGHIJKLMNOPQRSTUVWXYZabcdefghijklmnopqrstuvwxyz0123456789-_''"

definition b64_std :: string where
  "b64_std = ''ABCDEFGHIJKLMNOPQRSTUVWXYZabcdefghijklmnopqrstuvwxyz0123456789+/''"

text \<open>Three bytes become four digits below 64; a rest of one or two bytes two or three.\<close>

fun sextets :: "nat list \<Rightarrow> nat list" where
  "sextets (a # b # c # r) =
     a div 4 # (a mod 4 * 16 + b div 16) # (b mod 16 * 4 + c div 64) # c mod 64 # sextets r"
| "sextets [a, b] = [a div 4, a mod 4 * 16 + b div 16, b mod 16 * 4]"
| "sextets [a] = [a div 4, a mod 4 * 16]"
| "sextets [] = []"

text \<open>
  The decoder's quanta. A single left-over digit is corrupt input; in strict mode so are
  non-zero trailing bits.
\<close>

fun unsextets :: "bool \<Rightarrow> nat list \<Rightarrow> nat list option" where
  "unsextets strict (p # q # r # t # xs) =
     map_option (\<lambda>bs. (p * 4 + q div 16) # (q mod 16 * 16 + r div 4) # (r mod 4 * 64 + t) # bs)
       (unsextets strict xs)"
| "unsextets strict [p, q, r] =
     (if strict \<and> r mod 4 \<noteq> 0 then None else Some [p * 4 + q div 16, q mod 16 * 16 + r div 4])"
| "unsextets strict [p, q] =
     (if strict \<and> q mod 16 \<noteq> 0 then None else Some [p * 4 + q div 16])"
| "unsextets strict [p] = None"
| "unsextets strict [] = Some []"

fun b64_index :: "string \<Rightarrow> char \<Rightarrow> nat option" where
  "b64_index [] c = None"
| "b64_index (x # xs) c = (if x = c then Some 0 else map_option Suc (b64_index xs c))"

definition b64_encode :: "string \<Rightarrow> string \<Rightarrow> string" where
  "b64_encode alphabet bs = map (\<lambda>i. alphabet ! i) (sextets (map of_char bs))"

definition b64_decode :: "string \<Rightarrow> bool \<Rightarrow> string \<Rightarrow> string option" where
  "b64_decode alphabet strict s =
     (case those (map (b64_index alphabet) (filter (\<lambda>c. c \<noteq> CHR 0x0A \<and> c \<noteq> CHR 0x0D) s)) of
        None \<Rightarrow> None
      | Some xs \<Rightarrow> map_option (map char_of) (unsextets strict xs))"

definition b64_alphabet :: "string \<Rightarrow> bool" where
  "b64_alphabet al \<longleftrightarrow> distinct al \<and> length al = 64 \<and> CHR 0x0A \<notin> set al \<and> CHR 0x0D \<notin> set al"

section \<open>Tokens\<close>

definition entropyBytes :: nat where
  "entropyBytes = 32"

definition Generate ::
  "(string \<Rightarrow> hash) \<Rightarrow> 'a world_scheme \<Rightarrow> (err + string \<times> hash) \<times> 'a world_scheme" where
  "Generate sha w =
     (case rand_read entropyBytes w of
        (Inl e, w1) \<Rightarrow> (Inl e, w1)
      | (Inr random, w1) \<Rightarrow> (Inr (b64_encode b64_url random, sha random), w1))"

definition HashToken :: "(string \<Rightarrow> hash) \<Rightarrow> string \<Rightarrow> err + hash" where
  "HashToken sha rawToken =
     (case b64_decode b64_url True rawToken of
        None \<Rightarrow> Inl (EToken Token_ErrInvalidToken)
      | Some decoded \<Rightarrow>
          if length decoded \<noteq> entropyBytes \<or> b64_encode b64_url decoded \<noteq> rawToken
          then Inl (EToken Token_ErrInvalidToken)
          else Inr (sha decoded))"

section \<open>The codec is a bijection onto canonical texts\<close>

lemma unsextets_sextets:
  "\<forall>b \<in> set bs. b < 256 \<Longrightarrow> unsextets strict (sextets bs) = Some bs"
proof (induction bs rule: sextets.induct)
  case (1 a b c r)
  have "(a mod 4 * 16 + b div 16) div 16 = a mod 4" "(a mod 4 * 16 + b div 16) mod 16 = b div 16"
    "(b mod 16 * 4 + c div 64) div 4 = b mod 16" "(b mod 16 * 4 + c div 64) mod 4 = c div 64"
    using 1(2) by auto
  then show ?case using 1 by simp
next
  case (2 a b)
  have "(a mod 4 * 16 + b div 16) div 16 = a mod 4" "(a mod 4 * 16 + b div 16) mod 16 = b div 16"
    using 2 by auto
  then show ?case by simp
qed simp_all

lemma sextets_unsextets:
  "unsextets True xs = Some bs \<Longrightarrow> \<forall>x \<in> set xs. x < 64 \<Longrightarrow> sextets bs = xs"
proof (induction "True" xs arbitrary: bs rule: unsextets.induct)
  case (1 p q r t xs)
  then obtain cs where cs: "unsextets True xs = Some cs"
    and bs: "bs = (p * 4 + q div 16) # (q mod 16 * 16 + r div 4) # (r mod 4 * 64 + t) # cs"
    by auto
  have "(p * 4 + q div 16) div 4 = p" "(p * 4 + q div 16) mod 4 = q div 16"
    "(q mod 16 * 16 + r div 4) div 16 = q mod 16" "(q mod 16 * 16 + r div 4) mod 16 = r div 4"
    "(r mod 4 * 64 + t) div 64 = r mod 4" "(r mod 4 * 64 + t) mod 64 = t"
    using 1(3) by auto
  moreover have "sextets cs = xs" using 1 cs by simp
  ultimately show ?case by (simp add: bs)
next
  case (2 p q r)
  then have r: "r mod 4 = 0" and bs: "bs = [p * 4 + q div 16, q mod 16 * 16 + r div 4]"
    by (auto split: if_splits)
  have "(p * 4 + q div 16) div 4 = p" "(p * 4 + q div 16) mod 4 = q div 16"
    "(q mod 16 * 16 + r div 4) div 16 = q mod 16" "(q mod 16 * 16 + r div 4) mod 16 = r div 4"
    using 2(2) by auto
  then show ?case using r bs by auto
next
  case (3 p q)
  then show ?case by (auto split: if_splits)
qed auto

lemma sextets_lt: "\<forall>b \<in> set bs. b < 256 \<Longrightarrow> \<forall>x \<in> set (sextets bs). x < 64"
  by (induction bs rule: sextets.induct) auto

lemma length_sextets: "length (sextets bs) = (length bs * 4 + 2) div 3"
  by (induction bs rule: sextets.induct) auto

lemma b64_index_nth: "distinct xs \<Longrightarrow> i < length xs \<Longrightarrow> b64_index xs (xs ! i) = Some i"
proof (induction xs arbitrary: i)
  case (Cons x xs)
  then show ?case by (cases i) auto
qed simp

lemma b64_index_Some: "b64_index xs c = Some i \<Longrightarrow> i < length xs \<and> xs ! i = c"
  by (induction xs arbitrary: i) (auto split: if_splits)

lemma those_map_Some: "(\<forall>x \<in> set xs. f x = Some (g x)) \<Longrightarrow> those (map f xs) = Some (map g xs)"
  by (induction xs) auto

lemma those_Some: "those xs = Some ys \<Longrightarrow> xs = map Some ys"
  by (induction xs arbitrary: ys) (auto split: option.splits)

lemma b64_url_alphabet [simp]: "b64_alphabet b64_url"
  by (simp add: b64_alphabet_def b64_url_def)

lemma b64_std_alphabet [simp]: "b64_alphabet b64_std"
  by (simp add: b64_alphabet_def b64_std_def)

lemma byte_lt: "\<forall>b \<in> set (map of_char s). (b :: nat) < 256"
  by (auto simp: nat_of_char_less_256)

lemma set_b64_encode: "b64_alphabet al \<Longrightarrow> set (b64_encode al s) \<subseteq> set al"
  using sextets_lt [OF byte_lt, of s]
  by (auto simp: b64_encode_def b64_alphabet_def)

lemma length_b64_encode: "length (b64_encode al s) = (length s * 4 + 2) div 3"
  by (simp add: b64_encode_def length_sextets)

lemma b64_decode_encode:
  assumes "b64_alphabet al"
  shows "b64_decode al strict (b64_encode al s) = Some s"
proof -
  let ?xs = "sextets (map of_char s)"
  have lt: "\<forall>x \<in> set ?xs. x < 64" by (rule sextets_lt [OF byte_lt])
  have "filter (\<lambda>c. c \<noteq> CHR 0x0A \<and> c \<noteq> CHR 0x0D) (b64_encode al s) = b64_encode al s"
    using set_b64_encode [OF assms, of s] assms by (auto simp: filter_id_conv b64_alphabet_def)
  moreover have "those (map (b64_index al) (b64_encode al s)) = Some ?xs"
    using those_map_Some [of ?xs "b64_index al \<circ> (\<lambda>i. al ! i)" id] lt assms
    by (auto simp: b64_encode_def b64_index_nth b64_alphabet_def)
  ultimately show ?thesis
    by (simp add: b64_decode_def unsextets_sextets [OF byte_lt] comp_def)
qed

lemma b64_index_map:
  "map (b64_index al) cs = map Some xs \<Longrightarrow>
     map (\<lambda>i. al ! i) xs = cs \<and> (\<forall>x \<in> set xs. x < length al)"
proof (induction cs arbitrary: xs)
  case (Cons c cs)
  then obtain y ys where "xs = y # ys" "b64_index al c = Some y"
    "map (b64_index al) cs = map Some ys" by (cases xs) auto
  then show ?case using Cons.IH [of ys] b64_index_Some by auto
qed simp

lemma unsextets_lt:
  "unsextets st xs = Some bs \<Longrightarrow> \<forall>x \<in> set xs. x < 64 \<Longrightarrow> \<forall>b \<in> set bs. b < 256"
proof (induction st xs arbitrary: bs rule: unsextets.induct)
  case (1 strict p q r t xs)
  then show ?case by fastforce
qed (auto split: if_splits)

text \<open>What the strict decoder accepts is the encoding of its result, but for line breaks.\<close>

lemma b64_decode_canonical:
  assumes "b64_decode al True s = Some bs" and "b64_alphabet al"
  shows "b64_encode al bs = filter (\<lambda>c. c \<noteq> CHR 0x0A \<and> c \<noteq> CHR 0x0D) s"
proof -
  let ?t = "filter (\<lambda>c. c \<noteq> CHR 0x0A \<and> c \<noteq> CHR 0x0D) s"
  from assms(1) obtain xs ns where xs: "those (map (b64_index al) ?t) = Some xs"
    and ns: "unsextets True xs = Some ns" and bs: "bs = map char_of ns"
    by (auto simp: b64_decode_def split: option.splits)
  have idx: "map (b64_index al) ?t = map Some xs" using those_Some [OF xs] .
  have nth: "map (\<lambda>i. al ! i) xs = ?t \<and> (\<forall>x \<in> set xs. x < 64)"
    using b64_index_map [OF idx] assms(2) by (auto simp: b64_alphabet_def)
  then have "sextets ns = xs" using sextets_unsextets ns by blast
  moreover have "\<forall>n \<in> set ns. n < 256" using unsextets_lt [OF ns] nth by blast
  then have "map (of_char \<circ> char_of) ns = ns" by (auto simp: map_idI)
  ultimately show ?thesis using nth by (simp add: b64_encode_def bs)
qed

section \<open>Generation and hashing\<close>

lemma Generate_snd [simp]: "snd (Generate sha w) = w\<lparr>pos := Suc (pos w)\<rparr>"
  by (simp add: Generate_def rand_read_def)

lemma HashToken_encode:
  "length bs = entropyBytes \<Longrightarrow> HashToken sha (b64_encode b64_url bs) = Inr (sha bs)"
  by (simp add: HashToken_def b64_decode_encode)

lemma HashToken_InrD:
  "HashToken sha raw = Inr h \<Longrightarrow>
     \<exists>bs. length bs = entropyBytes \<and> raw = b64_encode b64_url bs \<and> h = sha bs"
  by (auto simp: HashToken_def split: option.splits if_splits)

lemma HashToken_Inl: "HashToken sha raw = Inl e \<Longrightarrow> e = EToken Token_ErrInvalidToken"
  by (auto simp: HashToken_def split: option.splits if_splits)

lemma Generate_hash: "fst (Generate sha w) = Inr (raw, h) \<Longrightarrow> HashToken sha raw = Inr h"
  by (auto simp: Generate_def rand_read_def entropyBytes_def split: if_splits
      intro!: HashToken_encode)

lemma b64_encode_inj: "b64_alphabet al \<Longrightarrow> b64_encode al a = b64_encode al b \<Longrightarrow> a = b"
  by (metis b64_decode_encode option.inject)

lemma b64_url_not_space: "\<forall>p \<in> set space_runes. hd p \<notin> set b64_url \<and> last p \<notin> set b64_url"
  by (simp add: space_runes_def b64_url_def)

lemma HashToken_not_blank:
  assumes "HashToken sha raw = Inr h"
  shows "\<not> blank raw"
proof -
  obtain bs where bs: "length bs = entropyBytes" "raw = b64_encode b64_url bs"
    using HashToken_InrD [OF assms] by blast
  then have "set raw \<subseteq> set b64_url" by (simp add: set_b64_encode)
  then have "TrimSpace raw = raw" using b64_url_not_space by (intro TrimSpace_id) blast
  moreover have "length raw = 43" using bs by (simp add: length_b64_encode entropyBytes_def)
  ultimately show ?thesis by auto
qed

text \<open>whatever a successful \<^verbatim>\<open>Generate\<close> returns is a text of 43 characters over the URL-safe
  alphabet that \<^verbatim>\<open>HashToken\<close> accepts, and it maps back to the very hash that was returned with it.\<close>

theorem Generate_HashToken_roundtrip:
  assumes "fst (Generate sha w) = Inr (raw, h)"
  shows "HashToken sha raw = Inr h \<and> length raw = 43 \<and> set raw \<subseteq> set b64_url"
proof -
  from assms obtain bs where "length bs = 32" "raw = b64_encode b64_url bs"
    using HashToken_InrD Generate_hash unfolding entropyBytes_def by blast
  then show ?thesis
    using Generate_hash [OF assms] set_b64_encode [of b64_url bs] by (simp add: length_b64_encode)
qed

theorem Generate_HashToken_roundtrip_witness:
  "HashToken (\<lambda>bs. of_nat (length bs)) (b64_encode b64_url (map char_of [0..<32])) = Inr 32"
  using Generate_HashToken_roundtrip
    [of "\<lambda>bs. of_nat (length bs)" sample_world "b64_encode b64_url (map char_of [0..<32])" 32]
  by (simp add: Generate_def rand_read_def sample_world_def entropyBytes_def)

text \<open>C32: \<^verbatim>\<open>HashToken\<close> accepts a text with hash \<open>h\<close> exactly when the text is the canonical
  encoding of some 32 bytes whose digest is \<open>h\<close>; every other text (wrong length, other
  characters, embedded line breaks, padding, non-zero trailing bits) is \<^verbatim>\<open>ErrInvalidToken\<close>.\<close>

theorem HashToken_accepts_exactly_canonical:
  "(HashToken sha raw = Inr h) =
     (\<exists>bs. length bs = 32 \<and> raw = b64_encode b64_url bs \<and> h = sha bs)"
  using HashToken_encode [of _ sha] HashToken_InrD [of sha raw h]
  by (auto simp: entropyBytes_def)

end
