(* ===== verification/Database.thy ===== *)
theory Database
  imports Prelude
begin

text \<open>
  What the storage adapters ask of a database server, and the shape in which every storage
  contract is stated.

  A connection holds the tables and two tapes: \<open>fault\<close> says which statements fail (a lost
  connection, a cancelled context), \<open>db_clock\<close> what the server's own clock reads. A statement that
  fails has no effect; a transaction runs its statements on the tables and restores them when one
  of them, or the commit, fails. Row locks (\<^verbatim>\<open>FOR UPDATE\<close>), \<^verbatim>\<open>WATCH\<close> and the isolation level make a
  transaction atomic, so it is one step here. A table is the list of its rows in physical order.

  \<open>implements\<close> is the refinement relation of the contracts: an operation keeps the representation
  invariant, and either reports a driver error and leaves the abstract state alone, or returns
  what the reference operation returns and reaches the abstract state it reaches.
\<close>

record 'db conn =
  tables :: 'db
  fault :: "nat \<Rightarrow> bool"
  stmt_pos :: nat
  db_clock :: "nat \<Rightarrow> time"
  found_rows :: bool

section \<open>Statements and transactions\<close>

definition stmt :: "('db \<Rightarrow> (err + 'a) \<times> 'db) \<Rightarrow> 'db conn \<Rightarrow> (err + 'a) \<times> 'db conn" where
  "stmt f c =
     (if fault c (stmt_pos c) then (Inl (EDriver ''connection''), c\<lparr>stmt_pos := Suc (stmt_pos c)\<rparr>)
      else (fst (f (tables c)), c\<lparr>tables := snd (f (tables c)), stmt_pos := Suc (stmt_pos c)\<rparr>))"

text \<open>\<^verbatim>\<open>Begin\<close> and \<^verbatim>\<open>Commit\<close> are calls of their own and can fail as well.\<close>

definition transaction ::
  "('db conn \<Rightarrow> (err + 'a) \<times> 'db conn) \<Rightarrow> 'db conn \<Rightarrow> (err + 'a) \<times> 'db conn" where
  "transaction body c =
     (case bindM (stmt (\<lambda>d. (Inr (), d)))
             (\<lambda>_. bindM body (\<lambda>v. bindM (stmt (\<lambda>d. (Inr (), d))) (\<lambda>_. retM (Inr v)))) c of
        (Inl e, c1) \<Rightarrow> (Inl e, c1\<lparr>tables := tables c\<rparr>)
      | (Inr v, c1) \<Rightarrow> (Inr v, c1))"

text \<open>The time the server's \<^verbatim>\<open>CURRENT_TIMESTAMP\<close> has while a statement runs.\<close>

definition server_now :: "'db conn \<Rightarrow> time" where
  "server_now c = db_clock c (stmt_pos c)"

text \<open>
  SQL on one table: \<open>sql_insert\<close> checks the table's unique keys; \<open>sql_update\<close> returns the rows it
  matched, as they are afterwards.
\<close>

definition sql_insert :: "('r \<Rightarrow> 'r \<Rightarrow> bool) \<Rightarrow> 'r \<Rightarrow> 'r list \<Rightarrow> (err + unit) \<times> 'r list" where
  "sql_insert same_key r t =
     (if list_ex (same_key r) t then (Inl EUnique, t) else (Inr (), t @ [r]))"

definition sql_select :: "('r \<Rightarrow> bool) \<Rightarrow> 'r list \<Rightarrow> 'r list" where
  "sql_select p t = filter p t"

definition sql_update :: "('r \<Rightarrow> bool) \<Rightarrow> ('r \<Rightarrow> 'r) \<Rightarrow> 'r list \<Rightarrow> 'r list \<times> 'r list" where
  "sql_update p f t = (map f (filter p t), map (\<lambda>r. if p r then f r else r) t)"

definition sql_delete :: "('r \<Rightarrow> bool) \<Rightarrow> 'r list \<Rightarrow> 'r list \<times> 'r list" where
  "sql_delete p t = (filter p t, filter (\<lambda>r. \<not> p r) t)"

text \<open>\<^verbatim>\<open>QueryRow(...).Scan(...)\<close>: the first row, or the driver's "no rows" error.\<close>

definition first_row :: "'r list \<Rightarrow> err + 'r" where
  "first_row rows = (case rows of [] \<Rightarrow> Inl ENoRows | r # _ \<Rightarrow> Inr r)"

text \<open>\<^verbatim>\<open>ORDER BY created_at DESC\<close>; rows created at the same instant keep their physical order.\<close>

definition order_desc :: "('r \<Rightarrow> time) \<Rightarrow> 'r list \<Rightarrow> 'r list" where
  "order_desc created rows = sort_key (\<lambda>r. - created r) rows"

text \<open>The finite map that a table with the key column \<open>k\<close> is.\<close>

definition keyed :: "('r \<Rightarrow> 'k) \<Rightarrow> 'r list \<Rightarrow> ('k \<rightharpoonup> 'r)" where
  "keyed k t = map_of (map (\<lambda>r. (k r, r)) t)"

section \<open>Contracts as refinement\<close>

definition implements ::
  "('s \<Rightarrow> 'a) \<Rightarrow> ('s \<Rightarrow> bool) \<Rightarrow> ('s \<Rightarrow> (err + 'r) \<times> 's) \<Rightarrow> ('a \<Rightarrow> (err + 'r) \<Rightarrow> 'a \<Rightarrow> bool) \<Rightarrow> bool"
where
  "implements view ok op spec \<longleftrightarrow>
     (\<forall>s. ok s \<longrightarrow> ok (snd (op s)) \<and>
        ((\<exists>e. is_driver e \<and> fst (op s) = Inl e) \<and> view (snd (op s)) = view s \<or>
         spec (view s) (fst (op s)) (view (snd (op s)))))"

text \<open>The same under a condition on the abstract state.\<close>

definition implements_when ::
  "('s \<Rightarrow> 'a) \<Rightarrow> ('s \<Rightarrow> bool) \<Rightarrow> ('a \<Rightarrow> bool) \<Rightarrow> ('s \<Rightarrow> (err + 'r) \<times> 's) \<Rightarrow>
     ('a \<Rightarrow> (err + 'r) \<Rightarrow> 'a \<Rightarrow> bool) \<Rightarrow> bool"
where
  "implements_when view ok pre op spec \<longleftrightarrow>
     (\<forall>s. ok s \<and> pre (view s) \<longrightarrow> ok (snd (op s)) \<and>
        ((\<exists>e. is_driver e \<and> fst (op s) = Inl e) \<and> view (snd (op s)) = view s \<or>
         spec (view s) (fst (op s)) (view (snd (op s)))))"

text \<open>A reference operation that is a function.\<close>

definition fun_spec :: "('a \<Rightarrow> (err + 'r) \<times> 'a) \<Rightarrow> 'a \<Rightarrow> (err + 'r) \<Rightarrow> 'a \<Rightarrow> bool" where
  "fun_spec f a r b \<longleftrightarrow> f a = (r, b)"

text \<open>
  Operations built from statements fail only with the connection's error; otherwise they do what
  they do on a connection without faults. \<open>steps\<close> says so of a transaction body, \<open>robust\<close> of an
  operation that in addition has no effect when it fails.
\<close>

definition quiet :: "'db conn \<Rightarrow> 'db conn" where
  "quiet c = c\<lparr>fault := (\<lambda>_. False)\<rparr>"

definition connection_error :: err where
  "connection_error = EDriver ''connection''"

definition steps :: "('db conn \<Rightarrow> (err + 'a) \<times> 'db conn) \<Rightarrow> bool" where
  "steps op \<longleftrightarrow>
     (\<forall>c. found_rows (snd (op c)) = found_rows c \<and> fault (snd (op c)) = fault c \<and>
        (fst (op c) = Inl connection_error \<or>
         op c = (fst (op (quiet c)), (snd (op (quiet c)))\<lparr>fault := fault c\<rparr>)))"

definition robust :: "('db conn \<Rightarrow> (err + 'a) \<times> 'db conn) \<Rightarrow> bool" where
  "robust op \<longleftrightarrow>
     (\<forall>c. found_rows (snd (op c)) = found_rows c \<and> fault (snd (op c)) = fault c \<and>
        (fst (op c) = Inl connection_error \<and> tables (snd (op c)) = tables c \<or>
         op c = (fst (op (quiet c)), (snd (op (quiet c)))\<lparr>fault := fault c\<rparr>)))"

section \<open>Lemmas\<close>

lemma implementsI:
  assumes "\<And>s. ok s \<Longrightarrow> ok (snd (op s))"
    and "\<And>s. ok s \<Longrightarrow> (\<exists>e. is_driver e \<and> fst (op s) = Inl e) \<and> view (snd (op s)) = view s \<or>
           spec (view s) (fst (op s)) (view (snd (op s)))"
  shows "implements view ok op spec"
  using assms unfolding implements_def by blast

lemma implements_inv: "implements view ok op spec \<Longrightarrow> ok s \<Longrightarrow> ok (snd (op s))"
  by (simp add: implements_def)

lemma implements_cases:
  assumes "implements view ok op spec" and "ok s"
  obtains (driver) e where "is_driver e" "fst (op s) = Inl e" "view (snd (op s)) = view s"
  | (spec) "spec (view s) (fst (op s)) (view (snd (op s)))"
  using assms unfolding implements_def by blast

lemma implements_when_inv: "implements_when view ok pre op spec \<Longrightarrow> ok s \<Longrightarrow> pre (view s) \<Longrightarrow> ok (snd (op s))"
  by (simp add: implements_when_def)

lemma implements_when_cases:
  assumes "implements_when view ok pre op spec" and "ok s" and "pre (view s)"
  obtains (driver) e where "is_driver e" "fst (op s) = Inl e" "view (snd (op s)) = view s"
  | (spec) "spec (view s) (fst (op s)) (view (snd (op s)))"
  using assms unfolding implements_when_def by blast

lemma implements_Inr:
  "implements view ok op spec \<Longrightarrow> ok s \<Longrightarrow> fst (op s) = Inr v \<Longrightarrow>
     spec (view s) (Inr v) (view (snd (op s)))"
  by (auto simp: implements_def)

lemma implements_weaken:
  "implements view ok op (\<lambda>a r b. (\<exists>e. is_driver e \<and> r = Inl e) \<and> b = a \<or> spec a r b) \<Longrightarrow>
     implements view ok op spec"
  by (simp add: implements_def)

lemma implements_mono:
  "implements view ok op spec \<Longrightarrow> (\<And>a r b. spec a r b \<Longrightarrow> spec' a r b) \<Longrightarrow> implements view ok op spec'"
  unfolding implements_def by blast

text \<open>An operation followed by a computation on its result alone.\<close>

lemma implements_then_ret:
  assumes op: "implements view ok op spec"
    and sp: "\<And>a x b. spec a x b \<Longrightarrow> spec' a (case x of Inl e \<Rightarrow> Inl e | Inr v \<Rightarrow> g v) b"
  shows "implements view ok (bindM op (\<lambda>v. retM (g v))) spec'"
proof (rule implementsI)
  fix s assume s: "ok s"
  have snds: "snd (bindM op (\<lambda>v. retM (g v)) s) = snd (op s)"
    and fsts: "fst (bindM op (\<lambda>v. retM (g v)) s) = (case fst (op s) of Inl e \<Rightarrow> Inl e | Inr v \<Rightarrow> g v)"
    by (simp_all add: bindM_def split: prod.split sum.split)
  show "ok (snd (bindM op (\<lambda>v. retM (g v)) s))" using implements_inv [OF op s] snds by simp
  from op s show "(\<exists>e. is_driver e \<and> fst (bindM op (\<lambda>v. retM (g v)) s) = Inl e) \<and>
      view (snd (bindM op (\<lambda>v. retM (g v)) s)) = view s \<or>
    spec' (view s) (fst (bindM op (\<lambda>v. retM (g v)) s)) (view (snd (bindM op (\<lambda>v. retM (g v)) s)))"
    unfolding snds fsts
  proof (cases rule: implements_cases)
    case spec
    then show "(\<exists>e. is_driver e \<and> (case fst (op s) of Inl e \<Rightarrow> Inl e | Inr v \<Rightarrow> g v) = Inl e) \<and>
        view (snd (op s)) = view s \<or>
      spec' (view s) (case fst (op s) of Inl e \<Rightarrow> Inl e | Inr v \<Rightarrow> g v) (view (snd (op s)))"
      using sp by blast
  qed auto
qed

lemma stmt_tables_frame [simp]:
  "fault (snd (stmt f c)) = fault c" "db_clock (snd (stmt f c)) = db_clock c"
  "found_rows (snd (stmt f c)) = found_rows c"
  by (simp_all add: stmt_def)

lemma stmt_cases:
  obtains (fault) "fst (stmt f c) = Inl (EDriver ''connection'')" "tables (snd (stmt f c)) = tables c"
  | (run) "fst (stmt f c) = fst (f (tables c))" "tables (snd (stmt f c)) = snd (f (tables c))"
  by (cases "fault c (stmt_pos c)") (simp_all add: stmt_def)

lemma is_driver_connection_error [simp]: "is_driver connection_error"
  by (simp add: connection_error_def)

lemma connection_error_simps [simp]:
  "connection_error \<noteq> EUnique" "connection_error \<noteq> ENoRows"
  "connection_error \<noteq> ESession se" "connection_error \<noteq> ERefresh re"
  "EUnique \<noteq> connection_error" "ENoRows \<noteq> connection_error"
  "ESession se \<noteq> connection_error" "ERefresh re \<noteq> connection_error"
  "connection_error \<noteq> EEmailpassword pe" "connection_error \<noteq> EVerification ve"
  "connection_error \<noteq> EReset te" "connection_error \<noteq> EGoogle ge"
  "EEmailpassword pe \<noteq> connection_error" "EVerification ve \<noteq> connection_error"
  "EReset te \<noteq> connection_error" "EGoogle ge \<noteq> connection_error"
  "errors_is connection_error e = (e = connection_error)"
  by (auto simp: connection_error_def)

lemma quiet_simps [simp]:
  "fault (quiet c) = (\<lambda>_. False)" "tables (quiet c) = tables c" "found_rows (quiet c) = found_rows c"
  "stmt_pos (quiet c) = stmt_pos c" "db_clock (quiet c) = db_clock c"
  by (simp_all add: quiet_def)

lemma stmt_quiet:
  "fault c = (\<lambda>_. False) \<Longrightarrow>
     stmt f c = (fst (f (tables c)), c\<lparr>tables := snd (f (tables c)), stmt_pos := Suc (stmt_pos c)\<rparr>)"
  by (simp add: stmt_def)

lemma steps_stmt [simp, intro!]: "steps (stmt f)"
  by (auto simp: steps_def stmt_def quiet_def connection_error_def)

lemma robust_stmt [intro!]: "robust (stmt f)"
  by (auto simp: robust_def stmt_def quiet_def connection_error_def)

lemma steps_retM [simp, intro!]: "steps (retM r)"
  by (simp add: steps_def quiet_def)

lemma robust_retM [intro!]: "robust (retM r)"
  by (simp add: robust_def quiet_def)

lemma quiet_upd_fault: "fault c = (\<lambda>_. False) \<Longrightarrow> quiet (c\<lparr>fault := f\<rparr>) = c"
  by (simp add: quiet_def)

lemma steps_frame:
  "steps op \<Longrightarrow> found_rows (snd (op c)) = found_rows c"
  "steps op \<Longrightarrow> fault (snd (op c)) = fault c"
  by (simp_all add: steps_def)

lemma steps_run [consumes 1, case_names lost run]:
  assumes "steps op"
  obtains (lost) "fst (op c) = Inl connection_error"
  | (run) "op c = (fst (op (quiet c)), (snd (op (quiet c)))\<lparr>fault := fault c\<rparr>)"
  using assms unfolding steps_def by blast

lemma snd_bindM:
  "snd (bindM m k s) = (case fst (m s) of Inl e \<Rightarrow> snd (m s) | Inr v \<Rightarrow> snd (k v (snd (m s))))"
  by (simp add: bindM_def split: prod.split sum.split)

lemma bindM_eq:
  "bindM m k s = (case fst (m s) of Inl e \<Rightarrow> (Inl e, snd (m s)) | Inr v \<Rightarrow> k v (snd (m s)))"
  by (simp add: bindM_def split: prod.split sum.split)

lemma on_err_eq:
  "on_err f m s = ((case fst (m s) of Inl e \<Rightarrow> Inl (f e) | Inr v \<Rightarrow> Inr v), snd (m s))"
  by (simp add: on_err_def split: prod.split sum.split)

lemma steps_bindM [simp, intro!]:
  assumes a: "steps a" and k: "\<And>v. steps (k v)"
  shows "steps (bindM a k)"
  unfolding steps_def
proof (intro allI conjI)
  fix c
  show "found_rows (snd (bindM a k c)) = found_rows c" "fault (snd (bindM a k c)) = fault c"
    by (simp_all add: snd_bindM steps_frame [OF a] steps_frame [OF k] split: sum.split)
  let ?q = "a (quiet c)"
  have fq: "fault (snd ?q) = (\<lambda>_. False)" by (simp add: steps_frame [OF a])
  show "fst (bindM a k c) = Inl connection_error \<or>
    bindM a k c = (fst (bindM a k (quiet c)), (snd (bindM a k (quiet c)))\<lparr>fault := fault c\<rparr>)"
  using a
  proof (cases rule: steps_run [where op = a and c = c])
    case lost
    then show ?thesis by (simp add: bindM_eq)
  next
    case run
    show ?thesis
    proof (cases "fst ?q")
      case (Inl e)
      then show ?thesis by (simp add: bindM_eq run)
    next
      case (Inr v)
      let ?c1 = "(snd ?q)\<lparr>fault := fault c\<rparr>"
      have q: "quiet ?c1 = snd ?q" using fq by (rule quiet_upd_fault)
      have e: "bindM a k c = k v ?c1" "bindM a k (quiet c) = k v (snd ?q)"
        by (simp_all add: bindM_eq run Inr)
      show ?thesis using k [of v]
        by (cases rule: steps_run [where op = "k v" and c = ?c1]) (simp_all add: q e)
    qed
  qed
qed

lemma steps_on_err [simp, intro!]:
  assumes m: "steps m" and f: "f connection_error = connection_error"
  shows "steps (on_err f m)"
  unfolding steps_def
proof (intro allI conjI)
  fix c
  show "found_rows (snd (on_err f m c)) = found_rows c" "fault (snd (on_err f m c)) = fault c"
    by (simp_all add: on_err_eq steps_frame [OF m])
  show "fst (on_err f m c) = Inl connection_error \<or>
    on_err f m c = (fst (on_err f m (quiet c)), (snd (on_err f m (quiet c)))\<lparr>fault := fault c\<rparr>)"
    using m by (cases rule: steps_run [where op = m and c = c]) (simp_all add: on_err_eq f)
qed

lemma steps_if [simp, intro!]: "steps a \<Longrightarrow> steps b \<Longrightarrow> steps (if p then a else b)"
  by simp

lemma robust_steps: "robust op \<Longrightarrow> steps op"
  by (auto simp: robust_def steps_def)

text \<open>A transaction of statements is robust.\<close>

lemma transaction_eq:
  "transaction body c =
     (case bindM (stmt (\<lambda>d. (Inr (), d)))
             (\<lambda>_. bindM body (\<lambda>v. bindM (stmt (\<lambda>d. (Inr (), d))) (\<lambda>_. retM (Inr v)))) c of
        (r, c1) \<Rightarrow> (r, if isl r then c1\<lparr>tables := tables c\<rparr> else c1))"
  by (simp add: transaction_def split: prod.split sum.split)

lemma transaction_Inl:
  "fst (transaction body c) = Inl e \<Longrightarrow> tables (snd (transaction body c)) = tables c"
  by (auto simp: transaction_eq split: prod.splits)

lemma robust_transaction [intro!]:
  assumes body: "steps body"
  shows "robust (transaction body)"
proof -
  let ?op = "bindM (stmt (\<lambda>d. (Inr (), d)))
             (\<lambda>_. bindM body (\<lambda>v. bindM (stmt (\<lambda>d. (Inr (), d))) (\<lambda>_. retM (Inr v))))"
  have op: "steps ?op" using body by blast
  have tr: "transaction body c =
      (fst (?op c), if isl (fst (?op c)) then (snd (?op c))\<lparr>tables := tables c\<rparr> else snd (?op c))" for c
    by (simp add: transaction_eq split: prod.split)
  show ?thesis
    unfolding robust_def
  proof (intro allI conjI)
    fix c
    show "found_rows (snd (transaction body c)) = found_rows c"
      "fault (snd (transaction body c)) = fault c"
      by (simp_all add: tr steps_frame [OF op])
    show "fst (transaction body c) = Inl connection_error \<and>
        tables (snd (transaction body c)) = tables c \<or>
      transaction body c =
        (fst (transaction body (quiet c)), (snd (transaction body (quiet c)))\<lparr>fault := fault c\<rparr>)"
      using op by (cases rule: steps_run [where op = ?op and c = c]) (simp_all add: tr)
  qed
qed

lemma transaction_quiet:
  assumes body: "steps body" and c: "fault c = (\<lambda>_. False)"
  shows "fst (transaction body c) = fst (body (c\<lparr>stmt_pos := Suc (stmt_pos c)\<rparr>))"
    and "tables (snd (transaction body c)) =
      (if isl (fst (body (c\<lparr>stmt_pos := Suc (stmt_pos c)\<rparr>))) then tables c
       else tables (snd (body (c\<lparr>stmt_pos := Suc (stmt_pos c)\<rparr>))))"
  using c steps_frame [OF body, of "c\<lparr>stmt_pos := Suc (stmt_pos c)\<rparr>"]
  by (simp_all add: transaction_eq bindM_eq stmt_quiet split: prod.split sum.split)

lemma robust_on_err [intro!]:
  assumes m: "robust m" and f: "f connection_error = connection_error"
  shows "robust (on_err f m)"
  unfolding robust_def
proof (intro allI conjI)
  fix c
  have frame: "found_rows (snd (m c)) = found_rows c" "fault (snd (m c)) = fault c"
    using m by (simp_all add: robust_def)
  show "found_rows (snd (on_err f m c)) = found_rows c" "fault (snd (on_err f m c)) = fault c"
    by (simp_all add: on_err_eq frame)
  have "fst (m c) = Inl connection_error \<and> tables (snd (m c)) = tables c \<or>
      m c = (fst (m (quiet c)), (snd (m (quiet c)))\<lparr>fault := fault c\<rparr>)"
    using m by (simp add: robust_def)
  then show "fst (on_err f m c) = Inl connection_error \<and> tables (snd (on_err f m c)) = tables c \<or>
      on_err f m c = (fst (on_err f m (quiet c)), (snd (on_err f m (quiet c)))\<lparr>fault := fault c\<rparr>)"
    by (elim disjE) (simp_all add: on_err_eq f)
qed

text \<open>An operation followed by a computation that asks nothing of the server.\<close>

lemma robust_then_ret [intro!]:
  assumes m: "robust m"
  shows "robust (bindM m (\<lambda>v. retM (g v)))"
  unfolding robust_def
proof (intro allI conjI)
  fix c
  have frame: "found_rows (snd (m c)) = found_rows c" "fault (snd (m c)) = fault c"
    using m by (simp_all add: robust_def)
  show "found_rows (snd (bindM m (\<lambda>v. retM (g v)) c)) = found_rows c"
    "fault (snd (bindM m (\<lambda>v. retM (g v)) c)) = fault c"
    by (simp_all add: snd_bindM frame split: sum.split)
  have "fst (m c) = Inl connection_error \<and> tables (snd (m c)) = tables c \<or>
      m c = (fst (m (quiet c)), (snd (m (quiet c)))\<lparr>fault := fault c\<rparr>)"
    using m by (simp add: robust_def)
  then show "fst (bindM m (\<lambda>v. retM (g v)) c) = Inl connection_error \<and>
        tables (snd (bindM m (\<lambda>v. retM (g v)) c)) = tables c \<or>
      bindM m (\<lambda>v. retM (g v)) c =
        (fst (bindM m (\<lambda>v. retM (g v)) (quiet c)),
         (snd (bindM m (\<lambda>v. retM (g v)) (quiet c)))\<lparr>fault := fault c\<rparr>)"
    by (elim disjE) (simp_all add: bindM_eq split: sum.split)
qed

text \<open>
  The rule by which every adapter operation is shown to meet its contract: only the run on a
  connection without faults has to be looked at.
\<close>

lemma implements_robust:
  fixes op :: "'db conn \<Rightarrow> (err + 'a) \<times> 'db conn"
  assumes op: "robust op"
    and run: "\<And>c. fault c = (\<lambda>_. False) \<Longrightarrow> okt (found_rows c) (tables c) \<Longrightarrow>
      okt (found_rows c) (tables (snd (op c))) \<and>
      spec (vw (tables c)) (fst (op c)) (vw (tables (snd (op c))))"
  shows "implements (\<lambda>c. vw (tables c)) (\<lambda>c. okt (found_rows c) (tables c)) op spec"
proof (rule implementsI)
  fix c :: "'db conn"
  assume ok: "okt (found_rows c) (tables c)"
  have q: "okt (found_rows c) (tables (snd (op (quiet c)))) \<and>
      spec (vw (tables c)) (fst (op (quiet c))) (vw (tables (snd (op (quiet c)))))"
    using run [of "quiet c"] ok by simp
  have frame: "found_rows (snd (op c)) = found_rows c" using op by (simp add: robust_def)
  have "fst (op c) = Inl connection_error \<and> tables (snd (op c)) = tables c \<or>
      op c = (fst (op (quiet c)), (snd (op (quiet c)))\<lparr>fault := fault c\<rparr>)"
    using op by (simp add: robust_def)
  then consider (lost) "fst (op c) = Inl connection_error" "tables (snd (op c)) = tables c"
    | (run) "fst (op c) = fst (op (quiet c))" "tables (snd (op c)) = tables (snd (op (quiet c)))"
    by (metis (no_types, lifting) conn.select_convs(1) conn.surjective conn.update_convs(2) fst_conv snd_conv)
  then have "okt (found_rows (snd (op c))) (tables (snd (op c))) \<and>
      ((\<exists>e. is_driver e \<and> fst (op c) = Inl e) \<and> vw (tables (snd (op c))) = vw (tables c) \<or>
       spec (vw (tables c)) (fst (op c)) (vw (tables (snd (op c)))))"
    by cases (use ok q frame in simp_all)
  then show "okt (found_rows (snd (op c))) (tables (snd (op c)))"
    and "(\<exists>e. is_driver e \<and> fst (op c) = Inl e) \<and> vw (tables (snd (op c))) = vw (tables c) \<or>
       spec (vw (tables c)) (fst (op c)) (vw (tables (snd (op c))))" by blast+
qed

lemma steps_server_stmt [simp, intro!]: "steps (\<lambda>c. stmt (f (server_now c)) c)"
  by (auto simp: steps_def stmt_def quiet_def connection_error_def server_now_def)

lemma robust_server_stmt [intro!]: "robust (\<lambda>c. stmt (f (server_now c)) c)"
  by (auto simp: robust_def stmt_def quiet_def connection_error_def server_now_def)

text \<open>Tables as maps.\<close>

lemma keyed_Nil [simp]: "keyed k [] = Map.empty"
  by (simp add: keyed_def)

lemma keyed_Some:
  "distinct (map k t) \<Longrightarrow> (keyed k t h = Some r) = (r \<in> set t \<and> k r = h)"
  unfolding keyed_def by (subst map_of_eq_Some_iff) (auto simp: comp_def)

lemma keyed_None: "(keyed k t h = None) = (\<forall>r \<in> set t. k r \<noteq> h)"
  by (induction t) (auto simp: keyed_def)

lemma ran_keyed: "distinct (map k t) \<Longrightarrow> ran (keyed k t) = set t"
  by (auto simp: ran_def keyed_Some)

lemma keyed_Cons [simp]: "keyed k (r # t) = (keyed k t)(k r \<mapsto> r)"
  by (simp add: keyed_def)

lemma keyed_key: "keyed k t h = Some r \<Longrightarrow> k r = h"
  by (induction t) (auto split: if_splits)

lemma keyed_append:
  "\<forall>q \<in> set t. k q \<noteq> k r \<Longrightarrow> keyed k (t @ [r]) = (keyed k t)(k r \<mapsto> r)"
  by (induction t) (auto simp: keyed_def fun_upd_twist)

lemma keyed_map:
  assumes "\<And>r. r \<in> set t \<Longrightarrow> k (g r) = k r"
  shows "keyed k (map g t) h = map_option g (keyed k t h)"
  using assms by (induction t) (auto simp: keyed_def)

lemma first_row_keyed:
  "distinct (map k t) \<Longrightarrow>
     first_row (filter (\<lambda>r. k r = h) t) =
       (case keyed k t h of None \<Rightarrow> Inl ENoRows | Some r \<Rightarrow> Inr r)"
  by (induction t) (auto simp: first_row_def split: option.splits)

lemma first_row_keyed_map:
  assumes "distinct (map k t)" and "\<And>r. k (g r) = k r"
  shows "first_row (filter (\<lambda>r. k r = h) (map g t)) =
    (case keyed k t h of None \<Rightarrow> Inl ENoRows | Some r \<Rightarrow> Inr (g r))"
proof -
  have "distinct (map k (map g t))" using assms by (simp add: comp_def)
  then show ?thesis
    using keyed_map [of t k g h] by (simp add: first_row_keyed assms(2) split: option.split)
qed

lemma filter_keyed:
  "distinct (map k t) \<Longrightarrow>
     filter (\<lambda>r. k r = h \<and> p r) t =
       (case keyed k t h of None \<Rightarrow> [] | Some r \<Rightarrow> if p r then [r] else [])"
proof (induction t)
  case (Cons r t)
  then have "k r = h \<Longrightarrow> keyed k t h = None" by (auto simp: keyed_None image_iff)
  with Cons show ?case by (auto split: option.splits)
qed simp

lemma filter_keyed_eq:
  "distinct (map k t) \<Longrightarrow>
     filter (\<lambda>r. k r = h) t = (case keyed k t h of None \<Rightarrow> [] | Some r \<Rightarrow> [r])"
  using filter_keyed [of k t h "\<lambda>_. True"] by (simp split: option.split)

lemma keyed_update_one:
  assumes "distinct (map k t)" and "\<And>r. k (f r) = k r"
  shows "keyed k (map (\<lambda>r. if k r = h \<and> p r then f r else r) t) =
    (case keyed k t h of None \<Rightarrow> keyed k t
     | Some r \<Rightarrow> if p r then (keyed k t)(h \<mapsto> f r) else keyed k t)"
proof
  fix x
  have "keyed k (map (\<lambda>r. if k r = h \<and> p r then f r else r) t) x =
      map_option (\<lambda>r. if k r = h \<and> p r then f r else r) (keyed k t x)"
    by (rule keyed_map) (simp add: assms(2))
  then show "keyed k (map (\<lambda>r. if k r = h \<and> p r then f r else r) t) x =
    (case keyed k t h of None \<Rightarrow> keyed k t
     | Some r \<Rightarrow> if p r then (keyed k t)(h \<mapsto> f r) else keyed k t) x"
    by (cases "keyed k t x"; cases "x = h") (auto dest: keyed_key split: option.split)
qed

lemma keyed_update_key:
  assumes "distinct (map k t)" and "\<And>r. k (f r) = k r"
  shows "keyed k (map (\<lambda>r. if k r = h then f r else r) t) =
    (case keyed k t h of None \<Rightarrow> keyed k t | Some r \<Rightarrow> (keyed k t)(h \<mapsto> f r))"
  using keyed_update_one [OF assms, of h "\<lambda>_. True"] by (simp split: option.split)

lemma first_row_Inr: "(first_row rows = Inr r) = (\<exists>rs. rows = r # rs)"
  by (auto simp: first_row_def split: list.splits)

lemma first_row_Inl: "(first_row rows = Inl e) = (rows = [] \<and> e = ENoRows)"
  by (auto simp: first_row_def split: list.splits)

lemma set_order_desc [simp]: "set (order_desc c rows) = set rows"
  by (simp add: order_desc_def)

lemma sorted_order_desc: "sorted_wrt (\<lambda>a b. c b \<le> c a) (order_desc c rows)"
proof -
  have "sorted (map (\<lambda>r. - c r) (order_desc c rows))" by (simp add: order_desc_def)
  then show ?thesis by (simp add: sorted_map)
qed

lemma distinct_order_desc [simp]: "distinct (order_desc c rows) = distinct rows"
  by (simp add: order_desc_def)

end
