(* ===== verification/Sessiontoken.thy ===== *)
theory Sessiontoken
  imports Token Database
begin

text \<open>
  The package \<^verbatim>\<open>sessiontoken\<close> (src/sessiontoken/sessiontoken.go): opaque server-side sessions. The
  Go interfaces \<^verbatim>\<open>Store\<close> and \<^verbatim>\<open>Cache\<close> are records of operations; the manager is modelled over any
  such records. The contract that the comment on \<^verbatim>\<open>Store\<close> states is the locale \<open>session_store\<close>:
  each operation refines a reference operation on the finite map from token hashes to records.
  The locale \<open>session_cache\<close> says what a cache may answer: nothing but what was put into it.
  The storage theories interpret the locales; the lemmas proved inside them are the manager's
  guarantees over every adapter.
\<close>

section \<open>Data\<close>

record SessionRecord =
  sr_ID :: string
  sr_SubjectID :: string
  sr_TokenHash :: hash
  sr_CreatedAt :: time
  sr_ExpiresAt :: time
  sr_ExtendedAt :: "time option"
  sr_RevokedAt :: "time option"

definition sess_ActiveAt :: "SessionRecord \<Rightarrow> time \<Rightarrow> bool" where
  "sess_ActiveAt r at \<longleftrightarrow> sr_RevokedAt r = None \<and> at < sr_ExpiresAt r"

record SessionIssued =
  si_Token :: string
  si_Record :: SessionRecord

text \<open>The interface \<^verbatim>\<open>Store\<close>.\<close>

record 's SessionStore =
  ss_Create :: "SessionRecord \<Rightarrow> 's \<Rightarrow> (err + unit) \<times> 's"
  ss_FindByTokenHash :: "hash \<Rightarrow> 's \<Rightarrow> (err + SessionRecord) \<times> 's"
  ss_ListBySubject :: "string \<Rightarrow> 's \<Rightarrow> (err + SessionRecord list) \<times> 's"
  ss_Extend :: "hash \<Rightarrow> time \<Rightarrow> time \<Rightarrow> 's \<Rightarrow> (err + SessionRecord) \<times> 's"
  ss_Rotate :: "hash \<Rightarrow> SessionRecord \<Rightarrow> time \<Rightarrow> 's \<Rightarrow> (err + unit) \<times> 's"
  ss_Revoke :: "hash \<Rightarrow> time \<Rightarrow> 's \<Rightarrow> (err + unit) \<times> 's"
  ss_RevokeAll :: "string \<Rightarrow> time \<Rightarrow> 's \<Rightarrow> (err + SessionRecord list) \<times> 's"

text \<open>The interface \<^verbatim>\<open>Cache\<close>.\<close>

record 'c SessionCache =
  sc_Get :: "hash \<Rightarrow> 'c \<Rightarrow> (err + SessionRecord) \<times> 'c"
  sc_Set :: "SessionRecord \<Rightarrow> duration \<Rightarrow> 'c \<Rightarrow> (err + unit) \<times> 'c"
  sc_Delete :: "hash \<Rightarrow> 'c \<Rightarrow> (err + unit) \<times> 'c"

record ExtensionConfig =
  ec_ExtendAfter :: duration
  ec_AbsoluteLifetime :: duration

record SessionConfig =
  scfg_Lifetime :: duration
  scfg_CacheTTL :: duration
  scfg_Extension :: "ExtensionConfig option"

record ('s, 'c) SessionManager =
  sm_store :: "'s SessionStore"
  sm_cache :: "'c SessionCache option"
  sm_lifetime :: duration
  sm_cacheTTL :: duration
  sm_extension :: "ExtensionConfig option"

text \<open>What the manager's methods act on: the outside world, the store and the cache.\<close>

record ('s, 'c) session_world = world +
  sw_store :: 's
  sw_cache :: 'c

definition creationAttempts :: nat where
  "creationAttempts = 3"

section \<open>The manager\<close>

definition sess_NewManager ::
  "'s SessionStore option \<Rightarrow> 'c SessionCache option \<Rightarrow> SessionConfig \<Rightarrow> err + ('s, 'c) SessionManager"
where
  "sess_NewManager store cache config =
     (case store of
        None \<Rightarrow> Inl (EWrap ''store is required'' (ESession Session_ErrInvalidConfig))
      | Some st \<Rightarrow>
          if scfg_Lifetime config \<le> 0
          then Inl (EWrap ''lifetime must be positive'' (ESession Session_ErrInvalidConfig))
          else if cache \<noteq> None \<and> scfg_CacheTTL config \<le> 0
          then Inl (EWrap ''cache TTL must be positive when cache is configured''
                 (ESession Session_ErrInvalidConfig))
          else if (case scfg_Extension config of None \<Rightarrow> False
             | Some x \<Rightarrow> ec_ExtendAfter x \<le> 0 \<or> ec_ExtendAfter x \<ge> scfg_Lifetime config \<or>
                 ec_AbsoluteLifetime x \<le> scfg_Lifetime config)
          then Inl (EWrap ''invalid extension settings'' (ESession Session_ErrInvalidConfig))
          else Inr \<lparr>sm_store = st, sm_cache = cache, sm_lifetime = scfg_Lifetime config,
                    sm_cacheTTL = scfg_CacheTTL config, sm_extension = scfg_Extension config\<rparr>)"

definition sess_validRecord :: "SessionRecord \<Rightarrow> bool" where
  "sess_validRecord r \<longleftrightarrow>
     \<not> (blank (sr_ID r) \<or> blank (sr_SubjectID r) \<or> sr_TokenHash r = 0 \<or>
        sr_CreatedAt r = 0 \<or> \<not> sr_ExpiresAt r > sr_CreatedAt r) \<and>
     \<not> (case sr_RevokedAt r of None \<Rightarrow> False | Some t \<Rightarrow> t < sr_CreatedAt r) \<and>
     \<not> (case sr_ExtendedAt r of None \<Rightarrow> False
        | Some t \<Rightarrow> t < sr_CreatedAt r \<or> t > sr_ExpiresAt r)"

text \<open>A reading of the manager's clock, a call of its store, a call of its cache.\<close>

definition nowM :: "'a world_scheme \<Rightarrow> (err + time) \<times> 'a world_scheme" where
  "nowM w = (Inr (fst (now w)), snd (now w))"

definition on_store ::
  "('s \<Rightarrow> (err + 'r) \<times> 's) \<Rightarrow> ('s, 'c) session_world \<Rightarrow> (err + 'r) \<times> ('s, 'c) session_world" where
  "on_store f w = (fst (f (sw_store w)), w\<lparr>sw_store := snd (f (sw_store w))\<rparr>)"

definition on_cache ::
  "('c \<Rightarrow> (err + 'r) \<times> 'c) \<Rightarrow> ('s, 'c) session_world \<Rightarrow> (err + 'r) \<times> ('s, 'c) session_world" where
  "on_cache f w = (fst (f (sw_cache w)), w\<lparr>sw_cache := snd (f (sw_cache w))\<rparr>)"

definition sess_newIssued ::
  "(string \<Rightarrow> hash) \<Rightarrow> ('s, 'c) SessionManager \<Rightarrow> string \<Rightarrow> ('s, 'c) session_world \<Rightarrow>
     (err + SessionIssued) \<times> ('s, 'c) session_world" where
  "sess_newIssued sha mgr subjectID =
     bindM (on_err (EWrap ''generate session ID'') uuid_NewV7) (\<lambda>sessionID.
     bindM (on_err (EWrap ''generate session token'') (Generate sha)) (\<lambda>(rawToken, tokenHash).
     bindM nowM (\<lambda>t.
     retM (Inr
       \<lparr>si_Token = rawToken,
        si_Record = \<lparr>sr_ID = sessionID, sr_SubjectID = subjectID, sr_TokenHash = tokenHash,
          sr_CreatedAt = t, sr_ExpiresAt = t + sm_lifetime mgr,
          sr_ExtendedAt = None, sr_RevokedAt = None\<rparr>\<rparr>))))"

definition sess_populateCache ::
  "('s, 'c) SessionManager \<Rightarrow> SessionRecord \<Rightarrow> ('s, 'c) session_world \<Rightarrow> ('s, 'c) session_world" where
  "sess_populateCache mgr r w =
     (case sm_cache mgr of None \<Rightarrow> w
      | Some c \<Rightarrow>
          (case now w of (t, w1) \<Rightarrow>
             let remaining = time_Sub (sr_ExpiresAt r) t
             in if remaining \<le> 0 then w1
                else snd (on_cache (sc_Set c r (min (sm_cacheTTL mgr) remaining)) w1)))"

text \<open>\<^verbatim>\<open>deleteCached\<close> wraps a failure of the cache in \<^verbatim>\<open>ErrCacheSync\<close>.\<close>

definition sess_deleteCached ::
  "('s, 'c) SessionManager \<Rightarrow> hash \<Rightarrow> ('s, 'c) session_world \<Rightarrow>
     (err + unit) \<times> ('s, 'c) session_world" where
  "sess_deleteCached mgr h =
     (case sm_cache mgr of None \<Rightarrow> retM (Inr ())
      | Some c \<Rightarrow> on_err (EWrap2 (ESession Session_ErrCacheSync)) (on_cache (sc_Delete c h)))"

fun sess_create_loop ::
  "nat \<Rightarrow> (string \<Rightarrow> hash) \<Rightarrow> ('s, 'c) SessionManager \<Rightarrow> string \<Rightarrow> ('s, 'c) session_world \<Rightarrow>
     (err + SessionIssued) \<times> ('s, 'c) session_world" where
  "sess_create_loop 0 sha mgr subjectID w =
     (Inl (EWrap ''create unique session'' (ESession Session_ErrConflict)), w)"
| "sess_create_loop (Suc n) sha mgr subjectID w =
     (case sess_newIssued sha mgr subjectID w of
        (Inl e, w1) \<Rightarrow> (Inl e, w1)
      | (Inr issued, w1) \<Rightarrow>
          (case on_store (ss_Create (sm_store mgr) (si_Record issued)) w1 of
             (Inl e, w2) \<Rightarrow>
               if errors_is e (ESession Session_ErrConflict)
               then sess_create_loop n sha mgr subjectID w2
               else (Inl (EWrap ''create durable session'' e), w2)
           | (Inr _, w2) \<Rightarrow> (Inr issued, sess_populateCache mgr (si_Record issued) w2)))"

definition sess_Create ::
  "(string \<Rightarrow> hash) \<Rightarrow> ('s, 'c) SessionManager \<Rightarrow> string \<Rightarrow> ('s, 'c) session_world \<Rightarrow>
     (err + SessionIssued) \<times> ('s, 'c) session_world" where
  "sess_Create sha mgr subjectID w =
     (if blank subjectID
      then (Inl (EWrap ''subject ID is required'' (ESession Session_ErrInvalidRecord)), w)
      else sess_create_loop creationAttempts sha mgr subjectID w)"

text \<open>When the extension is due, and which expiry it asks for.\<close>

definition sess_extensionTarget ::
  "duration \<Rightarrow> ExtensionConfig \<Rightarrow> SessionRecord \<Rightarrow> time \<Rightarrow> time option" where
  "sess_extensionTarget lifetime x r t =
     (let lastExtendedAt = (case sr_ExtendedAt r of None \<Rightarrow> sr_CreatedAt r | Some e \<Rightarrow> e);
          absoluteExpiry = sr_CreatedAt r + ec_AbsoluteLifetime x;
          expiresAt = (if t + lifetime > absoluteExpiry then absoluteExpiry else t + lifetime)
      in if t < lastExtendedAt + ec_ExtendAfter x then None
         else if \<not> expiresAt > sr_ExpiresAt r then None
         else Some expiresAt)"

definition sess_extendIfDue ::
  "('s, 'c) SessionManager \<Rightarrow> SessionRecord \<Rightarrow> time \<Rightarrow> ('s, 'c) session_world \<Rightarrow>
     (err + SessionRecord) \<times> ('s, 'c) session_world" where
  "sess_extendIfDue mgr r t w =
     (case sm_extension mgr of None \<Rightarrow> (Inr r, w)
      | Some x \<Rightarrow>
      (case sess_extensionTarget (sm_lifetime mgr) x r t of None \<Rightarrow> (Inr r, w)
       | Some expiresAt \<Rightarrow>
       (case on_store (ss_Extend (sm_store mgr) (sr_TokenHash r) t expiresAt) w of
          (Inl e, w1) \<Rightarrow>
            if errors_is e (ESession Session_ErrInactive) \<or> errors_is e (ESession Session_ErrNotFound)
            then (Inl e, snd (sess_deleteCached mgr (sr_TokenHash r) w1))
            else (Inr r, w1)
        | (Inr extended, w1) \<Rightarrow>
            if \<not> sess_validRecord extended \<or> sr_TokenHash extended \<noteq> sr_TokenHash r \<or>
               \<not> sess_ActiveAt extended t
            then (Inl (ESession Session_ErrInvalidRecord), w1)
            else (Inr extended, sess_populateCache mgr extended w1))))"

text \<open>The second half of \<^verbatim>\<open>Resolve\<close>: the durable lookup.\<close>

definition sess_resolveDurable ::
  "('s, 'c) SessionManager \<Rightarrow> hash \<Rightarrow> time \<Rightarrow> ('s, 'c) session_world \<Rightarrow>
     (err + SessionRecord) \<times> ('s, 'c) session_world" where
  "sess_resolveDurable mgr h t =
     bindM (on_err (EWrap ''find durable session'')
              (on_store (ss_FindByTokenHash (sm_store mgr) h))) (\<lambda>r w.
       if \<not> sess_validRecord r \<or> sr_TokenHash r \<noteq> h
       then (Inl (ESession Session_ErrInvalidRecord), w)
       else if \<not> sess_ActiveAt r t
       then (Inl (ESession Session_ErrInactive), snd (sess_deleteCached mgr h w))
       else bindM (sess_extendIfDue mgr r t)
              (\<lambda>r2 w2. (Inr r2, sess_populateCache mgr r2 w2)) w)"

definition sess_Resolve ::
  "(string \<Rightarrow> hash) \<Rightarrow> ('s, 'c) SessionManager \<Rightarrow> string \<Rightarrow> ('s, 'c) session_world \<Rightarrow>
     (err + SessionRecord) \<times> ('s, 'c) session_world" where
  "sess_Resolve sha mgr rawToken w =
     (case HashToken sha rawToken of
        Inl e \<Rightarrow> (Inl e, w)
      | Inr h \<Rightarrow>
      (case now w of (t, w1) \<Rightarrow>
      (case sm_cache mgr of None \<Rightarrow> sess_resolveDurable mgr h t w1
       | Some c \<Rightarrow>
       (case on_cache (sc_Get c h) w1 of
          (Inl _, w2) \<Rightarrow> sess_resolveDurable mgr h t w2
        | (Inr cached, w2) \<Rightarrow>
            if sess_validRecord cached \<and> sr_TokenHash cached = h then
              if sess_ActiveAt cached t then sess_extendIfDue mgr cached t w2
              else sess_resolveDurable mgr h t (snd (on_cache (sc_Delete c h) w2))
            else sess_resolveDurable mgr h t w2))))"

text \<open>
  \<^verbatim>\<open>Rotate\<close> may return an issued credential together with the error \<^verbatim>\<open>ErrCacheSync\<close>; that pair is
  \<open>Inr (issued, Some e)\<close>.
\<close>

fun sess_rotate_loop ::
  "nat \<Rightarrow> (string \<Rightarrow> hash) \<Rightarrow> ('s, 'c) SessionManager \<Rightarrow> hash \<Rightarrow> string \<Rightarrow> time \<Rightarrow>
     ('s, 'c) session_world \<Rightarrow> (err + SessionIssued \<times> err option) \<times> ('s, 'c) session_world" where
  "sess_rotate_loop 0 sha mgr current subjectID t w =
     (Inl (EWrap ''create unique replacement session'' (ESession Session_ErrConflict)), w)"
| "sess_rotate_loop (Suc n) sha mgr current subjectID t w =
     (case sess_newIssued sha mgr subjectID w of
        (Inl e, w1) \<Rightarrow> (Inl e, w1)
      | (Inr replacement, w1) \<Rightarrow>
          (case on_store (ss_Rotate (sm_store mgr) current (si_Record replacement) t) w1 of
             (Inl e, w2) \<Rightarrow>
               if errors_is e (ESession Session_ErrConflict)
               then sess_rotate_loop n sha mgr current subjectID t w2
               else (Inl (EWrap ''rotate durable session'' e), w2)
           | (Inr _, w2) \<Rightarrow>
               (case sess_deleteCached mgr current
                       (sess_populateCache mgr (si_Record replacement) w2) of
                  (Inl e, w3) \<Rightarrow> (Inr (replacement, Some e), w3)
                | (Inr _, w3) \<Rightarrow> (Inr (replacement, None), w3))))"

definition sess_Rotate ::
  "(string \<Rightarrow> hash) \<Rightarrow> ('s, 'c) SessionManager \<Rightarrow> string \<Rightarrow> ('s, 'c) session_world \<Rightarrow>
     (err + SessionIssued \<times> err option) \<times> ('s, 'c) session_world" where
  "sess_Rotate sha mgr rawToken w =
     (case HashToken sha rawToken of
        Inl e \<Rightarrow> (Inl e, w)
      | Inr current \<Rightarrow>
        bindM (on_err (EWrap ''find session to rotate'')
                 (on_store (ss_FindByTokenHash (sm_store mgr) current))) (\<lambda>r w1.
          if \<not> sess_validRecord r \<or> sr_TokenHash r \<noteq> current
          then (Inl (ESession Session_ErrInvalidRecord), w1)
          else (case now w1 of (t, w2) \<Rightarrow>
            if \<not> sess_ActiveAt r t then (Inl (ESession Session_ErrInactive), w2)
            else sess_rotate_loop creationAttempts sha mgr current (sr_SubjectID r) t w2)) w)"

definition sess_Revoke ::
  "(string \<Rightarrow> hash) \<Rightarrow> ('s, 'c) SessionManager \<Rightarrow> string \<Rightarrow> ('s, 'c) session_world \<Rightarrow>
     (err + unit) \<times> ('s, 'c) session_world" where
  "sess_Revoke sha mgr rawToken w =
     (case HashToken sha rawToken of
        Inl e \<Rightarrow> (Inl e, w)
      | Inr h \<Rightarrow>
        bindM nowM (\<lambda>t.
        bindM (on_err (EWrap ''revoke durable session'') (on_store (ss_Revoke (sm_store mgr) h t)))
          (\<lambda>_. sess_deleteCached mgr h)) w)"

definition sess_List ::
  "('s, 'c) SessionManager \<Rightarrow> string \<Rightarrow> ('s, 'c) session_world \<Rightarrow>
     (err + SessionRecord list) \<times> ('s, 'c) session_world" where
  "sess_List mgr subjectID w =
     (if blank subjectID
      then (Inl (EWrap ''subject ID is required'' (ESession Session_ErrInvalidRecord)), w)
      else bindM (on_err (EWrap ''list durable sessions'')
                    (on_store (ss_ListBySubject (sm_store mgr) subjectID))) (\<lambda>records.
             if list_all (\<lambda>r. sess_validRecord r \<and> sr_SubjectID r = subjectID) records
             then retM (Inr records)
             else retM (Inl (ESession Session_ErrInvalidRecord))) w)"

definition sess_RevokeByID ::
  "('s, 'c) SessionManager \<Rightarrow> string \<Rightarrow> string \<Rightarrow> ('s, 'c) session_world \<Rightarrow>
     (err + unit) \<times> ('s, 'c) session_world" where
  "sess_RevokeByID mgr subjectID sessionID w =
     (if blank subjectID \<or> blank sessionID then (Inl (ESession Session_ErrInvalidRecord), w)
      else bindM (sess_List mgr subjectID) (\<lambda>records.
        case find (\<lambda>r. sr_ID r = sessionID) records of
          None \<Rightarrow> retM (Inl (ESession Session_ErrNotFound))
        | Some r \<Rightarrow>
            bindM nowM (\<lambda>t.
            bindM (on_err (EWrap ''revoke durable session'')
                     (on_store (ss_Revoke (sm_store mgr) (sr_TokenHash r) t)))
              (\<lambda>_. sess_deleteCached mgr (sr_TokenHash r)))) w)"

text \<open>The loop of \<^verbatim>\<open>RevokeAll\<close> over the returned records; it remembers the first cache error.\<close>

fun sess_revoke_loop ::
  "('s, 'c) SessionManager \<Rightarrow> string \<Rightarrow> err option \<Rightarrow> SessionRecord list \<Rightarrow> ('s, 'c) session_world \<Rightarrow>
     (err + unit) \<times> ('s, 'c) session_world" where
  "sess_revoke_loop mgr subjectID cacheErr [] w =
     ((case cacheErr of None \<Rightarrow> Inr () | Some e \<Rightarrow> Inl e), w)"
| "sess_revoke_loop mgr subjectID cacheErr (r # rs) w =
     (if \<not> sess_validRecord r \<or> sr_SubjectID r \<noteq> subjectID
      then (Inl (ESession Session_ErrInvalidRecord), w)
      else (case sess_deleteCached mgr (sr_TokenHash r) w of
              (Inl e, w1) \<Rightarrow>
                sess_revoke_loop mgr subjectID (case cacheErr of None \<Rightarrow> Some e | Some _ \<Rightarrow> cacheErr) rs w1
            | (Inr _, w1) \<Rightarrow> sess_revoke_loop mgr subjectID cacheErr rs w1))"

definition sess_RevokeAll ::
  "('s, 'c) SessionManager \<Rightarrow> string \<Rightarrow> ('s, 'c) session_world \<Rightarrow>
     (err + unit) \<times> ('s, 'c) session_world" where
  "sess_RevokeAll mgr subjectID w =
     (if blank subjectID
      then (Inl (EWrap ''subject ID is required'' (ESession Session_ErrInvalidRecord)), w)
      else bindM nowM (\<lambda>t.
           bindM (on_err (EWrap ''revoke durable sessions'')
                    (on_store (ss_RevokeAll (sm_store mgr) subjectID t)))
             (sess_revoke_loop mgr subjectID None)) w)"

section \<open>The storage contract\<close>

text \<open>
  The abstract state is the map from token hashes to records; session IDs are unique over it.
  \<open>session_conflict\<close> is what the unique keys of a store refuse.
\<close>

type_synonym sessions = "hash \<rightharpoonup> SessionRecord"

definition session_conflict :: "sessions \<Rightarrow> SessionRecord \<Rightarrow> bool" where
  "session_conflict m r \<longleftrightarrow> sr_TokenHash r \<in> dom m \<or> (\<exists>q \<in> ran m. sr_ID q = sr_ID r)"

definition sessions_ok :: "sessions \<Rightarrow> bool" where
  "sessions_ok m \<longleftrightarrow>
     (\<forall>h r. m h = Some r \<longrightarrow> sr_TokenHash r = h) \<and>
     (\<forall>h k r q. m h = Some r \<and> m k = Some q \<and> sr_ID r = sr_ID q \<longrightarrow> h = k)"

definition sess_revoke :: "time \<Rightarrow> SessionRecord \<Rightarrow> SessionRecord" where
  "sess_revoke t r = r\<lparr>sr_RevokedAt := Some (case sr_RevokedAt r of None \<Rightarrow> t | Some u \<Rightarrow> u)\<rparr>"

definition spec_Create :: "SessionRecord \<Rightarrow> sessions \<Rightarrow> (err + unit) \<times> sessions" where
  "spec_Create r m =
     (if session_conflict m r then (Inl (ESession Session_ErrConflict), m)
      else (Inr (), m(sr_TokenHash r \<mapsto> r)))"

definition spec_Find :: "hash \<Rightarrow> sessions \<Rightarrow> (err + SessionRecord) \<times> sessions" where
  "spec_Find h m =
     ((case m h of None \<Rightarrow> Inl (ESession Session_ErrNotFound) | Some r \<Rightarrow> Inr r), m)"

definition spec_List :: "string \<Rightarrow> sessions \<Rightarrow> (err + SessionRecord list) \<Rightarrow> sessions \<Rightarrow> bool" where
  "spec_List sub m res m' \<longleftrightarrow>
     m' = m \<and> (\<exists>rs. res = Inr rs \<and> set rs = {r \<in> ran m. sr_SubjectID r = sub} \<and> distinct rs \<and>
       sorted_wrt (\<lambda>a b. sr_CreatedAt b \<le> sr_CreatedAt a) rs)"

definition spec_Extend :: "hash \<Rightarrow> time \<Rightarrow> time \<Rightarrow> sessions \<Rightarrow> (err + SessionRecord) \<times> sessions" where
  "spec_Extend h extendedAt expiresAt m =
     (case m h of None \<Rightarrow> (Inl (ESession Session_ErrInactive), m)
      | Some r \<Rightarrow>
          if sr_RevokedAt r = None \<and> extendedAt < sr_ExpiresAt r \<and> sr_ExpiresAt r < expiresAt
          then let r' = r\<lparr>sr_ExpiresAt := expiresAt, sr_ExtendedAt := Some extendedAt\<rparr>
               in (Inr r', m(h \<mapsto> r'))
          else (Inl (ESession Session_ErrInactive), m))"

definition spec_Rotate ::
  "hash \<Rightarrow> SessionRecord \<Rightarrow> time \<Rightarrow> sessions \<Rightarrow> (err + unit) \<times> sessions" where
  "spec_Rotate h replacement rotatedAt m =
     (case m h of None \<Rightarrow> (Inl (ESession Session_ErrNotFound), m)
      | Some r \<Rightarrow>
          if \<not> sess_ActiveAt r rotatedAt then (Inl (ESession Session_ErrInactive), m)
          else if session_conflict m replacement then (Inl (ESession Session_ErrConflict), m)
          else (Inr (), m(sr_TokenHash replacement \<mapsto> replacement,
                          h \<mapsto> r\<lparr>sr_RevokedAt := Some rotatedAt\<rparr>)))"

definition spec_Revoke :: "hash \<Rightarrow> time \<Rightarrow> sessions \<Rightarrow> (err + unit) \<times> sessions" where
  "spec_Revoke h revokedAt m =
     (case m h of None \<Rightarrow> (Inl (ESession Session_ErrNotFound), m)
      | Some r \<Rightarrow> (Inr (), m(h \<mapsto> sess_revoke revokedAt r)))"

definition revoke_subject :: "string \<Rightarrow> time \<Rightarrow> sessions \<Rightarrow> sessions" where
  "revoke_subject sub t m =
     (\<lambda>h. case m h of None \<Rightarrow> None
        | Some r \<Rightarrow> Some (if sr_SubjectID r = sub then sess_revoke t r else r))"

definition spec_RevokeAll ::
  "string \<Rightarrow> time \<Rightarrow> sessions \<Rightarrow> (err + SessionRecord list) \<Rightarrow> sessions \<Rightarrow> bool" where
  "spec_RevokeAll sub t m res m' \<longleftrightarrow>
     m' = revoke_subject sub t m \<and>
     (\<exists>rs. res = Inr rs \<and> set rs = {r \<in> ran m'. sr_SubjectID r = sub})"

text \<open>What the manager needs of a store: every operation refines its reference operation.\<close>

locale session_store =
  fixes st :: "'s SessionStore"
    and view :: "'s \<Rightarrow> sessions"
    and ok :: "'s \<Rightarrow> bool"
  assumes ok_view: "ok s \<Longrightarrow> sessions_ok (view s)"
    and create: "implements view ok (ss_Create st r) (fun_spec (spec_Create r))"
    and find: "implements view ok (ss_FindByTokenHash st h) (fun_spec (spec_Find h))"
    and list: "implements view ok (ss_ListBySubject st sub) (spec_List sub)"
    and extend: "implements view ok (ss_Extend st h t u) (fun_spec (spec_Extend h t u))"
    and rotate: "implements view ok (ss_Rotate st h r t) (fun_spec (spec_Rotate h r t))"
    and revoke: "implements view ok (ss_Revoke st h t) (fun_spec (spec_Revoke h t))"
    and revoke_all: "implements view ok (ss_RevokeAll st sub t) (spec_RevokeAll sub t)"

text \<open>
  What a cache may do: it answers only what it holds, \<^verbatim>\<open>Set\<close> can add nothing but its argument,
  a \<^verbatim>\<open>Delete\<close> that reports success leaves nothing behind, and entries may vanish at any time.
\<close>

locale session_cache =
  fixes ca :: "'c SessionCache"
    and held :: "'c \<Rightarrow> sessions"
  assumes get_held: "fst (sc_Get ca h c) = Inr r \<Longrightarrow> held c h = Some r"
    and get_sub: "held (snd (sc_Get ca h c)) \<subseteq>\<^sub>m held c"
    and set_sub: "held (snd (sc_Set ca r d c)) k = Some q \<Longrightarrow>
       held c k = Some q \<or> k = sr_TokenHash r \<and> q = r"
    and delete_sub: "held (snd (sc_Delete ca h c)) \<subseteq>\<^sub>m held c"
    and delete_gone: "fst (sc_Delete ca h c) = Inr () \<Longrightarrow> held (snd (sc_Delete ca h c)) h = None"

end
