(* ===== verification/SessionService.thy ===== *)
theory SessionService
  imports Sessiontoken
begin

text \<open>
  What the session manager guarantees over any store that meets the contract \<open>session_store\<close> and
  any cache that meets \<open>session_cache\<close>.

  \<open>evolves\<close> is the one thing every method does to the durable sessions: none disappears, identity,
  subject and creation time never change, a revocation is permanent, an expiry only grows and never
  passes the configured absolute lifetime. \<open>coherent\<close> is the invariant between cache and store: a
  cached record is an earlier state of the stored one. Each method preserves \<open>coherent\<close> and
  \<open>evolves\<close>; the run of any list of method calls therefore does too.
\<close>

section \<open>Invariants\<close>

definition sess_bounded :: "('s, 'c) SessionManager \<Rightarrow> SessionRecord \<Rightarrow> bool" where
  "sess_bounded mgr r \<longleftrightarrow>
     (case sm_extension mgr of None \<Rightarrow> sr_ExpiresAt r = sr_CreatedAt r + sm_lifetime mgr
      | Some x \<Rightarrow> sr_ExpiresAt r \<le> sr_CreatedAt r + ec_AbsoluteLifetime x)"

text \<open>\<open>sess_later q r\<close>: the record \<open>r\<close> is \<open>q\<close> or a later state of it.\<close>

definition sess_later :: "SessionRecord \<Rightarrow> SessionRecord \<Rightarrow> bool" where
  "sess_later q r \<longleftrightarrow>
     sr_ID r = sr_ID q \<and> sr_SubjectID r = sr_SubjectID q \<and> sr_TokenHash r = sr_TokenHash q \<and>
     sr_CreatedAt r = sr_CreatedAt q \<and> sr_ExpiresAt q \<le> sr_ExpiresAt r \<and>
     (\<forall>t. sr_RevokedAt q = Some t \<longrightarrow> sr_RevokedAt r = Some t \<and> sr_ExpiresAt r = sr_ExpiresAt q)"

definition evolves :: "('s, 'c) SessionManager \<Rightarrow> sessions \<Rightarrow> sessions \<Rightarrow> bool" where
  "evolves mgr m m' \<longleftrightarrow>
     (\<forall>h r. m h = Some r \<longrightarrow>
        (\<exists>r'. m' h = Some r' \<and> sess_later r r' \<and> (sess_bounded mgr r \<longrightarrow> sess_bounded mgr r'))) \<and>
     (\<forall>h r'. m h = None \<and> m' h = Some r' \<longrightarrow> sess_bounded mgr r')"

definition coherent ::
  "('s \<Rightarrow> sessions) \<Rightarrow> ('s \<Rightarrow> bool) \<Rightarrow> ('c \<Rightarrow> sessions) \<Rightarrow> ('s, 'c) SessionManager \<Rightarrow>
     ('s, 'c) session_world \<Rightarrow> bool" where
  "coherent view ok held mgr w \<longleftrightarrow>
     ok (sw_store w) \<and>
     (sm_cache mgr \<noteq> None \<longrightarrow>
       (\<forall>h q. held (sw_cache w) h = Some q \<longrightarrow>
          (\<exists>r. view (sw_store w) h = Some r \<and> sess_later q r)))"

text \<open>A manager over the store \<open>st\<close>, as \<^verbatim>\<open>NewManager\<close> builds it.\<close>

definition sess_service ::
  "'s SessionStore \<Rightarrow> ('c \<Rightarrow> sessions) \<Rightarrow> ('s, 'c) SessionManager \<Rightarrow> bool" where
  "sess_service st held mgr \<longleftrightarrow>
     sm_store mgr = st \<and> (\<forall>c. sm_cache mgr = Some c \<longrightarrow> session_cache c held) \<and>
     0 < sm_lifetime mgr \<and>
     (\<forall>x. sm_extension mgr = Some x \<longrightarrow>
        0 < ec_ExtendAfter x \<and> sm_lifetime mgr < ec_AbsoluteLifetime x)"

text \<open>A revoked session whose cached copy, if any, is revoked as well.\<close>

definition sess_locked ::
  "('s \<Rightarrow> sessions) \<Rightarrow> ('c \<Rightarrow> sessions) \<Rightarrow> hash \<Rightarrow> ('s, 'c) SessionManager \<Rightarrow>
     ('s, 'c) session_world \<Rightarrow> bool" where
  "sess_locked view held h mgr w \<longleftrightarrow>
     (\<exists>r. view (sw_store w) h = Some r \<and> sr_RevokedAt r \<noteq> None) \<and>
     (sm_cache mgr \<noteq> None \<longrightarrow>
        (\<forall>q. held (sw_cache w) h = Some q \<longrightarrow> sr_RevokedAt q \<noteq> None))"

text \<open>Runs of the manager: every exported method that changes state.\<close>

datatype session_call =
    CallCreate string
  | CallResolve string
  | CallRotate string
  | CallRevoke string
  | CallRevokeByID string string
  | CallRevokeAll string
  | CallList string

fun sess_do ::
  "(string \<Rightarrow> hash) \<Rightarrow> ('s, 'c) SessionManager \<Rightarrow> session_call \<Rightarrow> ('s, 'c) session_world \<Rightarrow>
     ('s, 'c) session_world" where
  "sess_do sha mgr (CallCreate sub) w = snd (sess_Create sha mgr sub w)"
| "sess_do sha mgr (CallResolve raw) w = snd (sess_Resolve sha mgr raw w)"
| "sess_do sha mgr (CallRotate raw) w = snd (sess_Rotate sha mgr raw w)"
| "sess_do sha mgr (CallRevoke raw) w = snd (sess_Revoke sha mgr raw w)"
| "sess_do sha mgr (CallRevokeByID sub i) w = snd (sess_RevokeByID mgr sub i w)"
| "sess_do sha mgr (CallRevokeAll sub) w = snd (sess_RevokeAll mgr sub w)"
| "sess_do sha mgr (CallList sub) w = snd (sess_List mgr sub w)"

fun sess_run ::
  "(string \<Rightarrow> hash) \<Rightarrow> ('s, 'c) SessionManager \<Rightarrow> session_call list \<Rightarrow> ('s, 'c) session_world \<Rightarrow>
     ('s, 'c) session_world" where
  "sess_run sha mgr [] w = w"
| "sess_run sha mgr (x # xs) w = sess_run sha mgr xs (sess_do sha mgr x w)"

section \<open>Records and reference operations\<close>

lemma sess_later_refl [simp]: "sess_later r r"
  by (simp add: sess_later_def)

lemma sess_later_trans: "sess_later p q \<Longrightarrow> sess_later q r \<Longrightarrow> sess_later p r"
  unfolding sess_later_def by (elim conjE) (auto intro: order_trans)

lemma sess_later_revoke [simp]: "sess_later r (sess_revoke t r)"
  by (auto simp: sess_later_def sess_revoke_def)

lemma sess_bounded_revoke [simp]: "sess_bounded mgr (sess_revoke t r) = sess_bounded mgr r"
  by (simp add: sess_bounded_def sess_revoke_def split: option.split)

lemma sess_later_active: "sess_later q r \<Longrightarrow> sess_ActiveAt r t \<Longrightarrow> sr_RevokedAt q = None"
  by (cases "sr_RevokedAt q") (auto simp: sess_later_def sess_ActiveAt_def)

lemma evolves_refl [simp]: "evolves mgr m m"
  by (auto simp: evolves_def)

lemma evolves_trans: "evolves mgr m1 m2 \<Longrightarrow> evolves mgr m2 m3 \<Longrightarrow> evolves mgr m1 m3"
  unfolding evolves_def
proof (intro conjI allI impI; elim conjE)
  fix h r
  assume 1: "\<forall>h r. m1 h = Some r \<longrightarrow> (\<exists>r'. m2 h = Some r' \<and> sess_later r r' \<and>
        (sess_bounded mgr r \<longrightarrow> sess_bounded mgr r'))"
    and 2: "\<forall>h r. m2 h = Some r \<longrightarrow> (\<exists>r'. m3 h = Some r' \<and> sess_later r r' \<and>
        (sess_bounded mgr r \<longrightarrow> sess_bounded mgr r'))" and r: "m1 h = Some r"
  obtain r2 where r2: "m2 h = Some r2" "sess_later r r2" "sess_bounded mgr r \<longrightarrow> sess_bounded mgr r2"
    using 1 r by blast
  obtain r3 where "m3 h = Some r3" "sess_later r2 r3" "sess_bounded mgr r2 \<longrightarrow> sess_bounded mgr r3"
    using 2 r2(1) by blast
  then show "\<exists>r'. m3 h = Some r' \<and> sess_later r r' \<and> (sess_bounded mgr r \<longrightarrow> sess_bounded mgr r')"
    using r2 sess_later_trans by blast
next
  fix h r'
  assume 1: "\<forall>h r'. m1 h = None \<and> m2 h = Some r' \<longrightarrow> sess_bounded mgr r'"
    and 2: "\<forall>h r'. m2 h = None \<and> m3 h = Some r' \<longrightarrow> sess_bounded mgr r'"
    and 3: "\<forall>h r. m2 h = Some r \<longrightarrow> (\<exists>r'. m3 h = Some r' \<and> sess_later r r' \<and>
        (sess_bounded mgr r \<longrightarrow> sess_bounded mgr r'))" and r: "m1 h = None" "m3 h = Some r'"
  show "sess_bounded mgr r'"
  proof (cases "m2 h")
    case None
    then show ?thesis using 2 r by blast
  next
    case (Some r2)
    then have "sess_bounded mgr r2" using 1 r by blast
    then show ?thesis using 3 Some r by fastforce
  qed
qed

lemma evolves_later:
  "evolves mgr m m' \<Longrightarrow> m h = Some r \<Longrightarrow> \<exists>r'. m' h = Some r' \<and> sess_later r r'"
  unfolding evolves_def by blast

lemma evolves_upd:
  assumes "case m h of None \<Rightarrow> sess_bounded mgr r'
    | Some r \<Rightarrow> sess_later r r' \<and> (sess_bounded mgr r \<longrightarrow> sess_bounded mgr r')"
  shows "evolves mgr m (m(h \<mapsto> r'))"
  using assms by (auto simp: evolves_def split: option.splits)

lemma evolves_bounded:
  "evolves mgr m m' \<Longrightarrow> \<forall>r \<in> ran m. sess_bounded mgr r \<Longrightarrow> \<forall>r \<in> ran m'. sess_bounded mgr r"
  unfolding evolves_def ran_def by (auto, metis option.exhaust option.inject)

lemma spec_Create_evolves:
  "fun_spec (spec_Create r) m res m' \<Longrightarrow> sess_bounded mgr r \<Longrightarrow> evolves mgr m m'"
  by (auto simp: fun_spec_def spec_Create_def session_conflict_def split: if_splits
      intro!: evolves_upd)

lemma spec_Find_eq: "fun_spec (spec_Find h) m res m' \<Longrightarrow>
    m' = m \<and> res = (case m h of None \<Rightarrow> Inl (ESession Session_ErrNotFound) | Some r \<Rightarrow> Inr r)"
  by (auto simp: fun_spec_def spec_Find_def)

lemma spec_Extend_evolves:
  assumes "fun_spec (spec_Extend h t u) m res m'"
    and "\<And>r x. m h = Some r \<Longrightarrow> sm_extension mgr = Some x \<Longrightarrow> u \<le> sr_CreatedAt r + ec_AbsoluteLifetime x"
    and "sm_extension mgr \<noteq> None"
  shows "evolves mgr m m'"
  using assms
  by (auto simp: fun_spec_def spec_Extend_def Let_def sess_later_def sess_bounded_def
      split: option.splits if_splits intro!: evolves_upd)

lemma spec_Rotate_evolves:
  assumes "fun_spec (spec_Rotate h r t) m res m'" and "sess_bounded mgr r"
  shows "evolves mgr m m'"
proof -
  have "evolves mgr m (m(sr_TokenHash r \<mapsto> r, h \<mapsto> q\<lparr>sr_RevokedAt := Some t\<rparr>))"
    if "m h = Some q" "sess_ActiveAt q t" "\<not> session_conflict m r" for q
  proof (rule evolves_trans)
    show "evolves mgr m (m(sr_TokenHash r \<mapsto> r))"
      using that assms(2) by (intro evolves_upd) (auto simp: session_conflict_def split: option.split)
    have "sr_TokenHash r \<noteq> h" using that by (auto simp: session_conflict_def)
    then show "evolves mgr (m(sr_TokenHash r \<mapsto> r))
        (m(sr_TokenHash r \<mapsto> r, h \<mapsto> q\<lparr>sr_RevokedAt := Some t\<rparr>))"
      using that(1,2)
      by (intro evolves_upd) (auto simp: sess_later_def sess_bounded_def sess_ActiveAt_def
          split: option.split)
  qed
  then show ?thesis
    using assms(1) by (auto simp: fun_spec_def spec_Rotate_def split: option.splits if_splits)
qed

lemma spec_Revoke_evolves:
  "fun_spec (spec_Revoke h t) m res m' \<Longrightarrow> evolves mgr m m'"
  by (auto simp: fun_spec_def spec_Revoke_def split: option.splits intro!: evolves_upd)

lemma revoke_subject_evolves: "evolves mgr m (revoke_subject sub t m)"
  by (auto simp: evolves_def revoke_subject_def split: option.splits)

section \<open>Pieces of the manager that leave the store alone\<close>

lemma nowM_simps [simp]:
  "nowM w = (Inr (clock w (pos w)), w\<lparr>pos := Suc (pos w)\<rparr>)"
  by (simp add: nowM_def)

lemma on_store_simps [simp]:
  "fst (on_store f w) = fst (f (sw_store w))"
  "snd (on_store f w) = w\<lparr>sw_store := snd (f (sw_store w))\<rparr>"
  by (simp_all add: on_store_def)

lemma on_cache_simps [simp]:
  "fst (on_cache f w) = fst (f (sw_cache w))"
  "snd (on_cache f w) = w\<lparr>sw_cache := snd (f (sw_cache w))\<rparr>"
  by (simp_all add: on_cache_def)

lemma sess_newIssued_frame [simp]:
  "sw_store (snd (sess_newIssued sha mgr sub w)) = sw_store w"
  "sw_cache (snd (sess_newIssued sha mgr sub w)) = sw_cache w"
  by (simp_all add: sess_newIssued_def bindM_eq on_err_eq split: sum.split prod.split)

lemma sess_newIssued_Inr:
  assumes "sess_newIssued sha mgr sub w = (Inr i, w1)"
  shows "HashToken sha (si_Token i) = Inr (sr_TokenHash (si_Record i))"
    and "sr_SubjectID (si_Record i) = sub"
    and "sr_ExpiresAt (si_Record i) = sr_CreatedAt (si_Record i) + sm_lifetime mgr"
    and "sr_RevokedAt (si_Record i) = None" and "sr_ExtendedAt (si_Record i) = None"
    and "\<exists>n. sr_CreatedAt (si_Record i) = clock w n"
  using assms
  by (auto simp: sess_newIssued_def bindM_eq on_err_eq split: sum.splits prod.splits
      dest!: Generate_hash [of _ _ _ _])

lemma sess_newIssued_bounded:
  assumes "sess_newIssued sha mgr sub w = (Inr i, w1)" and "sess_service st held mgr"
  shows "sess_bounded mgr (si_Record i)"
  using sess_newIssued_Inr(3) [OF assms(1)] assms(2)
  by (auto simp: sess_bounded_def sess_service_def split: option.split)

lemma sess_populateCache_store [simp]:
  "sw_store (sess_populateCache mgr r w) = sw_store w"
  by (simp add: sess_populateCache_def now_def Let_def split: option.split)

lemma sess_deleteCached_store [simp]:
  "sw_store (snd (sess_deleteCached mgr h w)) = sw_store w"
  by (simp add: sess_deleteCached_def split: option.split)

section \<open>Guarantees over every adapter\<close>

text \<open>
  \<open>sess_safe w w'\<close>: on the way from \<open>w\<close> to \<open>w'\<close> the durable sessions evolved, the cache stayed
  coherent and no locked session was unlocked. It is reflexive and transitive, so a method is safe
  when its pieces are.
\<close>

definition sess_safe ::
  "('s \<Rightarrow> sessions) \<Rightarrow> ('s \<Rightarrow> bool) \<Rightarrow> ('c \<Rightarrow> sessions) \<Rightarrow> ('s, 'c) SessionManager \<Rightarrow>
     ('s, 'c) session_world \<Rightarrow> ('s, 'c) session_world \<Rightarrow> bool" where
  "sess_safe view ok held mgr w w' \<longleftrightarrow>
     (coherent view ok held mgr w \<longrightarrow>
        coherent view ok held mgr w' \<and>
        evolves mgr (view (sw_store w)) (view (sw_store w')) \<and>
        (\<forall>h. sess_locked view held h mgr w \<longrightarrow> sess_locked view held h mgr w'))"

lemma sess_safe_refl [simp]: "sess_safe view ok held mgr w w"
  by (simp add: sess_safe_def)

lemma sess_safe_trans:
  "sess_safe view ok held mgr w w1 \<Longrightarrow> sess_safe view ok held mgr w1 w2 \<Longrightarrow>
     sess_safe view ok held mgr w w2"
  unfolding sess_safe_def by (blast intro: evolves_trans)

lemma sess_safe_frame:
  assumes "sw_store w' = sw_store w" and "sw_cache w' = sw_cache w"
  shows "sess_safe view ok held mgr w w'"
  using assms by (simp add: sess_safe_def coherent_def sess_locked_def)

lemma sess_safe_coherent:
  "sess_safe view ok held mgr w w' \<Longrightarrow> coherent view ok held mgr w \<Longrightarrow> coherent view ok held mgr w'"
  by (simp add: sess_safe_def)

lemma sess_safe_evolves:
  "sess_safe view ok held mgr w w' \<Longrightarrow> coherent view ok held mgr w \<Longrightarrow>
     evolves mgr (view (sw_store w)) (view (sw_store w'))"
  by (simp add: sess_safe_def)

lemma sess_safe_locked:
  "sess_safe view ok held mgr w w' \<Longrightarrow> coherent view ok held mgr w \<Longrightarrow>
     sess_locked view held h mgr w \<Longrightarrow> sess_locked view held h mgr w'"
  by (simp add: sess_safe_def)

text \<open>The cache may only shrink, or take a record that the store holds.\<close>

lemma sess_safe_cache:
  assumes store: "sw_store w' = sw_store w"
    and held: "\<And>h q. sm_cache mgr \<noteq> None \<Longrightarrow> held (sw_cache w') h = Some q \<Longrightarrow>
      held (sw_cache w) h = Some q \<or> view (sw_store w) h = Some q"
  shows "sess_safe view ok held mgr w w'"
  unfolding sess_safe_def
proof (intro impI conjI allI)
  assume c: "coherent view ok held mgr w"
  show "evolves mgr (view (sw_store w)) (view (sw_store w'))" by (simp add: store)
  show "coherent view ok held mgr w'"
    using c unfolding coherent_def store by (meson held sess_later_refl)
  fix h
  assume "sess_locked view held h mgr w"
  then show "sess_locked view held h mgr w'"
    unfolding sess_locked_def store by (metis held option.inject)
qed

lemma sess_safe_store:
  assumes op: "implements view ok op spec"
    and ev: "\<And>res m'. spec (view (sw_store w)) res m' \<Longrightarrow> evolves mgr (view (sw_store w)) m'"
  shows "sess_safe view ok held mgr w (snd (on_store op w))"
  unfolding sess_safe_def
proof (intro impI)
  assume c: "coherent view ok held mgr w"
  then have "ok (sw_store w)" by (simp add: coherent_def)
  with op have k: "ok (snd (op (sw_store w)))"
    and e: "evolves mgr (view (sw_store w)) (view (snd (op (sw_store w))))"
    unfolding implements_def by (auto intro: ev)
  from c k have "coherent view ok held mgr (snd (on_store op w))"
    using evolves_later [OF e] sess_later_trans unfolding coherent_def on_store_simps
    by (fastforce dest: evolves_later [OF e])
  moreover have "\<forall>h. sess_locked view held h mgr w \<longrightarrow>
      sess_locked view held h mgr (snd (on_store op w))"
    using evolves_later [OF e] unfolding sess_locked_def on_store_simps
    by (fastforce simp: sess_later_def)
  ultimately show "coherent view ok held mgr (snd (on_store op w)) \<and>
      evolves mgr (view (sw_store w)) (view (sw_store (snd (on_store op w)))) \<and>
      (\<forall>h. sess_locked view held h mgr w \<longrightarrow> sess_locked view held h mgr (snd (on_store op w)))"
    using e by simp
qed

context session_store
begin

lemma create_safe:
  "sess_bounded mgr r \<Longrightarrow> sess_safe view ok held mgr w (snd (on_store (ss_Create st r) w))"
  by (rule sess_safe_store [OF create]) (rule spec_Create_evolves)

lemma find_safe: "sess_safe view ok held mgr w (snd (on_store (ss_FindByTokenHash st h) w))"
  by (rule sess_safe_store [OF find]) (simp add: fun_spec_def spec_Find_def)

lemma list_safe: "sess_safe view ok held mgr w (snd (on_store (ss_ListBySubject st sub) w))"
  by (rule sess_safe_store [OF list]) (simp add: spec_List_def)

lemma extend_safe:
  assumes "\<And>r x. view (sw_store w) h = Some r \<Longrightarrow> sm_extension mgr = Some x \<Longrightarrow>
      u \<le> sr_CreatedAt r + ec_AbsoluteLifetime x"
    and "sm_extension mgr \<noteq> None"
  shows "sess_safe view ok held mgr w (snd (on_store (ss_Extend st h t u) w))"
  by (rule sess_safe_store [OF extend]) (rule spec_Extend_evolves; use assms in blast)

lemma rotate_safe:
  "sess_bounded mgr r \<Longrightarrow> sess_safe view ok held mgr w (snd (on_store (ss_Rotate st h r t) w))"
  by (rule sess_safe_store [OF rotate]) (rule spec_Rotate_evolves)

lemma revoke_safe: "sess_safe view ok held mgr w (snd (on_store (ss_Revoke st h t) w))"
  by (rule sess_safe_store [OF revoke]) (rule spec_Revoke_evolves)

lemma revoke_all_safe: "sess_safe view ok held mgr w (snd (on_store (ss_RevokeAll st sub t) w))"
  by (rule sess_safe_store [OF revoke_all]) (simp add: spec_RevokeAll_def revoke_subject_evolves)

text \<open>The answers of the store.\<close>

lemma create_Inr:
  assumes "ok s" and "fst (ss_Create st r s) = Inr u"
  shows "\<not> session_conflict (view s) r" and "view (snd (ss_Create st r s)) = (view s)(sr_TokenHash r \<mapsto> r)"
  using implements_Inr [OF create assms] by (auto simp: fun_spec_def spec_Create_def split: if_splits)

lemma find_Inr:
  assumes "ok s" and "fst (ss_FindByTokenHash st h s) = Inr r"
  shows "view s h = Some r" and "view (snd (ss_FindByTokenHash st h s)) = view s"
  using implements_Inr [OF find assms] by (auto simp: fun_spec_def spec_Find_def split: option.splits)

lemma extend_Inr:
  assumes "ok s" and "fst (ss_Extend st h t u s) = Inr r'"
  shows "view (snd (ss_Extend st h t u s)) = (view s)(h \<mapsto> r')"
    and "\<exists>r. view s h = Some r \<and> sess_ActiveAt r t \<and>
          r' = r\<lparr>sr_ExpiresAt := u, sr_ExtendedAt := Some t\<rparr>"
  using implements_Inr [OF extend assms]
  by (auto simp: fun_spec_def spec_Extend_def Let_def sess_ActiveAt_def split: option.splits if_splits)

lemma extend_Inl:
  assumes "ok s" and "fst (ss_Extend st h t u s) = Inl e"
  shows "view (snd (ss_Extend st h t u s)) = view s \<and>
    (is_driver e \<or> e = ESession Session_ErrInactive)"
  using extend assms(1) by (cases rule: implements_cases)
    (use assms(2) in \<open>auto simp: fun_spec_def spec_Extend_def Let_def split: option.splits if_splits\<close>)

lemma rotate_Inr:
  assumes "ok s" and "fst (ss_Rotate st h r t s) = Inr u"
  shows "\<exists>q. view s h = Some q \<and> sess_ActiveAt q t \<and> \<not> session_conflict (view s) r \<and>
    sr_TokenHash r \<noteq> h \<and>
    view (snd (ss_Rotate st h r t s)) =
      (view s)(sr_TokenHash r \<mapsto> r, h \<mapsto> q\<lparr>sr_RevokedAt := Some t\<rparr>)"
  using implements_Inr [OF rotate assms]
  by (auto simp: fun_spec_def spec_Rotate_def session_conflict_def split: option.splits if_splits)

lemma revoke_Inr:
  assumes "ok s" and "fst (ss_Revoke st h t s) = Inr u"
  shows "\<exists>r. view s h = Some r \<and> view (snd (ss_Revoke st h t s)) = (view s)(h \<mapsto> sess_revoke t r)"
  using implements_Inr [OF revoke assms] by (auto simp: fun_spec_def spec_Revoke_def split: option.splits)

text \<open>The cache operations of the manager.\<close>

lemma populate_safe:
  assumes s: "sess_service st held mgr" and r: "view (sw_store w) (sr_TokenHash r) = Some r"
  shows "sess_safe view ok held mgr w (sess_populateCache mgr r w)"
proof (rule sess_safe_cache)
  fix h q
  assume q: "held (sw_cache (sess_populateCache mgr r w)) h = Some q" and c: "sm_cache mgr \<noteq> None"
  from c obtain c where c: "sm_cache mgr = Some c" by blast
  with s have "session_cache c held" by (simp add: sess_service_def)
  from session_cache.set_sub [OF this, of r _ "sw_cache w" h q] q r c
  show "held (sw_cache w) h = Some q \<or> view (sw_store w) h = Some q"
    by (fastforce simp: sess_populateCache_def now_def Let_def split: if_splits)
qed simp

lemma delete_safe:
  assumes s: "sess_service st held mgr"
  shows "sess_safe view ok held mgr w (snd (sess_deleteCached mgr h w))"
proof (rule sess_safe_cache)
  fix k q
  assume q: "held (sw_cache (snd (sess_deleteCached mgr h w))) k = Some q" and c: "sm_cache mgr \<noteq> None"
  from c obtain c where c: "sm_cache mgr = Some c" by blast
  with s have "session_cache c held" by (simp add: sess_service_def)
  from session_cache.delete_sub [OF this, of h "sw_cache w"] q c
  show "held (sw_cache w) k = Some q \<or> view (sw_store w) k = Some q"
    by (auto simp: sess_deleteCached_def map_le_def dom_def)
qed simp

lemma delete_Inr:
  assumes s: "sess_service st held mgr" and d: "fst (sess_deleteCached mgr h w) = Inr u"
    and c: "sm_cache mgr \<noteq> None"
  shows "held (sw_cache (snd (sess_deleteCached mgr h w))) h = None"
proof -
  from c obtain c where c: "sm_cache mgr = Some c" by blast
  with s have "session_cache c held" by (simp add: sess_service_def)
  from session_cache.delete_gone [OF this, of h "sw_cache w"] d c
  show ?thesis by (simp add: sess_deleteCached_def)
qed

end

lemma sess_service_cache: "sess_service st held mgr \<Longrightarrow> sm_cache mgr = Some c \<Longrightarrow> session_cache c held"
  by (simp add: sess_service_def)

lemma sess_service_store [simp]: "sess_service st held mgr \<Longrightarrow> sm_store mgr = st"
  by (simp add: sess_service_def)

lemma coherent_ok: "coherent view ok held mgr w \<Longrightarrow> ok (sw_store w)"
  by (simp add: coherent_def)

lemma newIssued_safe: "sess_safe view ok held mgr w (snd (sess_newIssued sha mgr sub w))"
  by (rule sess_safe_frame) simp_all

lemma extensionTarget_bound:
  "sess_extensionTarget l x r t = Some u \<Longrightarrow> u \<le> sr_CreatedAt r + ec_AbsoluteLifetime x \<and> sr_ExpiresAt r < u"
  by (auto simp: sess_extensionTarget_def Let_def split: if_splits)

context session_store
begin

lemma create_loop_safe:
  assumes "sess_service st held mgr"
  shows "sess_safe view ok held mgr w (snd (sess_create_loop n sha mgr sub w))"
proof (induction n arbitrary: w)
  case (Suc n)
  obtain r1 w1 where 1: "sess_newIssued sha mgr sub w = (r1, w1)" by fastforce
  then have s1: "sess_safe view ok held mgr w w1"
    using newIssued_safe [where w = w and sha = sha and mgr = mgr and sub = sub] by simp
  show ?case
  proof (cases r1)
    case (Inr i)
    let ?r = "si_Record i"
    obtain r2 w2 where 2: "on_store (ss_Create st ?r) w1 = (r2, w2)" by fastforce
    have b: "sess_bounded mgr ?r" using 1 Inr assms by (auto intro: sess_newIssued_bounded)
    have s2: "sess_safe view ok held mgr w w2"
      using sess_safe_trans [OF s1 create_safe [OF b]] 2 by (metis snd_conv)
    have "sess_safe view ok held mgr w (sess_populateCache mgr ?r w2)" if "r2 = Inr u" for u
    proof (cases "coherent view ok held mgr w")
      case True
      then have "ok (sw_store w1)" using s1 coherent_ok sess_safe_coherent by blast
      then have "view (sw_store w2) (sr_TokenHash ?r) = Some ?r"
        using create_Inr(2) [of "sw_store w1" ?r u] 2 that by (auto simp: on_store_def)
      then show ?thesis using populate_safe [OF assms] s2 sess_safe_trans by blast
    qed (simp add: sess_safe_def)
    then show ?thesis
      using 1 2 Inr assms s2 Suc [of w2] by (auto split: sum.split intro: sess_safe_trans)
  qed (use 1 s1 in simp)
qed simp

lemma create_loop_Inr:
  assumes s: "sess_service st held mgr"
  shows "coherent view ok held mgr w \<Longrightarrow> sess_create_loop n sha mgr sub w = (Inr i, w') \<Longrightarrow>
     view (sw_store w') = (view (sw_store w))(sr_TokenHash (si_Record i) \<mapsto> si_Record i) \<and>
     \<not> session_conflict (view (sw_store w)) (si_Record i) \<and>
     HashToken sha (si_Token i) = Inr (sr_TokenHash (si_Record i)) \<and>
     sr_SubjectID (si_Record i) = sub \<and> sr_RevokedAt (si_Record i) = None \<and>
     sr_ExpiresAt (si_Record i) = sr_CreatedAt (si_Record i) + sm_lifetime mgr"
proof (induction n arbitrary: w)
  case (Suc n)
  obtain r1 w1 where 1: "sess_newIssued sha mgr sub w = (r1, w1)" by fastforce
  have "coherent view ok held mgr (snd (sess_newIssued sha mgr sub w))"
    by (rule sess_safe_coherent [OF newIssued_safe Suc(2)])
  then have st1: "sw_store w1 = sw_store w" "coherent view ok held mgr w1"
    using sess_newIssued_frame(1) [of sha mgr sub w] 1 by auto
  from 1 Suc(3) obtain k where k: "r1 = Inr k" by (cases r1) auto
  obtain r2 w2 where 2: "on_store (ss_Create st (si_Record k)) w1 = (r2, w2)" by fastforce
  have b: "sess_bounded mgr (si_Record k)" using 1 k s by (auto intro: sess_newIssued_bounded)
  show ?case
  proof (cases r2)
    case (Inl e)
    then have rec: "sess_create_loop n sha mgr sub w2 = (Inr i, w')"
      using Suc(3) 1 2 k s by (auto split: if_splits)
    have c2: "coherent view ok held mgr w2"
      using sess_safe_coherent [OF create_safe [OF b] st1(2)] 2 by (metis snd_conv)
    have "view (sw_store w2) = view (sw_store w)"
      using create [of "si_Record k"] coherent_ok [OF st1(2)]
      by (cases rule: implements_cases)
        (use 2 Inl st1(1) in \<open>auto simp: on_store_def fun_spec_def spec_Create_def split: if_splits\<close>)
    with Suc(1) [OF c2 rec] show ?thesis by simp
  next
    case (Inr u)
    then have i: "i = k" "w' = sess_populateCache mgr (si_Record k) w2"
      using Suc(3) 1 2 k s by auto
    have "fst (ss_Create st (si_Record k) (sw_store w1)) = Inr u"
      "sw_store w2 = snd (ss_Create st (si_Record k) (sw_store w1))"
      using 2 Inr by (auto simp: on_store_def)
    then show ?thesis
      using create_Inr [OF coherent_ok [OF st1(2)], of "si_Record k" u] i st1(1)
        sess_newIssued_Inr [OF 1 [unfolded k]] by simp
  qed
qed simp

lemma extendIfDue_safe:
  assumes s: "sess_service st held mgr"
    and d: "view (sw_store w) (sr_TokenHash r) = Some d" "sess_later r d"
  shows "sess_safe view ok held mgr w (snd (sess_extendIfDue mgr r t w))"
proof (cases "sm_extension mgr")
  case (Some x)
  show ?thesis
  proof (cases "sess_extensionTarget (sm_lifetime mgr) x r t")
    case u: (Some u)
    let ?h = "sr_TokenHash r"
    obtain r1 w1 where 1: "on_store (ss_Extend st ?h t u) w = (r1, w1)" by fastforce
    have "u \<le> sr_CreatedAt d + ec_AbsoluteLifetime x"
      using extensionTarget_bound [OF u] d(2) by (simp add: sess_later_def)
    then have "sess_safe view ok held mgr w (snd (on_store (ss_Extend st ?h t u) w))"
      using d(1) Some by (intro extend_safe) auto
    then have s1: "sess_safe view ok held mgr w w1" using 1 by simp
    show ?thesis
    proof (cases "coherent view ok held mgr w")
      case True
      have "sess_safe view ok held mgr w (sess_populateCache mgr r2 w1)"
        if "r1 = Inr r2" "sr_TokenHash r2 = ?h" for r2
      proof -
        have "view (sw_store w1) ?h = Some r2"
          using extend_Inr(1) [of "sw_store w" ?h t u r2] coherent_ok [OF True] 1 that(1)
          by (auto simp: on_store_def)
        then show ?thesis using populate_safe [OF s, of w1 r2] that(2) s1 sess_safe_trans by metis
      qed
      moreover have "sess_safe view ok held mgr w (snd (sess_deleteCached mgr ?h w1))"
        using delete_safe [OF s] s1 sess_safe_trans by blast
      ultimately show ?thesis
        using Some u 1 s s1 by (auto simp: sess_extendIfDue_def split: sum.split)
    qed (simp add: sess_safe_def)
  qed (simp add: sess_extendIfDue_def Some)
qed (simp add: sess_extendIfDue_def)

lemma extendIfDue_Inr:
  assumes s: "sess_service st held mgr" and ok: "ok (sw_store w)"
    and r: "sess_extendIfDue mgr r t w = (Inr r2, w2)"
  shows "r2 = r \<and> view (sw_store w2) = view (sw_store w) \<or>
     view (sw_store w2) (sr_TokenHash r) = Some r2 \<and> sr_TokenHash r2 = sr_TokenHash r \<and>
     sess_validRecord r2 \<and> sess_ActiveAt r2 t"
proof (cases "\<exists>x u. sm_extension mgr = Some x \<and> sess_extensionTarget (sm_lifetime mgr) x r t = Some u")
  case True
  then obtain x u where x: "sm_extension mgr = Some x"
    "sess_extensionTarget (sm_lifetime mgr) x r t = Some u" by blast
  obtain r1 w1 where 1: "on_store (ss_Extend st (sr_TokenHash r) t u) w = (r1, w1)" by fastforce
  show ?thesis
  proof (cases r1)
    case (Inl e)
    then show ?thesis using r x 1 s extend_Inl [OF ok, of "sr_TokenHash r" t u e]
      by (auto simp: sess_extendIfDue_def on_store_def split: if_splits)
  next
    case (Inr q)
    then show ?thesis using r x 1 s extend_Inr [OF ok, of "sr_TokenHash r" t u q]
      by (auto simp: sess_extendIfDue_def on_store_def split: if_splits)
  qed
qed (use r in \<open>auto simp: sess_extendIfDue_def split: option.splits\<close>)

end

context session_store
begin

lemma find_step:
  assumes "coherent view ok held mgr w" and "on_store (ss_FindByTokenHash st h) w = (r, w1)"
  shows "coherent view ok held mgr w1" and "view (sw_store w1) = view (sw_store w)"
    and "sw_cache w1 = sw_cache w" and "r = Inr d \<Longrightarrow> view (sw_store w) h = Some d"
    and "sess_safe view ok held mgr w w1"
proof -
  have o: "ok (sw_store w)" using assms(1) by (rule coherent_ok)
  show s: "sess_safe view ok held mgr w w1" using find_safe [of held mgr w h] assms(2) by simp
  show "coherent view ok held mgr w1" using sess_safe_coherent [OF s assms(1)] .
  show "sw_cache w1 = sw_cache w" using assms(2) by (auto simp: on_store_def)
  show "view (sw_store w1) = view (sw_store w)"
    using find [of h] o by (cases rule: implements_cases)
      (use assms(2) in \<open>auto simp: on_store_def fun_spec_def spec_Find_def\<close>)
  show "r = Inr d \<Longrightarrow> view (sw_store w) h = Some d"
    using find_Inr(1) [OF o, of h d] assms(2) by (auto simp: on_store_def)
qed

lemma resolveDurable_safe:
  assumes s: "sess_service st held mgr"
  shows "sess_safe view ok held mgr w (snd (sess_resolveDurable mgr h t w))"
proof (cases "coherent view ok held mgr w")
  case c: True
  obtain r1 w1 where 1: "on_store (ss_FindByTokenHash st h) w = (r1, w1)" by fastforce
  note f = find_step [OF c 1]
  show ?thesis
  proof (cases r1)
    case (Inl e)
    then show ?thesis using 1 f(5) s by (simp add: sess_resolveDurable_def bindM_eq on_err_eq)
  next
    case (Inr r)
    have r: "view (sw_store w1) h = Some r" using f(2,4) Inr by simp
    have del: "sess_safe view ok held mgr w (snd (sess_deleteCached mgr h w1))"
      using delete_safe [OF s] f(5) sess_safe_trans by blast
    have ext: "sess_safe view ok held mgr w w2 \<and>
        (\<forall>r2. res = Inr r2 \<longrightarrow> sess_safe view ok held mgr w (sess_populateCache mgr r2 w2))"
      if h: "sr_TokenHash r = h" and x: "sess_extendIfDue mgr r t w1 = (res, w2)" for res w2
    proof -
      have "sess_safe view ok held mgr w1 (snd (sess_extendIfDue mgr r t w1))"
        by (rule extendIfDue_safe [OF s, of w1 r r]) (use r h in simp_all)
      then have s2: "sess_safe view ok held mgr w w2"
        using x f(5) sess_safe_trans by (metis snd_conv)
      moreover have "view (sw_store w2) (sr_TokenHash r2) = Some r2" if "res = Inr r2" for r2
        using extendIfDue_Inr [OF s coherent_ok [OF f(1)], of r t r2 w2] x r h that by auto
      ultimately show ?thesis using populate_safe [OF s] sess_safe_trans by blast
    qed
    obtain res w2 where x: "sess_extendIfDue mgr r t w1 = (res, w2)" by fastforce
    show ?thesis using 1 Inr s f(5) del ext [OF _ x] x
      by (auto simp: sess_resolveDurable_def bindM_eq on_err_eq split: sum.split)
  qed
qed (simp add: sess_safe_def)

lemma resolveDurable_Inr:
  assumes s: "sess_service st held mgr" and c: "coherent view ok held mgr w"
    and r: "sess_resolveDurable mgr h t w = (Inr r2, w2)"
  shows "\<exists>d. view (sw_store w) h = Some d \<and> sess_ActiveAt d t \<and> view (sw_store w2) h = Some r2 \<and>
     sr_TokenHash r2 = h \<and> sess_ActiveAt r2 t \<and> sess_validRecord r2"
proof -
  obtain r1 w1 where 1: "on_store (ss_FindByTokenHash st h) w = (r1, w1)" by fastforce
  note f = find_step [OF c 1]
  obtain d where d: "r1 = Inr d" using 1 r s
    by (cases r1) (auto simp: sess_resolveDurable_def bindM_eq on_err_eq)
  obtain x w3 where x: "sess_extendIfDue mgr d t w1 = (x, w3)" by fastforce
  have v: "sess_validRecord d" "sr_TokenHash d = h" "sess_ActiveAt d t" "x = Inr r2"
    "w2 = sess_populateCache mgr r2 w3"
    using r 1 d s x by (auto simp: sess_resolveDurable_def bindM_eq on_err_eq
        split: if_splits sum.splits)
  show ?thesis
    using extendIfDue_Inr [OF s coherent_ok [OF f(1)], of d t r2 w3] x v f d by auto
qed

text \<open>\<^verbatim>\<open>Resolve\<close> is safe, and what it returns comes from an active record of the store or the cache.\<close>

lemma Resolve_safe:
  assumes s: "sess_service st held mgr"
  shows "sess_safe view ok held mgr w (snd (sess_Resolve sha mgr raw w))"
proof (cases "\<exists>h. HashToken sha raw = Inr h \<and> coherent view ok held mgr w")
  case True
  then obtain h where h: "HashToken sha raw = Inr h" and c: "coherent view ok held mgr w" by blast
  let ?t = "fst (now w)" and ?w = "snd (now w)"
  have s1: "sess_safe view ok held mgr w ?w" by (rule sess_safe_frame) simp_all
  show ?thesis
  proof (cases "sm_cache mgr")
    case None
    then show ?thesis using h sess_safe_trans [OF s1 resolveDurable_safe [OF s]]
      by (simp add: sess_Resolve_def now_def)
  next
    case (Some ca)
    then have ca: "session_cache ca held" using s sess_service_cache by blast
    obtain g w2 where 2: "on_cache (sc_Get ca h) ?w = (g, w2)" by (rule prod.exhaust)
    have "sess_safe view ok held mgr ?w w2"
    proof (rule sess_safe_cache)
      show "sw_store w2 = sw_store ?w" using 2 by (auto simp: on_cache_def)
      fix k q assume "held (sw_cache w2) k = Some q"
      then show "held (sw_cache ?w) k = Some q \<or> view (sw_store ?w) k = Some q"
        using session_cache.get_sub [OF ca, of h "sw_cache w"] 2
        by (auto simp: on_cache_def map_le_def dom_def)
    qed
    then have s2: "sess_safe view ok held mgr w w2" using s1 sess_safe_trans by blast
    have dur: "sess_safe view ok held mgr w (snd (sess_resolveDurable mgr h ?t w2))"
      by (rule sess_safe_trans [OF s2 resolveDurable_safe [OF s]])
    have "sess_safe view ok held mgr w2 (snd (on_cache (sc_Delete ca h) w2))"
      using delete_safe [OF s, of w2 h] Some by (simp add: sess_deleteCached_def)
    then have del: "sess_safe view ok held mgr w
        (snd (sess_resolveDurable mgr h ?t (snd (on_cache (sc_Delete ca h) w2))))"
      using s2 resolveDurable_safe [OF s] sess_safe_trans by blast
    have ext: "sess_safe view ok held mgr w (snd (sess_extendIfDue mgr q ?t w2))"
      if "g = Inr q" "sr_TokenHash q = h" for q
    proof -
      have "held (sw_cache w) h = Some q"
        using session_cache.get_held [OF ca] 2 that(1) by (auto simp: on_cache_def)
      then obtain d where d: "view (sw_store w) h = Some d" "sess_later q d"
        using c Some by (auto simp: coherent_def)
      have "sw_store w2 = sw_store w" using 2 by (auto simp: on_cache_def)
      then show ?thesis
        using extendIfDue_safe [OF s, of w2 q d] d that(2) s2 sess_safe_trans by metis
    qed
    show ?thesis using h Some 2 dur del ext
      by (auto simp: sess_Resolve_def now_def split: sum.split)
  qed
qed (auto simp: sess_Resolve_def sess_safe_def split: sum.split)

lemma Resolve_Inr:
  assumes s: "sess_service st held mgr" and c: "coherent view ok held mgr w"
    and r: "sess_Resolve sha mgr raw w = (Inr r, w')"
  obtains h q where "HashToken sha raw = Inr h" "sr_TokenHash r = h" "sess_validRecord r"
    "sess_ActiveAt r (clock w (pos w))" "sess_ActiveAt q (clock w (pos w))"
    "view (sw_store w) h = Some q \<or> sm_cache mgr \<noteq> None \<and> held (sw_cache w) h = Some q"
    "view (sw_store w') h = Some r \<or>
       sm_cache mgr \<noteq> None \<and> r = q \<and> view (sw_store w') = view (sw_store w)"
proof -
  note result = that
  obtain h where h: "HashToken sha raw = Inr h" using r by (auto simp: sess_Resolve_def split: sum.splits)
  let ?t = "clock w (pos w)" and ?w = "snd (now w)"
  have found: thesis if v: "sw_store v = sw_store w" "coherent view ok held mgr v"
      "sess_resolveDurable mgr h ?t v = (Inr r, w')" for v
    using resolveDurable_Inr [OF s v(2,3)] v(1) result [OF h] by metis
  have c1: "coherent view ok held mgr ?w" using c by (simp add: coherent_def)
  show thesis
  proof (cases "sm_cache mgr")
    case None
    then show thesis using r h c1 found [of ?w] by (simp add: sess_Resolve_def now_def)
  next
    case (Some ca)
    then have ca: "session_cache ca held" using s sess_service_cache by blast
    obtain g w2 where 2: "on_cache (sc_Get ca h) ?w = (g, w2)" by (rule prod.exhaust)
    have st2: "sw_store w2 = sw_store w" using 2 by (auto simp: on_cache_def)
    have "held (sw_cache w2) \<subseteq>\<^sub>m held (sw_cache w)"
      using session_cache.get_sub [OF ca, of h "sw_cache w"] 2 by (auto simp: on_cache_def)
    then have c2: "coherent view ok held mgr w2"
      using c st2 unfolding coherent_def map_le_def dom_def by fastforce
    have c3: "coherent view ok held mgr (snd (on_cache (sc_Delete ca h) w2))"
      using sess_safe_coherent [OF delete_safe [OF s, of w2 h] c2] Some
      by (simp add: sess_deleteCached_def)
    consider (dur) "sess_resolveDurable mgr h ?t w2 = (Inr r, w')"
      | (del) "sess_resolveDurable mgr h ?t (snd (on_cache (sc_Delete ca h) w2)) = (Inr r, w')"
      | (hit) q where "g = Inr q" "sess_validRecord q" "sr_TokenHash q = h" "sess_ActiveAt q ?t"
          "sess_extendIfDue mgr q ?t w2 = (Inr r, w')"
      using r h Some 2 by (auto simp: sess_Resolve_def now_def split: sum.splits if_splits)
    then show thesis
    proof cases
      case dur then show thesis using found st2 c2 by blast
    next
      case del then show thesis using found [OF _ c3] st2 by simp
    next
      case hit
      have "held (sw_cache w) h = Some q"
        using session_cache.get_held [OF ca] 2 hit(1) by (auto simp: on_cache_def)
      then show thesis
        using extendIfDue_Inr [OF s coherent_ok [OF c2] hit(5)] hit st2 Some h result [OF h, of q] by auto
    qed
  qed
qed

end

context session_store
begin

lemma delete_view:
  assumes s: "sess_service st held mgr" and d: "sess_deleteCached mgr h w = (r, w')"
  shows "sess_safe view ok held mgr w w'" and "sw_store w' = sw_store w"
    and "r = Inr u \<Longrightarrow> sm_cache mgr \<noteq> None \<Longrightarrow> held (sw_cache w') h = None"
  using delete_safe [OF s, of w h] sess_deleteCached_store [of mgr h w] delete_Inr [OF s, of h w u] d
  by simp_all

text \<open>One round of \<^verbatim>\<open>Rotate\<close> that the store accepts.\<close>

lemma rotate_loop_safe:
  assumes s: "sess_service st held mgr"
  shows "sess_safe view ok held mgr w (snd (sess_rotate_loop n sha mgr cur sub t w))"
proof (induction n arbitrary: w)
  case (Suc n)
  obtain r1 w1 where 1: "sess_newIssued sha mgr sub w = (r1, w1)" by fastforce
  then have s1: "sess_safe view ok held mgr w w1"
    using newIssued_safe [where w = w and sha = sha and mgr = mgr and sub = sub] by simp
  show ?case
  proof (cases r1)
    case (Inr i)
    let ?r = "si_Record i"
    obtain r2 w2 where 2: "on_store (ss_Rotate st cur ?r t) w1 = (r2, w2)" by fastforce
    have b: "sess_bounded mgr ?r" using 1 Inr s by (auto intro: sess_newIssued_bounded)
    have s2: "sess_safe view ok held mgr w w2"
      using sess_safe_trans [OF s1 rotate_safe [OF b]] 2 by (metis snd_conv)
    have "sess_safe view ok held mgr w (sess_populateCache mgr ?r w2)" if "r2 = Inr u" for u
    proof (cases "coherent view ok held mgr w")
      case True
      then have "ok (sw_store w1)" using s1 coherent_ok sess_safe_coherent by blast
      then have "view (sw_store w2) (sr_TokenHash ?r) = Some ?r"
        using rotate_Inr [of "sw_store w1" cur ?r t u] 2 that by (auto simp: on_store_def)
      then show ?thesis using populate_safe [OF s] s2 sess_safe_trans by blast
    qed (simp add: sess_safe_def)
    then have "sess_safe view ok held mgr w
        (snd (sess_deleteCached mgr cur (sess_populateCache mgr ?r w2)))" if "r2 = Inr u" for u
      using that delete_safe [OF s] sess_safe_trans by blast
    then show ?thesis
      using 1 2 Inr s s2 Suc [of w2]
      by (auto split: sum.split prod.split intro: sess_safe_trans)
  qed (use 1 s1 in simp)
qed simp

lemma rotate_loop_Inr:
  assumes s: "sess_service st held mgr"
  shows "coherent view ok held mgr w \<Longrightarrow>
     sess_rotate_loop n sha mgr cur sub t w = (Inr (i, e), w') \<Longrightarrow>
     \<exists>q. view (sw_store w) cur = Some q \<and> sess_ActiveAt q t \<and>
       \<not> session_conflict (view (sw_store w)) (si_Record i) \<and>
       view (sw_store w') = (view (sw_store w))
         (sr_TokenHash (si_Record i) \<mapsto> si_Record i, cur \<mapsto> q\<lparr>sr_RevokedAt := Some t\<rparr>) \<and>
       HashToken sha (si_Token i) = Inr (sr_TokenHash (si_Record i)) \<and>
       sr_SubjectID (si_Record i) = sub \<and> sr_RevokedAt (si_Record i) = None \<and>
       sr_ExpiresAt (si_Record i) = sr_CreatedAt (si_Record i) + sm_lifetime mgr \<and>
       (e = None \<longrightarrow> sess_locked view held cur mgr w')"
proof (induction n arbitrary: w)
  case (Suc n)
  obtain r1 w1 where 1: "sess_newIssued sha mgr sub w = (r1, w1)" by fastforce
  have "coherent view ok held mgr (snd (sess_newIssued sha mgr sub w))"
    by (rule sess_safe_coherent [OF newIssued_safe Suc(2)])
  then have st1: "sw_store w1 = sw_store w" "coherent view ok held mgr w1"
    using sess_newIssued_frame(1) [of sha mgr sub w] 1 by auto
  from 1 Suc(3) obtain k where k: "r1 = Inr k" by (cases r1) auto
  obtain r2 w2 where 2: "on_store (ss_Rotate st cur (si_Record k) t) w1 = (r2, w2)" by fastforce
  have b: "sess_bounded mgr (si_Record k)" using 1 k s by (auto intro: sess_newIssued_bounded)
  show ?case
  proof (cases r2)
    case (Inl e')
    then have rec: "sess_rotate_loop n sha mgr cur sub t w2 = (Inr (i, e), w')"
      using Suc(3) 1 2 k s by (auto split: if_splits)
    have c2: "coherent view ok held mgr w2"
      using sess_safe_coherent [OF rotate_safe [OF b] st1(2)] 2 by (metis snd_conv)
    have "view (sw_store w2) = view (sw_store w)"
      using rotate [of cur "si_Record k" t] coherent_ok [OF st1(2)]
      by (cases rule: implements_cases)
        (use 2 Inl st1(1) in \<open>auto simp: on_store_def fun_spec_def spec_Rotate_def
           split: if_splits option.splits\<close>)
    with Suc(1) [OF c2 rec] show ?thesis by simp
  next
    case (Inr u)
    obtain r3 w3 where 3: "sess_deleteCached mgr cur (sess_populateCache mgr (si_Record k) w2) = (r3, w3)"
      by fastforce
    then have i: "i = k" "w' = w3" "e = None \<longrightarrow> r3 = Inr ()"
      using Suc(3) 1 2 k s Inr by (auto split: sum.splits)
    have "fst (ss_Rotate st cur (si_Record k) t (sw_store w1)) = Inr u"
      "sw_store w2 = snd (ss_Rotate st cur (si_Record k) t (sw_store w1))"
      using 2 Inr by (auto simp: on_store_def)
    then obtain q where q: "view (sw_store w) cur = Some q" "sess_ActiveAt q t"
      "\<not> session_conflict (view (sw_store w)) (si_Record k)"
      "view (sw_store w3) = (view (sw_store w))
         (sr_TokenHash (si_Record k) \<mapsto> si_Record k, cur \<mapsto> q\<lparr>sr_RevokedAt := Some t\<rparr>)"
      using rotate_Inr [OF coherent_ok [OF st1(2)], of cur "si_Record k" t u] st1(1)
        delete_view(2) [OF s 3] by auto
    have "e = None \<longrightarrow> sess_locked view held cur mgr w'"
      using i delete_view(3) [OF s 3, of "()"] q(4) by (auto simp: sess_locked_def)
    then show ?thesis
      using q sess_newIssued_Inr [OF 1 [unfolded k]] unfolding i(1,2) by blast
  qed
qed simp

lemma Rotate_Inr:
  assumes s: "sess_service st held mgr" and c: "coherent view ok held mgr w"
    and r: "sess_Rotate sha mgr raw w = (Inr (i, e), w')"
  obtains h q t where "HashToken sha raw = Inr h" "view (sw_store w) h = Some q" "sess_ActiveAt q t"
    "\<exists>n. t = clock w n" "\<not> session_conflict (view (sw_store w)) (si_Record i)"
    "view (sw_store w') = (view (sw_store w))
       (sr_TokenHash (si_Record i) \<mapsto> si_Record i, h \<mapsto> q\<lparr>sr_RevokedAt := Some t\<rparr>)"
    "HashToken sha (si_Token i) = Inr (sr_TokenHash (si_Record i))"
    "sr_SubjectID (si_Record i) = sr_SubjectID q" "sr_RevokedAt (si_Record i) = None"
    "sr_ExpiresAt (si_Record i) = sr_CreatedAt (si_Record i) + sm_lifetime mgr"
    "e = None \<longrightarrow> sess_locked view held h mgr w'"
proof -
  obtain h where h: "HashToken sha raw = Inr h" using r by (auto simp: sess_Rotate_def split: sum.splits)
  obtain r1 w1 where 1: "on_store (ss_FindByTokenHash st h) w = (r1, w1)" by fastforce
  note f = find_step [OF c 1]
  obtain q where q: "r1 = Inr q" using 1 r s h
    by (cases r1) (auto simp: sess_Rotate_def bindM_eq on_err_eq)
  let ?t = "clock w1 (pos w1)" and ?w = "snd (now w1)"
  have c2: "coherent view ok held mgr ?w" using f(1) by (simp add: coherent_def)
  have "sess_rotate_loop creationAttempts sha mgr h (sr_SubjectID q) ?t ?w = (Inr (i, e), w')"
    using r 1 q h s by (auto simp: sess_Rotate_def bindM_eq on_err_eq now_def split: if_splits)
  note l = rotate_loop_Inr [OF s c2 this]
  have v: "view (sw_store ?w) = view (sw_store w)" using f(2) by simp
  have "\<exists>n. ?t = clock w n" using 1 by (auto simp: on_store_def)
  then show thesis
    using l that [OF h, of q ?t] f(4) [OF q] unfolding v by auto
qed

lemma Rotate_safe:
  assumes s: "sess_service st held mgr"
  shows "sess_safe view ok held mgr w (snd (sess_Rotate sha mgr raw w))"
proof (cases "HashToken sha raw")
  case (Inr h)
  obtain r1 w1 where 1: "on_store (ss_FindByTokenHash st h) w = (r1, w1)" by fastforce
  have s1: "sess_safe view ok held mgr w w1" using find_safe [of held mgr w h] 1 by simp
  have "sess_safe view ok held mgr w1 (snd (now w1))" by (rule sess_safe_frame) simp_all
  then have s2: "sess_safe view ok held mgr w (snd (now w1))" using s1 sess_safe_trans by blast
  have "sess_safe view ok held mgr w (snd (sess_rotate_loop n sha mgr h sub t (snd (now w1))))" for n sub t
    using s2 rotate_loop_safe [OF s] sess_safe_trans by blast
  then show ?thesis using 1 Inr s s1 s2
    by (auto simp: sess_Rotate_def bindM_eq on_err_eq now_def split: sum.split)
qed (simp add: sess_Rotate_def)

end

context session_store
begin

text \<open>Revocation in the store, then in the cache: the common end of \<^verbatim>\<open>Revoke\<close> and \<^verbatim>\<open>RevokeByID\<close>.\<close>

lemma revoke_cached_safe:
  assumes s: "sess_service st held mgr"
  shows "sess_safe view ok held mgr w (snd (bindM (on_err f (on_store (ss_Revoke st h t)))
    (\<lambda>_. sess_deleteCached mgr h) w))"
  using revoke_safe [of held mgr w h t] sess_safe_trans [OF revoke_safe [of held mgr w h t] delete_safe [OF s, of _ h]]
  by (simp add: bindM_eq on_err_eq split: sum.split)

lemma revoke_cached_result:
  assumes s: "sess_service st held mgr" and c: "coherent view ok held mgr w"
    and r: "bindM (on_err f (on_store (ss_Revoke st h t))) (\<lambda>_. sess_deleteCached mgr h) w = (res, w')"
  shows "(\<exists>e. res = Inl (f e) \<and> (is_driver e \<or> e = ESession Session_ErrNotFound)) \<or>
     (\<exists>q. view (sw_store w) h = Some q \<and>
       view (sw_store w') = (view (sw_store w))(h \<mapsto> sess_revoke t q) \<and>
       (case res of Inr _ \<Rightarrow> sess_locked view held h mgr w'
        | Inl e \<Rightarrow> errors_is e (ESession Session_ErrCacheSync)))"
proof -
  obtain r1 w1 where 1: "on_store (ss_Revoke st h t) w = (r1, w1)" by fastforce
  show ?thesis
  proof (cases r1)
    case (Inl e)
    have "is_driver e \<or> e = ESession Session_ErrNotFound"
      using revoke [of h t] coherent_ok [OF c] by (cases rule: implements_cases)
        (use 1 Inl in \<open>auto simp: on_store_def fun_spec_def spec_Revoke_def split: option.splits\<close>)
    then show ?thesis using r 1 Inl by (auto simp: bindM_eq on_err_eq)
  next
    case (Inr u)
    obtain r2 w2 where 2: "sess_deleteCached mgr h w1 = (r2, w2)" by fastforce
    have e: "res = r2" "w' = w2" using r 1 2 Inr by (auto simp: bindM_eq on_err_eq)
    obtain q where q: "view (sw_store w) h = Some q"
      "view (sw_store w2) = (view (sw_store w))(h \<mapsto> sess_revoke t q)"
      using revoke_Inr [OF coherent_ok [OF c], of h t u] 1 Inr delete_view(2) [OF s 2]
      by (auto simp: on_store_def)
    have "case r2 of Inr _ \<Rightarrow> sess_locked view held h mgr w2
        | Inl e \<Rightarrow> errors_is e (ESession Session_ErrCacheSync)"
    proof (cases r2)
      case (Inl e)
      then show ?thesis using 2
        by (auto simp: sess_deleteCached_def on_err_eq split: option.splits sum.splits)
    next
      case (Inr u)
      then show ?thesis using q(2) delete_view(3) [OF s 2, of u]
        by (auto simp: sess_locked_def sess_revoke_def)
    qed
    then show ?thesis using q e by blast
  qed
qed

lemma Revoke_safe:
  assumes s: "sess_service st held mgr"
  shows "sess_safe view ok held mgr w (snd (sess_Revoke sha mgr raw w))"
proof (cases "HashToken sha raw")
  case (Inr h)
  have "sess_safe view ok held mgr w (w\<lparr>pos := Suc (pos w)\<rparr>)" by (rule sess_safe_frame) simp_all
  then show ?thesis
    using Inr s sess_safe_trans [OF _ revoke_cached_safe [OF s]]
    by (simp add: sess_Revoke_def bindM_eq [of nowM])
qed (simp add: sess_Revoke_def)

lemma Revoke_result:
  assumes s: "sess_service st held mgr" and c: "coherent view ok held mgr w"
    and h: "HashToken sha raw = Inr h" and r: "sess_Revoke sha mgr raw w = (res, w')"
  shows "(\<exists>e. res = Inl (EWrap ''revoke durable session'' e) \<and>
       (is_driver e \<or> e = ESession Session_ErrNotFound)) \<or>
     (\<exists>q. view (sw_store w) h = Some q \<and>
       view (sw_store w') = (view (sw_store w))(h \<mapsto> sess_revoke (clock w (pos w)) q) \<and>
       (case res of Inr _ \<Rightarrow> sess_locked view held h mgr w'
        | Inl e \<Rightarrow> errors_is e (ESession Session_ErrCacheSync)))"
proof -
  have "coherent view ok held mgr (w\<lparr>pos := Suc (pos w)\<rparr>)" using c by (simp add: coherent_def)
  note l = revoke_cached_result [OF s this]
  have "bindM (on_err (EWrap ''revoke durable session'') (on_store (ss_Revoke st h (clock w (pos w)))))
      (\<lambda>_. sess_deleteCached mgr h) (w\<lparr>pos := Suc (pos w)\<rparr>) = (res, w')"
    using r h s by (simp add: sess_Revoke_def bindM_eq [of nowM])
  from l [OF this] show ?thesis by simp
qed

lemma list_view: "ok s \<Longrightarrow> view (snd (ss_ListBySubject st sub s)) = view s"
  using list [of sub] unfolding implements_def spec_List_def by blast

lemma list_Inl: "ok s \<Longrightarrow> fst (ss_ListBySubject st sub s) = Inl e \<Longrightarrow> is_driver e"
  using list [of sub] unfolding implements_def spec_List_def by fastforce

lemma list_Inr:
  "ok s \<Longrightarrow> fst (ss_ListBySubject st sub s) = Inr rs \<Longrightarrow>
     set rs = {r \<in> ran (view s). sr_SubjectID r = sub} \<and> distinct rs \<and>
       sorted_wrt (\<lambda>a b. sr_CreatedAt b \<le> sr_CreatedAt a) rs"
  using list [of sub] unfolding implements_def spec_List_def by fastforce

lemma List_step:
  assumes "coherent view ok held mgr w" and s: "sess_service st held mgr"
    and r: "sess_List mgr sub w = (r, w1)"
  shows "coherent view ok held mgr w1" and "view (sw_store w1) = view (sw_store w)"
    and "sw_cache w1 = sw_cache w" and "clock w1 = clock w"
    and "r = Inr rs \<Longrightarrow> set rs = {q \<in> ran (view (sw_store w)). sr_SubjectID q = sub} \<and> distinct rs"
    and "r = Inr rs \<Longrightarrow> list_all sess_validRecord rs"
    and "r = Inr rs \<Longrightarrow> sorted_wrt (\<lambda>a b. sr_CreatedAt b \<le> sr_CreatedAt a) rs"
    and "sess_safe view ok held mgr w w1"
proof -
  have o: "ok (sw_store w)" using assms(1) by (rule coherent_ok)
  obtain r1 w2 where 1: "on_store (ss_ListBySubject st sub) w = (r1, w2)" by fastforce
  have w1: "w1 = (if blank sub then w else w2)"
    using r 1 s by (auto simp: sess_List_def bindM_eq on_err_eq split: sum.splits if_splits)
  show sf: "sess_safe view ok held mgr w w1" using list_safe [of held mgr w sub] 1 w1 by simp
  show "coherent view ok held mgr w1" using sess_safe_coherent [OF sf assms(1)] .
  show "sw_cache w1 = sw_cache w" "clock w1 = clock w"
    using 1 w1 by (auto simp: on_store_def)
  have l: "view (sw_store w2) = view (sw_store w) \<and> (\<forall>rs. r1 = Inr rs \<longrightarrow>
      set rs = {q \<in> ran (view (sw_store w)). sr_SubjectID q = sub} \<and> distinct rs \<and>
      sorted_wrt (\<lambda>a b. sr_CreatedAt b \<le> sr_CreatedAt a) rs)"
    using list_view [OF o, of sub] list_Inr [OF o, of sub] 1 unfolding on_store_def by auto
  then show "view (sw_store w1) = view (sw_store w)" using w1 by simp
  have r1: "r = Inr rs \<Longrightarrow> r1 = Inr rs \<and> list_all sess_validRecord rs"
    using r 1 sess_service_store [OF s]
    by (auto simp: sess_List_def bindM_eq on_err_eq list.pred_set split: sum.splits if_splits)
  then show "r = Inr rs \<Longrightarrow> set rs = {q \<in> ran (view (sw_store w)). sr_SubjectID q = sub} \<and> distinct rs"
    "r = Inr rs \<Longrightarrow> list_all sess_validRecord rs"
    "r = Inr rs \<Longrightarrow> sorted_wrt (\<lambda>a b. sr_CreatedAt b \<le> sr_CreatedAt a) rs"
    using l by auto
qed

lemma RevokeByID_safe:
  assumes s: "sess_service st held mgr"
  shows "sess_safe view ok held mgr w (snd (sess_RevokeByID mgr sub i w))"
proof (cases "coherent view ok held mgr w")
  case c: True
  obtain r w1 where 1: "sess_List mgr sub w = (r, w1)" by fastforce
  have s1: "sess_safe view ok held mgr w w1" by (rule List_step(8) [OF c s 1])
  have "sess_safe view ok held mgr w1 (w1\<lparr>pos := Suc (pos w1)\<rparr>)" by (rule sess_safe_frame) simp_all
  then have s2: "sess_safe view ok held mgr w (w1\<lparr>pos := Suc (pos w1)\<rparr>)"
    using s1 sess_safe_trans by blast
  show ?thesis using 1 s1 s sess_safe_trans [OF s2 revoke_cached_safe [OF s]]
    by (auto simp: sess_RevokeByID_def bindM_eq [of "sess_List mgr sub"] bindM_eq [of nowM]
        split: sum.split option.split)
qed (simp add: sess_safe_def)

lemma RevokeByID_result:
  assumes s: "sess_service st held mgr" and c: "coherent view ok held mgr w"
    and r: "sess_RevokeByID mgr sub i w = (res, w')"
    and ok: "res = Inr () \<or> res = Inl e \<and> errors_is e (ESession Session_ErrCacheSync)"
  obtains q t where "view (sw_store w) (sr_TokenHash q) = Some q" "sr_SubjectID q = sub" "sr_ID q = i"
    "view (sw_store w') = (view (sw_store w))(sr_TokenHash q \<mapsto> sess_revoke t q)"
    "\<exists>n. t = clock w n" "res = Inr () \<Longrightarrow> sess_locked view held (sr_TokenHash q) mgr w'"
proof -
  note result = that
  obtain r1 w1 where 1: "sess_List mgr sub w = (r1, w1)" by fastforce
  note l = List_step [OF c s 1]
  have n: "\<not> (blank sub \<or> blank i)" using r ok by (auto simp: sess_RevokeByID_def)
  show thesis
  proof (cases r1)
    case (Inl e1)
    then have "\<not> errors_is e1 (ESession Session_ErrCacheSync)"
      using list_Inl [OF coherent_ok [OF c], of sub] 1 n sess_service_store [OF s]
      by (auto simp: sess_List_def bindM_eq on_err_eq err_simps split: sum.splits if_splits)
    then show thesis using r ok 1 Inl n by (auto simp: sess_RevokeByID_def bindM_eq)
  next
    case (Inr rs)
    show thesis
    proof (cases "find (\<lambda>r. sr_ID r = i) rs")
      case None
      then show thesis using r ok 1 Inr n by (auto simp: sess_RevokeByID_def bindM_eq)
    next
      case (Some q)
      then have "q \<in> set rs" "sr_ID q = i" by (auto simp: find_Some_iff)
      then have q: "q \<in> ran (view (sw_store w))" "sr_SubjectID q = sub" "sr_ID q = i"
        using l(5) [OF Inr] by auto
      then have v: "view (sw_store w) (sr_TokenHash q) = Some q"
        using ok_view [OF coherent_ok [OF c]] by (auto simp: ran_def sessions_ok_def)
      let ?t = "clock w1 (pos w1)" and ?w = "w1\<lparr>pos := Suc (pos w1)\<rparr>"
      have c2: "coherent view ok held mgr ?w" using l(1) by (simp add: coherent_def)
      have "bindM (on_err (EWrap ''revoke durable session'') (on_store (ss_Revoke st (sr_TokenHash q) ?t)))
          (\<lambda>_. sess_deleteCached mgr (sr_TokenHash q)) ?w = (res, w')"
        using r 1 Inr Some n s by (simp add: sess_RevokeByID_def bindM_eq [of "sess_List mgr sub"]
            bindM_eq [of nowM])
      from revoke_cached_result [OF s c2 this] ok
      have "view (sw_store w') = (view (sw_store w1))(sr_TokenHash q \<mapsto> sess_revoke ?t q) \<and>
          (res = Inr () \<longrightarrow> sess_locked view held (sr_TokenHash q) mgr w')"
        using l(2) v by (auto simp: err_simps)
      then show thesis using result [OF v q(2,3), of ?t] l(2,4) by auto
    qed
  qed
qed

end

lemma NewManager_service:
  assumes "sess_NewManager (Some st) ca config = Inr mgr"
    and "\<And>c. ca = Some c \<Longrightarrow> session_cache c held"
  shows "sess_service st held mgr"
  using assms
  by (cases "scfg_Extension config")
    (auto simp: sess_NewManager_def sess_service_def Let_def simp del: sess_service_store
      split: if_splits)

lemma sess_service_extension:
  "sess_service st held mgr \<Longrightarrow> sm_extension mgr = Some x \<Longrightarrow> 0 < ec_ExtendAfter x"
  unfolding sess_service_def by blast

context session_store
begin

lemma revoke_loop_result:
  assumes s: "sess_service st held mgr"
  shows "sess_revoke_loop mgr sub ce rs w = (res, w') \<Longrightarrow>
     sess_safe view ok held mgr w w' \<and> sw_store w' = sw_store w \<and>
     (sm_cache mgr \<noteq> None \<longrightarrow> held (sw_cache w') \<subseteq>\<^sub>m held (sw_cache w)) \<and>
     (res = Inr () \<longrightarrow> ce = None \<and>
        (sm_cache mgr \<noteq> None \<longrightarrow> (\<forall>r \<in> set rs. held (sw_cache w') (sr_TokenHash r) = None)))"
proof (induction rs arbitrary: ce w)
  case (Cons r rs)
  show ?case
  proof (cases "\<not> sess_validRecord r \<or> sr_SubjectID r \<noteq> sub")
    case False
    obtain r1 w1 where 1: "sess_deleteCached mgr (sr_TokenHash r) w = (r1, w1)" by fastforce
    note d = delete_view [OF s 1]
    define ce' where "ce' = (case r1 of Inl e \<Rightarrow> (case ce of None \<Rightarrow> Some e | Some _ \<Rightarrow> ce) | Inr _ \<Rightarrow> ce)"
    have "sess_revoke_loop mgr sub ce' rs w1 = (res, w')"
      using Cons.prems False 1 by (auto simp: ce'_def split: sum.splits)
    note l = Cons.IH [OF this]
    have sub: "held (sw_cache w1) \<subseteq>\<^sub>m held (sw_cache w)" if "sm_cache mgr = Some c" for c
    proof -
      have "w1 = snd (sess_deleteCached mgr (sr_TokenHash r) w)" using 1 by simp
      then have "w1 = snd (on_cache (sc_Delete c (sr_TokenHash r)) w)"
        using that by (simp add: sess_deleteCached_def)
      then show ?thesis using session_cache.delete_sub [OF sess_service_cache [OF s that]] by simp
    qed
    have "ce = None" "\<exists>u. r1 = Inr u" if "res = Inr ()"
      using l that by (auto simp: ce'_def split: sum.splits option.splits)
    then show ?thesis using l d sub sess_safe_trans [OF d(1)]
      by (fastforce simp: map_le_def dom_def intro: map_le_trans)
  qed (use Cons.prems in auto)
qed (auto split: option.splits)

lemma RevokeAll_safe:
  assumes s: "sess_service st held mgr"
  shows "sess_safe view ok held mgr w (snd (sess_RevokeAll mgr sub w))"
proof (cases "blank sub")
  case False
  let ?w = "w\<lparr>pos := Suc (pos w)\<rparr>"
  obtain r1 w1 where 1: "on_store (ss_RevokeAll st sub (clock w (pos w))) ?w = (r1, w1)" by fastforce
  have "sess_safe view ok held mgr w ?w" by (rule sess_safe_frame) simp_all
  then have s1: "sess_safe view ok held mgr w w1"
    using revoke_all_safe [of held mgr ?w sub "clock w (pos w)"] 1 sess_safe_trans by fastforce
  have "sess_safe view ok held mgr w (snd (sess_revoke_loop mgr sub None rs w1))" for rs
    using revoke_loop_result [OF s, of sub None rs w1] s1 sess_safe_trans by (metis prod.collapse)
  then show ?thesis using 1 s s1 False
    by (simp add: sess_RevokeAll_def bindM_eq on_err_eq split: sum.split)
qed (simp add: sess_RevokeAll_def)

lemma RevokeAll_result:
  assumes s: "sess_service st held mgr" and c: "coherent view ok held mgr w"
    and r: "sess_RevokeAll mgr sub w = (Inr (), w')"
  shows "view (sw_store w') = revoke_subject sub (clock w (pos w)) (view (sw_store w)) \<and>
     (\<forall>h q. view (sw_store w) h = Some q \<and> sr_SubjectID q = sub \<longrightarrow> sess_locked view held h mgr w')"
proof -
  let ?w = "w\<lparr>pos := Suc (pos w)\<rparr>" and ?t = "clock w (pos w)"
  obtain r1 w1 where 1: "on_store (ss_RevokeAll st sub ?t) ?w = (r1, w1)" by fastforce
  have b: "\<not> blank sub" using r by (auto simp: sess_RevokeAll_def)
  obtain rs where rs: "r1 = Inr rs" and loop: "sess_revoke_loop mgr sub None rs w1 = (Inr (), w')"
    using r 1 s b by (cases r1) (auto simp: sess_RevokeAll_def bindM_eq on_err_eq)
  have o: "ok (sw_store w)" using c by (rule coherent_ok)
  have o1: "ok (sw_store w1)" using implements_inv [OF revoke_all o] 1 by (auto simp: on_store_def)
  have v: "view (sw_store w1) = revoke_subject sub ?t (view (sw_store w))"
    "set rs = {q \<in> ran (view (sw_store w1)). sr_SubjectID q = sub}"
    using implements_Inr [OF revoke_all o, of sub ?t rs] 1 rs
    by (auto simp: on_store_def spec_RevokeAll_def)
  note l = revoke_loop_result [OF s loop]
  have "sess_locked view held h mgr w'" if h: "view (sw_store w) h = Some q" "sr_SubjectID q = sub" for h q
  proof -
    have d: "view (sw_store w1) h = Some (sess_revoke ?t q)"
      using v(1) h by (simp add: revoke_subject_def)
    then have "sess_revoke ?t q \<in> set rs"
      using h(2) v(2) by (auto simp: ran_def sess_revoke_def)
    moreover have "sr_TokenHash (sess_revoke ?t q) = h"
      using ok_view [OF o1] d by (auto simp: sessions_ok_def)
    ultimately show ?thesis using l d by (auto simp: sess_locked_def sess_revoke_def)
  qed
  then show ?thesis using l v(1) by simp
qed

lemma Create_safe:
  assumes s: "sess_service st held mgr"
  shows "sess_safe view ok held mgr w (snd (sess_Create sha mgr sub w))"
  using create_loop_safe [OF s] by (simp add: sess_Create_def)

lemma List_safe:
  assumes s: "sess_service st held mgr"
  shows "sess_safe view ok held mgr w (snd (sess_List mgr sub w))"
proof (cases "coherent view ok held mgr w")
  case True
  then show ?thesis using List_step(8) [OF _ s] by (metis prod.collapse)
qed (simp add: sess_safe_def)

text \<open>Every run of the manager is safe.\<close>

lemma do_safe:
  "sess_service st held mgr \<Longrightarrow> sess_safe view ok held mgr w (sess_do sha mgr x w)"
  by (cases x) (simp_all add: Create_safe Resolve_safe Rotate_safe Revoke_safe RevokeByID_safe
      RevokeAll_safe List_safe)

lemma run_safe:
  "sess_service st held mgr \<Longrightarrow> sess_safe view ok held mgr w (sess_run sha mgr xs w)"
  by (induction xs arbitrary: w) (auto intro: sess_safe_trans do_safe)

text \<open>A locked session never resolves again, whatever is called in between.\<close>

lemma locked_not_resolved:
  assumes s: "sess_service st held mgr" and c: "coherent view ok held mgr w"
    and h: "HashToken sha raw = Inr h" and l: "sess_locked view held h mgr w"
  shows "\<exists>e w'. sess_Resolve sha mgr raw (sess_run sha mgr xs w) = (Inl e, w')"
proof -
  let ?w = "sess_run sha mgr xs w"
  note run = run_safe [OF s, of w sha xs]
  have c': "coherent view ok held mgr ?w" and l': "sess_locked view held h mgr ?w"
    using sess_safe_coherent [OF run c] sess_safe_locked [OF run c l] by auto
  obtain res w' where r: "sess_Resolve sha mgr raw ?w = (res, w')" by fastforce
  show ?thesis
  proof (cases res)
    case (Inr q)
    from s c' r [unfolded Inr] have False
    proof (cases rule: Resolve_Inr)
      case (1 h' p)
      then show False using h l' by (auto simp: sess_locked_def sess_ActiveAt_def)
    qed
    then show ?thesis ..
  qed (use r in simp)
qed

text \<open>An active record whose cached copy, if any, is up to date does resolve, unless the store fails.\<close>

lemma extendIfDue_complete:
  assumes s: "sess_service st held mgr" and o: "ok (sw_store w)"
    and d: "view (sw_store w) (sr_TokenHash d) = Some d" "sess_validRecord d" "sess_ActiveAt d t"
  shows "\<exists>r. fst (sess_extendIfDue mgr d t w) = Inr r"
proof (cases "\<exists>x u. sm_extension mgr = Some x \<and> sess_extensionTarget (sm_lifetime mgr) x d t = Some u")
  case True
  then obtain x u where x: "sm_extension mgr = Some x"
    "sess_extensionTarget (sm_lifetime mgr) x d t = Some u" by blast
  let ?h = "sr_TokenHash d"
  obtain r1 w1 where 1: "on_store (ss_Extend st ?h t u) w = (r1, w1)" by fastforce
  have u: "sr_ExpiresAt d < u" using extensionTarget_bound [OF x(2)] by simp
  have t: "sr_CreatedAt d \<le> t"
    using x(2) sess_service_extension [OF s x(1)] d(2)
    by (auto simp: sess_extensionTarget_def sess_validRecord_def Let_def
        split: option.splits if_splits)
  show ?thesis
    using extend [of ?h t u] o
  proof (cases rule: implements_cases)
    case (driver e)
    then have "r1 = Inl e" using 1 by (simp add: on_store_def)
    then show ?thesis using x 1 s driver(1) by (simp add: sess_extendIfDue_def err_simps)
  next
    case spec
    let ?r = "d\<lparr>sr_ExpiresAt := u, sr_ExtendedAt := Some t\<rparr>"
    have "r1 = Inr ?r" using spec 1 d u
      by (auto simp: on_store_def fun_spec_def spec_Extend_def sess_ActiveAt_def Let_def)
    moreover have "sess_validRecord ?r" "sess_ActiveAt ?r t"
      using d(2,3) u t by (auto simp: sess_validRecord_def sess_ActiveAt_def)
    ultimately show ?thesis using x 1 s by (simp add: sess_extendIfDue_def)
  qed
qed (auto simp: sess_extendIfDue_def split: option.splits)

lemma resolveDurable_complete:
  assumes s: "sess_service st held mgr" and c: "coherent view ok held mgr w"
    and d: "view (sw_store w) h = Some d" "sess_validRecord d" "sess_ActiveAt d t"
  shows "(\<exists>r. fst (sess_resolveDurable mgr h t w) = Inr r) \<or>
     (\<exists>e. is_driver e \<and> fst (sess_resolveDurable mgr h t w) = Inl (EWrap ''find durable session'' e))"
proof -
  obtain r1 w1 where 1: "on_store (ss_FindByTokenHash st h) w = (r1, w1)" by fastforce
  note f = find_step [OF c 1]
  have h: "sr_TokenHash d = h" using ok_view [OF coherent_ok [OF c]] d(1) by (auto simp: sessions_ok_def)
  show ?thesis
  proof (cases r1)
    case (Inl e)
    have "is_driver e" using find [of h] coherent_ok [OF c]
      by (cases rule: implements_cases)
        (use 1 Inl d(1) in \<open>auto simp: on_store_def fun_spec_def spec_Find_def\<close>)
    then show ?thesis using 1 Inl s by (simp add: sess_resolveDurable_def bindM_eq on_err_eq)
  next
    case (Inr q)
    then have "q = d" using f(4) d(1) by auto
    then show ?thesis
      using extendIfDue_complete [OF s coherent_ok [OF f(1)], of d t] f(2) d h 1 Inr s
      by (auto simp: sess_resolveDurable_def bindM_eq on_err_eq)
  qed
qed

lemma Resolve_complete:
  assumes s: "sess_service st held mgr" and c: "coherent view ok held mgr w"
    and h: "HashToken sha raw = Inr h"
    and d: "view (sw_store w) h = Some d" "sess_validRecord d" "sess_ActiveAt d (clock w (pos w))"
    and fresh: "sm_cache mgr \<noteq> None \<longrightarrow> held (sw_cache w) h \<in> {None, Some d}"
  shows "(\<exists>r. fst (sess_Resolve sha mgr raw w) = Inr r) \<or>
     (\<exists>e. is_driver e \<and> fst (sess_Resolve sha mgr raw w) = Inl (EWrap ''find durable session'' e))"
proof (cases "sm_cache mgr")
  case None
  have "coherent view ok held mgr (snd (now w))" using c by (simp add: coherent_def)
  from resolveDurable_complete [OF s this, of h d "clock w (pos w)"] show ?thesis
    using None h d by (simp add: sess_Resolve_def now_def)
next
  case (Some ca)
  then have ca: "session_cache ca held" using s sess_service_cache by blast
  obtain g w2 where 2: "on_cache (sc_Get ca h) (snd (now w)) = (g, w2)" by (meson surj_pair)
  have st2: "sw_store w2 = sw_store w" using 2 by (auto simp: on_cache_def)
  have "held (sw_cache w2) \<subseteq>\<^sub>m held (sw_cache w)"
    using session_cache.get_sub [OF ca, of h "sw_cache w"] 2 by (auto simp: on_cache_def)
  then have c2: "coherent view ok held mgr w2"
    using c st2 unfolding coherent_def map_le_def dom_def by fastforce
  have hd: "sr_TokenHash d = h" using ok_view [OF coherent_ok [OF c]] d(1) by (auto simp: sessions_ok_def)
  have "q = d" if "g = Inr q" for q
    using session_cache.get_held [OF ca] 2 that fresh Some by (fastforce simp: on_cache_def)
  then show ?thesis
    using resolveDurable_complete [OF s c2, of h d "clock w (pos w)"]
      extendIfDue_complete [OF s coherent_ok [OF c2], of d "clock w (pos w)"] st2 d Some h 2 hd
    by (auto simp: sess_Resolve_def now_def split: sum.split)
qed

end

context session_store
begin

text \<open>A failing \<^verbatim>\<open>Create\<close> or \<^verbatim>\<open>Rotate\<close> leaves the durable sessions as they were.\<close>

lemma create_Inl_view: "ok s \<Longrightarrow> fst (ss_Create st r s) = Inl e \<Longrightarrow> view (snd (ss_Create st r s)) = view s"
  using create [of r] by (fastforce simp: implements_def fun_spec_def spec_Create_def split: if_splits)

lemma rotate_Inl_view:
  assumes "ok s" and e: "fst (ss_Rotate st h r t s) = Inl e"
  shows "view (snd (ss_Rotate st h r t s)) = view s"
  using rotate [of h r t] assms(1)
proof (cases rule: implements_cases)
  case spec
  then show ?thesis
    using e by (auto simp: fun_spec_def spec_Rotate_def split: if_splits option.splits)
qed

lemma create_loop_Inl:
  assumes s: "sess_service st held mgr"
  shows "ok (sw_store w) \<Longrightarrow> sess_create_loop n sha mgr sub w = (Inl e, w') \<Longrightarrow>
     view (sw_store w') = view (sw_store w)"
proof (induction n arbitrary: w)
  case (Suc n)
  obtain r1 w1 where 1: "sess_newIssued sha mgr sub w = (r1, w1)" by fastforce
  have st1: "sw_store w1 = sw_store w" using sess_newIssued_frame(1) [of sha mgr sub w] 1 by simp
  show ?case
  proof (cases r1)
    case (Inr i)
    obtain r2 w2 where 2: "on_store (ss_Create st (si_Record i)) w1 = (r2, w2)" by fastforce
    from Suc(3) 1 2 Inr s obtain e2 where e2: "r2 = Inl e2" by (cases r2) auto
    have "view (sw_store w2) = view (sw_store w)" "ok (sw_store w2)"
      using create_Inl_view [of "sw_store w1" "si_Record i" e2] implements_inv [OF create, of "sw_store w1"]
        2 e2 st1 Suc(2) by (auto simp: on_store_def)
    moreover have "sess_create_loop n sha mgr sub w2 = (Inl e, w') \<or> w' = w2"
      using Suc(3) 1 2 Inr e2 sess_service_store [OF s] by (simp split: if_splits)
    ultimately show ?thesis using Suc(1) [of w2] by auto
  qed (use Suc(3) 1 st1 in auto)
qed simp

lemma Create_Inl:
  "sess_service st held mgr \<Longrightarrow> coherent view ok held mgr w \<Longrightarrow>
     sess_Create sha mgr sub w = (Inl e, w') \<Longrightarrow> view (sw_store w') = view (sw_store w)"
  by (auto simp: sess_Create_def split: if_splits dest: create_loop_Inl coherent_ok)

lemma rotate_loop_Inl:
  assumes s: "sess_service st held mgr"
  shows "ok (sw_store w) \<Longrightarrow> sess_rotate_loop n sha mgr cur sub t w = (Inl e, w') \<Longrightarrow>
     view (sw_store w') = view (sw_store w)"
proof (induction n arbitrary: w)
  case (Suc n)
  obtain r1 w1 where 1: "sess_newIssued sha mgr sub w = (r1, w1)" by fastforce
  have st1: "sw_store w1 = sw_store w" using sess_newIssued_frame(1) [of sha mgr sub w] 1 by simp
  show ?case
  proof (cases r1)
    case (Inr i)
    obtain r2 w2 where 2: "on_store (ss_Rotate st cur (si_Record i) t) w1 = (r2, w2)" by fastforce
    from Suc(3) 1 2 Inr s obtain e2 where e2: "r2 = Inl e2"
      by (cases r2) (auto split: prod.splits sum.splits)
    have "view (sw_store w2) = view (sw_store w)" "ok (sw_store w2)"
      using rotate_Inl_view [of "sw_store w1" cur "si_Record i" t e2]
        implements_inv [OF rotate, of "sw_store w1"] 2 e2 st1 Suc(2) by (auto simp: on_store_def)
    moreover have "sess_rotate_loop n sha mgr cur sub t w2 = (Inl e, w') \<or> w' = w2"
      using Suc(3) 1 2 Inr e2 sess_service_store [OF s] by (simp split: if_splits)
    ultimately show ?thesis using Suc(1) [of w2] by auto
  qed (use Suc(3) 1 st1 in auto)
qed simp

lemma Rotate_Inl:
  assumes s: "sess_service st held mgr" and c: "coherent view ok held mgr w"
    and r: "sess_Rotate sha mgr raw w = (Inl e, w')"
  shows "view (sw_store w') = view (sw_store w)"
proof (cases "HashToken sha raw")
  case (Inr h)
  obtain r1 w1 where 1: "on_store (ss_FindByTokenHash st h) w = (r1, w1)" by fastforce
  note f = find_step [OF c 1]
  show ?thesis
    using r 1 Inr s f(2) rotate_loop_Inl [OF s, of "w1\<lparr>pos := Suc (pos w1)\<rparr>" creationAttempts sha h]
      coherent_ok [OF f(1)]
    by (auto simp: sess_Rotate_def bindM_eq on_err_eq now_def split: sum.splits if_splits)
qed (use r in \<open>auto simp: sess_Rotate_def\<close>)

lemma Create_Inr:
  assumes "sess_service st held mgr" and "coherent view ok held mgr w"
    and "sess_Create sha mgr sub w = (Inr i, w')"
  shows "view (sw_store w') = (view (sw_store w))(sr_TokenHash (si_Record i) \<mapsto> si_Record i)"
    and "\<not> session_conflict (view (sw_store w)) (si_Record i)"
    and "HashToken sha (si_Token i) = Inr (sr_TokenHash (si_Record i))"
    and "sr_SubjectID (si_Record i) = sub" and "sr_RevokedAt (si_Record i) = None"
    and "sr_ExpiresAt (si_Record i) = sr_CreatedAt (si_Record i) + sm_lifetime mgr"
    and "\<not> blank sub"
  using create_loop_Inr [OF assms(1,2), of creationAttempts sha sub i w'] assms(3)
  by (auto simp: sess_Create_def split: if_splits)

end

text \<open>A successful \<^verbatim>\<open>Create\<close> adds to the cache nothing but the new record.\<close>

lemma create_loop_held:
  assumes c: "sm_cache mgr = Some ca" "session_cache ca held"
  shows "sess_create_loop n sha mgr sub w = (Inr i, w') \<Longrightarrow> held (sw_cache w') k = Some q \<Longrightarrow>
     held (sw_cache w) k = Some q \<or> q = si_Record i"
proof (induction n arbitrary: w)
  case (Suc n)
  obtain r1 w1 where 1: "sess_newIssued sha mgr sub w = (r1, w1)" by fastforce
  have c1: "sw_cache w1 = sw_cache w" using sess_newIssued_frame(2) [of sha mgr sub w] 1 by simp
  from Suc(2) 1 obtain j where j: "r1 = Inr j" by (cases r1) auto
  obtain r2 w2 where 2: "on_store (ss_Create (sm_store mgr) (si_Record j)) w1 = (r2, w2)" by fastforce
  then have c2: "sw_cache w2 = sw_cache w" using c1 by (auto simp: on_store_def)
  show ?case
  proof (cases r2)
    case (Inl e)
    then show ?thesis using Suc.IH [of w2] Suc.prems 1 2 j c2 by (auto split: if_splits)
  next
    case (Inr u)
    then have i: "i = j" "w' = sess_populateCache mgr (si_Record j) w2" using Suc(2) 1 2 j by auto
    then show ?thesis
      using Suc(3) session_cache.set_sub [OF c(2), of "si_Record j" _ "sw_cache w2" k q] c(1) c2
      by (fastforce simp: sess_populateCache_def now_def Let_def split: if_splits)
  qed
qed simp

end
