(* ===== verification/SessionTable.thy ===== *)
theory SessionTable
  imports SessionService
begin

text \<open>
  The table or collection \<^verbatim>\<open>authlier_sessions\<close> that the PostgreSQL, MySQL and MongoDB adapters share:
  a row has the columns of \<open>SessionRecord\<close>, and \<^verbatim>\<open>token_hash\<close> (primary key, \<^verbatim>\<open>_id\<close>) and \<^verbatim>\<open>id\<close> are unique
  (migrations 001 and 002 of each adapter). The table is the map of the contract.
\<close>

type_synonym session_db = "SessionRecord list conn"

text \<open>The unique keys of the table, and the representation invariant they maintain.\<close>

definition same_session :: "SessionRecord \<Rightarrow> SessionRecord \<Rightarrow> bool" where
  "same_session r q \<longleftrightarrow> sr_TokenHash q = sr_TokenHash r \<or> sr_ID q = sr_ID r"

definition session_table_ok :: "SessionRecord list \<Rightarrow> bool" where
  "session_table_ok t \<longleftrightarrow> distinct (map sr_TokenHash t) \<and> distinct (map sr_ID t)"

definition session_view :: "session_db \<Rightarrow> sessions" where
  "session_view c = keyed sr_TokenHash (tables c)"

text \<open>\<^verbatim>\<open>SET revoked_at = COALESCE(revoked_at, $1)\<close>\<close>

definition coalesce_revoked :: "time \<Rightarrow> SessionRecord \<Rightarrow> SessionRecord" where
  "coalesce_revoked t r =
     r\<lparr>sr_RevokedAt := (case sr_RevokedAt r of Some u \<Rightarrow> Some u | None \<Rightarrow> Some t)\<rparr>"

section \<open>The table as a map\<close>

lemma coalesce_revoked_eq: "coalesce_revoked = sess_revoke"
  by (auto simp: fun_eq_iff coalesce_revoked_def sess_revoke_def split: option.split)

lemma session_table_ok_keys: "session_table_ok t \<Longrightarrow> distinct (map sr_TokenHash t)"
  by (simp add: session_table_ok_def)

lemma session_table_ok_map:
  assumes "\<And>r. sr_TokenHash (g r) = sr_TokenHash r" and "\<And>r. sr_ID (g r) = sr_ID r"
  shows "session_table_ok (map g t) = session_table_ok t"
  by (simp add: session_table_ok_def comp_def assms)

lemma session_table_ok_view:
  "session_table_ok t \<Longrightarrow> sessions_ok (keyed sr_TokenHash t)"
  by (auto simp: session_table_ok_def sessions_ok_def keyed_Some distinct_map inj_on_def)

lemma session_conflict_keyed:
  "session_table_ok t \<Longrightarrow>
     session_conflict (keyed sr_TokenHash t) r = list_ex (same_session r) t"
  by (auto simp: session_conflict_def session_table_ok_def ran_keyed list_ex_iff same_session_def
      keyed_Some dom_def)

lemma session_table_ok_insert:
  "session_table_ok t \<Longrightarrow> \<not> list_ex (same_session r) t \<Longrightarrow> session_table_ok (t @ [r])"
  by (auto simp: session_table_ok_def list_ex_iff same_session_def)

lemma keyed_session_insert:
  "\<not> list_ex (same_session r) t \<Longrightarrow>
     keyed sr_TokenHash (t @ [r]) = (keyed sr_TokenHash t)(sr_TokenHash r \<mapsto> r)"
  by (rule keyed_append) (auto simp: list_ex_iff same_session_def)

lemma keyed_session_fresh:
  "\<not> list_ex (same_session r) t \<Longrightarrow> keyed sr_TokenHash t (sr_TokenHash r) = None"
  by (auto simp: keyed_None list_ex_iff same_session_def)

lemma revoke_subject_keyed:
  "keyed sr_TokenHash (map (\<lambda>r. if sr_SubjectID r = sub then sess_revoke u r else r) t) =
     revoke_subject sub u (keyed sr_TokenHash t)"
proof
  fix h
  show "keyed sr_TokenHash (map (\<lambda>r. if sr_SubjectID r = sub then sess_revoke u r else r) t) h =
     revoke_subject sub u (keyed sr_TokenHash t) h"
    by (subst keyed_map) (auto simp: revoke_subject_def sess_revoke_def split: option.split)
qed

lemma revoke_subject_ran:
  "{r \<in> ran (revoke_subject sub u m). sr_SubjectID r = sub} =
     sess_revoke u ` {r \<in> ran m. sr_SubjectID r = sub}"
proof (intro set_eqI iffI)
  fix r assume "r \<in> {r \<in> ran (revoke_subject sub u m). sr_SubjectID r = sub}"
  then obtain h q where "m h = Some q" "r = (if sr_SubjectID q = sub then sess_revoke u q else q)"
    "sr_SubjectID r = sub"
    by (auto simp: ran_def revoke_subject_def split: option.splits)
  then show "r \<in> sess_revoke u ` {r \<in> ran m. sr_SubjectID r = sub}"
    by (intro image_eqI [of _ _ q]) (auto simp: ran_def split: if_splits)
next
  fix r assume "r \<in> sess_revoke u ` {r \<in> ran m. sr_SubjectID r = sub}"
  then obtain h q where q: "m h = Some q" "sr_SubjectID q = sub" "r = sess_revoke u q"
    by (auto simp: ran_def)
  then have "revoke_subject sub u m h = Some r" by (simp add: revoke_subject_def)
  then have "r \<in> ran (revoke_subject sub u m)" by (rule ranI)
  then show "r \<in> {r \<in> ran (revoke_subject sub u m). sr_SubjectID r = sub}"
    using q by (simp add: sess_revoke_def)
qed

lemmas session_table_simps =
  session_conflict_keyed session_table_ok_insert keyed_session_insert first_row_keyed
  session_table_ok_keys keyed_session_fresh

text \<open>The contract of an operation follows from its runs on a connection without faults.\<close>

lemma session_table_implements:
  assumes "robust op"
    and "\<And>c :: session_db. fault c = (\<lambda>_. False) \<Longrightarrow> p (found_rows c) \<Longrightarrow> session_table_ok (tables c) \<Longrightarrow>
      session_table_ok (tables (snd (op c))) \<and>
      spec (keyed sr_TokenHash (tables c)) (fst (op c)) (keyed sr_TokenHash (tables (snd (op c))))"
  shows "implements session_view (\<lambda>c. p (found_rows c) \<and> session_table_ok (tables c)) op spec"
  using implements_robust [OF assms(1), where okt = "\<lambda>b t. p b \<and> session_table_ok t" and spec = spec and
      vw = "keyed sr_TokenHash"] assms(2)
  by (simp add: session_view_def [abs_def])

end
