(* ===== verification/PostgresSessions.thy ===== *)
theory PostgresSessions
  imports SessionTable
begin

text \<open>
  The session store of the PostgreSQL adapter (src/storage/postgres/sessions.go) on the table
  \<^verbatim>\<open>authlier_sessions\<close> with its two unique keys, the primary key \<^verbatim>\<open>token_hash\<close> and the index on \<^verbatim>\<open>id\<close>
  (migrations 001 and 002). A row has the columns of \<open>SessionRecord\<close>. The interpretation at the end
  shows that the SQL implements the contract of the interface.
\<close>

definition pg_session_ok :: "session_db \<Rightarrow> bool" where
  "pg_session_ok c \<longleftrightarrow> session_table_ok (tables c)"

definition pg_uniqueViolation :: "err \<Rightarrow> bool" where
  "pg_uniqueViolation e \<longleftrightarrow> e = EUnique"

text \<open>\<^verbatim>\<open>scanSession\<close> turns the driver's "no rows" into \<^verbatim>\<open>ErrNotFound\<close>.\<close>

definition pg_scanSession ::
  "(session_db \<Rightarrow> (err + SessionRecord) \<times> session_db) \<Rightarrow> session_db \<Rightarrow> (err + SessionRecord) \<times> session_db" where
  "pg_scanSession = on_err (\<lambda>e. if errors_is e ENoRows then ESession Session_ErrNotFound else e)"

definition pg_session_Create :: "SessionRecord \<Rightarrow> session_db \<Rightarrow> (err + unit) \<times> session_db" where
  "pg_session_Create r =
     on_err (\<lambda>e. if pg_uniqueViolation e then ESession Session_ErrConflict else e)
       (stmt (sql_insert same_session r))"

definition pg_session_FindByTokenHash :: "hash \<Rightarrow> session_db \<Rightarrow> (err + SessionRecord) \<times> session_db" where
  "pg_session_FindByTokenHash h =
     pg_scanSession (stmt (\<lambda>t. (first_row (sql_select (\<lambda>r. sr_TokenHash r = h) t), t)))"

definition pg_session_ListBySubject ::
  "string \<Rightarrow> session_db \<Rightarrow> (err + SessionRecord list) \<times> session_db" where
  "pg_session_ListBySubject sub =
     stmt (\<lambda>t. (Inr (order_desc sr_CreatedAt (sql_select (\<lambda>r. sr_SubjectID r = sub) t)), t))"

definition pg_session_Extend ::
  "hash \<Rightarrow> time \<Rightarrow> time \<Rightarrow> session_db \<Rightarrow> (err + SessionRecord) \<times> session_db" where
  "pg_session_Extend h extendedAt expiresAt =
     on_err (\<lambda>e. if errors_is e (ESession Session_ErrNotFound) then ESession Session_ErrInactive else e)
       (pg_scanSession (stmt (\<lambda>t.
          case sql_update
                 (\<lambda>r. sr_TokenHash r = h \<and> sr_RevokedAt r = None \<and> sr_ExpiresAt r > extendedAt \<and>
                      sr_ExpiresAt r < expiresAt)
                 (\<lambda>r. r\<lparr>sr_ExtendedAt := Some extendedAt, sr_ExpiresAt := expiresAt\<rparr>) t of
            (rows, t') \<Rightarrow> (first_row rows, t'))))"

definition pg_session_Rotate ::
  "hash \<Rightarrow> SessionRecord \<Rightarrow> time \<Rightarrow> session_db \<Rightarrow> (err + unit) \<times> session_db" where
  "pg_session_Rotate current replacement rotatedAt =
     transaction
       (bindM (pg_scanSession
                 (stmt (\<lambda>t. (first_row (sql_select (\<lambda>r. sr_TokenHash r = current) t), t))))
         (\<lambda>row.
          if sr_RevokedAt row \<noteq> None \<or> \<not> rotatedAt < sr_ExpiresAt row
          then retM (Inl (ESession Session_ErrInactive))
          else bindM (on_err (\<lambda>e. if pg_uniqueViolation e then ESession Session_ErrConflict else e)
                        (stmt (sql_insert same_session replacement))) (\<lambda>_.
               stmt (\<lambda>t. (Inr (), snd (sql_update (\<lambda>r. sr_TokenHash r = current)
                  (\<lambda>r. r\<lparr>sr_RevokedAt := Some rotatedAt\<rparr>) t))))))"

definition pg_session_Revoke :: "hash \<Rightarrow> time \<Rightarrow> session_db \<Rightarrow> (err + unit) \<times> session_db" where
  "pg_session_Revoke h revokedAt =
     bindM (stmt (\<lambda>t.
              case sql_update (\<lambda>r. sr_TokenHash r = h) (coalesce_revoked revokedAt) t of
                (rows, t') \<Rightarrow> (Inr (length rows), t')))
       (\<lambda>affected. retM (if affected = 0 then Inl (ESession Session_ErrNotFound) else Inr ()))"

definition pg_session_RevokeAll ::
  "string \<Rightarrow> time \<Rightarrow> session_db \<Rightarrow> (err + SessionRecord list) \<times> session_db" where
  "pg_session_RevokeAll sub revokedAt =
     stmt (\<lambda>t. case sql_update (\<lambda>r. sr_SubjectID r = sub) (coalesce_revoked revokedAt) t of
                 (rows, t') \<Rightarrow> (Inr rows, t'))"

definition pg_SessionStore :: "session_db SessionStore" where
  "pg_SessionStore =
     \<lparr>ss_Create = pg_session_Create, ss_FindByTokenHash = pg_session_FindByTokenHash,
      ss_ListBySubject = pg_session_ListBySubject, ss_Extend = pg_session_Extend,
      ss_Rotate = pg_session_Rotate, ss_Revoke = pg_session_Revoke,
      ss_RevokeAll = pg_session_RevokeAll\<rparr>"

section \<open>Each statement implements its reference operation\<close>

lemma pg_session_robust [intro!]:
  "robust (pg_session_Create r)" "robust (pg_session_FindByTokenHash h)"
  "robust (pg_session_ListBySubject sub)" "robust (pg_session_Extend h t u)"
  "robust (pg_session_Rotate h r t)" "robust (pg_session_Revoke h t)"
  "robust (pg_session_RevokeAll sub t)"
  unfolding pg_session_Create_def pg_session_FindByTokenHash_def pg_session_ListBySubject_def
    pg_session_Extend_def pg_session_Rotate_def pg_session_Revoke_def pg_session_RevokeAll_def
    pg_scanSession_def pg_uniqueViolation_def
  by auto

lemma pg_session_implements:
  assumes "robust op"
    and "\<And>c :: session_db. fault c = (\<lambda>_. False) \<Longrightarrow> session_table_ok (tables c) \<Longrightarrow>
      session_table_ok (tables (snd (op c))) \<and>
      spec (keyed sr_TokenHash (tables c)) (fst (op c)) (keyed sr_TokenHash (tables (snd (op c))))"
  shows "implements session_view pg_session_ok op spec"
  using session_table_implements [OF assms(1), where p = "\<lambda>_. True" and spec = spec] assms(2)
  by (simp add: pg_session_ok_def [abs_def])

interpretation pg_sessions: session_store pg_SessionStore session_view pg_session_ok
proof
  fix s show "pg_session_ok s \<Longrightarrow> sessions_ok (session_view s)"
    by (simp add: pg_session_ok_def session_view_def session_table_ok_view)
next
  fix r show "implements session_view pg_session_ok (ss_Create pg_SessionStore r) (fun_spec (spec_Create r))"
    by (rule pg_session_implements)
      (auto simp: pg_SessionStore_def pg_session_Create_def pg_uniqueViolation_def on_err_eq stmt_quiet
        sql_insert_def fun_spec_def spec_Create_def session_table_simps)
next
  fix h show "implements session_view pg_session_ok (ss_FindByTokenHash pg_SessionStore h)
      (fun_spec (spec_Find h))"
    by (rule pg_session_implements)
      (auto simp: pg_SessionStore_def pg_session_FindByTokenHash_def pg_scanSession_def on_err_eq
        stmt_quiet sql_select_def fun_spec_def spec_Find_def session_table_simps split: option.split)
next
  fix sub show "implements session_view pg_session_ok (ss_ListBySubject pg_SessionStore sub) (spec_List sub)"
    by (rule pg_session_implements)
      (auto simp: pg_SessionStore_def pg_session_ListBySubject_def stmt_quiet sql_select_def
        spec_List_def ran_keyed session_table_ok_def sorted_order_desc distinct_map)
next
  fix h t u show "implements session_view pg_session_ok (ss_Extend pg_SessionStore h t u)
      (fun_spec (spec_Extend h t u))"
    by (rule pg_session_implements)
      (auto simp: pg_SessionStore_def pg_session_Extend_def pg_scanSession_def on_err_eq stmt_quiet
        sql_update_def fun_spec_def spec_Extend_def session_table_simps filter_keyed keyed_update_one
        first_row_def session_table_ok_map Let_def split: option.split)
next
  fix h r t show "implements session_view pg_session_ok (ss_Rotate pg_SessionStore h r t)
      (fun_spec (spec_Rotate h r t))"
    by (rule pg_session_implements)
      (auto simp: pg_SessionStore_def pg_session_Rotate_def pg_scanSession_def pg_uniqueViolation_def
        transaction_quiet bindM_eq on_err_eq stmt_quiet sql_select_def sql_insert_def sql_update_def
        fun_spec_def spec_Rotate_def session_table_simps keyed_update_key session_table_ok_map
        sess_ActiveAt_def simp del: map_append split: option.splits)
next
  fix h t show "implements session_view pg_session_ok (ss_Revoke pg_SessionStore h t)
      (fun_spec (spec_Revoke h t))"
    by (rule pg_session_implements)
      (auto simp: pg_SessionStore_def pg_session_Revoke_def bindM_eq stmt_quiet sql_update_def
        fun_spec_def spec_Revoke_def session_table_simps filter_keyed_eq keyed_update_key
        coalesce_revoked_eq session_table_ok_map sess_revoke_def split: option.split)
next
  fix sub t show "implements session_view pg_session_ok (ss_RevokeAll pg_SessionStore sub t)
      (spec_RevokeAll sub t)"
    by (rule pg_session_implements)
      (auto simp: pg_SessionStore_def pg_session_RevokeAll_def stmt_quiet sql_update_def
        spec_RevokeAll_def coalesce_revoked_eq revoke_subject_keyed session_table_ok_map
        session_table_simps revoke_subject_ran ran_keyed sess_revoke_def)
qed

end
