(* ===== verification/MysqlSessions.thy ===== *)
theory MysqlSessions
  imports SessionTable
begin

text \<open>
  The session store of the MySQL adapter (src/storage/mysql/sessions.go). MySQL has no \<^verbatim>\<open>RETURNING\<close>:
  \<^verbatim>\<open>Extend\<close> updates, then reads the row in the same transaction, and \<^verbatim>\<open>RevokeAll\<close> reads the rows under
  lock and computes in Go what the update will do.

  \<^verbatim>\<open>RowsAffected\<close> is what the connection's \<^verbatim>\<open>clientFoundRows\<close> makes of it: the rows that matched, or,
  by default, the rows that changed. The interpretation needs \<^verbatim>\<open>clientFoundRows\<close>; without it \<^verbatim>\<open>Revoke\<close>
  is not idempotent, which the last lemmas show.
\<close>

definition my_session_ok :: "session_db \<Rightarrow> bool" where
  "my_session_ok c \<longleftrightarrow> found_rows c \<and> session_table_ok (tables c)"

definition my_uniqueViolation :: "err \<Rightarrow> bool" where
  "my_uniqueViolation e \<longleftrightarrow> e = EUnique"

text \<open>An \<^verbatim>\<open>UPDATE\<close> of the session table; its result is \<^verbatim>\<open>RowsAffected\<close>.\<close>

definition my_update ::
  "(SessionRecord \<Rightarrow> bool) \<Rightarrow> (SessionRecord \<Rightarrow> SessionRecord) \<Rightarrow> session_db \<Rightarrow>
     (err + nat) \<times> session_db" where
  "my_update p f c =
     stmt (\<lambda>t. (Inr (length (filter (\<lambda>r. p r \<and> (found_rows c \<or> f r \<noteq> r)) t)), snd (sql_update p f t))) c"

definition my_scanSession ::
  "(session_db \<Rightarrow> (err + SessionRecord) \<times> session_db) \<Rightarrow> session_db \<Rightarrow> (err + SessionRecord) \<times> session_db" where
  "my_scanSession = on_err (\<lambda>e. if errors_is e ENoRows then ESession Session_ErrNotFound else e)"

definition my_session_Create :: "SessionRecord \<Rightarrow> session_db \<Rightarrow> (err + unit) \<times> session_db" where
  "my_session_Create r =
     on_err (\<lambda>e. if my_uniqueViolation e then ESession Session_ErrConflict else e)
       (stmt (sql_insert same_session r))"

definition my_session_FindByTokenHash :: "hash \<Rightarrow> session_db \<Rightarrow> (err + SessionRecord) \<times> session_db" where
  "my_session_FindByTokenHash h =
     my_scanSession (stmt (\<lambda>t. (first_row (sql_select (\<lambda>r. sr_TokenHash r = h) t), t)))"

definition my_session_ListBySubject ::
  "string \<Rightarrow> session_db \<Rightarrow> (err + SessionRecord list) \<times> session_db" where
  "my_session_ListBySubject sub =
     stmt (\<lambda>t. (Inr (order_desc sr_CreatedAt (sql_select (\<lambda>r. sr_SubjectID r = sub) t)), t))"

definition my_session_Extend ::
  "hash \<Rightarrow> time \<Rightarrow> time \<Rightarrow> session_db \<Rightarrow> (err + SessionRecord) \<times> session_db" where
  "my_session_Extend h extendedAt expiresAt =
     transaction
       (bindM (my_update
                 (\<lambda>r. sr_TokenHash r = h \<and> sr_RevokedAt r = None \<and> sr_ExpiresAt r > extendedAt \<and>
                      sr_ExpiresAt r < expiresAt)
                 (\<lambda>r. r\<lparr>sr_ExtendedAt := Some extendedAt, sr_ExpiresAt := expiresAt\<rparr>))
         (\<lambda>affected.
          if affected = 0 then retM (Inl (ESession Session_ErrInactive))
          else my_scanSession (stmt (\<lambda>t. (first_row (sql_select (\<lambda>r. sr_TokenHash r = h) t), t)))))"

definition my_session_Rotate ::
  "hash \<Rightarrow> SessionRecord \<Rightarrow> time \<Rightarrow> session_db \<Rightarrow> (err + unit) \<times> session_db" where
  "my_session_Rotate current replacement rotatedAt =
     transaction
       (bindM (my_scanSession
                 (stmt (\<lambda>t. (first_row (sql_select (\<lambda>r. sr_TokenHash r = current) t), t))))
         (\<lambda>row.
          if sr_RevokedAt row \<noteq> None \<or> \<not> rotatedAt < sr_ExpiresAt row
          then retM (Inl (ESession Session_ErrInactive))
          else bindM (on_err (\<lambda>e. if my_uniqueViolation e then ESession Session_ErrConflict else e)
                        (stmt (sql_insert same_session replacement))) (\<lambda>_.
               bindM (my_update (\<lambda>r. sr_TokenHash r = current)
                        (\<lambda>r. r\<lparr>sr_RevokedAt := Some rotatedAt\<rparr>)) (\<lambda>_. retM (Inr ())))))"

definition my_session_Revoke :: "hash \<Rightarrow> time \<Rightarrow> session_db \<Rightarrow> (err + unit) \<times> session_db" where
  "my_session_Revoke h revokedAt =
     bindM (my_update (\<lambda>r. sr_TokenHash r = h) (coalesce_revoked revokedAt))
       (\<lambda>affected. retM (if affected = 0 then Inl (ESession Session_ErrNotFound) else Inr ()))"

definition my_session_RevokeAll ::
  "string \<Rightarrow> time \<Rightarrow> session_db \<Rightarrow> (err + SessionRecord list) \<times> session_db" where
  "my_session_RevokeAll sub revokedAt =
     transaction
       (bindM (stmt (\<lambda>t. (Inr (map (\<lambda>r. if sr_RevokedAt r = None then r\<lparr>sr_RevokedAt := Some revokedAt\<rparr> else r)
                                  (sql_select (\<lambda>r. sr_SubjectID r = sub) t)), t)))
         (\<lambda>records.
          bindM (my_update (\<lambda>r. sr_SubjectID r = sub) (coalesce_revoked revokedAt))
            (\<lambda>_. retM (Inr records))))"

definition my_SessionStore :: "session_db SessionStore" where
  "my_SessionStore =
     \<lparr>ss_Create = my_session_Create, ss_FindByTokenHash = my_session_FindByTokenHash,
      ss_ListBySubject = my_session_ListBySubject, ss_Extend = my_session_Extend,
      ss_Rotate = my_session_Rotate, ss_Revoke = my_session_Revoke,
      ss_RevokeAll = my_session_RevokeAll\<rparr>"

section \<open>Each operation implements its reference operation\<close>

lemma steps_my_update [simp, intro!]: "steps (my_update p f)"
  by (auto simp: steps_def my_update_def stmt_def quiet_def connection_error_def)

lemma robust_my_update [intro!]: "robust (my_update p f)"
  by (auto simp: robust_def my_update_def stmt_def quiet_def connection_error_def)

lemma my_update_quiet:
  "fault c = (\<lambda>_. False) \<Longrightarrow> found_rows c \<Longrightarrow>
     my_update p f c =
       (Inr (length (filter p (tables c))),
        c\<lparr>tables := map (\<lambda>r. if p r then f r else r) (tables c), stmt_pos := Suc (stmt_pos c)\<rparr>)"
  by (simp add: my_update_def stmt_quiet sql_update_def)

lemma my_scanSession_steps [simp]: "steps m \<Longrightarrow> steps (my_scanSession m)"
  by (simp add: my_scanSession_def)

lemma my_session_robust [intro!]:
  "robust (my_session_Create r)" "robust (my_session_FindByTokenHash h)"
  "robust (my_session_ListBySubject sub)" "robust (my_session_Extend h t u)"
  "robust (my_session_Rotate h r t)" "robust (my_session_Revoke h t)"
  "robust (my_session_RevokeAll sub t)"
  unfolding my_session_Create_def my_session_FindByTokenHash_def my_session_ListBySubject_def
    my_session_Extend_def my_session_Rotate_def my_session_Revoke_def my_session_RevokeAll_def
    my_scanSession_def my_uniqueViolation_def
  by auto

lemma my_session_implements:
  assumes "robust op"
    and "\<And>c :: session_db. fault c = (\<lambda>_. False) \<Longrightarrow> found_rows c \<Longrightarrow> session_table_ok (tables c) \<Longrightarrow>
      session_table_ok (tables (snd (op c))) \<and>
      spec (keyed sr_TokenHash (tables c)) (fst (op c)) (keyed sr_TokenHash (tables (snd (op c))))"
  shows "implements session_view my_session_ok op spec"
  using session_table_implements [OF assms(1), where p = "\<lambda>b. b" and spec = spec] assms(2)
  by (simp add: my_session_ok_def [abs_def])

lemma revoked_copy_eq:
  "(if sr_RevokedAt r = None then r\<lparr>sr_RevokedAt := Some t\<rparr> else r) = sess_revoke t r"
  by (auto simp: sess_revoke_def)

interpretation my_sessions: session_store my_SessionStore session_view my_session_ok
proof
  fix s show "my_session_ok s \<Longrightarrow> sessions_ok (session_view s)"
    by (simp add: my_session_ok_def session_view_def session_table_ok_view)
next
  fix r show "implements session_view my_session_ok (ss_Create my_SessionStore r) (fun_spec (spec_Create r))"
    by (rule my_session_implements)
      (auto simp: my_SessionStore_def my_session_Create_def my_uniqueViolation_def on_err_eq stmt_quiet
        sql_insert_def fun_spec_def spec_Create_def session_table_simps)
next
  fix h show "implements session_view my_session_ok (ss_FindByTokenHash my_SessionStore h)
      (fun_spec (spec_Find h))"
    by (rule my_session_implements)
      (auto simp: my_SessionStore_def my_session_FindByTokenHash_def my_scanSession_def on_err_eq
        stmt_quiet sql_select_def fun_spec_def spec_Find_def session_table_simps split: option.split)
next
  fix sub show "implements session_view my_session_ok (ss_ListBySubject my_SessionStore sub) (spec_List sub)"
    by (rule my_session_implements)
      (auto simp: my_SessionStore_def my_session_ListBySubject_def stmt_quiet sql_select_def
        spec_List_def ran_keyed session_table_ok_def sorted_order_desc distinct_map)
next
  fix h t u show "implements session_view my_session_ok (ss_Extend my_SessionStore h t u)
      (fun_spec (spec_Extend h t u))"
    by (rule my_session_implements)
      (auto simp: my_SessionStore_def my_session_Extend_def my_scanSession_def on_err_eq stmt_quiet
        transaction_quiet bindM_eq my_update_quiet sql_select_def
        fun_spec_def spec_Extend_def session_table_simps filter_keyed keyed_update_one
        first_row_keyed_map session_table_ok_map Let_def dest: keyed_key split: option.split)
next
  fix h r t show "implements session_view my_session_ok (ss_Rotate my_SessionStore h r t)
      (fun_spec (spec_Rotate h r t))"
    by (rule my_session_implements)
      (auto simp: my_SessionStore_def my_session_Rotate_def my_scanSession_def my_uniqueViolation_def
        transaction_quiet bindM_eq on_err_eq stmt_quiet sql_select_def sql_insert_def my_update_quiet
        fun_spec_def spec_Rotate_def session_table_simps keyed_update_key session_table_ok_map
        sess_ActiveAt_def simp del: map_append split: option.splits)
next
  fix h t show "implements session_view my_session_ok (ss_Revoke my_SessionStore h t)
      (fun_spec (spec_Revoke h t))"
    by (rule my_session_implements)
      (auto simp: my_SessionStore_def my_session_Revoke_def bindM_eq my_update_quiet
        fun_spec_def spec_Revoke_def session_table_simps filter_keyed_eq keyed_update_key
        coalesce_revoked_eq session_table_ok_map sess_revoke_def split: option.split)
next
  fix sub t show "implements session_view my_session_ok (ss_RevokeAll my_SessionStore sub t)
      (spec_RevokeAll sub t)"
    by (rule my_session_implements)
      (auto simp: my_SessionStore_def my_session_RevokeAll_def stmt_quiet transaction_quiet bindM_eq
        my_update_quiet sql_select_def revoked_copy_eq
        spec_RevokeAll_def coalesce_revoked_eq revoke_subject_keyed session_table_ok_map
        session_table_simps revoke_subject_ran ran_keyed sess_revoke_def)
qed

section \<open>Without \<^verbatim>\<open>clientFoundRows\<close>\<close>

lemma my_Revoke_changed_rows:
  assumes "fault c = (\<lambda>_. False)" and "\<not> found_rows c" and "session_table_ok (tables c)"
    and "session_view c h = Some r" and "sr_RevokedAt r = Some u"
  shows "fst (my_session_Revoke h t c) = Inl (ESession Session_ErrNotFound)"
proof -
  have "filter (\<lambda>q. sr_TokenHash q = h \<and> coalesce_revoked t q \<noteq> q) (tables c) = []"
    using assms by (simp add: filter_keyed session_table_ok_keys session_view_def coalesce_revoked_def)
  then show ?thesis
    using assms by (simp add: my_session_Revoke_def bindM_eq my_update_def stmt_quiet)
qed

end
