(* ===== verification/MongoSessions.thy ===== *)
theory MongoSessions
  imports SessionTable
begin

text \<open>
  The session store of the MongoDB adapter (src/storage/mongodb/sessions.go): documents of the
  collection \<^verbatim>\<open>authlier_sessions\<close>, unique in \<^verbatim>\<open>_id\<close> (the token hash) and in the index on \<^verbatim>\<open>session_id\<close>. A
  field with \<^verbatim>\<open>omitempty\<close> is absent exactly when its pointer is nil, so \<^verbatim>\<open>$exists: false\<close> is
  \<open>= None\<close>. \<^verbatim>\<open>WithTransaction\<close> runs its callback atomically.
\<close>

definition mg_session_ok :: "session_db \<Rightarrow> bool" where
  "mg_session_ok c \<longleftrightarrow> session_table_ok (tables c)"

definition mg_duplicateKey :: "err \<Rightarrow> bool" where
  "mg_duplicateKey e \<longleftrightarrow> e = EUnique"

text \<open>\<^verbatim>\<open>UpdateOne\<close> changes the first document that matches; its result is \<^verbatim>\<open>MatchedCount\<close>.\<close>

fun update_first :: "('r \<Rightarrow> bool) \<Rightarrow> ('r \<Rightarrow> 'r) \<Rightarrow> 'r list \<Rightarrow> nat \<times> 'r list" where
  "update_first p f [] = (0, [])"
| "update_first p f (r # rs) =
     (if p r then (1, f r # rs) else (case update_first p f rs of (n, rs') \<Rightarrow> (n, r # rs')))"

definition mg_UpdateOne ::
  "('r \<Rightarrow> bool) \<Rightarrow> ('r \<Rightarrow> 'r) \<Rightarrow> 'r list conn \<Rightarrow> (err + nat) \<times> 'r list conn" where
  "mg_UpdateOne p f = stmt (\<lambda>t. case update_first p f t of (n, t') \<Rightarrow> (Inr n, t'))"

definition mg_FindOne :: "('r \<Rightarrow> bool) \<Rightarrow> 'r list conn \<Rightarrow> (err + 'r) \<times> 'r list conn" where
  "mg_FindOne p = stmt (\<lambda>t. (first_row (filter p t), t))"

definition mg_session_Create :: "SessionRecord \<Rightarrow> session_db \<Rightarrow> (err + unit) \<times> session_db" where
  "mg_session_Create r =
     on_err (\<lambda>e. if mg_duplicateKey e then ESession Session_ErrConflict else e)
       (stmt (sql_insert same_session r))"

definition mg_session_FindByTokenHash :: "hash \<Rightarrow> session_db \<Rightarrow> (err + SessionRecord) \<times> session_db" where
  "mg_session_FindByTokenHash h =
     on_err (\<lambda>e. if errors_is e ENoRows then ESession Session_ErrNotFound else e)
       (mg_FindOne (\<lambda>r. sr_TokenHash r = h))"

definition mg_session_ListBySubject ::
  "string \<Rightarrow> session_db \<Rightarrow> (err + SessionRecord list) \<times> session_db" where
  "mg_session_ListBySubject sub =
     stmt (\<lambda>t. (Inr (order_desc sr_CreatedAt (filter (\<lambda>r. sr_SubjectID r = sub) t)), t))"

text \<open>\<^verbatim>\<open>FindOneAndUpdate\<close> with \<^verbatim>\<open>ReturnDocument(After)\<close> is one atomic statement.\<close>

definition mg_session_Extend ::
  "hash \<Rightarrow> time \<Rightarrow> time \<Rightarrow> session_db \<Rightarrow> (err + SessionRecord) \<times> session_db" where
  "mg_session_Extend h extendedAt expiresAt =
     on_err (\<lambda>e. if errors_is e ENoRows then ESession Session_ErrInactive else e)
       (stmt (\<lambda>t.
          let p = (\<lambda>r. sr_TokenHash r = h \<and> sr_RevokedAt r = None \<and> sr_ExpiresAt r > extendedAt \<and>
                     sr_ExpiresAt r < expiresAt);
              f = (\<lambda>r. r\<lparr>sr_ExtendedAt := Some extendedAt, sr_ExpiresAt := expiresAt\<rparr>)
          in (first_row (map f (filter p t)), snd (update_first p f t))))"

definition mg_session_Rotate ::
  "hash \<Rightarrow> SessionRecord \<Rightarrow> time \<Rightarrow> session_db \<Rightarrow> (err + unit) \<times> session_db" where
  "mg_session_Rotate current replacement rotatedAt =
     transaction
       (bindM (on_err (\<lambda>e. if errors_is e ENoRows then ESession Session_ErrNotFound else e)
                 (mg_FindOne (\<lambda>r. sr_TokenHash r = current)))
         (\<lambda>document.
          if sr_RevokedAt document \<noteq> None \<or> \<not> rotatedAt < sr_ExpiresAt document
          then retM (Inl (ESession Session_ErrInactive))
          else bindM (on_err (\<lambda>e. if mg_duplicateKey e then ESession Session_ErrConflict else e)
                        (stmt (sql_insert same_session replacement))) (\<lambda>_.
               bindM (mg_UpdateOne (\<lambda>r. sr_TokenHash r = current \<and> sr_RevokedAt r = None)
                        (\<lambda>r. r\<lparr>sr_RevokedAt := Some rotatedAt\<rparr>)) (\<lambda>_. retM (Inr ())))))"

definition mg_session_Revoke :: "hash \<Rightarrow> time \<Rightarrow> session_db \<Rightarrow> (err + unit) \<times> session_db" where
  "mg_session_Revoke h revokedAt =
     bindM (mg_UpdateOne (\<lambda>r. sr_TokenHash r = h \<and> sr_RevokedAt r = None)
              (\<lambda>r. r\<lparr>sr_RevokedAt := Some revokedAt\<rparr>))
       (\<lambda>matched.
        if matched \<noteq> 0 then retM (Inr ())
        else bindM (on_err (\<lambda>e. if errors_is e ENoRows then ESession Session_ErrNotFound else e)
                      (mg_FindOne (\<lambda>r. sr_TokenHash r = h))) (\<lambda>_. retM (Inr ())))"

definition mg_session_RevokeAll ::
  "string \<Rightarrow> time \<Rightarrow> session_db \<Rightarrow> (err + SessionRecord list) \<times> session_db" where
  "mg_session_RevokeAll sub revokedAt =
     transaction
       (bindM (stmt (\<lambda>t. (Inr (filter (\<lambda>r. sr_SubjectID r = sub) t), t)))
         (\<lambda>documents.
          bindM (stmt (\<lambda>t. (Inr (), snd (sql_update (\<lambda>r. sr_SubjectID r = sub \<and> sr_RevokedAt r = None)
                   (\<lambda>r. r\<lparr>sr_RevokedAt := Some revokedAt\<rparr>) t))))
            (\<lambda>_. retM (Inr (map (\<lambda>r. if sr_RevokedAt r = None then r\<lparr>sr_RevokedAt := Some revokedAt\<rparr>
                                     else r) documents)))))"

definition mg_SessionStore :: "session_db SessionStore" where
  "mg_SessionStore =
     \<lparr>ss_Create = mg_session_Create, ss_FindByTokenHash = mg_session_FindByTokenHash,
      ss_ListBySubject = mg_session_ListBySubject, ss_Extend = mg_session_Extend,
      ss_Rotate = mg_session_Rotate, ss_Revoke = mg_session_Revoke,
      ss_RevokeAll = mg_session_RevokeAll\<rparr>"

section \<open>Each operation implements its reference operation\<close>

text \<open>On a unique key, updating the first match is updating every match.\<close>

lemma update_first_keyed:
  assumes "distinct (map k t)"
  shows "update_first (\<lambda>r. k r = h \<and> p r) f t =
     (length (filter (\<lambda>r. k r = h \<and> p r) t), map (\<lambda>r. if k r = h \<and> p r then f r else r) t)"
  using assms
proof (induction t)
  case (Cons r t)
  have "map (\<lambda>r. if k r = h \<and> p r then f r else r) t = t" "filter (\<lambda>r. k r = h \<and> p r) t = []"
    if "k r = h"
    using Cons.prems that by (auto simp: filter_empty_conv image_iff intro!: map_idI)
  with Cons show ?case by auto
qed simp

lemma mg_steps [simp, intro!]: "steps (mg_UpdateOne p f)" "steps (mg_FindOne p)"
  by (auto simp: mg_UpdateOne_def mg_FindOne_def)

lemma mg_robust [intro!]: "robust (mg_UpdateOne p f)" "robust (mg_FindOne p)"
  by (auto simp: mg_UpdateOne_def mg_FindOne_def)

lemma update_first_0: "fst (update_first p f t) = 0 \<Longrightarrow> snd (update_first p f t) = t"
  by (induction t) (auto split: prod.splits if_splits)

text \<open>\<^verbatim>\<open>Revoke\<close> is two statements without a transaction; the second one only reads.\<close>

lemma mg_session_Revoke_robust: "robust (mg_session_Revoke h t)"
  unfolding robust_def
proof (intro allI)
  fix c :: session_db
  let ?p = "\<lambda>r. sr_TokenHash r = h \<and> sr_RevokedAt r = None" and ?f = "\<lambda>r. r\<lparr>sr_RevokedAt := Some t\<rparr>"
  obtain n t' where u: "update_first ?p ?f (tables c) = (n, t')" by fastforce
  have n: "n = 0 \<Longrightarrow> t' = tables c" using update_first_0 [of ?p ?f "tables c"] u by simp
  show "found_rows (snd (mg_session_Revoke h t c)) = found_rows c \<and>
    fault (snd (mg_session_Revoke h t c)) = fault c \<and>
    (fst (mg_session_Revoke h t c) = Inl connection_error \<and>
       tables (snd (mg_session_Revoke h t c)) = tables c \<or>
     mg_session_Revoke h t c =
       (fst (mg_session_Revoke h t (quiet c)),
        (snd (mg_session_Revoke h t (quiet c)))\<lparr>fault := fault c\<rparr>))"
    by (cases "n = 0"; cases "first_row (filter (\<lambda>r. sr_TokenHash r = h) (tables c))")
      (simp_all add: mg_session_Revoke_def bindM_eq on_err_eq mg_UpdateOne_def mg_FindOne_def u n
        stmt_def quiet_def connection_error_def)
qed

lemma mg_session_robust [intro!]:
  "robust (mg_session_Create r)" "robust (mg_session_FindByTokenHash h)"
  "robust (mg_session_ListBySubject sub)" "robust (mg_session_Extend h t u)"
  "robust (mg_session_Rotate h r t)" "robust (mg_session_RevokeAll sub t)"
  unfolding mg_session_Create_def mg_session_FindByTokenHash_def mg_session_ListBySubject_def
    mg_session_Extend_def mg_session_Rotate_def mg_session_RevokeAll_def mg_duplicateKey_def
  by auto

lemma mg_session_implements:
  assumes "robust op"
    and "\<And>c :: session_db. fault c = (\<lambda>_. False) \<Longrightarrow> session_table_ok (tables c) \<Longrightarrow>
      session_table_ok (tables (snd (op c))) \<and>
      spec (keyed sr_TokenHash (tables c)) (fst (op c)) (keyed sr_TokenHash (tables (snd (op c))))"
  shows "implements session_view mg_session_ok op spec"
  using session_table_implements [OF assms(1), where p = "\<lambda>_. True" and spec = spec] assms(2)
  by (simp add: mg_session_ok_def [abs_def])

lemma mg_revoked_copies:
  "map (\<lambda>r. if sr_SubjectID r = sub \<and> sr_RevokedAt r = None then r\<lparr>sr_RevokedAt := Some t\<rparr> else r) =
     map (\<lambda>r. if sr_SubjectID r = sub then sess_revoke t r else r)"
  by (rule arg_cong [where f = map]) (auto simp: sess_revoke_def fun_eq_iff)

lemma mg_revoked_copy:
  "(if sr_RevokedAt r = None then r\<lparr>sr_RevokedAt := Some t\<rparr> else r) = sess_revoke t r"
  by (auto simp: sess_revoke_def)

interpretation mg_sessions: session_store mg_SessionStore session_view mg_session_ok
proof
  fix s show "mg_session_ok s \<Longrightarrow> sessions_ok (session_view s)"
    by (simp add: mg_session_ok_def session_view_def session_table_ok_view)
next
  fix r show "implements session_view mg_session_ok (ss_Create mg_SessionStore r) (fun_spec (spec_Create r))"
    by (rule mg_session_implements)
      (auto simp: mg_SessionStore_def mg_session_Create_def mg_duplicateKey_def on_err_eq stmt_quiet
        sql_insert_def fun_spec_def spec_Create_def session_table_simps)
next
  fix h show "implements session_view mg_session_ok (ss_FindByTokenHash mg_SessionStore h)
      (fun_spec (spec_Find h))"
    by (rule mg_session_implements)
      (auto simp: mg_SessionStore_def mg_session_FindByTokenHash_def mg_FindOne_def on_err_eq
        stmt_quiet fun_spec_def spec_Find_def session_table_simps split: option.split)
next
  fix sub show "implements session_view mg_session_ok (ss_ListBySubject mg_SessionStore sub) (spec_List sub)"
    by (rule mg_session_implements)
      (auto simp: mg_SessionStore_def mg_session_ListBySubject_def stmt_quiet
        spec_List_def ran_keyed session_table_ok_def sorted_order_desc distinct_map)
next
  fix h t u show "implements session_view mg_session_ok (ss_Extend mg_SessionStore h t u)
      (fun_spec (spec_Extend h t u))"
    by (rule mg_session_implements)
      (auto simp: mg_SessionStore_def mg_session_Extend_def on_err_eq stmt_quiet update_first_keyed
        fun_spec_def spec_Extend_def session_table_simps filter_keyed keyed_update_one
        first_row_def session_table_ok_map Let_def split: option.split)
next
  fix h r t show "implements session_view mg_session_ok (ss_Rotate mg_SessionStore h r t)
      (fun_spec (spec_Rotate h r t))"
    by (rule mg_session_implements)
      (auto simp: mg_SessionStore_def mg_session_Rotate_def mg_FindOne_def mg_duplicateKey_def
        transaction_quiet bindM_eq on_err_eq stmt_quiet sql_insert_def mg_UpdateOne_def
        update_first_keyed fun_spec_def spec_Rotate_def session_table_simps keyed_update_one
        session_table_ok_map sess_ActiveAt_def simp del: map_append split: option.splits)
next
  fix h t show "implements session_view mg_session_ok (ss_Revoke mg_SessionStore h t)
      (fun_spec (spec_Revoke h t))"
    unfolding mg_SessionStore_def SessionStore.simps
    by (rule mg_session_implements [OF mg_session_Revoke_robust])
      (auto simp: mg_session_Revoke_def bindM_eq on_err_eq
        mg_UpdateOne_def mg_FindOne_def stmt_quiet update_first_keyed first_row_keyed_map
        fun_spec_def spec_Revoke_def session_table_simps filter_keyed keyed_update_one
        session_table_ok_map sess_revoke_def fun_upd_idem split: option.split)
next
  fix sub t show "implements session_view mg_session_ok (ss_RevokeAll mg_SessionStore sub t)
      (spec_RevokeAll sub t)"
    by (rule mg_session_implements)
      (auto simp: mg_SessionStore_def mg_session_RevokeAll_def stmt_quiet transaction_quiet bindM_eq
        sql_update_def mg_revoked_copies mg_revoked_copy
        spec_RevokeAll_def revoke_subject_keyed session_table_ok_map
        session_table_simps revoke_subject_ran ran_keyed sess_revoke_def)
qed

end
