(* ===== verification/Redis.thy ===== *)
theory Redis
  imports Database
begin

text \<open>
  What the Redis adapter asks of the server (src/storage/redis/redis.go): single commands, and
  optimistic transactions. \<^verbatim>\<open>watch\<close> runs its body, whose reads are commands and whose only write is
  one \<^verbatim>\<open>MULTI/EXEC\<close> pipeline, up to sixteen times while the server aborts the \<^verbatim>\<open>EXEC\<close> because a
  watched key changed. A JSON value is kept as the record that it encodes, and a hash field
  \<^verbatim>\<open>hex(token hash)\<close> as the hash.
\<close>

record 'db redis =
  rd_db :: 'db
  rd_fault :: "nat \<Rightarrow> bool"
  rd_abort :: "nat \<Rightarrow> bool"
  rd_clock :: "nat \<Rightarrow> time"
  rd_pos :: nat

definition tx_failed :: err where
  "tx_failed = EDriver ''redis: transaction failed''"

definition ErrTransactionConflict :: err where
  "ErrTransactionConflict = EDriver ''Redis transaction could not be completed''"

definition redis_cmd :: "('db \<Rightarrow> (err + 'a) \<times> 'db) \<Rightarrow> 'db redis \<Rightarrow> (err + 'a) \<times> 'db redis" where
  "redis_cmd f r =
     (if rd_fault r (rd_pos r) then (Inl (EDriver ''redis''), r\<lparr>rd_pos := Suc (rd_pos r)\<rparr>)
      else (fst (f (rd_db r)), r\<lparr>rd_db := snd (f (rd_db r)), rd_pos := Suc (rd_pos r)\<rparr>))"

definition redis_get :: "('db \<Rightarrow> err + 'a) \<Rightarrow> 'db redis \<Rightarrow> (err + 'a) \<times> 'db redis" where
  "redis_get f = redis_cmd (\<lambda>d. (f d, d))"

text \<open>\<^verbatim>\<open>readJSON\<close>: \<^verbatim>\<open>HGET\<close> and decode; a missing field is the reply \<^verbatim>\<open>Nil\<close>.\<close>

definition readJSON :: "('db \<Rightarrow> 'k \<rightharpoonup> 'v) \<Rightarrow> 'k \<Rightarrow> 'db redis \<Rightarrow> (err + 'v) \<times> 'db redis" where
  "readJSON key field = redis_get (\<lambda>d. case key d field of None \<Rightarrow> Inl ENoRows | Some v \<Rightarrow> Inr v)"

definition hexists :: "('db \<Rightarrow> 'k \<rightharpoonup> 'v) \<Rightarrow> 'k \<Rightarrow> 'db redis \<Rightarrow> (err + bool) \<times> 'db redis" where
  "hexists key field = redis_get (\<lambda>d. Inr (key d field \<noteq> None))"

text \<open>The pipeline of a watched transaction.\<close>

definition redis_exec :: "('db \<Rightarrow> 'db) \<Rightarrow> 'db redis \<Rightarrow> (err + unit) \<times> 'db redis" where
  "redis_exec g r =
     (if rd_fault r (rd_pos r) then (Inl (EDriver ''redis''), r\<lparr>rd_pos := Suc (rd_pos r)\<rparr>)
      else if rd_abort r (rd_pos r) then (Inl tx_failed, r\<lparr>rd_pos := Suc (rd_pos r)\<rparr>)
      else (Inr (), r\<lparr>rd_db := g (rd_db r), rd_pos := Suc (rd_pos r)\<rparr>))"

fun watch_loop :: "nat \<Rightarrow> ('db redis \<Rightarrow> (err + 'a) \<times> 'db redis) \<Rightarrow> 'db redis \<Rightarrow> (err + 'a) \<times> 'db redis" where
  "watch_loop 0 operation r = (Inl ErrTransactionConflict, r)"
| "watch_loop (Suc n) operation r =
     (case operation r of
        (Inl e, r1) \<Rightarrow> if errors_is e tx_failed then watch_loop n operation r1 else (Inl e, r1)
      | (Inr v, r1) \<Rightarrow> (Inr v, r1))"

definition watch :: "('db redis \<Rightarrow> (err + 'a) \<times> 'db redis) \<Rightarrow> 'db redis \<Rightarrow> (err + 'a) \<times> 'db redis" where
  "watch = watch_loop 16"

text \<open>\<^verbatim>\<open>SADD\<close> of one member.\<close>

definition sadd :: "'a \<Rightarrow> 'a list \<Rightarrow> 'a list" where
  "sadd x xs = (if x \<in> set xs then xs else xs @ [x])"

section \<open>Lemmas\<close>

lemma set_sadd [simp]: "set (sadd x xs) = insert x (set xs)"
  by (auto simp: sadd_def)

lemma distinct_sadd [simp]: "distinct (sadd x xs) = distinct xs"
  by (auto simp: sadd_def)

lemma is_driver_redis [simp]: "is_driver tx_failed" "is_driver ErrTransactionConflict"
  by (simp_all add: tx_failed_def ErrTransactionConflict_def)

text \<open>
  Retrying keeps a contract: an aborted attempt left the abstract state alone. The second premise
  says that the reference operation never answers with the abort.
\<close>

lemma watch_loop_implements:
  assumes op: "implements view ok op spec"
    and sp: "\<And>a e b. spec a (Inl e) b \<Longrightarrow> \<not> errors_is e tx_failed"
  shows "implements view ok (watch_loop n op) spec"
proof (induction n)
  case (Suc n)
  show ?case
  proof (rule implementsI)
    fix s assume s: "ok s"
    obtain r s1 where 1: "op s = (r, s1)" by fastforce
    have ok1: "ok s1" using implements_inv [OF op s] 1 by simp
    show "ok (snd (watch_loop (Suc n) op s))"
      using implements_inv [OF Suc ok1] ok1 1 by (auto split: sum.split)
    show "(\<exists>e. is_driver e \<and> fst (watch_loop (Suc n) op s) = Inl e) \<and>
        view (snd (watch_loop (Suc n) op s)) = view s \<or>
      spec (view s) (fst (watch_loop (Suc n) op s)) (view (snd (watch_loop (Suc n) op s)))"
      using op s
    proof (cases rule: implements_cases)
      case (driver e)
      have v: "view s1 = view s" and r: "r = Inl e" using driver 1 by auto
      show ?thesis
        using Suc ok1
        by (cases rule: implements_cases) (use 1 r v driver(1) in simp_all)
    next
      case spec
      then show ?thesis using 1 sp by (cases r) auto
    qed
  qed
qed (auto simp: implements_def)

lemma watch_implements:
  assumes "implements view ok op spec"
    and "\<And>a e b. spec a (Inl e) b \<Longrightarrow> \<not> errors_is e tx_failed"
  shows "implements view ok (watch op) spec"
  unfolding watch_def using assms by (rule watch_loop_implements)

lemma redis_cmd_frame [simp]:
  "rd_fault (snd (redis_cmd f r)) = rd_fault r" "rd_abort (snd (redis_cmd f r)) = rd_abort r"
  by (simp_all add: redis_cmd_def)

lemma redis_get_db [simp]: "rd_db (snd (redis_get f r)) = rd_db r"
  by (simp add: redis_get_def redis_cmd_def)

lemma readJSON_db [simp]: "rd_db (snd (readJSON key field r)) = rd_db r"
  by (simp add: readJSON_def)

lemma hexists_db [simp]: "rd_db (snd (hexists key field r)) = rd_db r"
  by (simp add: hexists_def)

text \<open>What a read may answer: a driver error, or the truth.\<close>

lemma redis_get_cases [consumes 0, case_names fault run]:
  obtains "fst (redis_get f r) = Inl (EDriver ''redis'')" | "fst (redis_get f r) = f (rd_db r)"
  by (cases "rd_fault r (rd_pos r)") (auto simp: redis_get_def redis_cmd_def)

text \<open>
  Attempts in the style of a proof rule: \<open>attempt d op P\<close> holds when \<open>op\<close>, started on any connection
  whose data are \<open>d\<close>, fails with a driver error and leaves \<open>d\<close> alone, or ends with a result and
  data that satisfy \<open>P\<close>.
\<close>

definition attempt :: "'db \<Rightarrow> ('db redis \<Rightarrow> (err + 'a) \<times> 'db redis) \<Rightarrow> (err + 'a \<Rightarrow> 'db \<Rightarrow> bool) \<Rightarrow> bool" where
  "attempt d op P \<longleftrightarrow>
     (\<forall>r. rd_db r = d \<longrightarrow>
        (\<exists>e. is_driver e \<and> fst (op r) = Inl e) \<and> rd_db (snd (op r)) = d \<or>
        P (fst (op r)) (rd_db (snd (op r))))"

lemma attempt_ret [intro!]: "P x d \<Longrightarrow> attempt d (retM x) P"
  by (simp add: attempt_def)

lemma attempt_exec [intro!]: "P (Inr ()) (g d) \<Longrightarrow> attempt d (redis_exec g) P"
  unfolding attempt_def by (auto simp: redis_exec_def tx_failed_def)

lemma attempt_exec_ret:
  "P (Inr v) (g d) \<Longrightarrow> attempt d (bindM (redis_exec g) (\<lambda>_. retM (Inr v))) P"
  unfolding attempt_def by (auto simp: redis_exec_def tx_failed_def bindM_eq)

lemma attempt_then_ret:
  fixes d :: 'db
  assumes "attempt d op (\<lambda>x d'. case x of Inl e \<Rightarrow> P (Inl e) d' | Inr v \<Rightarrow> P (g v) d')"
  shows "attempt d (bindM op (\<lambda>v. retM (g v))) P"
  unfolding attempt_def
proof (intro allI impI)
  fix r :: "'db redis" assume "rd_db r = d"
  then have "(\<exists>e. is_driver e \<and> fst (op r) = Inl e) \<and> rd_db (snd (op r)) = d \<or>
      (case fst (op r) of Inl e \<Rightarrow> P (Inl e) (rd_db (snd (op r))) | Inr v \<Rightarrow> P (g v) (rd_db (snd (op r))))"
    using assms unfolding attempt_def by blast
  then show "(\<exists>e. is_driver e \<and> fst (bindM op (\<lambda>v. retM (g v)) r) = Inl e) \<and>
      rd_db (snd (bindM op (\<lambda>v. retM (g v)) r)) = d \<or>
    P (fst (bindM op (\<lambda>v. retM (g v)) r)) (rd_db (snd (bindM op (\<lambda>v. retM (g v)) r)))"
    by (cases "fst (op r)") (auto simp: bindM_eq)
qed

lemma attempt_get:
  fixes d :: 'db
  assumes "case f d of Inl e \<Rightarrow> P (Inl e) d | Inr v \<Rightarrow> attempt d (k v) P"
  shows "attempt d (bindM (redis_get f) k) P"
  unfolding attempt_def
proof (intro allI impI)
  fix r :: "'db redis" assume d: "rd_db r = d"
  show "(\<exists>e. is_driver e \<and> fst (bindM (redis_get f) k r) = Inl e) \<and>
      rd_db (snd (bindM (redis_get f) k r)) = d \<or>
    P (fst (bindM (redis_get f) k r)) (rd_db (snd (bindM (redis_get f) k r)))"
  proof (cases rule: redis_get_cases [of f r])
    case fault then show ?thesis by (simp add: bindM_eq d)
  next
    case run
    then show ?thesis using assms d
      by (cases "f d") (auto simp: bindM_eq attempt_def)
  qed
qed

lemma attempt_get_err:
  fixes d :: 'db
  assumes f: "f (EDriver ''redis'') = EDriver ''redis''"
    and "case g d of Inl e \<Rightarrow> P (Inl (f e)) d | Inr v \<Rightarrow> attempt d (k v) P"
  shows "attempt d (bindM (on_err f (redis_get g)) k) P"
  unfolding attempt_def
proof (intro allI impI)
  fix r :: "'db redis" assume d: "rd_db r = d"
  show "(\<exists>e. is_driver e \<and> fst (bindM (on_err f (redis_get g)) k r) = Inl e) \<and>
      rd_db (snd (bindM (on_err f (redis_get g)) k r)) = d \<or>
    P (fst (bindM (on_err f (redis_get g)) k r)) (rd_db (snd (bindM (on_err f (redis_get g)) k r)))"
  proof (cases rule: redis_get_cases [of g r])
    case fault then show ?thesis by (simp add: bindM_eq on_err_eq d f)
  next
    case run
    then show ?thesis using assms(2) d
      by (cases "g d") (auto simp: bindM_eq on_err_eq attempt_def)
  qed
qed

lemma attempt_read:
  "(case key d field of None \<Rightarrow> P (Inl ENoRows) d | Some v \<Rightarrow> attempt d (k v) P) \<Longrightarrow>
     attempt d (bindM (readJSON key field) k) P"
  unfolding readJSON_def by (rule attempt_get) (simp split: option.splits)

lemma attempt_read_err:
  "f (EDriver ''redis'') = EDriver ''redis'' \<Longrightarrow>
     (case key d field of None \<Rightarrow> P (Inl (f ENoRows)) d | Some v \<Rightarrow> attempt d (k v) P) \<Longrightarrow>
     attempt d (bindM (on_err f (readJSON key field)) k) P"
  unfolding readJSON_def by (rule attempt_get_err) (simp_all split: option.splits)

lemma attempt_hexists:
  "attempt d (k (key d field \<noteq> None)) P \<Longrightarrow> attempt d (bindM (hexists key field) k) P"
  unfolding hexists_def by (rule attempt_get) simp

lemma attempt_implements:
  fixes op :: "'db redis \<Rightarrow> (err + 'a) \<times> 'db redis"
  assumes "\<And>d. ok d \<Longrightarrow> attempt d op (\<lambda>x d'. ok d' \<and> spec (vw d) x (vw d'))"
  shows "implements (\<lambda>r. vw (rd_db r)) (\<lambda>r. ok (rd_db r)) op spec"
proof (rule implementsI)
  fix s :: "'db redis" assume "ok (rd_db s)"
  from assms [OF this] have a: "(\<exists>e. is_driver e \<and> fst (op s) = Inl e) \<and> rd_db (snd (op s)) = rd_db s \<or>
    ok (rd_db (snd (op s))) \<and> spec (vw (rd_db s)) (fst (op s)) (vw (rd_db (snd (op s))))"
    unfolding attempt_def by blast
  then show "ok (rd_db (snd (op s)))" using \<open>ok (rd_db s)\<close> by auto
  from a show "(\<exists>e. is_driver e \<and> fst (op s) = Inl e) \<and> vw (rd_db (snd (op s))) = vw (rd_db s) \<or>
      spec (vw (rd_db s)) (fst (op s)) (vw (rd_db (snd (op s))))" by auto
qed

text \<open>
  Computations that only read: on data \<open>d\<close> they fail with a driver error or answer \<open>v\<close>.
\<close>

definition reads :: "'db \<Rightarrow> ('db redis \<Rightarrow> (err + 'a) \<times> 'db redis) \<Rightarrow> 'a \<Rightarrow> bool" where
  "reads d op v \<longleftrightarrow>
     (\<forall>r. rd_db r = d \<longrightarrow>
        rd_db (snd (op r)) = d \<and> ((\<exists>e. is_driver e \<and> e \<noteq> ENoRows \<and> fst (op r) = Inl e) \<or> fst (op r) = Inr v))"

lemma reads_ret [intro!]: "reads d (retM (Inr v)) v"
  by (simp add: reads_def)

lemma reads_retI: "v = w \<Longrightarrow> reads d (retM (Inr v)) w"
  by blast

lemma reads_get: "f d = Inr v \<Longrightarrow> reads d (redis_get f) v"
  by (auto simp: reads_def redis_get_def redis_cmd_def)

lemma reads_getI: "reads d (redis_get (\<lambda>d. Inr (f d))) (f d)"
  by (rule reads_get) simp

lemma reads_cases:
  assumes "reads d a v" and "rd_db r = d"
  obtains (driver) e where "is_driver e" "e \<noteq> ENoRows" "fst (a r) = Inl e" "rd_db (snd (a r)) = d"
  | (answer) "fst (a r) = Inr v" "rd_db (snd (a r)) = d"
  using assms unfolding reads_def by blast

lemma reads_bindM:
  fixes d :: 'db
  assumes a: "reads d a v" and k: "reads d (k v) w"
  shows "reads d (bindM a k) w"
  unfolding reads_def
proof (intro allI impI)
  fix r :: "'db redis" assume r: "rd_db r = d"
  from a r show "rd_db (snd (bindM a k r)) = d \<and>
      ((\<exists>e. is_driver e \<and> e \<noteq> ENoRows \<and> fst (bindM a k r) = Inl e) \<or> fst (bindM a k r) = Inr w)"
  proof (cases rule: reads_cases)
    case answer
    from k answer(2) show ?thesis by (cases rule: reads_cases) (simp_all add: bindM_eq answer(1))
  qed (simp add: bindM_eq)
qed

lemma attempt_reads:
  fixes d :: 'db
  assumes a: "reads d a v" and k: "attempt d (k v) P"
  shows "attempt d (bindM a k) P"
  unfolding attempt_def
proof (intro allI impI)
  fix r :: "'db redis" assume r: "rd_db r = d"
  from a r show "(\<exists>e. is_driver e \<and> fst (bindM a k r) = Inl e) \<and> rd_db (snd (bindM a k r)) = d \<or>
    P (fst (bindM a k r)) (rd_db (snd (bindM a k r)))"
  proof (cases rule: reads_cases)
    case answer
    then show ?thesis using k by (auto simp: bindM_eq attempt_def)
  qed (simp add: bindM_eq)
qed

text \<open>Writing back the fields \<open>ks\<close> of a hash.\<close>

lemma map_add_updates:
  "m ++ map_of (map (\<lambda>k. (k, f k)) ks) = (\<lambda>k. if k \<in> set ks then Some (f k) else m k)"
  by (auto simp: fun_eq_iff map_add_def map_of_map_restrict restrict_map_def)

text \<open>A read whose \<^verbatim>\<open>Nil\<close> reply is not an error for the caller.\<close>

definition readJSON_optional ::
  "('db \<Rightarrow> 'k \<rightharpoonup> 'v) \<Rightarrow> 'k \<Rightarrow> 'db redis \<Rightarrow> (err + 'v option) \<times> 'db redis" where
  "readJSON_optional key field r =
     (case readJSON key field r of
        (Inl e, r1) \<Rightarrow> if errors_is e ENoRows then (Inr None, r1) else (Inl e, r1)
      | (Inr v, r1) \<Rightarrow> (Inr (Some v), r1))"

lemma reads_optional: "reads d (readJSON_optional key field) (key d field)"
  by (auto simp: reads_def readJSON_optional_def readJSON_def redis_get_def redis_cmd_def split: option.split)

end
