(* ===== verification/RedisSessions.thy ===== *)
theory RedisSessions
  imports SessionTable Redis
begin

text \<open>
  The session store of the Redis adapter (src/storage/redis/sessions.go) and the session cache
  (\<^verbatim>\<open>SessionCache\<close> in src/storage/redis/redis.go). The store keeps three keys: the hash \<^verbatim>\<open>sessions\<close> from
  token hash to record, the hash \<^verbatim>\<open>session-ids\<close> from session ID to token hash, and one set
  \<^verbatim>\<open>sessions:subject:<subject>\<close> of token hashes per subject. The invariant says that the two indexes
  hold exactly what the records say.
\<close>

record redis_sessions =
  rs_sessions :: sessions
  rs_ids :: "string \<rightharpoonup> hash"
  rs_subject :: "string \<Rightarrow> hash list"

definition redis_sessions_ok :: "redis_sessions \<Rightarrow> bool" where
  "redis_sessions_ok d \<longleftrightarrow>
     (\<forall>h r. rs_sessions d h = Some r \<longrightarrow> sr_TokenHash r = h) \<and>
     (\<forall>i h. rs_ids d i = Some h \<longleftrightarrow> (\<exists>r. rs_sessions d h = Some r \<and> sr_ID r = i)) \<and>
     (\<forall>sub. distinct (rs_subject d sub)) \<and>
     (\<forall>sub h. h \<in> set (rs_subject d sub) \<longleftrightarrow>
        (\<exists>r. rs_sessions d h = Some r \<and> sr_SubjectID r = sub))"

definition rd_session_ok :: "redis_sessions redis \<Rightarrow> bool" where
  "rd_session_ok r \<longleftrightarrow> redis_sessions_ok (rd_db r)"

definition rd_session_view :: "redis_sessions redis \<Rightarrow> sessions" where
  "rd_session_view r = rs_sessions (rd_db r)"

definition rd_session_Create ::
  "SessionRecord \<Rightarrow> redis_sessions redis \<Rightarrow> (err + unit) \<times> redis_sessions redis" where
  "rd_session_Create r =
     watch (bindM (hexists rs_sessions (sr_TokenHash r)) (\<lambda>exists.
       if exists then retM (Inl (ESession Session_ErrConflict))
       else bindM (hexists rs_ids (sr_ID r)) (\<lambda>exists2.
         if exists2 then retM (Inl (ESession Session_ErrConflict))
         else redis_exec (\<lambda>d. d
           \<lparr>rs_sessions := (rs_sessions d)(sr_TokenHash r \<mapsto> r),
            rs_ids := (rs_ids d)(sr_ID r \<mapsto> sr_TokenHash r),
            rs_subject := (rs_subject d)
              (sr_SubjectID r := sadd (sr_TokenHash r) (rs_subject d (sr_SubjectID r)))\<rparr>))))"

definition rd_session_FindByTokenHash ::
  "hash \<Rightarrow> redis_sessions redis \<Rightarrow> (err + SessionRecord) \<times> redis_sessions redis" where
  "rd_session_FindByTokenHash h =
     on_err (\<lambda>e. if errors_is e ENoRows then ESession Session_ErrNotFound else e)
       (readJSON rs_sessions h)"

text \<open>\<^verbatim>\<open>SMEMBERS\<close>, then \<^verbatim>\<open>HMGET\<close>; a field without a value is skipped.\<close>

definition rd_session_ListBySubject ::
  "string \<Rightarrow> redis_sessions redis \<Rightarrow> (err + SessionRecord list) \<times> redis_sessions redis" where
  "rd_session_ListBySubject sub =
     bindM (redis_get (\<lambda>d. Inr (rs_subject d sub))) (\<lambda>members.
       if members = [] then retM (Inr [])
       else bindM (redis_get (\<lambda>d. Inr (map (rs_sessions d) members))) (\<lambda>values.
         retM (Inr (order_desc sr_CreatedAt (map the (filter (\<lambda>v. v \<noteq> None) values))))))"

definition rd_session_Extend ::
  "hash \<Rightarrow> time \<Rightarrow> time \<Rightarrow> redis_sessions redis \<Rightarrow> (err + SessionRecord) \<times> redis_sessions redis" where
  "rd_session_Extend h extendedAt expiresAt =
     watch (bindM (on_err (\<lambda>e. if errors_is e ENoRows then ESession Session_ErrInactive else e)
                     (readJSON rs_sessions h)) (\<lambda>result.
       if sr_RevokedAt result \<noteq> None \<or> \<not> extendedAt < sr_ExpiresAt result \<or>
          \<not> sr_ExpiresAt result < expiresAt
       then retM (Inl (ESession Session_ErrInactive))
       else (let result' = result\<lparr>sr_ExtendedAt := Some extendedAt, sr_ExpiresAt := expiresAt\<rparr>
             in bindM (redis_exec (\<lambda>d. d\<lparr>rs_sessions := (rs_sessions d)(h \<mapsto> result')\<rparr>))
                  (\<lambda>_. retM (Inr result')))))"

definition rd_session_Rotate ::
  "hash \<Rightarrow> SessionRecord \<Rightarrow> time \<Rightarrow> redis_sessions redis \<Rightarrow> (err + unit) \<times> redis_sessions redis" where
  "rd_session_Rotate current replacement rotatedAt =
     watch (bindM (on_err (\<lambda>e. if errors_is e ENoRows then ESession Session_ErrNotFound else e)
                     (readJSON rs_sessions current)) (\<lambda>r.
       if sr_RevokedAt r \<noteq> None \<or> \<not> rotatedAt < sr_ExpiresAt r
       then retM (Inl (ESession Session_ErrInactive))
       else bindM (hexists rs_sessions (sr_TokenHash replacement)) (\<lambda>exists.
         if exists then retM (Inl (ESession Session_ErrConflict))
         else bindM (hexists rs_ids (sr_ID replacement)) (\<lambda>exists2.
           if exists2 then retM (Inl (ESession Session_ErrConflict))
           else redis_exec (\<lambda>d.
             let subjects = (rs_subject d)
                   (sr_SubjectID r := sadd current (rs_subject d (sr_SubjectID r)))
             in d
               \<lparr>rs_sessions := (rs_sessions d)
                  (current \<mapsto> r\<lparr>sr_RevokedAt := Some rotatedAt\<rparr>, sr_TokenHash replacement \<mapsto> replacement),
                rs_ids := (rs_ids d)(sr_ID replacement \<mapsto> sr_TokenHash replacement),
                rs_subject := subjects
                  (sr_SubjectID replacement :=
                     sadd (sr_TokenHash replacement) (subjects (sr_SubjectID replacement)))\<rparr>)))))"

definition rd_session_Revoke ::
  "hash \<Rightarrow> time \<Rightarrow> redis_sessions redis \<Rightarrow> (err + unit) \<times> redis_sessions redis" where
  "rd_session_Revoke h revokedAt =
     watch (bindM (on_err (\<lambda>e. if errors_is e ENoRows then ESession Session_ErrNotFound else e)
                     (readJSON rs_sessions h)) (\<lambda>r.
       if sr_RevokedAt r \<noteq> None then retM (Inr ())
       else redis_exec (\<lambda>d. d\<lparr>rs_sessions :=
              (rs_sessions d)(h \<mapsto> r\<lparr>sr_RevokedAt := Some revokedAt\<rparr>)\<rparr>)))"

text \<open>The loop of \<^verbatim>\<open>RevokeAll\<close> over the fields of the subject's set: the updates that it collects.\<close>

fun rd_revoke_reads ::
  "time \<Rightarrow> hash list \<Rightarrow> redis_sessions redis \<Rightarrow>
     (err + (hash \<times> SessionRecord) list) \<times> redis_sessions redis" where
  "rd_revoke_reads revokedAt [] r = (Inr [], r)"
| "rd_revoke_reads revokedAt (member # members) r =
     (case readJSON rs_sessions member r of
        (Inl e, r1) \<Rightarrow> if errors_is e ENoRows then rd_revoke_reads revokedAt members r1 else (Inl e, r1)
      | (Inr record, r1) \<Rightarrow>
          bindM (rd_revoke_reads revokedAt members) (\<lambda>updates.
            retM (Inr ((member, if sr_RevokedAt record = None
                               then record\<lparr>sr_RevokedAt := Some revokedAt\<rparr> else record) # updates))) r1)"

definition rd_session_RevokeAll ::
  "string \<Rightarrow> time \<Rightarrow> redis_sessions redis \<Rightarrow> (err + SessionRecord list) \<times> redis_sessions redis" where
  "rd_session_RevokeAll sub revokedAt =
     watch (bindM (redis_get (\<lambda>d. Inr (rs_subject d sub))) (\<lambda>members.
       bindM (rd_revoke_reads revokedAt members) (\<lambda>updates.
         if updates = [] then retM (Inr [])
         else bindM (redis_exec (\<lambda>d. d\<lparr>rs_sessions := rs_sessions d ++ map_of updates\<rparr>))
                (\<lambda>_. retM (Inr (map snd updates))))))"

definition rd_SessionStore :: "redis_sessions redis SessionStore" where
  "rd_SessionStore =
     \<lparr>ss_Create = rd_session_Create, ss_FindByTokenHash = rd_session_FindByTokenHash,
      ss_ListBySubject = rd_session_ListBySubject, ss_Extend = rd_session_Extend,
      ss_Rotate = rd_session_Rotate, ss_Revoke = rd_session_Revoke,
      ss_RevokeAll = rd_session_RevokeAll\<rparr>"

section \<open>The session cache\<close>

text \<open>
  The cache is a Redis key \<^verbatim>\<open><prefix>:session:<hash>\<close> per session, with an expiry of its own. The key
  is gone for the server once its expiry has passed.
\<close>

type_synonym session_cache_db = "hash \<rightharpoonup> SessionRecord \<times> time"

definition rd_cache_Get ::
  "hash \<Rightarrow> session_cache_db redis \<Rightarrow> (err + SessionRecord) \<times> session_cache_db redis" where
  "rd_cache_Get h r =
     on_err (\<lambda>e. if errors_is e ENoRows then ESession Session_ErrCacheMiss else e)
       (redis_get (\<lambda>d. case d h of None \<Rightarrow> Inl ENoRows
          | Some (record, expiry) \<Rightarrow> if rd_clock r (rd_pos r) < expiry then Inr record else Inl ENoRows)) r"

definition rd_cache_Set ::
  "SessionRecord \<Rightarrow> duration \<Rightarrow> session_cache_db redis \<Rightarrow> (err + unit) \<times> session_cache_db redis" where
  "rd_cache_Set record ttl r =
     (if ttl \<le> 0 then (Inl (EWrap ''TTL must be positive'' (ENew ''invalid Redis adapter configuration'')), r)
      else redis_cmd (\<lambda>d. (Inr (), d(sr_TokenHash record \<mapsto> (record, rd_clock r (rd_pos r) + ttl)))) r)"

definition rd_cache_Delete ::
  "hash \<Rightarrow> session_cache_db redis \<Rightarrow> (err + unit) \<times> session_cache_db redis" where
  "rd_cache_Delete h = redis_cmd (\<lambda>d. (Inr (), d(h := None)))"

definition rd_SessionCache :: "session_cache_db redis SessionCache" where
  "rd_SessionCache =
     \<lparr>sc_Get = rd_cache_Get, sc_Set = rd_cache_Set, sc_Delete = rd_cache_Delete\<rparr>"

definition rd_cache_held :: "session_cache_db redis \<Rightarrow> sessions" where
  "rd_cache_held r = (\<lambda>h. map_option fst (rd_db r h))"

interpretation rd_cache: session_cache rd_SessionCache rd_cache_held
proof
  fix h c r assume "fst (sc_Get rd_SessionCache h c) = Inr r"
  then show "rd_cache_held c h = Some r"
    by (auto simp: rd_SessionCache_def rd_cache_Get_def on_err_eq redis_get_def redis_cmd_def
        rd_cache_held_def split: if_splits option.splits sum.splits)
next
  fix h c show "rd_cache_held (snd (sc_Get rd_SessionCache h c)) \<subseteq>\<^sub>m rd_cache_held c"
    by (simp add: rd_SessionCache_def rd_cache_Get_def rd_cache_held_def)
next
  fix r d c k q assume "rd_cache_held (snd (sc_Set rd_SessionCache r d c)) k = Some q"
  then show "rd_cache_held c k = Some q \<or> k = sr_TokenHash r \<and> q = r"
    by (auto simp: rd_SessionCache_def rd_cache_Set_def redis_cmd_def rd_cache_held_def split: if_splits)
next
  fix h c show "rd_cache_held (snd (sc_Delete rd_SessionCache h c)) \<subseteq>\<^sub>m rd_cache_held c"
    by (auto simp: rd_SessionCache_def rd_cache_Delete_def redis_cmd_def rd_cache_held_def map_le_def
        dom_def split: if_splits)
next
  fix h c assume "fst (sc_Delete rd_SessionCache h c) = Inr ()"
  then show "rd_cache_held (snd (sc_Delete rd_SessionCache h c)) h = None"
    by (auto simp: rd_SessionCache_def rd_cache_Delete_def redis_cmd_def rd_cache_held_def split: if_splits)
qed

section \<open>Each operation implements its reference operation\<close>

lemma redis_sessions_okD:
  assumes "redis_sessions_ok d"
  shows "rs_sessions d h = Some r \<Longrightarrow> sr_TokenHash r = h"
    and "rs_ids d i = Some h \<longleftrightarrow> (\<exists>r. rs_sessions d h = Some r \<and> sr_ID r = i)"
    and "distinct (rs_subject d sub)"
    and "h \<in> set (rs_subject d sub) \<longleftrightarrow> (\<exists>r. rs_sessions d h = Some r \<and> sr_SubjectID r = sub)"
  using assms unfolding redis_sessions_ok_def by blast+

lemma redis_sessions_ok_view:
  assumes "redis_sessions_ok d"
  shows "sessions_ok (rs_sessions d)"
  unfolding sessions_ok_def
proof (intro conjI allI impI)
  fix h r assume "rs_sessions d h = Some r"
  then show "sr_TokenHash r = h" using redis_sessions_okD(1) [OF assms] by simp
next
  fix h k r q assume "rs_sessions d h = Some r \<and> rs_sessions d k = Some q \<and> sr_ID r = sr_ID q"
  then have "rs_ids d (sr_ID r) = Some h" "rs_ids d (sr_ID r) = Some k"
    using redis_sessions_okD(2) [OF assms] by metis+
  then show "h = k" by simp
qed

lemma redis_conflict:
  assumes "redis_sessions_ok d"
  shows "session_conflict (rs_sessions d) r \<longleftrightarrow>
    rs_sessions d (sr_TokenHash r) \<noteq> None \<or> rs_ids d (sr_ID r) \<noteq> None"
proof -
  have "(\<exists>q \<in> ran (rs_sessions d). sr_ID q = sr_ID r) \<longleftrightarrow> rs_ids d (sr_ID r) \<noteq> None"
    using redis_sessions_okD(2) [OF assms] by (fastforce simp: ran_def)
  then show ?thesis by (auto simp: session_conflict_def)
qed

text \<open>Replacing records by other states of the same sessions, and adding a new one, keep the indexes.\<close>

definition session_identity :: "SessionRecord \<Rightarrow> hash \<times> string \<times> string" where
  "session_identity r = (sr_TokenHash r, sr_ID r, sr_SubjectID r)"

lemma redis_sessions_ok_update:
  assumes ok: "redis_sessions_ok d"
    and m: "\<And>h. map_option session_identity (m h) = map_option session_identity (rs_sessions d h)"
  shows "redis_sessions_ok (d\<lparr>rs_sessions := m\<rparr>)"
proof -
  have id: "(\<exists>r. m h = Some r \<and> p (session_identity r)) \<longleftrightarrow>
      (\<exists>r. rs_sessions d h = Some r \<and> p (session_identity r))" for h p
    using m [of h] by (cases "m h"; cases "rs_sessions d h") auto
  have "(\<exists>r. m h = Some r \<and> sr_ID r = i) \<longleftrightarrow> (\<exists>r. rs_sessions d h = Some r \<and> sr_ID r = i)" for h i
    using id [of h "\<lambda>(_, j, _). j = i"] by (simp add: session_identity_def)
  moreover have "(\<exists>r. m h = Some r \<and> sr_SubjectID r = i) \<longleftrightarrow>
      (\<exists>r. rs_sessions d h = Some r \<and> sr_SubjectID r = i)" for h i
    using id [of h "\<lambda>(_, _, j). j = i"] by (simp add: session_identity_def)
  moreover have "sr_TokenHash r = h" if "m h = Some r" for h r
    using m [of h] that redis_sessions_okD(1) [OF ok]
    by (cases "rs_sessions d h") (auto simp: session_identity_def)
  ultimately show ?thesis
    using redis_sessions_okD(2-) [OF ok] unfolding redis_sessions_ok_def by simp
qed

lemma redis_sessions_ok_insert:
  assumes ok: "redis_sessions_ok d" and fresh: "\<not> session_conflict (rs_sessions d) r"
  shows "redis_sessions_ok (d\<lparr>rs_sessions := (rs_sessions d)(sr_TokenHash r \<mapsto> r),
    rs_ids := (rs_ids d)(sr_ID r \<mapsto> sr_TokenHash r),
    rs_subject := (rs_subject d)
      (sr_SubjectID r := sadd (sr_TokenHash r) (rs_subject d (sr_SubjectID r)))\<rparr>)"
  using fresh redis_sessions_okD [OF ok]
  unfolding redis_conflict [OF ok] redis_sessions_ok_def by (auto split: if_splits)

text \<open>What the loop of \<^verbatim>\<open>RevokeAll\<close> reads.\<close>

definition redis_revoke_updates :: "time \<Rightarrow> sessions \<Rightarrow> hash list \<Rightarrow> (hash \<times> SessionRecord) list" where
  "redis_revoke_updates t m members =
     map (\<lambda>h. (h, sess_revoke t (the (m h)))) (filter (\<lambda>h. m h \<noteq> None) members)"

lemma rd_revoke_reads_result:
  "(fst (rd_revoke_reads t members r) = Inl (EDriver ''redis'') \<or>
    fst (rd_revoke_reads t members r) = Inr (redis_revoke_updates t (rs_sessions (rd_db r)) members)) \<and>
   rd_db (snd (rd_revoke_reads t members r)) = rd_db r"
proof (induction members arbitrary: r)
  case (Cons member members)
  obtain x r1 where 1: "readJSON rs_sessions member r = (x, r1)" by fastforce
  have d: "rd_db r1 = rd_db r" using readJSON_db [of rs_sessions member r] 1 by simp
  have x: "x = Inl (EDriver ''redis'') \<or>
      x = (case rs_sessions (rd_db r) member of None \<Rightarrow> Inl ENoRows | Some v \<Rightarrow> Inr v)"
    using redis_get_cases [of "\<lambda>d. case rs_sessions d member of None \<Rightarrow> Inl ENoRows | Some v \<Rightarrow> Inr v" r] 1
    by (metis fst_conv readJSON_def)
  show ?case
    using Cons.IH [of r1] x
    by (cases "rs_sessions (rd_db r) member")
      (auto simp: 1 d bindM_eq redis_revoke_updates_def sess_revoke_def split: sum.splits option.splits)
qed (simp add: redis_revoke_updates_def)

lemma attempt_revoke_reads:
  assumes "attempt d (k (redis_revoke_updates t (rs_sessions d) members)) P"
  shows "attempt d (bindM (rd_revoke_reads t members) k) P"
  unfolding attempt_def
proof (intro allI impI)
  fix r :: "redis_sessions redis" assume "rd_db r = d"
  then show "(\<exists>e. is_driver e \<and> fst (bindM (rd_revoke_reads t members) k r) = Inl e) \<and>
      rd_db (snd (bindM (rd_revoke_reads t members) k r)) = d \<or>
    P (fst (bindM (rd_revoke_reads t members) k r)) (rd_db (snd (bindM (rd_revoke_reads t members) k r)))"
    using rd_revoke_reads_result [of t members r] assms
    by (auto simp: bindM_eq attempt_def)
qed

lemma redis_session_implements:
  assumes "\<And>d. redis_sessions_ok d \<Longrightarrow>
      attempt d op (\<lambda>x d'. redis_sessions_ok d' \<and> spec (rs_sessions d) x (rs_sessions d'))"
  shows "implements rd_session_view rd_session_ok op spec"
  using attempt_implements [of redis_sessions_ok op spec rs_sessions, OF assms]
  by (simp add: rd_session_view_def [abs_def] rd_session_ok_def [abs_def])

lemma redis_watched_implements:
  assumes "\<And>d. redis_sessions_ok d \<Longrightarrow>
      attempt d op (\<lambda>x d'. redis_sessions_ok d' \<and> spec (rs_sessions d) x (rs_sessions d'))"
    and "\<And>a e b. spec a (Inl e) b \<Longrightarrow> \<exists>x. e = ESession x"
  shows "implements rd_session_view rd_session_ok (watch op) spec"
  by (rule watch_implements [OF redis_session_implements [OF assms(1)]])
    (use assms(2) in \<open>fastforce simp: tx_failed_def\<close>)+

lemma session_identity_simps [simp]:
  "session_identity (r\<lparr>sr_RevokedAt := a\<rparr>) = session_identity r"
  "session_identity (r\<lparr>sr_ExtendedAt := a\<rparr>) = session_identity r"
  "session_identity (r\<lparr>sr_ExpiresAt := e\<rparr>) = session_identity r"
  by (simp_all add: session_identity_def)

lemma rd_Create_attempt:
  assumes "redis_sessions_ok d"
  shows "attempt d
     (bindM (hexists rs_sessions (sr_TokenHash r)) (\<lambda>exists.
       if exists then retM (Inl (ESession Session_ErrConflict))
       else bindM (hexists rs_ids (sr_ID r)) (\<lambda>exists2.
         if exists2 then retM (Inl (ESession Session_ErrConflict))
         else redis_exec (\<lambda>d. d
           \<lparr>rs_sessions := (rs_sessions d)(sr_TokenHash r \<mapsto> r),
            rs_ids := (rs_ids d)(sr_ID r \<mapsto> sr_TokenHash r),
            rs_subject := (rs_subject d)
              (sr_SubjectID r := sadd (sr_TokenHash r) (rs_subject d (sr_SubjectID r)))\<rparr>))))
     (\<lambda>x d'. redis_sessions_ok d' \<and> fun_spec (spec_Create r) (rs_sessions d) x (rs_sessions d'))"
  using assms redis_sessions_ok_insert [OF assms, of r] redis_conflict [OF assms, of r]
  by (auto intro!: attempt_hexists simp: fun_spec_def spec_Create_def)

lemma rd_Rotate_attempt:
  assumes ok: "redis_sessions_ok d"
  shows "attempt d
     (bindM (on_err (\<lambda>e. if errors_is e ENoRows then ESession Session_ErrNotFound else e)
                     (readJSON rs_sessions current)) (\<lambda>r.
       if sr_RevokedAt r \<noteq> None \<or> \<not> rotatedAt < sr_ExpiresAt r
       then retM (Inl (ESession Session_ErrInactive))
       else bindM (hexists rs_sessions (sr_TokenHash replacement)) (\<lambda>exists.
         if exists then retM (Inl (ESession Session_ErrConflict))
         else bindM (hexists rs_ids (sr_ID replacement)) (\<lambda>exists2.
           if exists2 then retM (Inl (ESession Session_ErrConflict))
           else redis_exec (\<lambda>d.
             let subjects = (rs_subject d)
                   (sr_SubjectID r := sadd current (rs_subject d (sr_SubjectID r)))
             in d
               \<lparr>rs_sessions := (rs_sessions d)
                  (current \<mapsto> r\<lparr>sr_RevokedAt := Some rotatedAt\<rparr>, sr_TokenHash replacement \<mapsto> replacement),
                rs_ids := (rs_ids d)(sr_ID replacement \<mapsto> sr_TokenHash replacement),
                rs_subject := subjects
                  (sr_SubjectID replacement :=
                     sadd (sr_TokenHash replacement) (subjects (sr_SubjectID replacement)))\<rparr>)))))
     (\<lambda>x d'. redis_sessions_ok d' \<and>
        fun_spec (spec_Rotate current replacement rotatedAt) (rs_sessions d) x (rs_sessions d'))"
proof (cases "rs_sessions d current")
  case None
  then show ?thesis using ok by (auto intro!: attempt_read_err simp: fun_spec_def spec_Rotate_def)
next
  case (Some r)
  let ?m = "(rs_sessions d)(current \<mapsto> r\<lparr>sr_RevokedAt := Some rotatedAt\<rparr>)"
  have mem: "sadd current (rs_subject d (sr_SubjectID r)) = rs_subject d (sr_SubjectID r)"
    using redis_sessions_okD(4) [OF ok] Some by (auto simp: sadd_def)
  have ok': "redis_sessions_ok (d\<lparr>rs_sessions := ?m\<rparr>)"
    using Some by (intro redis_sessions_ok_update [OF ok]) simp
  have conf: "session_conflict ?m replacement = session_conflict (rs_sessions d) replacement"
    using redis_conflict [OF ok', of replacement] redis_conflict [OF ok, of replacement] Some by auto
  have tw: "(rs_sessions d)(sr_TokenHash replacement \<mapsto> replacement,
        current \<mapsto> r\<lparr>sr_RevokedAt := Some rotatedAt\<rparr>) = ?m(sr_TokenHash replacement \<mapsto> replacement)"
    if "rs_sessions d (sr_TokenHash replacement) = None"
    by (rule fun_upd_twist) (use that Some in auto)
  show ?thesis
    using ok Some redis_conflict [OF ok, of replacement]
      redis_sessions_ok_insert [OF ok', of replacement] conf
    by (auto intro!: attempt_read_err attempt_hexists
        simp: fun_spec_def spec_Rotate_def sess_ActiveAt_def mem tw Let_def)
qed

lemma rd_RevokeAll_attempt:
  assumes ok: "redis_sessions_ok d"
  shows "attempt d
     (bindM (redis_get (\<lambda>d. Inr (rs_subject d sub))) (\<lambda>members.
       bindM (rd_revoke_reads t members) (\<lambda>updates.
         if updates = [] then retM (Inr [])
         else bindM (redis_exec (\<lambda>d. d\<lparr>rs_sessions := rs_sessions d ++ map_of updates\<rparr>))
                (\<lambda>_. retM (Inr (map snd updates))))))
     (\<lambda>x d'. redis_sessions_ok d' \<and> spec_RevokeAll sub t (rs_sessions d) x (rs_sessions d'))"
proof -
  let ?S = "rs_sessions d"
  let ?u = "redis_revoke_updates t ?S (rs_subject d sub)"
  have mem: "(h \<in> set (rs_subject d sub)) = (\<exists>r. ?S h = Some r \<and> sr_SubjectID r = sub)" for h
    by (rule redis_sessions_okD(4) [OF ok])
  have u: "set ?u = {(h, sess_revoke t r) | h r. ?S h = Some r \<and> sr_SubjectID r = sub}"
    by (auto simp: redis_revoke_updates_def mem)
  have "distinct (map fst ?u)"
    using redis_sessions_okD(3) [OF ok, of sub] by (simp add: redis_revoke_updates_def comp_def)
  then have up: "map_of ?u h = (case ?S h of None \<Rightarrow> None
      | Some r \<Rightarrow> if sr_SubjectID r = sub then Some (sess_revoke t r) else None)" for h
    using u by (auto simp: map_of_eq_Some_iff map_of_eq_None_iff image_iff split: option.split)
  have m: "?S ++ map_of ?u = revoke_subject sub t ?S"
    by (auto simp: fun_eq_iff map_add_def revoke_subject_def up split: option.split)
  have snds: "set (map snd ?u) = {r \<in> ran (revoke_subject sub t ?S). sr_SubjectID r = sub}"
    unfolding revoke_subject_ran using u by (force simp: ran_def image_iff)
  have ok': "redis_sessions_ok (d\<lparr>rs_sessions := revoke_subject sub t ?S\<rparr>)"
    by (rule redis_sessions_ok_update [OF ok])
      (simp add: revoke_subject_def sess_revoke_def split: option.split)
  have empty: "revoke_subject sub t ?S = ?S" if "?u = []"
    using m that by simp
  show ?thesis
  proof (cases "?u = []")
    case True
    then show ?thesis using ok snds empty
      by (intro attempt_get) (auto intro!: attempt_revoke_reads simp: spec_RevokeAll_def)
  next
    case False
    then show ?thesis using ok' snds m
      by (intro attempt_get)
        (auto intro!: attempt_revoke_reads attempt_exec_ret simp: spec_RevokeAll_def simp del: set_map)
  qed
qed

lemma rd_Extend_attempt:
  assumes ok: "redis_sessions_ok d"
  shows "attempt d
     (bindM (on_err (\<lambda>e. if errors_is e ENoRows then ESession Session_ErrInactive else e)
                     (readJSON rs_sessions h)) (\<lambda>result.
       if sr_RevokedAt result \<noteq> None \<or> \<not> extendedAt < sr_ExpiresAt result \<or>
          \<not> sr_ExpiresAt result < expiresAt
       then retM (Inl (ESession Session_ErrInactive))
       else (let result' = result\<lparr>sr_ExtendedAt := Some extendedAt, sr_ExpiresAt := expiresAt\<rparr>
             in bindM (redis_exec (\<lambda>d. d\<lparr>rs_sessions := (rs_sessions d)(h \<mapsto> result')\<rparr>))
                  (\<lambda>_. retM (Inr result')))))
     (\<lambda>x d'. redis_sessions_ok d' \<and>
        fun_spec (spec_Extend h extendedAt expiresAt) (rs_sessions d) x (rs_sessions d'))"
  using ok
  by (cases "rs_sessions d h"; cases "the (rs_sessions d h)")
    (auto intro!: attempt_read_err attempt_exec_ret redis_sessions_ok_update
      simp: fun_spec_def spec_Extend_def Let_def session_identity_def)

lemma rd_Revoke_attempt:
  assumes ok: "redis_sessions_ok d"
  shows "attempt d
     (bindM (on_err (\<lambda>e. if errors_is e ENoRows then ESession Session_ErrNotFound else e)
                     (readJSON rs_sessions h)) (\<lambda>r.
       if sr_RevokedAt r \<noteq> None then retM (Inr ())
       else redis_exec (\<lambda>d. d\<lparr>rs_sessions :=
              (rs_sessions d)(h \<mapsto> r\<lparr>sr_RevokedAt := Some revokedAt\<rparr>)\<rparr>)))
     (\<lambda>x d'. redis_sessions_ok d' \<and>
        fun_spec (spec_Revoke h revokedAt) (rs_sessions d) x (rs_sessions d'))"
  using ok
  by (cases "rs_sessions d h")
    (auto intro!: attempt_read_err redis_sessions_ok_update
      simp: fun_spec_def spec_Revoke_def sess_revoke_def fun_upd_idem)

lemma rd_List_attempt:
  assumes ok: "redis_sessions_ok d"
  shows "attempt d
     (bindM (redis_get (\<lambda>d. Inr (rs_subject d sub))) (\<lambda>members.
       if members = [] then retM (Inr [])
       else bindM (redis_get (\<lambda>d. Inr (map (rs_sessions d) members))) (\<lambda>values.
         retM (Inr (order_desc sr_CreatedAt (map the (filter (\<lambda>v. v \<noteq> None) values)))))))
     (\<lambda>x d'. redis_sessions_ok d' \<and> spec_List sub (rs_sessions d) x (rs_sessions d'))"
proof -
  let ?S = "rs_sessions d" and ?rs = "map the (filter (\<lambda>v. v \<noteq> None) (map (rs_sessions d) (rs_subject d sub)))"
  have mem: "(h \<in> set (rs_subject d sub)) = (\<exists>r. ?S h = Some r \<and> sr_SubjectID r = sub)" for h
    by (rule redis_sessions_okD(4) [OF ok])
  have all: "filter (\<lambda>v. v \<noteq> None) (map ?S (rs_subject d sub)) = map ?S (rs_subject d sub)"
    by (rule filter_True) (auto simp: mem)
  have "set (rs_subject d sub) = {h. \<exists>r. ?S h = Some r \<and> sr_SubjectID r = sub}" using mem by blast
  then have s: "set ?rs = {r \<in> ran ?S. sr_SubjectID r = sub}"
    unfolding all set_map image_image by (force simp: ran_def image_iff)
  have "inj_on (\<lambda>h. the (?S h)) (set (rs_subject d sub))"
    using redis_sessions_okD(1) [OF ok] by (intro inj_onI) (metis mem option.sel)
  then have dist: "distinct ?rs"
    unfolding all using redis_sessions_okD(3) [OF ok, of sub] by (simp add: distinct_map comp_def)
  show ?thesis
  proof (cases "rs_subject d sub = []")
    case True
    then show ?thesis using ok s by (intro attempt_get) (auto simp: spec_List_def)
  next
    case False
    have "spec_List sub ?S (Inr (order_desc sr_CreatedAt ?rs)) ?S"
      unfolding spec_List_def using s dist sorted_order_desc by auto
    then show ?thesis using False ok by (intro attempt_get) (auto intro!: attempt_get)
  qed
qed

interpretation rd_sessions: session_store rd_SessionStore rd_session_view rd_session_ok
proof
  fix s show "rd_session_ok s \<Longrightarrow> sessions_ok (rd_session_view s)"
    by (simp add: rd_session_ok_def rd_session_view_def redis_sessions_ok_view)
next
  fix r show "implements rd_session_view rd_session_ok (ss_Create rd_SessionStore r)
      (fun_spec (spec_Create r))"
    unfolding rd_SessionStore_def SessionStore.simps rd_session_Create_def
    by (rule redis_watched_implements [OF rd_Create_attempt])
      (auto simp: fun_spec_def spec_Create_def split: if_splits)
next
  fix h show "implements rd_session_view rd_session_ok (ss_FindByTokenHash rd_SessionStore h)
      (fun_spec (spec_Find h))"
    unfolding rd_SessionStore_def SessionStore.simps rd_session_FindByTokenHash_def
    by (rule redis_session_implements)
      (auto simp: attempt_def readJSON_def on_err_eq redis_get_def redis_cmd_def fun_spec_def
        spec_Find_def split: option.split)
next
  fix sub show "implements rd_session_view rd_session_ok (ss_ListBySubject rd_SessionStore sub)
      (spec_List sub)"
    unfolding rd_SessionStore_def SessionStore.simps rd_session_ListBySubject_def
    by (rule redis_session_implements [OF rd_List_attempt])
next
  fix h t u show "implements rd_session_view rd_session_ok (ss_Extend rd_SessionStore h t u)
      (fun_spec (spec_Extend h t u))"
    unfolding rd_SessionStore_def SessionStore.simps rd_session_Extend_def
    by (rule redis_watched_implements [OF rd_Extend_attempt])
      (auto simp: fun_spec_def spec_Extend_def Let_def split: if_splits option.splits)
next
  fix h r t show "implements rd_session_view rd_session_ok (ss_Rotate rd_SessionStore h r t)
      (fun_spec (spec_Rotate h r t))"
    unfolding rd_SessionStore_def SessionStore.simps rd_session_Rotate_def
    by (rule redis_watched_implements [OF rd_Rotate_attempt])
      (auto simp: fun_spec_def spec_Rotate_def split: if_splits option.splits)
next
  fix h t show "implements rd_session_view rd_session_ok (ss_Revoke rd_SessionStore h t)
      (fun_spec (spec_Revoke h t))"
    unfolding rd_SessionStore_def SessionStore.simps rd_session_Revoke_def
    by (rule redis_watched_implements [OF rd_Revoke_attempt])
      (auto simp: fun_spec_def spec_Revoke_def split: option.splits)
next
  fix sub t show "implements rd_session_view rd_session_ok (ss_RevokeAll rd_SessionStore sub t)
      (spec_RevokeAll sub t)"
    unfolding rd_SessionStore_def SessionStore.simps rd_session_RevokeAll_def
    by (rule redis_watched_implements [OF rd_RevokeAll_attempt])
      (auto simp: spec_RevokeAll_def)
qed

end
