(* ===== verification/SessionProperties.thy ===== *)
theory SessionProperties
  imports PostgresSessions MysqlSessions MongoSessions RedisSessions
begin

text \<open>
  The guarantees of the session manager, on the stores and the cache that the repository ships. A
  manager comes from \<open>sess_NewManager\<close>; the world starts in any \<open>coherent\<close> state, for instance with
  an empty store, and the caller may have made any list of calls before and in between.
\<close>

definition sample_config :: SessionConfig where
  "sample_config = \<lparr>scfg_Lifetime = 3600 * second_ns, scfg_CacheTTL = 60 * second_ns,
     scfg_Extension = Some \<lparr>ec_ExtendAfter = 600 * second_ns, ec_AbsoluteLifetime = 7200 * second_ns\<rparr>\<rparr>"

definition sample_manager_of :: "'s SessionStore \<Rightarrow> ('s, session_cache_db redis) SessionManager" where
  "sample_manager_of st = \<lparr>sm_store = st, sm_cache = Some rd_SessionCache,
     sm_lifetime = 3600 * second_ns, sm_cacheTTL = 60 * second_ns,
     sm_extension = Some \<lparr>ec_ExtendAfter = 600 * second_ns, ec_AbsoluteLifetime = 7200 * second_ns\<rparr>\<rparr>"

definition sample_world_of :: "'s \<Rightarrow> ('s, session_cache_db redis) session_world" where
  "sample_world_of s =
     \<lparr>pos = pos sample_world, clock = clock sample_world, rand_byte = rand_byte sample_world,
      rand_err = rand_err sample_world, uuid_v7 = uuid_v7 sample_world, sw_store = s,
      sw_cache = \<lparr>rd_db = Map.empty, rd_fault = (\<lambda>_. False), rd_abort = (\<lambda>_. False),
                  rd_clock = (\<lambda>_. 0), rd_pos = 0\<rparr>\<rparr>"

definition sample_table :: session_db where
  "sample_table = \<lparr>tables = [], fault = (\<lambda>_. False), stmt_pos = 0, db_clock = (\<lambda>_. 0), found_rows = True\<rparr>"

definition sample_redis :: "redis_sessions redis" where
  "sample_redis =
     \<lparr>rd_db = \<lparr>rs_sessions = Map.empty, rs_ids = Map.empty, rs_subject = (\<lambda>_. [])\<rparr>,
      rd_fault = (\<lambda>_. False), rd_abort = (\<lambda>_. False), rd_clock = (\<lambda>_. 0), rd_pos = 0\<rparr>"

definition sample_manager :: "(session_db, session_cache_db redis) SessionManager" where
  "sample_manager = sample_manager_of pg_SessionStore"

definition sample_session_world :: "(session_db, session_cache_db redis) session_world" where
  "sample_session_world = sample_world_of sample_table"

definition sample_sha :: "string \<Rightarrow> hash" where
  "sample_sha bs = (case bs of [] \<Rightarrow> 1 | c # _ \<Rightarrow> of_char c + 2)"

definition sample_token :: string where
  "sample_token = (case fst (sess_Create sample_sha sample_manager ''alice'' sample_session_world) of
     Inr i \<Rightarrow> si_Token i | Inl _ \<Rightarrow> [])"

definition stale_record :: "time \<Rightarrow> time \<Rightarrow> SessionRecord" where
  "stale_record extended expires = \<lparr>sr_ID = ''s'', sr_SubjectID = ''alice'', sr_TokenHash = 2,
     sr_CreatedAt = 3500 * second_ns, sr_ExpiresAt = expires * second_ns,
     sr_ExtendedAt = Some (extended * second_ns), sr_RevokedAt = None\<rparr>"

definition stale_world :: "(session_db, session_cache_db redis) session_world" where
  "stale_world = (sample_world_of (sample_table\<lparr>tables := [stale_record 7500 10700]\<rparr>))
     \<lparr>clock := (\<lambda>_. 10000 * second_ns),
      sw_cache := (sw_cache (sample_world_of sample_table))
        \<lparr>rd_db := [2 \<mapsto> (stale_record 6900 10500, 1)]\<rparr>\<rparr>"

text \<open>The world after \<^verbatim>\<open>Create\<close> for alice, over any store.\<close>

definition sample_run :: "'s SessionStore \<Rightarrow> 's \<Rightarrow> ('s, session_cache_db redis) session_world" where
  "sample_run st s = sess_run sample_sha (sample_manager_of st) [CallCreate ''alice''] (sample_world_of s)"

lemma sample_resolves:
  "\<exists>r w. sess_Resolve sample_sha (sample_manager_of mg_SessionStore) sample_token
     (sample_run mg_SessionStore sample_table) = (Inr r, w)"
  "\<exists>r w. sess_Resolve sample_sha (sample_manager_of rd_SessionStore) sample_token
     (sample_run rd_SessionStore sample_redis) = (Inr r, w)"
proof -
  have *: "\<exists>r w. x = (Inr r, w)" if "\<not> isl (fst x)" for x :: "('a + 'b) \<times> 'c"
    using that by (cases x; cases "fst x") auto
  show "\<exists>r w. sess_Resolve sample_sha (sample_manager_of mg_SessionStore) sample_token
     (sample_run mg_SessionStore sample_table) = (Inr r, w)" by (rule *) code_simp
  show "\<exists>r w. sess_Resolve sample_sha (sample_manager_of rd_SessionStore) sample_token
     (sample_run rd_SessionStore sample_redis) = (Inr r, w)" by (rule *) code_simp
qed

lemma sample_manager_new:
  "sess_NewManager (Some st) (Some rd_SessionCache) sample_config = Inr (sample_manager_of st)"
  by (simp add: sess_NewManager_def sample_config_def sample_manager_of_def second_ns_def)

lemma sample_coherent:
  "coherent session_view pg_session_ok rd_cache_held mgr (sample_world_of sample_table)"
  "coherent session_view my_session_ok rd_cache_held mgr (sample_world_of sample_table)"
  "coherent session_view mg_session_ok rd_cache_held mgr (sample_world_of sample_table)"
  "coherent rd_session_view rd_session_ok rd_cache_held rmgr (sample_world_of sample_redis)"
  by (simp_all add: coherent_def sample_world_of_def pg_session_ok_def my_session_ok_def
      mg_session_ok_def rd_session_ok_def redis_sessions_ok_def session_table_ok_def sample_table_def
      sample_redis_def session_view_def rd_cache_held_def)

lemma sample_revoked:
  "sess_Revoke sample_sha sample_manager sample_token
     (sess_run sample_sha sample_manager [CallCreate ''alice''] sample_session_world) =
   (Inr (), snd (sess_Revoke sample_sha sample_manager sample_token
     (sess_run sample_sha sample_manager [CallCreate ''alice''] sample_session_world)))"
proof -
  have "fst (sess_Revoke sample_sha sample_manager sample_token
     (sess_run sample_sha sample_manager [CallCreate ''alice''] sample_session_world)) = Inr ()"
    by code_simp
  then show ?thesis by (metis prod.collapse)
qed

lemma shipped_service:
  assumes "sess_NewManager (Some st) cache config = Inr mgr"
    and "cache = None \<or> cache = Some rd_SessionCache"
  shows "sess_service st rd_cache_held mgr"
  using assms(2) rd_cache.session_cache_axioms by (intro NewManager_service [OF assms(1)]) auto

text \<open>A record that a run started without is within the configured lifetime in every later state.\<close>

lemma run_bounded:
  assumes "evolves mgr m m'" and "m = Map.empty" and "m' h = Some r"
  shows "sess_bounded mgr r"
  using assms by (auto simp: evolves_def)

section \<open>Properties\<close>


text \<open>C2: Once \<^verbatim>\<open>Revoke\<close> has returned without error, its token never resolves again, whatever the
  application calls in between and whatever the store and the cache do (stale entries, failing
  statements, expiring keys).\<close>

theorem revoked_never_resolves:
  assumes "sess_NewManager (Some pg_SessionStore) cache config = Inr mgr"
    and "cache = None \<or> cache = Some rd_SessionCache"
    and "coherent session_view pg_session_ok rd_cache_held mgr w"
    and "sess_Revoke sha mgr raw (sess_run sha mgr before w) = (Inr (), w1)"
  shows "\<exists>e w2. sess_Resolve sha mgr raw (sess_run sha mgr calls w1) = (Inl e, w2)"
proof -
  note s = shipped_service [OF assms(1,2)]
  note run = pg_sessions.run_safe [OF s, of w sha before]
  note c = sess_safe_coherent [OF run assms(3)]
  obtain h where h: "HashToken sha raw = Inr h"
    using assms(4) by (auto simp: sess_Revoke_def split: sum.splits)
  have "sess_locked session_view rd_cache_held h mgr w1"
    using pg_sessions.Revoke_result [OF s c h assms(4)] by auto
  moreover have "coherent session_view pg_session_ok rd_cache_held mgr w1"
    using sess_safe_coherent [OF pg_sessions.Revoke_safe [OF s] c] assms(4) by (metis snd_conv)
  ultimately show ?thesis using pg_sessions.locked_not_resolved [OF s _ h] by blast
qed

theorem revoked_never_resolves_witness:
  "\<exists>e w2. sess_Resolve sample_sha sample_manager sample_token
     (sess_run sample_sha sample_manager [CallCreate ''bob'', CallResolve sample_token]
        (snd (sess_Revoke sample_sha sample_manager sample_token
           (sess_run sample_sha sample_manager [CallCreate ''alice''] sample_session_world)))) = (Inl e, w2)"
  by (rule revoked_never_resolves [OF sample_manager_new [of pg_SessionStore, folded sample_manager_def] _
        sample_coherent(1) [folded sample_session_world_def] sample_revoked]) simp



text \<open>C6: No session outlives its configured lifetime: in any run that starts from an empty store,
  a session resolves only before its creation time plus the absolute lifetime (plus the lifetime
  when extension is off), however often it was extended and whatever the cache held.\<close>

theorem Resolve_within_lifetime:
  assumes "sess_NewManager (Some rd_SessionStore) cache config = Inr mgr"
    and "cache = None \<or> cache = Some rd_SessionCache"
    and "coherent rd_session_view rd_session_ok rd_cache_held mgr w"
    and "rd_session_view (sw_store w) = Map.empty"
    and "sess_Resolve sha mgr raw (sess_run sha mgr calls w) = (Inr r, w1)"
  shows "clock (sess_run sha mgr calls w) (pos (sess_run sha mgr calls w)) <
     sr_CreatedAt r + (case scfg_Extension config of None \<Rightarrow> scfg_Lifetime config
       | Some x \<Rightarrow> ec_AbsoluteLifetime x)"
proof -
  note s = shipped_service [OF assms(1,2)]
  note run = rd_sessions.run_safe [OF s, of w sha calls]
  note c = sess_safe_coherent [OF run assms(3)]
  note res = rd_sessions.Resolve_safe [OF s, of "sess_run sha mgr calls w" sha raw]
  have c1: "coherent rd_session_view rd_session_ok rd_cache_held mgr w1"
    using sess_safe_coherent [OF res c] assms(5) by simp
  have ev: "evolves mgr (rd_session_view (sw_store w)) (rd_session_view (sw_store w1))"
    using evolves_trans [OF sess_safe_evolves [OF run assms(3)] sess_safe_evolves [OF res c]] assms(5)
    by simp
  from s c assms(5) show ?thesis
  proof (cases rule: rd_sessions.Resolve_Inr)
    case (1 h q)
    have "\<exists>d. rd_session_view (sw_store w1) h = Some d \<and> sess_later r d"
      using 1(6,7) c by (auto simp: coherent_def)
    then obtain d where d: "rd_session_view (sw_store w1) h = Some d" "sess_later r d" by blast
    have "sess_bounded mgr d" by (rule run_bounded [OF ev assms(4) d(1)])
    then show ?thesis
      using 1(4) d(2) assms(1)
      by (auto simp: sess_bounded_def sess_later_def sess_ActiveAt_def sess_NewManager_def
          split: if_splits option.splits)
  qed
qed

theorem Resolve_within_lifetime_witness:
  "\<exists>r w. sess_Resolve sample_sha (sample_manager_of rd_SessionStore) sample_token
       (sample_run rd_SessionStore sample_redis) = (Inr r, w) \<and>
     clock (sample_run rd_SessionStore sample_redis) (pos (sample_run rd_SessionStore sample_redis)) <
       sr_CreatedAt r + 7200 * second_ns"
proof -
  obtain r w where r: "sess_Resolve sample_sha (sample_manager_of rd_SessionStore) sample_token
       (sample_run rd_SessionStore sample_redis) = (Inr r, w)"
    using sample_resolves(2) by blast
  have e: "rd_session_view (sw_store (sample_world_of sample_redis)) = Map.empty"
    by (simp add: sample_world_of_def sample_redis_def rd_session_view_def)
  from Resolve_within_lifetime [OF sample_manager_new _ sample_coherent(4) e r [unfolded sample_run_def]] r
  show ?thesis unfolding sample_run_def by (auto simp: sample_config_def)
qed







text \<open>C30: A \<^verbatim>\<open>Create\<close> or \<^verbatim>\<open>Rotate\<close> that returns an error has no durable effect: the stored sessions
  are exactly those before the call, in every store state and for every pattern of failures.\<close>

theorem failed_issue_no_effect:
  assumes "sess_NewManager (Some mg_SessionStore) cache config = Inr mgr"
    and "cache = None \<or> cache = Some rd_SessionCache"
    and "coherent session_view mg_session_ok rd_cache_held mgr w"
    and "sess_Create sha mgr sub w = (Inl e, w1) \<or> sess_Rotate sha mgr raw w = (Inl e, w1)"
  shows "session_view (sw_store w1) = session_view (sw_store w)"
  using assms(4) mg_sessions.Create_Inl [OF shipped_service [OF assms(1,2)] assms(3)]
    mg_sessions.Rotate_Inl [OF shipped_service [OF assms(1,2)] assms(3)] by blast

theorem failed_issue_no_effect_witness:
  "session_view (sw_store (snd (sess_Create sample_sha (sample_manager_of mg_SessionStore) '' ''
     (sample_run mg_SessionStore sample_table)))) =
   session_view (sw_store (sample_run mg_SessionStore sample_table))"
proof -
  let ?m = "sample_manager_of mg_SessionStore" and ?w = "sample_run mg_SessionStore sample_table"
  let ?x = "sess_Create sample_sha ?m '' '' ?w"
  have "isl (fst ?x)" by code_simp
  then obtain e where x: "?x = (Inl e, snd ?x)" by (cases ?x; cases "fst ?x") auto
  have c: "coherent session_view mg_session_ok rd_cache_held ?m ?w"
    unfolding sample_run_def using sample_coherent(3)
    by (intro sess_safe_coherent [OF mg_sessions.run_safe [OF shipped_service [OF sample_manager_new]]]) auto
  from failed_issue_no_effect [OF sample_manager_new _ c disjI1 [OF x]] show ?thesis by simp
qed


text \<open>\<^verbatim>\<open>RevokeAll\<close> that returns without error has revoked every session of the subject and no
  other, keeps the time of an earlier revocation, and none of those sessions resolves in any later
  run; sessions of other subjects are untouched.\<close>

theorem RevokeAll_subject:
  assumes "sess_NewManager (Some rd_SessionStore) cache config = Inr mgr"
    and "cache = None \<or> cache = Some rd_SessionCache"
    and "coherent rd_session_view rd_session_ok rd_cache_held mgr w"
    and "sess_RevokeAll mgr sub w = (Inr (), w1)"
  shows "(\<forall>h r. rd_session_view (sw_store w) h = Some r \<longrightarrow>
       rd_session_view (sw_store w1) h =
         Some (if sr_SubjectID r = sub then sess_revoke (clock w (pos w)) r else r)) \<and>
     dom (rd_session_view (sw_store w1)) = dom (rd_session_view (sw_store w)) \<and>
     (\<forall>raw h r. HashToken sha raw = Inr h \<and> rd_session_view (sw_store w) h = Some r \<and>
         sr_SubjectID r = sub \<longrightarrow>
       (\<exists>e w2. sess_Resolve sha mgr raw (sess_run sha mgr calls w1) = (Inl e, w2)))"
proof -
  note s = shipped_service [OF assms(1,2)]
  have c1: "coherent rd_session_view rd_session_ok rd_cache_held mgr w1"
    using sess_safe_coherent [OF rd_sessions.RevokeAll_safe [OF s] assms(3)] assms(4) by (metis snd_conv)
  note r = rd_sessions.RevokeAll_result [OF s assms(3,4)]
  have "\<exists>e w2. sess_Resolve sha mgr raw (sess_run sha mgr calls w1) = (Inl e, w2)"
    if "HashToken sha raw = Inr h" "rd_session_view (sw_store w) h = Some q" "sr_SubjectID q = sub"
    for raw h q
    using rd_sessions.locked_not_resolved [OF s c1 that(1)] r that(2,3) by blast
  then show ?thesis using r by (auto simp: revoke_subject_def dom_def split: option.splits)
qed

theorem RevokeAll_subject_witness:
  "\<exists>w1 e w2. sess_RevokeAll (sample_manager_of rd_SessionStore) ''alice''
       (sample_run rd_SessionStore sample_redis) = (Inr (), w1) \<and>
     sess_Resolve sample_sha (sample_manager_of rd_SessionStore) sample_token w1 = (Inl e, w2)"
proof -
  let ?m = "sample_manager_of rd_SessionStore" and ?w = "sample_run rd_SessionStore sample_redis"
  let ?x = "sess_RevokeAll ?m ''alice'' ?w"
  let ?ok = "fst ?x = Inr () \<and> (case HashToken sample_sha sample_token of Inl _ \<Rightarrow> False
      | Inr h \<Rightarrow> (case rd_session_view (sw_store ?w) h of None \<Rightarrow> False
          | Some r \<Rightarrow> sr_SubjectID r = ''alice''))"
  have ok: "?ok" by code_simp
  then obtain h r where h: "HashToken sample_sha sample_token = Inr h"
    "rd_session_view (sw_store ?w) h = Some r" "sr_SubjectID r = ''alice''"
    by (auto split: sum.splits option.splits)
  have x: "?x = (Inr (), snd ?x)" using ok by (metis prod.collapse)
  have c: "coherent rd_session_view rd_session_ok rd_cache_held ?m ?w"
    unfolding sample_run_def using sample_coherent(4)
    by (intro sess_safe_coherent [OF rd_sessions.run_safe [OF shipped_service [OF sample_manager_new]]]) auto
  from RevokeAll_subject [OF sample_manager_new _ c x, of sample_sha "[]"] h x show ?thesis by fastforce
qed


text \<open>\<^verbatim>\<open>RevokeByID\<close> can only end a session of the given subject: when it succeeds, exactly one
  stored record changed, its subject and ID are the given ones, and its token never resolves again.\<close>

theorem RevokeByID_own_session:
  assumes "sess_NewManager (Some pg_SessionStore) cache config = Inr mgr"
    and "cache = None \<or> cache = Some rd_SessionCache"
    and "coherent session_view pg_session_ok rd_cache_held mgr w"
    and "sess_RevokeByID mgr sub i w = (Inr (), w1)"
  shows "\<exists>h q t. session_view (sw_store w) h = Some q \<and> sr_SubjectID q = sub \<and> sr_ID q = i \<and>
     session_view (sw_store w1) = (session_view (sw_store w))(h \<mapsto> sess_revoke t q) \<and>
     (\<forall>raw. HashToken sha raw = Inr h \<longrightarrow>
        (\<exists>e w2. sess_Resolve sha mgr raw (sess_run sha mgr calls w1) = (Inl e, w2)))"
proof -
  note s = shipped_service [OF assms(1,2)]
  have c1: "coherent session_view pg_session_ok rd_cache_held mgr w1"
    using sess_safe_coherent [OF pg_sessions.RevokeByID_safe [OF s] assms(3)] assms(4) by (metis snd_conv)
  show ?thesis
  proof (rule pg_sessions.RevokeByID_result [OF s assms(3,4)])
    show "Inr () = Inr () \<or> Inr () = Inl undefined \<and> errors_is undefined (ESession Session_ErrCacheSync)"
      by simp
    fix q t
    assume q: "session_view (sw_store w) (sr_TokenHash q) = Some q" "sr_SubjectID q = sub" "sr_ID q = i"
      "session_view (sw_store w1) = (session_view (sw_store w))(sr_TokenHash q \<mapsto> sess_revoke t q)"
      and l: "Inr () = Inr () \<Longrightarrow> sess_locked session_view rd_cache_held (sr_TokenHash q) mgr w1"
    have "\<exists>e w2. sess_Resolve sha mgr raw (sess_run sha mgr calls w1) = (Inl e, w2)"
      if "HashToken sha raw = Inr (sr_TokenHash q)" for raw
      using pg_sessions.locked_not_resolved [OF s c1 that l] by simp
    then show ?thesis using q by blast
  qed
qed

theorem RevokeByID_own_session_witness:
  "\<exists>w1 q. sess_RevokeByID (sample_manager_of pg_SessionStore) ''alice'' (''id'' @ [CHR ''0''])
       (sample_run pg_SessionStore sample_table) = (Inr (), w1) \<and>
     q \<in> ran (session_view (sw_store (sample_run pg_SessionStore sample_table))) \<and>
     sr_SubjectID q = ''alice'' \<and> sr_ID q = ''id0''"
proof -
  let ?m = "sample_manager_of pg_SessionStore" and ?w = "sample_run pg_SessionStore sample_table"
  let ?x = "sess_RevokeByID ?m ''alice'' (''id'' @ [CHR ''0'']) ?w"
  have "fst ?x = Inr ()" by code_simp
  then have x: "?x = (Inr (), snd ?x)" by (metis prod.collapse)
  have c: "coherent session_view pg_session_ok rd_cache_held ?m ?w"
    unfolding sample_run_def using sample_coherent(1)
    by (intro sess_safe_coherent [OF pg_sessions.run_safe [OF shipped_service [OF sample_manager_new]]]) auto
  from RevokeByID_own_session [OF sample_manager_new _ c x, of sample_sha "[]"] obtain h q where
    "session_view (sw_store ?w) h = Some q" "sr_SubjectID q = ''alice''" "sr_ID q = ''id0''" by auto
  then show ?thesis using x ranI by fast
qed


text \<open>\<^verbatim>\<open>List\<close> returns exactly the stored sessions of the subject, each once, newest first, and
  changes nothing.\<close>

theorem List_exact:
  assumes "sess_NewManager (Some rd_SessionStore) cache config = Inr mgr"
    and "cache = None \<or> cache = Some rd_SessionCache"
    and "coherent rd_session_view rd_session_ok rd_cache_held mgr w"
    and "sess_List mgr sub w = (Inr rs, w1)"
  shows "set rs = {r \<in> ran (rd_session_view (sw_store w)). sr_SubjectID r = sub} \<and> distinct rs \<and>
     sorted_wrt (\<lambda>a b. sr_CreatedAt b \<le> sr_CreatedAt a) rs \<and>
     rd_session_view (sw_store w1) = rd_session_view (sw_store w)"
  using rd_sessions.List_step(2,5,7) [OF assms(3) shipped_service [OF assms(1,2)] assms(4)] by simp

theorem List_exact_witness:
  "\<exists>rs w1. sess_List (sample_manager_of rd_SessionStore) ''alice''
       (sample_run rd_SessionStore sample_redis) = (Inr rs, w1) \<and> distinct rs \<and>
     set rs = {r \<in> ran (rd_session_view (sw_store (sample_run rd_SessionStore sample_redis))).
       sr_SubjectID r = ''alice''}"
proof -
  let ?m = "sample_manager_of rd_SessionStore" and ?w = "sample_run rd_SessionStore sample_redis"
  let ?x = "sess_List ?m ''alice'' ?w"
  have "\<not> isl (fst ?x)" by code_simp
  then obtain rs where x: "?x = (Inr rs, snd ?x)" by (cases ?x; cases "fst ?x") auto
  have c: "coherent rd_session_view rd_session_ok rd_cache_held ?m ?w"
    unfolding sample_run_def using sample_coherent(4)
    by (intro sess_safe_coherent [OF rd_sessions.run_safe [OF shipped_service [OF sample_manager_new]]]) auto
  from List_exact [OF sample_manager_new _ c x] x show ?thesis by blast
qed

text \<open>C31: A cached copy that is older than the stored record can end an active session: when the
  extension that is due for the cached copy asks for no later expiry than the store already has,
  \<^verbatim>\<open>Resolve\<close> answers \<^verbatim>\<open>ErrInactive\<close> although the stored session is active.\<close>

theorem stale_copy_rejects_active:
  assumes "sess_NewManager (Some pg_SessionStore) (Some rd_SessionCache) config = Inr mgr"
    and "scfg_Extension config = Some x"
    and "HashToken sha raw = Inr h" and "t = clock w (pos w)"
    and "fst (rd_cache_Get h (sw_cache w)) = Inr q"
    and "sess_validRecord q" and "sr_TokenHash q = h" and "sess_ActiveAt q t"
    and "sess_extensionTarget (scfg_Lifetime config) x q t = Some u"
    and "pg_session_ok (sw_store w)" and "fault (sw_store w) = (\<lambda>_. False)"
    and "session_view (sw_store w) h = Some d" and "sess_ActiveAt d t" and "u \<le> sr_ExpiresAt d"
  shows "fst (sess_Resolve sha mgr raw w) = Inl (ESession Session_ErrInactive)"
proof -
  have m: "sm_cache mgr = Some rd_SessionCache" "sm_store mgr = pg_SessionStore"
    "sm_extension mgr = Some x" "sm_lifetime mgr = scfg_Lifetime config"
    using assms(1,2) by (auto simp: sess_NewManager_def split: if_splits)
  have g: "on_cache (sc_Get rd_SessionCache h) (w\<lparr>pos := Suc (pos w)\<rparr>) =
      (Inr q, w\<lparr>pos := Suc (pos w), sw_cache := snd (rd_cache_Get h (sw_cache w))\<rparr>)"
    using assms(5) by (simp add: on_cache_def rd_SessionCache_def)
  have e: "fst (ss_Extend pg_SessionStore h t u (sw_store w)) = Inl (ESession Session_ErrInactive)"
    using assms(10-12,14)
    by (simp add: pg_SessionStore_def pg_session_Extend_def pg_scanSession_def on_err_eq stmt_quiet
        sql_update_def filter_keyed session_view_def pg_session_ok_def session_table_ok_keys first_row_def)
  show ?thesis
    using assms(3,4,6-9) g e m
    by (simp add: sess_Resolve_def now_def sess_extendIfDue_def on_store_def)
qed

theorem stale_copy_rejects_active_witness:
  "fst (sess_Resolve sample_sha sample_manager (b64_encode b64_url (CHR 0x00 # replicate 31 (CHR 0x00))) stale_world) =
     Inl (ESession Session_ErrInactive)"
  by (rule stale_copy_rejects_active [where d = "stale_record 7500 10700" and q = "stale_record 6900 10500"
        and u = "10700 * second_ns" and t = "10000 * second_ns" and h = 2
        and x = "\<lparr>ec_ExtendAfter = 600 * second_ns, ec_AbsoluteLifetime = 7200 * second_ns\<rparr>",
        OF sample_manager_new [of pg_SessionStore, folded sample_manager_def]])
    (simp_all add: sample_config_def stale_world_def sample_world_of_def rd_cache_Get_def on_err_eq
      redis_get_def redis_cmd_def stale_record_def sess_validRecord_def sess_ActiveAt_def second_ns_def
      sess_extensionTarget_def Let_def pg_session_ok_def session_table_ok_def sample_table_def session_view_def
      HashToken_encode sample_sha_def entropyBytes_def TrimSpace_def trim_left_def trim_right_def
      space_runes_def)

end
