(* ===== verification/Refreshtoken.thy ===== *)
theory Refreshtoken
  imports Token Database
begin

text \<open>
  The package \<^verbatim>\<open>refreshtoken\<close> (src/refreshtoken/refreshtoken.go): opaque tokens that renew access
  tokens, each usable once. The interface \<^verbatim>\<open>Store\<close> is a record of operations on a state that it
  shares with the access sessions; its contract is the locale \<open>bearer_store\<close> in the theory
  BearerStore.
\<close>

record RefreshRecord =
  rr_SessionID :: string
  rr_TokenHash :: hash
  rr_CreatedAt :: time
  rr_ExpiresAt :: time
  rr_RotatedAt :: "time option"
  rr_RevokedAt :: "time option"

definition ref_ActiveAt :: "RefreshRecord \<Rightarrow> time \<Rightarrow> bool" where
  "ref_ActiveAt r at \<longleftrightarrow> rr_RotatedAt r = None \<and> rr_RevokedAt r = None \<and> at < rr_ExpiresAt r"

record RefreshIssued =
  ri_Token :: string
  ri_Record :: RefreshRecord

record 's RefreshStore =
  rs_Create :: "RefreshRecord \<Rightarrow> 's \<Rightarrow> (err + unit) \<times> 's"
  rs_FindByTokenHash :: "hash \<Rightarrow> 's \<Rightarrow> (err + RefreshRecord) \<times> 's"
  rs_Rotate :: "hash \<Rightarrow> RefreshRecord \<Rightarrow> time \<Rightarrow> 's \<Rightarrow> (err + unit) \<times> 's"
  rs_RevokeSession :: "string \<Rightarrow> time \<Rightarrow> 's \<Rightarrow> (err + unit) \<times> 's"

record 's RefreshManager =
  rm_store :: "'s RefreshStore"
  rm_lifetime :: duration

text \<open>What the managers of bearer sessions act on: the outside world and the database.\<close>

record 's store_world = world +
  tw_store :: 's

definition on_db ::
  "('s \<Rightarrow> (err + 'r) \<times> 's) \<Rightarrow> 's store_world \<Rightarrow> (err + 'r) \<times> 's store_world" where
  "on_db f w = (fst (f (tw_store w)), w\<lparr>tw_store := snd (f (tw_store w))\<rparr>)"

definition ref_creationAttempts :: nat where
  "ref_creationAttempts = 3"

definition ref_NewManager :: "'s RefreshStore option \<Rightarrow> duration \<Rightarrow> err + 's RefreshManager" where
  "ref_NewManager store lifetime =
     (case store of
        None \<Rightarrow> Inl (EWrap ''store is required'' (ERefresh Refresh_ErrInvalidConfig))
      | Some st \<Rightarrow>
          if lifetime \<le> 0 then Inl (EWrap ''lifetime must be positive'' (ERefresh Refresh_ErrInvalidConfig))
          else Inr \<lparr>rm_store = st, rm_lifetime = lifetime\<rparr>)"

definition ref_validRecord :: "RefreshRecord \<Rightarrow> bool" where
  "ref_validRecord r \<longleftrightarrow>
     \<not> (blank (rr_SessionID r) \<or> rr_TokenHash r = 0 \<or> rr_CreatedAt r = 0 \<or>
        \<not> rr_ExpiresAt r > rr_CreatedAt r) \<and>
     \<not> (case rr_RotatedAt r of None \<Rightarrow> False | Some t \<Rightarrow> t < rr_CreatedAt r) \<and>
     \<not> (case rr_RevokedAt r of None \<Rightarrow> False | Some t \<Rightarrow> t < rr_CreatedAt r)"

text \<open>\<^verbatim>\<open>newIssued\<close>: the zero time as expiry asks for the configured lifetime.\<close>

definition ref_newIssued ::
  "(string \<Rightarrow> hash) \<Rightarrow> 's RefreshManager \<Rightarrow> string \<Rightarrow> time \<Rightarrow> 's store_world \<Rightarrow>
     (err + RefreshIssued) \<times> 's store_world" where
  "ref_newIssued sha mgr sessionID expiresAt =
     bindM (on_err (EWrap ''generate refresh token'') (Generate sha)) (\<lambda>(rawToken, tokenHash).
     bindM read_clock (\<lambda>t.
     retM (Inr
       \<lparr>ri_Token = rawToken,
        ri_Record = \<lparr>rr_SessionID = sessionID, rr_TokenHash = tokenHash, rr_CreatedAt = t,
          rr_ExpiresAt = (if expiresAt = 0 then t + rm_lifetime mgr else expiresAt),
          rr_RotatedAt = None, rr_RevokedAt = None\<rparr>\<rparr>)))"

fun ref_create_loop ::
  "nat \<Rightarrow> (string \<Rightarrow> hash) \<Rightarrow> 's RefreshManager \<Rightarrow> string \<Rightarrow> 's store_world \<Rightarrow>
     (err + RefreshIssued) \<times> 's store_world" where
  "ref_create_loop 0 sha mgr sessionID w =
     (Inl (EWrap ''create unique refresh token'' (ERefresh Refresh_ErrConflict)), w)"
| "ref_create_loop (Suc n) sha mgr sessionID w =
     (case ref_newIssued sha mgr sessionID 0 w of
        (Inl e, w1) \<Rightarrow> (Inl e, w1)
      | (Inr issued, w1) \<Rightarrow>
          (case on_db (rs_Create (rm_store mgr) (ri_Record issued)) w1 of
             (Inl e, w2) \<Rightarrow>
               if errors_is e (ERefresh Refresh_ErrConflict) then ref_create_loop n sha mgr sessionID w2
               else (Inl (EWrap ''create durable refresh token'' e), w2)
           | (Inr _, w2) \<Rightarrow> (Inr issued, w2)))"

definition ref_Create ::
  "(string \<Rightarrow> hash) \<Rightarrow> 's RefreshManager \<Rightarrow> string \<Rightarrow> 's store_world \<Rightarrow>
     (err + RefreshIssued) \<times> 's store_world" where
  "ref_Create sha mgr sessionID w =
     (if blank sessionID
      then (Inl (EWrap ''session ID is required'' (ERefresh Refresh_ErrInvalidRecord)), w)
      else ref_create_loop ref_creationAttempts sha mgr sessionID w)"

definition ref_Resolve ::
  "(string \<Rightarrow> hash) \<Rightarrow> 's RefreshManager \<Rightarrow> string \<Rightarrow> 's store_world \<Rightarrow>
     (err + RefreshRecord) \<times> 's store_world" where
  "ref_Resolve sha mgr rawToken w =
     (case HashToken sha rawToken of
        Inl e \<Rightarrow> (Inl e, w)
      | Inr h \<Rightarrow>
        bindM (on_err (EWrap ''find refresh token'') (on_db (rs_FindByTokenHash (rm_store mgr) h)))
          (\<lambda>r w1.
           if \<not> ref_validRecord r \<or> rr_TokenHash r \<noteq> h
           then (Inl (ERefresh Refresh_ErrInvalidRecord), w1)
           else (case now w1 of (t, w2) \<Rightarrow>
             if \<not> ref_ActiveAt r t then (Inl (ERefresh Refresh_ErrInactive), w2) else (Inr r, w2))) w)"

fun ref_rotate_loop ::
  "nat \<Rightarrow> (string \<Rightarrow> hash) \<Rightarrow> 's RefreshManager \<Rightarrow> hash \<Rightarrow> RefreshRecord \<Rightarrow> 's store_world \<Rightarrow>
     (err + RefreshIssued) \<times> 's store_world" where
  "ref_rotate_loop 0 sha mgr h current w =
     (Inl (EWrap ''create unique refresh token'' (ERefresh Refresh_ErrConflict)), w)"
| "ref_rotate_loop (Suc n) sha mgr h current w =
     (case ref_newIssued sha mgr (rr_SessionID current) (rr_ExpiresAt current) w of
        (Inl e, w1) \<Rightarrow> (Inl e, w1)
      | (Inr replacement, w1) \<Rightarrow>
          (case now w1 of (t, w2) \<Rightarrow>
          (case on_db (rs_Rotate (rm_store mgr) h (ri_Record replacement) t) w2 of
             (Inl e, w3) \<Rightarrow>
               if errors_is e (ERefresh Refresh_ErrConflict) then ref_rotate_loop n sha mgr h current w3
               else (Inl (EWrap ''rotate refresh token'' e), w3)
           | (Inr _, w3) \<Rightarrow> (Inr replacement, w3))))"

definition ref_Rotate ::
  "(string \<Rightarrow> hash) \<Rightarrow> 's RefreshManager \<Rightarrow> string \<Rightarrow> 's store_world \<Rightarrow>
     (err + RefreshIssued) \<times> 's store_world" where
  "ref_Rotate sha mgr rawToken w =
     (case HashToken sha rawToken of
        Inl e \<Rightarrow> (Inl e, w)
      | Inr h \<Rightarrow>
        bindM (on_err (EWrap ''find refresh token'') (on_db (rs_FindByTokenHash (rm_store mgr) h)))
          (\<lambda>current w1.
           if \<not> ref_validRecord current \<or> rr_TokenHash current \<noteq> h
           then (Inl (ERefresh Refresh_ErrInvalidRecord), w1)
           else ref_rotate_loop ref_creationAttempts sha mgr h current w1) w)"

definition ref_RevokeSessionID ::
  "'s RefreshManager \<Rightarrow> string \<Rightarrow> 's store_world \<Rightarrow> (err + unit) \<times> 's store_world" where
  "ref_RevokeSessionID mgr sessionID w =
     (if blank sessionID then (Inl (ERefresh Refresh_ErrInvalidRecord), w)
      else bindM read_clock (\<lambda>t.
           on_err (EWrap ''revoke session refresh tokens'')
             (on_db (rs_RevokeSession (rm_store mgr) sessionID t))) w)"

definition ref_RevokeSession ::
  "(string \<Rightarrow> hash) \<Rightarrow> 's RefreshManager \<Rightarrow> string \<Rightarrow> 's store_world \<Rightarrow> (err + unit) \<times> 's store_world" where
  "ref_RevokeSession sha mgr rawToken =
     bindM (ref_Resolve sha mgr rawToken) (\<lambda>r. ref_RevokeSessionID mgr (rr_SessionID r))"

section \<open>Lemmas\<close>

lemma on_db_simps [simp]:
  "fst (on_db f w) = fst (f (tw_store w))"
  "snd (on_db f w) = w\<lparr>tw_store := snd (f (tw_store w))\<rparr>"
  by (simp_all add: on_db_def)

lemma ref_newIssued_store [simp]:
  "tw_store (snd (ref_newIssued sha mgr sid e w)) = tw_store w"
  by (simp add: ref_newIssued_def bindM_eq on_err_eq split: sum.split prod.split)

lemma ref_newIssued_Inr:
  assumes "ref_newIssued sha mgr sid e w = (Inr i, w1)"
  shows "HashToken sha (ri_Token i) = Inr (rr_TokenHash (ri_Record i))"
    and "rr_SessionID (ri_Record i) = sid"
    and "e \<noteq> 0 \<Longrightarrow> rr_ExpiresAt (ri_Record i) = e"
    and "rr_RotatedAt (ri_Record i) = None" and "rr_RevokedAt (ri_Record i) = None"
  using assms
  by (auto simp: ref_newIssued_def bindM_eq on_err_eq split: sum.splits prod.splits
      dest!: Generate_hash [of _ _ _ _])

end
