(* ===== verification/Accesstoken.thy ===== *)
theory Accesstoken
  imports Refreshtoken
begin

text \<open>
  The package \<^verbatim>\<open>accesstoken\<close> (src/accesstoken/accesstoken.go): short-lived Ed25519-signed JWTs that
  name a durable session. The library \<^verbatim>\<open>golang-jwt/jwt\<close> is not part of the repository: signing and
  parsing are the two fields of the parameter \<open>jwt_library\<close>, and \<open>jwt_documented\<close> states what its
  documentation promises of them. An Ed25519 key is a byte string; the public half of a private key
  is its last 32 bytes, as in \<^verbatim>\<open>crypto/ed25519\<close>.
\<close>

definition maximumTokenLength :: nat where
  "maximumTokenLength = 8192"

record Claims =
  cl_SessionID :: string
  cl_Issuer :: string
  cl_Subject :: string
  cl_Audience :: "string list"
  cl_ExpiresAt :: "time option"
  cl_NotBefore :: "time option"
  cl_IssuedAt :: "time option"
  cl_ID :: string

record AccessIssued =
  ai_Token :: string
  ai_ExpiresAt :: time

record AccessIssuer =
  iss_issuer :: string
  iss_audience :: string
  iss_lifetime :: duration
  iss_keyID :: string
  iss_privateKey :: string

text \<open>The header of a JWT as the key function sees it, and the options the verifier passes.\<close>

record jwt_header =
  jh_alg :: string
  jh_kid :: "string option"

record parse_options =
  po_methods :: "string list"
  po_issuer :: string
  po_audience :: string
  po_leeway :: duration

record jwt_library =
  jwt_sign :: "jwt_header \<Rightarrow> Claims \<Rightarrow> string \<Rightarrow> err + string"
  jwt_parse :: "parse_options \<Rightarrow> (jwt_header \<Rightarrow> err + string) \<Rightarrow> time \<Rightarrow> string \<Rightarrow> err + Claims"

definition alg_EdDSA :: string where
  "alg_EdDSA = ''EdDSA''"

definition ed25519_Public :: "string \<Rightarrow> string" where
  "ed25519_Public key = drop 32 key"

text \<open>\<^verbatim>\<open>jwt.NewNumericDate\<close> truncates to the library's precision, one second.\<close>

definition NumericDate :: "time \<Rightarrow> time" where
  "NumericDate t = truncate_second t"

definition acc_NewIssuer :: "AccessIssuer \<Rightarrow> err + AccessIssuer" where
  "acc_NewIssuer config =
     (if blank (iss_issuer config) \<or> blank (iss_audience config) \<or> blank (iss_keyID config) \<or>
         iss_lifetime config \<le> 0 \<or> length (iss_privateKey config) \<noteq> 64
      then Inl (EAccess Access_ErrInvalidConfig) else Inr config)"

text \<open>\<^verbatim>\<open>issue\<close>; the zero time as maximum means no maximum.\<close>

definition acc_issue ::
  "jwt_library \<Rightarrow> (string \<Rightarrow> hash) \<Rightarrow> AccessIssuer \<Rightarrow> string \<Rightarrow> string \<Rightarrow> time \<Rightarrow>
     'a world_scheme \<Rightarrow> (err + AccessIssued) \<times> 'a world_scheme" where
  "acc_issue lib sha issuer subjectID sessionID maximumExpiry w =
     (if blank subjectID \<or> blank sessionID then (Inl (EAccess Access_ErrInvalidToken), w)
      else bindM (on_err (EWrap ''generate access token ID'') (Generate sha)) (\<lambda>(tokenID, _) w1.
        (case now w1 of (reading, w2) \<Rightarrow>
        let t = truncate_second reading;
            wanted = t + iss_lifetime issuer;
            expiresAt = (if maximumExpiry \<noteq> 0 \<and> wanted > maximumExpiry
                         then truncate_second maximumExpiry else wanted)
        in if \<not> expiresAt > t then (Inl (EAccess Access_ErrInactiveSession), w2)
           else (case jwt_sign lib \<lparr>jh_alg = alg_EdDSA, jh_kid = Some (iss_keyID issuer)\<rparr>
                   \<lparr>cl_SessionID = sessionID, cl_Issuer = iss_issuer issuer, cl_Subject = subjectID,
                    cl_Audience = [iss_audience issuer],
                    cl_ExpiresAt = Some (NumericDate expiresAt), cl_NotBefore = Some (NumericDate t),
                    cl_IssuedAt = Some (NumericDate t), cl_ID = tokenID\<rparr> (iss_privateKey issuer) of
                   Inl e \<Rightarrow> (Inl (EWrap ''sign access token'' e), w2)
                 | Inr rawToken \<Rightarrow> (Inr \<lparr>ai_Token = rawToken, ai_ExpiresAt = expiresAt\<rparr>, w2)))) w)"

definition acc_Issue ::
  "jwt_library \<Rightarrow> (string \<Rightarrow> hash) \<Rightarrow> AccessIssuer \<Rightarrow> string \<Rightarrow> string \<Rightarrow>
     'a world_scheme \<Rightarrow> (err + AccessIssued) \<times> 'a world_scheme" where
  "acc_Issue lib sha issuer subjectID sessionID = acc_issue lib sha issuer subjectID sessionID 0"

definition acc_IssueUntil ::
  "jwt_library \<Rightarrow> (string \<Rightarrow> hash) \<Rightarrow> AccessIssuer \<Rightarrow> string \<Rightarrow> string \<Rightarrow> time \<Rightarrow>
     'a world_scheme \<Rightarrow> (err + AccessIssued) \<times> 'a world_scheme" where
  "acc_IssueUntil = acc_issue"

record DurableSession =
  ds_ID :: string
  ds_SubjectID :: string
  ds_CreatedAt :: time
  ds_ExpiresAt :: time

definition durable_ActiveAt :: "DurableSession \<Rightarrow> time \<Rightarrow> bool" where
  "durable_ActiveAt s at \<longleftrightarrow> at < ds_ExpiresAt s"

text \<open>A Go map of keys is an association list; the entries are tried as the loop does.\<close>

record VerifierConfig =
  vc_Issuer :: string
  vc_Audience :: string
  vc_PublicKeys :: "(string \<times> string) list"
  vc_Leeway :: duration

record 's Verifier =
  vf_config :: VerifierConfig
  vf_resolver :: "string \<Rightarrow> 's \<Rightarrow> (err + DurableSession) \<times> 's"

definition acc_NewVerifier ::
  "(string \<Rightarrow> 's \<Rightarrow> (err + DurableSession) \<times> 's) option \<Rightarrow> VerifierConfig \<Rightarrow> err + 's Verifier" where
  "acc_NewVerifier resolver config =
     (case resolver of
        None \<Rightarrow> Inl (EAccess Access_ErrInvalidConfig)
      | Some res \<Rightarrow>
          if blank (vc_Issuer config) \<or> blank (vc_Audience config) \<or> vc_PublicKeys config = [] \<or>
             vc_Leeway config < 0
          then Inl (EAccess Access_ErrInvalidConfig)
          else if list_ex (\<lambda>(keyID, publicKey). blank keyID \<or> length publicKey \<noteq> 32) (vc_PublicKeys config)
          then Inl (EAccess Access_ErrInvalidConfig)
          else Inr \<lparr>vf_config = config, vf_resolver = res\<rparr>)"

text \<open>The key function that \<^verbatim>\<open>VerifySession\<close> hands to the library.\<close>

definition acc_keyfunc :: "VerifierConfig \<Rightarrow> jwt_header \<Rightarrow> err + string" where
  "acc_keyfunc config header =
     (if jh_alg header \<noteq> alg_EdDSA then Inl (EAccess Access_ErrInvalidToken)
      else (case jh_kid header of
              None \<Rightarrow> Inl (EAccess Access_ErrInvalidToken)
            | Some keyID \<Rightarrow>
                (case map_of (vc_PublicKeys config) keyID of
                   None \<Rightarrow> Inl (EAccess Access_ErrInvalidToken)
                 | Some publicKey \<Rightarrow> Inr publicKey)))"

definition acc_options :: "VerifierConfig \<Rightarrow> parse_options" where
  "acc_options config =
     \<lparr>po_methods = [alg_EdDSA], po_issuer = vc_Issuer config, po_audience = vc_Audience config,
      po_leeway = vc_Leeway config\<rparr>"

definition acc_VerifySession ::
  "jwt_library \<Rightarrow> 's Verifier \<Rightarrow> string \<Rightarrow> 's store_world \<Rightarrow>
     (err + Claims \<times> DurableSession) \<times> 's store_world" where
  "acc_VerifySession lib verifier rawToken w =
     (if length rawToken = 0 \<or> length rawToken > maximumTokenLength
      then (Inl (EAccess Access_ErrInvalidToken), w)
      else
      (case now w of (t, w1) \<Rightarrow>
      (case jwt_parse lib (acc_options (vf_config verifier)) (acc_keyfunc (vf_config verifier)) t rawToken of
         Inl _ \<Rightarrow> (Inl (EAccess Access_ErrInvalidToken), w1)
       | Inr claims \<Rightarrow>
         if blank (cl_Subject claims) \<or> blank (cl_SessionID claims) \<or> blank (cl_ID claims) \<or>
            cl_IssuedAt claims = None \<or> cl_NotBefore claims = None
         then (Inl (EAccess Access_ErrInvalidToken), w1)
         else (case on_db (vf_resolver verifier (cl_SessionID claims)) w1 of
             (Inl _, w2) \<Rightarrow> (Inl (EAccess Access_ErrInactiveSession), w2)
           | (Inr active, w2) \<Rightarrow>
               if ds_ID active \<noteq> cl_SessionID claims \<or> ds_SubjectID active \<noteq> cl_Subject claims
               then (Inl (EAccess Access_ErrInactiveSession), w2)
               else (case now w2 of (t2, w3) \<Rightarrow>
                 if \<not> durable_ActiveAt active t2 then (Inl (EAccess Access_ErrInactiveSession), w3)
                 else (Inr (claims, active), w3))))))"

definition acc_Verify ::
  "jwt_library \<Rightarrow> 's Verifier \<Rightarrow> string \<Rightarrow> 's store_world \<Rightarrow> (err + Claims) \<times> 's store_world" where
  "acc_Verify lib verifier rawToken w =
     (case acc_VerifySession lib verifier rawToken w of
        (Inl e, w1) \<Rightarrow> (Inl e, w1)
      | (Inr (claims, _), w1) \<Rightarrow> (Inr claims, w1))"

text \<open>
  What the library documents. The checks of the registered claims: issuer and audience match,
  the expiry is present and not past, the token is not used before its dates, each with the leeway.
  A token signed with a private key is accepted when the key function answers its header with the
  matching public key, the method is allowed and the checks pass; every accepted token passed the
  checks and the key function accepted some header with an allowed method.
\<close>

definition claims_checked :: "parse_options \<Rightarrow> time \<Rightarrow> Claims \<Rightarrow> bool" where
  "claims_checked opts t c \<longleftrightarrow>
     cl_Issuer c = po_issuer opts \<and> po_audience opts \<in> set (cl_Audience c) \<and>
     (case cl_ExpiresAt c of None \<Rightarrow> False | Some e \<Rightarrow> t < e + po_leeway opts) \<and>
     (case cl_NotBefore c of None \<Rightarrow> True | Some b \<Rightarrow> b \<le> t + po_leeway opts) \<and>
     (case cl_IssuedAt c of None \<Rightarrow> True | Some i \<Rightarrow> i \<le> t + po_leeway opts)"

definition jwt_documented :: "jwt_library \<Rightarrow> bool" where
  "jwt_documented lib \<longleftrightarrow>
     (\<forall>h c key raw opts keyf t.
        jwt_sign lib h c key = Inr raw \<and> keyf h = Inr (ed25519_Public key) \<and>
        jh_alg h \<in> set (po_methods opts) \<and> claims_checked opts t c \<longrightarrow>
        jwt_parse lib opts keyf t raw = Inr c) \<and>
     (\<forall>opts keyf t raw c.
        jwt_parse lib opts keyf t raw = Inr c \<longrightarrow>
        claims_checked opts t c \<and>
        (\<exists>h key. jh_alg h \<in> set (po_methods opts) \<and> keyf h = Inr key))"

section \<open>Lemmas\<close>

lemma acc_issue_store [simp]: "tw_store (snd (acc_issue lib sha is sub sid m w)) = tw_store w"
  by (simp add: acc_issue_def bindM_eq on_err_eq now_def Let_def split: sum.split prod.split)

text \<open>What an issued token promises.\<close>

lemma acc_issue_Inr:
  assumes "acc_issue lib sha issuer sub sid m w = (Inr i, w')"
  obtains t n tokenID where "t = truncate_second (clock w n)" "\<not> blank sub" "\<not> blank sid"
    "\<not> blank tokenID" "n < pos w'"
    "t < ai_ExpiresAt i" "ai_ExpiresAt i \<le> t + iss_lifetime issuer"
    "m \<noteq> 0 \<Longrightarrow> ai_ExpiresAt i \<le> m"
    "jwt_sign lib \<lparr>jh_alg = alg_EdDSA, jh_kid = Some (iss_keyID issuer)\<rparr>
       \<lparr>cl_SessionID = sid, cl_Issuer = iss_issuer issuer, cl_Subject = sub,
        cl_Audience = [iss_audience issuer], cl_ExpiresAt = Some (NumericDate (ai_ExpiresAt i)),
        cl_NotBefore = Some (NumericDate t), cl_IssuedAt = Some (NumericDate t), cl_ID = tokenID\<rparr>
       (iss_privateKey issuer) = Inr (ai_Token i)"
proof -
  obtain r w1 where g: "Generate sha w = (r, w1)" by fastforce
  have b: "\<not> blank sub" "\<not> blank sid" using assms by (auto simp: acc_issue_def split: if_splits)
  obtain tok h where r: "r = Inr (tok, h)"
    using assms g b by (cases r) (auto simp: acc_issue_def bindM_eq on_err_eq)
  have c: "clock w1 = clock w" using g by (auto simp: Generate_def bindM_eq rand_read_def split: if_splits)
  have tok: "\<not> blank tok" using g r HashToken_not_blank Generate_hash [of sha w tok h] by auto
  let ?t = "truncate_second (clock w1 (pos w1))"
  let ?wanted = "?t + iss_lifetime issuer"
  let ?e = "if m \<noteq> 0 \<and> ?wanted > m then truncate_second m else ?wanted"
  have e: "?t < ?e" using assms g r b
    by (auto simp: acc_issue_def bindM_eq on_err_eq now_def Let_def split: if_splits)
  then have i: "ai_ExpiresAt i = ?e" "jwt_sign lib \<lparr>jh_alg = alg_EdDSA, jh_kid = Some (iss_keyID issuer)\<rparr>
       \<lparr>cl_SessionID = sid, cl_Issuer = iss_issuer issuer, cl_Subject = sub,
        cl_Audience = [iss_audience issuer], cl_ExpiresAt = Some (NumericDate ?e),
        cl_NotBefore = Some (NumericDate ?t), cl_IssuedAt = Some (NumericDate ?t), cl_ID = tok\<rparr>
       (iss_privateKey issuer) = Inr (ai_Token i)" "pos w1 < pos w'"
    using assms g r b
    by (auto simp: acc_issue_def bindM_eq on_err_eq now_def Let_def split: if_splits sum.splits)
  show thesis
  proof (rule that)
    show "?t = truncate_second (clock w (pos w1))" by (simp add: c)
    show "ai_ExpiresAt i \<le> ?t + iss_lifetime issuer" "m \<noteq> 0 \<Longrightarrow> ai_ExpiresAt i \<le> m"
      using i(1) truncate_second_le [of m] by auto
    show "?t < ai_ExpiresAt i" using i(1) e by simp
  qed (use i b tok in simp_all)
qed

lemma acc_keyfunc_Inr:
  "acc_keyfunc config h = Inr key \<Longrightarrow>
     jh_alg h = alg_EdDSA \<and> (\<exists>kid. jh_kid h = Some kid \<and> map_of (vc_PublicKeys config) kid = Some key)"
  by (auto simp: acc_keyfunc_def split: if_splits option.splits)

lemma jwt_documented_accepts:
  "jwt_documented lib \<Longrightarrow> jwt_sign lib h c key = Inr raw \<Longrightarrow> keyf h = Inr (ed25519_Public key) \<Longrightarrow>
     jh_alg h \<in> set (po_methods opts) \<Longrightarrow> claims_checked opts t c \<Longrightarrow> jwt_parse lib opts keyf t raw = Inr c"
  unfolding jwt_documented_def by blast

lemma jwt_documented_parsed:
  "jwt_documented lib \<Longrightarrow> jwt_parse lib opts keyf t raw = Inr c \<Longrightarrow>
     claims_checked opts t c \<and> (\<exists>h key. jh_alg h \<in> set (po_methods opts) \<and> keyf h = Inr key)"
  unfolding jwt_documented_def by blast

text \<open>
  An issued token passes the signature and claim checks of a verifier that is configured for its
  issuer, from the instant of issue until the whole second of its expiry.
\<close>

lemma issued_token_parses:
  assumes doc: "jwt_documented lib" and i: "acc_issue lib sha issuer sub sid m w = (Inr i, w')"
    and key: "map_of (vc_PublicKeys config) (iss_keyID issuer) = Some (ed25519_Public (iss_privateKey issuer))"
    and config: "vc_Issuer config = iss_issuer issuer" "vc_Audience config = iss_audience issuer"
      "0 \<le> vc_Leeway config"
  obtains c n where "cl_SessionID c = sid" "cl_Subject c = sub" "\<not> blank sub" "\<not> blank sid"
    "\<not> blank (cl_ID c)" "cl_IssuedAt c \<noteq> None" "cl_NotBefore c \<noteq> None" "n < pos w'"
    "\<And>t. clock w n \<le> t \<Longrightarrow> t < truncate_second (ai_ExpiresAt i) \<Longrightarrow>
       jwt_parse lib (acc_options config) (acc_keyfunc config) t (ai_Token i) = Inr c"
  using i
proof (rule acc_issue_Inr)
  fix t n tokenID
  let ?h = "\<lparr>jh_alg = alg_EdDSA, jh_kid = Some (iss_keyID issuer)\<rparr>"
  let ?c = "\<lparr>cl_SessionID = sid, cl_Issuer = iss_issuer issuer, cl_Subject = sub,
        cl_Audience = [iss_audience issuer], cl_ExpiresAt = Some (NumericDate (ai_ExpiresAt i)),
        cl_NotBefore = Some (NumericDate t), cl_IssuedAt = Some (NumericDate t), cl_ID = tokenID\<rparr>"
  assume t: "t = truncate_second (clock w n)" and b: "\<not> blank sub" "\<not> blank sid" "\<not> blank tokenID" "n < pos w'"
    and sign: "jwt_sign lib ?h ?c (iss_privateKey issuer) = Inr (ai_Token i)"
  have parse: "jwt_parse lib (acc_options config) (acc_keyfunc config) u (ai_Token i) = Inr ?c"
    if u: "clock w n \<le> u" "u < truncate_second (ai_ExpiresAt i)" for u
  proof -
    have "acc_keyfunc config ?h = Inr (ed25519_Public (iss_privateKey issuer))"
      using key by (simp add: acc_keyfunc_def)
    moreover have "claims_checked (acc_options config) u ?c"
      using u config t truncate_second_le [of "clock w n"]
      by (simp add: claims_checked_def acc_options_def NumericDate_def)
    ultimately show ?thesis
      using jwt_documented_accepts [OF doc sign] by (simp add: acc_options_def)
  qed
  show thesis by (rule that [of ?c n]) (use b parse in simp_all)
qed

text \<open>What a verified token proves.\<close>

lemma acc_VerifySession_Inr:
  assumes "acc_VerifySession lib v raw w = (Inr (c, s), w')"
  shows "jwt_parse lib (acc_options (vf_config v)) (acc_keyfunc (vf_config v)) (clock w (pos w)) raw = Inr c"
    and "fst (vf_resolver v (cl_SessionID c) (tw_store w)) = Inr s"
    and "tw_store w' = snd (vf_resolver v (cl_SessionID c) (tw_store w))"
    and "ds_ID s = cl_SessionID c" and "ds_SubjectID s = cl_Subject c"
    and "\<not> blank (cl_Subject c)" and "\<not> blank (cl_SessionID c)"
    and "clock w (Suc (pos w)) < ds_ExpiresAt s"
  using assms
  by (auto simp: acc_VerifySession_def now_def on_db_def durable_ActiveAt_def
      split: if_splits sum.splits prod.splits)

end
