(* ===== verification/BearerStore.thy ===== *)
theory BearerStore
  imports Accesstoken
begin

text \<open>
  The durable side of bearer sessions: \<^verbatim>\<open>AccessSession\<close> and \<^verbatim>\<open>AccessSessionStore\<close> (src/storage.go) and
  the refresh-token store, which share one database. The abstract state is a pair of maps: access
  sessions by ID, refresh tokens by hash. The locale \<open>bearer_store\<close> states the contract that the
  comments on the two Go interfaces promise, operation by operation.
\<close>

record AccessSession =
  as_ID :: string
  as_SubjectID :: string
  as_CreatedAt :: time
  as_ExpiresAt :: time
  as_RevokedAt :: "time option"

record 's AccessSessionStore =
  at_ResolveSession :: "string \<Rightarrow> 's \<Rightarrow> (err + DurableSession) \<times> 's"
  at_CreateSession :: "AccessSession \<Rightarrow> RefreshRecord \<Rightarrow> 's \<Rightarrow> (err + unit) \<times> 's"
  at_ListBySubject :: "string \<Rightarrow> 's \<Rightarrow> (err + AccessSession list) \<times> 's"
  at_Revoke :: "string \<Rightarrow> time \<Rightarrow> 's \<Rightarrow> (err + unit) \<times> 's"
  at_RevokeAll :: "string \<Rightarrow> time \<Rightarrow> 's \<Rightarrow> (err + unit) \<times> 's"

section \<open>The contract\<close>

record bearer_db =
  access :: "string \<rightharpoonup> AccessSession"
  refresh :: "hash \<rightharpoonup> RefreshRecord"

definition bearer_keys :: "bearer_db \<Rightarrow> bool" where
  "bearer_keys m \<longleftrightarrow>
     (\<forall>i a. access m i = Some a \<longrightarrow> as_ID a = i) \<and> (\<forall>h r. refresh m h = Some r \<longrightarrow> rr_TokenHash r = h)"

definition keep_first :: "time \<Rightarrow> time option \<Rightarrow> time option" where
  "keep_first t u = (case u of None \<Rightarrow> Some t | Some v \<Rightarrow> Some v)"

definition access_revoke :: "time \<Rightarrow> AccessSession \<Rightarrow> AccessSession" where
  "access_revoke t a = a\<lparr>as_RevokedAt := keep_first t (as_RevokedAt a)\<rparr>"

definition refresh_revoke :: "time \<Rightarrow> RefreshRecord \<Rightarrow> RefreshRecord" where
  "refresh_revoke t r = r\<lparr>rr_RevokedAt := keep_first t (rr_RevokedAt r)\<rparr>"

definition durable_of :: "AccessSession \<Rightarrow> DurableSession" where
  "durable_of a = \<lparr>ds_ID = as_ID a, ds_SubjectID = as_SubjectID a, ds_CreatedAt = as_CreatedAt a,
     ds_ExpiresAt = as_ExpiresAt a\<rparr>"

text \<open>Revocation of the sessions that \<open>p\<close> selects, with all their refresh tokens.\<close>

definition revoke_where :: "(string \<Rightarrow> bool) \<Rightarrow> time \<Rightarrow> bearer_db \<Rightarrow> bearer_db" where
  "revoke_where p t m =
     \<lparr>access = (\<lambda>i. map_option (\<lambda>a. if p i then access_revoke t a else a) (access m i)),
      refresh = (\<lambda>h. map_option (\<lambda>r. if p (rr_SessionID r) then refresh_revoke t r else r) (refresh m h))\<rparr>"

definition of_subject :: "string \<Rightarrow> bearer_db \<Rightarrow> string \<Rightarrow> bool" where
  "of_subject sub m i \<longleftrightarrow> (\<exists>a. access m i = Some a \<and> as_SubjectID a = sub)"

definition spec_ref_Create :: "RefreshRecord \<Rightarrow> bearer_db \<Rightarrow> (err + unit) \<times> bearer_db" where
  "spec_ref_Create r m =
     (if rr_TokenHash r \<in> dom (refresh m) then (Inl (ERefresh Refresh_ErrConflict), m)
      else (Inr (), m\<lparr>refresh := (refresh m)(rr_TokenHash r \<mapsto> r)\<rparr>))"

definition spec_ref_Find :: "hash \<Rightarrow> bearer_db \<Rightarrow> (err + RefreshRecord) \<times> bearer_db" where
  "spec_ref_Find h m =
     ((case refresh m h of None \<Rightarrow> Inl (ERefresh Refresh_ErrNotFound) | Some r \<Rightarrow> Inr r), m)"

text \<open>Reuse, and any other inactive token, invalidates the whole session.\<close>

definition spec_ref_Rotate ::
  "hash \<Rightarrow> RefreshRecord \<Rightarrow> time \<Rightarrow> bearer_db \<Rightarrow> (err + unit) \<times> bearer_db" where
  "spec_ref_Rotate h replacement t m =
     (case refresh m h of
        None \<Rightarrow> (Inl (ERefresh Refresh_ErrNotFound), m)
      | Some r \<Rightarrow>
          if \<not> ref_ActiveAt r t
          then (Inl (ERefresh Refresh_ErrReuseDetected), revoke_where (\<lambda>i. i = rr_SessionID r) t m)
          else if rr_TokenHash replacement \<in> dom (refresh m) then (Inl (ERefresh Refresh_ErrConflict), m)
          else (Inr (), m\<lparr>refresh := (refresh m)
                  (rr_TokenHash replacement \<mapsto> replacement, h \<mapsto> r\<lparr>rr_RotatedAt := Some t\<rparr>)\<rparr>))"

definition spec_RevokeSession :: "string \<Rightarrow> time \<Rightarrow> bearer_db \<Rightarrow> (err + unit) \<times> bearer_db" where
  "spec_RevokeSession i t m = (Inr (), revoke_where (\<lambda>j. j = i) t m)"

definition spec_CreateSession ::
  "AccessSession \<Rightarrow> RefreshRecord \<Rightarrow> bearer_db \<Rightarrow> (err + unit) \<Rightarrow> bearer_db \<Rightarrow> bool" where
  "spec_CreateSession a r m res m' \<longleftrightarrow>
     res = Inr () \<and> as_ID a \<notin> dom (access m) \<and> rr_TokenHash r \<notin> dom (refresh m) \<and>
     m' = m\<lparr>access := (access m)(as_ID a \<mapsto> a), refresh := (refresh m)(rr_TokenHash r \<mapsto> r)\<rparr>"

definition spec_ResolveSession ::
  "string \<Rightarrow> bearer_db \<Rightarrow> (err + DurableSession) \<Rightarrow> bearer_db \<Rightarrow> bool" where
  "spec_ResolveSession i m res m' \<longleftrightarrow>
     m' = m \<and>
     (case res of
        Inl e \<Rightarrow> e = EAccess Access_ErrInactiveSession
      | Inr s \<Rightarrow> \<exists>a. access m i = Some a \<and> as_RevokedAt a = None \<and> s = durable_of a)"

definition spec_ListAccess ::
  "string \<Rightarrow> bearer_db \<Rightarrow> (err + AccessSession list) \<Rightarrow> bearer_db \<Rightarrow> bool" where
  "spec_ListAccess sub m res m' \<longleftrightarrow>
     m' = m \<and> (\<exists>as. res = Inr as \<and> set as = {a \<in> ran (access m). as_SubjectID a = sub} \<and>
       distinct as \<and> sorted_wrt (\<lambda>a b. as_CreatedAt b \<le> as_CreatedAt a) as)"

definition spec_RevokeAllAccess :: "string \<Rightarrow> time \<Rightarrow> bearer_db \<Rightarrow> (err + unit) \<times> bearer_db" where
  "spec_RevokeAllAccess sub t m = (Inr (), revoke_where (of_subject sub m) t m)"

locale bearer_store =
  fixes rst :: "'s RefreshStore"
    and ast :: "'s AccessSessionStore"
    and view :: "'s \<Rightarrow> bearer_db"
    and ok :: "'s \<Rightarrow> bool"
  assumes ok_view: "ok s \<Longrightarrow> bearer_keys (view s)"
    and ref_create: "implements view ok (rs_Create rst r) (fun_spec (spec_ref_Create r))"
    and ref_find: "implements view ok (rs_FindByTokenHash rst h) (fun_spec (spec_ref_Find h))"
    and ref_rotate: "rr_RotatedAt r = None \<Longrightarrow> rr_RevokedAt r = None \<Longrightarrow>
       implements view ok (rs_Rotate rst h r t) (fun_spec (spec_ref_Rotate h r t))"
    and ref_revoke: "implements view ok (rs_RevokeSession rst i t) (fun_spec (spec_RevokeSession i t))"
    and create_session: "rr_SessionID r = as_ID a \<Longrightarrow>
       implements view ok (at_CreateSession ast a r) (spec_CreateSession a r)"
    and resolve_session: "implements view ok (at_ResolveSession ast i) (spec_ResolveSession i)"
    and list_access: "implements view ok (at_ListBySubject ast sub) (spec_ListAccess sub)"
    and revoke_access: "implements view ok (at_Revoke ast i t) (fun_spec (spec_RevokeSession i t))"
    and revoke_all_access:
       "implements view ok (at_RevokeAll ast sub t) (fun_spec (spec_RevokeAllAccess sub t))"

section \<open>What every operation preserves\<close>

text \<open>
  A family is an access session with its refresh tokens. \<open>families\<close> is the invariant of bearer
  sessions: every refresh token belongs to a stored session and expires with it (never at the zero time, which
  \<^verbatim>\<open>newIssued\<close> reads as "no expiry given"), a revoked session
  has only revoked tokens, and at most one token per session is live.
\<close>

definition live :: "RefreshRecord \<Rightarrow> bool" where
  "live r \<longleftrightarrow> rr_RotatedAt r = None \<and> rr_RevokedAt r = None"

definition families :: "bearer_db \<Rightarrow> bool" where
  "families m \<longleftrightarrow>
     (\<forall>h r. refresh m h = Some r \<longrightarrow>
        (\<exists>a. access m (rr_SessionID r) = Some a \<and> rr_ExpiresAt r = as_ExpiresAt a \<and> rr_ExpiresAt r \<noteq> 0 \<and>
           (as_RevokedAt a \<noteq> None \<longrightarrow> rr_RevokedAt r \<noteq> None))) \<and>
     (\<forall>h k r q. refresh m h = Some r \<and> refresh m k = Some q \<and> live r \<and> live q \<and>
        rr_SessionID r = rr_SessionID q \<longrightarrow> h = k)"

text \<open>Identity, lifetime and revocation are permanent; so is the use of a refresh token.\<close>

definition access_later :: "AccessSession \<Rightarrow> AccessSession \<Rightarrow> bool" where
  "access_later a b \<longleftrightarrow>
     as_ID b = as_ID a \<and> as_SubjectID b = as_SubjectID a \<and> as_CreatedAt b = as_CreatedAt a \<and>
     as_ExpiresAt b = as_ExpiresAt a \<and> (as_RevokedAt a \<noteq> None \<longrightarrow> as_RevokedAt b = as_RevokedAt a)"

definition refresh_later :: "RefreshRecord \<Rightarrow> RefreshRecord \<Rightarrow> bool" where
  "refresh_later r q \<longleftrightarrow>
     rr_SessionID q = rr_SessionID r \<and> rr_TokenHash q = rr_TokenHash r \<and>
     rr_CreatedAt q = rr_CreatedAt r \<and> rr_ExpiresAt q = rr_ExpiresAt r \<and>
     (rr_RotatedAt r \<noteq> None \<longrightarrow> rr_RotatedAt q = rr_RotatedAt r) \<and>
     (rr_RevokedAt r \<noteq> None \<longrightarrow> rr_RevokedAt q = rr_RevokedAt r)"

definition bearer_evolves :: "bearer_db \<Rightarrow> bearer_db \<Rightarrow> bool" where
  "bearer_evolves m n \<longleftrightarrow>
     (\<forall>i a. access m i = Some a \<longrightarrow> (\<exists>b. access n i = Some b \<and> access_later a b)) \<and>
     (\<forall>h r. refresh m h = Some r \<longrightarrow> (\<exists>q. refresh n h = Some q \<and> refresh_later r q))"

lemma bearer_evolves_refl [simp]: "bearer_evolves m m"
  by (simp add: bearer_evolves_def access_later_def refresh_later_def)

lemma access_later_trans: "access_later a b \<Longrightarrow> access_later b c \<Longrightarrow> access_later a c"
  by (auto simp: access_later_def)

lemma refresh_later_trans: "refresh_later a b \<Longrightarrow> refresh_later b c \<Longrightarrow> refresh_later a c"
  by (auto simp: refresh_later_def)

lemma bearer_evolves_access:
  "bearer_evolves m n \<Longrightarrow> access m i = Some a \<Longrightarrow> \<exists>b. access n i = Some b \<and> access_later a b"
  by (simp add: bearer_evolves_def)

lemma bearer_evolves_refresh:
  "bearer_evolves m n \<Longrightarrow> refresh m h = Some r \<Longrightarrow> \<exists>q. refresh n h = Some q \<and> refresh_later r q"
  by (simp add: bearer_evolves_def)

lemma bearer_evolves_trans:
  assumes mn: "bearer_evolves m n" and np: "bearer_evolves n p"
  shows "bearer_evolves m p"
  unfolding bearer_evolves_def
proof (intro conjI allI impI)
  fix i a assume "access m i = Some a"
  from bearer_evolves_access [OF mn this] obtain b where b: "access n i = Some b" "access_later a b" by blast
  from bearer_evolves_access [OF np b(1)] show "\<exists>b. access p i = Some b \<and> access_later a b"
    using b(2) access_later_trans by blast
next
  fix h r assume "refresh m h = Some r"
  from bearer_evolves_refresh [OF mn this] obtain q where q: "refresh n h = Some q" "refresh_later r q" by blast
  from bearer_evolves_refresh [OF np q(1)] show "\<exists>q. refresh p h = Some q \<and> refresh_later r q"
    using q(2) refresh_later_trans by blast
qed

lemma families_access:
  "families m \<Longrightarrow> refresh m h = Some r \<Longrightarrow>
     \<exists>a. access m (rr_SessionID r) = Some a \<and> rr_ExpiresAt r = as_ExpiresAt a \<and> rr_ExpiresAt r \<noteq> 0 \<and>
       (as_RevokedAt a \<noteq> None \<longrightarrow> rr_RevokedAt r \<noteq> None)"
  unfolding families_def by blast

lemma families_live:
  "families m \<Longrightarrow> refresh m h = Some r \<Longrightarrow> refresh m k = Some q \<Longrightarrow> live r \<Longrightarrow> live q \<Longrightarrow>
     rr_SessionID r = rr_SessionID q \<Longrightarrow> h = k"
  unfolding families_def by blast

lemma keep_first_simps [simp]:
  "keep_first t None = Some t" "keep_first t (Some u) = Some u" "keep_first t v \<noteq> None"
  by (simp_all add: keep_first_def split: option.split)

lemma revoke_where_revokes:
  "of_subject sub m i \<Longrightarrow> p i \<Longrightarrow> \<exists>a. access (revoke_where p t m) i = Some a \<and> as_RevokedAt a \<noteq> None"
proof -
  assume "of_subject sub m i" and p: "p i"
  then obtain a where "access m i = Some a" by (auto simp: of_subject_def)
  then have "access (revoke_where p t m) i = Some (access_revoke t a)" using p by (simp add: revoke_where_def)
  moreover have "as_RevokedAt (access_revoke t a) \<noteq> None"
    by (simp add: access_revoke_def keep_first_def split: option.split)
  ultimately show ?thesis by blast
qed

lemma revoke_where_evolves: "bearer_evolves m (revoke_where p t m)"
  by (auto simp: bearer_evolves_def revoke_where_def access_later_def refresh_later_def
      access_revoke_def refresh_revoke_def keep_first_def split: option.splits)

lemma revoke_where_families:
  assumes "families m"
  shows "families (revoke_where p t m)"
  unfolding families_def
proof (intro conjI allI impI)
  fix h r assume "refresh (revoke_where p t m) h = Some r"
  then obtain q where q: "refresh m h = Some q" "r = (if p (rr_SessionID q) then refresh_revoke t q else q)"
    by (auto simp: revoke_where_def)
  obtain a where a: "access m (rr_SessionID q) = Some a" "rr_ExpiresAt q = as_ExpiresAt a" "rr_ExpiresAt q \<noteq> 0"
    "as_RevokedAt a \<noteq> None \<longrightarrow> rr_RevokedAt q \<noteq> None"
    using families_access [OF assms q(1)] by blast
  show "\<exists>a. access (revoke_where p t m) (rr_SessionID r) = Some a \<and> rr_ExpiresAt r = as_ExpiresAt a \<and> rr_ExpiresAt r \<noteq> 0 \<and>
      (as_RevokedAt a \<noteq> None \<longrightarrow> rr_RevokedAt r \<noteq> None)"
    using q(2) a by (auto simp: revoke_where_def refresh_revoke_def access_revoke_def)
next
  fix h k r q
  assume x: "refresh (revoke_where p t m) h = Some r \<and> refresh (revoke_where p t m) k = Some q \<and>
    live r \<and> live q \<and> rr_SessionID r = rr_SessionID q"
  obtain r0 where r0: "refresh m h = Some r0" "r = (if p (rr_SessionID r0) then refresh_revoke t r0 else r0)"
    using x by (auto simp: revoke_where_def)
  obtain q0 where q0: "refresh m k = Some q0" "q = (if p (rr_SessionID q0) then refresh_revoke t q0 else q0)"
    using x by (auto simp: revoke_where_def)
  have "live r0" "live q0" "rr_SessionID r0 = rr_SessionID q0"
    using x r0(2) q0(2) by (auto simp: live_def refresh_revoke_def split: if_splits)
  then show "h = k" using families_live [OF assms r0(1) q0(1)] by blast
qed

lemma spec_ref_Rotate_cases:
  assumes "spec_ref_Rotate h n t m = (res, m')"
  obtains (missing) "refresh m h = None" "res = Inl (ERefresh Refresh_ErrNotFound)" "m' = m"
  | (reuse) r where "refresh m h = Some r" "\<not> ref_ActiveAt r t"
      "res = Inl (ERefresh Refresh_ErrReuseDetected)" "m' = revoke_where (\<lambda>i. i = rr_SessionID r) t m"
  | (conflict) r where "refresh m h = Some r" "res = Inl (ERefresh Refresh_ErrConflict)" "m' = m"
      "rr_TokenHash n \<in> dom (refresh m)"
  | (rotated) r where "refresh m h = Some r" "ref_ActiveAt r t" "rr_TokenHash n \<notin> dom (refresh m)"
      "rr_TokenHash n \<noteq> h" "res = Inr ()"
      "m' = m\<lparr>refresh := (refresh m)(rr_TokenHash n \<mapsto> n, h \<mapsto> r\<lparr>rr_RotatedAt := Some t\<rparr>)\<rparr>"
proof (cases "refresh m h")
  case None
  then show thesis using assms by (intro missing) (simp_all add: spec_ref_Rotate_def)
next
  case r: (Some r)
  consider "\<not> ref_ActiveAt r t" | "ref_ActiveAt r t" "rr_TokenHash n \<in> dom (refresh m)"
    | "ref_ActiveAt r t" "rr_TokenHash n \<notin> dom (refresh m)" by blast
  then show thesis
  proof cases
    case 1
    then show thesis using assms r by (intro reuse [OF r]) (simp_all add: spec_ref_Rotate_def)
  next
    case 2
    then show thesis using assms r by (intro conflict [OF r]) (auto simp: spec_ref_Rotate_def)
  next
    case 3
    then have "rr_TokenHash n \<noteq> h" using r by auto
    then show thesis using assms r 3 by (intro rotated [OF r]) (simp_all add: spec_ref_Rotate_def)
  qed
qed

lemma spec_ref_Rotate_evolves:
  assumes "spec_ref_Rotate h r t m = (res, m')"
  shows "bearer_evolves m m'"
  using assms
proof (cases rule: spec_ref_Rotate_cases)
  case (reuse q)
  then show ?thesis by (simp add: revoke_where_evolves)
next
  case (rotated q)
  then show ?thesis
    by (auto simp: bearer_evolves_def access_later_def refresh_later_def ref_ActiveAt_def)
qed simp_all

lemma spec_ref_Rotate_families:
  assumes f: "families m" and r: "spec_ref_Rotate h n t m = (res, m')"
    and n: "\<And>q. refresh m h = Some q \<Longrightarrow> rr_SessionID n = rr_SessionID q \<and> rr_ExpiresAt n = rr_ExpiresAt q"
  shows "families m'"
  using r
proof (cases rule: spec_ref_Rotate_cases)
  case (reuse q)
  then show ?thesis using revoke_where_families [OF f] by simp
next
  case (rotated q)
  note q = rotated(1-3,6)
  note nq = n [OF q(1)]
  obtain a where a: "access m (rr_SessionID q) = Some a" "rr_ExpiresAt q = as_ExpiresAt a" "rr_ExpiresAt q \<noteq> 0"
    "as_RevokedAt a \<noteq> None \<longrightarrow> rr_RevokedAt q \<noteq> None"
    using families_access [OF f q(1)] by blast
  have live_q: "live q" and rev: "as_RevokedAt a = None"
    using q(2) a(4) by (auto simp: live_def ref_ActiveAt_def)
  have uniq: "k = h" if "refresh m k = Some x" "live x" "rr_SessionID x = rr_SessionID q" for k x
    using families_live [OF f that(1) q(1) that(2) live_q that(3)] .
  show ?thesis
    unfolding families_def
  proof (intro conjI allI impI)
    fix k x assume "refresh m' k = Some x"
    then have "k = h \<and> x = q\<lparr>rr_RotatedAt := Some t\<rparr> \<or> k = rr_TokenHash n \<and> x = n \<or> refresh m k = Some x"
      using q(4) by (auto split: if_splits)
    then show "\<exists>a. access m' (rr_SessionID x) = Some a \<and> rr_ExpiresAt x = as_ExpiresAt a \<and> rr_ExpiresAt x \<noteq> 0 \<and>
        (as_RevokedAt a \<noteq> None \<longrightarrow> rr_RevokedAt x \<noteq> None)"
      using a nq rev families_access [OF f] q(4) by (elim disjE) auto
  next
    fix k l x y
    assume x: "refresh m' k = Some x \<and> refresh m' l = Some y \<and> live x \<and> live y \<and>
      rr_SessionID x = rr_SessionID y"
    have c: "k = rr_TokenHash n \<and> x = n \<or> k \<noteq> h \<and> refresh m k = Some x"
      "l = rr_TokenHash n \<and> y = n \<or> l \<noteq> h \<and> refresh m l = Some y"
      using x q(4) by (auto simp: live_def split: if_splits)
    then show "k = l"
    proof (elim disjE conjE)
      assume "k = rr_TokenHash n" "l = rr_TokenHash n" then show ?thesis by simp
    next
      assume "x = n" "l \<noteq> h" "refresh m l = Some y"
      then show ?thesis using uniq [of l y] x nq by simp
    next
      assume "y = n" "k \<noteq> h" "refresh m k = Some x"
      then show ?thesis using uniq [of k x] x nq by simp
    next
      assume "refresh m k = Some x" "refresh m l = Some y"
      then show ?thesis using families_live [OF f] x by blast
    qed
  qed
qed (use f in simp_all)

lemma spec_CreateSession_evolves:
  "spec_CreateSession a r m res m' \<Longrightarrow> bearer_evolves m m'"
  by (auto simp: spec_CreateSession_def bearer_evolves_def access_later_def refresh_later_def)

lemma spec_CreateSession_families:
  assumes f: "families m" and c: "spec_CreateSession a r m res m'"
    and r: "rr_SessionID r = as_ID a" "rr_ExpiresAt r = as_ExpiresAt a" "as_RevokedAt a = None"
      "rr_ExpiresAt r \<noteq> 0"
  shows "families m'"
proof -
  have m': "m' = m\<lparr>access := (access m)(as_ID a \<mapsto> a), refresh := (refresh m)(rr_TokenHash r \<mapsto> r)\<rparr>"
    and new: "access m (as_ID a) = None"
    using c by (auto simp: spec_CreateSession_def)
  have old: "rr_SessionID x \<noteq> as_ID a" if "refresh m k = Some x" for k x
    using families_access [OF f that] new by auto
  show ?thesis
    unfolding families_def
  proof (intro conjI allI impI)
    fix k x assume "refresh m' k = Some x"
    then have "x = r \<or> refresh m k = Some x" using m' by (auto split: if_splits)
    then show "\<exists>a. access m' (rr_SessionID x) = Some a \<and> rr_ExpiresAt x = as_ExpiresAt a \<and> rr_ExpiresAt x \<noteq> 0 \<and>
        (as_RevokedAt a \<noteq> None \<longrightarrow> rr_RevokedAt x \<noteq> None)"
    proof
      assume "refresh m k = Some x"
      then show ?thesis using families_access [OF f] m' old [of k x] by auto
    qed (use r m' in simp)
  next
    fix k l x y
    assume x: "refresh m' k = Some x \<and> refresh m' l = Some y \<and> live x \<and> live y \<and>
      rr_SessionID x = rr_SessionID y"
    have "k = rr_TokenHash r \<and> x = r \<or> refresh m k = Some x" "l = rr_TokenHash r \<and> y = r \<or> refresh m l = Some y"
      using x m' by (auto split: if_splits)
    then show "k = l"
    proof (elim disjE conjE)
      assume "k = rr_TokenHash r" "l = rr_TokenHash r" then show ?thesis by simp
    next
      assume "x = r" "refresh m l = Some y" then show ?thesis using old [of l y] x r(1) by simp
    next
      assume "y = r" "refresh m k = Some x" then show ?thesis using old [of k x] x r(1) by simp
    next
      assume "refresh m k = Some x" "refresh m l = Some y"
      then show ?thesis using families_live [OF f] x by blast
    qed
  qed
qed

end
