(* ===== verification/TokenSession.thy ===== *)
theory TokenSession
  imports BearerStore
begin

text \<open>
  The bearer session manager (src/token_session.go): a durable access session, a signed access
  token that names it, and a rotating refresh token. \<open>bearer_do\<close> and \<open>bearer_run\<close> are the runs of its
  methods. The lemmas in the context of \<open>bearer_store\<close> show that every run keeps the invariant
  \<open>families\<close> and only lets the durable state evolve.
\<close>

record Session =
  se_ID :: string
  se_SubjectID :: string
  se_CreatedAt :: time
  se_ExpiresAt :: time

record BearerSessionConfig =
  bc_Issuer :: string
  bc_Audience :: string
  bc_AccessTokenLifetime :: duration
  bc_RefreshTokenLifetime :: duration
  bc_KeyID :: string
  bc_PrivateKey :: string
  bc_PublicKeys :: "(string \<times> string) list"
  bc_Leeway :: duration

record 's bearerSessionManager =
  bm_store :: "'s AccessSessionStore"
  bm_issuer :: AccessIssuer
  bm_verifier :: "'s Verifier"
  bm_refreshTokens :: "'s RefreshManager"
  bm_refreshLifetime :: duration

record bearerSessionIssued =
  bi_Session :: Session
  bi_AccessToken :: string
  bi_AccessTokenExpiresAt :: time
  bi_RefreshToken :: string
  bi_RefreshTokenExpiresAt :: time

definition session_of :: "DurableSession \<Rightarrow> Session" where
  "session_of d = \<lparr>se_ID = ds_ID d, se_SubjectID = ds_SubjectID d, se_CreatedAt = ds_CreatedAt d,
     se_ExpiresAt = ds_ExpiresAt d\<rparr>"

text \<open>The verification keys: the configured ones, and the public half of the signing key.\<close>

definition bearer_publicKeys :: "BearerSessionConfig \<Rightarrow> (string \<times> string) list" where
  "bearer_publicKeys config =
     (if length (bc_PrivateKey config) = 64 \<and> \<not> blank (bc_KeyID config)
      then (bc_KeyID config, ed25519_Public (bc_PrivateKey config)) #
             filter (\<lambda>(k, _). k \<noteq> bc_KeyID config) (bc_PublicKeys config)
      else bc_PublicKeys config)"

definition newBearerSessionManager ::
  "'s AccessSessionStore \<Rightarrow> 's RefreshStore \<Rightarrow> BearerSessionConfig \<Rightarrow> err + 's bearerSessionManager" where
  "newBearerSessionManager store refreshStore config =
     (if bc_RefreshTokenLifetime config \<le> bc_AccessTokenLifetime config
      then Inl (EWrap ''refresh token lifetime must exceed access token lifetime''
             (EAuthlier Authlier_ErrInvalidConfig))
      else
      (case acc_NewIssuer \<lparr>iss_issuer = bc_Issuer config, iss_audience = bc_Audience config,
              iss_lifetime = bc_AccessTokenLifetime config, iss_keyID = bc_KeyID config,
              iss_privateKey = bc_PrivateKey config\<rparr> of
         Inl _ \<Rightarrow> Inl (EWrap ''invalid bearer token issuer'' (EAuthlier Authlier_ErrInvalidConfig))
       | Inr issuer \<Rightarrow>
      (case acc_NewVerifier (Some (at_ResolveSession store))
              \<lparr>vc_Issuer = bc_Issuer config, vc_Audience = bc_Audience config,
               vc_PublicKeys = bearer_publicKeys config, vc_Leeway = bc_Leeway config\<rparr> of
         Inl _ \<Rightarrow> Inl (EWrap ''invalid bearer token verifier'' (EAuthlier Authlier_ErrInvalidConfig))
       | Inr verifier \<Rightarrow>
      (case ref_NewManager (Some refreshStore) (bc_RefreshTokenLifetime config) of
         Inl _ \<Rightarrow> Inl (EWrap ''invalid refresh token configuration'' (EAuthlier Authlier_ErrInvalidConfig))
       | Inr refreshTokens \<Rightarrow>
           Inr \<lparr>bm_store = store, bm_issuer = issuer, bm_verifier = verifier,
                bm_refreshTokens = refreshTokens,
                bm_refreshLifetime = bc_RefreshTokenLifetime config\<rparr>))))"

definition bearer_Create ::
  "jwt_library \<Rightarrow> (string \<Rightarrow> hash) \<Rightarrow> 's bearerSessionManager \<Rightarrow> string \<Rightarrow> 's store_world \<Rightarrow>
     (err + bearerSessionIssued) \<times> 's store_world" where
  "bearer_Create lib sha mgr subjectID w =
     (if blank subjectID then (Inl (ENew ''create bearer session: subject ID is required''), w)
      else
       bindM (on_err (EWrap ''generate bearer session ID'') uuid_NewV7) (\<lambda>sessionID.
       bindM read_clock (\<lambda>reading.
       let t = truncate_second reading;
           session = \<lparr>as_ID = sessionID, as_SubjectID = subjectID, as_CreatedAt = t,
             as_ExpiresAt = t + bm_refreshLifetime mgr, as_RevokedAt = None\<rparr>
       in
       bindM (on_err (EWrap ''generate refresh token'') (Generate sha)) (\<lambda>(rawRefreshToken, refreshHash).
       let refreshRecord = \<lparr>rr_SessionID = sessionID, rr_TokenHash = refreshHash, rr_CreatedAt = t,
             rr_ExpiresAt = as_ExpiresAt session, rr_RotatedAt = None, rr_RevokedAt = None\<rparr>
       in
       bindM (on_err (EWrap ''issue access token'')
                (acc_IssueUntil lib sha (bm_issuer mgr) subjectID sessionID (as_ExpiresAt session)))
         (\<lambda>accessToken.
       bindM (on_err (EWrap ''create bearer session'')
                (on_db (at_CreateSession (bm_store mgr) session refreshRecord))) (\<lambda>_.
       retM (Inr
         \<lparr>bi_Session = session_of (durable_of session),
          bi_AccessToken = ai_Token accessToken, bi_AccessTokenExpiresAt = ai_ExpiresAt accessToken,
          bi_RefreshToken = rawRefreshToken,
          bi_RefreshTokenExpiresAt = rr_ExpiresAt refreshRecord\<rparr>)))))) w)"

definition bearer_Refresh ::
  "jwt_library \<Rightarrow> (string \<Rightarrow> hash) \<Rightarrow> 's bearerSessionManager \<Rightarrow> string \<Rightarrow> 's store_world \<Rightarrow>
     (err + bearerSessionIssued) \<times> 's store_world" where
  "bearer_Refresh lib sha mgr rawRefreshToken w =
     (case ref_Resolve sha (bm_refreshTokens mgr) rawRefreshToken w of
        (Inl e, w1) \<Rightarrow>
          if errors_is e (ERefresh Refresh_ErrInactive)
          then (case ref_Rotate sha (bm_refreshTokens mgr) rawRefreshToken w1 of
                  (Inl rotationErr, w2) \<Rightarrow> (Inl rotationErr, w2)
                | (Inr _, w2) \<Rightarrow> (Inl e, w2))
          else (Inl e, w1)
      | (Inr current, w1) \<Rightarrow>
      (case on_db (at_ResolveSession (bm_store mgr) (rr_SessionID current)) w1 of
        (Inl _, w2) \<Rightarrow> (Inl (EAccess Access_ErrInactiveSession), w2)
      | (Inr durable, w2) \<Rightarrow>
        if ds_ID durable \<noteq> rr_SessionID current then (Inl (EAccess Access_ErrInactiveSession), w2)
        else
        (case now w2 of (t, w3) \<Rightarrow>
        if \<not> durable_ActiveAt durable t then (Inl (EAccess Access_ErrInactiveSession), w3)
        else
          bindM (acc_IssueUntil lib sha (bm_issuer mgr) (ds_SubjectID durable) (ds_ID durable)
                   (ds_ExpiresAt durable)) (\<lambda>accessToken.
          bindM (ref_Rotate sha (bm_refreshTokens mgr) rawRefreshToken) (\<lambda>replacement.
          retM (Inr
            \<lparr>bi_Session = session_of durable,
             bi_AccessToken = ai_Token accessToken, bi_AccessTokenExpiresAt = ai_ExpiresAt accessToken,
             bi_RefreshToken = ri_Token replacement,
             bi_RefreshTokenExpiresAt = rr_ExpiresAt (ri_Record replacement)\<rparr>))) w3)))"

definition bearer_Resolve ::
  "jwt_library \<Rightarrow> 's bearerSessionManager \<Rightarrow> string \<Rightarrow> 's store_world \<Rightarrow> (err + Session) \<times> 's store_world" where
  "bearer_Resolve lib mgr rawAccessToken =
     bindM (acc_VerifySession lib (bm_verifier mgr) rawAccessToken)
       (\<lambda>(_, durable). retM (Inr (session_of durable)))"

text \<open>\<^verbatim>\<open>List\<close> shows the sessions that are neither revoked nor expired.\<close>

definition bearer_List ::
  "'s bearerSessionManager \<Rightarrow> string \<Rightarrow> 's store_world \<Rightarrow> (err + Session list) \<times> 's store_world" where
  "bearer_List mgr subjectID =
     bindM (on_db (at_ListBySubject (bm_store mgr) subjectID)) (\<lambda>records.
     bindM read_clock (\<lambda>t.
     retM (Inr (map (\<lambda>a. session_of (durable_of a))
       (filter (\<lambda>a. as_RevokedAt a = None \<and> t < as_ExpiresAt a) records)))))"

definition bearer_Revoke ::
  "'s bearerSessionManager \<Rightarrow> string \<Rightarrow> 's store_world \<Rightarrow> (err + unit) \<times> 's store_world" where
  "bearer_Revoke mgr sessionID = ref_RevokeSessionID (bm_refreshTokens mgr) sessionID"

definition bearer_RevokeByRefreshToken ::
  "(string \<Rightarrow> hash) \<Rightarrow> 's bearerSessionManager \<Rightarrow> string \<Rightarrow> 's store_world \<Rightarrow> (err + unit) \<times> 's store_world" where
  "bearer_RevokeByRefreshToken sha mgr rawRefreshToken =
     ref_RevokeSession sha (bm_refreshTokens mgr) rawRefreshToken"

definition bearer_RevokeByID ::
  "'s bearerSessionManager \<Rightarrow> string \<Rightarrow> string \<Rightarrow> 's store_world \<Rightarrow> (err + unit) \<times> 's store_world" where
  "bearer_RevokeByID mgr subjectID sessionID =
     bindM (on_db (at_ListBySubject (bm_store mgr) subjectID)) (\<lambda>records.
       if list_ex (\<lambda>a. as_ID a = sessionID) records then bearer_Revoke mgr sessionID
       else retM (Inl (ERefresh Refresh_ErrNotFound)))"

definition bearer_RevokeAll ::
  "'s bearerSessionManager \<Rightarrow> string \<Rightarrow> 's store_world \<Rightarrow> (err + unit) \<times> 's store_world" where
  "bearer_RevokeAll mgr subjectID =
     bindM read_clock (\<lambda>t. on_db (at_RevokeAll (bm_store mgr) subjectID t))"

datatype bearer_call =
    BearerCreate string
  | BearerRefresh string
  | BearerResolve string
  | BearerList string
  | BearerRevoke string
  | BearerRevokeByRefreshToken string
  | BearerRevokeByID string string
  | BearerRevokeAll string

fun bearer_do ::
  "jwt_library \<Rightarrow> (string \<Rightarrow> hash) \<Rightarrow> 's bearerSessionManager \<Rightarrow> bearer_call \<Rightarrow> 's store_world \<Rightarrow>
     's store_world" where
  "bearer_do lib sha mgr (BearerCreate sub) w = snd (bearer_Create lib sha mgr sub w)"
| "bearer_do lib sha mgr (BearerRefresh raw) w = snd (bearer_Refresh lib sha mgr raw w)"
| "bearer_do lib sha mgr (BearerResolve raw) w = snd (bearer_Resolve lib mgr raw w)"
| "bearer_do lib sha mgr (BearerList sub) w = snd (bearer_List mgr sub w)"
| "bearer_do lib sha mgr (BearerRevoke i) w = snd (bearer_Revoke mgr i w)"
| "bearer_do lib sha mgr (BearerRevokeByRefreshToken raw) w =
     snd (bearer_RevokeByRefreshToken sha mgr raw w)"
| "bearer_do lib sha mgr (BearerRevokeByID sub i) w = snd (bearer_RevokeByID mgr sub i w)"
| "bearer_do lib sha mgr (BearerRevokeAll sub) w = snd (bearer_RevokeAll mgr sub w)"

fun bearer_run ::
  "jwt_library \<Rightarrow> (string \<Rightarrow> hash) \<Rightarrow> 's bearerSessionManager \<Rightarrow> bearer_call list \<Rightarrow> 's store_world \<Rightarrow>
     's store_world" where
  "bearer_run lib sha mgr [] w = w"
| "bearer_run lib sha mgr (x # xs) w = bearer_run lib sha mgr xs (bearer_do lib sha mgr x w)"

text \<open>A manager over the given stores, as \<^verbatim>\<open>newBearerSessionManager\<close> builds it.\<close>

definition bearer_service ::
  "'s RefreshStore \<Rightarrow> 's AccessSessionStore \<Rightarrow> 's bearerSessionManager \<Rightarrow> bool" where
  "bearer_service rst ast mgr \<longleftrightarrow>
     bm_store mgr = ast \<and> rm_store (bm_refreshTokens mgr) = rst \<and>
     vf_resolver (bm_verifier mgr) = at_ResolveSession ast \<and> 0 < bm_refreshLifetime mgr"

text \<open>
  \<open>bearer_safe\<close>: the durable state evolved, and the invariant \<open>families\<close> was kept if the clock is
  past Go's zero time by at least a second.
\<close>

definition bearer_safe ::
  "('s \<Rightarrow> bearer_db) \<Rightarrow> ('s \<Rightarrow> bool) \<Rightarrow> 's store_world \<Rightarrow> 's store_world \<Rightarrow> bool" where
  "bearer_safe view ok w w' \<longleftrightarrow>
     (ok (tw_store w) \<longrightarrow>
        clock w' = clock w \<and> ok (tw_store w') \<and> bearer_evolves (view (tw_store w)) (view (tw_store w')) \<and>
        ((\<forall>n. 0 < clock w n) \<and> families (view (tw_store w)) \<longrightarrow> families (view (tw_store w'))))"

text \<open>
  The effect of a rotation of the token with hash \<open>h\<close> and record \<open>q\<close>, as a relation between the
  durable states before and after it.
\<close>

definition rotated_token ::
  "(string \<Rightarrow> hash) \<Rightarrow> bearer_db \<Rightarrow> hash \<Rightarrow> RefreshRecord \<Rightarrow> (nat \<Rightarrow> time) \<Rightarrow> err + RefreshIssued \<Rightarrow>
     bearer_db \<Rightarrow> bool" where
  "rotated_token sha m h q clk res m' \<longleftrightarrow>
     (case res of
        Inr i \<Rightarrow> (\<exists>n. ref_ActiveAt q (clk n) \<and>
          HashToken sha (ri_Token i) = Inr (rr_TokenHash (ri_Record i)) \<and>
          refresh m (rr_TokenHash (ri_Record i)) = None \<and> live (ri_Record i) \<and>
          rr_SessionID (ri_Record i) = rr_SessionID q \<and> rr_ExpiresAt (ri_Record i) = rr_ExpiresAt q \<and>
          m' = m\<lparr>refresh := (refresh m)
            (rr_TokenHash (ri_Record i) \<mapsto> ri_Record i, h \<mapsto> q\<lparr>rr_RotatedAt := Some (clk n)\<rparr>)\<rparr>)
      | Inl e \<Rightarrow>
          (if errors_is e (ERefresh Refresh_ErrReuseDetected)
           then \<exists>n. \<not> ref_ActiveAt q (clk n) \<and> m' = revoke_where (\<lambda>i. i = rr_SessionID q) (clk n) m
           else m' = m))"

section \<open>Lemmas\<close>

lemma newBearerSessionManager_service:
  assumes "newBearerSessionManager ast rst config = Inr mgr"
  shows "bearer_service rst ast mgr"
  using assms
  by (auto simp: newBearerSessionManager_def acc_NewVerifier_def ref_NewManager_def bearer_service_def
      split: if_splits sum.splits)

lemma bearer_safe_refl [simp]: "bearer_safe view ok w w"
  by (simp add: bearer_safe_def)

lemma bearer_safe_trans:
  "bearer_safe view ok w w1 \<Longrightarrow> bearer_safe view ok w1 w2 \<Longrightarrow> bearer_safe view ok w w2"
  unfolding bearer_safe_def using bearer_evolves_trans by metis

lemma bearer_safe_frame:
  "tw_store w' = tw_store w \<Longrightarrow> clock w' = clock w \<Longrightarrow> bearer_safe view ok w w'"
  by (simp add: bearer_safe_def)

lemma bearer_safe_bindM:
  assumes "bearer_safe view ok w (snd (m w))"
    and "\<And>v w1. m w = (Inr v, w1) \<Longrightarrow> bearer_safe view ok w1 (snd (k v w1))"
  shows "bearer_safe view ok w (snd (bindM m k w))"
proof -
  obtain r w1 where 1: "m w = (r, w1)" by fastforce
  show ?thesis
  proof (cases r)
    case (Inr v)
    then show ?thesis using assms(1) assms(2) [of v w1] 1 bearer_safe_trans [of view ok w w1]
      by (simp add: bindM_eq)
  qed (use assms(1) 1 in \<open>simp add: bindM_eq\<close>)
qed

lemma bearer_safe_on_err:
  "bearer_safe view ok w (snd (m w)) \<Longrightarrow> bearer_safe view ok w (snd (on_err f m w))"
  by simp

lemma Generate_clock: "clock (snd (Generate sha w)) = clock w"
  by (simp add: Generate_def bindM_eq rand_read_def split: sum.split)

lemma Generate_frame: "tw_store (snd (Generate sha w)) = tw_store w" "clock (snd (Generate sha w)) = clock w"
  by (simp_all add: Generate_def bindM_eq rand_read_def split: sum.split)

lemma bearer_safe_readings:
  "bearer_safe view ok w (snd (Generate sha w))" "bearer_safe view ok w (snd (uuid_NewV7 w))"
  "bearer_safe view ok w (snd (read_clock w))" "bearer_safe view ok w (snd (now w))"
  "bearer_safe view ok w (snd (retM r w))" "bearer_safe view ok w (w\<lparr>pos := p\<rparr>)"
  by (rule bearer_safe_frame; simp add: Generate_frame)+

lemma acc_issue_clock: "clock (snd (acc_issue lib sha is sub sid m w)) = clock w"
  using Generate_clock [of sha w]
  by (simp add: acc_issue_def bindM_eq on_err_eq now_def Let_def split: sum.split prod.split)

lemma read_clock_clock: "clock (snd (read_clock w)) = clock w"
  by simp

lemma bearer_safe_issue: "bearer_safe view ok w (snd (acc_issue lib sha is sub sid m w))"
  by (rule bearer_safe_frame [OF acc_issue_store acc_issue_clock])

lemma ref_newIssued_clock: "clock (snd (ref_newIssued sha mgr sid e w)) = clock w"
  using Generate_clock [of sha w]
  by (simp add: ref_newIssued_def bindM_eq on_err_eq split: sum.split prod.split)

lemma ref_newIssued_Inl:
  "ref_newIssued sha mgr sid e w = (Inl x, w1) \<Longrightarrow> \<not> errors_is x (ERefresh c)"
  by (auto simp: ref_newIssued_def bindM_eq on_err_eq Generate_def rand_read_def
      split: sum.splits prod.splits if_splits)

lemma ref_newIssued_driver:
  "ref_newIssued sha mgr sid e w = (Inl x, w1) \<Longrightarrow> driver_chain x"
  by (auto simp: ref_newIssued_def bindM_eq on_err_eq Generate_def rand_read_def
      split: sum.splits prod.splits if_splits)

lemma HashToken_not_refresh: "HashToken sha raw = Inl e \<Longrightarrow> \<not> errors_is e (ERefresh c)"
  by (auto simp: HashToken_def split: if_splits option.splits sum.splits)

lemma bearer_safe_newIssued: "bearer_safe view ok w (snd (ref_newIssued sha mgr sid e w))"
  by (rule bearer_safe_frame [OF ref_newIssued_store ref_newIssued_clock])

lemma bearer_safe_db:
  assumes op: "implements view ok op spec"
    and ev: "\<And>res m'. spec (view (tw_store w)) res m' \<Longrightarrow> bearer_evolves (view (tw_store w)) m'"
    and fam: "\<And>res m'. spec (view (tw_store w)) res m' \<Longrightarrow> \<forall>n. 0 < clock w n \<Longrightarrow>
      families (view (tw_store w)) \<Longrightarrow> families m'"
  shows "bearer_safe view ok w (snd (on_db op w))"
  unfolding bearer_safe_def
proof (intro impI conjI)
  assume o: "ok (tw_store w)"
  show "clock (snd (on_db op w)) = clock w" by simp
  show "ok (tw_store (snd (on_db op w)))" using implements_inv [OF op o] by simp
  show "bearer_evolves (view (tw_store w)) (view (tw_store (snd (on_db op w))))"
    using op o by (cases rule: implements_cases) (simp_all add: ev)
  assume f: "(\<forall>n. 0 < clock w n) \<and> families (view (tw_store w))"
  from op o show "families (view (tw_store (snd (on_db op w))))"
    by (cases rule: implements_cases) (use f fam in simp_all)
qed

context bearer_store
begin

lemma find_token:
  assumes "ok (tw_store w)" and "on_db (rs_FindByTokenHash rst h) w = (r, w1)"
  shows "ok (tw_store w1)" and "view (tw_store w1) = view (tw_store w)" and "clock w1 = clock w"
    and "r = Inr q \<Longrightarrow> refresh (view (tw_store w)) h = Some q"
    and "bearer_safe view ok w w1"
proof -
  show o: "ok (tw_store w1)" using implements_inv [OF ref_find assms(1)] assms(2) by (auto simp: on_db_def)
  show v: "view (tw_store w1) = view (tw_store w)"
    using ref_find [of h] assms(1) by (cases rule: implements_cases)
      (use assms(2) in \<open>auto simp: on_db_def fun_spec_def spec_ref_Find_def\<close>)
  show c: "clock w1 = clock w" using assms(2) by (auto simp: on_db_def)
  show "r = Inr q \<Longrightarrow> refresh (view (tw_store w)) h = Some q"
    using implements_Inr [OF ref_find assms(1), of h q] assms(2)
    by (auto simp: on_db_def fun_spec_def spec_ref_Find_def split: option.splits)
  show "bearer_safe view ok w w1" using o v c by (simp add: bearer_safe_def)
qed

lemma Resolve_token:
  assumes m: "rm_store mgr = rst" and o: "ok (tw_store w)" and r: "ref_Resolve sha mgr raw w = (r, w1)"
  shows "bearer_safe view ok w w1 \<and> view (tw_store w1) = view (tw_store w) \<and>
    (\<forall>q. r = Inr q \<longrightarrow> (\<exists>h. HashToken sha raw = Inr h \<and> refresh (view (tw_store w)) h = Some q \<and>
      rr_TokenHash q = h \<and> live q \<and> ref_validRecord q \<and> (\<exists>n. clock w n < rr_ExpiresAt q)))"
proof (cases "HashToken sha raw")
  case (Inr h)
  obtain r1 w2 where 1: "on_db (rs_FindByTokenHash rst h) w = (r1, w2)" by fastforce
  note f = find_token [OF o 1]
  have w1: "w1 = w2 \<or> w1 = w2\<lparr>pos := Suc (pos w2)\<rparr>"
    using m r Inr 1
    by (auto simp: ref_Resolve_def bindM_eq on_err_eq now_def split: sum.splits if_splits)
  then have v: "view (tw_store w1) = view (tw_store w)" using f(2) by auto
  have s: "bearer_safe view ok w w1"
    using w1 f(5) bearer_safe_trans [OF f(5) bearer_safe_readings(6)] by blast
  have "\<exists>h. HashToken sha raw = Inr h \<and> refresh (view (tw_store w)) h = Some q \<and>
      rr_TokenHash q = h \<and> live q \<and> ref_validRecord q \<and> (\<exists>n. clock w n < rr_ExpiresAt q)"
    if "r = Inr q" for q
  proof -
    have "r1 = Inr q" "ref_validRecord q" "rr_TokenHash q = h" "ref_ActiveAt q (clock w2 (pos w2))"
      using m r Inr 1 that
      by (auto simp: ref_Resolve_def bindM_eq on_err_eq now_def split: sum.splits if_splits)
    then show ?thesis using Inr f(3,4) by (auto simp: ref_ActiveAt_def live_def)
  qed
  then show ?thesis using v s by blast
qed (use r in \<open>auto simp: ref_Resolve_def\<close>)

lemma rotate_loop_safe:
  assumes m: "rm_store mgr = rst"
    and q: "\<exists>q. refresh (view (tw_store w)) h = Some q \<and> rr_SessionID q = rr_SessionID cur \<and>
      rr_ExpiresAt q = rr_ExpiresAt cur"
  shows "bearer_safe view ok w (snd (ref_rotate_loop n sha mgr h cur w))"
  using q
proof (induction n arbitrary: w)
  case (Suc n)
  obtain r1 w1 where 1: "ref_newIssued sha mgr (rr_SessionID cur) (rr_ExpiresAt cur) w = (r1, w1)" by fastforce
  have s1: "bearer_safe view ok w w1" and st1: "tw_store w1 = tw_store w"
    using bearer_safe_newIssued [of view ok w sha mgr "rr_SessionID cur" "rr_ExpiresAt cur"]
      ref_newIssued_store [of sha mgr "rr_SessionID cur" "rr_ExpiresAt cur" w] 1 by simp_all
  show ?case
  proof (cases r1)
    case (Inr i)
    let ?w = "w1\<lparr>pos := Suc (pos w1)\<rparr>" and ?t = "clock w1 (pos w1)"
    obtain r2 w2 where 2: "on_db (rs_Rotate rst h (ri_Record i) ?t) ?w = (r2, w2)" by (meson surj_pair)
    have new: "rr_RotatedAt (ri_Record i) = None" "rr_RevokedAt (ri_Record i) = None"
      using ref_newIssued_Inr [of sha mgr _ _ w i w1] 1 Inr by auto
    have fam: "families m'" if "families (view (tw_store w))"
        "spec_ref_Rotate h (ri_Record i) ?t (view (tw_store w)) = (res, m')" for res m'
    proof (rule spec_ref_Rotate_families [OF that])
      fix q assume q: "refresh (view (tw_store w)) h = Some q"
      then have "rr_ExpiresAt cur \<noteq> 0" using families_access [OF that(1) q] Suc.prems by auto
      then show "rr_SessionID (ri_Record i) = rr_SessionID q \<and> rr_ExpiresAt (ri_Record i) = rr_ExpiresAt q"
        using ref_newIssued_Inr(2,3) [of sha mgr _ _ w i w1] 1 Inr Suc.prems q by auto
    qed
    have s2': "bearer_safe view ok ?w (snd (on_db (rs_Rotate rst h (ri_Record i) ?t) ?w))"
      by (rule bearer_safe_db [OF ref_rotate [OF new]])
        (auto simp: fun_spec_def st1 intro: spec_ref_Rotate_evolves fam)
    then have s2: "bearer_safe view ok w w2"
      using 2 bearer_safe_trans [OF bearer_safe_trans [OF s1 bearer_safe_readings(6)] s2'] by simp
    have rec: "bearer_safe view ok w (snd (ref_rotate_loop n sha mgr h cur w2))"
    proof (cases "ok (tw_store w)")
      case True
      have "bearer_evolves (view (tw_store w)) (view (tw_store w2))"
        using s2 True by (simp add: bearer_safe_def)
      then have "\<exists>q. refresh (view (tw_store w2)) h = Some q \<and> rr_SessionID q = rr_SessionID cur \<and>
          rr_ExpiresAt q = rr_ExpiresAt cur"
        using Suc.prems bearer_evolves_refresh unfolding refresh_later_def by metis
      then show ?thesis using Suc.IH s2 bearer_safe_trans by blast
    qed (simp add: bearer_safe_def)
    show ?thesis using 1 2 Inr m s2 rec by (auto simp: now_def split: sum.split)
  qed (use 1 s1 in simp)
qed simp

lemma Rotate_safe:
  assumes m: "rm_store mgr = rst"
  shows "bearer_safe view ok w (snd (ref_Rotate sha mgr raw w))"
proof (cases "ok (tw_store w)")
  case o: True
  show ?thesis
  proof (cases "HashToken sha raw")
    case (Inr h)
    obtain r1 w1 where 1: "on_db (rs_FindByTokenHash rst h) w = (r1, w1)" by fastforce
    note f = find_token [OF o 1]
    show ?thesis
    proof (cases r1)
      case r1: (Inr q)
      have q: "\<exists>q'. refresh (view (tw_store w1)) h = Some q' \<and> rr_SessionID q' = rr_SessionID q \<and>
          rr_ExpiresAt q' = rr_ExpiresAt q" using f(2) f(4) [OF r1] by simp
      have "bearer_safe view ok w (snd (ref_rotate_loop ref_creationAttempts sha mgr h q w1))"
        using bearer_safe_trans [OF f(5) rotate_loop_safe [OF m q]] .
      then show ?thesis using 1 Inr m r1 f(5) by (simp add: ref_Rotate_def bindM_eq on_err_eq)
    qed (use 1 Inr m f(5) in \<open>simp add: ref_Rotate_def bindM_eq on_err_eq\<close>)
  qed (simp add: ref_Rotate_def)
qed (simp add: bearer_safe_def)

lemma revoke_safe:
  assumes "implements view ok op (fun_spec (\<lambda>m. (Inr (), revoke_where (p m) t m)))"
  shows "bearer_safe view ok w (snd (on_db op w))"
  by (rule bearer_safe_db [OF assms])
    (auto simp: fun_spec_def revoke_where_evolves revoke_where_families)

lemma RevokeSessionID_safe:
  assumes m: "rm_store mgr = rst"
  shows "bearer_safe view ok w (snd (ref_RevokeSessionID mgr i w))"
proof (cases "blank i")
  case False
  have "bearer_safe view ok v (snd (on_db (rs_RevokeSession rst i t) v))" for t v
    using ref_revoke [of i t] by (intro revoke_safe) (simp add: spec_RevokeSession_def [abs_def])
  then show ?thesis unfolding ref_RevokeSessionID_def m if_not_P [OF False]
    by (intro bearer_safe_bindM bearer_safe_on_err bearer_safe_readings)
qed (simp add: ref_RevokeSessionID_def)

lemma Resolve_token_safe:
  assumes "rm_store mgr = rst"
  shows "bearer_safe view ok w (snd (ref_Resolve sha mgr raw w))"
proof (cases "ok (tw_store w)")
  case True
  obtain r w1 where "ref_Resolve sha mgr raw w = (r, w1)" by fastforce
  then show ?thesis using Resolve_token [OF assms True] by fastforce
qed (simp add: bearer_safe_def)

lemma resolve_session_safe: "bearer_safe view ok w (snd (on_db (at_ResolveSession ast i) w))"
  by (rule bearer_safe_db [OF resolve_session]) (auto simp: spec_ResolveSession_def)

lemma list_access_safe: "bearer_safe view ok w (snd (on_db (at_ListBySubject ast sub) w))"
  by (rule bearer_safe_db [OF list_access]) (auto simp: spec_ListAccess_def)

lemma bearer_Create_safe:
  assumes s: "bearer_service rst ast mgr"
  shows "bearer_safe view ok w (snd (bearer_Create lib sha mgr sub w))"
proof (cases "blank sub")
  case False
  have st: "bm_store mgr = ast" and life: "0 < bm_refreshLifetime mgr"
    using s by (simp_all add: bearer_service_def)
  have db: "bearer_safe view ok v (snd (on_db (at_CreateSession ast a r) v))"
    if "rr_SessionID r = as_ID a" "rr_ExpiresAt r = as_ExpiresAt a" "as_RevokedAt a = None"
      "(\<forall>n. 0 < clock v n) \<longrightarrow> rr_ExpiresAt r \<noteq> 0" for v a r
    by (rule bearer_safe_db [OF create_session])
      (use that spec_CreateSession_evolves spec_CreateSession_families in blast)+
  have pos: "0 < truncate_second u + bm_refreshLifetime mgr" if "0 < u" for u
    using truncate_second_mono [of 0 u] that life by (simp add: truncate_second_def)
  show ?thesis
    unfolding bearer_Create_def st Let_def split_def if_not_P [OF False] acc_IssueUntil_def
  proof (intro bearer_safe_bindM bearer_safe_on_err bearer_safe_readings bearer_safe_issue)
    fix sid w1 t w2 g w3 i w4
    assume 1: "on_err (EWrap ''generate bearer session ID'') uuid_NewV7 w = (Inr sid, w1)"
      and 2: "read_clock w1 = (Inr t, w2)"
      and 3: "on_err (EWrap ''generate refresh token'') (Generate sha) w2 = (Inr g, w3)"
      and 4: "on_err (EWrap ''issue access token'') (acc_issue lib sha (bm_issuer mgr) sub sid
        (as_ExpiresAt \<lparr>as_ID = sid, as_SubjectID = sub, as_CreatedAt = truncate_second t,
           as_ExpiresAt = truncate_second t + bm_refreshLifetime mgr, as_RevokedAt = None\<rparr>)) w3 = (Inr i, w4)"
    have "clock w4 = clock w1"
      using Generate_frame(2) [of sha w2] acc_issue_clock 2 3 4 by (metis read_clock_clock snd_conv snd_on_err)
    then have "0 < t" if "\<forall>n. 0 < clock w4 n" using that 2 by auto
    then have "truncate_second t + bm_refreshLifetime mgr \<noteq> 0" if "\<forall>n. 0 < clock w4 n"
      using pos [of t] that by simp
    then show "bearer_safe view ok w4 (snd (on_db (at_CreateSession ast
        \<lparr>as_ID = sid, as_SubjectID = sub, as_CreatedAt = truncate_second t,
           as_ExpiresAt = truncate_second t + bm_refreshLifetime mgr, as_RevokedAt = None\<rparr>
        \<lparr>rr_SessionID = sid, rr_TokenHash = snd g, rr_CreatedAt = truncate_second t,
           rr_ExpiresAt = as_ExpiresAt \<lparr>as_ID = sid, as_SubjectID = sub, as_CreatedAt = truncate_second t,
             as_ExpiresAt = truncate_second t + bm_refreshLifetime mgr, as_RevokedAt = None\<rparr>,
           rr_RotatedAt = None, rr_RevokedAt = None\<rparr>) w4))"
      by (intro db) simp_all
  qed
qed (simp add: bearer_Create_def)

lemma VerifySession_safe:
  assumes "vf_resolver v = at_ResolveSession ast"
  shows "bearer_safe view ok w (snd (acc_VerifySession lib v raw w))"
proof -
  define r where "r i = fst (on_db (at_ResolveSession ast i) (w\<lparr>pos := Suc (pos w)\<rparr>))" for i
  define x where "x i = snd (on_db (at_ResolveSession ast i) (w\<lparr>pos := Suc (pos w)\<rparr>))" for i
  have 1: "on_db (at_ResolveSession ast i) (w\<lparr>pos := Suc (pos w)\<rparr>) = (r i, x i)" for i
    by (simp only: r_def x_def prod.collapse)
  have x: "bearer_safe view ok w (x i)" for i
    using bearer_safe_trans [OF bearer_safe_readings(6) resolve_session_safe] 1 by (metis snd_conv)
  have y: "bearer_safe view ok w ((x i)\<lparr>pos := p\<rparr>)" for i p
    using bearer_safe_trans [OF x bearer_safe_readings(6)] .
  show ?thesis
    unfolding acc_VerifySession_def assms now_def prod.case 1
    by (auto simp: x y bearer_safe_readings split: sum.split)
qed

lemma bearer_Refresh_safe:
  assumes s: "bearer_service rst ast mgr"
  shows "bearer_safe view ok w (snd (bearer_Refresh lib sha mgr raw w))"
proof -
  let ?tm = "bm_refreshTokens mgr"
  have st: "bm_store mgr = ast" and m: "rm_store ?tm = rst" using s by (simp_all add: bearer_service_def)
  obtain r1 w1 where 1: "ref_Resolve sha ?tm raw w = (r1, w1)" by fastforce
  have s1: "bearer_safe view ok w w1" using Resolve_token_safe [OF m, of w sha raw] 1 by simp
  show ?thesis
  proof (cases r1)
    case (Inl e)
    obtain r2 w2 where 2: "ref_Rotate sha ?tm raw w1 = (r2, w2)" by fastforce
    have "bearer_safe view ok w w2" using bearer_safe_trans [OF s1 Rotate_safe [OF m]] 2 by (metis snd_conv)
    then show ?thesis using 1 2 Inl s1 by (cases r2) (auto simp: bearer_Refresh_def)
  next
    case (Inr cur)
    obtain r2 w2 where 2: "on_db (at_ResolveSession ast (rr_SessionID cur)) w1 = (r2, w2)"
      by (metis surj_pair)
    have s2: "bearer_safe view ok w w2"
      using bearer_safe_trans [OF s1 resolve_session_safe] 2 by (metis snd_conv)
    let ?w = "w2\<lparr>pos := Suc (pos w2)\<rparr>"
    have s3: "bearer_safe view ok w ?w" using bearer_safe_trans [OF s2 bearer_safe_readings(6)] .
    have k: "bearer_safe view ok ?w (snd (bindM (acc_IssueUntil lib sha (bm_issuer mgr) a b c) (\<lambda>i.
        bindM (ref_Rotate sha ?tm raw) (\<lambda>j. retM (g i j))) ?w))" for a b c g
      unfolding acc_IssueUntil_def
      by (intro bearer_safe_bindM bearer_safe_issue Rotate_safe [OF m] bearer_safe_readings)
    show ?thesis
      using 1 2 Inr s2 s3 bearer_safe_trans [OF s3 k]
      by (auto simp: bearer_Refresh_def st now_def split: sum.split)
  qed
qed

lemma bearer_do_safe:
  assumes s: "bearer_service rst ast mgr"
  shows "bearer_safe view ok w (bearer_do lib sha mgr x w)"
proof -
  have st: "bm_store mgr = ast" and m: "rm_store (bm_refreshTokens mgr) = rst"
    and v: "vf_resolver (bm_verifier mgr) = at_ResolveSession ast"
    using s by (simp_all add: bearer_service_def)
  have all: "bearer_safe view ok v (snd (on_db (at_RevokeAll ast sub t) v))" for sub t v
    using revoke_all_access [of sub t] by (intro revoke_safe) (simp add: spec_RevokeAllAccess_def [abs_def])
  note i = bearer_safe_bindM bearer_safe_readings list_access_safe RevokeSessionID_safe [OF m]
    Resolve_token_safe [OF m] VerifySession_safe [OF v]
  show ?thesis
  proof (cases x)
    case (BearerResolve raw)
    show ?thesis unfolding BearerResolve bearer_do.simps bearer_Resolve_def split_def by (intro i)
  next
    case (BearerList sub)
    show ?thesis unfolding BearerList bearer_do.simps bearer_List_def st by (intro i)
  next
    case (BearerRevokeByRefreshToken raw)
    show ?thesis
      unfolding BearerRevokeByRefreshToken bearer_do.simps bearer_RevokeByRefreshToken_def
        ref_RevokeSession_def by (intro i)
  next
    case (BearerRevokeByID sub j)
    show ?thesis unfolding BearerRevokeByID bearer_do.simps bearer_RevokeByID_def st
    proof (rule bearer_safe_bindM [OF list_access_safe])
      fix rs w1
      show "bearer_safe view ok w1 (snd ((if list_ex (\<lambda>a. as_ID a = j) rs then bearer_Revoke mgr j
          else retM (Inl (ERefresh Refresh_ErrNotFound))) w1))"
        using RevokeSessionID_safe [OF m] by (simp add: bearer_Revoke_def)
    qed
  next
    case (BearerRevokeAll sub)
    show ?thesis unfolding BearerRevokeAll bearer_do.simps bearer_RevokeAll_def st by (intro i all)
  qed (use bearer_Create_safe [OF s] bearer_Refresh_safe [OF s] RevokeSessionID_safe [OF m]
      in \<open>simp_all add: bearer_Revoke_def\<close>)
qed

lemma bearer_run_safe:
  assumes "bearer_service rst ast mgr"
  shows "bearer_safe view ok w (bearer_run lib sha mgr xs w)"
proof (induction xs arbitrary: w)
  case (Cons x xs)
  show ?case using bearer_safe_trans [OF bearer_do_safe [OF assms] Cons.IH] by simp
qed simp

text \<open>
  What rotation does, in full: it replaces an active token by a live one of the same session, or
  revokes the session of an inactive one, or fails without effect.
\<close>

lemma rotate_loop_result:
  assumes m: "rm_store mgr = rst" and o: "ok (tw_store w)"
    and q: "refresh (view (tw_store w)) h = Some q" "rr_SessionID cur = rr_SessionID q"
      "rr_ExpiresAt cur = rr_ExpiresAt q" "rr_ExpiresAt q \<noteq> 0"
    and r: "ref_rotate_loop n sha mgr h cur w = (res, w')"
  shows "rotated_token sha (view (tw_store w)) h q (clock w) res (view (tw_store w'))"
  using o q(1) r
proof (induction n arbitrary: w)
  case 0
  then show ?case by (auto simp: rotated_token_def)
next
  case (Suc n)
  obtain r1 w1 where 1: "ref_newIssued sha mgr (rr_SessionID cur) (rr_ExpiresAt cur) w = (r1, w1)" by fastforce
  have st1: "tw_store w1 = tw_store w" and c1: "clock w1 = clock w"
    using ref_newIssued_store [of sha mgr "rr_SessionID cur" "rr_ExpiresAt cur" w]
      ref_newIssued_clock [of sha mgr "rr_SessionID cur" "rr_ExpiresAt cur" w] 1 by simp_all
  show ?case
  proof (cases r1)
    case (Inl e)
    then have "\<not> errors_is e (ERefresh Refresh_ErrReuseDetected)" using ref_newIssued_Inl 1 by blast
    then show ?thesis using Suc.prems 1 Inl st1 by (auto simp: rotated_token_def)
  next
    case (Inr i)
    let ?w = "w1\<lparr>pos := Suc (pos w1)\<rparr>" and ?t = "clock w1 (pos w1)" and ?m = "view (tw_store w)"
    obtain r2 w2 where 2: "on_db (rs_Rotate rst h (ri_Record i) ?t) ?w = (r2, w2)" by (meson surj_pair)
    note i = ref_newIssued_Inr [OF 1 [unfolded Inr]]
    have c2: "clock w2 = clock w" using 2 c1 by (auto simp: on_db_def)
    have op: "implements view ok (rs_Rotate rst h (ri_Record i) ?t) (fun_spec (spec_ref_Rotate h (ri_Record i) ?t))"
      using ref_rotate i(4,5) by blast
    have o2: "ok (tw_store w2)" using implements_inv [OF op, of "tw_store w"] Suc.prems(1) 2 st1
      by (auto simp: on_db_def)
    have eq: "ref_rotate_loop (Suc n) sha mgr h cur w =
      (case r2 of Inl e \<Rightarrow> if errors_is e (ERefresh Refresh_ErrConflict) then ref_rotate_loop n sha mgr h cur w2
         else (Inl (EWrap ''rotate refresh token'' e), w2) | Inr _ \<Rightarrow> (Inr i, w2))"
      using 1 2 Inr m by (simp add: now_def split: sum.split)
    from op Suc.prems(1) show ?thesis
    proof (cases rule: implements_cases)
      case (driver e)
      then have e: "r2 = Inl e" "view (tw_store w2) = ?m" using 2 st1 by (auto simp: on_db_def)
      then show ?thesis using driver(1) eq Suc.prems
        by (auto simp: rotated_token_def driver_errors_is)
    next
      case spec
      then have "spec_ref_Rotate h (ri_Record i) ?t ?m = (r2, view (tw_store w2))"
        using 2 st1 by (auto simp: on_db_def fun_spec_def)
      then show ?thesis
      proof (cases rule: spec_ref_Rotate_cases)
        case (reuse q')
        then show ?thesis using eq Suc.prems c1 by (auto simp: rotated_token_def)
      next
        case (conflict q')
        then show ?thesis using Suc.IH [of w2] o2 eq Suc.prems c2 by simp
      next
        case (rotated q')
        then show ?thesis using eq Suc.prems c1 i q by (auto simp: rotated_token_def live_def)
      qed (use Suc.prems in simp)
    qed
  qed
qed

lemma Rotate_result:
  assumes m: "rm_store mgr = rst" and o: "ok (tw_store w)" and f: "families (view (tw_store w))"
    and r: "ref_Rotate sha mgr raw w = (res, w')"
  shows "(\<exists>h q. HashToken sha raw = Inr h \<and> refresh (view (tw_store w)) h = Some q \<and>
      rotated_token sha (view (tw_store w)) h q (clock w) res (view (tw_store w'))) \<or>
    (\<exists>e. res = Inl e \<and> \<not> errors_is e (ERefresh Refresh_ErrReuseDetected) \<and>
      view (tw_store w') = view (tw_store w))"
proof (cases "HashToken sha raw")
  case (Inl e)
  then show ?thesis using r HashToken_not_refresh [OF Inl] by (auto simp: ref_Rotate_def)
next
  case (Inr h)
  obtain r1 w1 where 1: "on_db (rs_FindByTokenHash rst h) w = (r1, w1)" by fastforce
  note f1 = find_token [OF o 1]
  show ?thesis
  proof (cases r1)
    case (Inl e)
    have "is_driver e \<or> e = ERefresh Refresh_ErrNotFound"
      using ref_find [of h] o
      by (cases rule: implements_cases) (use 1 Inl in \<open>auto simp: on_db_def fun_spec_def spec_ref_Find_def split: option.splits\<close>)
    then have "\<not> errors_is e (ERefresh Refresh_ErrReuseDetected)" by (auto simp: driver_errors_is)
    then show ?thesis using r Inr 1 Inl m f1(2) by (auto simp: ref_Rotate_def bindM_eq on_err_eq)
  next
    case r1: (Inr q)
    show ?thesis
    proof (cases "\<not> ref_validRecord q \<or> rr_TokenHash q \<noteq> h")
      case True
      then show ?thesis using r Inr 1 r1 m f1(2) by (auto simp: ref_Rotate_def bindM_eq on_err_eq)
    next
      case False
      have q: "refresh (view (tw_store w)) h = Some q" using f1(4) r1 by simp
      then have "rr_ExpiresAt q \<noteq> 0" using families_access [OF f] by blast
      then have "rotated_token sha (view (tw_store w1)) h q (clock w1) res (view (tw_store w'))"
        using rotate_loop_result [OF m f1(1), of h q q] f1(2) q r Inr 1 r1 m False
        by (simp add: ref_Rotate_def bindM_eq on_err_eq)
      then show ?thesis using q Inr f1 by auto
    qed
  qed
qed

text \<open>A used or revoked token is always recognised, unless the infrastructure fails.\<close>

lemma rotate_loop_dead:
  assumes m: "rm_store mgr = rst" and o: "ok (tw_store w)"
    and q: "refresh (view (tw_store w)) h = Some q" "\<not> live q"
    and r: "ref_rotate_loop (Suc n) sha mgr h cur w = (res, w')"
  shows "\<exists>e. res = Inl e \<and>
    (errors_is e (ERefresh Refresh_ErrReuseDetected) \<and>
       (\<exists>k. view (tw_store w') = revoke_where (\<lambda>i. i = rr_SessionID q) (clock w k) (view (tw_store w))) \<or>
     driver_chain e \<and> \<not> errors_is e (ERefresh Refresh_ErrReuseDetected) \<and>
       view (tw_store w') = view (tw_store w))"
proof -
  obtain r1 w1 where 1: "ref_newIssued sha mgr (rr_SessionID cur) (rr_ExpiresAt cur) w = (r1, w1)" by fastforce
  have st1: "tw_store w1 = tw_store w" and c1: "clock w1 = clock w"
    using ref_newIssued_store [of sha mgr "rr_SessionID cur" "rr_ExpiresAt cur" w]
      ref_newIssued_clock [of sha mgr "rr_SessionID cur" "rr_ExpiresAt cur" w] 1 by simp_all
  show ?thesis
  proof (cases r1)
    case (Inl e)
    then show ?thesis using r 1 st1 ref_newIssued_Inl ref_newIssued_driver by fastforce
  next
    case (Inr i)
    let ?w = "w1\<lparr>pos := Suc (pos w1)\<rparr>" and ?t = "clock w1 (pos w1)" and ?m = "view (tw_store w)"
    obtain r2 w2 where 2: "on_db (rs_Rotate rst h (ri_Record i) ?t) ?w = (r2, w2)" by (meson surj_pair)
    note i = ref_newIssued_Inr [OF 1 [unfolded Inr]]
    have op: "implements view ok (rs_Rotate rst h (ri_Record i) ?t) (fun_spec (spec_ref_Rotate h (ri_Record i) ?t))"
      using ref_rotate i(4,5) by blast
    have eq: "ref_rotate_loop (Suc n) sha mgr h cur w =
      (case r2 of Inl e \<Rightarrow> if errors_is e (ERefresh Refresh_ErrConflict) then ref_rotate_loop n sha mgr h cur w2
         else (Inl (EWrap ''rotate refresh token'' e), w2) | Inr _ \<Rightarrow> (Inr i, w2))"
      using 1 2 Inr m by (simp add: now_def split: sum.split)
    have dead: "\<not> ref_ActiveAt q ?t" using q(2) by (auto simp: live_def ref_ActiveAt_def)
    from op o show ?thesis
    proof (cases rule: implements_cases)
      case (driver e)
      then have e: "r2 = Inl e" "view (tw_store w2) = ?m" using 2 st1 by (auto simp: on_db_def)
      then show ?thesis using driver(1) eq r by (auto simp: driver_errors_is is_driver_chain)
    next
      case spec
      then have "r2 = Inl (ERefresh Refresh_ErrReuseDetected)"
        "view (tw_store w2) = revoke_where (\<lambda>i. i = rr_SessionID q) ?t ?m"
        using 2 st1 q dead by (auto simp: on_db_def fun_spec_def spec_ref_Rotate_def)
      then show ?thesis using eq r c1 by auto
    qed
  qed
qed

lemma find_token_None:
  assumes o: "ok (tw_store w)" and 1: "on_db (rs_FindByTokenHash rst h) w = (Inl e, w1)"
  shows "is_driver e \<or> e = ERefresh Refresh_ErrNotFound \<and> refresh (view (tw_store w)) h = None"
  using ref_find [of h] o
  by (cases rule: implements_cases)
    (use 1 in \<open>auto simp: on_db_def fun_spec_def spec_ref_Find_def split: option.splits\<close>)

lemma Refresh_dead:
  assumes s: "bearer_service rst ast mgr" and o: "ok (tw_store w)"
    and h: "HashToken sha raw = Inr h" and q: "refresh (view (tw_store w)) h = Some q" "\<not> live q"
    and v: "ref_validRecord q"
    and r: "bearer_Refresh lib sha mgr raw w = (res, w')"
  shows "\<exists>e. res = Inl e \<and>
    (errors_is e (ERefresh Refresh_ErrReuseDetected) \<and>
       (\<exists>k. view (tw_store w') = revoke_where (\<lambda>i. i = rr_SessionID q) (clock w k) (view (tw_store w))) \<or>
     driver_chain e \<and> \<not> errors_is e (ERefresh Refresh_ErrReuseDetected) \<and>
       view (tw_store w') = view (tw_store w))"
proof -
  let ?tm = "bm_refreshTokens mgr"
  have m: "rm_store ?tm = rst" using s by (simp add: bearer_service_def)
  obtain r1 w1 where 1: "on_db (rs_FindByTokenHash rst h) w = (r1, w1)" by fastforce
  note f1 = find_token [OF o 1]
  have hq: "rr_TokenHash q = h" using ok_view [OF o] q(1) by (auto simp: bearer_keys_def)
  show ?thesis
  proof (cases r1)
    case (Inl e)
    have "is_driver e" using find_token_None [OF o] 1 Inl q(1) by fastforce
    then show ?thesis using r h 1 Inl m f1(2)
      by (auto simp: bearer_Refresh_def ref_Resolve_def bindM_eq on_err_eq driver_errors_is is_driver_chain)
  next
    case (Inr q')
    then have q': "q' = q" using f1(4) q by simp
    let ?w = "w1\<lparr>pos := Suc (pos w1)\<rparr>"
    have "\<not> ref_ActiveAt q t" for t using q(2) by (auto simp: live_def ref_ActiveAt_def)
    then have res: "ref_Resolve sha ?tm raw w = (Inl (ERefresh Refresh_ErrInactive), ?w)"
      using h 1 Inr q' v hq m by (simp add: ref_Resolve_def bindM_eq on_err_eq now_def)
    obtain r2 w2 where 2: "on_db (rs_FindByTokenHash rst h) ?w = (r2, w2)" by (meson surj_pair)
    have o1: "ok (tw_store ?w)" using f1(1) by simp
    note f2 = find_token [OF o1 2]
    have vw: "view (tw_store w2) = view (tw_store w)" and c2: "clock w2 = clock w" using f1 f2 by simp_all
    show ?thesis
    proof (cases r2)
      case (Inl e)
      have "is_driver e" using find_token_None [OF o1] 2 Inl q(1) f1(2) by fastforce
      moreover have "ref_Rotate sha ?tm raw ?w = (Inl (EWrap ''find refresh token'' e), w2)"
        using h 2 Inl m by (simp add: ref_Rotate_def bindM_eq on_err_eq)
      ultimately show ?thesis using r res vw
        by (auto simp: bearer_Refresh_def driver_errors_is is_driver_chain)
    next
      case r2: (Inr q2)
      then have q2: "q2 = q" using f2(4) f1(2) q by simp
      obtain r3 w3 where 3: "ref_rotate_loop (Suc 2) sha ?tm h q w2 = (r3, w3)" by fastforce
      have rot: "ref_Rotate sha ?tm raw ?w = (r3, w3)"
        using h 2 r2 q2 v hq m 3
        by (simp add: ref_Rotate_def bindM_eq on_err_eq ref_creationAttempts_def numeral_3_eq_3 numeral_2_eq_2)
      have "refresh (view (tw_store w2)) h = Some q" using q(1) vw by simp
      from rotate_loop_dead [OF m f2(1) this q(2) 3] show ?thesis
        using r res rot vw c2 by (auto simp: bearer_Refresh_def; blast)
    qed
  qed
qed

text \<open>A successful refresh in full.\<close>

lemma Refresh_Inr:
  assumes s: "bearer_service rst ast mgr" and o: "ok (tw_store w)" and f: "families (view (tw_store w))"
    and r: "bearer_Refresh lib sha mgr raw w = (Inr b, w')"
  obtains h q a i n where "HashToken sha raw = Inr h" "refresh (view (tw_store w)) h = Some q"
    "live q" "access (view (tw_store w)) (rr_SessionID q) = Some a" "as_RevokedAt a = None"
    "clock w n < as_ExpiresAt a"
    "bi_Session b = session_of (durable_of a)" "bi_RefreshToken b = ri_Token i"
    "bi_RefreshTokenExpiresAt b = rr_ExpiresAt (ri_Record i)" "bi_AccessTokenExpiresAt b \<le> as_ExpiresAt a"
    "rotated_token sha (view (tw_store w)) h q (clock w) (Inr i) (view (tw_store w'))"
proof -
  let ?tm = "bm_refreshTokens mgr" and ?m = "view (tw_store w)"
  have st: "bm_store mgr = ast" and m: "rm_store ?tm = rst" using s by (simp_all add: bearer_service_def)
  obtain r1 w1 where 1: "ref_Resolve sha ?tm raw w = (r1, w1)" by fastforce
  obtain q where q: "r1 = Inr q"
    using r 1 by (cases r1) (auto simp: bearer_Refresh_def split: if_splits prod.splits sum.splits)
  obtain r2 w2 where 2: "on_db (at_ResolveSession ast (rr_SessionID q)) w1 = (r2, w2)" by (metis surj_pair)
  obtain d where d: "r2 = Inr d" and id: "ds_ID d = rr_SessionID q" and act: "clock w2 (pos w2) < ds_ExpiresAt d"
    using r 1 q 2 st
    by (cases r2) (auto simp: bearer_Refresh_def now_def durable_ActiveAt_def split: if_splits)
  note t = Resolve_token [OF m o 1]
  have o1: "ok (tw_store w1)" "view (tw_store w1) = ?m" "clock w1 = clock w"
    using t o by (auto simp: bearer_safe_def)
  have o2: "ok (tw_store w2)" using implements_inv [OF resolve_session o1(1)] 2 by (auto simp: on_db_def)
  have c2: "clock w2 = clock w" using 2 o1(3) by (auto simp: on_db_def)
  have "spec_ResolveSession (rr_SessionID q) ?m (Inr d) (view (tw_store w2))"
    using implements_Inr [OF resolve_session o1(1)] 2 d o1(2) by (auto simp: on_db_def)
  then obtain a where a: "access ?m (rr_SessionID q) = Some a" "as_RevokedAt a = None" "d = durable_of a"
    and v2: "view (tw_store w2) = ?m" by (auto simp: spec_ResolveSession_def)
  let ?w = "w2\<lparr>pos := Suc (pos w2)\<rparr>"
  obtain r3 w3 where 3: "acc_issue lib sha (bm_issuer mgr) (ds_SubjectID d) (ds_ID d) (ds_ExpiresAt d) ?w = (r3, w3)"
    by fastforce
  obtain r4 w4 where 4: "ref_Rotate sha ?tm raw w3 = (r4, w4)" by fastforce
  have eq: "bearer_Refresh lib sha mgr raw w = bindM (acc_issue lib sha (bm_issuer mgr) (ds_SubjectID d)
      (ds_ID d) (ds_ExpiresAt d)) (\<lambda>accessToken. bindM (ref_Rotate sha ?tm raw) (\<lambda>replacement. retM (Inr
        \<lparr>bi_Session = session_of d, bi_AccessToken = ai_Token accessToken,
         bi_AccessTokenExpiresAt = ai_ExpiresAt accessToken, bi_RefreshToken = ri_Token replacement,
         bi_RefreshTokenExpiresAt = rr_ExpiresAt (ri_Record replacement)\<rparr>))) ?w"
    using 1 q 2 d id act st
    by (simp add: bearer_Refresh_def now_def durable_ActiveAt_def acc_IssueUntil_def)
  obtain x i where x: "r3 = Inr x" "r4 = Inr i" "w' = w4" "b = \<lparr>bi_Session = session_of d,
     bi_AccessToken = ai_Token x, bi_AccessTokenExpiresAt = ai_ExpiresAt x,
     bi_RefreshToken = ri_Token i, bi_RefreshTokenExpiresAt = rr_ExpiresAt (ri_Record i)\<rparr>"
    using r 3 4 unfolding eq by (cases r3; cases r4) (auto simp: bindM_eq)
  have s3: "tw_store w3 = tw_store w2" "clock w3 = clock w"
    using acc_issue_store [of lib sha "bm_issuer mgr" "ds_SubjectID d" "ds_ID d" "ds_ExpiresAt d" ?w]
      acc_issue_clock [of lib sha "bm_issuer mgr" "ds_SubjectID d" "ds_ID d" "ds_ExpiresAt d" ?w] 3 c2
    by simp_all
  obtain h where h: "HashToken sha raw = Inr h" "refresh ?m h = Some q" "live q" using t q by blast
  have rot: "rotated_token sha ?m h q (clock w) (Inr i) (view (tw_store w'))"
    using Rotate_result [OF m, of w3 sha raw r4 w4] 4 o2 s3 v2 f x h by auto
  have ne: "ds_ExpiresAt d \<noteq> 0"
    using families_access [OF f h(2)] a by (auto simp: durable_of_def)
  have le: "ai_ExpiresAt x \<le> ds_ExpiresAt d"
    using 3 unfolding x(1) by (rule acc_issue_Inr) (use ne in blast)
  have n: "clock w (pos w2) < as_ExpiresAt a" using act c2 a(3) by (simp add: durable_of_def)
  show thesis
    by (rule that [OF h a(1,2) n _ _ _ _ rot]) (use a(3) x(4) le in \<open>simp_all add: durable_of_def\<close>)
qed

text \<open>Revocation ends exactly the sessions it names.\<close>

lemma revoke_result:
  assumes "implements view ok op (fun_spec (\<lambda>m. (Inr (), revoke_where (p m) t m)))"
    and o: "ok (tw_store w)" and r: "on_db op w = (res, w')"
  shows "res = Inr () \<and> view (tw_store w') = revoke_where (p (view (tw_store w))) t (view (tw_store w)) \<or>
    (\<exists>e. is_driver e \<and> res = Inl e \<and> view (tw_store w') = view (tw_store w))"
  using assms(1) o by (cases rule: implements_cases) (use r in \<open>auto simp: on_db_def fun_spec_def\<close>)

lemma Revoke_result:
  assumes s: "bearer_service rst ast mgr" and o: "ok (tw_store w)"
    and r: "bearer_Revoke mgr i w = (Inr (), w')"
  shows "\<not> blank i" and "\<exists>n. view (tw_store w') = revoke_where (\<lambda>j. j = i) (clock w n) (view (tw_store w))"
proof -
  have m: "rm_store (bm_refreshTokens mgr) = rst" using s by (simp add: bearer_service_def)
  show b: "\<not> blank i"
    using r by (auto simp: bearer_Revoke_def ref_RevokeSessionID_def split: if_splits)
  let ?w = "w\<lparr>pos := Suc (pos w)\<rparr>"
  obtain res w1 where 1: "on_db (rs_RevokeSession rst i (clock w (pos w))) ?w = (res, w1)" by (meson surj_pair)
  have "res = Inr ()" "w1 = w'"
    using r b m 1 by (cases res; simp add: bearer_Revoke_def ref_RevokeSessionID_def bindM_eq on_err_def)+
  then show "\<exists>n. view (tw_store w') = revoke_where (\<lambda>j. j = i) (clock w n) (view (tw_store w))"
    using revoke_result [OF _ _ 1, of "\<lambda>_ j. j = i" "clock w (pos w)"] ref_revoke [of i "clock w (pos w)"] o
    by (auto simp: spec_RevokeSession_def [abs_def])
qed

lemma list_access_Inr:
  assumes o: "ok (tw_store w)" and r: "on_db (at_ListBySubject ast sub) w = (Inr as, w')"
  shows "ok (tw_store w')" and "view (tw_store w') = view (tw_store w)" and "clock w' = clock w"
    and "set as = {a \<in> ran (access (view (tw_store w))). as_SubjectID a = sub}" and "distinct as"
    and "sorted_wrt (\<lambda>a b. as_CreatedAt b \<le> as_CreatedAt a) as"
  using implements_Inr [OF list_access o, of sub as] implements_inv [OF list_access o, of sub] r
  by (auto simp: on_db_def spec_ListAccess_def)

lemma access_subject:
  assumes "ok s"
  shows "(\<exists>a \<in> ran (access (view s)). as_SubjectID a = sub \<and> as_ID a = i) = of_subject sub (view s) i"
  using ok_view [OF assms] by (auto simp: ran_def of_subject_def bearer_keys_def)

lemma RevokeByID_result:
  assumes s: "bearer_service rst ast mgr" and o: "ok (tw_store w)"
    and r: "bearer_RevokeByID mgr sub i w = (res, w')"
  shows "res = Inr () \<and> of_subject sub (view (tw_store w)) i \<and>
      (\<exists>n. view (tw_store w') = revoke_where (\<lambda>j. j = i) (clock w n) (view (tw_store w))) \<or>
    (\<exists>e. res = Inl e \<and> view (tw_store w') = view (tw_store w) \<and>
       (driver_chain e \<or> e = ERefresh Refresh_ErrNotFound \<and> \<not> of_subject sub (view (tw_store w)) i \<or>
        e = ERefresh Refresh_ErrInvalidRecord \<and> blank i))"
proof -
  have st: "bm_store mgr = ast" and m: "rm_store (bm_refreshTokens mgr) = rst"
    using s by (simp_all add: bearer_service_def)
  obtain r1 w1 where 1: "on_db (at_ListBySubject ast sub) w = (r1, w1)" by (metis surj_pair)
  show ?thesis
  proof (cases r1)
    case (Inl e)
    have "is_driver e \<and> view (tw_store w1) = view (tw_store w)"
      using list_access [of sub] o
      by (cases rule: implements_cases) (use 1 Inl in \<open>auto simp: on_db_def spec_ListAccess_def\<close>)
    then show ?thesis using r 1 Inl st is_driver_chain by (auto simp: bearer_RevokeByID_def bindM_eq)
  next
    case (Inr as)
    note l = list_access_Inr [OF o 1 [unfolded Inr]]
    have mem: "list_ex (\<lambda>a. as_ID a = i) as = of_subject sub (view (tw_store w)) i"
      unfolding access_subject [OF o, symmetric] list_ex_iff l(4) by blast
    show ?thesis
    proof (cases "of_subject sub (view (tw_store w)) i")
      case False
      then show ?thesis using r 1 Inr st mem l(2) by (auto simp: bearer_RevokeByID_def bindM_eq)
    next
      case True
      then have r': "bearer_Revoke mgr i w1 = (res, w')"
        using r 1 Inr st mem by (simp add: bearer_RevokeByID_def bindM_eq)
      let ?w = "w1\<lparr>pos := Suc (pos w1)\<rparr>"
      obtain r2 w2 where 2: "on_db (rs_RevokeSession rst i (clock w1 (pos w1))) ?w = (r2, w2)" by (meson surj_pair)
      have "r2 = Inr () \<and> view (tw_store w2) = revoke_where (\<lambda>j. j = i) (clock w (pos w1)) (view (tw_store w)) \<or>
         (\<exists>e. is_driver e \<and> r2 = Inl e \<and> view (tw_store w2) = view (tw_store w))"
        using revoke_result [OF _ _ 2, of "\<lambda>_ j. j = i" "clock w1 (pos w1)"]
          ref_revoke [of i "clock w1 (pos w1)"] l(1-3)
        by (auto simp: spec_RevokeSession_def [abs_def])
      moreover have "blank i \<Longrightarrow> res = Inl (ERefresh Refresh_ErrInvalidRecord) \<and> w' = w1"
        using r' by (simp add: bearer_Revoke_def ref_RevokeSessionID_def)
      moreover have "\<not> blank i \<Longrightarrow> res = (case r2 of Inl e \<Rightarrow> Inl (EWrap ''revoke session refresh tokens'' e)
          | Inr v \<Rightarrow> Inr v) \<and> w' = w2"
        using r' 2 m by (auto simp: bearer_Revoke_def ref_RevokeSessionID_def bindM_eq on_err_def split: sum.splits)
      ultimately show ?thesis using True l(2) is_driver_chain by (cases "blank i") auto
    qed
  qed
qed

lemma RevokeAll_result:
  assumes s: "bearer_service rst ast mgr" and o: "ok (tw_store w)"
    and r: "bearer_RevokeAll mgr sub w = (Inr (), w')"
  shows "\<exists>n. view (tw_store w') =
    revoke_where (of_subject sub (view (tw_store w))) (clock w n) (view (tw_store w))"
proof -
  have st: "bm_store mgr = ast" using s by (simp add: bearer_service_def)
  have 1: "on_db (at_RevokeAll ast sub (clock w (pos w))) (w\<lparr>pos := Suc (pos w)\<rparr>) = (Inr (), w')"
    using r st by (simp add: bearer_RevokeAll_def bindM_eq)
  from revoke_result [OF _ _ 1, of "of_subject sub" "clock w (pos w)"]
    revoke_all_access [of sub "clock w (pos w)"] o show ?thesis
    by (auto simp: spec_RevokeAllAccess_def [abs_def])
qed

lemma List_result:
  assumes s: "bearer_service rst ast mgr" and o: "ok (tw_store w)"
    and r: "bearer_List mgr sub w = (Inr l, w')"
  obtains as n where "l = map (\<lambda>a. session_of (durable_of a))
      (filter (\<lambda>a. as_RevokedAt a = None \<and> clock w n < as_ExpiresAt a) as)"
    "set as = {a \<in> ran (access (view (tw_store w))). as_SubjectID a = sub}" "distinct as"
    "sorted_wrt (\<lambda>a b. as_CreatedAt b \<le> as_CreatedAt a) as" "view (tw_store w') = view (tw_store w)"
proof -
  have st: "bm_store mgr = ast" using s by (simp add: bearer_service_def)
  obtain r1 w1 where 1: "on_db (at_ListBySubject ast sub) w = (r1, w1)" by (metis surj_pair)
  obtain as where as: "r1 = Inr as" using r 1 st by (cases r1) (auto simp: bearer_List_def bindM_eq)
  note l = list_access_Inr [OF o 1 [unfolded as]]
  show thesis
  proof (rule that [OF _ l(4,5,6)])
    show "l = map (\<lambda>a. session_of (durable_of a))
      (filter (\<lambda>a. as_RevokedAt a = None \<and> clock w (pos w1) < as_ExpiresAt a) as)"
      and "view (tw_store w') = view (tw_store w)"
      using r 1 as st l(2,3) by (auto simp: bearer_List_def bindM_eq)
  qed
qed

text \<open>A resolved access token names a stored session that is not revoked.\<close>

lemma bearer_Resolve_Inr:
  assumes s: "bearer_service rst ast mgr" and o: "ok (tw_store w)"
    and r: "bearer_Resolve lib mgr raw w = (Inr x, w')"
  obtains c a where "jwt_parse lib (acc_options (vf_config (bm_verifier mgr)))
      (acc_keyfunc (vf_config (bm_verifier mgr))) (clock w (pos w)) raw = Inr c"
    "access (view (tw_store w)) (cl_SessionID c) = Some a" "as_RevokedAt a = None"
    "as_ID a = cl_SessionID c" "as_SubjectID a = cl_Subject c" "\<not> blank (cl_Subject c)"
    "clock w (Suc (pos w)) < as_ExpiresAt a"
    "x = session_of (durable_of a)" "view (tw_store w') = view (tw_store w)"
proof -
  let ?v = "bm_verifier mgr"
  have v: "vf_resolver ?v = at_ResolveSession ast" using s by (simp add: bearer_service_def)
  obtain r1 w1 where 1: "acc_VerifySession lib ?v raw w = (r1, w1)" by fastforce
  obtain c d where 2: "r1 = Inr (c, d)" "x = session_of d" "w' = w1"
    using r 1 by (cases r1) (auto simp: bearer_Resolve_def bindM_eq)
  note p = acc_VerifySession_Inr [OF 1 [unfolded 2(1)]]
  have "spec_ResolveSession (cl_SessionID c) (view (tw_store w)) (Inr d) (view (tw_store w1))"
    using implements_Inr [OF resolve_session o, of "cl_SessionID c" d] p(2,3) v by simp
  then obtain a where a: "access (view (tw_store w)) (cl_SessionID c) = Some a" "as_RevokedAt a = None"
    "d = durable_of a" "view (tw_store w1) = view (tw_store w)" by (auto simp: spec_ResolveSession_def)
  show thesis
    by (rule that [OF p(1) a(1,2)]) (use p a 2 in \<open>simp_all add: durable_of_def\<close>)
qed

text \<open>A session that is revoked once is dead for good.\<close>

lemma revoked_session_dead:
  assumes s: "bearer_service rst ast mgr" and o: "ok (tw_store w)" and f: "families (view (tw_store w))"
    and a: "access (view (tw_store w)) i = Some a" "as_RevokedAt a \<noteq> None"
    and c: "\<forall>n. 0 < clock w n" and e: "bearer_safe view ok w w'"
  shows "bearer_Refresh lib sha mgr raw w' = (Inr b, w2) \<Longrightarrow> se_ID (bi_Session b) \<noteq> i"
    and "bearer_Resolve lib mgr raw w' = (Inr x, w2) \<Longrightarrow> se_ID x \<noteq> i"
proof -
  have o': "ok (tw_store w')" and f': "families (view (tw_store w'))"
    and ev: "bearer_evolves (view (tw_store w)) (view (tw_store w'))"
    using e o f c by (simp_all add: bearer_safe_def)
  have dead: "access (view (tw_store w')) i = Some b \<Longrightarrow> as_RevokedAt b \<noteq> None" for b
    using bearer_evolves_access [OF ev a(1)] a(2) by (auto simp: access_later_def)
  have key: "access (view (tw_store w')) j = Some b \<Longrightarrow> as_ID b = j" for j b
    using ok_view [OF o'] by (simp add: bearer_keys_def)
  {
    assume "bearer_Refresh lib sha mgr raw w' = (Inr b, w2)"
    then show "se_ID (bi_Session b) \<noteq> i"
      by (rule Refresh_Inr [OF s o' f']) (use dead key in \<open>auto simp: session_of_def durable_of_def\<close>)
  next
    assume "bearer_Resolve lib mgr raw w' = (Inr x, w2)"
    then show "se_ID x \<noteq> i"
      by (rule bearer_Resolve_Inr [OF s o']) (use dead key in \<open>auto simp: session_of_def durable_of_def\<close>)
  }
qed

text \<open>
  A created session in full; the issued access token is the one that \<^verbatim>\<open>IssueUntil\<close> signed for it.
\<close>

lemma bearer_Create_Inr:
  assumes s: "bearer_service rst ast mgr" and o: "ok (tw_store w)"
    and r: "bearer_Create lib sha mgr sub w = (Inr b, w')"
  obtains a q x and v v1 :: "'s store_world" where "\<not> blank sub" "as_SubjectID a = sub" "as_RevokedAt a = None"
    "as_CreatedAt a = truncate_second (clock w (Suc (pos w)))"
    "as_ExpiresAt a = as_CreatedAt a + bm_refreshLifetime mgr"
    "bi_Session b = session_of (durable_of a)" "HashToken sha (bi_RefreshToken b) = Inr (rr_TokenHash q)"
    "rr_SessionID q = as_ID a" "rr_ExpiresAt q = as_ExpiresAt a" "live q"
    "access (view (tw_store w)) (as_ID a) = None" "refresh (view (tw_store w)) (rr_TokenHash q) = None"
    "view (tw_store w') = (view (tw_store w))\<lparr>access := (access (view (tw_store w)))(as_ID a \<mapsto> a),
       refresh := (refresh (view (tw_store w)))(rr_TokenHash q \<mapsto> q)\<rparr>"
    "acc_issue lib sha (bm_issuer mgr) sub (as_ID a) (as_ExpiresAt a) v = (Inr x, v1)"
    "bi_AccessToken b = ai_Token x" "bi_AccessTokenExpiresAt b = ai_ExpiresAt x"
    "pos v1 = pos w'" "clock v = clock w" "clock w' = clock w"
proof -
  have st: "bm_store mgr = ast" using s by (simp add: bearer_service_def)
  have b: "\<not> blank sub" using r by (auto simp: bearer_Create_def split: if_splits)
  let ?w2 = "w\<lparr>pos := Suc (pos w)\<rparr>" let ?w3 = "w\<lparr>pos := Suc (Suc (pos w))\<rparr>"
  obtain ru where 1: "uuid_NewV7 w = (ru, ?w2)" by (metis prod.collapse uuid_NewV7_snd)
  obtain rg where 2: "Generate sha ?w3 = (rg, w\<lparr>pos := Suc (Suc (Suc (pos w)))\<rparr>)"
    using Generate_snd [of sha ?w3] by (cases "Generate sha ?w3") simp
  let ?w4 = "w\<lparr>pos := Suc (Suc (Suc (pos w)))\<rparr>"
  obtain sid where sid: "ru = Inr sid"
    using r b 1 by (cases ru) (auto simp: bearer_Create_def bindM_eq on_err_eq)
  obtain tok h where g: "rg = Inr (tok, h)"
    using r b 1 sid 2 by (cases rg) (auto simp: bearer_Create_def bindM_eq on_err_eq Let_def)
  let ?t = "truncate_second (clock w (Suc (pos w)))"
  let ?e = "?t + bm_refreshLifetime mgr"
  let ?a = "\<lparr>as_ID = sid, as_SubjectID = sub, as_CreatedAt = ?t, as_ExpiresAt = ?e, as_RevokedAt = None\<rparr>"
  let ?q = "\<lparr>rr_SessionID = sid, rr_TokenHash = h, rr_CreatedAt = ?t, rr_ExpiresAt = ?e,
     rr_RotatedAt = None, rr_RevokedAt = None\<rparr>"
  obtain ri v1 where 3: "acc_issue lib sha (bm_issuer mgr) sub sid ?e ?w4 = (ri, v1)" by fastforce
  obtain x where x: "ri = Inr x"
    using r b 1 sid 2 g 3 by (cases ri) (auto simp: bearer_Create_def bindM_eq on_err_eq Let_def acc_IssueUntil_def)
  obtain rc v2 where 4: "on_db (at_CreateSession ast ?a ?q) v1 = (rc, v2)" by (meson surj_pair)
  have rc: "rc = Inr ()" "w' = v2" "b = \<lparr>bi_Session = session_of (durable_of ?a), bi_AccessToken = ai_Token x,
      bi_AccessTokenExpiresAt = ai_ExpiresAt x, bi_RefreshToken = tok, bi_RefreshTokenExpiresAt = ?e\<rparr>"
    using r b 1 sid 2 g 3 x 4 st
    by (cases rc; simp add: bearer_Create_def bindM_eq on_err_eq Let_def acc_IssueUntil_def)+
  have v1: "tw_store v1 = tw_store w" "clock v1 = clock w"
    using acc_issue_store [of lib sha "bm_issuer mgr" sub sid ?e ?w4]
      acc_issue_clock [of lib sha "bm_issuer mgr" sub sid ?e ?w4] 3 by simp_all
  have c: "spec_CreateSession ?a ?q (view (tw_store w)) (Inr ()) (view (tw_store w'))"
    using implements_Inr [OF create_session, of ?q ?a "tw_store w" "()"] o 4 rc(1,2) v1
    by (auto simp: on_db_def)
  have h: "HashToken sha tok = Inr h" using Generate_hash [of sha ?w3 tok h] 2 g by simp
  show thesis
  proof (rule that [of ?a ?q ?w4 x v1])
    show "acc_issue lib sha (bm_issuer mgr) sub (as_ID ?a) (as_ExpiresAt ?a) ?w4 = (Inr x, v1)"
      using 3 x by simp
    show "pos v1 = pos w'" "clock w' = clock w" using 4 rc(2) v1 by (auto simp: on_db_def)
  qed (use b c h rc(3) in \<open>auto simp: spec_CreateSession_def live_def\<close>)
qed

text \<open>The access token that \<^verbatim>\<open>IssueUntil\<close> signed resolves whenever the durable session does.\<close>

lemma issued_token_resolves:
  assumes new: "newBearerSessionManager ast rst config = Inr mgr" and doc: "jwt_documented lib"
    and i: "acc_issue lib sha (bm_issuer mgr) sub sid e v = (Inr x, v1)"
    and cl: "clock v = clock w" "pos v1 \<le> pos w" "mono (clock w)"
    and t: "clock w (pos w) < truncate_second (ai_ExpiresAt x)"
    and len: "0 < length (ai_Token x)" "length (ai_Token x) \<le> maximumTokenLength"
    and d: "fst (at_ResolveSession ast sid (tw_store w)) = Inr d"
      "ds_ID d = sid" "ds_SubjectID d = sub" "clock w (Suc (pos w)) < ds_ExpiresAt d"
  shows "fst (bearer_Resolve lib mgr (ai_Token x) w) = Inr (session_of d)"
proof -
  let ?v = "vf_config (bm_verifier mgr)"
  have issuer: "bm_issuer mgr = \<lparr>iss_issuer = bc_Issuer config, iss_audience = bc_Audience config,
      iss_lifetime = bc_AccessTokenLifetime config, iss_keyID = bc_KeyID config,
      iss_privateKey = bc_PrivateKey config\<rparr>" and ok_key: "length (bc_PrivateKey config) = 64" "\<not> blank (bc_KeyID config)"
    and vf: "?v = \<lparr>vc_Issuer = bc_Issuer config, vc_Audience = bc_Audience config,
       vc_PublicKeys = bearer_publicKeys config, vc_Leeway = bc_Leeway config\<rparr>" "0 \<le> bc_Leeway config"
    and res: "vf_resolver (bm_verifier mgr) = at_ResolveSession ast"
    using new by (auto simp: newBearerSessionManager_def acc_NewIssuer_def acc_NewVerifier_def ref_NewManager_def
        split: if_splits sum.splits option.splits)
  have key: "map_of (vc_PublicKeys ?v) (iss_keyID (bm_issuer mgr)) =
      Some (ed25519_Public (iss_privateKey (bm_issuer mgr)))"
    using ok_key by (simp add: vf issuer bearer_publicKeys_def)
  show ?thesis
  proof (rule issued_token_parses [OF doc i key])
    fix c n
    assume c: "cl_SessionID c = sid" "cl_Subject c = sub" "\<not> blank sub" "\<not> blank sid"
      "\<not> blank (cl_ID c)" "cl_IssuedAt c \<noteq> None" "cl_NotBefore c \<noteq> None" and n: "n < pos v1"
      and p: "\<And>t. clock v n \<le> t \<Longrightarrow> t < truncate_second (ai_ExpiresAt x) \<Longrightarrow>
        jwt_parse lib (acc_options ?v) (acc_keyfunc ?v) t (ai_Token x) = Inr c"
    have "clock v n \<le> clock w (pos w)" using cl n by (simp add: monoD)
    then have p': "jwt_parse lib (acc_options ?v) (acc_keyfunc ?v) (clock w (pos w)) (ai_Token x) = Inr c"
      using p t by simp
    obtain s' where s': "at_ResolveSession ast sid (tw_store w) = (Inr d, s')" using d(1) by (metis prod.collapse)
    show ?thesis
      using p' c d(2-) len s'
      by (simp add: bearer_Resolve_def acc_VerifySession_def now_def res on_db_def durable_ActiveAt_def bindM_eq)
  qed (use vf issuer in simp_all)
qed

end

end
