(* ===== verification/BearerTables.thy ===== *)
theory BearerTables
  imports TokenSession
begin

text \<open>
  The tables (collections) \<^verbatim>\<open>authlier_access_sessions\<close> and \<^verbatim>\<open>authlier_refresh_tokens\<close> that the
  PostgreSQL, MySQL and MongoDB adapters share: primary keys \<^verbatim>\<open>id\<close> and \<^verbatim>\<open>token_hash\<close> (\<^verbatim>\<open>_id\<close>). In the two
  SQL schemas \<^verbatim>\<open>session_id\<close> references \<^verbatim>\<open>authlier_access_sessions(id)\<close>.
\<close>

record bearer_tables =
  access_sessions :: "AccessSession list"
  refresh_tokens :: "RefreshRecord list"

type_synonym bearer_conn = "bearer_tables conn"

definition bearer_tables_ok :: "bearer_tables \<Rightarrow> bool" where
  "bearer_tables_ok d \<longleftrightarrow>
     distinct (map as_ID (access_sessions d)) \<and> distinct (map rr_TokenHash (refresh_tokens d))"

definition tables_view :: "bearer_tables \<Rightarrow> bearer_db" where
  "tables_view d =
     \<lparr>access = keyed as_ID (access_sessions d), refresh = keyed rr_TokenHash (refresh_tokens d)\<rparr>"

definition bearer_view :: "bearer_conn \<Rightarrow> bearer_db" where
  "bearer_view c = tables_view (tables c)"

definition bearer_ok :: "bearer_conn \<Rightarrow> bool" where
  "bearer_ok c \<longleftrightarrow> bearer_tables_ok (tables c)"

text \<open>Inserts; the referential constraint of the SQL schemas is checked after the unique key.\<close>

definition insert_access :: "AccessSession \<Rightarrow> bearer_tables \<Rightarrow> (err + unit) \<times> bearer_tables" where
  "insert_access a d =
     (case sql_insert (\<lambda>x y. as_ID x = as_ID y) a (access_sessions d) of
        (r, t) \<Rightarrow> (r, d\<lparr>access_sessions := t\<rparr>))"

definition insert_refresh :: "RefreshRecord \<Rightarrow> bearer_tables \<Rightarrow> (err + unit) \<times> bearer_tables" where
  "insert_refresh r d =
     (case sql_insert (\<lambda>x y. rr_TokenHash x = rr_TokenHash y) r (refresh_tokens d) of
        (x, t) \<Rightarrow> (x, d\<lparr>refresh_tokens := t\<rparr>))"

definition insert_refresh_fk :: "RefreshRecord \<Rightarrow> bearer_tables \<Rightarrow> (err + unit) \<times> bearer_tables" where
  "insert_refresh_fk r d =
     (if list_ex (\<lambda>x. rr_TokenHash r = rr_TokenHash x) (refresh_tokens d) then (Inl EUnique, d)
      else if list_ex (\<lambda>a. as_ID a = rr_SessionID r) (access_sessions d) then insert_refresh r d
      else (Inl (EDriver ''foreign key''), d))"

text \<open>\<^verbatim>\<open>UPDATE ... SET revoked_at = COALESCE(revoked_at, $1) WHERE ...\<close> on either table.\<close>

definition coalesce :: "time option \<Rightarrow> time \<Rightarrow> time option" where
  "coalesce u t = (case u of Some v \<Rightarrow> Some v | None \<Rightarrow> Some t)"

definition update_access_revoked ::
  "(AccessSession \<Rightarrow> bool) \<Rightarrow> time \<Rightarrow> bearer_tables \<Rightarrow> (err + unit) \<times> bearer_tables" where
  "update_access_revoked p t d =
     (Inr (), d\<lparr>access_sessions := snd (sql_update p
        (\<lambda>a. a\<lparr>as_RevokedAt := coalesce (as_RevokedAt a) t\<rparr>) (access_sessions d))\<rparr>)"

definition update_refresh_revoked ::
  "(RefreshRecord \<Rightarrow> bool) \<Rightarrow> time \<Rightarrow> bearer_tables \<Rightarrow> (err + unit) \<times> bearer_tables" where
  "update_refresh_revoked p t d =
     (Inr (), d\<lparr>refresh_tokens := snd (sql_update p
        (\<lambda>r. r\<lparr>rr_RevokedAt := coalesce (rr_RevokedAt r) t\<rparr>) (refresh_tokens d))\<rparr>)"

section \<open>The tables as the maps of the contract\<close>

lemma bearer_tables_okD:
  "bearer_tables_ok d \<Longrightarrow> distinct (map as_ID (access_sessions d))"
  "bearer_tables_ok d \<Longrightarrow> distinct (map rr_TokenHash (refresh_tokens d))"
  by (simp_all add: bearer_tables_ok_def)

lemma tables_view_simps [simp]:
  "access (tables_view d) = keyed as_ID (access_sessions d)"
  "refresh (tables_view d) = keyed rr_TokenHash (refresh_tokens d)"
  by (simp_all add: tables_view_def)

lemma tables_view_keys: "bearer_tables_ok d \<Longrightarrow> bearer_keys (tables_view d)"
  by (auto simp: bearer_keys_def dest: keyed_key)

lemma revoke_tables_view:
  "tables_view (d
     \<lparr>access_sessions := map (\<lambda>a. if p (as_ID a) then access_revoke t a else a) (access_sessions d),
      refresh_tokens := map (\<lambda>r. if p (rr_SessionID r) then refresh_revoke t r else r) (refresh_tokens d)\<rparr>) =
   revoke_where p t (tables_view d)"
proof -
  have "keyed as_ID (map (\<lambda>a. if p (as_ID a) then access_revoke t a else a) (access_sessions d)) i =
      map_option (\<lambda>a. if p i then access_revoke t a else a) (keyed as_ID (access_sessions d) i)" for i
    by (subst keyed_map) (auto simp: access_revoke_def dest: keyed_key intro!: option.map_cong)
  moreover have "keyed rr_TokenHash (map (\<lambda>r. if p (rr_SessionID r) then refresh_revoke t r else r) (refresh_tokens d)) h =
      map_option (\<lambda>r. if p (rr_SessionID r) then refresh_revoke t r else r) (keyed rr_TokenHash (refresh_tokens d) h)" for h
    by (subst keyed_map) (auto simp: refresh_revoke_def)
  ultimately show ?thesis by (simp add: tables_view_def revoke_where_def fun_eq_iff)
qed

lemma coalesce_eq: "coalesce u t = keep_first t u"
  by (simp add: coalesce_def keep_first_def split: option.split)

lemma coalesce_revoke:
  "(\<lambda>a. a\<lparr>as_RevokedAt := coalesce (as_RevokedAt a) t\<rparr>) = access_revoke t"
  "(\<lambda>r. r\<lparr>rr_RevokedAt := coalesce (rr_RevokedAt r) t\<rparr>) = refresh_revoke t"
  by (simp_all add: fun_eq_iff access_revoke_def refresh_revoke_def coalesce_eq)

lemma bearer_tables_ok_map:
  "bearer_tables_ok (d\<lparr>access_sessions := map (\<lambda>a. if p a then access_revoke t a else a) (access_sessions d),
     refresh_tokens := map (\<lambda>r. if q r then refresh_revoke u r else r) (refresh_tokens d)\<rparr>) = bearer_tables_ok d"
proof -
  have "map as_ID (map (\<lambda>a. if p a then access_revoke t a else a) xs) = map as_ID xs" for xs
    by (simp add: access_revoke_def)
  moreover have "map rr_TokenHash (map (\<lambda>r. if q r then refresh_revoke u r else r) ys) = map rr_TokenHash ys" for ys
    by (simp add: refresh_revoke_def)
  ultimately show ?thesis by (simp add: bearer_tables_ok_def del: map_map)
qed

lemma of_subject_tables:
  "bearer_tables_ok d \<Longrightarrow>
     of_subject sub (tables_view d) i = (\<exists>a \<in> set (access_sessions d). as_ID a = i \<and> as_SubjectID a = sub)"
  by (auto simp: of_subject_def keyed_Some bearer_tables_ok_def)

lemma of_subject_member:
  "bearer_tables_ok d \<Longrightarrow> a \<in> set (access_sessions d) \<Longrightarrow>
     of_subject sub (tables_view d) (as_ID a) = (as_SubjectID a = sub)"
  by (auto simp: of_subject_tables bearer_tables_ok_def distinct_map inj_on_def)

lemma subject_ids:
  "bearer_tables_ok d \<Longrightarrow>
     (i \<in> as_ID ` {a \<in> set (access_sessions d). as_SubjectID a = sub}) = of_subject sub (tables_view d) i"
  unfolding of_subject_tables image_iff by auto

lemma revoke_subject_rows:
  "bearer_tables_ok d \<Longrightarrow>
     map (\<lambda>a. if as_SubjectID a = sub then access_revoke t a else a) (access_sessions d) =
     map (\<lambda>a. if of_subject sub (tables_view d) (as_ID a) then access_revoke t a else a) (access_sessions d)"
  by (auto simp: of_subject_member)

text \<open>The contract of an operation follows from its runs on a connection without faults.\<close>

lemma bearer_implements:
  assumes "robust op"
    and "\<And>c :: bearer_conn. fault c = (\<lambda>_. False) \<Longrightarrow> bearer_tables_ok (tables c) \<Longrightarrow>
      bearer_tables_ok (tables (snd (op c))) \<and>
      ((\<exists>e. is_driver e \<and> fst (op c) = Inl e) \<and> tables_view (tables (snd (op c))) = tables_view (tables c) \<or>
       spec (tables_view (tables c)) (fst (op c)) (tables_view (tables (snd (op c)))))"
  shows "implements bearer_view bearer_ok op spec"
proof (rule implements_weaken)
  show "implements bearer_view bearer_ok op
      (\<lambda>a r b. (\<exists>e. is_driver e \<and> r = Inl e) \<and> b = a \<or> spec a r b)"
    using implements_robust [OF assms(1), where okt = "\<lambda>_ d. bearer_tables_ok d" and vw = tables_view and
        spec = "\<lambda>a r b. (\<exists>e. is_driver e \<and> r = Inl e) \<and> b = a \<or> spec a r b"] assms(2)
    by (simp add: bearer_view_def [abs_def] bearer_ok_def [abs_def])
qed

text \<open>Inserts, and the mark of a rotated token, on the maps.\<close>

lemma bearer_table_key:
  "list_ex (\<lambda>x. h = rr_TokenHash x) rs = (h \<in> dom (keyed rr_TokenHash rs))"
  "list_ex (\<lambda>a. as_ID a = i) as = (i \<in> dom (keyed as_ID as))"
  "list_ex (\<lambda>a. i = as_ID a) as = (i \<in> dom (keyed as_ID as))"
proof -
  have "list_ex (\<lambda>x. k x = y) t = (y \<in> dom (keyed k t))" for k :: "'x \<Rightarrow> 'y" and y t
    by (metis (mono_tags, lifting) domIff keyed_None list_ex_iff)
  then show "list_ex (\<lambda>x. h = rr_TokenHash x) rs = (h \<in> dom (keyed rr_TokenHash rs))"
    "list_ex (\<lambda>a. as_ID a = i) as = (i \<in> dom (keyed as_ID as))"
    "list_ex (\<lambda>a. i = as_ID a) as = (i \<in> dom (keyed as_ID as))"
    by (simp_all add: eq_commute)
qed

lemma keyed_fresh_append:
  "keyed k t (k r) = None \<Longrightarrow> keyed k (t @ [r]) = (keyed k t)(k r \<mapsto> r)"
  by (rule keyed_append) (simp add: keyed_None)

lemma insert_access_eq:
  "insert_access a d =
     (if as_ID a \<in> dom (access (tables_view d)) then (Inl EUnique, d)
      else (Inr (), d\<lparr>access_sessions := access_sessions d @ [a]\<rparr>))"
  by (simp add: insert_access_def sql_insert_def bearer_table_key)

lemma insert_refresh_eq:
  "insert_refresh r d =
     (if rr_TokenHash r \<in> dom (refresh (tables_view d)) then (Inl EUnique, d)
      else (Inr (), d\<lparr>refresh_tokens := refresh_tokens d @ [r]\<rparr>))"
  by (simp add: insert_refresh_def sql_insert_def bearer_table_key)

lemma insert_refresh_fk_eq:
  "insert_refresh_fk r d =
     (if rr_TokenHash r \<in> dom (refresh (tables_view d)) then (Inl EUnique, d)
      else if rr_SessionID r \<in> dom (access (tables_view d))
      then (Inr (), d\<lparr>refresh_tokens := refresh_tokens d @ [r]\<rparr>)
      else (Inl (EDriver ''foreign key''), d))"
  by (simp add: insert_refresh_fk_def insert_refresh_eq bearer_table_key)

lemma insert_refresh_view:
  assumes "bearer_tables_ok d" and "keyed rr_TokenHash (refresh_tokens d) (rr_TokenHash r) = None"
  shows "bearer_tables_ok (d\<lparr>refresh_tokens := refresh_tokens d @ [r]\<rparr>)"
    and "tables_view (d\<lparr>refresh_tokens := refresh_tokens d @ [r]\<rparr>) =
      (tables_view d)\<lparr>refresh := (refresh (tables_view d))(rr_TokenHash r \<mapsto> r)\<rparr>"
  using assms by (auto simp: bearer_tables_ok_def tables_view_def keyed_fresh_append keyed_None)

lemma insert_access_view:
  assumes "bearer_tables_ok d" and "keyed as_ID (access_sessions d) (as_ID a) = None"
  shows "bearer_tables_ok (d\<lparr>access_sessions := access_sessions d @ [a]\<rparr>)"
    and "tables_view (d\<lparr>access_sessions := access_sessions d @ [a]\<rparr>) =
      (tables_view d)\<lparr>access := (access (tables_view d))(as_ID a \<mapsto> a)\<rparr>"
  using assms by (auto simp: bearer_tables_ok_def tables_view_def keyed_fresh_append keyed_None)

lemma mark_rotated_view:
  assumes "bearer_tables_ok d"
  shows "bearer_tables_ok (d\<lparr>refresh_tokens := map (\<lambda>r. if rr_TokenHash r = h \<and> p r
        then r\<lparr>rr_RotatedAt := Some t\<rparr> else r) (refresh_tokens d)\<rparr>)"
    and "tables_view (d\<lparr>refresh_tokens := map (\<lambda>r. if rr_TokenHash r = h \<and> p r
        then r\<lparr>rr_RotatedAt := Some t\<rparr> else r) (refresh_tokens d)\<rparr>) =
      (case refresh (tables_view d) h of None \<Rightarrow> tables_view d
       | Some r \<Rightarrow> if p r then (tables_view d)\<lparr>refresh := (refresh (tables_view d))(h \<mapsto> r\<lparr>rr_RotatedAt := Some t\<rparr>)\<rparr>
           else tables_view d)"
proof -
  have "map rr_TokenHash (map (\<lambda>r. if rr_TokenHash r = h \<and> p r then r\<lparr>rr_RotatedAt := Some t\<rparr> else r) ys) =
      map rr_TokenHash ys" for ys by simp
  then show "bearer_tables_ok (d\<lparr>refresh_tokens := map (\<lambda>r. if rr_TokenHash r = h \<and> p r
        then r\<lparr>rr_RotatedAt := Some t\<rparr> else r) (refresh_tokens d)\<rparr>)"
    using assms by (simp add: bearer_tables_ok_def del: map_map)
  have "keyed rr_TokenHash (map (\<lambda>r. if rr_TokenHash r = h \<and> p r then r\<lparr>rr_RotatedAt := Some t\<rparr> else r)
        (refresh_tokens d)) = (case keyed rr_TokenHash (refresh_tokens d) h of None \<Rightarrow> keyed rr_TokenHash (refresh_tokens d)
     | Some r \<Rightarrow> if p r then (keyed rr_TokenHash (refresh_tokens d))(h \<mapsto> r\<lparr>rr_RotatedAt := Some t\<rparr>)
         else keyed rr_TokenHash (refresh_tokens d))"
    by (rule keyed_update_one) (use assms in \<open>simp_all add: bearer_tables_ok_def\<close>)
  then show "tables_view (d\<lparr>refresh_tokens := map (\<lambda>r. if rr_TokenHash r = h \<and> p r
        then r\<lparr>rr_RotatedAt := Some t\<rparr> else r) (refresh_tokens d)\<rparr>) =
      (case refresh (tables_view d) h of None \<Rightarrow> tables_view d
       | Some r \<Rightarrow> if p r then (tables_view d)\<lparr>refresh := (refresh (tables_view d))(h \<mapsto> r\<lparr>rr_RotatedAt := Some t\<rparr>)\<rparr>
           else tables_view d)"
    by (simp add: tables_view_def split: option.split)
qed

text \<open>The two statements of an active rotation together.\<close>

lemma rotate_tables_view:
  assumes "bearer_tables_ok d" and "keyed rr_TokenHash (refresh_tokens d) h = Some q"
    and "keyed rr_TokenHash (refresh_tokens d) (rr_TokenHash n) = None" and "p q"
  shows "bearer_tables_ok (d\<lparr>refresh_tokens := map (\<lambda>r. if rr_TokenHash r = h \<and> p r
        then r\<lparr>rr_RotatedAt := Some t\<rparr> else r) (refresh_tokens d @ [n])\<rparr>)"
    and "tables_view (d\<lparr>refresh_tokens := map (\<lambda>r. if rr_TokenHash r = h \<and> p r
        then r\<lparr>rr_RotatedAt := Some t\<rparr> else r) (refresh_tokens d @ [n])\<rparr>) =
      (tables_view d)\<lparr>refresh := (refresh (tables_view d))
         (rr_TokenHash n \<mapsto> n, h \<mapsto> q\<lparr>rr_RotatedAt := Some t\<rparr>)\<rparr>"
proof -
  have "h \<noteq> rr_TokenHash n" using assms(2,3) by auto
  then show "bearer_tables_ok (d\<lparr>refresh_tokens := map (\<lambda>r. if rr_TokenHash r = h \<and> p r
        then r\<lparr>rr_RotatedAt := Some t\<rparr> else r) (refresh_tokens d @ [n])\<rparr>)"
    and "tables_view (d\<lparr>refresh_tokens := map (\<lambda>r. if rr_TokenHash r = h \<and> p r
        then r\<lparr>rr_RotatedAt := Some t\<rparr> else r) (refresh_tokens d @ [n])\<rparr>) =
      (tables_view d)\<lparr>refresh := (refresh (tables_view d))
         (rr_TokenHash n \<mapsto> n, h \<mapsto> q\<lparr>rr_RotatedAt := Some t\<rparr>)\<rparr>"
    using mark_rotated_view [OF insert_refresh_view(1) [OF assms(1,3)], of h p t] assms(2-4)
    by (simp_all add: insert_refresh_view(2) [OF assms(1,3)] fun_upd_twist)
qed

lemma rotate_all_view:
  assumes "bearer_tables_ok d" and "keyed rr_TokenHash (refresh_tokens d) h = Some q"
    and "keyed rr_TokenHash (refresh_tokens d) (rr_TokenHash n) = None"
  shows "bearer_tables_ok (d\<lparr>refresh_tokens := map (\<lambda>r. if rr_TokenHash r = h
        then r\<lparr>rr_RotatedAt := Some t\<rparr> else r) (refresh_tokens d @ [n])\<rparr>)"
    and "tables_view (d\<lparr>refresh_tokens := map (\<lambda>r. if rr_TokenHash r = h
        then r\<lparr>rr_RotatedAt := Some t\<rparr> else r) (refresh_tokens d @ [n])\<rparr>) =
      (tables_view d)\<lparr>refresh := (refresh (tables_view d))
         (rr_TokenHash n \<mapsto> n, h \<mapsto> q\<lparr>rr_RotatedAt := Some t\<rparr>)\<rparr>"
  using rotate_tables_view [OF assms, of "\<lambda>_. True" t] by simp_all

lemma create_session_view:
  assumes "bearer_tables_ok d" and "keyed as_ID (access_sessions d) (as_ID a) = None"
    and "keyed rr_TokenHash (refresh_tokens d) (rr_TokenHash r) = None"
  shows "bearer_tables_ok (d\<lparr>access_sessions := access_sessions d @ [a],
      refresh_tokens := refresh_tokens d @ [r]\<rparr>)"
    and "tables_view (d\<lparr>access_sessions := access_sessions d @ [a],
        refresh_tokens := refresh_tokens d @ [r]\<rparr>) =
      (tables_view d)\<lparr>access := (access (tables_view d))(as_ID a \<mapsto> a),
        refresh := (refresh (tables_view d))(rr_TokenHash r \<mapsto> r)\<rparr>"
  using insert_refresh_view [OF insert_access_view(1) [OF assms(1,2)], of r] assms(3)
    insert_access_view(2) [OF assms(1,2)]
  by simp_all

end
