(* ===== verification/PostgresBearer.thy ===== *)
theory PostgresBearer
  imports BearerTables
begin

text \<open>
  \<^verbatim>\<open>AccessSessionStore\<close> and \<^verbatim>\<open>RefreshTokenStore\<close> of the PostgreSQL adapter
  (src/storage/postgres/sessions.go), statement by statement. The interpretation shows that the two
  stores together implement the contract \<open>bearer_store\<close>.
\<close>

definition pg_access_CreateSession ::
  "AccessSession \<Rightarrow> RefreshRecord \<Rightarrow> bearer_conn \<Rightarrow> (err + unit) \<times> bearer_conn" where
  "pg_access_CreateSession session refreshToken =
     transaction (bindM (stmt (insert_access session)) (\<lambda>_. stmt (insert_refresh_fk refreshToken)))"

definition pg_access_ResolveSession ::
  "string \<Rightarrow> bearer_conn \<Rightarrow> (err + DurableSession) \<times> bearer_conn" where
  "pg_access_ResolveSession sessionID =
     bindM (\<lambda>c. stmt ((\<lambda>current_timestamp d. (first_row (sql_select
              (\<lambda>a. as_ID a = sessionID \<and> as_RevokedAt a = None \<and> as_ExpiresAt a > current_timestamp)
              (access_sessions d)), d)) (server_now c)) c)
       (\<lambda>row. retM (Inr (durable_of row)))"

definition pg_access_ListBySubject ::
  "string \<Rightarrow> bearer_conn \<Rightarrow> (err + AccessSession list) \<times> bearer_conn" where
  "pg_access_ListBySubject subjectID =
     stmt (\<lambda>d. (Inr (order_desc as_CreatedAt
       (sql_select (\<lambda>a. as_SubjectID a = subjectID) (access_sessions d))), d))"

text \<open>\<^verbatim>\<open>revokeAccessSession\<close>: the two updates that end a session with its refresh tokens.\<close>

definition pg_revokeAccessSession ::
  "string \<Rightarrow> time \<Rightarrow> bearer_conn \<Rightarrow> (err + unit) \<times> bearer_conn" where
  "pg_revokeAccessSession sessionID revokedAt =
     bindM (stmt (update_access_revoked (\<lambda>a. as_ID a = sessionID) revokedAt)) (\<lambda>_.
       stmt (update_refresh_revoked (\<lambda>r. rr_SessionID r = sessionID) revokedAt))"

definition pg_access_Revoke :: "string \<Rightarrow> time \<Rightarrow> bearer_conn \<Rightarrow> (err + unit) \<times> bearer_conn" where
  "pg_access_Revoke sessionID revokedAt = transaction (pg_revokeAccessSession sessionID revokedAt)"

definition pg_access_RevokeAll :: "string \<Rightarrow> time \<Rightarrow> bearer_conn \<Rightarrow> (err + unit) \<times> bearer_conn" where
  "pg_access_RevokeAll subjectID revokedAt =
     transaction
       (bindM (stmt (\<lambda>d. update_refresh_revoked
                (\<lambda>r. rr_SessionID r \<in> set (map as_ID
                   (sql_select (\<lambda>a. as_SubjectID a = subjectID) (access_sessions d)))) revokedAt d)) (\<lambda>_.
        stmt (update_access_revoked (\<lambda>a. as_SubjectID a = subjectID) revokedAt)))"

definition pg_AccessSessionStore :: "bearer_conn AccessSessionStore" where
  "pg_AccessSessionStore =
     \<lparr>at_ResolveSession = pg_access_ResolveSession, at_CreateSession = pg_access_CreateSession,
      at_ListBySubject = pg_access_ListBySubject, at_Revoke = pg_access_Revoke,
      at_RevokeAll = pg_access_RevokeAll\<rparr>"

definition pg_refresh_Create :: "RefreshRecord \<Rightarrow> bearer_conn \<Rightarrow> (err + unit) \<times> bearer_conn" where
  "pg_refresh_Create r =
     on_err (\<lambda>e. if e = EUnique then ERefresh Refresh_ErrConflict else e) (stmt (insert_refresh_fk r))"

definition pg_refresh_row ::
  "hash \<Rightarrow> bearer_conn \<Rightarrow> (err + RefreshRecord) \<times> bearer_conn" where
  "pg_refresh_row h =
     on_err (\<lambda>e. if errors_is e ENoRows then ERefresh Refresh_ErrNotFound else e)
       (stmt (\<lambda>d. (first_row (sql_select (\<lambda>r. rr_TokenHash r = h) (refresh_tokens d)), d)))"

definition pg_refresh_FindByTokenHash ::
  "hash \<Rightarrow> bearer_conn \<Rightarrow> (err + RefreshRecord) \<times> bearer_conn" where
  "pg_refresh_FindByTokenHash = pg_refresh_row"

text \<open>
  \<^verbatim>\<open>Rotate\<close>: the branch for an inactive token commits the revocation before it reports the reuse; the
  statement for the replacement names four columns only.
\<close>

definition pg_refresh_Rotate ::
  "hash \<Rightarrow> RefreshRecord \<Rightarrow> time \<Rightarrow> bearer_conn \<Rightarrow> (err + unit) \<times> bearer_conn" where
  "pg_refresh_Rotate current replacement rotatedAt =
     bindM
       (transaction
         (bindM (pg_refresh_row current) (\<lambda>row.
          if rr_RotatedAt row \<noteq> None \<or> rr_RevokedAt row \<noteq> None \<or> \<not> rotatedAt < rr_ExpiresAt row
          then bindM (pg_revokeAccessSession (rr_SessionID row) rotatedAt) (\<lambda>_. retM (Inr True))
          else bindM (on_err (\<lambda>e. if e = EUnique then ERefresh Refresh_ErrConflict else e)
                        (stmt (insert_refresh_fk (replacement\<lparr>rr_RotatedAt := None, rr_RevokedAt := None\<rparr>)))) (\<lambda>_.
               bindM (stmt (\<lambda>d. (Inr (), d\<lparr>refresh_tokens := snd (sql_update (\<lambda>r. rr_TokenHash r = current)
                        (\<lambda>r. r\<lparr>rr_RotatedAt := Some rotatedAt\<rparr>) (refresh_tokens d))\<rparr>))) (\<lambda>_.
               retM (Inr False))))))
       (\<lambda>reused. retM (if reused then Inl (ERefresh Refresh_ErrReuseDetected) else Inr ()))"

definition pg_refresh_RevokeSession ::
  "string \<Rightarrow> time \<Rightarrow> bearer_conn \<Rightarrow> (err + unit) \<times> bearer_conn" where
  "pg_refresh_RevokeSession sessionID revokedAt =
     transaction (pg_revokeAccessSession sessionID revokedAt)"

definition pg_RefreshTokenStore :: "bearer_conn RefreshStore" where
  "pg_RefreshTokenStore =
     \<lparr>rs_Create = pg_refresh_Create, rs_FindByTokenHash = pg_refresh_FindByTokenHash,
      rs_Rotate = pg_refresh_Rotate, rs_RevokeSession = pg_refresh_RevokeSession\<rparr>"

section \<open>Each statement implements its reference operation\<close>

lemma pg_bearer_steps [simp, intro!]:
  "steps (pg_revokeAccessSession i t)" "steps (pg_refresh_row h)"
  by (auto simp: pg_revokeAccessSession_def pg_refresh_row_def)

lemma pg_bearer_robust [intro!]:
  "robust (pg_access_CreateSession a r)" "robust (pg_access_ResolveSession i)"
  "robust (pg_access_ListBySubject sub)" "robust (pg_access_Revoke i t)"
  "robust (pg_access_RevokeAll sub t)" "robust (pg_refresh_Create r)"
  "robust (pg_refresh_FindByTokenHash h)" "robust (pg_refresh_Rotate h r t)"
  "robust (pg_refresh_RevokeSession i t)"
  unfolding pg_access_CreateSession_def pg_access_ResolveSession_def pg_access_ListBySubject_def
    pg_access_Revoke_def pg_access_RevokeAll_def pg_refresh_Create_def pg_refresh_FindByTokenHash_def
    pg_refresh_row_def pg_refresh_Rotate_def pg_refresh_RevokeSession_def
  by auto

lemma pg_revoke_effect:
  assumes "fault c = (\<lambda>_. False)"
  shows "fst (pg_revokeAccessSession i t c) = Inr ()"
    and "tables (snd (pg_revokeAccessSession i t c)) = (tables c)
      \<lparr>access_sessions := map (\<lambda>a. if as_ID a = i then access_revoke t a else a) (access_sessions (tables c)),
       refresh_tokens := map (\<lambda>r. if rr_SessionID r = i then refresh_revoke t r else r) (refresh_tokens (tables c))\<rparr>"
    and "fault (snd (pg_revokeAccessSession i t c)) = (\<lambda>_. False)"
  using assms
  by (simp_all add: pg_revokeAccessSession_def bindM_eq stmt_quiet update_access_revoked_def
      update_refresh_revoked_def sql_update_def coalesce_revoke)

lemma pg_revoke_implements:
  "implements bearer_view bearer_ok (transaction (pg_revokeAccessSession i t)) (fun_spec (spec_RevokeSession i t))"
  by (rule bearer_implements)
    (auto simp: transaction_quiet pg_revoke_effect fun_spec_def spec_RevokeSession_def
      revoke_tables_view [where p = "\<lambda>j. j = i"] bearer_tables_ok_map)

lemma pg_revoke_all_effect:
  assumes "fault c = (\<lambda>_. False)" and "bearer_tables_ok (tables c)"
  shows "fst (pg_access_RevokeAll sub t c) = Inr ()"
    and "tables (snd (pg_access_RevokeAll sub t c)) = (tables c)
      \<lparr>access_sessions := map (\<lambda>a. if of_subject sub (tables_view (tables c)) (as_ID a) then access_revoke t a else a)
         (access_sessions (tables c)),
       refresh_tokens := map (\<lambda>r. if of_subject sub (tables_view (tables c)) (rr_SessionID r) then refresh_revoke t r else r)
         (refresh_tokens (tables c))\<rparr>"
  using assms
  by (simp_all add: pg_access_RevokeAll_def transaction_quiet bindM_eq stmt_quiet update_access_revoked_def
      update_refresh_revoked_def sql_update_def coalesce_revoke sql_select_def subject_ids revoke_subject_rows)

interpretation pg_bearer: bearer_store pg_RefreshTokenStore pg_AccessSessionStore bearer_view bearer_ok
proof
  fix s show "bearer_ok s \<Longrightarrow> bearer_keys (bearer_view s)"
    by (simp add: bearer_ok_def bearer_view_def tables_view_keys)
next
  fix r show "implements bearer_view bearer_ok (rs_Create pg_RefreshTokenStore r) (fun_spec (spec_ref_Create r))"
    by (rule bearer_implements)
      (auto simp: pg_RefreshTokenStore_def pg_refresh_Create_def on_err_eq stmt_quiet insert_refresh_fk_eq
        insert_refresh_view fun_spec_def spec_ref_Create_def)
next
  fix h show "implements bearer_view bearer_ok (rs_FindByTokenHash pg_RefreshTokenStore h) (fun_spec (spec_ref_Find h))"
    by (rule bearer_implements)
      (auto simp: pg_RefreshTokenStore_def pg_refresh_FindByTokenHash_def pg_refresh_row_def on_err_eq
        stmt_quiet sql_select_def fun_spec_def spec_ref_Find_def bearer_tables_okD first_row_keyed
        split: option.split)
next
  fix r :: RefreshRecord and h t assume "rr_RotatedAt r = None" "rr_RevokedAt r = None"
  then have "r\<lparr>rr_RotatedAt := None, rr_RevokedAt := None\<rparr> = r" by (cases r) simp
  then show "implements bearer_view bearer_ok (rs_Rotate pg_RefreshTokenStore h r t) (fun_spec (spec_ref_Rotate h r t))"
    unfolding pg_RefreshTokenStore_def RefreshStore.simps
    by (intro bearer_implements)
      (auto simp: pg_refresh_Rotate_def pg_refresh_row_def
        transaction_quiet bindM_eq on_err_eq stmt_quiet sql_select_def insert_refresh_fk_eq sql_update_def
        first_row_keyed bearer_tables_okD pg_revoke_effect
        revoke_tables_view [where p = "\<lambda>j. j = i" for i] bearer_tables_ok_map
        rotate_all_view
        fun_spec_def spec_ref_Rotate_def ref_ActiveAt_def simp del: map_append split: option.splits)
next
  fix i t show "implements bearer_view bearer_ok (rs_RevokeSession pg_RefreshTokenStore i t)
      (fun_spec (spec_RevokeSession i t))"
    using pg_revoke_implements by (simp add: pg_RefreshTokenStore_def pg_refresh_RevokeSession_def)
next
  fix r :: RefreshRecord and a :: AccessSession assume "rr_SessionID r = as_ID a"
  then show "implements bearer_view bearer_ok (at_CreateSession pg_AccessSessionStore a r) (spec_CreateSession a r)"
    unfolding pg_AccessSessionStore_def AccessSessionStore.simps
    by (intro bearer_implements)
      (auto simp: pg_access_CreateSession_def transaction_quiet bindM_eq stmt_quiet insert_access_eq
        insert_refresh_fk_eq insert_access_view create_session_view spec_CreateSession_def)
next
  fix i show "implements bearer_view bearer_ok (at_ResolveSession pg_AccessSessionStore i) (spec_ResolveSession i)"
    unfolding pg_AccessSessionStore_def AccessSessionStore.simps
    by (rule bearer_implements)
      (auto simp: pg_access_ResolveSession_def bindM_eq stmt_quiet sql_select_def filter_keyed first_row_def
        bearer_tables_okD spec_ResolveSession_def split: option.splits)
next
  fix sub show "implements bearer_view bearer_ok (at_ListBySubject pg_AccessSessionStore sub) (spec_ListAccess sub)"
    by (rule bearer_implements)
      (auto simp: pg_AccessSessionStore_def pg_access_ListBySubject_def stmt_quiet sql_select_def
        spec_ListAccess_def ran_keyed bearer_tables_ok_def sorted_order_desc distinct_map)
next
  fix i t show "implements bearer_view bearer_ok (at_Revoke pg_AccessSessionStore i t)
      (fun_spec (spec_RevokeSession i t))"
    using pg_revoke_implements by (simp add: pg_AccessSessionStore_def pg_access_Revoke_def)
next
  fix sub t show "implements bearer_view bearer_ok (at_RevokeAll pg_AccessSessionStore sub t)
      (fun_spec (spec_RevokeAllAccess sub t))"
    unfolding pg_AccessSessionStore_def AccessSessionStore.simps
    by (rule bearer_implements)
      (auto simp: pg_revoke_all_effect fun_spec_def spec_RevokeAllAccess_def
        revoke_tables_view bearer_tables_ok_map)
qed

end
