(* ===== verification/MysqlBearer.thy ===== *)
theory MysqlBearer
  imports PostgresBearer
begin

text \<open>
  \<^verbatim>\<open>AccessSessionStore\<close> and \<^verbatim>\<open>RefreshTokenStore\<close> of the MySQL adapter (src/storage/mysql/sessions.go),
  translated statement by statement. None of their statements looks at \<^verbatim>\<open>RowsAffected\<close>, so the two
  SQL adapters do the same on their tables; the interpretation rests on that equivalence.
\<close>

definition my_access_CreateSession ::
  "AccessSession \<Rightarrow> RefreshRecord \<Rightarrow> bearer_conn \<Rightarrow> (err + unit) \<times> bearer_conn" where
  "my_access_CreateSession session refreshToken =
     transaction (bindM (stmt (insert_access session)) (\<lambda>_. stmt (insert_refresh_fk refreshToken)))"

definition my_access_ResolveSession ::
  "string \<Rightarrow> bearer_conn \<Rightarrow> (err + DurableSession) \<times> bearer_conn" where
  "my_access_ResolveSession sessionID =
     bindM (\<lambda>c. stmt ((\<lambda>current_timestamp d. (first_row (sql_select
              (\<lambda>a. as_ID a = sessionID \<and> as_RevokedAt a = None \<and> as_ExpiresAt a > current_timestamp)
              (access_sessions d)), d)) (server_now c)) c)
       (\<lambda>row. retM (Inr (durable_of row)))"

definition my_access_ListBySubject ::
  "string \<Rightarrow> bearer_conn \<Rightarrow> (err + AccessSession list) \<times> bearer_conn" where
  "my_access_ListBySubject subjectID =
     stmt (\<lambda>d. (Inr (order_desc as_CreatedAt
       (sql_select (\<lambda>a. as_SubjectID a = subjectID) (access_sessions d))), d))"

text \<open>\<^verbatim>\<open>revokeAccessSession\<close>: the two updates that end a session with its refresh tokens.\<close>

definition my_revokeAccessSession ::
  "string \<Rightarrow> time \<Rightarrow> bearer_conn \<Rightarrow> (err + unit) \<times> bearer_conn" where
  "my_revokeAccessSession sessionID revokedAt =
     bindM (stmt (update_access_revoked (\<lambda>a. as_ID a = sessionID) revokedAt)) (\<lambda>_.
       stmt (update_refresh_revoked (\<lambda>r. rr_SessionID r = sessionID) revokedAt))"

definition my_access_Revoke :: "string \<Rightarrow> time \<Rightarrow> bearer_conn \<Rightarrow> (err + unit) \<times> bearer_conn" where
  "my_access_Revoke sessionID revokedAt = transaction (my_revokeAccessSession sessionID revokedAt)"

definition my_access_RevokeAll :: "string \<Rightarrow> time \<Rightarrow> bearer_conn \<Rightarrow> (err + unit) \<times> bearer_conn" where
  "my_access_RevokeAll subjectID revokedAt =
     transaction
       (bindM (stmt (\<lambda>d. update_refresh_revoked
                (\<lambda>r. rr_SessionID r \<in> set (map as_ID
                   (sql_select (\<lambda>a. as_SubjectID a = subjectID) (access_sessions d)))) revokedAt d)) (\<lambda>_.
        stmt (update_access_revoked (\<lambda>a. as_SubjectID a = subjectID) revokedAt)))"

definition my_AccessSessionStore :: "bearer_conn AccessSessionStore" where
  "my_AccessSessionStore =
     \<lparr>at_ResolveSession = my_access_ResolveSession, at_CreateSession = my_access_CreateSession,
      at_ListBySubject = my_access_ListBySubject, at_Revoke = my_access_Revoke,
      at_RevokeAll = my_access_RevokeAll\<rparr>"

definition my_refresh_Create :: "RefreshRecord \<Rightarrow> bearer_conn \<Rightarrow> (err + unit) \<times> bearer_conn" where
  "my_refresh_Create r =
     on_err (\<lambda>e. if e = EUnique then ERefresh Refresh_ErrConflict else e) (stmt (insert_refresh_fk r))"

definition my_refresh_row ::
  "hash \<Rightarrow> bearer_conn \<Rightarrow> (err + RefreshRecord) \<times> bearer_conn" where
  "my_refresh_row h =
     on_err (\<lambda>e. if errors_is e ENoRows then ERefresh Refresh_ErrNotFound else e)
       (stmt (\<lambda>d. (first_row (sql_select (\<lambda>r. rr_TokenHash r = h) (refresh_tokens d)), d)))"

definition my_refresh_FindByTokenHash ::
  "hash \<Rightarrow> bearer_conn \<Rightarrow> (err + RefreshRecord) \<times> bearer_conn" where
  "my_refresh_FindByTokenHash = my_refresh_row"

text \<open>
  \<^verbatim>\<open>Rotate\<close>: the branch for an inactive token commits the revocation before it reports the reuse; the
  statement for the replacement names four columns only.
\<close>

definition my_refresh_Rotate ::
  "hash \<Rightarrow> RefreshRecord \<Rightarrow> time \<Rightarrow> bearer_conn \<Rightarrow> (err + unit) \<times> bearer_conn" where
  "my_refresh_Rotate current replacement rotatedAt =
     bindM
       (transaction
         (bindM (my_refresh_row current) (\<lambda>row.
          if rr_RotatedAt row \<noteq> None \<or> rr_RevokedAt row \<noteq> None \<or> \<not> rotatedAt < rr_ExpiresAt row
          then bindM (my_revokeAccessSession (rr_SessionID row) rotatedAt) (\<lambda>_. retM (Inr True))
          else bindM (on_err (\<lambda>e. if e = EUnique then ERefresh Refresh_ErrConflict else e)
                        (stmt (insert_refresh_fk (replacement\<lparr>rr_RotatedAt := None, rr_RevokedAt := None\<rparr>)))) (\<lambda>_.
               bindM (stmt (\<lambda>d. (Inr (), d\<lparr>refresh_tokens := snd (sql_update (\<lambda>r. rr_TokenHash r = current)
                        (\<lambda>r. r\<lparr>rr_RotatedAt := Some rotatedAt\<rparr>) (refresh_tokens d))\<rparr>))) (\<lambda>_.
               retM (Inr False))))))
       (\<lambda>reused. retM (if reused then Inl (ERefresh Refresh_ErrReuseDetected) else Inr ()))"

definition my_refresh_RevokeSession ::
  "string \<Rightarrow> time \<Rightarrow> bearer_conn \<Rightarrow> (err + unit) \<times> bearer_conn" where
  "my_refresh_RevokeSession sessionID revokedAt =
     transaction (my_revokeAccessSession sessionID revokedAt)"

definition my_RefreshTokenStore :: "bearer_conn RefreshStore" where
  "my_RefreshTokenStore =
     \<lparr>rs_Create = my_refresh_Create, rs_FindByTokenHash = my_refresh_FindByTokenHash,
      rs_Rotate = my_refresh_Rotate, rs_RevokeSession = my_refresh_RevokeSession\<rparr>"

section \<open>The two SQL adapters agree\<close>

lemma my_bearer_parts:
  "my_revokeAccessSession = pg_revokeAccessSession" "my_refresh_row = pg_refresh_row"
  by (simp_all add: fun_eq_iff my_revokeAccessSession_def pg_revokeAccessSession_def my_refresh_row_def
      pg_refresh_row_def)

lemma my_access_eq:
  "my_access_CreateSession = pg_access_CreateSession"
  "my_access_ResolveSession = pg_access_ResolveSession"
  "my_access_ListBySubject = pg_access_ListBySubject"
  "my_access_Revoke = pg_access_Revoke"
  "my_access_RevokeAll = pg_access_RevokeAll"
  by (intro ext; simp only: my_access_CreateSession_def pg_access_CreateSession_def 
      my_access_ResolveSession_def pg_access_ResolveSession_def my_access_ListBySubject_def 
      pg_access_ListBySubject_def my_access_Revoke_def pg_access_Revoke_def 
      my_access_RevokeAll_def pg_access_RevokeAll_def my_bearer_parts)+

lemma my_refresh_eq:
  "my_refresh_Create = pg_refresh_Create"
  "my_refresh_FindByTokenHash = pg_refresh_FindByTokenHash"
  "my_refresh_Rotate = pg_refresh_Rotate"
  "my_refresh_RevokeSession = pg_refresh_RevokeSession"
  by (intro ext; simp only: my_refresh_Create_def pg_refresh_Create_def 
      my_refresh_FindByTokenHash_def pg_refresh_FindByTokenHash_def my_refresh_Rotate_def 
      pg_refresh_Rotate_def my_refresh_RevokeSession_def pg_refresh_RevokeSession_def 
      my_bearer_parts)+

lemma my_stores_eq: "my_AccessSessionStore = pg_AccessSessionStore" "my_RefreshTokenStore = pg_RefreshTokenStore"
  by (simp_all add: my_AccessSessionStore_def pg_AccessSessionStore_def my_RefreshTokenStore_def
      pg_RefreshTokenStore_def my_access_eq my_refresh_eq)

interpretation my_bearer: bearer_store my_RefreshTokenStore my_AccessSessionStore bearer_view bearer_ok
  unfolding my_stores_eq by (rule pg_bearer.bearer_store_axioms)

end
