(* ===== verification/MongoBearer.thy ===== *)
theory MongoBearer
  imports BearerTables MongoSessions
begin

text \<open>
  \<^verbatim>\<open>AccessSessionStore\<close> and \<^verbatim>\<open>RefreshTokenStore\<close> of the MongoDB adapter
  (src/storage/mongodb/sessions.go), on the collections of the theory BearerTables. There is no
  referential constraint. \<^verbatim>\<open>$exists: false\<close> on an \<^verbatim>\<open>omitempty\<close> pointer field is \<open>= None\<close>, and \<^verbatim>\<open>$$NOW\<close> is the
  clock of the server.
\<close>

text \<open>\<^verbatim>\<open>UpdateOne\<close> and \<^verbatim>\<open>UpdateMany\<close> on the two collections.\<close>

definition mg_access_set_revoked ::
  "(AccessSession \<Rightarrow> bool) \<Rightarrow> time \<Rightarrow> bearer_conn \<Rightarrow> (err + unit) \<times> bearer_conn" where
  "mg_access_set_revoked p t =
     stmt (\<lambda>d. (Inr (), d\<lparr>access_sessions := snd (sql_update (\<lambda>a. p a \<and> as_RevokedAt a = None)
       (\<lambda>a. a\<lparr>as_RevokedAt := Some t\<rparr>) (access_sessions d))\<rparr>))"

definition mg_refresh_set_revoked ::
  "(RefreshRecord \<Rightarrow> bool) \<Rightarrow> time \<Rightarrow> bearer_conn \<Rightarrow> (err + unit) \<times> bearer_conn" where
  "mg_refresh_set_revoked p t =
     stmt (\<lambda>d. (Inr (), d\<lparr>refresh_tokens := snd (sql_update (\<lambda>r. p r \<and> rr_RevokedAt r = None)
       (\<lambda>r. r\<lparr>rr_RevokedAt := Some t\<rparr>) (refresh_tokens d))\<rparr>))"

definition mg_access_CreateSession ::
  "AccessSession \<Rightarrow> RefreshRecord \<Rightarrow> bearer_conn \<Rightarrow> (err + unit) \<times> bearer_conn" where
  "mg_access_CreateSession session refreshToken =
     transaction (bindM (stmt (insert_access session)) (\<lambda>_. stmt (insert_refresh refreshToken)))"

definition mg_access_ResolveSession ::
  "string \<Rightarrow> bearer_conn \<Rightarrow> (err + DurableSession) \<times> bearer_conn" where
  "mg_access_ResolveSession sessionID =
     bindM (\<lambda>c. stmt ((\<lambda>now_var d. (first_row (filter
              (\<lambda>a. as_ID a = sessionID \<and> as_RevokedAt a = None \<and> as_ExpiresAt a > now_var)
              (access_sessions d)), d)) (server_now c)) c)
       (\<lambda>document. retM (Inr (durable_of document)))"

definition mg_access_ListBySubject ::
  "string \<Rightarrow> bearer_conn \<Rightarrow> (err + AccessSession list) \<times> bearer_conn" where
  "mg_access_ListBySubject subjectID =
     stmt (\<lambda>d. (Inr (order_desc as_CreatedAt
       (filter (\<lambda>a. as_SubjectID a = subjectID) (access_sessions d))), d))"

text \<open>On the unique \<^verbatim>\<open>_id\<close>, \<^verbatim>\<open>UpdateOne\<close> changes every match (there is at most one).\<close>

definition mg_revokeAccessSession ::
  "string \<Rightarrow> time \<Rightarrow> bearer_conn \<Rightarrow> (err + unit) \<times> bearer_conn" where
  "mg_revokeAccessSession sessionID revokedAt =
     bindM (mg_access_set_revoked (\<lambda>a. as_ID a = sessionID) revokedAt) (\<lambda>_.
       mg_refresh_set_revoked (\<lambda>r. rr_SessionID r = sessionID) revokedAt)"

definition mg_access_Revoke :: "string \<Rightarrow> time \<Rightarrow> bearer_conn \<Rightarrow> (err + unit) \<times> bearer_conn" where
  "mg_access_Revoke sessionID revokedAt = transaction (mg_revokeAccessSession sessionID revokedAt)"

definition mg_access_RevokeAll :: "string \<Rightarrow> time \<Rightarrow> bearer_conn \<Rightarrow> (err + unit) \<times> bearer_conn" where
  "mg_access_RevokeAll subjectID revokedAt =
     transaction
       (bindM (stmt (\<lambda>d. (Inr (map as_ID (filter (\<lambda>a. as_SubjectID a = subjectID) (access_sessions d))), d)))
         (\<lambda>ids.
          bindM (if ids \<noteq> [] then mg_refresh_set_revoked (\<lambda>r. rr_SessionID r \<in> set ids) revokedAt
                 else retM (Inr ())) (\<lambda>_.
          mg_access_set_revoked (\<lambda>a. as_SubjectID a = subjectID) revokedAt)))"

definition mg_AccessSessionStore :: "bearer_conn AccessSessionStore" where
  "mg_AccessSessionStore =
     \<lparr>at_ResolveSession = mg_access_ResolveSession, at_CreateSession = mg_access_CreateSession,
      at_ListBySubject = mg_access_ListBySubject, at_Revoke = mg_access_Revoke,
      at_RevokeAll = mg_access_RevokeAll\<rparr>"

definition mg_refresh_Create :: "RefreshRecord \<Rightarrow> bearer_conn \<Rightarrow> (err + unit) \<times> bearer_conn" where
  "mg_refresh_Create r =
     on_err (\<lambda>e. if mg_duplicateKey e then ERefresh Refresh_ErrConflict else e) (stmt (insert_refresh r))"

definition mg_refresh_FindByTokenHash ::
  "hash \<Rightarrow> bearer_conn \<Rightarrow> (err + RefreshRecord) \<times> bearer_conn" where
  "mg_refresh_FindByTokenHash h =
     on_err (\<lambda>e. if errors_is e ENoRows then ERefresh Refresh_ErrNotFound else e)
       (stmt (\<lambda>d. (first_row (filter (\<lambda>r. rr_TokenHash r = h) (refresh_tokens d)), d)))"

text \<open>
  The callback of \<^verbatim>\<open>Rotate\<close> sets the outer variable \<^verbatim>\<open>reused\<close> and returns without error, so the
  revocation is committed before the reuse is reported.
\<close>

definition mg_refresh_Rotate ::
  "hash \<Rightarrow> RefreshRecord \<Rightarrow> time \<Rightarrow> bearer_conn \<Rightarrow> (err + unit) \<times> bearer_conn" where
  "mg_refresh_Rotate current replacement rotatedAt =
     bindM
       (transaction
         (bindM (mg_refresh_FindByTokenHash current) (\<lambda>document.
          if rr_RotatedAt document \<noteq> None \<or> rr_RevokedAt document \<noteq> None \<or>
             \<not> rotatedAt < rr_ExpiresAt document
          then bindM (mg_revokeAccessSession (rr_SessionID document) rotatedAt) (\<lambda>_. retM (Inr True))
          else bindM (on_err (\<lambda>e. if mg_duplicateKey e then ERefresh Refresh_ErrConflict else e)
                        (stmt (insert_refresh replacement))) (\<lambda>_.
               bindM (stmt (\<lambda>d. (Inr (), d\<lparr>refresh_tokens := snd (sql_update
                        (\<lambda>r. rr_TokenHash r = current \<and> rr_RotatedAt r = None)
                        (\<lambda>r. r\<lparr>rr_RotatedAt := Some rotatedAt\<rparr>) (refresh_tokens d))\<rparr>))) (\<lambda>_.
               retM (Inr False))))))
       (\<lambda>reused. retM (if reused then Inl (ERefresh Refresh_ErrReuseDetected) else Inr ()))"

definition mg_refresh_RevokeSession ::
  "string \<Rightarrow> time \<Rightarrow> bearer_conn \<Rightarrow> (err + unit) \<times> bearer_conn" where
  "mg_refresh_RevokeSession sessionID revokedAt =
     transaction (mg_revokeAccessSession sessionID revokedAt)"

definition mg_RefreshTokenStore :: "bearer_conn RefreshStore" where
  "mg_RefreshTokenStore =
     \<lparr>rs_Create = mg_refresh_Create, rs_FindByTokenHash = mg_refresh_FindByTokenHash,
      rs_Rotate = mg_refresh_Rotate, rs_RevokeSession = mg_refresh_RevokeSession\<rparr>"

section \<open>Each operation implements its reference operation\<close>

lemma mg_set_revoked_eq:
  "mg_access_set_revoked p t = stmt (update_access_revoked p t)"
  "mg_refresh_set_revoked q t = stmt (update_refresh_revoked q t)"
proof -
  have "(\<lambda>a. if p a \<and> as_RevokedAt a = None then a\<lparr>as_RevokedAt := Some t\<rparr> else a) =
      (\<lambda>a. if p a then access_revoke t a else a)"
    by (auto simp: fun_eq_iff access_revoke_def keep_first_def split: option.split)
  moreover have "(\<lambda>r. if q r \<and> rr_RevokedAt r = None then r\<lparr>rr_RevokedAt := Some t\<rparr> else r) =
      (\<lambda>r. if q r then refresh_revoke t r else r)"
    by (auto simp: fun_eq_iff refresh_revoke_def keep_first_def split: option.split)
  ultimately show "mg_access_set_revoked p t = stmt (update_access_revoked p t)"
    "mg_refresh_set_revoked q t = stmt (update_refresh_revoked q t)"
    by (simp_all add: mg_access_set_revoked_def mg_refresh_set_revoked_def update_access_revoked_def [abs_def]
        update_refresh_revoked_def [abs_def] sql_update_def coalesce_revoke)
qed

lemma mg_bearer_steps [simp, intro!]:
  "steps (mg_revokeAccessSession i t)" "steps (mg_refresh_FindByTokenHash h)"
  by (auto simp: mg_revokeAccessSession_def mg_set_revoked_eq mg_refresh_FindByTokenHash_def)

lemma mg_bearer_robust [intro!]:
  "robust (mg_access_CreateSession a r)" "robust (mg_access_ResolveSession i)"
  "robust (mg_access_ListBySubject sub)" "robust (mg_access_Revoke i t)"
  "robust (mg_access_RevokeAll sub t)" "robust (mg_refresh_Create r)"
  "robust (mg_refresh_FindByTokenHash h)" "robust (mg_refresh_Rotate h r t)"
  "robust (mg_refresh_RevokeSession i t)"
  unfolding mg_access_CreateSession_def mg_access_ResolveSession_def mg_access_ListBySubject_def
    mg_access_Revoke_def mg_access_RevokeAll_def mg_refresh_Create_def mg_refresh_FindByTokenHash_def
    mg_refresh_Rotate_def mg_refresh_RevokeSession_def mg_set_revoked_eq mg_duplicateKey_def
  by auto

lemma mg_revoke_effect:
  assumes "fault c = (\<lambda>_. False)"
  shows "fst (mg_revokeAccessSession i t c) = Inr ()"
    and "tables (snd (mg_revokeAccessSession i t c)) = (tables c)
      \<lparr>access_sessions := map (\<lambda>a. if as_ID a = i then access_revoke t a else a) (access_sessions (tables c)),
       refresh_tokens := map (\<lambda>r. if rr_SessionID r = i then refresh_revoke t r else r) (refresh_tokens (tables c))\<rparr>"
    and "fault (snd (mg_revokeAccessSession i t c)) = (\<lambda>_. False)"
  using assms
  by (simp_all add: mg_revokeAccessSession_def mg_set_revoked_eq bindM_eq stmt_quiet update_access_revoked_def
      update_refresh_revoked_def sql_update_def coalesce_revoke)

lemma mg_revoke_implements:
  "implements bearer_view bearer_ok (transaction (mg_revokeAccessSession i t)) (fun_spec (spec_RevokeSession i t))"
  by (rule bearer_implements)
    (auto simp: transaction_quiet mg_revoke_effect fun_spec_def spec_RevokeSession_def
      revoke_tables_view [where p = "\<lambda>j. j = i"] bearer_tables_ok_map)

lemma mg_revoke_all_effect:
  assumes "fault c = (\<lambda>_. False)" and "bearer_tables_ok (tables c)"
  shows "fst (mg_access_RevokeAll sub t c) = Inr ()"
    and "tables (snd (mg_access_RevokeAll sub t c)) = (tables c)
      \<lparr>access_sessions := map (\<lambda>a. if of_subject sub (tables_view (tables c)) (as_ID a) then access_revoke t a else a)
         (access_sessions (tables c)),
       refresh_tokens := map (\<lambda>r. if of_subject sub (tables_view (tables c)) (rr_SessionID r) then refresh_revoke t r else r)
         (refresh_tokens (tables c))\<rparr>"
proof -
  note sub = subject_ids [OF assms(2), of _ sub]
  have none: "\<not> of_subject sub (tables_view (tables c)) i"
    if "filter (\<lambda>a. as_SubjectID a = sub) (access_sessions (tables c)) = []" for i
    using that unfolding of_subject_tables [OF assms(2)] filter_empty_conv by blast
  show "fst (mg_access_RevokeAll sub t c) = Inr ()"
    and "tables (snd (mg_access_RevokeAll sub t c)) = (tables c)
      \<lparr>access_sessions := map (\<lambda>a. if of_subject sub (tables_view (tables c)) (as_ID a) then access_revoke t a else a)
         (access_sessions (tables c)),
       refresh_tokens := map (\<lambda>r. if of_subject sub (tables_view (tables c)) (rr_SessionID r) then refresh_revoke t r else r)
         (refresh_tokens (tables c))\<rparr>"
    using assms(1)
    by (auto simp: mg_access_RevokeAll_def transaction_quiet bindM_eq stmt_quiet mg_set_revoked_eq
        update_access_revoked_def update_refresh_revoked_def sql_update_def coalesce_revoke sub none
        revoke_subject_rows [OF assms(2)])
qed

interpretation mg_bearer: bearer_store mg_RefreshTokenStore mg_AccessSessionStore bearer_view bearer_ok
proof
  fix s show "bearer_ok s \<Longrightarrow> bearer_keys (bearer_view s)"
    by (simp add: bearer_ok_def bearer_view_def tables_view_keys)
next
  fix r show "implements bearer_view bearer_ok (rs_Create mg_RefreshTokenStore r) (fun_spec (spec_ref_Create r))"
    by (rule bearer_implements)
      (auto simp: mg_RefreshTokenStore_def mg_refresh_Create_def mg_duplicateKey_def on_err_eq stmt_quiet
        insert_refresh_eq insert_refresh_view fun_spec_def spec_ref_Create_def)
next
  fix h show "implements bearer_view bearer_ok (rs_FindByTokenHash mg_RefreshTokenStore h) (fun_spec (spec_ref_Find h))"
    by (rule bearer_implements)
      (auto simp: mg_RefreshTokenStore_def mg_refresh_FindByTokenHash_def on_err_eq
        stmt_quiet fun_spec_def spec_ref_Find_def bearer_tables_okD first_row_keyed split: option.split)
next
  fix r :: RefreshRecord and h t assume "rr_RotatedAt r = None" "rr_RevokedAt r = None"
  show "implements bearer_view bearer_ok (rs_Rotate mg_RefreshTokenStore h r t) (fun_spec (spec_ref_Rotate h r t))"
    unfolding mg_RefreshTokenStore_def RefreshStore.simps
    by (intro bearer_implements)
      (auto simp: mg_refresh_Rotate_def mg_refresh_FindByTokenHash_def mg_duplicateKey_def
        transaction_quiet bindM_eq on_err_eq stmt_quiet insert_refresh_eq sql_update_def
        first_row_keyed bearer_tables_okD mg_revoke_effect
        revoke_tables_view [where p = "\<lambda>j. j = i" for i] bearer_tables_ok_map rotate_tables_view
        fun_spec_def spec_ref_Rotate_def ref_ActiveAt_def simp del: map_append split: option.splits)
next
  fix i t show "implements bearer_view bearer_ok (rs_RevokeSession mg_RefreshTokenStore i t)
      (fun_spec (spec_RevokeSession i t))"
    using mg_revoke_implements by (simp add: mg_RefreshTokenStore_def mg_refresh_RevokeSession_def)
next
  fix r :: RefreshRecord and a :: AccessSession assume "rr_SessionID r = as_ID a"
  then show "implements bearer_view bearer_ok (at_CreateSession mg_AccessSessionStore a r) (spec_CreateSession a r)"
    unfolding mg_AccessSessionStore_def AccessSessionStore.simps
    by (intro bearer_implements)
      (auto simp: mg_access_CreateSession_def transaction_quiet bindM_eq stmt_quiet insert_access_eq
        insert_refresh_eq insert_access_view create_session_view spec_CreateSession_def)
next
  fix i show "implements bearer_view bearer_ok (at_ResolveSession mg_AccessSessionStore i) (spec_ResolveSession i)"
    unfolding mg_AccessSessionStore_def AccessSessionStore.simps
    by (rule bearer_implements)
      (auto simp: mg_access_ResolveSession_def bindM_eq stmt_quiet filter_keyed first_row_def
        bearer_tables_okD spec_ResolveSession_def split: option.splits)
next
  fix sub show "implements bearer_view bearer_ok (at_ListBySubject mg_AccessSessionStore sub) (spec_ListAccess sub)"
    by (rule bearer_implements)
      (auto simp: mg_AccessSessionStore_def mg_access_ListBySubject_def stmt_quiet
        spec_ListAccess_def ran_keyed bearer_tables_ok_def sorted_order_desc distinct_map)
next
  fix i t show "implements bearer_view bearer_ok (at_Revoke mg_AccessSessionStore i t)
      (fun_spec (spec_RevokeSession i t))"
    using mg_revoke_implements by (simp add: mg_AccessSessionStore_def mg_access_Revoke_def)
next
  fix sub t show "implements bearer_view bearer_ok (at_RevokeAll mg_AccessSessionStore sub t)
      (fun_spec (spec_RevokeAllAccess sub t))"
    unfolding mg_AccessSessionStore_def AccessSessionStore.simps
    by (rule bearer_implements)
      (auto simp: mg_revoke_all_effect fun_spec_def spec_RevokeAllAccess_def
        revoke_tables_view bearer_tables_ok_map)
qed

end
