(* ===== verification/RedisBearer.thy ===== *)
theory RedisBearer
  imports TokenSession Redis
begin

text \<open>
  \<^verbatim>\<open>AccessSessionStore\<close> and \<^verbatim>\<open>RefreshTokenStore\<close> of the Redis adapter (src/storage/redis/sessions.go). The
  keys are the hashes \<^verbatim>\<open>access-sessions\<close> and \<^verbatim>\<open>refresh-tokens\<close> and the sets
  \<^verbatim>\<open>access:subject:<subject>\<close> of session IDs and \<^verbatim>\<open>refresh:session:<id>\<close> of token hashes. A pipeline
  into which no command was queued is not sent.
\<close>

record redis_bearer =
  ra_access :: "string \<rightharpoonup> AccessSession"
  ra_refresh :: "hash \<rightharpoonup> RefreshRecord"
  ra_subject :: "string \<Rightarrow> string list"
  ra_session :: "string \<Rightarrow> hash list"

definition redis_bearer_ok :: "redis_bearer \<Rightarrow> bool" where
  "redis_bearer_ok d \<longleftrightarrow>
     (\<forall>i a. ra_access d i = Some a \<longrightarrow> as_ID a = i) \<and>
     (\<forall>h r. ra_refresh d h = Some r \<longrightarrow> rr_TokenHash r = h) \<and>
     (\<forall>sub. distinct (ra_subject d sub)) \<and>
     (\<forall>sub i. i \<in> set (ra_subject d sub) \<longleftrightarrow> (\<exists>a. ra_access d i = Some a \<and> as_SubjectID a = sub)) \<and>
     (\<forall>i h. h \<in> set (ra_session d i) \<longleftrightarrow> (\<exists>r. ra_refresh d h = Some r \<and> rr_SessionID r = i))"

definition redis_bearer_db :: "redis_bearer \<Rightarrow> bearer_db" where
  "redis_bearer_db d = \<lparr>access = ra_access d, refresh = ra_refresh d\<rparr>"

definition rd_bearer_view :: "redis_bearer redis \<Rightarrow> bearer_db" where
  "rd_bearer_view r = redis_bearer_db (rd_db r)"

definition rd_bearer_ok :: "redis_bearer redis \<Rightarrow> bool" where
  "rd_bearer_ok r \<longleftrightarrow> redis_bearer_ok (rd_db r)"

definition rd_access_CreateSession ::
  "AccessSession \<Rightarrow> RefreshRecord \<Rightarrow> redis_bearer redis \<Rightarrow> (err + unit) \<times> redis_bearer redis" where
  "rd_access_CreateSession session refreshToken =
     watch (bindM (hexists ra_access (as_ID session)) (\<lambda>accessExists.
       bindM (hexists ra_refresh (rr_TokenHash refreshToken)) (\<lambda>refreshExists.
       if accessExists \<or> refreshExists then retM (Inl ErrTransactionConflict)
       else redis_exec (\<lambda>d. d
         \<lparr>ra_access := (ra_access d)(as_ID session \<mapsto> session),
          ra_refresh := (ra_refresh d)(rr_TokenHash refreshToken \<mapsto> refreshToken),
          ra_subject := (ra_subject d)
            (as_SubjectID session := sadd (as_ID session) (ra_subject d (as_SubjectID session))),
          ra_session := (ra_session d)
            (as_ID session := sadd (rr_TokenHash refreshToken) (ra_session d (as_ID session)))\<rparr>))))"

text \<open>\<^verbatim>\<open>time.Now()\<close> of the application, one reading per call.\<close>

definition rd_access_ResolveSession ::
  "string \<Rightarrow> redis_bearer redis \<Rightarrow> (err + DurableSession) \<times> redis_bearer redis" where
  "rd_access_ResolveSession sessionID r =
     (case readJSON ra_access sessionID r of
        (Inl e, r1) \<Rightarrow> if errors_is e ENoRows then (Inl ENoRows, r1) else (Inl e, r1)
      | (Inr session, r1) \<Rightarrow>
          if as_RevokedAt session \<noteq> None \<or> \<not> rd_clock r1 (rd_pos r1) < as_ExpiresAt session
          then (Inl (EAccess Access_ErrInactiveSession), r1)
          else (Inr (durable_of session), r1))"

definition rd_access_ListBySubject ::
  "string \<Rightarrow> redis_bearer redis \<Rightarrow> (err + AccessSession list) \<times> redis_bearer redis" where
  "rd_access_ListBySubject subjectID =
     bindM (redis_get (\<lambda>d. Inr (ra_subject d subjectID))) (\<lambda>ids.
       if ids = [] then retM (Inr [])
       else bindM (redis_get (\<lambda>d. Inr (map (ra_access d) ids))) (\<lambda>values.
         retM (Inr (order_desc as_CreatedAt (map the (filter (\<lambda>v. v \<noteq> None) values))))))"

text \<open>The loop of \<^verbatim>\<open>revokeSessionInTransaction\<close> over the tokens of a session.\<close>

fun rd_token_updates ::
  "time \<Rightarrow> hash list \<Rightarrow> redis_bearer redis \<Rightarrow> (err + (hash \<times> RefreshRecord) list) \<times> redis_bearer redis" where
  "rd_token_updates revokedAt [] = retM (Inr [])"
| "rd_token_updates revokedAt (field # members) =
     bindM (readJSON_optional ra_refresh field) (\<lambda>found.
       bindM (rd_token_updates revokedAt members) (\<lambda>updates.
       retM (Inr (case found of
           None \<Rightarrow> updates
         | Some record \<Rightarrow>
             (field, if rr_RevokedAt record = None then record\<lparr>rr_RevokedAt := Some revokedAt\<rparr> else record)
               # updates))))"

definition rd_revokeSessionInTransaction ::
  "string \<Rightarrow> time \<Rightarrow> redis_bearer redis \<Rightarrow> (err + unit) \<times> redis_bearer redis" where
  "rd_revokeSessionInTransaction sessionID revokedAt =
     bindM (redis_get (\<lambda>d. Inr (ra_session d sessionID))) (\<lambda>members.
     bindM (rd_token_updates revokedAt members) (\<lambda>updates.
     bindM (readJSON_optional ra_access sessionID) (\<lambda>session.
       let open_session = (case session of None \<Rightarrow> False | Some s \<Rightarrow> as_RevokedAt s = None)
       in if updates = [] \<and> \<not> open_session then retM (Inr ())
          else redis_exec (\<lambda>d. d
            \<lparr>ra_refresh := ra_refresh d ++ map_of updates,
             ra_access := (if open_session
               then (ra_access d)(sessionID \<mapsto> (the session)\<lparr>as_RevokedAt := Some revokedAt\<rparr>)
               else ra_access d)\<rparr>))))"

definition rd_access_Revoke ::
  "string \<Rightarrow> time \<Rightarrow> redis_bearer redis \<Rightarrow> (err + unit) \<times> redis_bearer redis" where
  "rd_access_Revoke sessionID revokedAt = watch (rd_revokeSessionInTransaction sessionID revokedAt)"

text \<open>The two loops of \<^verbatim>\<open>RevokeAll\<close>: only records that are not revoked yet are written back.\<close>

fun rd_open_token_updates ::
  "time \<Rightarrow> hash list \<Rightarrow> redis_bearer redis \<Rightarrow> (err + (hash \<times> RefreshRecord) list) \<times> redis_bearer redis" where
  "rd_open_token_updates revokedAt [] = retM (Inr [])"
| "rd_open_token_updates revokedAt (field # members) =
     bindM (readJSON_optional ra_refresh field) (\<lambda>found.
       bindM (rd_open_token_updates revokedAt members) (\<lambda>updates.
       retM (Inr (case found of
           None \<Rightarrow> updates
         | Some record \<Rightarrow> if rr_RevokedAt record = None
             then (field, record\<lparr>rr_RevokedAt := Some revokedAt\<rparr>) # updates else updates))))"

fun rd_subject_updates ::
  "time \<Rightarrow> string list \<Rightarrow> redis_bearer redis \<Rightarrow>
     (err + (string \<times> AccessSession) list \<times> (hash \<times> RefreshRecord) list) \<times> redis_bearer redis" where
  "rd_subject_updates revokedAt [] = retM (Inr ([], []))"
| "rd_subject_updates revokedAt (sessionID # ids) =
     bindM (readJSON_optional ra_access sessionID) (\<lambda>found.
       case found of
         None \<Rightarrow> rd_subject_updates revokedAt ids
       | Some session \<Rightarrow>
           bindM (redis_get (\<lambda>d. Inr (ra_session d sessionID))) (\<lambda>members.
           bindM (rd_open_token_updates revokedAt members) (\<lambda>tokens.
           bindM (rd_subject_updates revokedAt ids) (\<lambda>(accessUpdates, refreshUpdates).
           retM (Inr (if as_RevokedAt session = None
                      then (sessionID, session\<lparr>as_RevokedAt := Some revokedAt\<rparr>) # accessUpdates
                      else accessUpdates, tokens @ refreshUpdates))))))"

definition rd_access_RevokeAll ::
  "string \<Rightarrow> time \<Rightarrow> redis_bearer redis \<Rightarrow> (err + unit) \<times> redis_bearer redis" where
  "rd_access_RevokeAll subjectID revokedAt =
     watch (bindM (redis_get (\<lambda>d. Inr (ra_subject d subjectID))) (\<lambda>ids.
       bindM (rd_subject_updates revokedAt ids) (\<lambda>(accessUpdates, refreshUpdates).
       if accessUpdates = [] \<and> refreshUpdates = [] then retM (Inr ())
       else redis_exec (\<lambda>d. d
         \<lparr>ra_access := ra_access d ++ map_of accessUpdates,
          ra_refresh := ra_refresh d ++ map_of refreshUpdates\<rparr>))))"

definition rd_AccessSessionStore :: "redis_bearer redis AccessSessionStore" where
  "rd_AccessSessionStore =
     \<lparr>at_ResolveSession = rd_access_ResolveSession, at_CreateSession = rd_access_CreateSession,
      at_ListBySubject = rd_access_ListBySubject, at_Revoke = rd_access_Revoke,
      at_RevokeAll = rd_access_RevokeAll\<rparr>"

definition rd_refresh_Create ::
  "RefreshRecord \<Rightarrow> redis_bearer redis \<Rightarrow> (err + unit) \<times> redis_bearer redis" where
  "rd_refresh_Create record =
     watch (bindM (hexists ra_refresh (rr_TokenHash record)) (\<lambda>exists.
       if exists then retM (Inl (ERefresh Refresh_ErrConflict))
       else redis_exec (\<lambda>d. d
         \<lparr>ra_refresh := (ra_refresh d)(rr_TokenHash record \<mapsto> record),
          ra_session := (ra_session d)
            (rr_SessionID record := sadd (rr_TokenHash record) (ra_session d (rr_SessionID record)))\<rparr>)))"

definition rd_refresh_FindByTokenHash ::
  "hash \<Rightarrow> redis_bearer redis \<Rightarrow> (err + RefreshRecord) \<times> redis_bearer redis" where
  "rd_refresh_FindByTokenHash h =
     on_err (\<lambda>e. if errors_is e ENoRows then ERefresh Refresh_ErrNotFound else e) (readJSON ra_refresh h)"

definition rd_refresh_Rotate ::
  "hash \<Rightarrow> RefreshRecord \<Rightarrow> time \<Rightarrow> redis_bearer redis \<Rightarrow> (err + unit) \<times> redis_bearer redis" where
  "rd_refresh_Rotate current replacement rotatedAt =
     bindM
       (watch (bindM (on_err (\<lambda>e. if errors_is e ENoRows then ERefresh Refresh_ErrNotFound else e)
                        (readJSON ra_refresh current)) (\<lambda>record.
         if rr_RotatedAt record \<noteq> None \<or> rr_RevokedAt record \<noteq> None \<or> \<not> rotatedAt < rr_ExpiresAt record
         then bindM (rd_revokeSessionInTransaction (rr_SessionID record) rotatedAt) (\<lambda>_. retM (Inr True))
         else bindM (hexists ra_refresh (rr_TokenHash replacement)) (\<lambda>exists.
           if exists then retM (Inl (ERefresh Refresh_ErrConflict))
           else bindM (redis_exec (\<lambda>d. d
               \<lparr>ra_refresh := (ra_refresh d)(current \<mapsto> record\<lparr>rr_RotatedAt := Some rotatedAt\<rparr>,
                                           rr_TokenHash replacement \<mapsto> replacement),
                ra_session := (ra_session d)(rr_SessionID replacement :=
                  sadd (rr_TokenHash replacement) (ra_session d (rr_SessionID replacement)))\<rparr>))
             (\<lambda>_. retM (Inr False))))))
       (\<lambda>reused. retM (if reused then Inl (ERefresh Refresh_ErrReuseDetected) else Inr ()))"

definition rd_refresh_RevokeSession ::
  "string \<Rightarrow> time \<Rightarrow> redis_bearer redis \<Rightarrow> (err + unit) \<times> redis_bearer redis" where
  "rd_refresh_RevokeSession sessionID revokedAt = watch (rd_revokeSessionInTransaction sessionID revokedAt)"

definition rd_RefreshTokenStore :: "redis_bearer redis RefreshStore" where
  "rd_RefreshTokenStore =
     \<lparr>rs_Create = rd_refresh_Create, rs_FindByTokenHash = rd_refresh_FindByTokenHash,
      rs_Rotate = rd_refresh_Rotate, rs_RevokeSession = rd_refresh_RevokeSession\<rparr>"

section \<open>Each operation implements its reference operation\<close>

lemma redis_bearer_okD:
  assumes "redis_bearer_ok d"
  shows "ra_access d i = Some a \<Longrightarrow> as_ID a = i" and "ra_refresh d h = Some r \<Longrightarrow> rr_TokenHash r = h"
    and "distinct (ra_subject d sub)"
    and "i \<in> set (ra_subject d sub) \<longleftrightarrow> (\<exists>a. ra_access d i = Some a \<and> as_SubjectID a = sub)"
    and "h \<in> set (ra_session d i) \<longleftrightarrow> (\<exists>r. ra_refresh d h = Some r \<and> rr_SessionID r = i)"
  using assms unfolding redis_bearer_ok_def by blast+

lemma redis_bearer_db_simps [simp]:
  "access (redis_bearer_db d) = ra_access d" "refresh (redis_bearer_db d) = ra_refresh d"
  by (simp_all add: redis_bearer_db_def)

text \<open>The state in which the sessions that \<open>p\<close> selects are revoked; the indexes stay right.\<close>

definition redis_revoke :: "(string \<Rightarrow> bool) \<Rightarrow> time \<Rightarrow> redis_bearer \<Rightarrow> redis_bearer" where
  "redis_revoke p t d =
     d\<lparr>ra_access := access (revoke_where p t (redis_bearer_db d)),
       ra_refresh := refresh (revoke_where p t (redis_bearer_db d))\<rparr>"

lemma redis_revoke_db: "redis_bearer_db (redis_revoke p t d) = revoke_where p t (redis_bearer_db d)"
  by (simp add: redis_revoke_def redis_bearer_db_def revoke_where_def)

lemma redis_revoke_ok:
  assumes "redis_bearer_ok d"
  shows "redis_bearer_ok (redis_revoke p t d)"
proof -
  have "(\<exists>a. access (revoke_where p t (redis_bearer_db d)) i = Some a \<and> as_SubjectID a = sub) =
      (\<exists>a. ra_access d i = Some a \<and> as_SubjectID a = sub)" for i sub
    by (cases "ra_access d i") (auto simp: revoke_where_def access_revoke_def)
  moreover have "(\<exists>r. refresh (revoke_where p t (redis_bearer_db d)) h = Some r \<and> rr_SessionID r = i) =
      (\<exists>r. ra_refresh d h = Some r \<and> rr_SessionID r = i)" for i h
    by (cases "ra_refresh d h") (auto simp: revoke_where_def refresh_revoke_def)
  moreover have "as_ID a = i" if "access (revoke_where p t (redis_bearer_db d)) i = Some a" for i a
    using that redis_bearer_okD(1) [OF assms] by (auto simp: revoke_where_def access_revoke_def split: if_splits)
  moreover have "rr_TokenHash r = h" if "refresh (revoke_where p t (redis_bearer_db d)) h = Some r" for h r
    using that redis_bearer_okD(2) [OF assms] by (auto simp: revoke_where_def refresh_revoke_def split: if_splits)
  ultimately show ?thesis
    using redis_bearer_okD(3-) [OF assms] by (simp add: redis_bearer_ok_def redis_revoke_def)
qed

lemma revoke_open:
  "(if rr_RevokedAt r = None then r\<lparr>rr_RevokedAt := Some t\<rparr> else r) = refresh_revoke t r"
  "rr_RevokedAt r = None \<Longrightarrow> r\<lparr>rr_RevokedAt := Some t\<rparr> = refresh_revoke t r"
  "rr_RevokedAt r = Some u \<Longrightarrow> refresh_revoke t r = r"
  "as_RevokedAt a = None \<Longrightarrow> a\<lparr>as_RevokedAt := Some t\<rparr> = access_revoke t a"
  "as_RevokedAt a = Some u \<Longrightarrow> access_revoke t a = a"
  by (auto simp: refresh_revoke_def access_revoke_def)

lemma reads_token_updates:
  "reads d (rd_token_updates t ms)
     (map (\<lambda>h. (h, refresh_revoke t (the (ra_refresh d h)))) (filter (\<lambda>h. ra_refresh d h \<noteq> None) ms))"
proof (induction ms)
  case (Cons h ms)
  show ?case unfolding rd_token_updates.simps
    by (rule reads_bindM [OF reads_optional], rule reads_bindM [OF Cons.IH], rule reads_retI)
      (auto simp: revoke_open split: option.split)
qed (simp add: reads_def)

lemma reads_open_token_updates:
  "reads d (rd_open_token_updates t ms)
     (map (\<lambda>h. (h, refresh_revoke t (the (ra_refresh d h))))
       (filter (\<lambda>h. \<exists>r. ra_refresh d h = Some r \<and> rr_RevokedAt r = None) ms))"
proof (induction ms)
  case (Cons h ms)
  show ?case unfolding rd_open_token_updates.simps
    by (rule reads_bindM [OF reads_optional], rule reads_bindM [OF Cons.IH], rule reads_retI)
      (auto simp: revoke_open split: option.split)
qed (simp add: reads_def)

lemma reads_subject_updates:
  assumes "\<forall>i \<in> set ids. ra_access d i \<noteq> None"
  shows "reads d (rd_subject_updates t ids)
     (map (\<lambda>i. (i, access_revoke t (the (ra_access d i))))
        (filter (\<lambda>i. \<exists>a. ra_access d i = Some a \<and> as_RevokedAt a = None) ids),
      map (\<lambda>h. (h, refresh_revoke t (the (ra_refresh d h))))
        (concat (map (\<lambda>i. filter (\<lambda>h. \<exists>r. ra_refresh d h = Some r \<and> rr_RevokedAt r = None) (ra_session d i)) ids)))"
  using assms
proof (induction ids)
  case (Cons i ids)
  then obtain a where a: "ra_access d i = Some a" by auto
  have IH: "reads d (rd_subject_updates t ids)
     (map (\<lambda>i. (i, access_revoke t (the (ra_access d i))))
        (filter (\<lambda>i. \<exists>a. ra_access d i = Some a \<and> as_RevokedAt a = None) ids),
      map (\<lambda>h. (h, refresh_revoke t (the (ra_refresh d h))))
        (concat (map (\<lambda>i. filter (\<lambda>h. \<exists>r. ra_refresh d h = Some r \<and> rr_RevokedAt r = None) (ra_session d i)) ids)))"
    using Cons by simp
  show ?case unfolding rd_subject_updates.simps
    by (rule reads_bindM [OF reads_optional], simp only: a option.case,
        rule reads_bindM [OF reads_getI], rule reads_bindM [OF reads_open_token_updates],
        rule reads_bindM [OF IH], simp only: prod.case, rule reads_retI)
      (auto simp: a revoke_open)
qed (simp add: reads_def)

text \<open>What the updates of a transaction amount to.\<close>

lemma session_tokens_revoked:
  assumes "redis_bearer_ok d"
  shows "ra_refresh d ++ map_of (map (\<lambda>h. (h, refresh_revoke t (the (ra_refresh d h))))
      (filter (\<lambda>h. ra_refresh d h \<noteq> None) (ra_session d i))) =
    refresh (revoke_where (\<lambda>j. j = i) t (redis_bearer_db d))"
proof
  fix h
  show "(ra_refresh d ++ map_of (map (\<lambda>h. (h, refresh_revoke t (the (ra_refresh d h))))
      (filter (\<lambda>h. ra_refresh d h \<noteq> None) (ra_session d i)))) h =
    refresh (revoke_where (\<lambda>j. j = i) t (redis_bearer_db d)) h"
    by (cases "ra_refresh d h") (auto simp: map_add_updates revoke_where_def redis_bearer_okD(5) [OF assms])
qed

lemma subject_tokens_revoked:
  assumes ok: "redis_bearer_ok d"
  shows "ra_refresh d ++ map_of (map (\<lambda>h. (h, refresh_revoke t (the (ra_refresh d h))))
      (concat (map (\<lambda>i. filter (\<lambda>h. \<exists>r. ra_refresh d h = Some r \<and> rr_RevokedAt r = None) (ra_session d i))
         (ra_subject d sub)))) =
    refresh (revoke_where (of_subject sub (redis_bearer_db d)) t (redis_bearer_db d))"
proof
  fix h
  show "(ra_refresh d ++ map_of (map (\<lambda>h. (h, refresh_revoke t (the (ra_refresh d h))))
      (concat (map (\<lambda>i. filter (\<lambda>h. \<exists>r. ra_refresh d h = Some r \<and> rr_RevokedAt r = None) (ra_session d i))
         (ra_subject d sub))))) h =
    refresh (revoke_where (of_subject sub (redis_bearer_db d)) t (redis_bearer_db d)) h"
  proof (cases "ra_refresh d h")
    case (Some r)
    show ?thesis
      by (cases "rr_RevokedAt r")
        (auto simp: map_add_updates revoke_where_def of_subject_def Some revoke_open
          redis_bearer_okD(4,5) [OF ok])
  qed (auto simp: map_add_updates revoke_where_def)
qed

lemma subject_sessions_revoked:
  assumes ok: "redis_bearer_ok d"
  shows "ra_access d ++ map_of (map (\<lambda>i. (i, access_revoke t (the (ra_access d i))))
      (filter (\<lambda>i. \<exists>a. ra_access d i = Some a \<and> as_RevokedAt a = None) (ra_subject d sub))) =
    access (revoke_where (of_subject sub (redis_bearer_db d)) t (redis_bearer_db d))"
proof
  fix i
  show "(ra_access d ++ map_of (map (\<lambda>i. (i, access_revoke t (the (ra_access d i))))
      (filter (\<lambda>i. \<exists>a. ra_access d i = Some a \<and> as_RevokedAt a = None) (ra_subject d sub)))) i =
    access (revoke_where (of_subject sub (redis_bearer_db d)) t (redis_bearer_db d)) i"
  proof (cases "ra_access d i")
    case (Some a)
    show ?thesis
      by (cases "as_RevokedAt a")
        (auto simp: map_add_updates revoke_where_def of_subject_def Some revoke_open
          redis_bearer_okD(4) [OF ok])
  qed (auto simp: map_add_updates revoke_where_def)
qed

lemma rd_revoke_attempt:
  assumes ok: "redis_bearer_ok d" and P: "P (Inr ()) (redis_revoke (\<lambda>j. j = i) t d)"
  shows "attempt d (rd_revokeSessionInTransaction i t) P"
proof -
  let ?u = "map (\<lambda>h. (h, refresh_revoke t (the (ra_refresh d h))))
      (filter (\<lambda>h. ra_refresh d h \<noteq> None) (ra_session d i))"
  let ?open = "case ra_access d i of None \<Rightarrow> False | Some s \<Rightarrow> as_RevokedAt s = None"
  have r: "ra_refresh d ++ map_of ?u = refresh (revoke_where (\<lambda>j. j = i) t (redis_bearer_db d))"
    by (rule session_tokens_revoked [OF ok])
  have a: "(if ?open then (ra_access d)(i \<mapsto> (the (ra_access d i))\<lparr>as_RevokedAt := Some t\<rparr>) else ra_access d) =
      access (revoke_where (\<lambda>j. j = i) t (redis_bearer_db d))"
  proof
    fix j
    show "(if ?open then (ra_access d)(i \<mapsto> (the (ra_access d i))\<lparr>as_RevokedAt := Some t\<rparr>) else ra_access d) j =
      access (revoke_where (\<lambda>j. j = i) t (redis_bearer_db d)) j"
      by (cases "ra_access d j"; cases "j = i"; cases "as_RevokedAt (the (ra_access d j))")
        (auto simp: revoke_where_def revoke_open)
  qed
  have none: "redis_revoke (\<lambda>j. j = i) t d = d" if "?u = []" "\<not> ?open"
    using r a that by (simp add: redis_revoke_def)
  have some: "d\<lparr>ra_refresh := ra_refresh d ++ map_of ?u, ra_access := (if ?open
      then (ra_access d)(i \<mapsto> (the (ra_access d i))\<lparr>as_RevokedAt := Some t\<rparr>) else ra_access d)\<rparr> =
      redis_revoke (\<lambda>j. j = i) t d"
    unfolding r a by (simp add: redis_revoke_def)
  have "attempt d (if ?u = [] \<and> \<not> ?open then retM (Inr ())
      else redis_exec (\<lambda>d. d\<lparr>ra_refresh := ra_refresh d ++ map_of ?u, ra_access := (if ?open
        then (ra_access d)(i \<mapsto> (the (ra_access (d0 :: redis_bearer) i))\<lparr>as_RevokedAt := Some t\<rparr>) else ra_access d)\<rparr>)) P"
    if "d0 = d" for d0
  proof (cases "?u = [] \<and> \<not> ?open")
    case True
    then show ?thesis using P none by auto
  next
    case False
    show ?thesis unfolding if_not_P [OF False] that
      by (rule attempt_exec) (use P some in simp)
  qed
  then show ?thesis
    unfolding rd_revokeSessionInTransaction_def
    by (intro attempt_reads [OF reads_getI] attempt_reads [OF reads_token_updates]
        attempt_reads [OF reads_optional]) (simp add: Let_def)
qed

lemma rd_revoke_all_attempt:
  assumes ok: "redis_bearer_ok d"
  shows "attempt d
    (bindM (redis_get (\<lambda>d. Inr (ra_subject d sub))) (\<lambda>ids.
       bindM (rd_subject_updates t ids) (\<lambda>(accessUpdates, refreshUpdates).
       if accessUpdates = [] \<and> refreshUpdates = [] then retM (Inr ())
       else redis_exec (\<lambda>d. d
         \<lparr>ra_access := ra_access d ++ map_of accessUpdates,
          ra_refresh := ra_refresh d ++ map_of refreshUpdates\<rparr>))))
    (\<lambda>x d'. x = Inr () \<and> d' = redis_revoke (of_subject sub (redis_bearer_db d)) t d)"
proof -
  let ?p = "of_subject sub (redis_bearer_db d)"
  let ?a = "map (\<lambda>i. (i, access_revoke t (the (ra_access d i))))
      (filter (\<lambda>i. \<exists>a. ra_access d i = Some a \<and> as_RevokedAt a = None) (ra_subject d sub))"
  let ?r = "map (\<lambda>h. (h, refresh_revoke t (the (ra_refresh d h))))
      (concat (map (\<lambda>i. filter (\<lambda>h. \<exists>r. ra_refresh d h = Some r \<and> rr_RevokedAt r = None) (ra_session d i))
         (ra_subject d sub)))"
  note up = subject_sessions_revoked [OF ok, of t sub] subject_tokens_revoked [OF ok, of t sub]
  have rd: "reads d (rd_subject_updates t (ra_subject d sub)) (?a, ?r)"
    by (rule reads_subject_updates) (use redis_bearer_okD(4) [OF ok] in auto)
  have eq: "d\<lparr>ra_access := ra_access d ++ map_of ?a, ra_refresh := ra_refresh d ++ map_of ?r\<rparr> = redis_revoke ?p t d"
    unfolding up by (simp add: redis_revoke_def)
  have "attempt d (if ?a = [] \<and> ?r = [] then retM (Inr ())
       else redis_exec (\<lambda>d. d\<lparr>ra_access := ra_access d ++ map_of ?a, ra_refresh := ra_refresh d ++ map_of ?r\<rparr>))
     (\<lambda>x d'. x = Inr () \<and> d' = redis_revoke ?p t d)"
  proof (cases "?a = [] \<and> ?r = []")
    case True
    then have a: "?a = []" and r: "?r = []" by blast+
    have "ra_access d = access (revoke_where ?p t (redis_bearer_db d))"
      "ra_refresh d = refresh (revoke_where ?p t (redis_bearer_db d))"
      using up unfolding a r by simp_all
    then have "redis_revoke ?p t d = d" unfolding redis_revoke_def by (metis (no_types) redis_bearer.surjective
        redis_bearer.update_convs(1,2) redis_bearer.select_convs(1,2))
    then show ?thesis unfolding if_P [OF True] by (intro attempt_ret) simp
  next
    case False
    show ?thesis unfolding if_not_P [OF False] by (rule attempt_exec) (use eq in simp)
  qed
  then show ?thesis
    by (intro attempt_reads [OF reads_getI] attempt_reads [OF rd]) (simp only: prod.case)
qed

lemma rd_bearer_insert_ok:
  assumes "redis_bearer_ok d" and "ra_refresh d (rr_TokenHash r) = None"
  shows "redis_bearer_ok (d\<lparr>ra_refresh := (ra_refresh d)(rr_TokenHash r \<mapsto> r),
    ra_session := (ra_session d)(rr_SessionID r := sadd (rr_TokenHash r) (ra_session d (rr_SessionID r)))\<rparr>)"
  using redis_bearer_okD [OF assms(1)] assms(2) unfolding redis_bearer_ok_def
  by (auto split: if_splits)

lemma rd_access_insert_ok:
  assumes "redis_bearer_ok d" and "ra_access d (as_ID a) = None"
  shows "redis_bearer_ok (d\<lparr>ra_access := (ra_access d)(as_ID a \<mapsto> a),
    ra_subject := (ra_subject d)(as_SubjectID a := sadd (as_ID a) (ra_subject d (as_SubjectID a)))\<rparr>)"
  using redis_bearer_okD [OF assms(1)] assms(2) unfolding redis_bearer_ok_def
  by (auto split: if_splits)

lemma rd_rotated_ok:
  assumes "redis_bearer_ok d" and "ra_refresh d h = Some r"
  shows "redis_bearer_ok (d\<lparr>ra_refresh := (ra_refresh d)(h \<mapsto> r\<lparr>rr_RotatedAt := Some t\<rparr>)\<rparr>)"
  using redis_bearer_okD [OF assms(1)] assms(2) unfolding redis_bearer_ok_def
  by (auto split: if_splits)

lemma redis_bearer_implements:
  assumes "\<And>d. redis_bearer_ok d \<Longrightarrow>
      attempt d op (\<lambda>x d'. redis_bearer_ok d' \<and> spec (redis_bearer_db d) x (redis_bearer_db d'))"
  shows "implements rd_bearer_view rd_bearer_ok op spec"
  using attempt_implements [of redis_bearer_ok op spec redis_bearer_db, OF assms]
  by (simp add: rd_bearer_view_def [abs_def] rd_bearer_ok_def [abs_def])

lemma redis_bearer_watched:
  assumes "\<And>d. redis_bearer_ok d \<Longrightarrow>
      attempt d op (\<lambda>x d'. redis_bearer_ok d' \<and> spec (redis_bearer_db d) x (redis_bearer_db d'))"
    and "\<And>a e b. spec a (Inl e) b \<Longrightarrow> \<exists>x. e = ERefresh x"
  shows "implements rd_bearer_view rd_bearer_ok (watch op) spec"
  by (rule watch_implements [OF redis_bearer_implements [OF assms(1)]])
    (use assms(2) in \<open>fastforce simp: tx_failed_def\<close>)+

lemma attempt_mono:
  "attempt d op P \<Longrightarrow> (\<And>x d'. P x d' \<Longrightarrow> Q x d') \<Longrightarrow> attempt d op Q"
  unfolding attempt_def by blast

lemma rd_revoke_implements:
  "implements rd_bearer_view rd_bearer_ok (watch (rd_revokeSessionInTransaction i t))
     (fun_spec (spec_RevokeSession i t))"
  by (rule redis_bearer_watched [OF rd_revoke_attempt])
    (auto simp: redis_revoke_ok fun_spec_def spec_RevokeSession_def redis_revoke_db)

text \<open>The transaction of \<^verbatim>\<open>Rotate\<close>, which reports the reuse as a value.\<close>

definition spec_rotate_value ::
  "hash \<Rightarrow> RefreshRecord \<Rightarrow> time \<Rightarrow> bearer_db \<Rightarrow> (err + bool) \<Rightarrow> bearer_db \<Rightarrow> bool" where
  "spec_rotate_value h n t m x m' \<longleftrightarrow>
     spec_ref_Rotate h n t m =
       (case x of Inl e \<Rightarrow> Inl e | Inr reused \<Rightarrow> if reused then Inl (ERefresh Refresh_ErrReuseDetected) else Inr (), m')"

lemma rd_rotate_attempt:
  assumes ok: "redis_bearer_ok d"
  shows "attempt d
     (bindM (on_err (\<lambda>e. if errors_is e ENoRows then ERefresh Refresh_ErrNotFound else e)
               (readJSON ra_refresh h)) (\<lambda>record.
         if rr_RotatedAt record \<noteq> None \<or> rr_RevokedAt record \<noteq> None \<or> \<not> t < rr_ExpiresAt record
         then bindM (rd_revokeSessionInTransaction (rr_SessionID record) t) (\<lambda>_. retM (Inr True))
         else bindM (hexists ra_refresh (rr_TokenHash n)) (\<lambda>exists.
           if exists then retM (Inl (ERefresh Refresh_ErrConflict))
           else bindM (redis_exec (\<lambda>d. d
               \<lparr>ra_refresh := (ra_refresh d)(h \<mapsto> record\<lparr>rr_RotatedAt := Some t\<rparr>, rr_TokenHash n \<mapsto> n),
                ra_session := (ra_session d)(rr_SessionID n :=
                  sadd (rr_TokenHash n) (ra_session d (rr_SessionID n)))\<rparr>))
             (\<lambda>_. retM (Inr False)))))
     (\<lambda>x d'. redis_bearer_ok d' \<and> spec_rotate_value h n t (redis_bearer_db d) x (redis_bearer_db d'))"
proof (cases "ra_refresh d h")
  case None
  then show ?thesis using ok
    by (auto intro!: attempt_read_err simp: spec_rotate_value_def spec_ref_Rotate_def)
next
  case (Some r)
  show ?thesis
  proof (cases "ref_ActiveAt r t")
    case False
    then have "rr_RotatedAt r \<noteq> None \<or> rr_RevokedAt r \<noteq> None \<or> \<not> t < rr_ExpiresAt r"
      by (auto simp: ref_ActiveAt_def)
    moreover have "attempt d (bindM (rd_revokeSessionInTransaction (rr_SessionID r) t) (\<lambda>_. retM (Inr True)))
      (\<lambda>x d'. redis_bearer_ok d' \<and> spec_rotate_value h n t (redis_bearer_db d) x (redis_bearer_db d'))"
      by (rule attempt_then_ret [OF rd_revoke_attempt [OF ok]])
        (use ok Some False in \<open>simp add: spec_rotate_value_def spec_ref_Rotate_def redis_revoke_ok redis_revoke_db\<close>)
    ultimately show ?thesis using Some by (intro attempt_read_err) auto
  next
    case True
    then have act: "\<not> (rr_RotatedAt r \<noteq> None \<or> rr_RevokedAt r \<noteq> None \<or> \<not> t < rr_ExpiresAt r)"
      by (auto simp: ref_ActiveAt_def)
    have tw: "(ra_refresh d)(h \<mapsto> r\<lparr>rr_RotatedAt := Some t\<rparr>, rr_TokenHash n \<mapsto> n) =
        (ra_refresh d)(rr_TokenHash n \<mapsto> n, h \<mapsto> r\<lparr>rr_RotatedAt := Some t\<rparr>)"
      if "ra_refresh d (rr_TokenHash n) = None"
      by (rule fun_upd_twist) (use that Some in auto)
    have ok': "redis_bearer_ok (d\<lparr>ra_refresh := (ra_refresh d)(h \<mapsto> r\<lparr>rr_RotatedAt := Some t\<rparr>, rr_TokenHash n \<mapsto> n),
        ra_session := (ra_session d)(rr_SessionID n := sadd (rr_TokenHash n) (ra_session d (rr_SessionID n)))\<rparr>)"
      if "ra_refresh d (rr_TokenHash n) = None"
      using rd_bearer_insert_ok [OF rd_rotated_ok [OF ok Some], where r = n and t1 = t] that Some
      by (cases d; cases "h = rr_TokenHash n") simp_all
    show ?thesis
    proof (cases "ra_refresh d (rr_TokenHash n)")
      case None
      then show ?thesis using Some act True ok' [OF None] tw [OF None]
        by (intro attempt_read_err)
          (auto intro!: attempt_hexists attempt_exec_ret simp: spec_rotate_value_def spec_ref_Rotate_def
            redis_bearer_db_def)
    next
      case (Some q)
      then show ?thesis using \<open>ra_refresh d h = Some r\<close> act True ok
        by (intro attempt_read_err)
          (auto intro!: attempt_hexists simp: spec_rotate_value_def spec_ref_Rotate_def)
    qed
  qed
qed

lemma rd_rotate_implements:
  "implements rd_bearer_view rd_bearer_ok (rd_refresh_Rotate h n t) (fun_spec (spec_ref_Rotate h n t))"
  unfolding rd_refresh_Rotate_def
proof (rule implements_then_ret)
  show "implements rd_bearer_view rd_bearer_ok
     (watch (bindM (on_err (\<lambda>e. if errors_is e ENoRows then ERefresh Refresh_ErrNotFound else e)
               (readJSON ra_refresh h)) (\<lambda>record.
         if rr_RotatedAt record \<noteq> None \<or> rr_RevokedAt record \<noteq> None \<or> \<not> t < rr_ExpiresAt record
         then bindM (rd_revokeSessionInTransaction (rr_SessionID record) t) (\<lambda>_. retM (Inr True))
         else bindM (hexists ra_refresh (rr_TokenHash n)) (\<lambda>exists.
           if exists then retM (Inl (ERefresh Refresh_ErrConflict))
           else bindM (redis_exec (\<lambda>d. d
               \<lparr>ra_refresh := (ra_refresh d)(h \<mapsto> record\<lparr>rr_RotatedAt := Some t\<rparr>, rr_TokenHash n \<mapsto> n),
                ra_session := (ra_session d)(rr_SessionID n :=
                  sadd (rr_TokenHash n) (ra_session d (rr_SessionID n)))\<rparr>))
             (\<lambda>_. retM (Inr False))))))
     (spec_rotate_value h n t)"
    by (rule redis_bearer_watched [OF rd_rotate_attempt])
      (auto simp: spec_rotate_value_def spec_ref_Rotate_def split: option.splits if_splits)
qed (auto simp: spec_rotate_value_def fun_spec_def)

lemma rd_create_attempt:
  assumes ok: "redis_bearer_ok d" and r: "rr_SessionID r = as_ID a"
  shows "attempt d
    (bindM (hexists ra_access (as_ID a)) (\<lambda>accessExists.
       bindM (hexists ra_refresh (rr_TokenHash r)) (\<lambda>refreshExists.
       if accessExists \<or> refreshExists then retM (Inl ErrTransactionConflict)
       else redis_exec (\<lambda>d. d
         \<lparr>ra_access := (ra_access d)(as_ID a \<mapsto> a), ra_refresh := (ra_refresh d)(rr_TokenHash r \<mapsto> r),
          ra_subject := (ra_subject d)(as_SubjectID a := sadd (as_ID a) (ra_subject d (as_SubjectID a))),
          ra_session := (ra_session d)(as_ID a := sadd (rr_TokenHash r) (ra_session d (as_ID a)))\<rparr>))))
    (\<lambda>x d'. redis_bearer_ok d' \<and>
       ((x = Inl ErrTransactionConflict \<and> redis_bearer_db d' = redis_bearer_db d) \<or>
        spec_CreateSession a r (redis_bearer_db d) x (redis_bearer_db d')))"
proof -
  have "redis_bearer_ok (d
         \<lparr>ra_access := (ra_access d)(as_ID a \<mapsto> a), ra_refresh := (ra_refresh d)(rr_TokenHash r \<mapsto> r),
          ra_subject := (ra_subject d)(as_SubjectID a := sadd (as_ID a) (ra_subject d (as_SubjectID a))),
          ra_session := (ra_session d)(as_ID a := sadd (rr_TokenHash r) (ra_session d (as_ID a)))\<rparr>)"
    if "ra_access d (as_ID a) = None" "ra_refresh d (rr_TokenHash r) = None"
    using rd_bearer_insert_ok [OF rd_access_insert_ok [OF ok that(1)], of r] that(2) r by (cases d) simp
  then show ?thesis using ok
    by (auto intro!: attempt_hexists attempt_exec simp: spec_CreateSession_def redis_bearer_db_def)
qed

lemma rd_access_list_attempt:
  assumes ok: "redis_bearer_ok d"
  shows "attempt d
     (bindM (redis_get (\<lambda>d. Inr (ra_subject d sub))) (\<lambda>ids.
       if ids = [] then retM (Inr [])
       else bindM (redis_get (\<lambda>d. Inr (map (ra_access d) ids))) (\<lambda>values.
         retM (Inr (order_desc as_CreatedAt (map the (filter (\<lambda>v. v \<noteq> None) values)))))))
     (\<lambda>x d'. redis_bearer_ok d' \<and> spec_ListAccess sub (redis_bearer_db d) x (redis_bearer_db d'))"
proof -
  let ?S = "ra_access d" and ?ids = "ra_subject d sub"
  let ?rs = "map the (filter (\<lambda>v. v \<noteq> None) (map ?S ?ids))"
  have mem: "(i \<in> set ?ids) = (\<exists>a. ?S i = Some a \<and> as_SubjectID a = sub)" for i
    by (rule redis_bearer_okD(4) [OF ok])
  have all: "filter (\<lambda>v. v \<noteq> None) (map ?S ?ids) = map ?S ?ids"
    by (rule filter_True) (auto simp: mem)
  have "set ?ids = {i. \<exists>a. ?S i = Some a \<and> as_SubjectID a = sub}" using mem by blast
  then have s: "set ?rs = {a \<in> ran ?S. as_SubjectID a = sub}"
    unfolding all set_map image_image by (force simp: ran_def image_iff)
  have "inj_on (\<lambda>i. the (?S i)) (set ?ids)"
    using redis_bearer_okD(1) [OF ok] by (intro inj_onI) (metis mem option.sel)
  then have dist: "distinct ?rs"
    unfolding all using redis_bearer_okD(3) [OF ok, of sub] by (simp add: distinct_map comp_def)
  have l: "spec_ListAccess sub (redis_bearer_db d) (Inr (order_desc as_CreatedAt ?rs)) (redis_bearer_db d)"
    unfolding spec_ListAccess_def using s dist sorted_order_desc by auto
  show ?thesis
  proof (cases "?ids = []")
    case True
    then show ?thesis using ok s by (intro attempt_get) (auto simp: spec_ListAccess_def)
  next
    case False
    then show ?thesis using ok l by (intro attempt_get) (auto intro!: attempt_get)
  qed
qed

interpretation rd_bearer: bearer_store rd_RefreshTokenStore rd_AccessSessionStore rd_bearer_view rd_bearer_ok
proof
  fix s show "rd_bearer_ok s \<Longrightarrow> bearer_keys (rd_bearer_view s)"
    by (auto simp: rd_bearer_ok_def rd_bearer_view_def bearer_keys_def dest: redis_bearer_okD(1,2))
next
  fix r show "implements rd_bearer_view rd_bearer_ok (rs_Create rd_RefreshTokenStore r) (fun_spec (spec_ref_Create r))"
    unfolding rd_RefreshTokenStore_def RefreshStore.simps rd_refresh_Create_def
    by (rule redis_bearer_watched)
      (auto intro!: attempt_hexists attempt_exec simp: rd_bearer_insert_ok fun_spec_def spec_ref_Create_def
        redis_bearer_db_def split: if_splits)
next
  fix h show "implements rd_bearer_view rd_bearer_ok (rs_FindByTokenHash rd_RefreshTokenStore h) (fun_spec (spec_ref_Find h))"
    unfolding rd_RefreshTokenStore_def RefreshStore.simps rd_refresh_FindByTokenHash_def
    by (rule redis_bearer_implements)
      (auto simp: attempt_def readJSON_def on_err_eq redis_get_def redis_cmd_def fun_spec_def
        spec_ref_Find_def split: option.split)
next
  fix r :: RefreshRecord and h t
  show "implements rd_bearer_view rd_bearer_ok (rs_Rotate rd_RefreshTokenStore h r t) (fun_spec (spec_ref_Rotate h r t))"
    using rd_rotate_implements by (simp add: rd_RefreshTokenStore_def)
next
  fix i t show "implements rd_bearer_view rd_bearer_ok (rs_RevokeSession rd_RefreshTokenStore i t)
      (fun_spec (spec_RevokeSession i t))"
    using rd_revoke_implements by (simp add: rd_RefreshTokenStore_def rd_refresh_RevokeSession_def)
next
  fix r :: RefreshRecord and a :: AccessSession assume r: "rr_SessionID r = as_ID a"
  show "implements rd_bearer_view rd_bearer_ok (at_CreateSession rd_AccessSessionStore a r) (spec_CreateSession a r)"
    unfolding rd_AccessSessionStore_def AccessSessionStore.simps rd_access_CreateSession_def
    by (rule implements_weaken, rule implements_mono [where spec = "\<lambda>m x m'.
            x = Inl ErrTransactionConflict \<and> m' = m \<or> spec_CreateSession a r m x m'"],
        rule watch_implements, rule redis_bearer_implements, rule attempt_mono [OF rd_create_attempt [OF _ r]])
      (auto simp: spec_CreateSession_def ErrTransactionConflict_def tx_failed_def)
next
  fix i show "implements rd_bearer_view rd_bearer_ok (at_ResolveSession rd_AccessSessionStore i) (spec_ResolveSession i)"
    unfolding rd_AccessSessionStore_def AccessSessionStore.simps
    by (rule redis_bearer_implements)
      (auto simp: rd_access_ResolveSession_def attempt_def readJSON_def redis_get_def redis_cmd_def
        spec_ResolveSession_def split: option.split)
next
  fix sub show "implements rd_bearer_view rd_bearer_ok (at_ListBySubject rd_AccessSessionStore sub) (spec_ListAccess sub)"
    unfolding rd_AccessSessionStore_def AccessSessionStore.simps rd_access_ListBySubject_def
    by (rule redis_bearer_implements [OF rd_access_list_attempt])
next
  fix i t show "implements rd_bearer_view rd_bearer_ok (at_Revoke rd_AccessSessionStore i t)
      (fun_spec (spec_RevokeSession i t))"
    using rd_revoke_implements by (simp add: rd_AccessSessionStore_def rd_access_Revoke_def)
next
  fix sub t show "implements rd_bearer_view rd_bearer_ok (at_RevokeAll rd_AccessSessionStore sub t)
      (fun_spec (spec_RevokeAllAccess sub t))"
    unfolding rd_AccessSessionStore_def AccessSessionStore.simps rd_access_RevokeAll_def
    by (rule redis_bearer_watched, rule attempt_mono [OF rd_revoke_all_attempt])
      (auto simp: redis_revoke_ok redis_revoke_db fun_spec_def spec_RevokeAllAccess_def)
qed

end
