(* ===== verification/BearerProperties.thy ===== *)
theory BearerProperties
  imports PostgresBearer MysqlBearer MongoBearer RedisBearer
begin

text \<open>
  The guarantees of bearer sessions, on the stores that the repository ships. A manager comes from
  \<open>newBearerSessionManager\<close>; a run starts in a state that satisfies the invariant \<open>families\<close> (for
  instance with empty tables) while the clock is past Go's zero time.
\<close>

definition sample_bearer_config :: BearerSessionConfig where
  "sample_bearer_config =
     \<lparr>bc_Issuer = ''iss'', bc_Audience = ''aud'', bc_AccessTokenLifetime = 60 * second_ns,
      bc_RefreshTokenLifetime = 3600 * second_ns, bc_KeyID = ''k'',
      bc_PrivateKey = replicate 64 (CHR ''p''), bc_PublicKeys = [], bc_Leeway = 0\<rparr>"

definition sample_bearer_manager :: "'s AccessSessionStore \<Rightarrow> 's RefreshStore \<Rightarrow> 's bearerSessionManager" where
  "sample_bearer_manager ast rst =
     \<lparr>bm_store = ast,
      bm_issuer = \<lparr>iss_issuer = ''iss'', iss_audience = ''aud'', iss_lifetime = 60 * second_ns,
        iss_keyID = ''k'', iss_privateKey = replicate 64 (CHR ''p'')\<rparr>,
      bm_verifier = \<lparr>vf_config = \<lparr>vc_Issuer = ''iss'', vc_Audience = ''aud'',
        vc_PublicKeys = [(''k'', replicate 32 (CHR ''p''))], vc_Leeway = 0\<rparr>,
        vf_resolver = at_ResolveSession ast\<rparr>,
      bm_refreshTokens = \<lparr>rm_store = rst, rm_lifetime = 3600 * second_ns\<rparr>,
      bm_refreshLifetime = 3600 * second_ns\<rparr>"

definition sample_store_world :: "'s \<Rightarrow> 's store_world" where
  "sample_store_world s =
     \<lparr>pos = 0, clock = clock sample_world, rand_byte = rand_byte sample_world,
      rand_err = rand_err sample_world, uuid_v7 = uuid_v7 sample_world, tw_store = s\<rparr>"

definition sample_bearer_conn :: bearer_conn where
  "sample_bearer_conn = \<lparr>tables = \<lparr>access_sessions = [], refresh_tokens = []\<rparr>, fault = (\<lambda>_. False),
     stmt_pos = 0, db_clock = (\<lambda>_. 0), found_rows = True\<rparr>"

definition sample_bearer_redis :: "redis_bearer redis" where
  "sample_bearer_redis =
     \<lparr>rd_db = \<lparr>ra_access = Map.empty, ra_refresh = Map.empty, ra_subject = (\<lambda>_. []), ra_session = (\<lambda>_. [])\<rparr>,
      rd_fault = (\<lambda>_. False), rd_abort = (\<lambda>_. False), rd_clock = (\<lambda>_. 0), rd_pos = 0\<rparr>"

definition bearer_sha :: "string \<Rightarrow> hash" where
  "bearer_sha bs = (case bs of [] \<Rightarrow> 1 | c # _ \<Rightarrow> of_char c + 2)"

text \<open>
  A library that signs exactly one token: the one of the first session of the sample manager, which
  is the only use that the witnesses make of it. It behaves as documented.
\<close>

definition sample_header :: jwt_header where
  "sample_header = \<lparr>jh_alg = alg_EdDSA, jh_kid = Some ''k''\<rparr>"

definition sample_claims :: Claims where
  "sample_claims =
     \<lparr>cl_SessionID = ''id0'', cl_Issuer = ''iss'', cl_Subject = ''alice'', cl_Audience = [''aud''],
      cl_ExpiresAt = Some (1064 * second_ns), cl_NotBefore = Some (1004 * second_ns),
      cl_IssuedAt = Some (1004 * second_ns),
      cl_ID = b64_encode b64_url (map (\<lambda>i. char_of (3 + i)) [0..<32])\<rparr>"

definition sample_jwt :: jwt_library where
  "sample_jwt =
     \<lparr>jwt_sign = (\<lambda>h c key. if h = sample_header \<and> c = sample_claims \<and> key = replicate 64 (CHR ''p'')
        then Inr ''signed'' else Inl (ENew ''cannot sign'')),
      jwt_parse = (\<lambda>opts keyf t raw.
        if raw = ''signed'' \<and> jh_alg sample_header \<in> set (po_methods opts) \<and> claims_checked opts t sample_claims
        then (case keyf sample_header of Inl e \<Rightarrow> Inl e
              | Inr k \<Rightarrow> if k = replicate 32 (CHR ''p'') then Inr sample_claims else Inl (ENew ''signature''))
        else Inl (ENew ''malformed''))\<rparr>"

text \<open>A library that signs whatever it is given, for the witnesses that need several tokens.\<close>

definition sample_jwt2 :: jwt_library where
  "sample_jwt2 =
     \<lparr>jwt_sign = (\<lambda>h c key. Inr (cl_SessionID c)),
      jwt_parse = (\<lambda>opts keyf t raw. Inr (sample_claims\<lparr>cl_SessionID := raw\<rparr>))\<rparr>"


lemma sample_bearer_new:
  "newBearerSessionManager ast rst sample_bearer_config = Inr (sample_bearer_manager ast rst)"
proof -
  have "\<not> blank ''iss''" "\<not> blank ''aud''" "\<not> blank ''k''" by code_simp+
  moreover have "drop 32 (replicate 64 (CHR ''p'')) = replicate 32 (CHR ''p'')" by simp
  ultimately show ?thesis
    by (simp add: newBearerSessionManager_def sample_bearer_config_def acc_NewIssuer_def acc_NewVerifier_def
        ref_NewManager_def sample_bearer_manager_def second_ns_def bearer_publicKeys_def ed25519_Public_def)
qed

lemma sample_bearer_ok:
  "bearer_ok (tw_store (sample_store_world sample_bearer_conn))"
  "rd_bearer_ok (tw_store (sample_store_world sample_bearer_redis))"
  "families (bearer_view (tw_store (sample_store_world sample_bearer_conn)))"
  "families (rd_bearer_view (tw_store (sample_store_world sample_bearer_redis)))"
  by (simp_all add: sample_store_world_def sample_bearer_conn_def sample_bearer_redis_def bearer_ok_def
      bearer_tables_ok_def rd_bearer_ok_def redis_bearer_ok_def families_def bearer_view_def
      rd_bearer_view_def redis_bearer_db_def)

lemma sample_clock: "\<forall>n. 0 < clock (sample_store_world s) n" "mono (clock (sample_store_world s))"
  by (auto simp: sample_store_world_def sample_world_def second_ns_def mono_def)

text \<open>The sample manager over a store, its first refresh token, and the world after \<^verbatim>\<open>Create\<close>.\<close>

abbreviation rd_sample :: "redis_bearer redis bearerSessionManager" where
  "rd_sample \<equiv> sample_bearer_manager rd_AccessSessionStore rd_RefreshTokenStore"

abbreviation pg_sample :: "bearer_conn bearerSessionManager" where
  "pg_sample \<equiv> sample_bearer_manager pg_AccessSessionStore pg_RefreshTokenStore"

abbreviation mg_sample :: "bearer_conn bearerSessionManager" where
  "mg_sample \<equiv> sample_bearer_manager mg_AccessSessionStore mg_RefreshTokenStore"

definition sample_refresh :: string where
  "sample_refresh = ''AgMEBQYHCAkKCwwNDg8QERITFBUWFxgZGhscHR4fICE''"

text \<open>The state that a run reaches from a proper start is proper again.\<close>

lemma bearer_run_start:
  assumes "bearer_safe view ok w w'" and "ok (tw_store w)" and "families (view (tw_store w))"
    and "\<forall>n. 0 < clock w n"
  shows "ok (tw_store w') \<and> families (view (tw_store w')) \<and> (\<forall>n. 0 < clock w' n) \<and>
    bearer_evolves (view (tw_store w)) (view (tw_store w'))"
  using assms by (simp add: bearer_safe_def)

section \<open>Properties\<close>

text \<open>C3: All four database adapters implement the contract of bearer sessions: the refresh-token
  store and the access-session store of an adapter act together on one abstract state, keep its
  keys, and either fail with a driver error without effect or return and store what the reference
  operation does; reuse of a refresh token commits the revocation of its session.\<close>

theorem bearer_adapters_refine:
  "bearer_store pg_RefreshTokenStore pg_AccessSessionStore bearer_view bearer_ok \<and>
   bearer_store my_RefreshTokenStore my_AccessSessionStore bearer_view bearer_ok \<and>
   bearer_store mg_RefreshTokenStore mg_AccessSessionStore bearer_view bearer_ok \<and>
   bearer_store rd_RefreshTokenStore rd_AccessSessionStore rd_bearer_view rd_bearer_ok"
  by (intro conjI pg_bearer.bearer_store_axioms my_bearer.bearer_store_axioms
      mg_bearer.bearer_store_axioms rd_bearer.bearer_store_axioms)

text \<open>C7: The invariant of bearer sessions holds in every state that any calls of the manager can
  reach: each refresh token belongs to a stored session and expires with it, a revoked session has
  only revoked tokens, and at most one token of a session is neither rotated nor revoked. Identity,
  lifetime, revocation and the use of a token are never undone.\<close>

theorem bearer_families_invariant:
  assumes "newBearerSessionManager my_AccessSessionStore my_RefreshTokenStore config = Inr mgr"
    and "bearer_ok (tw_store w)" and "families (bearer_view (tw_store w))" and "\<forall>n. 0 < clock w n"
  shows "families (bearer_view (tw_store (bearer_run lib sha mgr calls w))) \<and>
    bearer_evolves (bearer_view (tw_store w)) (bearer_view (tw_store (bearer_run lib sha mgr calls w)))"
  using bearer_run_start [OF my_bearer.bearer_run_safe [OF newBearerSessionManager_service [OF assms(1)]] assms(2-)]
  by blast

theorem bearer_families_invariant_witness:
  "families (bearer_view (tw_store (bearer_run sample_jwt bearer_sha
     (sample_bearer_manager my_AccessSessionStore my_RefreshTokenStore)
     [BearerCreate ''alice'', BearerRefresh ''x'', BearerRevokeAll ''alice'']
     (sample_store_world sample_bearer_conn))))"
  by (rule bearer_families_invariant [OF sample_bearer_new sample_bearer_ok(1,3) sample_clock(1), THEN conjunct1])

text \<open>C4: A refresh token works once. When \<^verbatim>\<open>Refresh\<close> succeeds, its session was stored and not revoked,
  the answer carries a different token for the same session that expires when the session does, no
  access token outlives the session, and the presented token is rejected in every later state.\<close>

theorem refresh_token_single_use:
  assumes "newBearerSessionManager rd_AccessSessionStore rd_RefreshTokenStore config = Inr mgr"
    and "rd_bearer_ok (tw_store w)" and "families (rd_bearer_view (tw_store w))" and "\<forall>n. 0 < clock w n"
    and "bearer_Refresh lib sha mgr raw (bearer_run lib sha mgr before w) = (Inr b, w1)"
  shows "(\<exists>e w2. bearer_Refresh lib sha mgr raw (bearer_run lib sha mgr calls w1) = (Inl e, w2)) \<and>
    bi_RefreshToken b \<noteq> raw \<and> bi_RefreshTokenExpiresAt b = se_ExpiresAt (bi_Session b) \<and>
    bi_AccessTokenExpiresAt b \<le> se_ExpiresAt (bi_Session b) \<and>
    (\<exists>a. access (rd_bearer_view (tw_store w1)) (se_ID (bi_Session b)) = Some a \<and> as_RevokedAt a = None)"
proof -
  note s = newBearerSessionManager_service [OF assms(1)]
  let ?w = "bearer_run lib sha mgr before w" and ?w2 = "bearer_run lib sha mgr calls w1"
  note st = bearer_run_start [OF rd_bearer.bearer_run_safe [OF s, of w lib sha before] assms(2-4)]
  note safe1 = rd_bearer.bearer_Refresh_safe [OF s, of ?w lib sha raw, unfolded assms(5) snd_conv]
  note st1 = bearer_run_start [OF safe1]
  note st2 = bearer_run_start [OF rd_bearer.bearer_run_safe [OF s, of w1 lib sha calls]]
  from s have o: "rd_bearer_ok (tw_store ?w)" and f: "families (rd_bearer_view (tw_store ?w))" using st by auto
  from s o f assms(5) show ?thesis
  proof (rule rd_bearer.Refresh_Inr)
    fix h q a i n
    assume q: "HashToken sha raw = Inr h" "refresh (rd_bearer_view (tw_store ?w)) h = Some q" "live q"
      and a: "access (rd_bearer_view (tw_store ?w)) (rr_SessionID q) = Some a" "as_RevokedAt a = None"
      and b: "bi_Session b = session_of (durable_of a)" "bi_RefreshToken b = ri_Token i"
        "bi_RefreshTokenExpiresAt b = rr_ExpiresAt (ri_Record i)" "bi_AccessTokenExpiresAt b \<le> as_ExpiresAt a"
      and rot: "rotated_token sha (rd_bearer_view (tw_store ?w)) h q (clock ?w) (Inr i) (rd_bearer_view (tw_store w1))"
    obtain m where m: "HashToken sha (ri_Token i) = Inr (rr_TokenHash (ri_Record i))"
      "refresh (rd_bearer_view (tw_store ?w)) (rr_TokenHash (ri_Record i)) = None"
      "rr_ExpiresAt (ri_Record i) = rr_ExpiresAt q"
      "refresh (rd_bearer_view (tw_store w1)) h = Some (q\<lparr>rr_RotatedAt := Some m\<rparr>)"
      "access (rd_bearer_view (tw_store w1)) = access (rd_bearer_view (tw_store ?w))"
      using rot by (auto simp: rotated_token_def)
    have ne: "bi_RefreshToken b \<noteq> raw" using m(1,2) q(1,2) b(2) by auto
    have exp: "rr_ExpiresAt q = as_ExpiresAt a" using families_access [OF f q(2)] a by auto
    have ev: "bearer_evolves (rd_bearer_view (tw_store w1)) (rd_bearer_view (tw_store ?w2))"
      and o2: "rd_bearer_ok (tw_store ?w2)" and f2: "families (rd_bearer_view (tw_store ?w2))"
      using st st1 st2 by blast+
    obtain q2 where q2: "refresh (rd_bearer_view (tw_store ?w2)) h = Some q2" "\<not> live q2"
      using bearer_evolves_refresh [OF ev m(4)] by (auto simp: refresh_later_def live_def)
    obtain res w2 where r: "bearer_Refresh lib sha mgr raw ?w2 = (res, w2)" by fastforce
    have "isl res"
    proof (cases res)
      case (Inr b2)
      show ?thesis
        by (rule rd_bearer.Refresh_Inr [OF s o2 f2 r [unfolded Inr]]) (use q(1) q2 in auto)
    qed simp
    then show ?thesis
      using r ne b exp m(3,5) a rd_bearer.ok_view [OF o]
      by (auto simp: session_of_def durable_of_def bearer_keys_def isl_def)
  qed
qed

theorem refresh_token_single_use_witness:
  "\<exists>b w1 e w2.
     bearer_Refresh sample_jwt2 bearer_sha rd_sample sample_refresh
       (bearer_run sample_jwt2 bearer_sha rd_sample [BearerCreate ''alice'']
          (sample_store_world sample_bearer_redis)) = (Inr b, w1) \<and>
     bearer_Refresh sample_jwt2 bearer_sha rd_sample sample_refresh
       (bearer_run sample_jwt2 bearer_sha rd_sample [BearerList ''alice''] w1) = (Inl e, w2)"
proof -
  let ?W = "bearer_run sample_jwt2 bearer_sha rd_sample [BearerCreate ''alice'']
    (sample_store_world sample_bearer_redis)"
  have "\<not> isl (fst (bearer_Refresh sample_jwt2 bearer_sha rd_sample sample_refresh ?W))" by code_simp
  from sample_result [OF this] obtain b w1
    where r: "bearer_Refresh sample_jwt2 bearer_sha rd_sample sample_refresh ?W = (Inr b, w1)" by blast
  from refresh_token_single_use [OF sample_bearer_new sample_bearer_ok(2,4) sample_clock(1) r,
      THEN conjunct1, of "[BearerList ''alice'']"]
  obtain e w2 where "bearer_Refresh sample_jwt2 bearer_sha rd_sample sample_refresh
       (bearer_run sample_jwt2 bearer_sha rd_sample [BearerList ''alice''] w1) = (Inl e, w2)" by blast
  with r show ?thesis by blast
qed

text \<open>C5: Reuse detection. Presenting a refresh token that was used or revoked before fails, and
  unless the infrastructure fails it fails with \<^verbatim>\<open>ErrReuseDetected\<close> after its session and all tokens
  of that session were revoked; no other session changes.\<close>

theorem reuse_revokes_family:
  assumes "newBearerSessionManager pg_AccessSessionStore pg_RefreshTokenStore config = Inr mgr"
    and "bearer_ok (tw_store w)" and "families (bearer_view (tw_store w))" and "\<forall>n. 0 < clock w n"
    and "HashToken sha raw = Inr h"
    and "refresh (bearer_view (tw_store (bearer_run lib sha mgr before w))) h = Some q"
    and "\<not> live q" and "ref_validRecord q"
  shows "\<exists>e w2. bearer_Refresh lib sha mgr raw (bearer_run lib sha mgr before w) = (Inl e, w2) \<and>
    (errors_is e (ERefresh Refresh_ErrReuseDetected) \<and>
       (\<exists>t. bearer_view (tw_store w2) = revoke_where (\<lambda>i. i = rr_SessionID q) t
          (bearer_view (tw_store (bearer_run lib sha mgr before w)))) \<or>
     driver_chain e \<and>
       bearer_view (tw_store w2) = bearer_view (tw_store (bearer_run lib sha mgr before w)))"
proof -
  note s = newBearerSessionManager_service [OF assms(1)]
  let ?w = "bearer_run lib sha mgr before w"
  have o: "bearer_ok (tw_store ?w)"
    using bearer_run_start [OF pg_bearer.bearer_run_safe [OF s, of w lib sha before] assms(2-4)] by blast
  obtain res w2 where r: "bearer_Refresh lib sha mgr raw ?w = (res, w2)" by fastforce
  from pg_bearer.Refresh_dead [OF s o assms(5-8) r] r show ?thesis by blast
qed

definition sample_used :: "bearer_conn store_world" where
  "sample_used = bearer_run sample_jwt2 bearer_sha pg_sample [BearerCreate ''alice'', BearerRefresh sample_refresh]
     (sample_store_world sample_bearer_conn)"

theorem reuse_revokes_family_witness:
  "\<exists>e w2. bearer_Refresh sample_jwt2 bearer_sha pg_sample sample_refresh sample_used = (Inl e, w2)"
proof -
  let ?q = "\<lambda>w. refresh (bearer_view (tw_store w)) 4"
  have h: "HashToken bearer_sha sample_refresh = Inr 4" by code_simp
  have "case ?q sample_used of None \<Rightarrow> False | Some q \<Rightarrow> \<not> live q \<and> ref_validRecord q" by code_simp
  then obtain q where q: "?q sample_used = Some q" "\<not> live q" "ref_validRecord q" by (auto split: option.splits)
  from reuse_revokes_family [OF sample_bearer_new sample_bearer_ok(1,3) sample_clock(1) h
      q(1) [unfolded sample_used_def] q(2,3)]
  show ?thesis unfolding sample_used_def by blast
qed

text \<open>C8: Revocation by the owner is final. When \<^verbatim>\<open>RevokeByID\<close> returns without error, the session
  belonged to the subject, exactly it and its refresh tokens were revoked, and in no later state does
  an access token resolve to it or a refresh token renew it. Any error leaves all sessions alone.\<close>

theorem revoked_by_id_is_final:
  assumes "newBearerSessionManager mg_AccessSessionStore mg_RefreshTokenStore config = Inr mgr"
    and "bearer_ok (tw_store w)" and "families (bearer_view (tw_store w))" and "\<forall>n. 0 < clock w n"
    and "bearer_RevokeByID mgr sub i (bearer_run lib sha mgr before w) = (res, w1)"
  shows "(res = Inr () \<longrightarrow>
       of_subject sub (bearer_view (tw_store (bearer_run lib sha mgr before w))) i \<and>
       (\<exists>t. bearer_view (tw_store w1) =
          revoke_where (\<lambda>j. j = i) t (bearer_view (tw_store (bearer_run lib sha mgr before w)))) \<and>
       (\<forall>raw x w2. bearer_Resolve lib mgr raw (bearer_run lib sha mgr calls w1) = (Inr x, w2) \<longrightarrow> se_ID x \<noteq> i) \<and>
       (\<forall>raw b w2. bearer_Refresh lib sha mgr raw (bearer_run lib sha mgr calls w1) = (Inr b, w2) \<longrightarrow>
          se_ID (bi_Session b) \<noteq> i)) \<and>
    (res \<noteq> Inr () \<longrightarrow>
       bearer_view (tw_store w1) = bearer_view (tw_store (bearer_run lib sha mgr before w)))"
proof -
  note s = newBearerSessionManager_service [OF assms(1)]
  let ?w = "bearer_run lib sha mgr before w"
  note st = bearer_run_start [OF mg_bearer.bearer_run_safe [OF s, of w lib sha before] assms(2-4)]
  have safe: "bearer_safe bearer_view bearer_ok ?w w1"
    using mg_bearer.bearer_do_safe [OF s, of ?w lib sha "BearerRevokeByID sub i"] assms(5) by simp
  note st1 = bearer_run_start [OF safe]
  have o: "bearer_ok (tw_store ?w)" using st by blast
  note r = mg_bearer.RevokeByID_result [OF s o assms(5)]
  show ?thesis
  proof (cases "res = Inr ()")
    case True
    then obtain n where n: "of_subject sub (bearer_view (tw_store ?w)) i"
      "bearer_view (tw_store w1) = revoke_where (\<lambda>j. j = i) (clock ?w n) (bearer_view (tw_store ?w))"
      using r by auto
    obtain a where a: "access (bearer_view (tw_store w1)) i = Some a" "as_RevokedAt a \<noteq> None"
      using revoke_where_revokes [OF n(1), of "\<lambda>j. j = i"] n(2) by fastforce
    have o1: "bearer_ok (tw_store w1)" and f1: "families (bearer_view (tw_store w1))" and c1: "\<forall>n. 0 < clock w1 n"
      using st st1 by blast+
    note dead = mg_bearer.revoked_session_dead [OF s o1 f1 a c1 mg_bearer.bearer_run_safe [OF s]]
    show ?thesis using True n dead by blast
  qed (use r in auto)
qed

theorem revoked_by_id_is_final_witness:
  "fst (bearer_RevokeByID mg_sample ''alice'' ''id0'' (bearer_run sample_jwt2 bearer_sha mg_sample
      [BearerCreate ''alice''] (sample_store_world sample_bearer_conn))) = Inr () \<and>
   (\<exists>t. bearer_view (tw_store (snd (bearer_RevokeByID mg_sample ''alice'' ''id0'' (bearer_run sample_jwt2
        bearer_sha mg_sample [BearerCreate ''alice''] (sample_store_world sample_bearer_conn))))) =
     revoke_where (\<lambda>j. j = ''id0'') t (bearer_view (tw_store (bearer_run sample_jwt2 bearer_sha mg_sample
        [BearerCreate ''alice''] (sample_store_world sample_bearer_conn)))))"
proof -
  let ?W = "bearer_run sample_jwt2 bearer_sha mg_sample [BearerCreate ''alice''] (sample_store_world sample_bearer_conn)"
  have 1: "fst (bearer_RevokeByID mg_sample ''alice'' ''id0'' ?W) = Inr ()" by code_simp
  have 2: "bearer_RevokeByID mg_sample ''alice'' ''id0'' ?W =
      (Inr (), snd (bearer_RevokeByID mg_sample ''alice'' ''id0'' ?W))"
    using 1 by (metis prod.collapse)
  from revoked_by_id_is_final [OF sample_bearer_new sample_bearer_ok(1,3) sample_clock(1) 2,
      of "[BearerCreate ''bob'']"] 1
  show ?thesis by blast
qed

text \<open>\<^verbatim>\<open>RevokeAll\<close> ends every session that the subject has, and only those: when it returns without
  error exactly the subject's sessions and their tokens carry a revocation, and no later state lets
  one of them resolve or refresh.\<close>

theorem bearer_RevokeAll_subject:
  assumes "newBearerSessionManager rd_AccessSessionStore rd_RefreshTokenStore config = Inr mgr"
    and "rd_bearer_ok (tw_store w)" and "families (rd_bearer_view (tw_store w))" and "\<forall>n. 0 < clock w n"
    and "bearer_RevokeAll mgr sub (bearer_run lib sha mgr before w) = (Inr (), w1)"
    and "of_subject sub (rd_bearer_view (tw_store (bearer_run lib sha mgr before w))) i"
  shows "(\<exists>t. rd_bearer_view (tw_store w1) =
       revoke_where (of_subject sub (rd_bearer_view (tw_store (bearer_run lib sha mgr before w)))) t
         (rd_bearer_view (tw_store (bearer_run lib sha mgr before w)))) \<and>
    (\<forall>raw x w2. bearer_Resolve lib mgr raw (bearer_run lib sha mgr calls w1) = (Inr x, w2) \<longrightarrow> se_ID x \<noteq> i) \<and>
    (\<forall>raw b w2. bearer_Refresh lib sha mgr raw (bearer_run lib sha mgr calls w1) = (Inr b, w2) \<longrightarrow>
       se_ID (bi_Session b) \<noteq> i)"
proof -
  note s = newBearerSessionManager_service [OF assms(1)]
  let ?w = "bearer_run lib sha mgr before w"
  note st = bearer_run_start [OF rd_bearer.bearer_run_safe [OF s, of w lib sha before] assms(2-4)]
  have safe: "bearer_safe rd_bearer_view rd_bearer_ok ?w w1"
    using rd_bearer.bearer_do_safe [OF s, of ?w lib sha "BearerRevokeAll sub"] assms(5) by simp
  note st1 = bearer_run_start [OF safe]
  have o: "rd_bearer_ok (tw_store ?w)" using st by blast
  obtain n where n: "rd_bearer_view (tw_store w1) =
      revoke_where (of_subject sub (rd_bearer_view (tw_store ?w))) (clock ?w n) (rd_bearer_view (tw_store ?w))"
    using rd_bearer.RevokeAll_result [OF s o assms(5)] by blast
  then obtain a where a: "access (rd_bearer_view (tw_store w1)) i = Some a" "as_RevokedAt a \<noteq> None"
    using revoke_where_revokes [OF assms(6), of "of_subject sub (rd_bearer_view (tw_store ?w))"] assms(6)
    by fastforce
  have o1: "rd_bearer_ok (tw_store w1)" and f1: "families (rd_bearer_view (tw_store w1))"
    and c1: "\<forall>n. 0 < clock w1 n" using st st1 by blast+
  note dead = rd_bearer.revoked_session_dead [OF s o1 f1 a c1 rd_bearer.bearer_run_safe [OF s]]
  show ?thesis using n dead by blast
qed

theorem bearer_RevokeAll_subject_witness:
  "\<exists>t. rd_bearer_view (tw_store (snd (bearer_RevokeAll rd_sample ''alice'' (bearer_run sample_jwt2
        bearer_sha rd_sample [BearerCreate ''alice''] (sample_store_world sample_bearer_redis))))) =
     revoke_where (of_subject ''alice'' (rd_bearer_view (tw_store (bearer_run sample_jwt2 bearer_sha rd_sample
        [BearerCreate ''alice''] (sample_store_world sample_bearer_redis))))) t
       (rd_bearer_view (tw_store (bearer_run sample_jwt2 bearer_sha rd_sample
        [BearerCreate ''alice''] (sample_store_world sample_bearer_redis))))"
proof -
  let ?W = "bearer_run sample_jwt2 bearer_sha rd_sample [BearerCreate ''alice''] (sample_store_world sample_bearer_redis)"
  have 1: "fst (bearer_RevokeAll rd_sample ''alice'' ?W) = Inr ()" by code_simp
  have 2: "bearer_RevokeAll rd_sample ''alice'' ?W = (Inr (), snd (bearer_RevokeAll rd_sample ''alice'' ?W))"
    using 1 by (metis prod.collapse)
  have "case access (rd_bearer_view (tw_store ?W)) ''id0'' of None \<Rightarrow> False
      | Some a \<Rightarrow> as_SubjectID a = ''alice''" by code_simp
  then have 3: "of_subject ''alice'' (rd_bearer_view (tw_store ?W)) ''id0''"
    by (auto simp: of_subject_def split: option.splits)
  from bearer_RevokeAll_subject [OF sample_bearer_new sample_bearer_ok(2,4) sample_clock(1) 2 3]
  show ?thesis by blast
qed






text \<open>\<^verbatim>\<open>List\<close> shows exactly the subject's sessions that are neither revoked nor expired, newest
  first and without repetition, and changes nothing.\<close>

theorem bearer_List_exact:
  assumes "newBearerSessionManager mg_AccessSessionStore mg_RefreshTokenStore config = Inr mgr"
    and "bearer_ok (tw_store w)" and "bearer_List mgr sub w = (Inr l, w1)"
  shows "\<exists>n. set l = {session_of (durable_of a) | i a. access (bearer_view (tw_store w)) i = Some a \<and>
       as_SubjectID a = sub \<and> as_RevokedAt a = None \<and> clock w n < as_ExpiresAt a} \<and>
     distinct (map se_ID l) \<and> sorted_wrt (\<lambda>x y. se_CreatedAt y \<le> se_CreatedAt x) l \<and>
     bearer_view (tw_store w1) = bearer_view (tw_store w)"
proof -
  note s = newBearerSessionManager_service [OF assms(1)]
  from s assms(2,3) show ?thesis
  proof (rule mg_bearer.List_result)
    fix as n
    assume l: "l = map (\<lambda>a. session_of (durable_of a))
        (filter (\<lambda>a. as_RevokedAt a = None \<and> clock w n < as_ExpiresAt a) as)"
      and as: "set as = {a \<in> ran (access (bearer_view (tw_store w))). as_SubjectID a = sub}" "distinct as"
        "sorted_wrt (\<lambda>a b. as_CreatedAt b \<le> as_CreatedAt a) as"
      and v: "bearer_view (tw_store w1) = bearer_view (tw_store w)"
    have "inj_on as_ID (set as)"
      using as(1) mg_bearer.ok_view [OF assms(2)] by (auto simp: inj_on_def ran_def bearer_keys_def)
    then have d: "distinct (map as_ID (filter p as))" for p
      using as(2) by (auto simp: distinct_map inj_on_def)
    have "map se_ID l = map as_ID (filter (\<lambda>a. as_RevokedAt a = None \<and> clock w n < as_ExpiresAt a) as)"
      unfolding l by (simp add: session_of_def durable_of_def)
    moreover have "sorted_wrt (\<lambda>x y. se_CreatedAt y \<le> se_CreatedAt x) l"
      unfolding l sorted_wrt_map using sorted_wrt_filter [OF as(3)] by (simp add: session_of_def durable_of_def)
    moreover have "set l = {session_of (durable_of a) | i a. access (bearer_view (tw_store w)) i = Some a \<and>
       as_SubjectID a = sub \<and> as_RevokedAt a = None \<and> clock w n < as_ExpiresAt a}"
      unfolding l using as(1) by (auto simp: ran_def)
    ultimately show ?thesis using d v by auto
  qed
qed

theorem bearer_List_exact_witness:
  "\<exists>l w1. bearer_List mg_sample ''alice'' (bearer_run sample_jwt2 bearer_sha mg_sample [BearerCreate ''alice'']
      (sample_store_world sample_bearer_conn)) = (Inr l, w1) \<and> distinct (map se_ID l)"
proof -
  let ?W = "bearer_run sample_jwt2 bearer_sha mg_sample [BearerCreate ''alice''] (sample_store_world sample_bearer_conn)"
  have o: "bearer_ok (tw_store ?W)"
    using bearer_run_start [OF mg_bearer.bearer_run_safe [OF newBearerSessionManager_service
          [OF sample_bearer_new]] sample_bearer_ok(1,3) sample_clock(1)] by blast
  have "\<not> isl (fst (bearer_List mg_sample ''alice'' ?W))" by code_simp
  from sample_result [OF this] obtain l w1 where r: "bearer_List mg_sample ''alice'' ?W = (Inr l, w1)" by blast
  from bearer_List_exact [OF sample_bearer_new o r] r show ?thesis by blast
qed

end
