(* ===== verification/AccountStore.thy ===== *)
theory AccountStore
  imports Database
begin

text \<open>
  The durable accounts: users, password credentials, Google identities, the one-time records of email
  verification and password reset, and the challenges of the Google sign-in. The interfaces are
  \<^verbatim>\<open>emailpassword.Store\<close> and \<^verbatim>\<open>CredentialStore\<close>, \<^verbatim>\<open>emailverification.Store\<close>, \<^verbatim>\<open>passwordreset.Store\<close>,
  \<^verbatim>\<open>googleoauth.Store\<close> and \<^verbatim>\<open>IdentityStore\<close>. Their contract is the locale \<open>account_store\<close>: each operation
  implements a reference operation on the abstract state \<open>account_db\<close>, a record of finite maps with the
  indexes by email and by token hash.

  Two adapters promise less. MySQL's \<^verbatim>\<open>ON DUPLICATE KEY UPDATE\<close> may overwrite the record of another user
  whose token hash is the same (\<open>overwrites\<close>); Redis reports a failing read inside \<^verbatim>\<open>Verify\<close> and
  \<^verbatim>\<open>ResetPassword\<close> as \<^verbatim>\<open>ErrNotFound\<close> (\<open>lossy\<close>). Where an operation creates a user, the UUID, the
  WebAuthn handle and the instant that the adapter draws during the call are its argument \<open>draws\<close>.
\<close>

section \<open>Data\<close>

record EmailUser =
  eu_ID :: string
  eu_Email :: string

record PasswordCredential =
  pc_UserID :: string
  pc_PasswordHash :: string

record Registration =
  rg_Email :: string
  rg_PasswordHash :: string
  rg_CreatedAt :: time

record VerifiedUser =
  vu_ID :: string
  vu_Email :: string
  vu_Verified :: bool

record OneTimeRecord =
  ot_UserID :: string
  ot_Email :: string
  ot_TokenHash :: hash
  ot_CreatedAt :: time
  ot_ExpiresAt :: time

record GoogleChallenge =
  gc_StateHash :: hash
  gc_Nonce :: string
  gc_CodeVerifier :: string
  gc_SubjectID :: string
  gc_CreatedAt :: time
  gc_ExpiresAt :: time

record IdentityResolution =
  ir_ProviderSubject :: string
  ir_Email :: string
  ir_SubjectID :: string

record draws =
  dr_uuid :: "err + string"
  dr_handle :: "err + string"
  dr_now :: time

record userDocument =
  ud_ID :: string
  ud_Email :: string
  ud_EmailVerified :: bool
  ud_WebAuthnHandle :: string
  ud_CreatedAt :: time

record passwordDocument =
  pd_UserID :: string
  pd_PasswordHash :: string
  pd_UpdatedAt :: time

section \<open>Interfaces\<close>

record 's EmailPasswordStore =
  es_Register :: "draws \<Rightarrow> Registration \<Rightarrow> 's \<Rightarrow> (err + EmailUser) \<times> 's"
  es_FindByEmail :: "string \<Rightarrow> 's \<Rightarrow> (err + EmailUser \<times> PasswordCredential) \<times> 's"
  es_ReplacePasswordHash :: "string \<Rightarrow> string \<Rightarrow> string \<Rightarrow> time \<Rightarrow> 's \<Rightarrow> (err + unit) \<times> 's"

record 's CredentialStore =
  cs_FindBySubject :: "string \<Rightarrow> 's \<Rightarrow> (err + EmailUser \<times> PasswordCredential) \<times> 's"
  cs_AddPassword :: "string \<Rightarrow> string \<Rightarrow> time \<Rightarrow> 's \<Rightarrow> (err + EmailUser) \<times> 's"
  cs_ReplacePasswordHash :: "string \<Rightarrow> string \<Rightarrow> string \<Rightarrow> time \<Rightarrow> 's \<Rightarrow> (err + unit) \<times> 's"
  cs_RemovePassword :: "string \<Rightarrow> string \<Rightarrow> time \<Rightarrow> 's \<Rightarrow> (err + unit) \<times> 's"

record 's VerificationStore =
  vs_FindUserByEmail :: "string \<Rightarrow> 's \<Rightarrow> (err + VerifiedUser) \<times> 's"
  vs_Issue :: "OneTimeRecord \<Rightarrow> 's \<Rightarrow> (err + unit) \<times> 's"
  vs_Verify :: "hash \<Rightarrow> time \<Rightarrow> 's \<Rightarrow> (err + VerifiedUser) \<times> 's"

record 's ResetStore =
  ps_FindUserByEmail :: "string \<Rightarrow> 's \<Rightarrow> (err + EmailUser) \<times> 's"
  ps_Issue :: "OneTimeRecord \<Rightarrow> 's \<Rightarrow> (err + unit) \<times> 's"
  ps_ResetPassword :: "hash \<Rightarrow> string \<Rightarrow> time \<Rightarrow> 's \<Rightarrow> (err + EmailUser) \<times> 's"

record 's GoogleStore =
  gs_CreateChallenge :: "GoogleChallenge \<Rightarrow> 's \<Rightarrow> (err + unit) \<times> 's"
  gs_ConsumeChallenge :: "hash \<Rightarrow> time \<Rightarrow> 's \<Rightarrow> (err + GoogleChallenge) \<times> 's"
  gs_ResolveIdentity :: "draws \<Rightarrow> IdentityResolution \<Rightarrow> 's \<Rightarrow> (err + string) \<times> 's"
  gs_UnlinkIdentity :: "string \<Rightarrow> time \<Rightarrow> 's \<Rightarrow> (err + unit) \<times> 's"

section \<open>The abstract state\<close>

record account_db =
  users :: "string \<rightharpoonup> userDocument"
  emails :: "string \<rightharpoonup> string"
  passwords :: "string \<rightharpoonup> passwordDocument"
  googles :: "string \<rightharpoonup> string \<times> string"
  verifications :: "string \<rightharpoonup> OneTimeRecord"
  verification_tokens :: "hash \<rightharpoonup> string"
  resets :: "string \<rightharpoonup> OneTimeRecord"
  reset_tokens :: "hash \<rightharpoonup> string"
  challenges :: "hash \<rightharpoonup> GoogleChallenge"
  passkeys :: "string \<Rightarrow> nat"

definition has_google :: "account_db \<Rightarrow> string \<Rightarrow> bool" where
  "has_google a i \<longleftrightarrow> (\<exists>p e. googles a p = Some (i, e))"

text \<open>A user can sign in by a password, a Google identity or a passkey.\<close>

definition has_method :: "account_db \<Rightarrow> string \<Rightarrow> bool" where
  "has_method a i \<longleftrightarrow> passwords a i \<noteq> None \<or> has_google a i \<or> 0 < passkeys a i"

text \<open>One-time records and their index by token hash.\<close>

definition one_time_ok :: "(string \<rightharpoonup> OneTimeRecord) \<Rightarrow> (hash \<rightharpoonup> string) \<Rightarrow> bool" where
  "one_time_ok recs toks \<longleftrightarrow>
     (\<forall>i r. recs i = Some r \<longrightarrow> ot_UserID r = i \<and> toks (ot_TokenHash r) = Some i) \<and>
     (\<forall>h i. toks h = Some i \<longrightarrow> (\<exists>r. recs i = Some r \<and> ot_TokenHash r = h))"

definition accounts_ok :: "account_db \<Rightarrow> bool" where
  "accounts_ok a \<longleftrightarrow>
     (\<forall>i u. users a i = Some u \<longrightarrow> ud_ID u = i \<and> emails a (ud_Email u) = Some i) \<and>
     (\<forall>e i. emails a e = Some i \<longrightarrow> (\<exists>u. users a i = Some u \<and> ud_Email u = e)) \<and>
     (\<forall>i p. passwords a i = Some p \<longrightarrow> pd_UserID p = i \<and> users a i \<noteq> None) \<and>
     (\<forall>p i e. googles a p = Some (i, e) \<longrightarrow> users a i \<noteq> None) \<and>
     (\<forall>p q i e f. googles a p = Some (i, e) \<and> googles a q = Some (i, f) \<longrightarrow> p = q) \<and>
     one_time_ok (verifications a) (verification_tokens a) \<and>
     one_time_ok (resets a) (reset_tokens a) \<and>
     (\<forall>h c. challenges a h = Some c \<longrightarrow> gc_StateHash c = h)"

text \<open>The drawn identifiers are new to the accounts, and a UUID is not blank.\<close>

definition draws_fresh :: "draws \<Rightarrow> account_db \<Rightarrow> bool" where
  "draws_fresh dr a \<longleftrightarrow>
     (\<forall>i. dr_uuid dr = Inr i \<longrightarrow> users a i = None \<and> \<not> blank i) \<and>
     (\<forall>h i u. dr_handle dr = Inr h \<and> users a i = Some u \<longrightarrow> ud_WebAuthnHandle u \<noteq> h)"

section \<open>The reference operations\<close>

definition new_user :: "string \<Rightarrow> bool \<Rightarrow> time \<Rightarrow> draws \<Rightarrow> err + userDocument" where
  "new_user email verified createdAt dr =
     (case dr_uuid dr of Inl e \<Rightarrow> Inl (EWrap ''generate user ID'' e)
      | Inr i \<Rightarrow>
     (case dr_handle dr of Inl e \<Rightarrow> Inl (EWrap ''generate WebAuthn handle'' e)
      | Inr h \<Rightarrow> Inr \<lparr>ud_ID = i, ud_Email = email, ud_EmailVerified = verified,
                    ud_WebAuthnHandle = h, ud_CreatedAt = createdAt\<rparr>))"

definition insert_user :: "userDocument \<Rightarrow> account_db \<Rightarrow> account_db" where
  "insert_user u a = a\<lparr>users := (users a)(ud_ID u \<mapsto> u), emails := (emails a)(ud_Email u \<mapsto> ud_ID u)\<rparr>"

definition set_password :: "string \<Rightarrow> string \<Rightarrow> time \<Rightarrow> account_db \<Rightarrow> account_db" where
  "set_password i h t a =
     a\<lparr>passwords := (passwords a)(i \<mapsto> \<lparr>pd_UserID = i, pd_PasswordHash = h, pd_UpdatedAt = t\<rparr>)\<rparr>"

definition spec_Register :: "draws \<Rightarrow> Registration \<Rightarrow> account_db \<Rightarrow> (err + EmailUser) \<times> account_db" where
  "spec_Register dr reg a =
     (case new_user (rg_Email reg) False (rg_CreatedAt reg) dr of Inl e \<Rightarrow> (Inl e, a)
      | Inr u \<Rightarrow>
          if emails a (rg_Email reg) \<noteq> None then (Inl (EEmailpassword Emailpassword_ErrConflict), a)
          else (Inr \<lparr>eu_ID = ud_ID u, eu_Email = rg_Email reg\<rparr>,
                set_password (ud_ID u) (rg_PasswordHash reg) (rg_CreatedAt reg) (insert_user u a)))"

definition credential_of :: "account_db \<Rightarrow> string \<Rightarrow> err + EmailUser \<times> PasswordCredential" where
  "credential_of a i =
     (case users a i of None \<Rightarrow> Inl (EEmailpassword Emailpassword_ErrNotFound)
      | Some u \<Rightarrow>
     (case passwords a i of None \<Rightarrow> Inl (EEmailpassword Emailpassword_ErrNotFound)
      | Some p \<Rightarrow> Inr (\<lparr>eu_ID = i, eu_Email = ud_Email u\<rparr>,
                      \<lparr>pc_UserID = i, pc_PasswordHash = pd_PasswordHash p\<rparr>)))"

definition spec_FindByEmail ::
  "string \<Rightarrow> account_db \<Rightarrow> (err + EmailUser \<times> PasswordCredential) \<times> account_db" where
  "spec_FindByEmail email a =
     ((case emails a email of None \<Rightarrow> Inl (EEmailpassword Emailpassword_ErrNotFound)
       | Some i \<Rightarrow> credential_of a i), a)"

definition spec_FindBySubject ::
  "string \<Rightarrow> account_db \<Rightarrow> (err + EmailUser \<times> PasswordCredential) \<times> account_db" where
  "spec_FindBySubject i a = (credential_of a i, a)"

definition spec_AddPassword ::
  "string \<Rightarrow> string \<Rightarrow> time \<Rightarrow> account_db \<Rightarrow> (err + EmailUser) \<times> account_db" where
  "spec_AddPassword i h t a =
     (case users a i of None \<Rightarrow> (Inl (EEmailpassword Emailpassword_ErrNotFound), a)
      | Some u \<Rightarrow>
          if passwords a i \<noteq> None then (Inl (EEmailpassword Emailpassword_ErrConflict), a)
          else (Inr \<lparr>eu_ID = i, eu_Email = ud_Email u\<rparr>, set_password i h t a))"

definition spec_ReplacePasswordHash ::
  "string \<Rightarrow> string \<Rightarrow> string \<Rightarrow> time \<Rightarrow> account_db \<Rightarrow> (err + unit) \<times> account_db" where
  "spec_ReplacePasswordHash i current replacement t a =
     (case passwords a i of None \<Rightarrow> (Inl (EEmailpassword Emailpassword_ErrConflict), a)
      | Some p \<Rightarrow>
          if pd_PasswordHash p \<noteq> current then (Inl (EEmailpassword Emailpassword_ErrConflict), a)
          else (Inr (), set_password i replacement t a))"

definition spec_RemovePassword ::
  "string \<Rightarrow> string \<Rightarrow> account_db \<Rightarrow> (err + unit) \<times> account_db" where
  "spec_RemovePassword i current a =
     (case users a i of None \<Rightarrow> (Inl (EEmailpassword Emailpassword_ErrNotFound), a)
      | Some u \<Rightarrow>
     (case passwords a i of None \<Rightarrow> (Inl (EEmailpassword Emailpassword_ErrNotFound), a)
      | Some p \<Rightarrow>
          if pd_PasswordHash p \<noteq> current then (Inl (EEmailpassword Emailpassword_ErrConflict), a)
          else if \<not> has_google a i \<and> passkeys a i = 0
          then (Inl (EEmailpassword Emailpassword_ErrLastCredential), a)
          else (Inr (), a\<lparr>passwords := (passwords a)(i := None)\<rparr>)))"

definition spec_FindVerified :: "string \<Rightarrow> account_db \<Rightarrow> (err + VerifiedUser) \<times> account_db" where
  "spec_FindVerified email a =
     ((case emails a email of None \<Rightarrow> Inl (EVerification Verification_ErrNotFound)
       | Some i \<Rightarrow>
      (case users a i of None \<Rightarrow> Inl (EVerification Verification_ErrNotFound)
       | Some u \<Rightarrow> Inr \<lparr>vu_ID = i, vu_Email = ud_Email u, vu_Verified = ud_EmailVerified u\<rparr>)), a)"

definition spec_FindReset :: "string \<Rightarrow> account_db \<Rightarrow> (err + EmailUser) \<times> account_db" where
  "spec_FindReset email a =
     ((case emails a email of None \<Rightarrow> Inl (EReset Reset_ErrNotFound)
       | Some i \<Rightarrow>
      (case users a i of None \<Rightarrow> Inl (EReset Reset_ErrNotFound)
       | Some u \<Rightarrow> Inr \<lparr>eu_ID = i, eu_Email = ud_Email u\<rparr>)), a)"

text \<open>
  Issuing replaces the user's earlier record and its index entry. The index entry may belong to another
  user; then it is a conflict, or, where the adapter \<open>overwrites\<close>, that user's record takes the new
  contents.
\<close>

definition drop_token :: "(string \<rightharpoonup> OneTimeRecord) \<Rightarrow> string \<Rightarrow> (hash \<rightharpoonup> string) \<Rightarrow> (hash \<rightharpoonup> string)" where
  "drop_token recs i toks = (case recs i of None \<Rightarrow> toks | Some r \<Rightarrow> toks(ot_TokenHash r := None))"

definition issue_rel ::
  "bool \<Rightarrow> err \<Rightarrow> OneTimeRecord \<Rightarrow> (string \<rightharpoonup> OneTimeRecord) \<times> (hash \<rightharpoonup> string) \<Rightarrow> (err + unit) \<Rightarrow>
     (string \<rightharpoonup> OneTimeRecord) \<times> (hash \<rightharpoonup> string) \<Rightarrow> bool" where
  "issue_rel overwrites conflict r before res after \<longleftrightarrow>
     (case before of (recs, toks) \<Rightarrow>
      case toks (ot_TokenHash r) of
        Some j \<Rightarrow>
          if j = ot_UserID r
          then res = Inr () \<and> after = (recs(ot_UserID r \<mapsto> r), toks)
          else res = Inl conflict \<and> after = before \<or>
            overwrites \<and> recs (ot_UserID r) = None \<and> res = Inr () \<and> after = (recs(j \<mapsto> r\<lparr>ot_UserID := j\<rparr>), toks)
      | None \<Rightarrow> res = Inr () \<and>
          after = (recs(ot_UserID r \<mapsto> r), (drop_token recs (ot_UserID r) toks)(ot_TokenHash r \<mapsto> ot_UserID r)))"

definition spec_IssueVerification ::
  "bool \<Rightarrow> OneTimeRecord \<Rightarrow> account_db \<Rightarrow> (err + unit) \<Rightarrow> account_db \<Rightarrow> bool" where
  "spec_IssueVerification overwrites r a x b \<longleftrightarrow>
     (\<exists>recs toks. issue_rel overwrites (EVerification Verification_ErrConflict) r
        (verifications a, verification_tokens a) x (recs, toks) \<and>
        b = a\<lparr>verifications := recs, verification_tokens := toks\<rparr>)"

definition spec_IssueReset ::
  "bool \<Rightarrow> OneTimeRecord \<Rightarrow> account_db \<Rightarrow> (err + unit) \<Rightarrow> account_db \<Rightarrow> bool" where
  "spec_IssueReset overwrites r a x b \<longleftrightarrow>
     (\<exists>recs toks. issue_rel overwrites (EReset Reset_ErrConflict) r (resets a, reset_tokens a) x (recs, toks) \<and>
        b = a\<lparr>resets := recs, reset_tokens := toks\<rparr>)"

definition verify_fun :: "hash \<Rightarrow> time \<Rightarrow> account_db \<Rightarrow> (err + VerifiedUser) \<times> account_db" where
  "verify_fun h t a =
     (case verification_tokens a h of None \<Rightarrow> (Inl (EVerification Verification_ErrNotFound), a)
      | Some i \<Rightarrow>
     (case verifications a i of None \<Rightarrow> (Inl (EVerification Verification_ErrNotFound), a)
      | Some r \<Rightarrow>
     (case users a i of None \<Rightarrow> (Inl (EVerification Verification_ErrNotFound), a)
      | Some u \<Rightarrow>
          if ud_EmailVerified u \<or> \<not> t < ot_ExpiresAt r
          then (Inl (EVerification Verification_ErrInactiveToken), a)
          else (Inr \<lparr>vu_ID = i, vu_Email = ud_Email u, vu_Verified = True\<rparr>,
                a\<lparr>users := (users a)(i \<mapsto> u\<lparr>ud_EmailVerified := True\<rparr>),
                  verifications := (verifications a)(i := None),
                  verification_tokens := (verification_tokens a)(h := None)\<rparr>))))"

definition spec_Verify ::
  "bool \<Rightarrow> hash \<Rightarrow> time \<Rightarrow> account_db \<Rightarrow> (err + VerifiedUser) \<Rightarrow> account_db \<Rightarrow> bool" where
  "spec_Verify lossy h t a x b \<longleftrightarrow>
     verify_fun h t a = (x, b) \<or>
     lossy \<and> x = Inl (EVerification Verification_ErrNotFound) \<and> b = a"

definition reset_fun :: "hash \<Rightarrow> string \<Rightarrow> time \<Rightarrow> account_db \<Rightarrow> (err + EmailUser) \<times> account_db" where
  "reset_fun h newHash t a =
     (case reset_tokens a h of None \<Rightarrow> (Inl (EReset Reset_ErrNotFound), a)
      | Some i \<Rightarrow>
     (case resets a i of None \<Rightarrow> (Inl (EReset Reset_ErrNotFound), a)
      | Some r \<Rightarrow>
          if \<not> t < ot_ExpiresAt r then (Inl (EReset Reset_ErrInactiveToken), a)
          else
          (case users a i of None \<Rightarrow> (Inl (EReset Reset_ErrNotFound), a)
           | Some u \<Rightarrow>
               (Inr \<lparr>eu_ID = i, eu_Email = ud_Email u\<rparr>,
                (set_password i newHash t a)
                  \<lparr>resets := (resets a)(i := None), reset_tokens := (reset_tokens a)(h := None)\<rparr>))))"

text \<open>A token whose user is gone is not found, expired or not.\<close>

definition spec_ResetPassword ::
  "bool \<Rightarrow> hash \<Rightarrow> string \<Rightarrow> time \<Rightarrow> account_db \<Rightarrow> (err + EmailUser) \<Rightarrow> account_db \<Rightarrow> bool" where
  "spec_ResetPassword lossy h newHash t a x b \<longleftrightarrow>
     reset_fun h newHash t a = (x, b) \<or>
     (lossy \<or> (\<forall>i. reset_tokens a h = Some i \<longrightarrow> users a i = None)) \<and>
       x = Inl (EReset Reset_ErrNotFound) \<and> b = a"

definition spec_CreateChallenge :: "GoogleChallenge \<Rightarrow> account_db \<Rightarrow> (err + unit) \<times> account_db" where
  "spec_CreateChallenge c a =
     (if challenges a (gc_StateHash c) \<noteq> None then (Inl (EGoogle Google_ErrConflict), a)
      else (Inr (), a\<lparr>challenges := (challenges a)(gc_StateHash c \<mapsto> c)\<rparr>))"

definition spec_ConsumeChallenge :: "hash \<Rightarrow> time \<Rightarrow> account_db \<Rightarrow> (err + GoogleChallenge) \<times> account_db" where
  "spec_ConsumeChallenge h t a =
     (case challenges a h of None \<Rightarrow> (Inl (EGoogle Google_ErrNotFound), a)
      | Some c \<Rightarrow>
          (if t < gc_ExpiresAt c then Inr c else Inl (EGoogle Google_ErrInvalidState),
           a\<lparr>challenges := (challenges a)(h := None)\<rparr>))"

definition link_google :: "string \<Rightarrow> string \<Rightarrow> string \<Rightarrow> account_db \<Rightarrow> account_db" where
  "link_google p i e a = a\<lparr>googles := (googles a)(p \<mapsto> (i, e))\<rparr>"

definition spec_ResolveIdentity ::
  "draws \<Rightarrow> IdentityResolution \<Rightarrow> account_db \<Rightarrow> (err + string) \<times> account_db" where
  "spec_ResolveIdentity dr r a =
     (case googles a (ir_ProviderSubject r) of
        Some (i, _) \<Rightarrow>
          if ir_SubjectID r \<noteq> [] \<and> i \<noteq> ir_SubjectID r then (Inl (EGoogle Google_ErrConflict), a)
          else (Inr i, link_google (ir_ProviderSubject r) i (ir_Email r) a)
      | None \<Rightarrow>
          if ir_SubjectID r \<noteq> [] then
            (if users a (ir_SubjectID r) = None then (Inl (EGoogle Google_ErrNotFound), a)
             else if has_google a (ir_SubjectID r) then (Inl (EGoogle Google_ErrConflict), a)
             else (Inr (ir_SubjectID r), link_google (ir_ProviderSubject r) (ir_SubjectID r) (ir_Email r) a))
          else if emails a (ir_Email r) \<noteq> None then (Inl (EGoogle Google_ErrLinkRequired), a)
          else
            (case new_user (ir_Email r) True (dr_now dr) dr of Inl e \<Rightarrow> (Inl e, a)
             | Inr u \<Rightarrow> (Inr (ud_ID u),
                        link_google (ir_ProviderSubject r) (ud_ID u) (ir_Email r) (insert_user u a))))"

definition spec_UnlinkIdentity :: "string \<Rightarrow> account_db \<Rightarrow> (err + unit) \<times> account_db" where
  "spec_UnlinkIdentity i a =
     (if users a i = None \<or> \<not> has_google a i then (Inl (EGoogle Google_ErrNotFound), a)
      else if passwords a i = None \<and> passkeys a i = 0 then (Inl (EGoogle Google_ErrLastCredential), a)
      else (Inr (), a\<lparr>googles := (\<lambda>p. case googles a p of None \<Rightarrow> None
                         | Some (j, e) \<Rightarrow> if j = i then None else Some (j, e))\<rparr>))"

section \<open>The contract\<close>

locale account_store =
  fixes ep :: "'s EmailPasswordStore" and cr :: "'s CredentialStore" and vs :: "'s VerificationStore"
    and ps :: "'s ResetStore" and gs :: "'s GoogleStore"
    and view :: "'s \<Rightarrow> account_db" and ok :: "'s \<Rightarrow> bool" and overwrites :: bool and lossy :: bool
  assumes ok_view: "ok s \<Longrightarrow> accounts_ok (view s)"
    and Register: "implements_when view ok (draws_fresh dr) (es_Register ep dr reg) (fun_spec (spec_Register dr reg))"
    and FindByEmail: "implements view ok (es_FindByEmail ep email) (fun_spec (spec_FindByEmail email))"
    and ReplaceHash: "implements view ok (es_ReplacePasswordHash ep i current replacement t)
      (fun_spec (spec_ReplacePasswordHash i current replacement t))"
    and FindBySubject: "implements view ok (cs_FindBySubject cr i) (fun_spec (spec_FindBySubject i))"
    and AddPassword: "implements view ok (cs_AddPassword cr i pwd t) (fun_spec (spec_AddPassword i pwd t))"
    and ReplaceCredential: "implements view ok (cs_ReplacePasswordHash cr i current replacement t)
      (fun_spec (spec_ReplacePasswordHash i current replacement t))"
    and RemovePassword: "implements view ok (cs_RemovePassword cr i current t) (fun_spec (spec_RemovePassword i current))"
    and FindVerified: "implements view ok (vs_FindUserByEmail vs email) (fun_spec (spec_FindVerified email))"
    and IssueVerification: "implements view ok (vs_Issue vs r) (spec_IssueVerification overwrites r)"
    and Verify: "implements view ok (vs_Verify vs h t) (spec_Verify lossy h t)"
    and FindReset: "implements view ok (ps_FindUserByEmail ps email) (fun_spec (spec_FindReset email))"
    and IssueReset: "implements view ok (ps_Issue ps r) (spec_IssueReset overwrites r)"
    and ResetPassword: "implements view ok (ps_ResetPassword ps h newHash t) (spec_ResetPassword lossy h newHash t)"
    and CreateChallenge: "implements view ok (gs_CreateChallenge gs c) (fun_spec (spec_CreateChallenge c))"
    and ConsumeChallenge: "implements view ok (gs_ConsumeChallenge gs h t) (fun_spec (spec_ConsumeChallenge h t))"
    and ResolveIdentity: "implements_when view ok (draws_fresh dr) (gs_ResolveIdentity gs dr res)
      (fun_spec (spec_ResolveIdentity dr res))"
    and UnlinkIdentity: "implements view ok (gs_UnlinkIdentity gs i t) (fun_spec (spec_UnlinkIdentity i))"

end
