(* ===== verification/Gostrings.thy ===== *)
theory Gostrings
  imports Prelude
begin

text \<open>
  The functions of Go's packages \<^verbatim>\<open>strings\<close> and \<^verbatim>\<open>strconv\<close> and of \<^verbatim>\<open>fmt.Sprintf\<close> that the sources use to
  take encoded texts apart and to print them: \<^verbatim>\<open>strings.Split\<close>, \<^verbatim>\<open>strings.Cut\<close>,
  \<^verbatim>\<open>strings.CutPrefix\<close>, \<^verbatim>\<open>strings.HasPrefix\<close>, \<^verbatim>\<open>strconv.ParseUint\<close> in base ten and the verb \<^verbatim>\<open>%d\<close>;
  and \<^verbatim>\<open>utf8.ValidString\<close>. The lemmas say how parsing undoes printing.
\<close>

definition HasPrefix :: "string \<Rightarrow> string \<Rightarrow> bool" where
  "HasPrefix s p \<longleftrightarrow> take (length p) s = p"

definition CutPrefix :: "string \<Rightarrow> string \<Rightarrow> string option" where
  "CutPrefix s p = (if HasPrefix s p then Some (drop (length p) s) else None)"

fun split_on :: "char \<Rightarrow> string \<Rightarrow> string list" where
  "split_on c [] = [[]]"
| "split_on c (x # xs) =
     (if x = c then [] # split_on c xs
      else (case split_on c xs of [] \<Rightarrow> [[x]] | p # ps \<Rightarrow> (x # p) # ps))"

definition Cut :: "string \<Rightarrow> char \<Rightarrow> (string \<times> string) option" where
  "Cut s c = (if c \<in> set s then Some (takeWhile (\<lambda>x. x \<noteq> c) s, tl (dropWhile (\<lambda>x. x \<noteq> c) s)) else None)"

text \<open>The value of a string of decimal digits.\<close>

fun digits_value :: "nat \<Rightarrow> string \<Rightarrow> nat option" where
  "digits_value n [] = Some n"
| "digits_value n (c # cs) =
     (if 48 \<le> (of_char c :: nat) \<and> (of_char c :: nat) \<le> 57
      then digits_value (10 * n + (of_char c - 48)) cs else None)"

text \<open>\<^verbatim>\<open>strconv.ParseUint(s, 10, bits)\<close>: a syntax error and a value out of range are both errors.\<close>

definition ParseUint :: "nat \<Rightarrow> string \<Rightarrow> nat option" where
  "ParseUint bits s =
     (if s = [] then None
      else (case digits_value 0 s of None \<Rightarrow> None | Some n \<Rightarrow> if n < 2 ^ bits then Some n else None))"

text \<open>The verb \<^verbatim>\<open>%d\<close> of a non-negative integer.\<close>

fun decimal :: "nat \<Rightarrow> string" where
  "decimal n = (if n < 10 then [] else decimal (n div 10)) @ [char_of (48 + n mod 10)]"

declare decimal.simps [simp del]

text \<open>
  \<^verbatim>\<open>utf8.ValidString\<close>: every rune is encoded in its shortest form, is no surrogate and at most
  \<^verbatim>\<open>U+10FFFF\<close>.
\<close>

definition utf8_tail :: "nat \<Rightarrow> bool" where
  "utf8_tail b \<longleftrightarrow> 0x80 \<le> b \<and> b \<le> 0xBF"

fun utf8_valid :: "nat list \<Rightarrow> bool" where
  "utf8_valid [] = True"
| "utf8_valid (a # s) =
     (if a < 0x80 then utf8_valid s
      else (case s of
          [] \<Rightarrow> False
        | b # s2 \<Rightarrow>
            if 0xC2 \<le> a \<and> a \<le> 0xDF then utf8_tail b \<and> utf8_valid s2
            else (case s2 of
                [] \<Rightarrow> False
              | c # s3 \<Rightarrow>
                  if 0xE0 \<le> a \<and> a \<le> 0xEF
                  then utf8_tail b \<and> (a = 0xE0 \<longrightarrow> 0xA0 \<le> b) \<and> (a = 0xED \<longrightarrow> b \<le> 0x9F) \<and> utf8_tail c \<and>
                    utf8_valid s3
                  else (case s3 of
                      [] \<Rightarrow> False
                    | e # s4 \<Rightarrow> 0xF0 \<le> a \<and> a \<le> 0xF4 \<and> utf8_tail b \<and> (a = 0xF0 \<longrightarrow> 0x90 \<le> b) \<and>
                        (a = 0xF4 \<longrightarrow> b \<le> 0x8F) \<and> utf8_tail c \<and> utf8_tail e \<and> utf8_valid s4))))"

definition ValidString :: "string \<Rightarrow> bool" where
  "ValidString s = utf8_valid (map of_char s)"

section \<open>Parsing undoes printing\<close>

lemma split_on_plain: "c \<notin> set p \<Longrightarrow> split_on c p = [p]"
  by (induction p) auto

lemma split_on_sep: "c \<notin> set p \<Longrightarrow> split_on c (p @ c # s) = p # split_on c s"
  by (induction p) auto

lemma split_on_parts: "p \<in> set (split_on c s) \<Longrightarrow> c \<notin> set p"
  by (induction s arbitrary: p) (auto split: list.splits if_splits)

lemma split_on_Cons2:
  "split_on c s = p # q # r \<Longrightarrow> \<exists>t. s = p @ c # t \<and> split_on c t = q # r"
proof (induction s arbitrary: p)
  case (Cons x s)
  show ?case
  proof (cases "x = c")
    case False
    with Cons(2) obtain p' where p': "split_on c s = p' # q # r" "p = x # p'"
      by (cases "split_on c s") auto
    from Cons(1) [OF p'(1)] obtain t where "s = p' @ c # t" "split_on c t = q # r" by blast
    then show ?thesis using p'(2) by simp
  qed (use Cons(2) in simp)
qed simp

lemma CutPrefix_append [simp]: "CutPrefix (p @ s) p = Some s"
  by (simp add: CutPrefix_def HasPrefix_def)

lemma HasPrefix_append [simp]: "HasPrefix (p @ s) p"
  by (simp add: HasPrefix_def)

lemma HasPrefix_both:
  "HasPrefix s p \<Longrightarrow> HasPrefix s q \<Longrightarrow> length p \<le> length q \<Longrightarrow> take (length p) q = p"
  by (metis HasPrefix_def min.absorb1 take_take)

lemma Cut_sep: "c \<notin> set p \<Longrightarrow> Cut (p @ c # s) c = Some (p, s)"
  by (induction p) (auto simp: Cut_def)

lemma decimal_not_Nil [simp]: "decimal n \<noteq> []"
  by (subst decimal.simps) simp

lemma digit_chars:
  assumes "(k :: nat) < 10" shows "char_of (48 + k) \<in> set ''0123456789''"
proof -
  have "list_all (\<lambda>k :: nat. char_of (48 + k) \<in> set ''0123456789'') [0..<10]" by code_simp
  then show ?thesis using assms unfolding list_all_iff by force
qed

lemma decimal_set: "set (decimal n) \<subseteq> set ''0123456789''"
proof (induction n rule: decimal.induct)
  case (1 n)
  have "set (decimal n) = (if n < 10 then {} else set (decimal (n div 10))) \<union> {char_of (48 + n mod 10)}"
    by (subst decimal.simps) simp
  moreover have "char_of (48 + n mod 10) \<in> set ''0123456789''" by (rule digit_chars) simp
  moreover have "(if n < 10 then {} else set (decimal (n div 10))) \<subseteq> set ''0123456789''"
    using 1 by (cases "n < 10") (simp_all only: if_True if_False empty_subsetI not_False_eq_True)
  ultimately show ?case by blast
qed

lemma decimal_notin: "c \<notin> set ''0123456789'' \<Longrightarrow> c \<notin> set (decimal n)"
  using decimal_set by blast

lemma digits_value_append:
  "digits_value m (s @ t) = (case digits_value m s of None \<Rightarrow> None | Some k \<Rightarrow> digits_value k t)"
  by (induction m s rule: digits_value.induct) auto

lemma digits_value_decimal: "digits_value 0 (decimal n) = Some n"
proof (induction n rule: decimal.induct)
  case (1 n)
  have d: "(of_char (char_of (48 + n mod 10) :: char) :: nat) = 48 + n mod 10"
    by (subst of_char_of) (simp add: mod_less)
  show ?case
  proof (cases "n < 10")
    case True
    then show ?thesis using d by (subst decimal.simps) simp
  next
    case False
    then show ?thesis using 1 d by (subst decimal.simps) (simp add: digits_value_append)
  qed
qed

lemma ParseUint_decimal: "ParseUint bits (decimal n) = (if n < 2 ^ bits then Some n else None)"
  by (simp add: ParseUint_def digits_value_decimal)

lemma ParseUint_lt: "ParseUint bits s = Some n \<Longrightarrow> n < 2 ^ bits"
  by (auto simp: ParseUint_def split: if_splits option.splits)

lemma length_decimal: "0 < k \<Longrightarrow> n < 10 ^ k \<Longrightarrow> length (decimal n) \<le> k"
proof (induction k arbitrary: n)
  case (Suc k)
  show ?case
  proof (cases "n < 10")
    case False
    then have "0 < k" using Suc(3) by (cases k) auto
    moreover have "n div 10 < 10 ^ k" using Suc(3) by (simp add: div_less_iff_less_mult mult.commute)
    ultimately have "length (decimal (n div 10)) \<le> k" by (rule Suc(1))
    then show ?thesis using False by (subst decimal.simps) simp
  qed (subst decimal.simps, simp)
qed simp

end
