(* ===== verification/Emailaddress.thy ===== *)
theory Emailaddress
  imports Gostrings
begin

text \<open>
  The package \<^verbatim>\<open>emailaddress\<close> (src/emailaddress/emailaddress.go). \<^verbatim>\<open>strings.ToLower\<close> with its Unicode
  case tables and the address grammar of \<^verbatim>\<open>net/mail\<close> are the parameter \<open>mail_library\<close>; the length, the
  surrounding white space and the UTF-8 encoding are checked here.
\<close>

definition maximumLength :: nat where
  "maximumLength = 254"

record mail_library =
  ml_ToLower :: "string \<Rightarrow> string"
  ml_ParseAddress :: "string \<Rightarrow> string option"

definition email_Valid :: "mail_library \<Rightarrow> string \<Rightarrow> bool" where
  "email_Valid lib normalizedEmail =
     (if normalizedEmail = [] \<or> normalizedEmail \<noteq> TrimSpace normalizedEmail \<or>
        length normalizedEmail > maximumLength \<or> \<not> ValidString normalizedEmail then False
      else (case ml_ParseAddress lib normalizedEmail of None \<Rightarrow> False
            | Some address \<Rightarrow> address = normalizedEmail))"

definition email_Normalize :: "mail_library \<Rightarrow> string \<Rightarrow> err + string" where
  "email_Normalize lib rawEmail =
     (let normalizedEmail = ml_ToLower lib (TrimSpace rawEmail)
      in if \<not> email_Valid lib normalizedEmail then Inl (EEmailaddress Emailaddress_ErrInvalid)
         else Inr normalizedEmail)"

lemma email_Valid_D:
  assumes "email_Valid lib e"
  shows "\<not> blank e" and "length e \<le> maximumLength" and "ValidString e" and "ml_ParseAddress lib e = Some e"
proof -
  have "e \<noteq> []" "TrimSpace e = e"
    using assms by (auto simp: email_Valid_def split: if_splits)
  then show "\<not> blank e" by simp
  show "length e \<le> maximumLength" "ValidString e" "ml_ParseAddress lib e = Some e"
    using assms by (auto simp: email_Valid_def split: if_splits option.splits)
qed

lemma email_Normalize_Inr: "email_Normalize lib raw = Inr e \<Longrightarrow> email_Valid lib e"
  by (auto simp: email_Normalize_def Let_def split: if_splits)

end
