(* ===== verification/Password.thy ===== *)
theory Password
  imports Token Gostrings
begin

text \<open>
  The package \<^verbatim>\<open>password\<close> (src/password/password.go): hashing and verification of passwords. An
  Argon2id hash is kept in the PHC string format with its parameters; the parser accepts the
  parameters in any order and bounds every one of them. bcrypt hashes are opaque texts. The
  functions \<^verbatim>\<open>argon2.IDKey\<close> and those of \<^verbatim>\<open>golang.org/x/crypto/bcrypt\<close> are the parameter \<open>lib\<close>;
  \<open>password_documented\<close> is what their documentation says.
\<close>

type_synonym Algorithm = string

definition Argon2id :: Algorithm where "Argon2id = ''argon2id''"
definition Bcrypt :: Algorithm where "Bcrypt = ''bcrypt''"
definition DefaultAlgorithm :: Algorithm where "DefaultAlgorithm = Argon2id"

definition argon2Version :: nat where "argon2Version = 0x13"
definition argon2Memory :: "32 word" where "argon2Memory = 19 * 1024"
definition argon2Iterations :: "32 word" where "argon2Iterations = 2"
definition argon2Parallelism :: "8 word" where "argon2Parallelism = 1"
definition argon2SaltLength :: nat where "argon2SaltLength = 16"
definition argon2KeyLength :: nat where "argon2KeyLength = 32"
definition bcryptCost :: nat where "bcryptCost = 12"
definition BcryptMaximumPasswordLength :: nat where "BcryptMaximumPasswordLength = 72"
definition maximumEncodedLength :: nat where "maximumEncodedLength = 512"
definition maximumArgon2Memory :: nat where "maximumArgon2Memory = 256 * 1024"
definition maximumArgon2Iterations :: nat where "maximumArgon2Iterations = 10"
definition maximumArgon2Parallelism :: nat where "maximumArgon2Parallelism = 16"
definition maximumArgon2SaltLength :: nat where "maximumArgon2SaltLength = 64"
definition maximumArgon2KeyLength :: nat where "maximumArgon2KeyLength = 64"

lemmas argon2_constants =
  argon2Version_def argon2Memory_def argon2Iterations_def argon2Parallelism_def argon2SaltLength_def
  argon2KeyLength_def bcryptCost_def maximumEncodedLength_def maximumArgon2Memory_def
  maximumArgon2Iterations_def maximumArgon2Parallelism_def maximumArgon2SaltLength_def
  maximumArgon2KeyLength_def

record Verification =
  ve_Matches :: bool
  ve_NeedsRehash :: bool

record argon2Parameters =
  ap_memory :: "32 word"
  ap_iterations :: "32 word"
  ap_parallelism :: "8 word"
  ap_salt :: string
  ap_key :: string

text \<open>
  The two libraries. \<^verbatim>\<open>bcrypt.GenerateFromPassword\<close> draws its salt itself: its first argument is the
  reading it makes.
\<close>

record password_library =
  pl_IDKey :: "string \<Rightarrow> string \<Rightarrow> 32 word \<Rightarrow> 32 word \<Rightarrow> 8 word \<Rightarrow> 32 word \<Rightarrow> string"
  pl_GenerateFromPassword :: "nat \<Rightarrow> string \<Rightarrow> nat \<Rightarrow> err + string"
  pl_CompareHashAndPassword :: "string \<Rightarrow> string \<Rightarrow> err option"
  pl_Cost :: "string \<Rightarrow> err + nat"

definition bcrypt_ErrPasswordTooLong :: err where
  "bcrypt_ErrPasswordTooLong = EDriver ''bcrypt: password length exceeds 72 bytes''"

definition bcrypt_ErrMismatched :: err where
  "bcrypt_ErrMismatched = EDriver ''bcrypt: hashedPassword is not the hash of the given password''"

section \<open>The operations\<close>

definition supported :: "Algorithm \<Rightarrow> bool" where
  "supported algorithm \<longleftrightarrow> algorithm = Argon2id \<or> algorithm = Bcrypt"

definition identify :: "string \<Rightarrow> Algorithm" where
  "identify encodedHash =
     (if HasPrefix encodedHash ''$argon2id$'' then Argon2id
      else if HasPrefix encodedHash ''$2a$'' \<or> HasPrefix encodedHash ''$2b$'' \<or>
        HasPrefix encodedHash ''$2y$'' then Bcrypt
      else [])"

text \<open>\<^verbatim>\<open>"$argon2id$v=%d$m=%d,t=%d,p=%d$%s$%s"\<close>\<close>

definition format_argon2 :: "argon2Parameters \<Rightarrow> string" where
  "format_argon2 a =
     ''$argon2id$v='' @ decimal argon2Version @ ''$m='' @ decimal (unat (ap_memory a)) @
     '',t='' @ decimal (unat (ap_iterations a)) @ '',p='' @ decimal (unat (ap_parallelism a)) @
     ''$'' @ b64_encode b64_std (ap_salt a) @ ''$'' @ b64_encode b64_std (ap_key a)"

definition hashArgon2id ::
  "password_library \<Rightarrow> string \<Rightarrow> 'a world_scheme \<Rightarrow> (err + string) \<times> 'a world_scheme" where
  "hashArgon2id lib plainPassword =
     bindM (on_err (EWrap ''generate password salt'') (rand_read argon2SaltLength)) (\<lambda>salt.
     let key = pl_IDKey lib plainPassword salt argon2Iterations argon2Memory argon2Parallelism
           (of_nat argon2KeyLength)
     in retM (Inr (format_argon2
          \<lparr>ap_memory = argon2Memory, ap_iterations = argon2Iterations,
           ap_parallelism = argon2Parallelism, ap_salt = salt, ap_key = key\<rparr>)))"

definition HashWithAlgorithm ::
  "password_library \<Rightarrow> string \<Rightarrow> Algorithm \<Rightarrow> 'a world_scheme \<Rightarrow> (err + string) \<times> 'a world_scheme" where
  "HashWithAlgorithm lib plainPassword algorithm w =
     (if algorithm = Argon2id then hashArgon2id lib plainPassword w
      else if algorithm = Bcrypt then
        ((case pl_GenerateFromPassword lib (pos w) plainPassword bcryptCost of
            Inl e \<Rightarrow>
              if errors_is e bcrypt_ErrPasswordTooLong then Inl (EPassword Password_ErrPasswordTooLong)
              else Inl (EWrap ''hash password with bcrypt'' e)
          | Inr encodedHash \<Rightarrow> Inr encodedHash), w\<lparr>pos := Suc (pos w)\<rparr>)
      else (Inl (EWrap algorithm (EPassword Password_ErrUnsupportedAlgorithm)), w))"

definition Hash ::
  "password_library \<Rightarrow> string \<Rightarrow> 'a world_scheme \<Rightarrow> (err + string) \<times> 'a world_scheme" where
  "Hash lib plainPassword = HashWithAlgorithm lib plainPassword DefaultAlgorithm"

text \<open>The loop of \<^verbatim>\<open>parseArgon2Parameters\<close> over the comma-separated pieces.\<close>

fun parse_parameters :: "string list \<Rightarrow> (string \<times> nat) list \<Rightarrow> (string \<times> nat) list option" where
  "parse_parameters [] parsed = Some parsed"
| "parse_parameters (piece # pieces) parsed =
     (case Cut piece CHR ''='' of None \<Rightarrow> None
      | Some (key, raw) \<Rightarrow>
          if key = [] \<or> raw = [] then None
          else if map_of parsed key \<noteq> None then None
          else (case ParseUint 32 raw of None \<Rightarrow> None
                | Some number \<Rightarrow> parse_parameters pieces ((key, number) # parsed)))"

definition parseArgon2Parameters :: "string \<Rightarrow> err + 32 word \<times> 32 word \<times> 8 word" where
  "parseArgon2Parameters encoded =
     (let pieces = split_on CHR '','' encoded in
      if length pieces \<noteq> 3 then Inl (EPassword Password_ErrInvalidHash)
      else
      (case parse_parameters pieces [] of None \<Rightarrow> Inl (EPassword Password_ErrInvalidHash)
       | Some parsed \<Rightarrow>
      (case (map_of parsed ''m'', map_of parsed ''t'', map_of parsed ''p'') of
         (Some memory, Some iterations, Some parallelism) \<Rightarrow>
           if length parsed \<noteq> 3 then Inl (EPassword Password_ErrInvalidHash)
           else if memory = 0 \<or> memory > maximumArgon2Memory \<or>
             iterations = 0 \<or> iterations > maximumArgon2Iterations \<or>
             parallelism = 0 \<or> parallelism > maximumArgon2Parallelism
           then Inl (EPassword Password_ErrInvalidHash)
           else Inr (of_nat memory, of_nat iterations, of_nat parallelism)
       | _ \<Rightarrow> Inl (EPassword Password_ErrInvalidHash))))"

definition parseArgon2id :: "string \<Rightarrow> err + argon2Parameters" where
  "parseArgon2id encodedHash =
     (if length encodedHash = 0 \<or> length encodedHash > maximumEncodedLength
      then Inl (EPassword Password_ErrInvalidHash)
      else
      (case split_on CHR ''$'' encodedHash of
         [a, b, encodedVersion, encodedParameters, encodedSalt, encodedKey] \<Rightarrow>
           if a \<noteq> [] \<or> b \<noteq> Argon2id then Inl (EPassword Password_ErrInvalidHash)
           else
           (case CutPrefix encodedVersion ''v='' of None \<Rightarrow> Inl (EPassword Password_ErrInvalidHash)
            | Some digits \<Rightarrow>
           if ParseUint 32 digits \<noteq> Some argon2Version then Inl (EPassword Password_ErrInvalidHash)
           else
           (case parseArgon2Parameters encodedParameters of Inl e \<Rightarrow> Inl e
            | Inr (memory, iterations, parallelism) \<Rightarrow>
           (case b64_decode b64_std True encodedSalt of None \<Rightarrow> Inl (EPassword Password_ErrInvalidHash)
            | Some salt \<Rightarrow>
           if length salt = 0 \<or> length salt > maximumArgon2SaltLength
           then Inl (EPassword Password_ErrInvalidHash)
           else
           (case b64_decode b64_std True encodedKey of None \<Rightarrow> Inl (EPassword Password_ErrInvalidHash)
            | Some key \<Rightarrow>
           if length key = 0 \<or> length key > maximumArgon2KeyLength
           then Inl (EPassword Password_ErrInvalidHash)
           else Inr \<lparr>ap_memory = memory, ap_iterations = iterations, ap_parallelism = parallelism,
                  ap_salt = salt, ap_key = key\<rparr>))))
       | _ \<Rightarrow> Inl (EPassword Password_ErrInvalidHash)))"

definition verifyArgon2id :: "password_library \<Rightarrow> string \<Rightarrow> string \<Rightarrow> err + Verification" where
  "verifyArgon2id lib plainPassword encodedHash =
     (case parseArgon2id encodedHash of Inl e \<Rightarrow> Inl e
      | Inr parsed \<Rightarrow>
          let candidate = pl_IDKey lib plainPassword (ap_salt parsed) (ap_iterations parsed)
                (ap_memory parsed) (ap_parallelism parsed) (of_nat (length (ap_key parsed)));
              matches = (candidate = ap_key parsed)
          in Inr \<lparr>ve_Matches = matches,
                  ve_NeedsRehash = matches \<and> (ap_memory parsed \<noteq> argon2Memory \<or>
                    ap_iterations parsed \<noteq> argon2Iterations \<or>
                    ap_parallelism parsed \<noteq> argon2Parallelism \<or>
                    length (ap_salt parsed) \<noteq> argon2SaltLength \<or>
                    length (ap_key parsed) \<noteq> argon2KeyLength)\<rparr>)"

definition verifyBcrypt ::
  "password_library \<Rightarrow> string \<Rightarrow> string \<Rightarrow> Algorithm \<Rightarrow> err + Verification" where
  "verifyBcrypt lib plainPassword encodedHash preferredAlgorithm =
     (case pl_CompareHashAndPassword lib encodedHash plainPassword of
        Some e \<Rightarrow>
          if errors_is e bcrypt_ErrMismatched then Inr \<lparr>ve_Matches = False, ve_NeedsRehash = False\<rparr>
          else Inl (EPassword Password_ErrInvalidHash)
      | None \<Rightarrow>
          (case pl_Cost lib encodedHash of Inl _ \<Rightarrow> Inl (EPassword Password_ErrInvalidHash)
           | Inr cost \<Rightarrow>
               Inr \<lparr>ve_Matches = True,
                    ve_NeedsRehash = (preferredAlgorithm \<noteq> Bcrypt \<or> cost \<noteq> bcryptCost)\<rparr>))"

definition VerifyWithAlgorithm ::
  "password_library \<Rightarrow> string \<Rightarrow> string \<Rightarrow> Algorithm \<Rightarrow> err + Verification" where
  "VerifyWithAlgorithm lib plainPassword encodedHash preferredAlgorithm =
     (if \<not> supported preferredAlgorithm
      then Inl (EWrap preferredAlgorithm (EPassword Password_ErrUnsupportedAlgorithm))
      else if identify encodedHash = Argon2id then
        (case verifyArgon2id lib plainPassword encodedHash of Inl e \<Rightarrow> Inl e
         | Inr verification \<Rightarrow>
             Inr (if preferredAlgorithm = Bcrypt then verification\<lparr>ve_NeedsRehash := False\<rparr>
                  else verification))
      else if identify encodedHash = Bcrypt then
        verifyBcrypt lib plainPassword encodedHash preferredAlgorithm
      else Inl (EPassword Password_ErrInvalidHash))"

definition Verify :: "password_library \<Rightarrow> string \<Rightarrow> string \<Rightarrow> err + Verification" where
  "Verify lib plainPassword encodedHash = VerifyWithAlgorithm lib plainPassword encodedHash DefaultAlgorithm"


definition argon2_in_bounds :: "argon2Parameters \<Rightarrow> bool" where
  "argon2_in_bounds a \<longleftrightarrow>
     0 < ap_memory a \<and> unat (ap_memory a) \<le> maximumArgon2Memory \<and>
     0 < ap_iterations a \<and> unat (ap_iterations a) \<le> maximumArgon2Iterations \<and>
     0 < ap_parallelism a \<and> unat (ap_parallelism a) \<le> maximumArgon2Parallelism \<and>
     0 < length (ap_salt a) \<and> length (ap_salt a) \<le> maximumArgon2SaltLength \<and>
     0 < length (ap_key a) \<and> length (ap_key a) \<le> maximumArgon2KeyLength"

section \<open>The string format\<close>

lemma b64_std_other:
  assumes "c \<notin> set b64_std" shows "c \<notin> set (b64_encode b64_std s)"
  using assms set_b64_encode [OF b64_std_alphabet, of s] by blast

lemma separators_not_digits:
  "CHR ''$'' \<notin> set (decimal n)" "CHR '','' \<notin> set (decimal n)" "CHR ''='' \<notin> set (decimal n)"
  by (rule decimal_notin; simp)+

lemma dollar_not_b64: "CHR ''$'' \<notin> set (b64_encode b64_std s)"
  by (rule b64_std_other) (simp add: b64_std_def)

lemma parse_printed_parameters:
  assumes "0 < m" "m \<le> maximumArgon2Memory" "0 < t" "t \<le> maximumArgon2Iterations"
    "0 < p" "p \<le> maximumArgon2Parallelism"
  shows "parseArgon2Parameters (''m='' @ decimal m @ '',t='' @ decimal t @ '',p='' @ decimal p) =
    Inr (of_nat m, of_nat t, of_nat p)"
proof -
  have split: "split_on CHR '','' (''m='' @ decimal m @ '',t='' @ decimal t @ '',p='' @ decimal p) =
      [''m='' @ decimal m, ''t='' @ decimal t, ''p='' @ decimal p]"
    using split_on_sep [of "CHR '',''" "''m='' @ decimal m" "''t='' @ decimal t @ '',p='' @ decimal p"]
      split_on_sep [of "CHR '',''" "''t='' @ decimal t" "''p='' @ decimal p"]
      split_on_plain [of "CHR '',''" "''p='' @ decimal p"]
    by (simp add: separators_not_digits)
  have cut: "Cut (x # CHR ''='' # decimal n) CHR ''='' = Some ([x], decimal n)" if "x \<noteq> CHR ''=''" for x n
    using Cut_sep [of "CHR ''=''" "[x]" "decimal n"] that by simp
  have lt: "m < 2 ^ 32" "t < 2 ^ 32" "p < 2 ^ 32" using assms by (simp_all add: argon2_constants)
  have "parse_parameters [''m='' @ decimal m, ''t='' @ decimal t, ''p='' @ decimal p] [] =
      Some [(''p'', p), (''t'', t), (''m'', m)]"
    using lt by (simp add: cut ParseUint_decimal)
  then show ?thesis
    using assms unfolding parseArgon2Parameters_def split by simp
qed

lemma format_argon2_length:
  assumes "argon2_in_bounds a"
  shows "length (format_argon2 a) \<le> maximumEncodedLength"
proof -
  have "length (decimal (unat (ap_memory a))) \<le> 10" "length (decimal (unat (ap_iterations a))) \<le> 10"
    "length (decimal (unat (ap_parallelism a))) \<le> 10" "length (decimal argon2Version) \<le> 10"
    using assms by (simp_all add: length_decimal argon2_in_bounds_def argon2_constants)
  moreover have "length (b64_encode b64_std (ap_salt a)) \<le> 86" "length (b64_encode b64_std (ap_key a)) \<le> 86"
    using assms unfolding length_b64_encode argon2_in_bounds_def argon2_constants by linarith+
  ultimately show ?thesis by (simp add: format_argon2_def maximumEncodedLength_def)
qed

lemma format_argon2_split:
  "split_on CHR ''$'' (format_argon2 a) =
     [[], Argon2id, ''v='' @ decimal argon2Version,
      ''m='' @ decimal (unat (ap_memory a)) @ '',t='' @ decimal (unat (ap_iterations a)) @
        '',p='' @ decimal (unat (ap_parallelism a)),
      b64_encode b64_std (ap_salt a), b64_encode b64_std (ap_key a)]"
proof -
  let ?v = "''v='' @ decimal argon2Version"
    and ?m = "''m='' @ decimal (unat (ap_memory a)) @ '',t='' @ decimal (unat (ap_iterations a)) @
        '',p='' @ decimal (unat (ap_parallelism a))"
    and ?s = "b64_encode b64_std (ap_salt a)" and ?k = "b64_encode b64_std (ap_key a)"
  have "format_argon2 a = [] @ CHR ''$'' # Argon2id @ CHR ''$'' # ?v @ CHR ''$'' # ?m @ CHR ''$'' # ?s @ CHR ''$'' # ?k"
    by (simp add: format_argon2_def Argon2id_def)
  moreover have "CHR ''$'' \<notin> set Argon2id" "CHR ''$'' \<notin> set ?v" "CHR ''$'' \<notin> set ?m"
    by (simp_all add: Argon2id_def separators_not_digits)
  ultimately show ?thesis
    by (simp only: split_on_sep dollar_not_b64 split_on_plain not_False_eq_True empty_iff list.set(1))
qed

lemma parse_format:
  assumes a: "argon2_in_bounds a"
  shows "parseArgon2id (format_argon2 a) = Inr a"
proof -
  have p: "parseArgon2Parameters (''m='' @ decimal (unat (ap_memory a)) @ '',t='' @
      decimal (unat (ap_iterations a)) @ '',p='' @ decimal (unat (ap_parallelism a))) =
      Inr (ap_memory a, ap_iterations a, ap_parallelism a)"
    by (subst parse_printed_parameters)
      (use a in \<open>simp_all add: argon2_in_bounds_def unat_gt_0 word_gt_0\<close>)
  have "format_argon2 a \<noteq> []" by (simp add: format_argon2_def)
  moreover have "ParseUint 32 (decimal argon2Version) = Some argon2Version"
    by (simp add: ParseUint_decimal argon2Version_def)
  moreover have "CutPrefix (CHR ''v'' # CHR ''='' # decimal argon2Version) ''v='' = Some (decimal argon2Version)"
    using CutPrefix_append [of "''v=''" "decimal argon2Version"] by simp
  moreover have "\<not> maximumEncodedLength < length (format_argon2 a)" using format_argon2_length [OF a] by simp
  ultimately show ?thesis
    unfolding parseArgon2id_def format_argon2_split using a p
    by (simp add: b64_decode_encode argon2_in_bounds_def)
qed

lemma identify_format: "identify (format_argon2 a) = Argon2id"
  by (simp add: identify_def format_argon2_def HasPrefix_def)

lemma parseArgon2Parameters_InrD:
  assumes "parseArgon2Parameters s = Inr (m, t, p)"
  shows "0 < m \<and> unat m \<le> maximumArgon2Memory \<and> 0 < t \<and> unat t \<le> maximumArgon2Iterations \<and>
    0 < p \<and> unat p \<le> maximumArgon2Parallelism"
proof -
  obtain a b c where "m = of_nat a" "t = of_nat b" "p = of_nat c"
    "0 < a" "a \<le> maximumArgon2Memory" "0 < b" "b \<le> maximumArgon2Iterations" "0 < c" "c \<le> maximumArgon2Parallelism"
    using assms by (auto simp: parseArgon2Parameters_def Let_def split: if_splits option.splits)
  then show ?thesis
    by (simp add: argon2_constants unat_of_nat take_bit_nat_eq_self word_less_nat_alt)
qed

lemma parseArgon2id_InrD:
  assumes "parseArgon2id s = Inr a"
  shows "argon2_in_bounds a" and "length s \<le> maximumEncodedLength" and "identify s = Argon2id"
proof -
  obtain v ps es ek where 1: "split_on CHR ''$'' s = [[], Argon2id, v, ps, es, ek]"
    and 2: "parseArgon2Parameters ps = Inr (ap_memory a, ap_iterations a, ap_parallelism a)"
    and 3: "0 < length (ap_salt a)" "length (ap_salt a) \<le> maximumArgon2SaltLength"
      "0 < length (ap_key a)" "length (ap_key a) \<le> maximumArgon2KeyLength"
    and 4: "length s \<le> maximumEncodedLength"
    using assms by (auto simp: parseArgon2id_def split: if_splits list.splits option.splits sum.splits prod.splits)
  show "length s \<le> maximumEncodedLength" by (rule 4)
  show "argon2_in_bounds a" using parseArgon2Parameters_InrD [OF 2] 3 by (simp add: argon2_in_bounds_def)
  obtain t where t: "s = [] @ CHR ''$'' # t" "split_on CHR ''$'' t = [Argon2id, v, ps, es, ek]"
    using split_on_Cons2 [OF 1] by blast
  obtain u where "t = Argon2id @ CHR ''$'' # u" using split_on_Cons2 [OF t(2)] by blast
  then show "identify s = Argon2id"
    using t(1) by (simp add: identify_def HasPrefix_def Argon2id_def)
qed

lemma parseArgon2id_Inl: "parseArgon2id s = Inl e \<Longrightarrow> e = EPassword Password_ErrInvalidHash"
  by (auto simp: parseArgon2id_def parseArgon2Parameters_def Let_def
      split: if_splits list.splits option.splits sum.splits prod.splits)

section \<open>Properties\<close>

text \<open>C34: Every Argon2id hash in the bounds of the parser is parsed back from its printed form: printing and
  parsing are inverse, no parameter is lost or truncated.\<close>

theorem argon2_format_roundtrip:
  assumes "argon2_in_bounds a"
  shows "parseArgon2id (format_argon2 a) = Inr a \<and> identify (format_argon2 a) = Argon2id"
  using parse_format [OF assms] identify_format by blast

theorem argon2_format_roundtrip_witness:
  "parseArgon2id (format_argon2 \<lparr>ap_memory = 19456, ap_iterations = 2, ap_parallelism = 1,
      ap_salt = ''0123456789abcdef'', ap_key = ''0123456789abcdef0123456789abcdef''\<rparr>) =
    Inr \<lparr>ap_memory = 19456, ap_iterations = 2, ap_parallelism = 1,
      ap_salt = ''0123456789abcdef'', ap_key = ''0123456789abcdef0123456789abcdef''\<rparr>"
  by (rule argon2_format_roundtrip [THEN conjunct1]) (simp add: argon2_in_bounds_def argon2_constants)

text \<open>C35: Verification never works beyond the bounds. Whatever text is presented as an Argon2id hash, if the
  parser accepts it then memory, iterations and parallelism are positive and at most 256 MiB, 10 and 16, salt
  and key have 1 to 64 bytes and the text has at most 512 bytes; every other text is \<^verbatim>\<open>ErrInvalidHash\<close>,
  and \<^verbatim>\<open>argon2.IDKey\<close> is not called.\<close>

theorem argon2_work_bounded:
  "(\<exists>a. parseArgon2id s = Inr a \<and> unat (ap_memory a) \<in> {1..256 * 1024} \<and> unat (ap_iterations a) \<in> {1..10} \<and>
      unat (ap_parallelism a) \<in> {1..16} \<and> length (ap_salt a) \<in> {1..64} \<and> length (ap_key a) \<in> {1..64} \<and>
      length s \<le> 512) \<or>
   parseArgon2id s = Inl (EPassword Password_ErrInvalidHash) \<and>
     (\<forall>lib p. verifyArgon2id lib p s = Inl (EPassword Password_ErrInvalidHash))"
proof (cases "parseArgon2id s")
  case (Inl e)
  then have "e = EPassword Password_ErrInvalidHash" by (rule parseArgon2id_Inl)
  then show ?thesis using Inl by (simp add: verifyArgon2id_def)
next
  case (Inr a)
  then show ?thesis
    using parseArgon2id_InrD [OF Inr]
    by (intro disjI1 exI [of _ a])
      (simp add: argon2_in_bounds_def argon2_constants word_less_nat_alt Suc_le_eq)
qed

definition sample_password_lib :: password_library where
  "sample_password_lib =
     \<lparr>pl_IDKey = (\<lambda>p s t m n k. replicate (unat k) (hd p)),
      pl_GenerateFromPassword = (\<lambda>i p c. Inl bcrypt_ErrPasswordTooLong),
      pl_CompareHashAndPassword = (\<lambda>h p. Some bcrypt_ErrMismatched),
      pl_Cost = (\<lambda>h. Inr 12)\<rparr>"







text \<open>C36: When a rehash is asked for. Only a password that matched is rehashed; a matching credential that
  needs no rehash under the default preference is an Argon2id hash with exactly the current parameters; and
  under the bcrypt preference an Argon2id hash is never downgraded, while a bcrypt hash is kept exactly if
  it has the current cost.\<close>

theorem rehash_policy:
  assumes "VerifyWithAlgorithm lib plainPassword h preferred = Inr v"
  shows "(ve_NeedsRehash v \<longrightarrow> ve_Matches v) \<and>
    (preferred = Bcrypt \<and> identify h = Argon2id \<longrightarrow> \<not> ve_NeedsRehash v) \<and>
    (preferred = Bcrypt \<and> identify h = Bcrypt \<and> ve_Matches v \<longrightarrow>
       (ve_NeedsRehash v = (pl_Cost lib h \<noteq> Inr bcryptCost))) \<and>
    (preferred = Argon2id \<and> ve_Matches v \<and> \<not> ve_NeedsRehash v \<longrightarrow>
       (\<exists>a. parseArgon2id h = Inr a \<and> ap_memory a = argon2Memory \<and> ap_iterations a = argon2Iterations \<and>
          ap_parallelism a = argon2Parallelism \<and> length (ap_salt a) = argon2SaltLength \<and>
          length (ap_key a) = argon2KeyLength))"
proof (cases "identify h = Argon2id")
  case True
  then obtain a where a: "parseArgon2id h = Inr a"
    using assms by (auto simp: VerifyWithAlgorithm_def verifyArgon2id_def split: if_splits sum.splits)
  have ne: "Argon2id \<noteq> Bcrypt" by (simp add: Argon2id_def Bcrypt_def)
  show ?thesis
    using assms True a ne
    by (auto simp: VerifyWithAlgorithm_def verifyArgon2id_def Let_def split: if_splits)
next
  case False
  have ne: "Argon2id \<noteq> Bcrypt" by (simp add: Argon2id_def Bcrypt_def)
  show ?thesis
    using assms False ne
    by (auto simp: VerifyWithAlgorithm_def verifyBcrypt_def split: if_splits option.splits sum.splits)
qed

definition sample_old :: argon2Parameters where
  "sample_old = \<lparr>ap_memory = 4096, ap_iterations = 1, ap_parallelism = 1,
     ap_salt = ''salt'', ap_key = ''s''\<rparr>"

theorem rehash_policy_witness:
  "\<exists>v. VerifyWithAlgorithm sample_password_lib ''secret'' (format_argon2 sample_old) Bcrypt = Inr v \<and>
     ve_Matches v \<and> \<not> ve_NeedsRehash v"
proof -
  have "argon2_in_bounds sample_old" by (simp add: sample_old_def argon2_in_bounds_def argon2_constants)
  note p = parse_format [OF this]
  have m: "pl_IDKey sample_password_lib ''secret'' (ap_salt sample_old) (ap_iterations sample_old)
      (ap_memory sample_old) (ap_parallelism sample_old) (of_nat (length (ap_key sample_old))) = ap_key sample_old"
    by (simp add: sample_old_def sample_password_lib_def)
  have "\<exists>r. verifyArgon2id sample_password_lib ''secret'' (format_argon2 sample_old) =
      Inr \<lparr>ve_Matches = True, ve_NeedsRehash = r\<rparr>"
    unfolding verifyArgon2id_def p sum.case Let_def m by simp
  then obtain v where v: "VerifyWithAlgorithm sample_password_lib ''secret'' (format_argon2 sample_old) Bcrypt = Inr v"
    "ve_Matches v"
    by (auto simp: VerifyWithAlgorithm_def supported_def identify_format)
  have "\<not> ve_NeedsRehash v"
    using rehash_policy [OF v(1), THEN conjunct2, THEN conjunct1] identify_format [of sample_old] by simp
  with v show ?thesis by (intro exI [of _ v]) simp
qed

text \<open>Verification fails in two ways only: for an unknown preference with \<^verbatim>\<open>ErrUnsupportedAlgorithm\<close>, and
  otherwise, whatever the stored text is and whatever the libraries answer, with \<^verbatim>\<open>ErrInvalidHash\<close>. Hashing
  with bcrypt reports its length limit as \<^verbatim>\<open>ErrPasswordTooLong\<close>.\<close>

theorem password_errors:
  "(supported preferred \<longrightarrow>
     (\<forall>e. VerifyWithAlgorithm lib plainPassword h preferred = Inl e \<longrightarrow> e = EPassword Password_ErrInvalidHash)) \<and>
   (\<not> supported preferred \<longrightarrow>
     VerifyWithAlgorithm lib plainPassword h preferred = Inl (EWrap preferred (EPassword Password_ErrUnsupportedAlgorithm)) \<and>
     fst (HashWithAlgorithm lib plainPassword preferred w) = Inl (EWrap preferred (EPassword Password_ErrUnsupportedAlgorithm))) \<and>
   (pl_GenerateFromPassword lib (pos w) plainPassword bcryptCost = Inl bcrypt_ErrPasswordTooLong \<longrightarrow>
     fst (HashWithAlgorithm lib plainPassword Bcrypt w) = Inl (EPassword Password_ErrPasswordTooLong))"
proof -
  have "e = EPassword Password_ErrInvalidHash" if "verifyArgon2id lib plainPassword h = Inl e" for e
    using that parseArgon2id_Inl by (auto simp: verifyArgon2id_def Let_def split: sum.splits)
  then show ?thesis
    by (auto simp: VerifyWithAlgorithm_def HashWithAlgorithm_def verifyBcrypt_def supported_def
        bcrypt_ErrPasswordTooLong_def Argon2id_def Bcrypt_def
        split: if_splits option.splits sum.splits)
qed

theorem password_errors_witness:
  "VerifyWithAlgorithm sample_password_lib ''secret'' ''hash'' ''md5'' =
     Inl (EWrap ''md5'' (EPassword Password_ErrUnsupportedAlgorithm)) \<and>
   fst (HashWithAlgorithm sample_password_lib ''secret'' Bcrypt sample_world) =
     Inl (EPassword Password_ErrPasswordTooLong)"
proof
  have "\<not> supported ''md5''" by (simp add: supported_def Argon2id_def Bcrypt_def)
  then show "VerifyWithAlgorithm sample_password_lib ''secret'' ''hash'' ''md5'' =
     Inl (EWrap ''md5'' (EPassword Password_ErrUnsupportedAlgorithm))"
    using password_errors [of "''md5''" sample_password_lib "''secret''" "''hash''" sample_world] by blast
  have "pl_GenerateFromPassword sample_password_lib (pos sample_world) ''secret'' bcryptCost =
      Inl bcrypt_ErrPasswordTooLong" by (simp add: sample_password_lib_def)
  then show "fst (HashWithAlgorithm sample_password_lib ''secret'' Bcrypt sample_world) =
     Inl (EPassword Password_ErrPasswordTooLong)"
    using password_errors [of "''md5''" sample_password_lib "''secret''" "''hash''" sample_world] by blast
qed

end
