(* ===== verification/AccountWorld.thy ===== *)
theory AccountWorld
  imports AccountStore Emailaddress Password
begin

text \<open>
  What the account managers act on: the outside world, the store, the security events recorded so far and
  the messages handed to the sender so far. The application's own parts are arguments: an attempt guard and
  a sender answer by the number of the reading they make, a password hasher reads the world.
\<close>

record SecurityEvent =
  ev_Type :: string
  ev_SubjectID :: string
  ev_SourceKey :: string
  ev_OccurredAt :: time

record Attempt =
  tr_Operation :: string
  tr_Email :: string
  tr_SubjectID :: string
  tr_SourceKey :: string

record Message =
  ms_UserID :: string
  ms_Email :: string
  ms_Token :: string
  ms_Code :: string
  ms_ExpiresAt :: time

record 's account_world = world +
  aw_store :: 's
  aw_events :: "SecurityEvent list"
  aw_mail :: "Message list"

type_synonym AttemptGuard = "Attempt \<Rightarrow> nat \<Rightarrow> err option"
type_synonym Sender = "Message \<Rightarrow> nat \<Rightarrow> err option"

record 's Passwords =
  pw_Hash :: "string \<Rightarrow> 's account_world \<Rightarrow> (err + string) \<times> 's account_world"
  pw_Verify :: "string \<Rightarrow> string \<Rightarrow> err + Verification"

definition defaultPasswords :: "password_library \<Rightarrow> 's Passwords" where
  "defaultPasswords lib = \<lparr>pw_Hash = Hash lib, pw_Verify = Verify lib\<rparr>"

definition on_accounts ::
  "('s \<Rightarrow> (err + 'r) \<times> 's) \<Rightarrow> 's account_world \<Rightarrow> (err + 'r) \<times> 's account_world" where
  "on_accounts f w = (fst (f (aw_store w)), w\<lparr>aw_store := snd (f (aw_store w))\<rparr>)"

text \<open>A call that may create a user, with what it draws.\<close>

definition handle_bytes :: nat where
  "handle_bytes = 64"

definition draw :: "'a world_scheme \<Rightarrow> draws \<times> 'a world_scheme" where
  "draw w =
     (case uuid_NewV7 w of (u, w1) \<Rightarrow>
      case rand_read handle_bytes w1 of (h, w2) \<Rightarrow>
      case now w2 of (t, w3) \<Rightarrow> (\<lparr>dr_uuid = u, dr_handle = h, dr_now = t\<rparr>, w3))"

definition on_accounts_drawing ::
  "(draws \<Rightarrow> 's \<Rightarrow> (err + 'r) \<times> 's) \<Rightarrow> 's account_world \<Rightarrow> (err + 'r) \<times> 's account_world" where
  "on_accounts_drawing f w = (case draw w of (dr, w1) \<Rightarrow> on_accounts (f dr) w1)"

text \<open>\<^verbatim>\<open>checkAttempt\<close> of the managers; a missing guard admits every attempt.\<close>

definition check_attempt ::
  "string \<Rightarrow> AttemptGuard option \<Rightarrow> Attempt \<Rightarrow> 's account_world \<Rightarrow> (err + unit) \<times> 's account_world" where
  "check_attempt text guard attempt w =
     (case guard of None \<Rightarrow> (Inr (), w)
      | Some check \<Rightarrow>
          ((case check attempt (pos w) of None \<Rightarrow> Inr () | Some e \<Rightarrow> Inl (EWrap text e)),
           w\<lparr>pos := Suc (pos w)\<rparr>))"

text \<open>\<^verbatim>\<open>record\<close> of the managers; without a sink nothing is read or recorded.\<close>

definition record_event ::
  "bool \<Rightarrow> string \<Rightarrow> string \<Rightarrow> string \<Rightarrow> 's account_world \<Rightarrow> 's account_world" where
  "record_event sink eventType subjectID sourceKey w =
     (if \<not> sink then w
      else (case now w of (t, w1) \<Rightarrow>
        w1\<lparr>aw_events := aw_events w1 @ [\<lparr>ev_Type = eventType, ev_SubjectID = subjectID,
             ev_SourceKey = sourceKey, ev_OccurredAt = t\<rparr>]\<rparr>))"

definition send_message ::
  "Sender \<Rightarrow> Message \<Rightarrow> 's account_world \<Rightarrow> (err + unit) \<times> 's account_world" where
  "send_message sender m w =
     ((case sender m (pos w) of None \<Rightarrow> Inr () | Some e \<Rightarrow> Inl e),
      w\<lparr>pos := Suc (pos w), aw_mail := aw_mail w @ [m]\<rparr>)"

text \<open>A result with a security event before it.\<close>

definition ret_event ::
  "bool \<Rightarrow> string \<Rightarrow> string \<Rightarrow> string \<Rightarrow> err + 'r \<Rightarrow> 's account_world \<Rightarrow> (err + 'r) \<times> 's account_world" where
  "ret_event sink eventType subjectID sourceKey x w = (x, record_event sink eventType subjectID sourceKey w)"

text \<open>The readings that the world still holds, and what a call at position \<open>n\<close> would draw.\<close>

definition tape :: "'a world_scheme \<Rightarrow> (nat \<Rightarrow> time) \<times> (nat \<Rightarrow> nat \<Rightarrow> char) \<times> (nat \<Rightarrow> bool) \<times> (nat \<Rightarrow> string option)" where
  "tape w = (clock w, rand_byte w, rand_err w, uuid_v7 w)"

definition draws_at :: "'a world_scheme \<Rightarrow> nat \<Rightarrow> draws" where
  "draws_at w n = fst (draw (w\<lparr>pos := n\<rparr>))"

text \<open>A step that neither touches the store nor the mail, and one that only lets the accounts evolve.\<close>

definition framed :: "('s account_world \<Rightarrow> 'r \<times> 's account_world) \<Rightarrow> bool" where
  "framed m \<longleftrightarrow>
     (\<forall>w. tape (snd (m w)) = tape w \<and> pos w \<le> pos (snd (m w)) \<and>
        aw_store (snd (m w)) = aw_store w \<and> aw_mail (snd (m w)) = aw_mail w)"

text \<open>The application's hasher reads the world and changes nothing.\<close>

definition only_reads :: "'s Passwords \<Rightarrow> bool" where
  "only_reads pw \<longleftrightarrow> (\<forall>p. framed (pw_Hash pw p))"

section \<open>Lemmas\<close>

lemma fst_on_accounts [simp]: "fst (on_accounts f w) = fst (f (aw_store w))"
  by (simp add: on_accounts_def)

lemma aw_store_on_accounts [simp]: "aw_store (snd (on_accounts f w)) = snd (f (aw_store w))"
  by (simp add: on_accounts_def)

lemma draw_simps [simp]:
  "aw_store (snd (draw w)) = aw_store w" "aw_events (snd (draw w)) = aw_events w"
  "aw_mail (snd (draw w)) = aw_mail w"
  "pos w \<le> pos (snd (draw w))"
  by (simp_all add: draw_def split: prod.split) (simp_all add: uuid_NewV7_def rand_read_def now_def)

lemma tape_upd [simp]:
  "tape (w\<lparr>pos := n\<rparr>) = tape w" "tape (w\<lparr>aw_store := s\<rparr>) = tape (w :: 's account_world)"
  "tape (w\<lparr>aw_events := e\<rparr>) = tape w" "tape (w\<lparr>aw_mail := m\<rparr>) = tape w"
  by (simp_all add: tape_def)

lemma draw_tape [simp]: "tape (snd (draw w)) = tape w"
  by (simp add: draw_def uuid_NewV7_def rand_read_def now_def tape_def)

lemma draws_at_tape: "tape w = tape v \<Longrightarrow> draws_at w n = draws_at v n"
  by (simp add: draws_at_def draw_def uuid_NewV7_def rand_read_def now_def tape_def)

lemma fst_draw: "fst (draw w) = draws_at w (pos w)"
  by (simp add: draws_at_def draw_def uuid_NewV7_def rand_read_def now_def)

lemma framed_retM [intro!]: "framed (retM x)"
  by (simp add: framed_def)

lemma framed_read_clock [intro!]: "framed read_clock"
  by (simp add: framed_def)

lemma framed_on_err [intro!]: "framed m \<Longrightarrow> framed (on_err f m)"
  by (simp add: framed_def)

lemma framed_bindM [intro!]:
  assumes "framed m" and "\<And>v. framed (k v)"
  shows "framed (bindM m k)"
  unfolding framed_def
proof
  fix w
  obtain x w1 where m: "m w = (x, w1)" by fastforce
  have 1: "tape w1 = tape w" "pos w \<le> pos w1" "aw_store w1 = aw_store w" "aw_mail w1 = aw_mail w"
    using assms(1) m unfolding framed_def by (metis snd_conv)+
  show "tape (snd (bindM m k w)) = tape w \<and> pos w \<le> pos (snd (bindM m k w)) \<and>
      aw_store (snd (bindM m k w)) = aw_store w \<and> aw_mail (snd (bindM m k w)) = aw_mail w"
  proof (cases x)
    case (Inr v)
    have "tape (snd (k v w1)) = tape w1" "pos w1 \<le> pos (snd (k v w1))" "aw_store (snd (k v w1)) = aw_store w1"
      "aw_mail (snd (k v w1)) = aw_mail w1"
      using assms(2) [of v] by (simp_all add: framed_def)
    then show ?thesis using m Inr 1 by (simp add: bindM_def)
  qed (use m 1 in \<open>simp add: bindM_def\<close>)
qed

lemma framed_check_attempt [intro!]: "framed (check_attempt t g a)"
  by (simp add: framed_def check_attempt_def split: option.split)

lemma framed_ret_event [intro!]: "framed (ret_event s y i k x)"
  by (simp add: framed_def ret_event_def record_event_def now_def)

lemma framed_Hash [intro!]: "only_reads pw \<Longrightarrow> framed (pw_Hash pw p)"
  by (simp add: only_reads_def)

lemma framedD:
  "framed m \<Longrightarrow> m w = (x, w1) \<Longrightarrow> aw_store w1 = aw_store w"
  "framed m \<Longrightarrow> m w = (x, w1) \<Longrightarrow> tape w1 = tape w"
  "framed m \<Longrightarrow> m w = (x, w1) \<Longrightarrow> aw_mail w1 = aw_mail w"
  "framed m \<Longrightarrow> m w = (x, w1) \<Longrightarrow> pos w \<le> pos w1"
  by (metis framed_def prod.sel(2))+

lemma record_event_frame [simp]:
  "aw_store (record_event s y i k w) = aw_store w" "aw_mail (record_event s y i k w) = aw_mail w"
  "tape (record_event s y i k w) = tape w" "pos w \<le> pos (record_event s y i k w)"
  by (simp_all add: record_event_def now_def)

lemma ret_event_simps [simp]:
  "fst (ret_event s y i k x w) = x" "snd (ret_event s y i k x w) = record_event s y i k w"
  by (simp_all add: ret_event_def)

lemma ret_event_eq: "ret_event s y i k x w = (x, record_event s y i k w)"
  by (simp add: ret_event_def)

lemma send_message_frame [simp]:
  "aw_store (snd (send_message f m w)) = aw_store w" "tape (snd (send_message f m w)) = tape w"
  by (simp_all add: send_message_def)

lemma only_reads_default [simp]: "only_reads (defaultPasswords lib)"
  by (auto simp: only_reads_def framed_def defaultPasswords_def Hash_def HashWithAlgorithm_def hashArgon2id_def
      bindM_def on_err_def rand_read_def Let_def split: sum.splits if_splits)

end
