(* ===== verification/Emailpassword.thy ===== *)
theory Emailpassword
  imports AccountWorld
begin

text \<open>
  The package \<^verbatim>\<open>emailpassword\<close> (src/emailpassword/emailpassword.go): registration, sign-in, and adding,
  changing and removing a password. The store, the credential store, the hasher, the validator, the guard
  and the normalizer are what the manager was built with; \<^verbatim>\<open>net/mail\<close> stands behind \<open>email_Valid\<close>.
\<close>

record 's EmailPasswordConfig =
  ec_Passwords :: "'s Passwords option"
  ec_Credentials :: "'s CredentialStore option"
  ec_ValidatePassword :: "(string \<Rightarrow> err option) option"
  ec_AttemptGuard :: "AttemptGuard option"
  ec_SecurityEvents :: bool
  ec_NormalizeEmail :: "(string \<Rightarrow> err + string) option"

record 's EmailPasswordManager =
  em_store :: "'s EmailPasswordStore"
  em_credentials :: "'s CredentialStore option"
  em_passwords :: "'s Passwords"
  em_validatePassword :: "(string \<Rightarrow> err option) option"
  em_attemptGuard :: "AttemptGuard option"
  em_securityEvents :: bool
  em_normalizeEmail :: "string \<Rightarrow> err + string"
  em_dummyHash :: string

record LoginResult =
  lr_User :: EmailUser
  lr_PasswordRehashed :: bool

definition dummyPassword :: string where
  "dummyPassword = ''authlier dummy password for unknown identities''"

text \<open>
  \<open>asserted\<close> is what the type assertion \<^verbatim>\<open>store.(CredentialStore)\<close> yields.
\<close>

definition email_NewManager ::
  "mail_library \<Rightarrow> password_library \<Rightarrow> 's EmailPasswordStore option \<Rightarrow> 's CredentialStore option \<Rightarrow>
     's EmailPasswordConfig \<Rightarrow> 's account_world \<Rightarrow> (err + 's EmailPasswordManager) \<times> 's account_world" where
  "email_NewManager mail lib store asserted config w =
     (case store of
        None \<Rightarrow> (Inl (EWrap ''store is required'' (EEmailpassword Emailpassword_ErrInvalidConfig)), w)
      | Some st \<Rightarrow>
          let passwords = (case ec_Passwords config of None \<Rightarrow> defaultPasswords lib | Some p \<Rightarrow> p);
              normalizeEmail = (case ec_NormalizeEmail config of None \<Rightarrow> email_Normalize mail | Some n \<Rightarrow> n);
              credentials = (case ec_Credentials config of None \<Rightarrow> asserted | Some c \<Rightarrow> Some c)
          in (case pw_Hash passwords dummyPassword w of
                (Inl e, w1) \<Rightarrow> (Inl (EWrap2 (EEmailpassword Emailpassword_ErrInvalidConfig) e), w1)
              | (Inr dummyHash, w1) \<Rightarrow>
                  if blank dummyHash
                  then (Inl (EWrap ''password hasher returned an empty dummy hash''
                         (EEmailpassword Emailpassword_ErrInvalidConfig)), w1)
                  else (Inr \<lparr>em_store = st, em_credentials = credentials, em_passwords = passwords,
                         em_validatePassword = ec_ValidatePassword config,
                         em_attemptGuard = ec_AttemptGuard config,
                         em_securityEvents = ec_SecurityEvents config,
                         em_normalizeEmail = normalizeEmail, em_dummyHash = dummyHash\<rparr>, w1)))"

definition email_validUser :: "EmailUser \<Rightarrow> bool" where
  "email_validUser user \<longleftrightarrow> \<not> blank (eu_ID user) \<and> \<not> blank (eu_Email user)"

definition email_validCredential :: "EmailUser \<Rightarrow> PasswordCredential \<Rightarrow> bool" where
  "email_validCredential user credential \<longleftrightarrow>
     pc_UserID credential = eu_ID user \<and> \<not> blank (pc_PasswordHash credential)"

definition normalizeAndValidateEmail ::
  "mail_library \<Rightarrow> 's EmailPasswordManager \<Rightarrow> string \<Rightarrow> err + string" where
  "normalizeAndValidateEmail mail mgr rawEmail =
     (case em_normalizeEmail mgr rawEmail of
        Inl _ \<Rightarrow> Inl (EEmailpassword Emailpassword_ErrInvalidInput)
      | Inr normalizedEmail \<Rightarrow>
          if \<not> email_Valid mail normalizedEmail then Inl (EEmailpassword Emailpassword_ErrInvalidInput)
          else Inr normalizedEmail)"

definition email_validate :: "'s EmailPasswordManager \<Rightarrow> string \<Rightarrow> err + unit" where
  "email_validate mgr plainPassword =
     (case em_validatePassword mgr of None \<Rightarrow> Inr ()
      | Some validate \<Rightarrow>
          (case validate plainPassword of None \<Rightarrow> Inr ()
           | Some e \<Rightarrow> Inl (EWrap2 (EEmailpassword Emailpassword_ErrInvalidPassword) e)))"

definition email_checkAttempt ::
  "'s EmailPasswordManager \<Rightarrow> Attempt \<Rightarrow> 's account_world \<Rightarrow> (err + unit) \<times> 's account_world" where
  "email_checkAttempt mgr attempt = check_attempt (tr_Operation attempt) (em_attemptGuard mgr) attempt"

definition email_fail ::
  "'s EmailPasswordManager \<Rightarrow> string \<Rightarrow> string \<Rightarrow> string \<Rightarrow> emailpassword_err \<Rightarrow> 's account_world \<Rightarrow>
     (err + 'r) \<times> 's account_world" where
  "email_fail mgr eventType subjectID sourceKey e =
     ret_event (em_securityEvents mgr) eventType subjectID sourceKey (Inl (EEmailpassword e))"

definition credentials_required :: "err" where
  "credentials_required =
     EWrap ''credential store is required'' (EEmailpassword Emailpassword_ErrInvalidConfig)"

section \<open>Operations\<close>

definition email_AddPassword ::
  "'s EmailPasswordManager \<Rightarrow> string \<Rightarrow> string \<Rightarrow> string \<Rightarrow> 's account_world \<Rightarrow>
     (err + EmailUser) \<times> 's account_world" where
  "email_AddPassword mgr rawSubject password sourceKey =
     (case em_credentials mgr of None \<Rightarrow> retM (Inl credentials_required)
      | Some credentials \<Rightarrow>
          let subjectID = TrimSpace rawSubject in
          if subjectID = [] \<or> password = [] then retM (Inl (EEmailpassword Emailpassword_ErrInvalidInput))
          else
          bindM (retM (email_validate mgr password)) (\<lambda>_.
          bindM (email_checkAttempt mgr \<lparr>tr_Operation = ''add_password'', tr_Email = [],
                   tr_SubjectID = subjectID, tr_SourceKey = sourceKey\<rparr>) (\<lambda>_.
          bindM (on_err (EWrap ''hash added password'') (pw_Hash (em_passwords mgr) password)) (\<lambda>encodedHash.
          bindM read_clock (\<lambda>t.
          bindM (on_err (EWrap ''add password'')
                   (on_accounts (cs_AddPassword credentials subjectID encodedHash t))) (\<lambda>user.
          if \<not> email_validUser user \<or> eu_ID user \<noteq> subjectID
          then retM (Inl (EEmailpassword Emailpassword_ErrInvalidRecord))
          else ret_event (em_securityEvents mgr) ''password_added'' subjectID sourceKey (Inr user)))))))"

definition email_Register ::
  "mail_library \<Rightarrow> 's EmailPasswordManager \<Rightarrow> string \<Rightarrow> string \<Rightarrow> string \<Rightarrow> 's account_world \<Rightarrow>
     (err + EmailUser) \<times> 's account_world" where
  "email_Register mail mgr email password sourceKey =
     (case normalizeAndValidateEmail mail mgr email of
        Inl _ \<Rightarrow> retM (Inl (EEmailpassword Emailpassword_ErrInvalidInput))
      | Inr normalizedEmail \<Rightarrow>
          if password = [] then retM (Inl (EEmailpassword Emailpassword_ErrInvalidInput))
          else
          bindM (retM (email_validate mgr password)) (\<lambda>_.
          bindM (email_checkAttempt mgr \<lparr>tr_Operation = ''register'', tr_Email = normalizedEmail,
                   tr_SubjectID = [], tr_SourceKey = sourceKey\<rparr>) (\<lambda>_.
          bindM (on_err (EWrap ''hash registration password'') (pw_Hash (em_passwords mgr) password)) (\<lambda>encodedHash.
          bindM read_clock (\<lambda>t w.
          (case on_accounts_drawing (\<lambda>dr. es_Register (em_store mgr) dr
                  \<lparr>rg_Email = normalizedEmail, rg_PasswordHash = encodedHash, rg_CreatedAt = t\<rparr>) w of
             (Inl e, w1) \<Rightarrow>
               if errors_is e (EEmailpassword Emailpassword_ErrConflict)
               then email_fail mgr ''registration_rejected'' [] sourceKey
                      Emailpassword_ErrRegistrationUnavailable w1
               else (Inl (EWrap ''register email identity'' e), w1)
           | (Inr user, w1) \<Rightarrow>
               if \<not> email_validUser user \<or> eu_Email user \<noteq> normalizedEmail
               then (Inl (EEmailpassword Emailpassword_ErrInvalidRecord), w1)
               else ret_event (em_securityEvents mgr) ''registration_succeeded'' (eu_ID user) sourceKey
                      (Inr user) w1))))))"

text \<open>The lookup and the check of the current password that changing and removing share.\<close>

definition email_currentCredential ::
  "'s EmailPasswordManager \<Rightarrow> 's CredentialStore \<Rightarrow> string \<Rightarrow> string \<Rightarrow> string \<Rightarrow> string \<Rightarrow> 's account_world \<Rightarrow>
     (err + EmailUser \<times> PasswordCredential) \<times> 's account_world" where
  "email_currentCredential mgr credentials failure subjectID currentPassword sourceKey w =
     (case on_accounts (cs_FindBySubject credentials subjectID) w of
        (Inl e, w1) \<Rightarrow>
          if errors_is e (EEmailpassword Emailpassword_ErrNotFound)
          then email_fail mgr failure subjectID sourceKey Emailpassword_ErrInvalidCredentials w1
          else (Inl (EWrap ''find password credential'' e), w1)
      | (Inr (user, credential), w1) \<Rightarrow>
          if \<not> email_validUser user \<or> eu_ID user \<noteq> subjectID \<or> \<not> email_validCredential user credential
          then (Inl (EEmailpassword Emailpassword_ErrInvalidRecord), w1)
          else
          (case pw_Verify (em_passwords mgr) currentPassword (pc_PasswordHash credential) of
             Inl _ \<Rightarrow> email_fail mgr failure subjectID sourceKey Emailpassword_ErrInvalidCredentials w1
           | Inr current \<Rightarrow>
               if \<not> ve_Matches current
               then email_fail mgr failure subjectID sourceKey Emailpassword_ErrInvalidCredentials w1
               else (Inr (user, credential), w1)))"

text \<open>A conflicting or missing credential at the write is reported like a wrong password.\<close>

definition email_write ::
  "'s EmailPasswordManager \<Rightarrow> string \<Rightarrow> string \<Rightarrow> string \<Rightarrow> string \<Rightarrow>
     ('s account_world \<Rightarrow> (err + unit) \<times> 's account_world) \<Rightarrow> 's account_world \<Rightarrow> (err + unit) \<times> 's account_world" where
  "email_write mgr failure subjectID sourceKey text op w =
     (case op w of
        (Inl e, w1) \<Rightarrow>
          if errors_is e (EEmailpassword Emailpassword_ErrConflict) \<or>
             errors_is e (EEmailpassword Emailpassword_ErrNotFound)
          then email_fail mgr failure subjectID sourceKey Emailpassword_ErrInvalidCredentials w1
          else (Inl (EWrap text e), w1)
      | (Inr _, w1) \<Rightarrow> (Inr (), w1))"

text \<open>The replacement must not match the stored hash.\<close>

definition email_differs :: "'s EmailPasswordManager \<Rightarrow> string \<Rightarrow> PasswordCredential \<Rightarrow> err + unit" where
  "email_differs mgr newPassword credential =
     (case pw_Verify (em_passwords mgr) newPassword (pc_PasswordHash credential) of
        Inl e \<Rightarrow> Inl (EWrap ''compare replacement password'' e)
      | Inr unchanged \<Rightarrow>
          if ve_Matches unchanged then Inl (EEmailpassword Emailpassword_ErrPasswordUnchanged) else Inr ())"

definition email_ChangePassword ::
  "'s EmailPasswordManager \<Rightarrow> string \<Rightarrow> string \<Rightarrow> string \<Rightarrow> string \<Rightarrow> 's account_world \<Rightarrow>
     (err + EmailUser) \<times> 's account_world" where
  "email_ChangePassword mgr rawSubject currentPassword newPassword sourceKey =
     (case em_credentials mgr of None \<Rightarrow> retM (Inl credentials_required)
      | Some credentials \<Rightarrow>
          let subjectID = TrimSpace rawSubject in
          if subjectID = [] \<or> currentPassword = [] \<or> newPassword = []
          then retM (Inl (EEmailpassword Emailpassword_ErrInvalidInput))
          else
          bindM (retM (email_validate mgr newPassword)) (\<lambda>_.
          bindM (email_checkAttempt mgr \<lparr>tr_Operation = ''change_password'', tr_Email = [],
                   tr_SubjectID = subjectID, tr_SourceKey = sourceKey\<rparr>) (\<lambda>_.
          bindM (email_currentCredential mgr credentials ''password_change_failed'' subjectID
                   currentPassword sourceKey) (\<lambda>(user, credential).
          bindM (retM (email_differs mgr newPassword credential)) (\<lambda>_.
          bindM (on_err (EWrap ''hash replacement password'') (pw_Hash (em_passwords mgr) newPassword)) (\<lambda>replacementHash.
          bindM read_clock (\<lambda>t.
          bindM (email_write mgr ''password_change_failed'' subjectID sourceKey ''replace password''
                   (on_accounts (cs_ReplacePasswordHash credentials subjectID
                      (pc_PasswordHash credential) replacementHash t))) (\<lambda>_.
          ret_event (em_securityEvents mgr) ''password_changed'' subjectID sourceKey (Inr user)))))))))"

definition email_RemovePassword ::
  "'s EmailPasswordManager \<Rightarrow> string \<Rightarrow> string \<Rightarrow> string \<Rightarrow> 's account_world \<Rightarrow> (err + unit) \<times> 's account_world" where
  "email_RemovePassword mgr rawSubject currentPassword sourceKey =
     (case em_credentials mgr of None \<Rightarrow> retM (Inl credentials_required)
      | Some credentials \<Rightarrow>
          let subjectID = TrimSpace rawSubject in
          if subjectID = [] \<or> currentPassword = []
          then retM (Inl (EEmailpassword Emailpassword_ErrInvalidInput))
          else
          bindM (email_checkAttempt mgr \<lparr>tr_Operation = ''remove_password'', tr_Email = [],
                   tr_SubjectID = subjectID, tr_SourceKey = sourceKey\<rparr>) (\<lambda>_.
          bindM (email_currentCredential mgr credentials ''password_removal_failed'' subjectID
                   currentPassword sourceKey) (\<lambda>(user, credential).
          bindM read_clock (\<lambda>t w.
          (case on_accounts (cs_RemovePassword credentials subjectID (pc_PasswordHash credential) t) w of
             (Inl e, w1) \<Rightarrow>
               if errors_is e (EEmailpassword Emailpassword_ErrLastCredential) then (Inl e, w1)
               else if errors_is e (EEmailpassword Emailpassword_ErrConflict) \<or>
                 errors_is e (EEmailpassword Emailpassword_ErrNotFound)
               then email_fail mgr ''password_removal_failed'' subjectID sourceKey
                      Emailpassword_ErrInvalidCredentials w1
               else (Inl (EWrap ''remove password'' e), w1)
           | (Inr _, w1) \<Rightarrow>
               ret_event (em_securityEvents mgr) ''password_removed'' subjectID sourceKey (Inr ()) w1)))))"

text \<open>\<^verbatim>\<open>Login\<close>: the lookup, which yields the identity if there is one.\<close>

definition email_lookup ::
  "'s EmailPasswordManager \<Rightarrow> err + string \<Rightarrow> 's account_world \<Rightarrow>
     (err + (EmailUser \<times> PasswordCredential) option) \<times> 's account_world" where
  "email_lookup mgr normalized w =
     (case normalized of Inl _ \<Rightarrow> (Inr None, w)
      | Inr normalizedEmail \<Rightarrow>
          (case on_accounts (es_FindByEmail (em_store mgr) normalizedEmail) w of
             (Inl e, w1) \<Rightarrow>
               if errors_is e (EEmailpassword Emailpassword_ErrNotFound) then (Inr None, w1)
               else (Inl (EWrap ''find email identity'' e), w1)
           | (Inr (user, credential), w1) \<Rightarrow>
               if \<not> email_validUser user \<or> eu_Email user \<noteq> normalizedEmail \<or>
                  \<not> email_validCredential user credential
               then (Inl (EEmailpassword Emailpassword_ErrInvalidRecord), w1)
               else (Inr (Some (user, credential)), w1)))"

text \<open>The rehash after a match.\<close>

definition email_rehash ::
  "'s EmailPasswordManager \<Rightarrow> EmailUser \<Rightarrow> PasswordCredential \<Rightarrow> string \<Rightarrow> string \<Rightarrow> 's account_world \<Rightarrow>
     (err + unit) \<times> 's account_world" where
  "email_rehash mgr user credential password sourceKey =
     bindM (on_err (EWrap ''rehash login password'') (pw_Hash (em_passwords mgr) password)) (\<lambda>replacementHash.
     bindM read_clock (\<lambda>t.
     bindM (email_write mgr ''login_failed'' (eu_ID user) sourceKey ''replace password hash''
              (on_accounts (es_ReplacePasswordHash (em_store mgr) (eu_ID user)
                 (pc_PasswordHash credential) replacementHash t))) (\<lambda>_.
     ret_event (em_securityEvents mgr) ''password_rehashed'' (eu_ID user) sourceKey (Inr ()))))"

definition email_Login ::
  "mail_library \<Rightarrow> 's EmailPasswordManager \<Rightarrow> string \<Rightarrow> string \<Rightarrow> string \<Rightarrow> 's account_world \<Rightarrow>
     (err + LoginResult) \<times> 's account_world" where
  "email_Login mail mgr email password sourceKey =
     (let normalized = normalizeAndValidateEmail mail mgr email;
          normalizedEmail = (case normalized of Inl _ \<Rightarrow> [] | Inr n \<Rightarrow> n)
      in
      bindM (email_checkAttempt mgr \<lparr>tr_Operation = ''login'', tr_Email = normalizedEmail,
               tr_SubjectID = [], tr_SourceKey = sourceKey\<rparr>) (\<lambda>_.
      bindM (email_lookup mgr normalized) (\<lambda>identity.
      let encodedHash = (case identity of None \<Rightarrow> em_dummyHash mgr | Some (_, c) \<Rightarrow> pc_PasswordHash c) in
      (case pw_Verify (em_passwords mgr) password encodedHash of
         Inl _ \<Rightarrow>
           (case identity of
              None \<Rightarrow> retM (Inl (EEmailpassword Emailpassword_ErrInvalidCredentials))
            | Some (user, _) \<Rightarrow>
                email_fail mgr ''login_failed'' (eu_ID user) sourceKey Emailpassword_ErrInvalidCredentials)
       | Inr verification \<Rightarrow>
           (case identity of
              None \<Rightarrow> email_fail mgr ''login_failed'' [] sourceKey Emailpassword_ErrInvalidCredentials
            | Some (user, credential) \<Rightarrow>
                if \<not> ve_Matches verification
                then email_fail mgr ''login_failed'' (eu_ID user) sourceKey Emailpassword_ErrInvalidCredentials
                else if ve_NeedsRehash verification then
                  bindM (email_rehash mgr user credential password sourceKey) (\<lambda>_.
                  ret_event (em_securityEvents mgr) ''login_succeeded'' (eu_ID user) sourceKey
                    (Inr \<lparr>lr_User = user, lr_PasswordRehashed = True\<rparr>))
                else
                  ret_event (em_securityEvents mgr) ''login_succeeded'' (eu_ID user) sourceKey
                    (Inr \<lparr>lr_User = user, lr_PasswordRehashed = False\<rparr>))))))"

end
