(* ===== verification/AccountSafety.thy ===== *)
theory AccountSafety
  imports AccountStore
begin

text \<open>
  What every operation of the account contract preserves, stated once over the reference operations: users
  stay, keep their email and never lose a verified address, and no user who could sign in is left without
  a sign-in method (\<open>account_evolves\<close>).
\<close>

definition account_evolves :: "account_db \<Rightarrow> account_db \<Rightarrow> bool" where
  "account_evolves a b \<longleftrightarrow>
     (\<forall>i u. users a i = Some u \<longrightarrow>
        (\<exists>v. users b i = Some v \<and> ud_Email v = ud_Email u \<and> ud_WebAuthnHandle v = ud_WebAuthnHandle u \<and>
           (ud_EmailVerified u \<longrightarrow> ud_EmailVerified v))) \<and>
     (\<forall>i. has_method a i \<longrightarrow> has_method b i) \<and>
     (\<forall>i. users a i = None \<and> users b i \<noteq> None \<longrightarrow> has_method b i)"

text \<open>Every user can sign in.\<close>

definition reachable_users :: "account_db \<Rightarrow> bool" where
  "reachable_users a \<longleftrightarrow> (\<forall>i. users a i \<noteq> None \<longrightarrow> has_method a i)"

lemma account_evolves_refl [simp]: "account_evolves a a"
  by (auto simp: account_evolves_def)

lemma account_evolves_trans:
  assumes "account_evolves a b" and "account_evolves b c"
  shows "account_evolves a c"
proof -
  have "\<exists>v. users c i = Some v \<and> ud_Email v = ud_Email u \<and> ud_WebAuthnHandle v = ud_WebAuthnHandle u \<and>
      (ud_EmailVerified u \<longrightarrow> ud_EmailVerified v)" if u: "users a i = Some u" for i u
  proof -
    from assms(1) u obtain v where v: "users b i = Some v" "ud_Email v = ud_Email u"
      "ud_WebAuthnHandle v = ud_WebAuthnHandle u" "ud_EmailVerified u \<longrightarrow> ud_EmailVerified v"
      unfolding account_evolves_def by blast
    from assms(2) v(1) obtain x where "users c i = Some x" "ud_Email x = ud_Email v"
      "ud_WebAuthnHandle x = ud_WebAuthnHandle v" "ud_EmailVerified v \<longrightarrow> ud_EmailVerified x"
      unfolding account_evolves_def by blast
    with v show ?thesis by auto
  qed
  moreover have "has_method c i" if "users a i = None" "users c i \<noteq> None" for i
  proof (cases "users b i")
    case None
    then show ?thesis using assms(2) that(2) unfolding account_evolves_def by blast
  next
    case (Some v)
    then have "has_method b i" using assms(1) that(1) unfolding account_evolves_def by blast
    then show ?thesis using assms(2) unfolding account_evolves_def by blast
  qed
  ultimately show ?thesis
    using assms unfolding account_evolves_def by blast
qed

lemma account_evolves_reachable:
  assumes "account_evolves a b" and "reachable_users a"
  shows "reachable_users b"
  using assms unfolding account_evolves_def reachable_users_def by (metis not_None_eq)

lemma account_evolves_user:
  assumes "account_evolves a b" and "users a i = Some u"
  obtains v where "users b i = Some v" "ud_Email v = ud_Email u"
    "ud_EmailVerified u \<longrightarrow> ud_EmailVerified v"
  using assms unfolding account_evolves_def by blast

text \<open>Operations that leave users and identities alone.\<close>

lemma has_method_simps [simp]:
  "has_method (a\<lparr>verifications := v\<rparr>) = has_method a" "has_method (a\<lparr>verification_tokens := vt\<rparr>) = has_method a"
  "has_method (a\<lparr>resets := r\<rparr>) = has_method a" "has_method (a\<lparr>reset_tokens := rt\<rparr>) = has_method a"
  "has_method (a\<lparr>challenges := c\<rparr>) = has_method a" "has_method (a\<lparr>users := u\<rparr>) = has_method a"
  "has_method (a\<lparr>emails := e\<rparr>) = has_method a"
  by (simp_all add: fun_eq_iff has_method_def has_google_def)

lemma has_google_simps [simp]:
  "has_google (a\<lparr>users := u\<rparr>) = has_google a" "has_google (a\<lparr>emails := e\<rparr>) = has_google a"
  "has_google (a\<lparr>passwords := p\<rparr>) = has_google a" "has_google (insert_user w a) = has_google a"
  "has_google (set_password i h t a) = has_google a"
  by (simp_all add: fun_eq_iff has_google_def insert_user_def set_password_def)

lemma evolves_set_password: "account_evolves a (set_password i h t a)"
  by (auto simp: account_evolves_def set_password_def has_method_def has_google_def)

lemma evolves_create:
  assumes "accounts_ok a" and "users a (ud_ID u) = None" and "\<And>b. has_method (f b) (ud_ID u)"
    and "\<And>b. users (f b) = users b" and "\<And>b i. has_method b i \<Longrightarrow> has_method (f b) i"
  shows "account_evolves a (f (insert_user u a))"
proof -
  have "has_method (insert_user u a) = has_method a" by (simp add: insert_user_def)
  then show ?thesis
    using assms by (auto simp: account_evolves_def insert_user_def)
qed

lemma draws_fresh_new_user:
  "draws_fresh dr a \<Longrightarrow> new_user e v t dr = Inr u \<Longrightarrow> users a (ud_ID u) = None \<and> ud_Email u = e \<and>
     ud_EmailVerified u = v"
  by (auto simp: draws_fresh_def new_user_def split: sum.splits)

lemma evolves_Register:
  assumes "accounts_ok a" and "draws_fresh dr a" and "spec_Register dr reg a = (x, b)"
  shows "account_evolves a b"
proof (cases "new_user (rg_Email reg) False (rg_CreatedAt reg) dr")
  case (Inr u)
  then have "users a (ud_ID u) = None" using assms(2) draws_fresh_new_user by blast
  from evolves_create [OF assms(1) this, of "set_password (ud_ID u) (rg_PasswordHash reg) (rg_CreatedAt reg)"]
  have "account_evolves a (set_password (ud_ID u) (rg_PasswordHash reg) (rg_CreatedAt reg) (insert_user u a))"
    by (simp add: set_password_def has_method_def has_google_def)
  then show ?thesis using assms(3) Inr by (auto simp: spec_Register_def split: if_splits)
qed (use assms(3) in \<open>auto simp: spec_Register_def\<close>)

lemma evolves_AddPassword: "spec_AddPassword i h t a = (x, b) \<Longrightarrow> account_evolves a b"
  by (auto simp: spec_AddPassword_def evolves_set_password split: option.splits if_splits)

lemma evolves_ReplacePasswordHash: "spec_ReplacePasswordHash i c r t a = (x, b) \<Longrightarrow> account_evolves a b"
  by (auto simp: spec_ReplacePasswordHash_def evolves_set_password split: option.splits if_splits)

lemma evolves_RemovePassword: "spec_RemovePassword i c a = (x, b) \<Longrightarrow> account_evolves a b"
  by (auto simp: spec_RemovePassword_def account_evolves_def has_method_def split: option.splits if_splits)

lemma evolves_IssueVerification: "spec_IssueVerification ow r a x b \<Longrightarrow> account_evolves a b"
  by (auto simp: spec_IssueVerification_def account_evolves_def)

lemma evolves_IssueReset: "spec_IssueReset ow r a x b \<Longrightarrow> account_evolves a b"
  by (auto simp: spec_IssueReset_def account_evolves_def)

lemma evolves_Verify: "spec_Verify lossy h t a x b \<Longrightarrow> account_evolves a b"
  by (auto simp: spec_Verify_def verify_fun_def account_evolves_def split: option.splits if_splits)

lemma evolves_ResetPassword: "spec_ResetPassword lossy h p t a x b \<Longrightarrow> account_evolves a b"
  by (auto simp: spec_ResetPassword_def reset_fun_def account_evolves_def set_password_def has_method_def
      has_google_def split: option.splits if_splits)

lemma evolves_CreateChallenge: "spec_CreateChallenge c a = (x, b) \<Longrightarrow> account_evolves a b"
  by (auto simp: spec_CreateChallenge_def account_evolves_def split: if_splits)

lemma evolves_ConsumeChallenge: "spec_ConsumeChallenge h t a = (x, b) \<Longrightarrow> account_evolves a b"
  by (auto simp: spec_ConsumeChallenge_def account_evolves_def split: option.splits)

lemma has_google_link: "has_google (link_google p i e b) j \<longleftrightarrow>
    j = i \<or> (\<exists>q f. q \<noteq> p \<and> googles b q = Some (j, f))"
  by (auto simp: has_google_def link_google_def)

lemma evolves_link:
  assumes "case googles a p of None \<Rightarrow> True | Some (j, f) \<Rightarrow> j = i"
  shows "account_evolves a (link_google p i e a)"
proof -
  have "has_google (link_google p i e a) j" if "has_google a j" for j
  proof -
    from that obtain q f where q: "googles a q = Some (j, f)" by (auto simp: has_google_def)
    show ?thesis
    proof (cases "q = p")
      case True
      then show ?thesis using q assms by (simp add: has_google_link)
    next
      case False
      then show ?thesis using q by (auto simp: has_google_link)
    qed
  qed
  moreover have "users (link_google p i e a) = users a" "passwords (link_google p i e a) = passwords a"
    "passkeys (link_google p i e a) = passkeys a" by (simp_all add: link_google_def)
  ultimately show ?thesis by (auto simp: account_evolves_def has_method_def)
qed

lemma evolves_ResolveIdentity:
  assumes "accounts_ok a" and "draws_fresh dr a" and "spec_ResolveIdentity dr r a = (x, b)"
  shows "account_evolves a b"
proof (cases "googles a (ir_ProviderSubject r)")
  case (Some g)
  then show ?thesis
    using assms(3) evolves_link [where a = a and p = "ir_ProviderSubject r"]
    by (cases g) (auto simp: spec_ResolveIdentity_def split: if_splits)
next
  case None
  show ?thesis
  proof (cases "ir_SubjectID r \<noteq> []")
    case True
    then show ?thesis
      using None assms(3) evolves_link [where a = a and p = "ir_ProviderSubject r"]
      by (auto simp: spec_ResolveIdentity_def split: if_splits)
  next
    case False
    show ?thesis
    proof (cases "new_user (ir_Email r) True (dr_now dr) dr")
      case (Inr u)
      have new: "users a (ud_ID u) = None" using draws_fresh_new_user [OF assms(2) Inr] by blast
      let ?b = "link_google (ir_ProviderSubject r) (ud_ID u) (ir_Email r) (insert_user u a)"
      have "has_method ?b j" if "has_method a j" for j
        using that None by (auto simp: has_method_def has_google_def link_google_def insert_user_def)
          (metis option.distinct(1))+
      moreover have "has_method ?b (ud_ID u)"
        by (auto simp: has_method_def has_google_def link_google_def)
      ultimately have "account_evolves a ?b"
        using new by (auto simp: account_evolves_def link_google_def insert_user_def)
      then show ?thesis
        using None False Inr assms(3) by (auto simp: spec_ResolveIdentity_def split: if_splits)
    qed (use None False assms(3) in \<open>auto simp: spec_ResolveIdentity_def split: if_splits\<close>)
  qed
qed

lemma has_google_unlink:
  "has_google (a\<lparr>googles := (\<lambda>p. case googles a p of None \<Rightarrow> None
     | Some (k, e) \<Rightarrow> if k = i then None else Some (k, e))\<rparr>) j = (has_google a j \<and> j \<noteq> i)"
proof -
  have "(case googles a p of None \<Rightarrow> None | Some (k, e) \<Rightarrow> if k = i then None else Some (k, e)) = Some (j, f) \<longleftrightarrow>
      googles a p = Some (j, f) \<and> j \<noteq> i" for p f
    by (auto split: option.split)
  then show ?thesis by (simp add: has_google_def)
qed

lemma evolves_UnlinkIdentity:
  assumes "spec_UnlinkIdentity i a = (x, b)" shows "account_evolves a b"
proof (cases "b = a")
  case False
  then have b: "b = a\<lparr>googles := (\<lambda>p. case googles a p of None \<Rightarrow> None
      | Some (j, e) \<Rightarrow> if j = i then None else Some (j, e))\<rparr>"
    and m: "passwords a i \<noteq> None \<or> passkeys a i \<noteq> 0"
    using assms by (auto simp: spec_UnlinkIdentity_def split: if_splits)
  have "has_method b j" if "has_method a j" for j
    using that m unfolding has_method_def b has_google_unlink by auto
  then show ?thesis by (auto simp: account_evolves_def b)
qed simp

end
