(* ===== verification/AccountSteps.thy ===== *)
theory AccountSteps
  imports AccountSafety AccountWorld
begin

text \<open>
  Steps of the account managers, for any store that meets the contract. A call is a sequence of readings of
  the world, store operations and messages; a relation on the accounts that every reference operation
  respects (\<open>account_relation\<close>) therefore holds between the accounts before and after every call
  (\<open>account_safe\<close>). Two relations are of interest: the accounts only evolve, and a one-time token that is
  not stored can only become valid by being mailed.
\<close>

section \<open>Relations that the operations respect\<close>

text \<open>A message makes the token whose hash is \<open>h\<close> known.\<close>

definition announces ::
  "(string \<Rightarrow> hash) \<Rightarrow> (string \<Rightarrow> string \<Rightarrow> hash) \<Rightarrow> string \<Rightarrow> Message \<Rightarrow> hash \<Rightarrow> bool" where
  "announces sha hmac secret m h \<longleftrightarrow>
     HashToken sha (ms_Token m) = Inr h \<or> h = hmac secret (ms_Email m @ CHR 0x00 # ms_Code m)"

definition account_relation ::
  "(string \<Rightarrow> hash) \<Rightarrow> (string \<Rightarrow> string \<Rightarrow> hash) \<Rightarrow> string \<Rightarrow>
     (account_db \<Rightarrow> Message list \<Rightarrow> account_db \<Rightarrow> bool) \<Rightarrow> bool" where
  "account_relation sha hmac secret R \<longleftrightarrow>
     (\<forall>a. R a [] a) \<and> (\<forall>a m b n c. R a m b \<longrightarrow> R b n c \<longrightarrow> R a (m @ n) c) \<and>
     (\<forall>dr reg a x b. accounts_ok a \<and> draws_fresh dr a \<and> spec_Register dr reg a = (x, b) \<longrightarrow> R a [] b) \<and>
     (\<forall>i h t a x b. spec_AddPassword i h t a = (x, b) \<longrightarrow> R a [] b) \<and>
     (\<forall>i c r t a x b. spec_ReplacePasswordHash i c r t a = (x, b) \<longrightarrow> R a [] b) \<and>
     (\<forall>i c a x b. spec_RemovePassword i c a = (x, b) \<longrightarrow> R a [] b) \<and>
     (\<forall>ow r a b m. spec_IssueVerification ow r a (Inr ()) b \<and>
        announces sha hmac secret m (ot_TokenHash r) \<longrightarrow> R a [m] b) \<and>
     (\<forall>ow r a b m. spec_IssueReset ow r a (Inr ()) b \<and> announces sha hmac secret m (ot_TokenHash r) \<longrightarrow> R a [m] b) \<and>
     (\<forall>lossy h t a x b. spec_Verify lossy h t a x b \<longrightarrow> R a [] b) \<and>
     (\<forall>lossy h p t a x b. spec_ResetPassword lossy h p t a x b \<longrightarrow> R a [] b) \<and>
     (\<forall>c a x b. spec_CreateChallenge c a = (x, b) \<longrightarrow> R a [] b) \<and>
     (\<forall>h t a x b. spec_ConsumeChallenge h t a = (x, b) \<longrightarrow> R a [] b) \<and>
     (\<forall>dr r a x b. accounts_ok a \<and> draws_fresh dr a \<and> spec_ResolveIdentity dr r a = (x, b) \<longrightarrow> R a [] b) \<and>
     (\<forall>i a x b. spec_UnlinkIdentity i a = (x, b) \<longrightarrow> R a [] b)"

lemma account_relationD:
  assumes "account_relation sha hmac secret R"
  shows "R a [] a" and "R a m b \<Longrightarrow> R b n c \<Longrightarrow> R a (m @ n) c"
    and "accounts_ok a \<Longrightarrow> draws_fresh dr a \<Longrightarrow> spec_Register dr reg a = (x1, b) \<Longrightarrow> R a [] b"
    and "spec_AddPassword i p t a = (x1, b) \<Longrightarrow> R a [] b"
    and "spec_ReplacePasswordHash i p q t a = (x2, b) \<Longrightarrow> R a [] b"
    and "spec_RemovePassword i p a = (x2, b) \<Longrightarrow> R a [] b"
    and "spec_IssueVerification ow r a (Inr ()) b \<Longrightarrow> announces sha hmac secret msg (ot_TokenHash r) \<Longrightarrow> R a [msg] b"
    and "spec_IssueReset ow r a (Inr ()) b \<Longrightarrow> announces sha hmac secret msg (ot_TokenHash r) \<Longrightarrow> R a [msg] b"
    and "spec_Verify lossy h t a x3 b \<Longrightarrow> R a [] b"
    and "spec_ResetPassword lossy h p t a x1 b \<Longrightarrow> R a [] b"
    and "spec_CreateChallenge ch a = (x2, b) \<Longrightarrow> R a [] b"
    and "spec_ConsumeChallenge h t a = (x4, b) \<Longrightarrow> R a [] b"
    and "accounts_ok a \<Longrightarrow> draws_fresh dr a \<Longrightarrow> spec_ResolveIdentity dr ir a = (x5, b) \<Longrightarrow> R a [] b"
    and "spec_UnlinkIdentity i a = (x2, b) \<Longrightarrow> R a [] b"
  using assms unfolding account_relation_def by (elim conjE, meson)+

lemma account_relation_evolves: "account_relation sha hmac secret (\<lambda>a m b. account_evolves a b)"
  unfolding account_relation_def
  by (intro conjI allI impI; (elim conjE)?)
    (blast intro: account_evolves_trans account_evolves_refl evolves_Register evolves_AddPassword
      evolves_ReplacePasswordHash evolves_RemovePassword evolves_IssueVerification evolves_IssueReset evolves_Verify
      evolves_ResetPassword evolves_CreateChallenge evolves_ConsumeChallenge evolves_ResolveIdentity
      evolves_UnlinkIdentity)+

section \<open>Steps on the accounts\<close>

definition account_safe ::
  "('s \<Rightarrow> account_db) \<Rightarrow> ('s \<Rightarrow> bool) \<Rightarrow> (account_db \<Rightarrow> Message list \<Rightarrow> account_db \<Rightarrow> bool) \<Rightarrow>
     's account_world \<Rightarrow> 's account_world \<Rightarrow> bool" where
  "account_safe view ok R w v \<longleftrightarrow> tape v = tape w \<and>
     (\<exists>new. aw_mail v = aw_mail w @ new \<and>
        (ok (aw_store w) \<longrightarrow> ok (aw_store v) \<and> R (view (aw_store w)) new (view (aw_store v))))"

text \<open>Whatever the next calls draw is new to the accounts.\<close>

definition fresh_tape :: "('s \<Rightarrow> account_db) \<Rightarrow> 's account_world \<Rightarrow> bool" where
  "fresh_tape view w \<longleftrightarrow> (\<forall>n\<ge>pos w. draws_fresh (draws_at w n) (view (aw_store w)))"

lemma account_safe_refl:
  "account_relation sha hmac secret R \<Longrightarrow> account_safe view ok R w w"
  by (simp add: account_safe_def account_relationD(1))

lemma account_safe_trans:
  assumes "account_relation sha hmac secret R"
    and "account_safe view ok R u v" and "account_safe view ok R v w"
  shows "account_safe view ok R u w"
proof -
  obtain m where m: "aw_mail v = aw_mail u @ m"
    "ok (aw_store u) \<longrightarrow> ok (aw_store v) \<and> R (view (aw_store u)) m (view (aw_store v))"
    using assms(2) unfolding account_safe_def by blast
  obtain n where n: "aw_mail w = aw_mail v @ n"
    "ok (aw_store v) \<longrightarrow> ok (aw_store w) \<and> R (view (aw_store v)) n (view (aw_store w))"
    using assms(3) unfolding account_safe_def by blast
  have "aw_mail w = aw_mail u @ (m @ n)" using m(1) n(1) by simp
  moreover have "ok (aw_store u) \<longrightarrow> ok (aw_store w) \<and> R (view (aw_store u)) (m @ n) (view (aw_store w))"
    using m(2) n(2) account_relationD(2) [OF assms(1)] by blast
  moreover have "tape w = tape u" using assms(2,3) by (simp add: account_safe_def)
  ultimately show ?thesis unfolding account_safe_def by blast
qed

lemma account_safe_framed:
  "account_relation sha hmac secret R \<Longrightarrow> framed m \<Longrightarrow> account_safe view ok R w (snd (m w))"
  by (simp add: account_safe_def framed_def account_relationD(1))

lemma account_safe_event [simp]:
  "account_safe view ok R w (record_event s y i k v) = account_safe view ok R w v"
  by (simp add: account_safe_def)

lemma account_safe_bindM:
  assumes "account_relation sha hmac secret R" and "account_safe view ok R w (snd (m w))"
    and "\<And>v w1. m w = (Inr v, w1) \<Longrightarrow> account_safe view ok R w1 (snd (k v w1))"
  shows "account_safe view ok R w (snd (bindM m k w))"
proof -
  obtain x w1 where m: "m w = (x, w1)" by fastforce
  with assms(2,3) show ?thesis by (cases x) (auto intro: account_safe_trans [OF assms(1)])
qed

lemma fresh_tape_framed:
  assumes "framed m" and "fresh_tape view w" and "m w = (x, w1)"
  shows "fresh_tape view w1"
proof -
  note f = framedD [OF assms(1,3)]
  show ?thesis
    unfolding fresh_tape_def
  proof (intro allI impI)
    fix n assume "pos w1 \<le> n"
    then have "draws_fresh (draws_at w n) (view (aw_store w))"
      using assms(2) f(4) by (simp add: fresh_tape_def)
    then show "draws_fresh (draws_at w1 n) (view (aw_store w1))"
      using draws_at_tape [OF f(2), of n] f(1) by simp
  qed
qed

lemma account_safe_bindM_framed:
  assumes "account_relation sha hmac secret R" and "framed m" and "fresh_tape view w"
    and "\<And>v w1. fresh_tape view w1 \<Longrightarrow> account_safe view ok R w1 (snd (k v w1))"
  shows "account_safe view ok R w (snd (bindM m k w))"
  by (rule account_safe_bindM [OF assms(1) account_safe_framed [OF assms(1,2)]])
    (rule assms(4), rule fresh_tape_framed [OF assms(2,3)])

lemma account_safe_on_err [simp]:
  "account_safe view ok R w (snd (on_err f m w)) = account_safe view ok R w (snd (m w))"
  by simp

lemma on_accounts_frame [simp]:
  "aw_mail (snd (on_accounts op w)) = aw_mail w" "tape (snd (on_accounts op w)) = tape w"
  "pos (snd (on_accounts op w)) = pos w"
  by (simp_all add: on_accounts_def)

lemma account_safe_op:
  assumes "account_relation sha hmac secret R"
    and "implements view ok op spec" and "\<And>a x b. spec a x b \<Longrightarrow> R a [] b"
  shows "account_safe view ok R w (snd (on_accounts op w))"
  unfolding account_safe_def
proof (intro conjI exI impI)
  assume o: "ok (aw_store w)"
  show "ok (aw_store (snd (on_accounts op w)))" using implements_inv [OF assms(2) o] by simp
  from assms(2) o show "R (view (aw_store w)) [] (view (aw_store (snd (on_accounts op w))))"
    by (cases rule: implements_cases) (use assms(3) account_relationD(1) [OF assms(1)] in auto)
qed simp_all

lemma account_safe_drawing:
  assumes rel: "account_relation sha hmac secret R"
    and op: "\<And>dr. implements_when view ok (draws_fresh dr) (op dr) (spec dr)"
    and ev: "\<And>dr a x b. accounts_ok a \<Longrightarrow> draws_fresh dr a \<Longrightarrow> spec dr a x b \<Longrightarrow> R a [] b"
    and view: "\<And>s. ok s \<Longrightarrow> accounts_ok (view s)"
    and fresh: "fresh_tape view w"
  shows "account_safe view ok R w (snd (on_accounts_drawing op w))"
proof -
  let ?dr = "draws_at w (pos w)"
  obtain w1 where d: "draw w = (?dr, w1)" by (metis fst_draw prod.collapse)
  have s: "aw_store w1 = aw_store w" "tape w1 = tape w" "aw_mail w1 = aw_mail w"
    using draw_simps [of w] draw_tape [of w] d by simp_all
  have step: "snd (on_accounts_drawing op w) = snd (on_accounts (op ?dr) w1)"
    by (simp add: on_accounts_drawing_def d)
  show ?thesis
    unfolding account_safe_def step
  proof (intro conjI exI impI)
    assume o: "ok (aw_store w)"
    then have f: "draws_fresh ?dr (view (aw_store w))" and a: "accounts_ok (view (aw_store w))"
      using fresh view by (simp_all add: fresh_tape_def)
    show "ok (aw_store (snd (on_accounts (op ?dr) w1)))"
      using implements_when_inv [OF op o f] by (simp add: s)
    from op o f show "R (view (aw_store w)) [] (view (aw_store (snd (on_accounts (op ?dr) w1))))"
      by (cases rule: implements_when_cases) (use ev a f s account_relationD(1) [OF rel] in auto)
  qed (simp_all add: s)
qed

text \<open>The elimination rules of computations that returned.\<close>

lemma bindM_InrE:
  assumes "bindM m k w = (Inr v, w2)"
  obtains a w1 where "m w = (Inr a, w1)" "k a w1 = (Inr v, w2)"
  using assms by (auto simp: bindM_def split: prod.splits sum.splits)

lemma bindM_InlE:
  assumes "bindM m k w = (Inl e, w2)"
  obtains "m w = (Inl e, w2)" | a w1 where "m w = (Inr a, w1)" "k a w1 = (Inl e, w2)"
  using assms by (auto simp: bindM_def split: prod.splits sum.splits)

lemma on_err_InrD: "on_err f m w = (Inr v, w1) \<Longrightarrow> m w = (Inr v, w1)"
  by (auto simp: on_err_def split: prod.splits sum.splits)

lemma on_err_InlE:
  assumes "on_err f m w = (Inl e, w1)"
  obtains d where "m w = (Inl d, w1)" "e = f d"
  using assms by (auto simp: on_err_def split: prod.splits sum.splits)

text \<open>What a store call did, from its result.\<close>

lemma op_Inr:
  assumes "implements view ok op (fun_spec f)" and "ok (aw_store w)" and "on_accounts op w = (Inr v, w1)"
  shows "f (view (aw_store w)) = (Inr v, view (aw_store w1))" and "ok (aw_store w1)" and "tape w1 = tape w"
proof -
  have s: "fst (op (aw_store w)) = Inr v" "snd (op (aw_store w)) = aw_store w1" "tape w1 = tape w"
    using assms(3) by (auto simp: on_accounts_def)
  show "f (view (aw_store w)) = (Inr v, view (aw_store w1))"
    using implements_Inr [OF assms(1,2) s(1)] s(2) by (simp add: fun_spec_def)
  show "ok (aw_store w1)" using implements_inv [OF assms(1,2)] s(2) by simp
qed (use assms(3) in \<open>auto simp: on_accounts_def\<close>)

lemma op_Inl:
  assumes "implements view ok op (fun_spec f)" and "ok (aw_store w)" and "on_accounts op w = (Inl e, w1)"
  shows "is_driver e \<and> view (aw_store w1) = view (aw_store w) \<or>
    f (view (aw_store w)) = (Inl e, view (aw_store w1))" and "ok (aw_store w1)"
proof -
  have s: "fst (op (aw_store w)) = Inl e" "snd (op (aw_store w)) = aw_store w1"
    using assms(3) by (auto simp: on_accounts_def)
  from assms(1,2) show "is_driver e \<and> view (aw_store w1) = view (aw_store w) \<or>
      f (view (aw_store w)) = (Inl e, view (aw_store w1))"
    by (cases rule: implements_cases) (use s in \<open>simp_all add: fun_spec_def\<close>)
  show "ok (aw_store w1)" using implements_inv [OF assms(1,2)] s(2) by simp
qed

text \<open>
  Computations that leave the accounts as they are (\<open>viewed\<close>), and computations that do so when they end
  with an error outside \<open>ex\<close> (\<open>inert\<close>).
\<close>

definition viewed ::
  "('s \<Rightarrow> account_db) \<Rightarrow> ('s \<Rightarrow> bool) \<Rightarrow> ('s account_world \<Rightarrow> 'r \<times> 's account_world) \<Rightarrow> bool" where
  "viewed view ok m \<longleftrightarrow>
     (\<forall>w. ok (aw_store w) \<longrightarrow> ok (aw_store (snd (m w))) \<and> view (aw_store (snd (m w))) = view (aw_store w))"

definition inert ::
  "('s \<Rightarrow> account_db) \<Rightarrow> ('s \<Rightarrow> bool) \<Rightarrow> err set \<Rightarrow> ('s account_world \<Rightarrow> (err + 'r) \<times> 's account_world) \<Rightarrow> bool"
where
  "inert view ok ex m \<longleftrightarrow>
     (\<forall>w e w1. ok (aw_store w) \<and> m w = (Inl e, w1) \<and> e \<notin> ex \<longrightarrow> view (aw_store w1) = view (aw_store w))"

lemma viewed_framed [intro]: "framed m \<Longrightarrow> viewed view ok m"
  by (simp add: viewed_def framed_def)

lemma viewedD:
  "viewed view ok m \<Longrightarrow> m w = (x, w1) \<Longrightarrow> ok (aw_store w) \<Longrightarrow>
     ok (aw_store w1) \<and> view (aw_store w1) = view (aw_store w)"
  unfolding viewed_def by (metis snd_conv)

lemma inert_viewed: "viewed view ok m \<Longrightarrow> inert view ok ex m"
  unfolding viewed_def inert_def by (metis snd_conv)

lemma inert_bindM:
  assumes "viewed view ok m" and "\<And>v. inert view ok ex (k v)"
  shows "inert view ok ex (bindM m k)"
  unfolding inert_def
proof (intro allI impI, elim conjE)
  fix w e w1
  assume o: "ok (aw_store w)" and r: "bindM m k w = (Inl e, w1)" and e: "e \<notin> ex"
  have v: "ok (aw_store (snd (m w)))" "view (aw_store (snd (m w))) = view (aw_store w)"
    using assms(1) o by (simp_all add: viewed_def)
  from r show "view (aw_store w1) = view (aw_store w)"
  proof (cases rule: bindM_InlE)
    case 1 then show ?thesis using v by simp
  next
    case (2 a w2) then show ?thesis using v e assms(2) [of a] unfolding inert_def by (metis snd_conv)
  qed
qed

lemma inert_then_event:
  assumes "inert view ok ex m"
  shows "inert view ok ex (bindM m (\<lambda>v. ret_event s y i k (Inr (g v))))"
  using assms unfolding inert_def by (auto simp: ret_event_def elim!: bindM_InlE)

lemma inert_ret [simp]: "inert view ok ex (retM x)"
  by (auto simp: inert_def)

lemma inert_op:
  assumes "implements view ok op (fun_spec f)" and "\<And>a e b. f a = (Inl e, b) \<Longrightarrow> b = a"
  shows "inert view ok ex (on_accounts op)"
  unfolding inert_def using op_Inl(1) [OF assms(1)] assms(2) by blast

lemma inert_on_err: "inert view ok {} m \<Longrightarrow> inert view ok ex (on_err f m)"
  unfolding inert_def by (auto elim!: on_err_InlE)


end
