(* ===== verification/EmailpasswordService.thy ===== *)
theory EmailpasswordService
  imports Emailpassword AccountSteps
begin

text \<open>
  The email and password manager over any store that meets the contract \<open>account_store\<close>. Every call keeps
  the contract's invariant and only lets the accounts evolve (\<open>account_safe\<close>); the result lemmas say what
  a call that succeeded has checked and changed, and that a call that failed changed nothing.
\<close>

lemma inert_write: "inert view ok ex op \<Longrightarrow> inert view ok {} op \<Longrightarrow> inert view ok ex (email_write mgr y i k text op)"
  unfolding inert_def email_write_def by (auto simp: email_fail_def ret_event_def split: prod.splits sum.splits if_splits)

section \<open>Every call is safe\<close>

definition email_service ::
  "'s EmailPasswordStore \<Rightarrow> 's CredentialStore \<Rightarrow> 's EmailPasswordManager \<Rightarrow> bool" where
  "email_service ep cr mgr \<longleftrightarrow>
     em_store mgr = ep \<and> em_credentials mgr = Some cr \<and> only_reads (em_passwords mgr)"

lemma email_fail_framed [intro!]: "framed (email_fail mgr y i k e)"
  by (auto simp: email_fail_def)

lemma email_checkAttempt_framed [intro!]: "framed (email_checkAttempt mgr a)"
  by (auto simp: email_checkAttempt_def)

lemma email_fail_simps [simp]:
  "fst (email_fail mgr y i k e w) = Inl (EEmailpassword e)"
  "snd (email_fail mgr y i k e w) = record_event (em_securityEvents mgr) y i k w"
  by (simp_all add: email_fail_def)

context account_store
begin

lemma FindBySubject_safe:
  assumes rel: "account_relation sha hmac secret R"
  shows "account_safe view ok R w (snd (on_accounts (cs_FindBySubject cr i) w))"
  by (rule account_safe_op [OF rel FindBySubject])
    (auto simp: fun_spec_def spec_FindBySubject_def intro: account_relationD [OF rel])

lemma FindByEmail_safe:
  assumes rel: "account_relation sha hmac secret R"
  shows "account_safe view ok R w (snd (on_accounts (es_FindByEmail ep e) w))"
  by (rule account_safe_op [OF rel FindByEmail])
    (auto simp: fun_spec_def spec_FindByEmail_def intro: account_relationD [OF rel])

lemma AddPassword_op_safe:
  assumes rel: "account_relation sha hmac secret R"
  shows "account_safe view ok R w (snd (on_accounts (cs_AddPassword cr i p t) w))"
  by (rule account_safe_op [OF rel AddPassword])
    (auto simp: fun_spec_def intro: account_relationD [OF rel])

lemma Replace_op_safe:
  assumes rel: "account_relation sha hmac secret R"
  shows "account_safe view ok R w (snd (on_accounts (es_ReplacePasswordHash ep i c r t) w))"
  by (rule account_safe_op [OF rel ReplaceHash])
    (auto simp: fun_spec_def intro: account_relationD [OF rel])

lemma ReplaceCredential_op_safe:
  assumes rel: "account_relation sha hmac secret R"
  shows "account_safe view ok R w (snd (on_accounts (cs_ReplacePasswordHash cr i c r t) w))"
  by (rule account_safe_op [OF rel ReplaceCredential])
    (auto simp: fun_spec_def intro: account_relationD [OF rel])

lemma RemovePassword_op_safe:
  assumes rel: "account_relation sha hmac secret R"
  shows "account_safe view ok R w (snd (on_accounts (cs_RemovePassword cr i c t) w))"
  by (rule account_safe_op [OF rel RemovePassword])
    (auto simp: fun_spec_def intro: account_relationD [OF rel])

lemma email_write_safe:
  assumes rel: "account_relation sha hmac secret R" and "\<And>v. account_safe view ok R v (snd (op v))"
  shows "account_safe view ok R w (snd (email_write mgr y i k text op w))"
  using assms(2) [of w] by (auto simp: email_write_def split: prod.split sum.split)

lemma email_currentCredential_safe:
  assumes rel: "account_relation sha hmac secret R"
  shows   "account_safe view ok R w (snd (email_currentCredential mgr cr y i p k w))"
  using FindBySubject_safe [OF rel, of w i]
  by (auto simp: email_currentCredential_def split: prod.split sum.split)

lemma email_lookup_safe:
  assumes rel: "account_relation sha hmac secret R" and "email_service ep cr mgr"
  shows "account_safe view ok R w (snd (email_lookup mgr n w))"
proof (cases n)
  case (Inr e)
  then show ?thesis
    using assms FindByEmail_safe [OF rel, of w e]
    by (auto simp: email_lookup_def email_service_def split: prod.split sum.split)
qed (simp add: email_lookup_def account_safe_refl [OF rel])

lemma email_AddPassword_safe:
  assumes rel: "account_relation sha hmac secret R" and "email_service ep cr mgr"
  shows "account_safe view ok R w (snd (email_AddPassword mgr sub p k w))"
  using assms
  by (auto simp: email_AddPassword_def email_service_def Let_def AddPassword_op_safe [OF rel]
      intro!: account_safe_bindM [OF rel] account_safe_refl [OF rel] account_safe_framed [OF rel, of "retM _"] account_safe_framed [OF rel email_checkAttempt_framed]
        account_safe_framed [OF rel framed_Hash] account_safe_framed [OF rel framed_read_clock])

lemma email_Register_safe:
  assumes rel: "account_relation sha hmac secret R" and "email_service ep cr mgr" and "fresh_tape view w"
  shows "account_safe view ok R w (snd (email_Register mail mgr e p k w))"
proof -
  have reg: "account_safe view ok R v (snd (on_accounts_drawing (\<lambda>dr. es_Register ep dr r) v))"
    if "fresh_tape view v" for v r
    by (rule account_safe_drawing [OF rel Register _ ok_view that])
      (auto simp: fun_spec_def intro: account_relationD(3) [OF rel])
  let ?k = "\<lambda>n h t v. (case on_accounts_drawing (\<lambda>dr. es_Register (em_store mgr) dr
      \<lparr>rg_Email = n, rg_PasswordHash = h, rg_CreatedAt = t\<rparr>) v of
        (Inl d, w1) \<Rightarrow>
          if errors_is d (EEmailpassword Emailpassword_ErrConflict)
          then email_fail mgr ''registration_rejected'' [] k Emailpassword_ErrRegistrationUnavailable w1
          else (Inl (EWrap ''register email identity'' d), w1)
      | (Inr user, w1) \<Rightarrow>
          if \<not> email_validUser user \<or> eu_Email user \<noteq> n
          then (Inl (EEmailpassword Emailpassword_ErrInvalidRecord), w1)
          else ret_event (em_securityEvents mgr) ''registration_succeeded'' (eu_ID user) k (Inr user) w1)"
  have last: "account_safe view ok R v (snd (?k n h t v))" if "fresh_tape view v" for n h t v
    using reg [OF that, of "\<lparr>rg_Email = n, rg_PasswordHash = h, rg_CreatedAt = t\<rparr>"] assms(2)
    by (auto simp: email_service_def split: prod.split sum.split)
  have f: "framed (pw_Hash (em_passwords mgr) p)" using assms(2) by (auto simp: email_service_def)
  show ?thesis
  proof (cases "normalizeAndValidateEmail mail mgr e")
    case (Inr n)
    have "account_safe view ok R w (snd (bindM (retM (email_validate mgr p)) (\<lambda>_.
          bindM (email_checkAttempt mgr \<lparr>tr_Operation = ''register'', tr_Email = n,
                   tr_SubjectID = [], tr_SourceKey = k\<rparr>) (\<lambda>_.
          bindM (on_err (EWrap ''hash registration password'') (pw_Hash (em_passwords mgr) p)) (\<lambda>h.
          bindM read_clock (\<lambda>t. ?k n h t)))) w))"
      by (intro account_safe_bindM_framed [OF rel] framed_retM email_checkAttempt_framed framed_on_err f
          framed_read_clock assms(3) last)
    then show ?thesis using Inr by (simp add: email_Register_def account_safe_refl [OF rel])
  qed (simp add: email_Register_def account_safe_refl [OF rel])
qed

lemma email_ChangePassword_safe:
  assumes rel: "account_relation sha hmac secret R" and "email_service ep cr mgr"
  shows "account_safe view ok R w (snd (email_ChangePassword mgr sub p q k w))"
  using assms
  by (auto simp: email_ChangePassword_def email_service_def Let_def
      intro!: account_safe_bindM [OF rel] account_safe_refl [OF rel] account_safe_framed [OF rel, of "retM _"] account_safe_framed [OF rel email_checkAttempt_framed]
        account_safe_framed [OF rel framed_Hash] account_safe_framed [OF rel framed_read_clock]
        email_currentCredential_safe [OF rel] email_write_safe [OF rel] ReplaceCredential_op_safe [OF rel])

lemma email_RemovePassword_safe:
  assumes rel: "account_relation sha hmac secret R" and "email_service ep cr mgr"
  shows "account_safe view ok R w (snd (email_RemovePassword mgr sub p k w))"
proof -
  have last: "account_safe view ok R v (snd (case on_accounts (cs_RemovePassword cr i c t) v of
        (Inl d, w1) \<Rightarrow>
          if errors_is d (EEmailpassword Emailpassword_ErrLastCredential) then (Inl d, w1)
          else if errors_is d (EEmailpassword Emailpassword_ErrConflict) \<or>
            errors_is d (EEmailpassword Emailpassword_ErrNotFound)
          then email_fail mgr ''password_removal_failed'' i k Emailpassword_ErrInvalidCredentials w1
          else (Inl (EWrap ''remove password'' d), w1)
      | (Inr _, w1) \<Rightarrow>
          ret_event (em_securityEvents mgr) ''password_removed'' i k (Inr ()) w1))" for v i c t
    using RemovePassword_op_safe [OF rel, of v i c t] by (auto split: prod.split sum.split)
  show ?thesis
    using assms
    by (auto simp: email_RemovePassword_def email_service_def Let_def
        intro!: account_safe_bindM [OF rel] account_safe_refl [OF rel] account_safe_framed [OF rel email_checkAttempt_framed]
          account_safe_framed [OF rel framed_read_clock] email_currentCredential_safe [OF rel] last)
qed

lemma email_rehash_safe:
  assumes rel: "account_relation sha hmac secret R" and "email_service ep cr mgr"
  shows "account_safe view ok R w (snd (email_rehash mgr u c p k w))"
proof -
  have e: "em_store mgr = ep" and h: "only_reads (em_passwords mgr)"
    using assms(2) by (simp_all add: email_service_def)
  show ?thesis
    unfolding email_rehash_def e using h
    by (auto intro!: account_safe_bindM [OF rel] account_safe_refl [OF rel] account_safe_framed [OF rel framed_Hash]
        account_safe_framed [OF rel framed_read_clock] email_write_safe [OF rel] Replace_op_safe [OF rel])
qed

lemma email_Login_safe:
  assumes rel: "account_relation sha hmac secret R" and "email_service ep cr mgr"
  shows "account_safe view ok R w (snd (email_Login mail mgr e p k w))"
  using assms
  by (auto simp: email_Login_def Let_def split: sum.split option.split
      intro!: account_safe_bindM [OF rel] account_safe_refl [OF rel] account_safe_framed [OF rel email_checkAttempt_framed] email_lookup_safe [OF rel]
        email_rehash_safe [OF rel] account_safe_refl [OF rel])

lemma credential_of_Inr:
  "(credential_of a i = Inr (u, c)) = (\<exists>ud pd. users a i = Some ud \<and> passwords a i = Some pd \<and>
     u = \<lparr>eu_ID = i, eu_Email = ud_Email ud\<rparr> \<and> c = \<lparr>pc_UserID = i, pc_PasswordHash = pd_PasswordHash pd\<rparr>)"
  by (auto simp: credential_of_def split: option.splits)

lemma currentCredential_Inr:
  assumes o: "ok (aw_store w)"
    and run: "email_currentCredential mgr cr y i p k w = (Inr (u, c), w1)"
  obtains ud pd v where "users (view (aw_store w)) i = Some ud" "passwords (view (aw_store w)) i = Some pd"
    "u = \<lparr>eu_ID = i, eu_Email = ud_Email ud\<rparr>" "c = \<lparr>pc_UserID = i, pc_PasswordHash = pd_PasswordHash pd\<rparr>"
    "pw_Verify (em_passwords mgr) p (pd_PasswordHash pd) = Inr v" "ve_Matches v"
    "view (aw_store w1) = view (aw_store w)" "ok (aw_store w1)" "tape w1 = tape w"
proof -
  obtain v where f: "on_accounts (cs_FindBySubject cr i) w = (Inr (u, c), w1)"
    and v: "pw_Verify (em_passwords mgr) p (pc_PasswordHash c) = Inr v" "ve_Matches v"
    using run by (auto simp: email_currentCredential_def email_fail_def ret_event_def
        split: prod.splits sum.splits if_splits)
  note r = op_Inr [OF FindBySubject o f]
  then obtain ud pd where q: "users (view (aw_store w)) i = Some ud" "passwords (view (aw_store w)) i = Some pd"
    "u = \<lparr>eu_ID = i, eu_Email = ud_Email ud\<rparr>" "c = \<lparr>pc_UserID = i, pc_PasswordHash = pd_PasswordHash pd\<rparr>"
    by (auto simp: spec_FindBySubject_def credential_of_Inr)
  show ?thesis by (rule that [OF q, of v]) (use r v q in \<open>simp_all add: spec_FindBySubject_def\<close>)
qed

lemma email_lookup_Some:
  assumes s: "email_service ep cr mgr" and o: "ok (aw_store w)"
    and run: "email_lookup mgr n w = (Inr (Some (u, c)), w1)"
  obtains e i ud pd where "n = Inr e" "emails (view (aw_store w)) e = Some i"
    "users (view (aw_store w)) i = Some ud" "passwords (view (aw_store w)) i = Some pd"
    "u = \<lparr>eu_ID = i, eu_Email = e\<rparr>" "c = \<lparr>pc_UserID = i, pc_PasswordHash = pd_PasswordHash pd\<rparr>"
    "view (aw_store w1) = view (aw_store w)" "ok (aw_store w1)" "tape w1 = tape w"
proof -
  have e: "em_store mgr = ep" using s by (simp add: email_service_def)
  obtain x where n: "n = Inr x" and f: "on_accounts (es_FindByEmail ep x) w = (Inr (u, c), w1)"
    and x: "eu_Email u = x"
    using run by (auto simp: email_lookup_def e split: prod.splits sum.splits if_splits)
  note r = op_Inr [OF FindByEmail o f]
  then obtain i ud pd where q: "emails (view (aw_store w)) x = Some i"
    "users (view (aw_store w)) i = Some ud" "passwords (view (aw_store w)) i = Some pd"
    "u = \<lparr>eu_ID = i, eu_Email = ud_Email ud\<rparr>" "c = \<lparr>pc_UserID = i, pc_PasswordHash = pd_PasswordHash pd\<rparr>"
    by (auto simp: spec_FindByEmail_def credential_of_Inr split: option.splits)
  show ?thesis by (rule that [OF n q(1-3)]) (use r x q in \<open>simp_all add: spec_FindByEmail_def\<close>)
qed

lemma email_write_Inr:
  assumes "implements view ok op (fun_spec f)" and "ok (aw_store w)"
    and "email_write mgr y i k text (on_accounts op) w = (Inr (), w1)"
  shows "f (view (aw_store w)) = (Inr (), view (aw_store w1))" and "ok (aw_store w1)" and "tape w1 = tape w"
  using assms(3) op_Inr [OF assms(1,2)]
  by (auto simp: email_write_def email_fail_def ret_event_def split: prod.splits sum.splits if_splits)

lemma spec_Replace_Inr:
  "spec_ReplacePasswordHash i c r t a = (Inr (), b) \<Longrightarrow>
     b = set_password i r t a \<and> (\<exists>p. passwords a i = Some p \<and> pd_PasswordHash p = c)"
  by (auto simp: spec_ReplacePasswordHash_def split: option.splits if_splits)

lemma Login_Inr:
  assumes s: "email_service ep cr mgr" and o: "ok (aw_store w)"
    and run: "email_Login mail mgr email password k w = (Inr lr, w1)"
  obtains e i ud pd v where "normalizeAndValidateEmail mail mgr email = Inr e"
    "emails (view (aw_store w)) e = Some i" "users (view (aw_store w)) i = Some ud"
    "passwords (view (aw_store w)) i = Some pd" "lr_User lr = \<lparr>eu_ID = i, eu_Email = e\<rparr>"
    "pw_Verify (em_passwords mgr) password (pd_PasswordHash pd) = Inr v" "ve_Matches v"
    "lr_PasswordRehashed lr = ve_NeedsRehash v"
    "if ve_NeedsRehash v
     then \<exists>wh wh' h t. tape wh = tape w \<and> pw_Hash (em_passwords mgr) password wh = (Inr h, wh') \<and>
       view (aw_store w1) = set_password i h t (view (aw_store w))
     else view (aw_store w1) = view (aw_store w)"
    "ok (aw_store w1)"
proof -
  let ?n = "normalizeAndValidateEmail mail mgr email"
  from run obtain wa wb identity where
    a: "email_checkAttempt mgr \<lparr>tr_Operation = ''login'', tr_Email = (case ?n of Inl _ \<Rightarrow> [] | Inr n \<Rightarrow> n),
      tr_SubjectID = [], tr_SourceKey = k\<rparr> w = (Inr (), wa)"
    and l: "email_lookup mgr ?n wa = (Inr identity, wb)"
    and r: "(case pw_Verify (em_passwords mgr) password
          (case identity of None \<Rightarrow> em_dummyHash mgr | Some (_, c) \<Rightarrow> pc_PasswordHash c) of
         Inl _ \<Rightarrow>
           (case identity of
              None \<Rightarrow> retM (Inl (EEmailpassword Emailpassword_ErrInvalidCredentials))
            | Some (user, _) \<Rightarrow>
                email_fail mgr ''login_failed'' (eu_ID user) k Emailpassword_ErrInvalidCredentials)
       | Inr verification \<Rightarrow>
           (case identity of
              None \<Rightarrow> email_fail mgr ''login_failed'' [] k Emailpassword_ErrInvalidCredentials
            | Some (user, credential) \<Rightarrow>
                if \<not> ve_Matches verification
                then email_fail mgr ''login_failed'' (eu_ID user) k Emailpassword_ErrInvalidCredentials
                else if ve_NeedsRehash verification then
                  bindM (email_rehash mgr user credential password k) (\<lambda>_.
                  ret_event (em_securityEvents mgr) ''login_succeeded'' (eu_ID user) k
                    (Inr \<lparr>lr_User = user, lr_PasswordRehashed = True\<rparr>))
                else
                  ret_event (em_securityEvents mgr) ''login_succeeded'' (eu_ID user) k
                    (Inr \<lparr>lr_User = user, lr_PasswordRehashed = False\<rparr>))) wb = (Inr lr, w1)"
    unfolding email_Login_def Let_def by (elim bindM_InrE) auto
  have wa: "aw_store wa = aw_store w" "tape wa = tape w" using framedD [OF email_checkAttempt_framed a] by auto
  from r obtain u c v where id: "identity = Some (u, c)"
    and v: "pw_Verify (em_passwords mgr) password (pc_PasswordHash c) = Inr v" "ve_Matches v"
    by (auto simp: email_fail_def ret_event_def split: sum.splits option.splits prod.splits if_splits)
  from email_lookup_Some [OF s _ l [unfolded id]] o wa obtain e i ud pd where
    n: "?n = Inr e" and st: "emails (view (aw_store w)) e = Some i" "users (view (aw_store w)) i = Some ud"
      "passwords (view (aw_store w)) i = Some pd"
    and u: "u = \<lparr>eu_ID = i, eu_Email = e\<rparr>" and c: "c = \<lparr>pc_UserID = i, pc_PasswordHash = pd_PasswordHash pd\<rparr>"
    and wb: "view (aw_store wb) = view (aw_store w)" "ok (aw_store wb)" "tape wb = tape w"
    by (metis (no_types, lifting))
  show ?thesis
  proof (cases "ve_NeedsRehash v")
    case False
    then have "lr = \<lparr>lr_User = u, lr_PasswordRehashed = False\<rparr>" "aw_store w1 = aw_store wb"
      using r id v by (auto simp: ret_event_def)
    then show ?thesis using False that [OF n st _ _ v(2)] u c v wb by simp
  next
    case True
    then obtain wc where rh: "email_rehash mgr u c password k wb = (Inr (), wc)"
      and lr: "lr = \<lparr>lr_User = u, lr_PasswordRehashed = True\<rparr>" and w1: "aw_store w1 = aw_store wc"
      using r id v by (auto simp: ret_event_def elim!: bindM_InrE)
    from rh obtain h wd t we wf where h: "pw_Hash (em_passwords mgr) password wb = (Inr h, wd)"
      and we: "read_clock wd = (Inr t, we)"
      and wr: "email_write mgr ''login_failed'' (eu_ID u) k ''replace password hash''
              (on_accounts (es_ReplacePasswordHash (em_store mgr) (eu_ID u) (pc_PasswordHash c) h t)) we = (Inr (), wf)"
      and wc: "aw_store wc = aw_store wf"
      unfolding email_rehash_def
      by (elim bindM_InrE) (auto simp: ret_event_def dest!: on_err_InrD)
    have wd: "aw_store wd = aw_store wb"
      using framedD(1) [OF framed_Hash h] s by (simp add: email_service_def)
    have "aw_store we = aw_store wb" using framedD(1) [OF framed_read_clock we] wd by simp
    moreover have "em_store mgr = ep" using s by (simp add: email_service_def)
    ultimately have "view (aw_store wf) = set_password i h t (view (aw_store w))" "ok (aw_store wf)"
      using email_write_Inr [OF ReplaceHash _ wr [unfolded \<open>em_store mgr = ep\<close>]] wb u
      by (auto dest!: spec_Replace_Inr)
    then show ?thesis
      using True that [OF n st _ _ v(2)] u c v wb h lr w1 wc by auto
  qed
qed

lemma ChangePassword_Inr:
  assumes s: "email_service ep cr mgr" and o: "ok (aw_store w)"
    and run: "email_ChangePassword mgr sub cur new k w = (Inr u, w1)"
  obtains ud pd v v' wh wh' h t where "users (view (aw_store w)) (TrimSpace sub) = Some ud"
    "passwords (view (aw_store w)) (TrimSpace sub) = Some pd"
    "u = \<lparr>eu_ID = TrimSpace sub, eu_Email = ud_Email ud\<rparr>"
    "pw_Verify (em_passwords mgr) cur (pd_PasswordHash pd) = Inr v" "ve_Matches v"
    "pw_Verify (em_passwords mgr) new (pd_PasswordHash pd) = Inr v'" "\<not> ve_Matches v'"
    "tape wh = tape w" "pw_Hash (em_passwords mgr) new wh = (Inr h, wh')"
    "view (aw_store w1) = set_password (TrimSpace sub) h t (view (aw_store w))" "ok (aw_store w1)"
proof -
  let ?i = "TrimSpace sub"
  have cr: "em_credentials mgr = Some cr" and h: "only_reads (em_passwords mgr)"
    using s by (simp_all add: email_service_def)
  from run cr obtain wa where
    a: "email_checkAttempt mgr \<lparr>tr_Operation = ''change_password'', tr_Email = [],
      tr_SubjectID = ?i, tr_SourceKey = k\<rparr> w = (Inr (), wa)"
    and r: "bindM (email_currentCredential mgr cr ''password_change_failed'' ?i cur k) (\<lambda>(user, credential).
          bindM (retM (email_differs mgr new credential)) (\<lambda>_.
          bindM (on_err (EWrap ''hash replacement password'') (pw_Hash (em_passwords mgr) new)) (\<lambda>replacementHash.
          bindM read_clock (\<lambda>t.
          bindM (email_write mgr ''password_change_failed'' ?i k ''replace password''
                   (on_accounts (cs_ReplacePasswordHash cr ?i (pc_PasswordHash credential) replacementHash t))) (\<lambda>_.
          ret_event (em_securityEvents mgr) ''password_changed'' ?i k (Inr user)))))) wa = (Inr u, w1)"
    unfolding email_ChangePassword_def
    by (auto simp: Let_def elim!: bindM_InrE split: if_splits)
  have wa: "aw_store wa = aw_store w" "tape wa = tape w" using framedD [OF email_checkAttempt_framed a] by auto
  from r obtain user c wb where
    b: "email_currentCredential mgr cr ''password_change_failed'' ?i cur k wa = (Inr (user, c), wb)"
    and r: "bindM (retM (email_differs mgr new c)) (\<lambda>_.
          bindM (on_err (EWrap ''hash replacement password'') (pw_Hash (em_passwords mgr) new)) (\<lambda>replacementHash.
          bindM read_clock (\<lambda>t.
          bindM (email_write mgr ''password_change_failed'' ?i k ''replace password''
                   (on_accounts (cs_ReplacePasswordHash cr ?i (pc_PasswordHash c) replacementHash t))) (\<lambda>_.
          ret_event (em_securityEvents mgr) ''password_changed'' ?i k (Inr user))))) wb = (Inr u, w1)"
    by (auto elim!: bindM_InrE)
  from wa o have "ok (aw_store wa)" by simp
  from currentCredential_Inr [OF this b] obtain ud pd v where
    st: "users (view (aw_store wa)) ?i = Some ud" "passwords (view (aw_store wa)) ?i = Some pd"
    and u: "user = \<lparr>eu_ID = ?i, eu_Email = ud_Email ud\<rparr>" "c = \<lparr>pc_UserID = ?i, pc_PasswordHash = pd_PasswordHash pd\<rparr>"
    and v: "pw_Verify (em_passwords mgr) cur (pd_PasswordHash pd) = Inr v" "ve_Matches v"
    and wb: "view (aw_store wb) = view (aw_store wa)" "ok (aw_store wb)" "tape wb = tape wa"
    by blast
  from r obtain x wx where "retM (email_differs mgr new c) wb = (Inr x, wx)"
    and r: "bindM (on_err (EWrap ''hash replacement password'') (pw_Hash (em_passwords mgr) new)) (\<lambda>replacementHash.
          bindM read_clock (\<lambda>t.
          bindM (email_write mgr ''password_change_failed'' ?i k ''replace password''
                   (on_accounts (cs_ReplacePasswordHash cr ?i (pc_PasswordHash c) replacementHash t))) (\<lambda>_.
          ret_event (em_securityEvents mgr) ''password_changed'' ?i k (Inr user)))) wx = (Inr u, w1)"
    by (rule bindM_InrE)
  then have d: "email_differs mgr new c = Inr ()" and wx: "wx = wb" by auto
  from r obtain h wd t we wf where hh: "pw_Hash (em_passwords mgr) new wx = (Inr h, wd)"
    and we: "read_clock wd = (Inr t, we)"
    and wr: "email_write mgr ''password_change_failed'' ?i k ''replace password''
       (on_accounts (cs_ReplacePasswordHash cr ?i (pc_PasswordHash c) h t)) we = (Inr (), wf)"
    and w1: "u = user" "aw_store w1 = aw_store wf"
    by (elim bindM_InrE) (auto simp: ret_event_def dest!: on_err_InrD)
  note hh = hh [unfolded wx]
  obtain v' where v': "pw_Verify (em_passwords mgr) new (pd_PasswordHash pd) = Inr v'" "\<not> ve_Matches v'"
    using d u by (auto simp: email_differs_def split: sum.splits if_splits)
  have "aw_store we = aw_store wb"
    using framedD(1) [OF framed_Hash [OF h] hh] framedD(1) [OF framed_read_clock we] by simp
  then have "view (aw_store wf) = set_password ?i h t (view (aw_store w))" "ok (aw_store wf)"
    using email_write_Inr [OF ReplaceCredential _ wr] wb wa by (auto dest!: spec_Replace_Inr)
  then show ?thesis
    by (intro that [OF _ _ _ v v' _ hh]) (use st u wa wb w1 in simp_all)
qed

lemma RemovePassword_Inr:
  assumes s: "email_service ep cr mgr" and o: "ok (aw_store w)"
    and run: "email_RemovePassword mgr sub cur k w = (Inr (), w1)"
  obtains pd v where "passwords (view (aw_store w)) (TrimSpace sub) = Some pd"
    "pw_Verify (em_passwords mgr) cur (pd_PasswordHash pd) = Inr v" "ve_Matches v"
    "has_google (view (aw_store w)) (TrimSpace sub) \<or> 0 < passkeys (view (aw_store w)) (TrimSpace sub)"
    "view (aw_store w1) = (view (aw_store w))\<lparr>passwords := (passwords (view (aw_store w)))(TrimSpace sub := None)\<rparr>"
    "ok (aw_store w1)"
proof -
  let ?i = "TrimSpace sub"
  have cr: "em_credentials mgr = Some cr" using s by (simp add: email_service_def)
  from run cr obtain wa user c wb t wc wd where
    a: "email_checkAttempt mgr \<lparr>tr_Operation = ''remove_password'', tr_Email = [],
      tr_SubjectID = ?i, tr_SourceKey = k\<rparr> w = (Inr (), wa)"
    and b: "email_currentCredential mgr cr ''password_removal_failed'' ?i cur k wa = (Inr (user, c), wb)"
    and wc: "read_clock wb = (Inr t, wc)"
    and d: "on_accounts (cs_RemovePassword cr ?i (pc_PasswordHash c) t) wc = (Inr (), wd)"
    and w1: "aw_store w1 = aw_store wd"
    unfolding email_RemovePassword_def
    by (auto simp: Let_def email_fail_def ret_event_def elim!: bindM_InrE split: if_splits prod.splits sum.splits)
  have wa: "aw_store wa = aw_store w" using framedD [OF email_checkAttempt_framed a] by auto
  then have "ok (aw_store wa)" using o by simp
  from currentCredential_Inr [OF this b] obtain ud pd v where
    st: "users (view (aw_store wa)) ?i = Some ud" "passwords (view (aw_store wa)) ?i = Some pd"
    and c: "user = \<lparr>eu_ID = ?i, eu_Email = ud_Email ud\<rparr>" "c = \<lparr>pc_UserID = ?i, pc_PasswordHash = pd_PasswordHash pd\<rparr>"
    and v: "pw_Verify (em_passwords mgr) cur (pd_PasswordHash pd) = Inr v" "ve_Matches v"
    and wb: "view (aw_store wb) = view (aw_store wa)" "ok (aw_store wb)" "tape wb = tape wa" by blast
  have wc: "aw_store wc = aw_store wb" using framedD(1) [OF framed_read_clock wc] .
  have "ok (aw_store wc)" using wb wc by simp
  note r = op_Inr [OF RemovePassword this d]
  show ?thesis
    by (rule that [OF _ v])
      (use r st c wa wb wc w1 in \<open>auto simp: spec_RemovePassword_def split: option.splits if_splits\<close>)
qed

lemma AddPassword_Inr:
  assumes s: "email_service ep cr mgr" and o: "ok (aw_store w)"
    and run: "email_AddPassword mgr sub p k w = (Inr u, w1)"
  obtains h t where "passwords (view (aw_store w)) (TrimSpace sub) = None"
    "users (view (aw_store w)) (TrimSpace sub) \<noteq> None"
    "view (aw_store w1) = set_password (TrimSpace sub) h t (view (aw_store w))" "ok (aw_store w1)"
proof -
  let ?i = "TrimSpace sub"
  have cr: "em_credentials mgr = Some cr" and h: "only_reads (em_passwords mgr)"
    using s by (simp_all add: email_service_def)
  from run cr obtain wa hs wb t wc wd where
    a: "email_checkAttempt mgr \<lparr>tr_Operation = ''add_password'', tr_Email = [],
      tr_SubjectID = ?i, tr_SourceKey = k\<rparr> w = (Inr (), wa)"
    and b: "pw_Hash (em_passwords mgr) p wa = (Inr hs, wb)" and c: "read_clock wb = (Inr t, wc)"
    and d: "on_accounts (cs_AddPassword cr ?i hs t) wc = (Inr u, wd)" and w1: "aw_store w1 = aw_store wd"
    unfolding email_AddPassword_def
    by (auto simp: Let_def ret_event_def elim!: bindM_InrE dest!: on_err_InrD split: if_splits)
  have "aw_store wc = aw_store w"
    using framedD(1) [OF email_checkAttempt_framed a] framedD(1) [OF framed_Hash [OF h] b]
      framedD(1) [OF framed_read_clock c] by simp
  then show ?thesis
    using op_Inr [OF AddPassword _ d] o w1
    by (intro that [of hs t]) (auto simp: spec_AddPassword_def split: option.splits if_splits)
qed

lemma spec_Inl_same:
  "spec_AddPassword i h t a = (Inl e, b) \<Longrightarrow> b = a"
  "spec_ReplacePasswordHash i c r t a = (Inl e, b) \<Longrightarrow> b = a"
  "spec_RemovePassword i c a = (Inl e, b) \<Longrightarrow> b = a"
  "spec_Register dr reg a = (Inl e, b) \<Longrightarrow> b = a"
  by (auto simp: spec_AddPassword_def spec_ReplacePasswordHash_def spec_RemovePassword_def spec_Register_def
      split: option.splits if_splits sum.splits)

lemma viewed_lookup:
  assumes "implements view ok op (fun_spec (\<lambda>a. (f a, a)))"
  shows "viewed view ok (on_accounts op)"
  unfolding viewed_def
proof (intro allI impI)
  fix w :: "'s account_world"
  assume o: "ok (aw_store w)"
  from assms o show "ok (aw_store (snd (on_accounts op w))) \<and>
      view (aw_store (snd (on_accounts op w))) = view (aw_store w)"
    using implements_inv [OF assms o] by (cases rule: implements_cases) (auto simp: fun_spec_def)
qed

lemma viewed_FindBySubject: "viewed view ok (on_accounts (cs_FindBySubject cr i))"
  using FindBySubject unfolding spec_FindBySubject_def [abs_def] by (rule viewed_lookup)

lemma viewed_FindByEmail: "viewed view ok (on_accounts (es_FindByEmail ep e))"
  using FindByEmail unfolding spec_FindByEmail_def [abs_def] by (rule viewed_lookup)

lemma viewed_currentCredential: "viewed view ok (email_currentCredential mgr cr y i p k)"
  unfolding viewed_def email_currentCredential_def
  by (auto dest: viewedD [OF viewed_FindBySubject] split: prod.split sum.split)

lemma viewed_email_lookup:
  assumes "email_service ep cr mgr"
  shows "viewed view ok (email_lookup mgr n)"
proof (cases n)
  case (Inr e)
  have e: "em_store mgr = ep" using assms by (simp add: email_service_def)
  show ?thesis
    unfolding viewed_def email_lookup_def e Inr
    by (auto dest: viewedD [OF viewed_FindByEmail] split: prod.split sum.split)
qed (simp add: viewed_def email_lookup_def)

lemma email_ChangePassword_inert:
  assumes "email_service ep cr mgr"
  shows "inert view ok ex (email_ChangePassword mgr sub p q k)"
proof -
  have cr: "em_credentials mgr = Some cr" and h: "only_reads (em_passwords mgr)"
    using assms by (simp_all add: email_service_def)
  have w: "inert view ok e2 (on_accounts (cs_ReplacePasswordHash cr i c r t))" for e2 i c r t
    by (rule inert_op [OF ReplaceCredential]) (rule spec_Inl_same)
  show ?thesis
    unfolding email_ChangePassword_def cr option.case Let_def
    by (simp add: case_prod_beta') (intro conjI impI inert_ret inert_bindM inert_then_event inert_write w viewed_framed
        framed_retM email_checkAttempt_framed viewed_currentCredential framed_on_err framed_Hash h framed_read_clock)
qed

lemma email_rehash_inert:
  assumes "email_service ep cr mgr"
  shows "inert view ok ex (email_rehash mgr u c p k)"
proof -
  have e: "em_store mgr = ep" and h: "only_reads (em_passwords mgr)"
    using assms by (simp_all add: email_service_def)
  have w: "inert view ok e2 (on_accounts (es_ReplacePasswordHash ep i c r t))" for e2 i c r t
    by (rule inert_op [OF ReplaceHash]) (rule spec_Inl_same)
  show ?thesis
    unfolding email_rehash_def e
    by (intro inert_bindM inert_then_event inert_write w viewed_framed framed_on_err framed_Hash h framed_read_clock)
qed

lemma email_Login_inert:
  assumes "email_service ep cr mgr"
  shows "inert view ok ex (email_Login mail mgr e p k)"
proof -
  have f: "inert view ok ex (email_fail mgr y i k d :: 's account_world \<Rightarrow> (err + LoginResult) \<times> 's account_world)"
    for y i d by (rule inert_viewed) blast
  have g: "inert view ok ex (ret_event s y i k x :: 's account_world \<Rightarrow> (err + LoginResult) \<times> 's account_world)"
    for s y i x by (rule inert_viewed) blast
  show ?thesis
    unfolding email_Login_def Let_def
    by (intro inert_bindM viewed_framed email_checkAttempt_framed viewed_email_lookup [OF assms])
      (auto split: sum.split option.split intro!: f g inert_then_event email_rehash_inert [OF assms])
qed

lemma email_RemovePassword_inert:
  assumes "email_service ep cr mgr"
  shows "inert view ok ex (email_RemovePassword mgr sub p k)"
proof -
  have cr: "em_credentials mgr = Some cr" using assms by (simp add: email_service_def)
  have w: "inert view ok {} (on_accounts (cs_RemovePassword cr i c t))" for i c t
    by (rule inert_op [OF RemovePassword]) (rule spec_Inl_same)
  have last: "inert view ok ex (\<lambda>w. case on_accounts (cs_RemovePassword cr i c t) w of
             (Inl e, w1) \<Rightarrow>
               if errors_is e (EEmailpassword Emailpassword_ErrLastCredential) then (Inl e, w1)
               else if errors_is e (EEmailpassword Emailpassword_ErrConflict) \<or>
                 errors_is e (EEmailpassword Emailpassword_ErrNotFound)
               then email_fail mgr ''password_removal_failed'' i k
                      Emailpassword_ErrInvalidCredentials w1
               else (Inl (EWrap ''remove password'' e), w1)
           | (Inr _, w1) \<Rightarrow>
               ret_event (em_securityEvents mgr) ''password_removed'' i k (Inr ()) w1)" for i c t
    using w [of i c t] unfolding inert_def
    by (auto simp: email_fail_def ret_event_def split: prod.splits sum.splits if_splits)
  show ?thesis
    unfolding email_RemovePassword_def cr option.case Let_def
    by (simp only: if_split case_prod_beta') (intro conjI impI inert_ret inert_bindM
        last [unfolded case_prod_beta'] viewed_framed
        email_checkAttempt_framed viewed_currentCredential framed_read_clock)
qed

lemma email_AddPassword_inert:
  assumes "email_service ep cr mgr"
  shows "inert view ok {EEmailpassword Emailpassword_ErrInvalidRecord} (email_AddPassword mgr sub p k)"
proof -
  have cr: "em_credentials mgr = Some cr" and h: "only_reads (em_passwords mgr)"
    using assms by (simp_all add: email_service_def)
  let ?ex = "{EEmailpassword Emailpassword_ErrInvalidRecord}"
  have w: "inert view ok {} (on_accounts (cs_AddPassword cr i c t))" for i c t
    by (rule inert_op [OF AddPassword]) (rule spec_Inl_same)
  have last: "inert view ok ?ex (bindM (on_err (EWrap ''add password'') (on_accounts (cs_AddPassword cr i c t))) (\<lambda>user.
          if \<not> email_validUser user \<or> eu_ID user \<noteq> i
          then retM (Inl (EEmailpassword Emailpassword_ErrInvalidRecord))
          else ret_event (em_securityEvents mgr) ''password_added'' i k (Inr user)))" for i c t
    using inert_on_err [OF w [of i c t], of ?ex "EWrap ''add password''"] unfolding inert_def
    by (auto simp: ret_event_def elim!: bindM_InlE split: if_splits)
  show ?thesis
    unfolding email_AddPassword_def cr option.case Let_def
    by (simp only: if_split) (intro conjI impI inert_ret inert_bindM last viewed_framed framed_retM
        email_checkAttempt_framed framed_on_err framed_Hash h framed_read_clock)
qed

lemma Register_Inr:
  assumes s: "email_service ep cr mgr" and o: "ok (aw_store w)" and fr: "fresh_tape view w"
    and run: "email_Register mail mgr email p k w = (Inr u, w1)"
  obtains n wh h wh' t i ud where "normalizeAndValidateEmail mail mgr email = Inr n"
    "tape wh = tape w" "pw_Hash (em_passwords mgr) p wh = (Inr h, wh')"
    "emails (view (aw_store w)) n = None" "users (view (aw_store w)) i = None" "\<not> blank i"
    "ud_ID ud = i" "ud_Email ud = n" "\<not> ud_EmailVerified ud" "u = \<lparr>eu_ID = i, eu_Email = n\<rparr>"
    "view (aw_store w1) = set_password i h t (insert_user ud (view (aw_store w)))" "ok (aw_store w1)"
proof -
  have e: "em_store mgr = ep" and h: "only_reads (em_passwords mgr)"
    using s by (simp_all add: email_service_def)
  obtain n where n: "normalizeAndValidateEmail mail mgr email = Inr n"
    using run by (auto simp: email_Register_def split: sum.splits)
  from run n obtain wa hs wb t wc wd where
    a: "email_checkAttempt mgr \<lparr>tr_Operation = ''register'', tr_Email = n, tr_SubjectID = [], tr_SourceKey = k\<rparr> w
      = (Inr (), wa)"
    and b: "pw_Hash (em_passwords mgr) p wa = (Inr hs, wb)" and c: "read_clock wb = (Inr t, wc)"
    and d: "on_accounts_drawing (\<lambda>dr. es_Register ep dr
        \<lparr>rg_Email = n, rg_PasswordHash = hs, rg_CreatedAt = t\<rparr>) wc = (Inr u, wd)"
    and w1: "aw_store w1 = aw_store wd"
    unfolding email_Register_def e
    by (auto simp: email_fail_def ret_event_def elim!: bindM_InrE dest!: on_err_InrD
        split: if_splits prod.splits sum.splits)
  have wa: "aw_store wa = aw_store w" "tape wa = tape w" using framedD [OF email_checkAttempt_framed a] by auto
  have wc: "aw_store wc = aw_store w" "tape wc = tape w"
    using wa framedD [OF framed_Hash [OF h] b] framedD [OF framed_read_clock c] by simp_all
  let ?dr = "draws_at wc (pos wc)" and ?reg = "\<lparr>rg_Email = n, rg_PasswordHash = hs, rg_CreatedAt = t\<rparr>"
  obtain wd' where dr: "draw wc = (?dr, wd')" by (metis fst_draw prod.collapse)
  have st: "aw_store wd' = aw_store w" using draw_simps [of wc] dr wc by simp
  have f: "draws_fresh ?dr (view (aw_store w))"
    using fresh_tape_framed [OF framed_read_clock fresh_tape_framed [OF framed_Hash [OF h]
        fresh_tape_framed [OF email_checkAttempt_framed fr a] b] c] wc by (simp add: fresh_tape_def)
  have r: "fst (es_Register ep ?dr ?reg (aw_store w)) = Inr u" "snd (es_Register ep ?dr ?reg (aw_store w)) = aw_store wd"
    using d dr st by (auto simp: on_accounts_drawing_def on_accounts_def)
  have sp: "spec_Register ?dr ?reg (view (aw_store w)) = (Inr u, view (aw_store wd))"
    using Register [of ?dr ?reg] o f by (cases rule: implements_when_cases) (use r in \<open>simp_all add: fun_spec_def\<close>)
  then obtain ud where ud: "new_user n False t ?dr = Inr ud"
    and q: "emails (view (aw_store w)) n = None" "u = \<lparr>eu_ID = ud_ID ud, eu_Email = n\<rparr>"
      "view (aw_store wd) = set_password (ud_ID ud) hs t (insert_user ud (view (aw_store w)))"
    by (auto simp: spec_Register_def split: sum.splits if_splits)
  have "\<not> blank (ud_ID ud)" using ud f by (auto simp: new_user_def draws_fresh_def split: sum.splits)
  moreover have "ok (aw_store w1)"
    using implements_when_inv [OF Register o f, of ?reg] r w1 by simp
  ultimately show ?thesis
    by (intro that [OF n wa(2) b q(1), of "ud_ID ud" ud t])
      (use draws_fresh_new_user [OF f ud] q w1 in simp_all)
qed

text \<open>The lookup of the sign-in, when the guard admits the attempt.\<close>

lemma lookup_result:
  assumes s: "email_service ep cr mgr" and o: "ok (aw_store w)"
    and valid: "\<forall>i pd. emails (view (aw_store w)) e = Some i \<and> passwords (view (aw_store w)) i = Some pd \<longrightarrow>
      \<not> blank i \<and> \<not> blank (pd_PasswordHash pd)" and e: "\<not> blank e"
  shows "(\<exists>d. is_driver d \<and> fst (email_lookup mgr (Inr e) w) = Inl (EWrap ''find email identity'' d)) \<or>
    fst (email_lookup mgr (Inr e) w) = Inr
      (case emails (view (aw_store w)) e of None \<Rightarrow> None
       | Some i \<Rightarrow> (case passwords (view (aw_store w)) i of None \<Rightarrow> None
          | Some pd \<Rightarrow> Some (\<lparr>eu_ID = i, eu_Email = e\<rparr>, \<lparr>pc_UserID = i, pc_PasswordHash = pd_PasswordHash pd\<rparr>)))"
proof -
  let ?a = "view (aw_store w)"
  have st: "em_store mgr = ep" using s by (simp add: email_service_def)
  obtain x w1 where r: "on_accounts (es_FindByEmail ep e) w = (x, w1)" by fastforce
  show ?thesis
  proof (cases x)
    case (Inl d)
    from op_Inl(1) [OF FindByEmail o r [unfolded Inl]]
    show ?thesis
    proof
      assume "is_driver d \<and> view (aw_store w1) = ?a"
      then show ?thesis using r Inl st by (auto simp: email_lookup_def driver_errors_is)
    next
      assume sp: "spec_FindByEmail e ?a = (Inl d, view (aw_store w1))"
      have "users ?a i \<noteq> None" if "emails ?a e = Some i" for i
        using ok_view [OF o] that unfolding accounts_ok_def by blast
      then show ?thesis
        using sp r Inl st
        by (auto simp: spec_FindByEmail_def credential_of_def email_lookup_def split: option.splits)
    qed
  next
    case (Inr uc)
    obtain u c where uc: "uc = (u, c)" by fastforce
    from op_Inr(1) [OF FindByEmail o r [unfolded Inr uc]]
    obtain i ud pd where q: "emails ?a e = Some i" "users ?a i = Some ud" "passwords ?a i = Some pd"
      "u = \<lparr>eu_ID = i, eu_Email = ud_Email ud\<rparr>" "c = \<lparr>pc_UserID = i, pc_PasswordHash = pd_PasswordHash pd\<rparr>"
      by (auto simp: spec_FindByEmail_def credential_of_Inr split: option.splits)
    have "ud_Email ud = e" using ok_view [OF o] q(1,2) unfolding accounts_ok_def by (metis option.inject)
    moreover have "\<not> blank i" "\<not> blank (pd_PasswordHash pd)" using valid q by blast+
    ultimately show ?thesis
      using r Inr uc st q e by (simp add: email_lookup_def email_validUser_def email_validCredential_def)
  qed
qed

lemma Login_rejects:
  assumes s: "email_service ep cr mgr" and o: "ok (aw_store w)"
    and guard: "em_attemptGuard mgr = None"
    and valid: "\<forall>e i pd. emails (view (aw_store w)) e = Some i \<and> passwords (view (aw_store w)) i = Some pd \<longrightarrow>
      \<not> blank i \<and> \<not> blank (pd_PasswordHash pd)"
    and no: "\<forall>e i pd v. normalizeAndValidateEmail mail mgr email = Inr e \<and>
      emails (view (aw_store w)) e = Some i \<and> passwords (view (aw_store w)) i = Some pd \<and>
      pw_Verify (em_passwords mgr) password (pd_PasswordHash pd) = Inr v \<longrightarrow> \<not> ve_Matches v"
  shows "fst (email_Login mail mgr email password k w) = Inl (EEmailpassword Emailpassword_ErrInvalidCredentials) \<or>
    (\<exists>d. is_driver d \<and> fst (email_Login mail mgr email password k w) = Inl (EWrap ''find email identity'' d))"
proof -
  let ?n = "normalizeAndValidateEmail mail mgr email"
  have g: "email_checkAttempt mgr x w = (Inr (), w)" for x
    by (simp add: email_checkAttempt_def check_attempt_def guard)
  obtain x w1 where l: "email_lookup mgr ?n w = (x, w1)" by fastforce
  have lk: "(\<exists>d. is_driver d \<and> x = Inl (EWrap ''find email identity'' d)) \<or> x = Inr None \<or>
    (\<exists>e i pd. ?n = Inr e \<and> emails (view (aw_store w)) e = Some i \<and> passwords (view (aw_store w)) i = Some pd \<and>
       x = Inr (Some (\<lparr>eu_ID = i, eu_Email = e\<rparr>, \<lparr>pc_UserID = i, pc_PasswordHash = pd_PasswordHash pd\<rparr>)))"
  proof (cases ?n)
    case (Inl d)
    then show ?thesis using l by (simp add: email_lookup_def)
  next
    case (Inr e)
    then have b: "\<not> blank e"
      using email_Valid_D(1) by (auto simp: normalizeAndValidateEmail_def split: sum.splits if_splits)
    have vv: "\<forall>i pd. emails (view (aw_store w)) e = Some i \<and> passwords (view (aw_store w)) i = Some pd \<longrightarrow>
        \<not> blank i \<and> \<not> blank (pd_PasswordHash pd)" using valid by blast
    show ?thesis using lookup_result [OF s o vv b] l Inr by (auto split: option.splits)
  qed
  then show ?thesis
  proof (elim disjE exE conjE)
    fix d assume "is_driver d" "x = Inl (EWrap ''find email identity'' d)"
    then show ?thesis using l g by (simp add: email_Login_def Let_def)
  next
    assume "x = Inr None"
    then show ?thesis using l g by (simp add: email_Login_def Let_def split: sum.split)
  next
    fix e i pd
    assume q: "?n = Inr e" "emails (view (aw_store w)) e = Some i" "passwords (view (aw_store w)) i = Some pd"
      "x = Inr (Some (\<lparr>eu_ID = i, eu_Email = e\<rparr>, \<lparr>pc_UserID = i, pc_PasswordHash = pd_PasswordHash pd\<rparr>))"
    then show ?thesis
      using l g no by (cases "pw_Verify (em_passwords mgr) password (pd_PasswordHash pd)") (auto simp: email_Login_def Let_def)
  qed
qed

lemma Login_accepts:
  assumes s: "email_service ep cr mgr" and o: "ok (aw_store w)"
    and guard: "em_attemptGuard mgr = None"
    and q: "normalizeAndValidateEmail mail mgr email = Inr e" "emails (view (aw_store w)) e = Some i"
      "passwords (view (aw_store w)) i = Some pd" "\<not> blank i" "\<not> blank (pd_PasswordHash pd)"
    and v: "pw_Verify (em_passwords mgr) password (pd_PasswordHash pd) = Inr \<lparr>ve_Matches = True, ve_NeedsRehash = False\<rparr>"
  shows "fst (email_Login mail mgr email password k w) =
      Inr \<lparr>lr_User = \<lparr>eu_ID = i, eu_Email = e\<rparr>, lr_PasswordRehashed = False\<rparr> \<or>
    (\<exists>d. is_driver d \<and> fst (email_Login mail mgr email password k w) = Inl (EWrap ''find email identity'' d))"
proof -
  have g: "email_checkAttempt mgr x w = (Inr (), w)" for x
    by (simp add: email_checkAttempt_def check_attempt_def guard)
  have "\<not> blank e"
    using q(1) email_Valid_D(1) by (auto simp: normalizeAndValidateEmail_def split: sum.splits if_splits)
  obtain x w1 where l: "email_lookup mgr (Inr e) w = (x, w1)" by fastforce
  from lookup_result [OF s o _ \<open>\<not> blank e\<close>] q l
  have "(\<exists>d. is_driver d \<and> x = Inl (EWrap ''find email identity'' d)) \<or>
    x = Inr (Some (\<lparr>eu_ID = i, eu_Email = e\<rparr>, \<lparr>pc_UserID = i, pc_PasswordHash = pd_PasswordHash pd\<rparr>))"
    by fastforce
  then show ?thesis using l g q(1) v by (elim disjE exE conjE) (simp_all add: email_Login_def Let_def)
qed

end

end
