(* ===== verification/Emailverification.thy ===== *)
theory Emailverification
  imports AccountWorld
begin

text \<open>
  The package \<^verbatim>\<open>emailverification\<close> (src/emailverification/emailverification.go): a link token or a
  six-digit code proves the ownership of an address. SHA-256 is the parameter \<open>sha\<close>, HMAC-SHA-256 the
  parameter \<open>hmac\<close> of the key and the text.
\<close>

definition ver_issueAttempts :: nat where "ver_issueAttempts = 3"
definition otpDigits :: nat where "otpDigits = 6"
definition minimumOTPSecretSize :: nat where "minimumOTPSecretSize = 32"

definition DeliveryMethodLink :: string where "DeliveryMethodLink = ''link''"
definition DeliveryMethodOTP :: string where "DeliveryMethodOTP = ''otp''"

record VerificationConfig =
  vf_Delivery :: string
  vf_OTPSecret :: string
  vf_Lifetime :: duration
  vf_Sender :: "Sender option"
  vf_AttemptGuard :: "AttemptGuard option"
  vf_SecurityEvents :: bool
  vf_NormalizeEmail :: "(string \<Rightarrow> err + string) option"

record 's VerificationManager =
  vm_store :: "'s VerificationStore"
  vm_sender :: Sender
  vm_attemptGuard :: "AttemptGuard option"
  vm_securityEvents :: bool
  vm_normalizeEmail :: "string \<Rightarrow> err + string"
  vm_delivery :: string
  vm_otpSecret :: string
  vm_lifetime :: duration

definition ver_config_error :: "string \<Rightarrow> err + 'r" where
  "ver_config_error text = Inl (EWrap text (EVerification Verification_ErrInvalidConfig))"

definition ver_NewManager ::
  "mail_library \<Rightarrow> 's VerificationStore option \<Rightarrow> VerificationConfig \<Rightarrow> err + 's VerificationManager" where
  "ver_NewManager mail store config =
     (case store of None \<Rightarrow> ver_config_error ''store is required''
      | Some st \<Rightarrow>
     (case vf_Sender config of None \<Rightarrow> ver_config_error ''sender is required''
      | Some sender \<Rightarrow>
     if vf_Lifetime config \<le> 0 then ver_config_error ''lifetime must be positive''
     else
     let delivery = (if vf_Delivery config = [] then DeliveryMethodLink else vf_Delivery config) in
     if delivery \<noteq> DeliveryMethodLink \<and> delivery \<noteq> DeliveryMethodOTP
     then ver_config_error ''delivery method must be link or otp''
     else if delivery = DeliveryMethodOTP \<and> vf_AttemptGuard config = None
     then ver_config_error ''attempt guard is required for OTP delivery''
     else if delivery = DeliveryMethodOTP \<and> length (vf_OTPSecret config) < minimumOTPSecretSize
     then ver_config_error ''OTP secret must contain at least 32 bytes''
     else Inr \<lparr>vm_store = st, vm_sender = sender, vm_attemptGuard = vf_AttemptGuard config,
            vm_securityEvents = vf_SecurityEvents config,
            vm_normalizeEmail = (case vf_NormalizeEmail config of None \<Rightarrow> email_Normalize mail | Some n \<Rightarrow> n),
            vm_delivery = delivery, vm_otpSecret = vf_OTPSecret config,
            vm_lifetime = vf_Lifetime config\<rparr>))"

text \<open>The address of a request, or the empty string.\<close>

definition ver_address :: "mail_library \<Rightarrow> 's VerificationManager \<Rightarrow> string \<Rightarrow> string" where
  "ver_address mail mgr email =
     (case vm_normalizeEmail mgr email of Inl _ \<Rightarrow> []
      | Inr n \<Rightarrow> if \<not> email_Valid mail n then [] else n)"

definition ver_checkAttempt ::
  "'s VerificationManager \<Rightarrow> string \<Rightarrow> string \<Rightarrow> string \<Rightarrow> 's account_world \<Rightarrow> (err + unit) \<times> 's account_world" where
  "ver_checkAttempt mgr operation email sourceKey =
     check_attempt ''email verification'' (vm_attemptGuard mgr)
       \<lparr>tr_Operation = operation, tr_Email = email, tr_SubjectID = [], tr_SourceKey = sourceKey\<rparr>"

definition ver_validUser :: "mail_library \<Rightarrow> VerifiedUser \<Rightarrow> string \<Rightarrow> bool" where
  "ver_validUser mail user expectedEmail \<longleftrightarrow>
     \<not> (blank (vu_ID user) \<or> vu_Email user \<noteq> expectedEmail \<or> \<not> email_Valid mail (vu_Email user))"

section \<open>Credentials\<close>

text \<open>\<^verbatim>\<open>rand.Int\<close>: some number below the maximum, from the bytes of one reading.\<close>

definition rand_Int :: "nat \<Rightarrow> 'a world_scheme \<Rightarrow> (err + nat) \<times> 'a world_scheme" where
  "rand_Int maximum =
     bindM (rand_read 3) (\<lambda>bs. retM (Inr (foldl (\<lambda>n c. 256 * n + of_char c) 0 bs mod maximum)))"

definition generateOTP :: "'a world_scheme \<Rightarrow> (err + string) \<times> 'a world_scheme" where
  "generateOTP =
     bindM (rand_Int (10 ^ otpDigits)) (\<lambda>value.
     retM (Inr (replicate (otpDigits - length (decimal value)) CHR ''0'' @ decimal value)))"

definition validOTP :: "string \<Rightarrow> bool" where
  "validOTP code \<longleftrightarrow> length code = otpDigits \<and> list_all (\<lambda>c. 48 \<le> (of_char c :: nat) \<and> (of_char c :: nat) \<le> 57) code"

definition hashOTP ::
  "(string \<Rightarrow> string \<Rightarrow> hash) \<Rightarrow> 's VerificationManager \<Rightarrow> string \<Rightarrow> string \<Rightarrow> hash" where
  "hashOTP hmac mgr email code = hmac (vm_otpSecret mgr) (email @ CHR 0x00 # code)"

text \<open>The token and the code of a fresh credential (one of them empty), and its hash.\<close>

definition generateCredential ::
  "(string \<Rightarrow> hash) \<Rightarrow> (string \<Rightarrow> string \<Rightarrow> hash) \<Rightarrow> 's VerificationManager \<Rightarrow> string \<Rightarrow> 'a world_scheme \<Rightarrow>
     (err + (string \<times> string) \<times> hash) \<times> 'a world_scheme" where
  "generateCredential sha hmac mgr email =
     (if vm_delivery mgr = DeliveryMethodOTP
      then bindM generateOTP (\<lambda>code. retM (Inr (([], code), hashOTP hmac mgr email code)))
      else bindM (Generate sha) (\<lambda>(rawToken, h). retM (Inr ((rawToken, []), h))))"

definition hashVerificationInput ::
  "(string \<Rightarrow> hash) \<Rightarrow> (string \<Rightarrow> string \<Rightarrow> hash) \<Rightarrow> 's VerificationManager \<Rightarrow> string \<Rightarrow> string \<Rightarrow> string \<Rightarrow> err + hash"
where
  "hashVerificationInput sha hmac mgr rawToken code normalizedEmail =
     (if vm_delivery mgr = DeliveryMethodOTP then
        (if normalizedEmail = [] \<or> \<not> validOTP code then Inl (EToken Token_ErrInvalidToken)
         else Inr (hashOTP hmac mgr normalizedEmail code))
      else HashToken sha rawToken)"

section \<open>Operations\<close>

fun ver_request_loop ::
  "nat \<Rightarrow> (string \<Rightarrow> hash) \<Rightarrow> (string \<Rightarrow> string \<Rightarrow> hash) \<Rightarrow> 's VerificationManager \<Rightarrow> string \<Rightarrow> VerifiedUser \<Rightarrow>
     string \<Rightarrow> 's account_world \<Rightarrow> (err + unit) \<times> 's account_world" where
  "ver_request_loop 0 sha hmac mgr email user sourceKey w =
     (Inl (EWrap ''create unique email verification token'' (EVerification Verification_ErrConflict)), w)"
| "ver_request_loop (Suc n) sha hmac mgr email user sourceKey w =
     (case generateCredential sha hmac mgr email w of
        (Inl e, w1) \<Rightarrow> (Inl (EWrap ''generate email verification credential'' e), w1)
      | (Inr ((rawToken, code), h), w1) \<Rightarrow>
          (case now w1 of (t, w2) \<Rightarrow>
           let r = \<lparr>ot_UserID = vu_ID user, ot_Email = vu_Email user, ot_TokenHash = h, ot_CreatedAt = t,
                 ot_ExpiresAt = t + vm_lifetime mgr\<rparr> in
           (case on_accounts (vs_Issue (vm_store mgr) r) w2 of
              (Inl e, w3) \<Rightarrow>
                if errors_is e (EVerification Verification_ErrConflict)
                then ver_request_loop n sha hmac mgr email user sourceKey w3
                else if errors_is e (EVerification Verification_ErrAlreadyVerified) then (Inr (), w3)
                else (Inl (EWrap ''store email verification token'' e), w3)
            | (Inr _, w3) \<Rightarrow>
                bindM (on_err (EWrap ''send email verification message'')
                  (send_message (vm_sender mgr) \<lparr>ms_UserID = vu_ID user, ms_Email = vu_Email user,
                     ms_Token = rawToken, ms_Code = code, ms_ExpiresAt = ot_ExpiresAt r\<rparr>)) (\<lambda>_.
                ret_event (vm_securityEvents mgr) ''verification_message_sent'' (vu_ID user) sourceKey (Inr ()))
                w3)))"

definition ver_Request ::
  "mail_library \<Rightarrow> (string \<Rightarrow> hash) \<Rightarrow> (string \<Rightarrow> string \<Rightarrow> hash) \<Rightarrow> 's VerificationManager \<Rightarrow> string \<Rightarrow> string \<Rightarrow>
     's account_world \<Rightarrow> (err + unit) \<times> 's account_world" where
  "ver_Request mail sha hmac mgr email sourceKey =
     (let normalizedEmail = ver_address mail mgr email in
      bindM (ver_checkAttempt mgr ''request'' normalizedEmail sourceKey) (\<lambda>_ w.
        if normalizedEmail = [] then (Inr (), w)
        else
        (case on_accounts (vs_FindUserByEmail (vm_store mgr) normalizedEmail) w of
           (Inl e, w1) \<Rightarrow>
             if errors_is e (EVerification Verification_ErrNotFound) then (Inr (), w1)
             else (Inl (EWrap ''find user for email verification'' e), w1)
         | (Inr user, w1) \<Rightarrow>
             if \<not> ver_validUser mail user normalizedEmail
             then (Inl (EVerification Verification_ErrInvalidRecord), w1)
             else if vu_Verified user then (Inr (), w1)
             else ver_request_loop ver_issueAttempts sha hmac mgr normalizedEmail user sourceKey w1)))"

definition ver_Verify ::
  "mail_library \<Rightarrow> (string \<Rightarrow> hash) \<Rightarrow> (string \<Rightarrow> string \<Rightarrow> hash) \<Rightarrow> 's VerificationManager \<Rightarrow> string \<Rightarrow> string \<Rightarrow>
     string \<Rightarrow> string \<Rightarrow> 's account_world \<Rightarrow> (err + VerifiedUser) \<times> 's account_world" where
  "ver_Verify mail sha hmac mgr rawToken email code sourceKey =
     (let normalizedEmail = (if vm_delivery mgr = DeliveryMethodOTP then ver_address mail mgr email else []) in
      bindM (ver_checkAttempt mgr ''verify'' normalizedEmail sourceKey) (\<lambda>_.
      case hashVerificationInput sha hmac mgr rawToken code normalizedEmail of
        Inl _ \<Rightarrow> ret_event (vm_securityEvents mgr) ''email_verification_failed'' [] sourceKey
                   (Inl (EToken Token_ErrInvalidToken))
      | Inr h \<Rightarrow>
          bindM read_clock (\<lambda>t w.
          (case on_accounts (vs_Verify (vm_store mgr) h t) w of
             (Inl e, w1) \<Rightarrow>
               if errors_is e (EVerification Verification_ErrNotFound) \<or>
                  errors_is e (EVerification Verification_ErrInactiveToken)
               then ret_event (vm_securityEvents mgr) ''email_verification_failed'' [] sourceKey
                      (Inl (EToken Token_ErrInvalidToken)) w1
               else (Inl (EWrap ''verify email'' e), w1)
           | (Inr user, w1) \<Rightarrow>
               if blank (vu_ID user) \<or> \<not> email_Valid mail (vu_Email user) \<or> \<not> vu_Verified user
               then (Inl (EVerification Verification_ErrInvalidRecord), w1)
               else ret_event (vm_securityEvents mgr) ''email_verified'' (vu_ID user) sourceKey (Inr user) w1))))"

definition ver_IsVerified ::
  "mail_library \<Rightarrow> 's VerificationManager \<Rightarrow> string \<Rightarrow> 's account_world \<Rightarrow> (err + bool) \<times> 's account_world" where
  "ver_IsVerified mail mgr email w =
     (let normalizedEmail = ver_address mail mgr email in
      if normalizedEmail = [] then (Inr False, w)
      else
      (case on_accounts (vs_FindUserByEmail (vm_store mgr) normalizedEmail) w of
         (Inl e, w1) \<Rightarrow>
           if errors_is e (EVerification Verification_ErrNotFound) then (Inr False, w1)
           else (Inl (EWrap ''find email verification status'' e), w1)
       | (Inr user, w1) \<Rightarrow>
           if \<not> ver_validUser mail user normalizedEmail
           then (Inl (EVerification Verification_ErrInvalidRecord), w1)
           else (Inr (vu_Verified user), w1)))"

end
