(* ===== verification/Passwordreset.thy ===== *)
theory Passwordreset
  imports AccountWorld
begin

text \<open>
  The package \<^verbatim>\<open>passwordreset\<close> (src/passwordreset/passwordreset.go): recovery of a password with an
  emailed token.
\<close>

definition reset_issueAttempts :: nat where "reset_issueAttempts = 3"

record 's ResetConfig =
  rf_Lifetime :: duration
  rf_Sender :: "Sender option"
  rf_Passwords :: "'s Passwords option"
  rf_ValidatePassword :: "(string \<Rightarrow> err option) option"
  rf_AttemptGuard :: "AttemptGuard option"
  rf_SecurityEvents :: bool
  rf_NormalizeEmail :: "(string \<Rightarrow> err + string) option"

record 's ResetManager =
  pm_store :: "'s ResetStore"
  pm_sender :: Sender
  pm_passwords :: "'s Passwords"
  pm_validatePassword :: "(string \<Rightarrow> err option) option"
  pm_attemptGuard :: "AttemptGuard option"
  pm_securityEvents :: bool
  pm_normalizeEmail :: "string \<Rightarrow> err + string"
  pm_lifetime :: duration

definition reset_config_error :: "string \<Rightarrow> err + 'r" where
  "reset_config_error text = Inl (EWrap text (EReset Reset_ErrInvalidConfig))"

definition reset_NewManager ::
  "mail_library \<Rightarrow> password_library \<Rightarrow> 's ResetStore option \<Rightarrow> 's ResetConfig \<Rightarrow> err + 's ResetManager" where
  "reset_NewManager mail lib store config =
     (case store of None \<Rightarrow> reset_config_error ''store is required''
      | Some st \<Rightarrow>
     (case rf_Sender config of None \<Rightarrow> reset_config_error ''sender is required''
      | Some sender \<Rightarrow>
     if rf_Lifetime config \<le> 0 then reset_config_error ''lifetime must be positive''
     else Inr \<lparr>pm_store = st, pm_sender = sender,
            pm_passwords = (case rf_Passwords config of None \<Rightarrow> defaultPasswords lib | Some p \<Rightarrow> p),
            pm_validatePassword = rf_ValidatePassword config,
            pm_attemptGuard = rf_AttemptGuard config, pm_securityEvents = rf_SecurityEvents config,
            pm_normalizeEmail = (case rf_NormalizeEmail config of None \<Rightarrow> email_Normalize mail | Some n \<Rightarrow> n),
            pm_lifetime = rf_Lifetime config\<rparr>))"

definition reset_checkAttempt ::
  "'s ResetManager \<Rightarrow> string \<Rightarrow> string \<Rightarrow> string \<Rightarrow> 's account_world \<Rightarrow> (err + unit) \<times> 's account_world" where
  "reset_checkAttempt mgr operation email sourceKey =
     check_attempt ''password reset'' (pm_attemptGuard mgr)
       \<lparr>tr_Operation = operation, tr_Email = email, tr_SubjectID = [], tr_SourceKey = sourceKey\<rparr>"

definition reset_validUser :: "mail_library \<Rightarrow> EmailUser \<Rightarrow> string \<Rightarrow> bool" where
  "reset_validUser mail user expectedEmail \<longleftrightarrow>
     \<not> (blank (eu_ID user) \<or> eu_Email user \<noteq> expectedEmail \<or> \<not> email_Valid mail (eu_Email user))"

fun reset_request_loop ::
  "nat \<Rightarrow> (string \<Rightarrow> hash) \<Rightarrow> 's ResetManager \<Rightarrow> EmailUser \<Rightarrow> string \<Rightarrow> 's account_world \<Rightarrow>
     (err + unit) \<times> 's account_world" where
  "reset_request_loop 0 sha mgr user sourceKey w =
     (Inl (EWrap ''create unique password reset token'' (EReset Reset_ErrConflict)), w)"
| "reset_request_loop (Suc n) sha mgr user sourceKey w =
     (case Generate sha w of
        (Inl e, w1) \<Rightarrow> (Inl (EWrap ''generate password reset token'' e), w1)
      | (Inr (rawToken, h), w1) \<Rightarrow>
          (case now w1 of (t, w2) \<Rightarrow>
           let r = \<lparr>ot_UserID = eu_ID user, ot_Email = eu_Email user, ot_TokenHash = h, ot_CreatedAt = t,
                 ot_ExpiresAt = t + pm_lifetime mgr\<rparr> in
           (case on_accounts (ps_Issue (pm_store mgr) r) w2 of
              (Inl e, w3) \<Rightarrow>
                if errors_is e (EReset Reset_ErrConflict) then reset_request_loop n sha mgr user sourceKey w3
                else (Inl (EWrap ''store password reset token'' e), w3)
            | (Inr _, w3) \<Rightarrow>
                bindM (on_err (EWrap ''send password reset message'')
                  (send_message (pm_sender mgr) \<lparr>ms_UserID = eu_ID user, ms_Email = eu_Email user,
                     ms_Token = rawToken, ms_Code = [], ms_ExpiresAt = ot_ExpiresAt r\<rparr>)) (\<lambda>_.
                ret_event (pm_securityEvents mgr) ''password_reset_message_sent'' (eu_ID user) sourceKey (Inr ()))
                w3)))"

definition reset_Request ::
  "mail_library \<Rightarrow> (string \<Rightarrow> hash) \<Rightarrow> 's ResetManager \<Rightarrow> string \<Rightarrow> string \<Rightarrow> 's account_world \<Rightarrow>
     (err + unit) \<times> 's account_world" where
  "reset_Request mail sha mgr email sourceKey =
     (let normalizedEmail = (case pm_normalizeEmail mgr email of Inl _ \<Rightarrow> []
            | Inr n \<Rightarrow> if \<not> email_Valid mail n then [] else n) in
      bindM (reset_checkAttempt mgr ''request'' normalizedEmail sourceKey) (\<lambda>_ w.
        if normalizedEmail = [] then (Inr (), w)
        else
        (case on_accounts (ps_FindUserByEmail (pm_store mgr) normalizedEmail) w of
           (Inl e, w1) \<Rightarrow>
             if errors_is e (EReset Reset_ErrNotFound) then (Inr (), w1)
             else (Inl (EWrap ''find user for password reset'' e), w1)
         | (Inr user, w1) \<Rightarrow>
             if \<not> reset_validUser mail user normalizedEmail
             then (Inl (EReset Reset_ErrInvalidRecord), w1)
             else reset_request_loop reset_issueAttempts sha mgr user sourceKey w1)))"

definition reset_Reset ::
  "mail_library \<Rightarrow> (string \<Rightarrow> hash) \<Rightarrow> 's ResetManager \<Rightarrow> string \<Rightarrow> string \<Rightarrow> string \<Rightarrow> 's account_world \<Rightarrow>
     (err + EmailUser) \<times> 's account_world" where
  "reset_Reset mail sha mgr rawToken newPassword sourceKey =
     bindM (reset_checkAttempt mgr ''reset'' [] sourceKey) (\<lambda>_.
     if newPassword = [] then retM (Inl (EReset Reset_ErrInvalidPassword))
     else
     (case (case pm_validatePassword mgr of None \<Rightarrow> None | Some validate \<Rightarrow> validate newPassword) of
        Some e \<Rightarrow> retM (Inl (EWrap2 (EReset Reset_ErrInvalidPassword) e))
      | None \<Rightarrow>
     (case HashToken sha rawToken of
        Inl _ \<Rightarrow> ret_event (pm_securityEvents mgr) ''password_reset_failed'' [] sourceKey
                   (Inl (EToken Token_ErrInvalidToken))
      | Inr h \<Rightarrow>
          bindM (on_err (EWrap ''hash replacement password'') (pw_Hash (pm_passwords mgr) newPassword)) (\<lambda>encodedHash.
          bindM read_clock (\<lambda>t w.
          (case on_accounts (ps_ResetPassword (pm_store mgr) h encodedHash t) w of
             (Inl e, w1) \<Rightarrow>
               if errors_is e (EReset Reset_ErrNotFound) \<or> errors_is e (EReset Reset_ErrInactiveToken)
               then ret_event (pm_securityEvents mgr) ''password_reset_failed'' [] sourceKey
                      (Inl (EToken Token_ErrInvalidToken)) w1
               else (Inl (EWrap ''reset password'' e), w1)
           | (Inr user, w1) \<Rightarrow>
               if blank (eu_ID user) \<or> \<not> email_Valid mail (eu_Email user)
               then (Inl (EReset Reset_ErrInvalidRecord), w1)
               else ret_event (pm_securityEvents mgr) ''password_reset'' (eu_ID user) sourceKey (Inr user) w1))))))"

end
