(* ===== verification/RecoveryService.thy ===== *)
theory RecoveryService
  imports EmailpasswordService Emailverification Passwordreset
begin

text \<open>
  Email verification and password reset over any store that meets the contract \<open>account_store\<close>: every call
  is safe, and what a call that succeeded has checked, changed and mailed.
\<close>

section \<open>Tokens only become valid by being mailed\<close>

definition tokens_announced ::
  "(string \<Rightarrow> hash) \<Rightarrow> (string \<Rightarrow> string \<Rightarrow> hash) \<Rightarrow> string \<Rightarrow> account_db \<Rightarrow> Message list \<Rightarrow> account_db \<Rightarrow> bool" where
  "tokens_announced sha hmac secret a new b \<longleftrightarrow>
     (\<forall>h. (\<exists>m\<in>set new. announces sha hmac secret m h) \<or>
        (reset_tokens a h = None \<longrightarrow> reset_tokens b h = None) \<and>
        (verification_tokens a h = None \<longrightarrow> verification_tokens b h = None))"

lemma tokens_announced_same:
  "reset_tokens b = reset_tokens a \<Longrightarrow> verification_tokens b = verification_tokens a \<Longrightarrow>
     tokens_announced sha hmac secret a new b"
  by (simp add: tokens_announced_def)

lemma spec_tokens_frame:
  "spec_Register dr reg a = (x1, b) \<Longrightarrow> reset_tokens b = reset_tokens a \<and> verification_tokens b = verification_tokens a"
  "spec_AddPassword i p t a = (x1, b) \<Longrightarrow> reset_tokens b = reset_tokens a \<and> verification_tokens b = verification_tokens a"
  "spec_ReplacePasswordHash i p q t a = (x2, b) \<Longrightarrow>
     reset_tokens b = reset_tokens a \<and> verification_tokens b = verification_tokens a"
  "spec_RemovePassword i p a = (x2, b) \<Longrightarrow> reset_tokens b = reset_tokens a \<and> verification_tokens b = verification_tokens a"
  "spec_CreateChallenge c a = (x2, b) \<Longrightarrow> reset_tokens b = reset_tokens a \<and> verification_tokens b = verification_tokens a"
  "spec_ConsumeChallenge h t a = (x4, b) \<Longrightarrow> reset_tokens b = reset_tokens a \<and> verification_tokens b = verification_tokens a"
  "spec_ResolveIdentity dr ir a = (x5, b) \<Longrightarrow> reset_tokens b = reset_tokens a \<and> verification_tokens b = verification_tokens a"
  "spec_UnlinkIdentity i a = (x2, b) \<Longrightarrow> reset_tokens b = reset_tokens a \<and> verification_tokens b = verification_tokens a"
  by (auto simp: spec_Register_def spec_AddPassword_def spec_ReplacePasswordHash_def spec_RemovePassword_def
      spec_CreateChallenge_def spec_ConsumeChallenge_def spec_ResolveIdentity_def spec_UnlinkIdentity_def
      set_password_def insert_user_def link_google_def
      split: option.splits sum.splits if_splits)

lemma issue_rel_tokens:
  "issue_rel ow c r (recs, toks) (Inr ()) (recs', toks') \<Longrightarrow> toks h = None \<Longrightarrow> h \<noteq> ot_TokenHash r \<Longrightarrow> toks' h = None"
  by (auto simp: issue_rel_def drop_token_def split: option.splits if_splits)

lemma tokens_announced_issue:
  "spec_IssueReset ow r a (Inr ()) b \<Longrightarrow> announces sha hmac secret m (ot_TokenHash r) \<Longrightarrow>
     tokens_announced sha hmac secret a [m] b"
  "spec_IssueVerification ow r a (Inr ()) b \<Longrightarrow> announces sha hmac secret m (ot_TokenHash r) \<Longrightarrow>
     tokens_announced sha hmac secret a [m] b"
  by (auto simp: tokens_announced_def spec_IssueReset_def spec_IssueVerification_def dest: issue_rel_tokens)

lemma tokens_announced_use:
  "spec_Verify lossy h t a x3 b \<Longrightarrow> tokens_announced sha hmac secret a [] b"
  "spec_ResetPassword lossy h p t a x1 b \<Longrightarrow> tokens_announced sha hmac secret a [] b"
  by (auto simp: tokens_announced_def spec_Verify_def verify_fun_def spec_ResetPassword_def reset_fun_def
      set_password_def split: option.splits if_splits)

lemma tokens_announced_trans:
  assumes "tokens_announced sha hmac secret a m b" and "tokens_announced sha hmac secret b n c"
  shows "tokens_announced sha hmac secret a (m @ n) c"
  unfolding tokens_announced_def
proof
  fix h
  show "(\<exists>x\<in>set (m @ n). announces sha hmac secret x h) \<or>
      (reset_tokens a h = None \<longrightarrow> reset_tokens c h = None) \<and>
      (verification_tokens a h = None \<longrightarrow> verification_tokens c h = None)"
    using assms [unfolded tokens_announced_def, THEN spec [of _ h]] by auto
qed

lemma account_relation_tokens: "account_relation sha hmac secret (tokens_announced sha hmac secret)"
proof -
  note frame = tokens_announced_same [of _ _ sha hmac secret "[]"]
  show ?thesis
    unfolding account_relation_def
    by (intro conjI allI impI; (elim conjE)?;
        (erule tokens_announced_use | erule (1) tokens_announced_issue | erule (1) tokens_announced_trans
          | (rule frame; auto dest: spec_tokens_frame)))
qed


section \<open>Framed readings\<close>

lemma framed_Generate [intro!]: "framed (Generate sha)"
  by (simp add: framed_def Generate_def rand_read_def tape_def)

lemma framed_rand_read [intro!]: "framed (rand_read n)"
  by (simp add: framed_def rand_read_def)

lemma framed_generateOTP [intro!]: "framed generateOTP"
  unfolding generateOTP_def rand_Int_def by (intro framed_bindM framed_rand_read framed_retM)

lemma framed_generateCredential [intro!]: "framed (generateCredential sha hmac mgr e)"
  unfolding generateCredential_def by (auto split: prod.split)

lemma framed_ver_checkAttempt [intro!]: "framed (ver_checkAttempt mgr y e k)"
  by (auto simp: ver_checkAttempt_def)

lemma framed_reset_checkAttempt [intro!]: "framed (reset_checkAttempt mgr y e k)"
  by (auto simp: reset_checkAttempt_def)

section \<open>Credentials\<close>

lemma decimal_length: "n < 10 ^ Suc k \<Longrightarrow> length (decimal n) \<le> Suc k"
proof (induction k arbitrary: n)
  case (Suc k)
  show ?case
  proof (cases "n < 10")
    case False
    then have "decimal n = decimal (n div 10) @ [char_of (48 + n mod 10)]" by (subst decimal.simps) simp
    moreover have "n div 10 < 10 ^ Suc k" using Suc.prems by (simp add: less_mult_imp_div_less)
    ultimately show ?thesis using Suc.IH by simp
  qed (subst decimal.simps, simp)
qed (subst decimal.simps, simp)

lemma decimal_digits: "list_all (\<lambda>c. 48 \<le> (of_char c :: nat) \<and> (of_char c :: nat) \<le> 57) (decimal n)"
proof (induction n rule: decimal.induct)
  case (1 n)
  have "n mod 10 < 10" by simp
  then have "list_all (\<lambda>c. 48 \<le> (of_char c :: nat) \<and> (of_char c :: nat) \<le> 57) [char_of (48 + n mod 10)]"
    by (simp add: of_char_of)
  then show ?case using 1 by (subst decimal.simps) (auto simp: of_char_of)
qed

lemma generateOTP_valid:
  assumes "generateOTP w = (Inr code, w1)" shows "validOTP code"
proof -
  obtain n w2 where r: "rand_Int (10 ^ otpDigits) w = (Inr n, w2)"
    and c: "code = replicate (otpDigits - length (decimal n)) CHR ''0'' @ decimal n"
    using assms unfolding generateOTP_def by (elim bindM_InrE) simp
  have n: "n < 10 ^ otpDigits" using r unfolding rand_Int_def by (elim bindM_InrE) auto
  have "length (decimal n) \<le> otpDigits" using n decimal_length [of n 5] by (simp add: otpDigits_def)
  then show ?thesis
    using decimal_digits [of n] unfolding validOTP_def c
    by (auto simp: list_all_iff)
qed

text \<open>A generated credential is accepted by \<^verbatim>\<open>hashVerificationInput\<close>, and its message announces its hash.\<close>

lemma generateCredential_Inr:
  assumes "generateCredential sha hmac mgr e w = (Inr ((raw, code), h), w1)" and "e \<noteq> []"
  shows "hashVerificationInput sha hmac mgr raw code e = Inr h"
    and "ms_Token m = raw \<Longrightarrow> ms_Code m = code \<Longrightarrow> ms_Email m = e \<Longrightarrow>
      announces sha hmac (vm_otpSecret mgr) m h"
proof -
  have "hashVerificationInput sha hmac mgr raw code e = Inr h \<and>
      (ms_Token m = raw \<longrightarrow> ms_Code m = code \<longrightarrow> ms_Email m = e \<longrightarrow> announces sha hmac (vm_otpSecret mgr) m h)" for m
  proof (cases "vm_delivery mgr = DeliveryMethodOTP")
    case True
    then show ?thesis
      using assms generateOTP_valid
      by (auto simp: generateCredential_def hashVerificationInput_def announces_def hashOTP_def elim!: bindM_InrE)
  next
    case False
    then have "fst (Generate sha w) = Inr (raw, h)"
      using assms(1) by (auto simp: generateCredential_def elim!: bindM_InrE)
    then show ?thesis
      using False Generate_hash by (auto simp: hashVerificationInput_def announces_def)
  qed
  then show "hashVerificationInput sha hmac mgr raw code e = Inr h"
    and "ms_Token m = raw \<Longrightarrow> ms_Code m = code \<Longrightarrow> ms_Email m = e \<Longrightarrow>
      announces sha hmac (vm_otpSecret mgr) m h" by blast+
qed


section \<open>Every call is safe\<close>

lemma issue_Inl_same:
  "spec_IssueVerification ow r a (Inl e) b \<Longrightarrow> b = a" "spec_IssueReset ow r a (Inl e) b \<Longrightarrow> b = a"
  by (auto simp: spec_IssueVerification_def spec_IssueReset_def issue_rel_def split: option.splits if_splits)


text \<open>
  What asking for a token does: nothing to the accounts and no message, or one token is issued and mailed.
  \<open>P\<close> says which message carries the token of which record.
\<close>

definition issues ::
  "('s \<Rightarrow> account_db) \<Rightarrow> ('s \<Rightarrow> bool) \<Rightarrow> (OneTimeRecord \<Rightarrow> account_db \<Rightarrow> (err + unit) \<Rightarrow> account_db \<Rightarrow> bool) \<Rightarrow>
     (OneTimeRecord \<Rightarrow> Message \<Rightarrow> bool) \<Rightarrow> 's account_world \<Rightarrow> 's account_world \<Rightarrow> bool" where
  "issues view ok spec P w v \<longleftrightarrow> tape v = tape w \<and>
     (aw_mail v = aw_mail w \<and> (ok (aw_store w) \<longrightarrow> ok (aw_store v) \<and> view (aw_store v) = view (aw_store w)) \<or>
      (\<exists>m r. aw_mail v = aw_mail w @ [m] \<and> P r m \<and>
         (ok (aw_store w) \<longrightarrow> ok (aw_store v) \<and> spec r (view (aw_store w)) (Inr ()) (view (aw_store v)))))"

definition still :: "('s \<Rightarrow> account_db) \<Rightarrow> ('s \<Rightarrow> bool) \<Rightarrow> 's account_world \<Rightarrow> 's account_world \<Rightarrow> bool" where
  "still view ok w v \<longleftrightarrow> tape v = tape w \<and> aw_mail v = aw_mail w \<and>
     (ok (aw_store w) \<longrightarrow> ok (aw_store v) \<and> view (aw_store v) = view (aw_store w))"

lemma still_refl [simp]: "still view ok w w"
  by (simp add: still_def)

lemma still_trans: "still view ok u v \<Longrightarrow> still view ok v w \<Longrightarrow> still view ok u w"
  by (simp add: still_def)

lemma still_framed: "framed m \<Longrightarrow> m w = (x, w1) \<Longrightarrow> still view ok w w1"
  using framedD [of m w x w1] by (simp add: still_def)

lemma still_event [simp]: "still view ok w (record_event s y i k v) = still view ok w v"
  by (simp add: still_def)

lemma issues_still: "still view ok w v \<Longrightarrow> issues view ok spec P w v"
  by (simp add: issues_def still_def)

lemma still_issues: "still view ok u v \<Longrightarrow> issues view ok spec P v w \<Longrightarrow> issues view ok spec P u w"
  unfolding issues_def still_def by auto

lemma issues_event [simp]: "issues view ok spec P w (record_event s y i k v) = issues view ok spec P w v"
  by (simp add: issues_def)

text \<open>A store call that failed without an effect, and one that issued a token that is mailed next.\<close>

lemma still_failed:
  assumes "implements view ok op spec" and "\<And>a e b. spec a (Inl e) b \<Longrightarrow> b = a"
    and "on_accounts op w = (Inl e, w1)"
  shows "still view ok w w1"
  unfolding still_def
proof (intro conjI impI)
  have s: "fst (op (aw_store w)) = Inl e" "snd (op (aw_store w)) = aw_store w1" "tape w1 = tape w" "aw_mail w1 = aw_mail w"
    using assms(3) by (auto simp: on_accounts_def)
  show "tape w1 = tape w" "aw_mail w1 = aw_mail w" by (fact s)+
  assume o: "ok (aw_store w)"
  show "ok (aw_store w1)" using implements_inv [OF assms(1) o] s by simp
  from assms(1) o show "view (aw_store w1) = view (aw_store w)"
    by (cases rule: implements_cases) (use s assms(2) in auto)
qed

lemma still_lookup:
  assumes "implements view ok op (fun_spec (\<lambda>a. (f a, a)))" and "on_accounts op w = (x, w1)"
  shows "still view ok w w1"
  unfolding still_def
proof (intro conjI impI)
  have s: "snd (op (aw_store w)) = aw_store w1" "tape w1 = tape w" "aw_mail w1 = aw_mail w"
    using assms(2) by (auto simp: on_accounts_def)
  show "tape w1 = tape w" "aw_mail w1 = aw_mail w" by (fact s)+
  assume o: "ok (aw_store w)"
  show "ok (aw_store w1)" using implements_inv [OF assms(1) o] s by simp
  from assms(1) o show "view (aw_store w1) = view (aw_store w)"
    by (cases rule: implements_cases) (use s in \<open>auto simp: fun_spec_def\<close>)
qed

lemma issues_send:
  assumes "implements view ok op (spec r)" and "on_accounts op w = (Inr (), w1)" and "P r m"
  shows "issues view ok spec P w (snd (send_message f m w1))"
  unfolding issues_def
proof (intro conjI disjI2 exI impI)
  have s: "fst (op (aw_store w)) = Inr ()" "snd (op (aw_store w)) = aw_store w1" "tape w1 = tape w" "aw_mail w1 = aw_mail w"
    using assms(2) by (auto simp: on_accounts_def)
  show "tape (snd (send_message f m w1)) = tape w" using s by simp
  show "aw_mail (snd (send_message f m w1)) = aw_mail w @ [m]" using s by (simp add: send_message_def)
  show "P r m" by fact
  assume o: "ok (aw_store w)"
  show "ok (aw_store (snd (send_message f m w1)))" using implements_inv [OF assms(1) o] s by simp
  show "spec r (view (aw_store w)) (Inr ()) (view (aw_store (snd (send_message f m w1))))"
    using implements_Inr [OF assms(1) o s(1)] s(2) by simp
qed

lemma account_safe_still: "account_relation sha hmac secret R \<Longrightarrow> still view ok w v \<Longrightarrow> account_safe view ok R w v"
  by (simp add: account_safe_def still_def account_relationD(1))

lemma account_safe_issues:
  assumes "account_relation sha hmac secret R" and "issues view ok spec P w v"
    and "\<And>a r m b. spec r a (Inr ()) b \<Longrightarrow> P r m \<Longrightarrow> R a [m] b"
  shows "account_safe view ok R w v"
  using assms(2) unfolding issues_def
proof (elim conjE disjE exE)
  fix m r
  assume a: "tape v = tape w" "aw_mail v = aw_mail w @ [m]" "P r m"
    "ok (aw_store w) \<longrightarrow> ok (aw_store v) \<and> spec r (view (aw_store w)) (Inr ()) (view (aw_store v))"
  then have "ok (aw_store w) \<longrightarrow> ok (aw_store v) \<and> R (view (aw_store w)) [m] (view (aw_store v))"
    using assms(3) by blast
  then show ?thesis using a unfolding account_safe_def by blast
qed (simp add: account_safe_def account_relationD(1) [OF assms(1)])

definition ver_service :: "'s VerificationStore \<Rightarrow> 's VerificationManager \<Rightarrow> bool" where
  "ver_service vs mgr \<longleftrightarrow> vm_store mgr = vs"

definition reset_service :: "'s ResetStore \<Rightarrow> 's ResetManager \<Rightarrow> bool" where
  "reset_service ps mgr \<longleftrightarrow> pm_store mgr = ps \<and> only_reads (pm_passwords mgr)"

text \<open>The message that carries the verification token of a record.\<close>

definition ver_mail ::
  "(string \<Rightarrow> hash) \<Rightarrow> (string \<Rightarrow> string \<Rightarrow> hash) \<Rightarrow> 's VerificationManager \<Rightarrow> VerifiedUser \<Rightarrow> OneTimeRecord \<Rightarrow>
     Message \<Rightarrow> bool" where
  "ver_mail sha hmac mgr user r m \<longleftrightarrow>
     ot_UserID r = vu_ID user \<and> ot_Email r = vu_Email user \<and>
     ot_ExpiresAt r = ot_CreatedAt r + vm_lifetime mgr \<and>
     ms_UserID m = vu_ID user \<and> ms_Email m = vu_Email user \<and> ms_ExpiresAt m = ot_ExpiresAt r \<and>
     hashVerificationInput sha hmac mgr (ms_Token m) (ms_Code m) (vu_Email user) = Inr (ot_TokenHash r) \<and>
     announces sha hmac (vm_otpSecret mgr) m (ot_TokenHash r)"

text \<open>The address of a reset request, and the message that carries the reset token of a record.\<close>

definition reset_address :: "mail_library \<Rightarrow> 's ResetManager \<Rightarrow> string \<Rightarrow> string" where
  "reset_address mail mgr email =
     (case pm_normalizeEmail mgr email of Inl _ \<Rightarrow> [] | Inr n \<Rightarrow> if \<not> email_Valid mail n then [] else n)"

definition reset_mail ::
  "(string \<Rightarrow> hash) \<Rightarrow> 's ResetManager \<Rightarrow> EmailUser \<Rightarrow> OneTimeRecord \<Rightarrow> Message \<Rightarrow> bool" where
  "reset_mail sha mgr user r m \<longleftrightarrow>
     ot_UserID r = eu_ID user \<and> ot_Email r = eu_Email user \<and>
     ot_ExpiresAt r = ot_CreatedAt r + pm_lifetime mgr \<and>
     ms_UserID m = eu_ID user \<and> ms_Email m = eu_Email user \<and> ms_ExpiresAt m = ot_ExpiresAt r \<and>
     HashToken sha (ms_Token m) = Inr (ot_TokenHash r)"

context account_store
begin

lemma ver_request_loop_issues:
  assumes st: "ver_service vs mgr" and e: "e \<noteq> []" "vu_Email user = e"
  shows "issues view ok (spec_IssueVerification overwrites) (ver_mail sha hmac mgr user) w
    (snd (ver_request_loop n sha hmac mgr e user k w))"
proof (induction n arbitrary: w)
  case 0
  then show ?case by (simp add: issues_still)
next
  case (Suc n)
  have vs: "vm_store mgr = vs" using st by (simp add: ver_service_def)
  obtain x w1 where g: "generateCredential sha hmac mgr e w = (x, w1)" by fastforce
  note g1 = still_framed [OF framed_generateCredential g, of view ok]
  show ?case
  proof (cases x)
    case (Inl d)
    then show ?thesis using g g1 by (simp add: issues_still)
  next
    case (Inr c)
    obtain raw code h where c: "x = Inr ((raw, code), h)" using Inr by (metis surj_pair)
    obtain t w2 where n: "now w1 = (t, w2)" by fastforce
    have s12: "still view ok w w2" using still_trans [OF g1, of w2] n by (auto simp: now_def still_def)
    let ?r = "\<lparr>ot_UserID = vu_ID user, ot_Email = vu_Email user, ot_TokenHash = h, ot_CreatedAt = t,
      ot_ExpiresAt = t + vm_lifetime mgr\<rparr>"
    obtain y w3 where i: "on_accounts (vs_Issue vs ?r) w2 = (y, w3)" by fastforce
    show ?thesis
    proof (cases y)
      case (Inl d)
      have "still view ok w2 w3"
        by (rule still_failed [OF IssueVerification _ i [unfolded Inl]]) (rule issue_Inl_same(1))
      note s3 = still_trans [OF s12 this]
      then show ?thesis
        using g c n i Inl vs still_issues [OF s3 Suc.IH] by (simp add: issues_still)
    next
      case (Inr u)
      let ?m = "\<lparr>ms_UserID = vu_ID user, ms_Email = vu_Email user, ms_Token = raw, ms_Code = code,
        ms_ExpiresAt = ot_ExpiresAt ?r\<rparr>"
      have "ver_mail sha hmac mgr user ?r ?m"
        using generateCredential_Inr [OF g [unfolded c] e(1)] e(2) by (simp add: ver_mail_def)
      then have "issues view ok (spec_IssueVerification overwrites) (ver_mail sha hmac mgr user) w2
          (snd (send_message (vm_sender mgr) ?m w3))"
        using i Inr by (intro issues_send [OF IssueVerification]) auto
      from still_issues [OF s12 this] show ?thesis
        using g c n i Inr vs
        by (auto simp: bindM_def on_err_def Let_def split: prod.split sum.split)
    qed
  qed
qed


lemma FindVerified_still: "on_accounts (vs_FindUserByEmail vs e) w = (x, w1) \<Longrightarrow> still view ok w w1"
  by (rule still_lookup [OF FindVerified [unfolded spec_FindVerified_def]])

lemma FindReset_still: "on_accounts (ps_FindUserByEmail ps e) w = (x, w1) \<Longrightarrow> still view ok w w1"
  by (rule still_lookup [OF FindReset [unfolded spec_FindReset_def]])

text \<open>
  A request changes nothing, or it issues and mails one token to the unverified user with the requested
  address.
\<close>

lemma Request_issues:
  assumes st: "ver_service vs mgr" and run: "ver_Request mail sha hmac mgr email k w = (x, w1)"
  obtains (still) "still view ok w w1"
  | (issued) user where "vu_Email user = ver_address mail mgr email" "ver_address mail mgr email \<noteq> []"
      "\<not> vu_Verified user" "\<not> blank (vu_ID user)"
      "ok (aw_store w) \<Longrightarrow> \<exists>u. emails (view (aw_store w)) (vu_Email user) = Some (vu_ID user) \<and>
         users (view (aw_store w)) (vu_ID user) = Some u \<and> ud_Email u = vu_Email user \<and> \<not> ud_EmailVerified u"
      "issues view ok (spec_IssueVerification overwrites) (ver_mail sha hmac mgr user) w w1"
proof -
  let ?e = "ver_address mail mgr email"
  have vs: "vm_store mgr = vs" using st by (simp add: ver_service_def)
  obtain y wa where a: "ver_checkAttempt mgr ''request'' ?e k w = (y, wa)" by fastforce
  note sa = still_framed [OF framed_ver_checkAttempt a, of view ok]
  obtain z wb where f: "on_accounts (vs_FindUserByEmail vs ?e) wa = (z, wb)" by fastforce
  note sb = still_trans [OF sa FindVerified_still [OF f]]
  show ?thesis
  proof (cases "\<exists>user. y = Inr () \<and> ?e \<noteq> [] \<and> z = Inr user \<and> ver_validUser mail user ?e \<and> \<not> vu_Verified user")
    case False
    then have "w1 = wa \<or> w1 = wb"
      using run a f vs
      by (auto simp: ver_Request_def bindM_def Let_def split: prod.splits sum.splits if_splits)
    then show ?thesis using sa sb still by blast
  next
    case True
    then obtain user where u: "y = Inr ()" "?e \<noteq> []" "z = Inr user" "ver_validUser mail user ?e" "\<not> vu_Verified user"
      by blast
    have ue: "vu_Email user = ?e" "\<not> blank (vu_ID user)" using u(4) by (auto simp: ver_validUser_def)
    have w1: "w1 = snd (ver_request_loop ver_issueAttempts sha hmac mgr ?e user k wb)"
      using run a f vs u by (simp add: ver_Request_def bindM_def Let_def)
    have look: "\<exists>ud. emails (view (aw_store w)) (vu_Email user) = Some (vu_ID user) \<and>
        users (view (aw_store w)) (vu_ID user) = Some ud \<and> ud_Email ud = vu_Email user \<and> \<not> ud_EmailVerified ud"
      if o: "ok (aw_store w)"
    proof -
      have "ok (aw_store wa)" "view (aw_store wa) = view (aw_store w)" using sa o by (simp_all add: still_def)
      with op_Inr(1) [OF FindVerified _ f [unfolded u(3)]] u(5) ue show ?thesis
        by (auto simp: spec_FindVerified_def split: option.splits)
    qed
    show ?thesis
      by (rule issued [OF ue(1) u(2,5) ue(2) look])
        (use still_issues [OF sb ver_request_loop_issues [OF st u(2) ue(1)]] w1 in auto)
  qed
qed

lemma Request_safe:
  assumes rel: "account_relation sha hmac (vm_otpSecret mgr) R" and st: "ver_service vs mgr"
  shows "account_safe view ok R w (snd (ver_Request mail sha hmac mgr email k w))"
proof -
  obtain x w1 where r: "ver_Request mail sha hmac mgr email k w = (x, w1)" by fastforce
  from st r show ?thesis
  proof (cases rule: Request_issues)
    case still
    then show ?thesis using account_safe_still [OF rel] r by simp
  next
    case (issued user)
    show ?thesis
      using account_safe_issues [OF rel issued(6)] account_relationD(7) [OF rel] r by (auto simp: ver_mail_def)
  qed
qed

text \<open>Verification.\<close>

lemma Verify_Inr:
  assumes st: "ver_service vs mgr" and o: "ok (aw_store w)"
    and run: "ver_Verify mail sha hmac mgr raw email code k w = (Inr user, w1)"
  obtains h n where "hashVerificationInput sha hmac mgr raw code
      (if vm_delivery mgr = DeliveryMethodOTP then ver_address mail mgr email else []) = Inr h"
    "verify_fun h (clock w n) (view (aw_store w)) = (Inr user, view (aw_store w1))" "ok (aw_store w1)"
    "aw_mail w1 = aw_mail w" "tape w1 = tape w"
proof -
  let ?e = "if vm_delivery mgr = DeliveryMethodOTP then ver_address mail mgr email else []"
  have vs: "vm_store mgr = vs" using st by (simp add: ver_service_def)
  from run obtain wa where a: "ver_checkAttempt mgr ''verify'' ?e k w = (Inr (), wa)"
    unfolding ver_Verify_def by (auto simp: Let_def elim!: bindM_InrE)
  from run a obtain h where h: "hashVerificationInput sha hmac mgr raw code ?e = Inr h"
    unfolding ver_Verify_def by (auto simp: bindM_def Let_def ret_event_eq split: sum.splits)
  let ?t = "clock wa (pos wa)" and ?wb = "wa\<lparr>pos := Suc (pos wa)\<rparr>"
  from run a h obtain wc where v: "on_accounts (vs_Verify vs h ?t) ?wb = (Inr user, wc)"
    and w1: "aw_store w1 = aw_store wc" "aw_mail w1 = aw_mail wc" "tape w1 = tape wc"
    unfolding ver_Verify_def
    by (auto simp: bindM_def Let_def vs read_clock_def now_def ret_event_eq split: sum.splits prod.splits if_splits)
  have sa: "still view ok w wa" by (rule still_framed [OF framed_ver_checkAttempt a])
  then have wa: "ok (aw_store wa)" "view (aw_store wa) = view (aw_store w)" "clock wa = clock w"
    "aw_mail wa = aw_mail w" "tape wa = tape w"
    using o by (auto simp: still_def tape_def)
  have s: "fst (vs_Verify vs h ?t (aw_store wa)) = Inr user" "snd (vs_Verify vs h ?t (aw_store wa)) = aw_store wc"
    "aw_mail wc = aw_mail wa" "tape wc = tape wa"
    using v by (auto simp: on_accounts_def)
  have "verify_fun h ?t (view (aw_store w)) = (Inr user, view (aw_store w1))"
    using implements_Inr [OF Verify wa(1) s(1)] s(2) wa w1 by (simp add: spec_Verify_def)
  moreover have "ok (aw_store w1)" using implements_inv [OF Verify wa(1), of h ?t] s(2) w1 by simp
  ultimately show ?thesis using that [OF h, of "pos wa"] wa w1 s by simp
qed


lemma Verify_safe:
  assumes rel: "account_relation sha hmac secret R" and st: "ver_service vs mgr"
  shows "account_safe view ok R w (snd (ver_Verify mail sha hmac mgr raw email code k w))"
proof -
  have vs: "vm_store mgr = vs" using st by (simp add: ver_service_def)
  have op: "account_safe view ok R v (snd (on_accounts (vs_Verify vs h t) v))" for h t v
    by (rule account_safe_op [OF rel Verify]) (rule account_relationD(9) [OF rel])
  have last: "account_safe view ok R v (snd (case on_accounts (vs_Verify vs h t) v of
             (Inl e, w1) \<Rightarrow>
               if errors_is e (EVerification Verification_ErrNotFound) \<or>
                  errors_is e (EVerification Verification_ErrInactiveToken)
               then ret_event (vm_securityEvents mgr) ''email_verification_failed'' [] k
                      (Inl (EToken Token_ErrInvalidToken)) w1
               else (Inl (EWrap ''verify email'' e), w1)
           | (Inr user, w1) \<Rightarrow>
               if blank (vu_ID user) \<or> \<not> email_Valid mail (vu_Email user) \<or> \<not> vu_Verified user
               then (Inl (EVerification Verification_ErrInvalidRecord), w1)
               else ret_event (vm_securityEvents mgr) ''email_verified'' (vu_ID user) k (Inr user) w1))" for v h t
    using op [of v h t] by (auto split: prod.split sum.split)
  show ?thesis
    unfolding ver_Verify_def Let_def vs
    by (auto split: sum.split intro!: account_safe_bindM [OF rel] account_safe_framed [OF rel framed_ver_checkAttempt]
        account_safe_framed [OF rel framed_read_clock] account_safe_framed [OF rel framed_ret_event] last
        account_safe_refl [OF rel])
qed

section \<open>Password reset\<close>

lemma reset_request_loop_issues:
  assumes st: "reset_service ps mgr"
  shows "issues view ok (spec_IssueReset overwrites) (reset_mail sha mgr user) w
    (snd (reset_request_loop n sha mgr user k w))"
proof (induction n arbitrary: w)
  case 0
  then show ?case by (simp add: issues_still)
next
  case (Suc n)
  have ps: "pm_store mgr = ps" using st by (simp add: reset_service_def)
  obtain x w1 where g: "Generate sha w = (x, w1)" by fastforce
  note g1 = still_framed [OF framed_Generate g, of view ok]
  show ?case
  proof (cases x)
    case (Inl d)
    then show ?thesis using g g1 by (simp add: issues_still)
  next
    case (Inr c)
    obtain raw h where c: "x = Inr (raw, h)" using Inr by (metis surj_pair)
    obtain t w2 where n: "now w1 = (t, w2)" by fastforce
    have s12: "still view ok w w2" using still_trans [OF g1, of w2] n by (auto simp: now_def still_def)
    let ?r = "\<lparr>ot_UserID = eu_ID user, ot_Email = eu_Email user, ot_TokenHash = h, ot_CreatedAt = t,
      ot_ExpiresAt = t + pm_lifetime mgr\<rparr>"
    obtain y w3 where i: "on_accounts (ps_Issue ps ?r) w2 = (y, w3)" by fastforce
    show ?thesis
    proof (cases y)
      case (Inl d)
      have "still view ok w2 w3"
        by (rule still_failed [OF IssueReset _ i [unfolded Inl]]) (rule issue_Inl_same(2))
      note s3 = still_trans [OF s12 this]
      then show ?thesis
        using g c n i Inl ps still_issues [OF s3 Suc.IH] by (simp add: issues_still)
    next
      case (Inr u)
      let ?m = "\<lparr>ms_UserID = eu_ID user, ms_Email = eu_Email user, ms_Token = raw, ms_Code = [],
        ms_ExpiresAt = ot_ExpiresAt ?r\<rparr>"
      have "reset_mail sha mgr user ?r ?m"
        using Generate_hash [of sha w raw h] g c by (simp add: reset_mail_def)
      then have "issues view ok (spec_IssueReset overwrites) (reset_mail sha mgr user) w2
          (snd (send_message (pm_sender mgr) ?m w3))"
        using i Inr by (intro issues_send [OF IssueReset]) auto
      from still_issues [OF s12 this] show ?thesis
        using g c n i Inr ps
        by (auto simp: bindM_def on_err_def Let_def split: prod.split sum.split)
    qed
  qed
qed

lemma ResetRequest_issues:
  assumes st: "reset_service ps mgr" and run: "reset_Request mail sha mgr email k w = (x, w1)"
  obtains (still) "still view ok w w1"
  | (issued) user where "eu_Email user = reset_address mail mgr email" "reset_address mail mgr email \<noteq> []"
      "\<not> blank (eu_ID user)"
      "ok (aw_store w) \<Longrightarrow> \<exists>u. emails (view (aw_store w)) (eu_Email user) = Some (eu_ID user) \<and>
         users (view (aw_store w)) (eu_ID user) = Some u \<and> ud_Email u = eu_Email user"
      "issues view ok (spec_IssueReset overwrites) (reset_mail sha mgr user) w w1"
proof -
  let ?e = "reset_address mail mgr email"
  have ps: "pm_store mgr = ps" using st by (simp add: reset_service_def)
  obtain y wa where a: "reset_checkAttempt mgr ''request'' ?e k w = (y, wa)" by fastforce
  note sa = still_framed [OF framed_reset_checkAttempt a, of view ok]
  obtain z wb where f: "on_accounts (ps_FindUserByEmail ps ?e) wa = (z, wb)" by fastforce
  note sb = still_trans [OF sa FindReset_still [OF f]]
  note unf = reset_Request_def [folded reset_address_def]
  show ?thesis
  proof (cases "\<exists>user. y = Inr () \<and> ?e \<noteq> [] \<and> z = Inr user \<and> reset_validUser mail user ?e")
    case False
    then have "w1 = wa \<or> w1 = wb"
      using run a f ps
      by (auto simp: unf bindM_def Let_def split: prod.splits sum.splits if_splits)
    then show ?thesis using sa sb still by blast
  next
    case True
    then obtain user where u: "y = Inr ()" "?e \<noteq> []" "z = Inr user" "reset_validUser mail user ?e"
      by blast
    have ue: "eu_Email user = ?e" "\<not> blank (eu_ID user)" using u(4) by (auto simp: reset_validUser_def)
    have w1: "w1 = snd (reset_request_loop reset_issueAttempts sha mgr user k wb)"
      using run a f ps u by (simp add: unf bindM_def Let_def)
    have look: "\<exists>ud. emails (view (aw_store w)) (eu_Email user) = Some (eu_ID user) \<and>
        users (view (aw_store w)) (eu_ID user) = Some ud \<and> ud_Email ud = eu_Email user"
      if o: "ok (aw_store w)"
    proof -
      have "ok (aw_store wa)" "view (aw_store wa) = view (aw_store w)" using sa o by (simp_all add: still_def)
      with op_Inr(1) [OF FindReset _ f [unfolded u(3)]] ue show ?thesis
        by (auto simp: spec_FindReset_def split: option.splits)
    qed
    show ?thesis
      by (rule issued [OF ue(1) u(2) ue(2) look])
        (use still_issues [OF sb reset_request_loop_issues [OF st]] w1 in auto)
  qed
qed

lemma ResetRequest_safe:
  assumes rel: "account_relation sha hmac secret R" and st: "reset_service ps mgr"
  shows "account_safe view ok R w (snd (reset_Request mail sha mgr email k w))"
proof -
  obtain x w1 where r: "reset_Request mail sha mgr email k w = (x, w1)" by fastforce
  from st r show ?thesis
  proof (cases rule: ResetRequest_issues)
    case still
    then show ?thesis using account_safe_still [OF rel] r by simp
  next
    case (issued user)
    show ?thesis
      using account_safe_issues [OF rel issued(5)] account_relationD(8) [OF rel] r
      by (auto simp: reset_mail_def announces_def)
  qed
qed

lemma Reset_safe:
  assumes rel: "account_relation sha hmac secret R" and st: "reset_service ps mgr"
  shows "account_safe view ok R w (snd (reset_Reset mail sha mgr raw new k w))"
proof -
  have ps: "pm_store mgr = ps" and h: "only_reads (pm_passwords mgr)" using st by (simp_all add: reset_service_def)
  have op: "account_safe view ok R v (snd (on_accounts (ps_ResetPassword ps h c t) v))" for h c t v
    by (rule account_safe_op [OF rel ResetPassword]) (rule account_relationD(10) [OF rel])
  have last: "account_safe view ok R v (snd (case on_accounts (ps_ResetPassword ps h c t) v of
             (Inl e, w1) \<Rightarrow>
               if errors_is e (EReset Reset_ErrNotFound) \<or> errors_is e (EReset Reset_ErrInactiveToken)
               then ret_event (pm_securityEvents mgr) ''password_reset_failed'' [] k
                      (Inl (EToken Token_ErrInvalidToken)) w1
               else (Inl (EWrap ''reset password'' e), w1)
           | (Inr user, w1) \<Rightarrow>
               if blank (eu_ID user) \<or> \<not> email_Valid mail (eu_Email user)
               then (Inl (EReset Reset_ErrInvalidRecord), w1)
               else ret_event (pm_securityEvents mgr) ''password_reset'' (eu_ID user) k (Inr user) w1))" for v h c t
    using op [of v h c t] by (auto split: prod.split sum.split)
  show ?thesis
    unfolding reset_Reset_def ps
    by (auto split: sum.split option.split
        intro!: account_safe_bindM [OF rel] account_safe_framed [OF rel framed_reset_checkAttempt]
        account_safe_framed [OF rel framed_Hash] h account_safe_framed [OF rel framed_read_clock]
        account_safe_framed [OF rel framed_ret_event] last account_safe_refl [OF rel])
qed

lemma Reset_Inr:
  assumes st: "reset_service ps mgr" and o: "ok (aw_store w)"
    and run: "reset_Reset mail sha mgr raw new k w = (Inr user, w1)"
  obtains h wh enc wh' n where "HashToken sha raw = Inr h" "tape wh = tape w"
    "pw_Hash (pm_passwords mgr) new wh = (Inr enc, wh')"
    "reset_fun h enc (clock w n) (view (aw_store w)) = (Inr user, view (aw_store w1))" "ok (aw_store w1)"
    "aw_mail w1 = aw_mail w" "tape w1 = tape w"
proof -
  have ps: "pm_store mgr = ps" and rd: "only_reads (pm_passwords mgr)" using st by (simp_all add: reset_service_def)
  from run obtain wa where a: "reset_checkAttempt mgr ''reset'' [] k w = (Inr (), wa)"
    unfolding reset_Reset_def by (auto elim!: bindM_InrE)
  from run a obtain h where h: "HashToken sha raw = Inr h"
    unfolding reset_Reset_def by (auto simp: bindM_def ret_event_eq split: sum.splits if_splits option.splits)
  from run a h obtain enc wb where b: "pw_Hash (pm_passwords mgr) new wa = (Inr enc, wb)"
    unfolding reset_Reset_def
    by (auto simp: bindM_def on_err_def split: sum.splits if_splits option.splits prod.splits)
  let ?t = "clock wb (pos wb)" and ?wc = "wb\<lparr>pos := Suc (pos wb)\<rparr>"
  from run a h b obtain wd where v: "on_accounts (ps_ResetPassword ps h enc ?t) ?wc = (Inr user, wd)"
    and w1: "aw_store w1 = aw_store wd" "aw_mail w1 = aw_mail wd" "tape w1 = tape wd"
    unfolding reset_Reset_def
    by (auto simp: bindM_def on_err_def ps read_clock_def now_def ret_event_eq
        split: sum.splits prod.splits if_splits option.splits)
  have sa: "still view ok w wa" by (rule still_framed [OF framed_reset_checkAttempt a])
  have sb: "still view ok w wb" by (rule still_trans [OF sa still_framed [OF framed_Hash [OF rd] b]])
  then have wb: "ok (aw_store wb)" "view (aw_store wb) = view (aw_store w)" "clock wb = clock w"
    "aw_mail wb = aw_mail w" "tape wb = tape w"
    using o by (auto simp: still_def tape_def)
  have s: "fst (ps_ResetPassword ps h enc ?t (aw_store wb)) = Inr user"
    "snd (ps_ResetPassword ps h enc ?t (aw_store wb)) = aw_store wd" "aw_mail wd = aw_mail wb" "tape wd = tape wb"
    using v by (auto simp: on_accounts_def)
  have "reset_fun h enc ?t (view (aw_store w)) = (Inr user, view (aw_store w1))"
    using implements_Inr [OF ResetPassword wb(1) s(1)] s(2) wb w1 by (simp add: spec_ResetPassword_def)
  moreover have "ok (aw_store w1)" using implements_inv [OF ResetPassword wb(1), of h enc ?t] s(2) w1 by simp
  moreover have "tape wa = tape w" using sa by (simp add: still_def)
  ultimately show ?thesis using that [OF h _ b, of "pos wb"] wb w1 s by simp
qed

text \<open>A call that reports an error has changed nothing, except that a stored user may turn out to be invalid.\<close>

lemma Verify_Inl:
  assumes st: "ver_service vs mgr" and o: "ok (aw_store w)"
    and run: "ver_Verify mail sha hmac mgr raw email code k w = (Inl e, w1)"
    and e: "e \<noteq> EVerification Verification_ErrInvalidRecord"
  shows "view (aw_store w1) = view (aw_store w)"
proof -
  have vs: "vm_store mgr = vs" using st by (simp add: ver_service_def)
  have op: "inert view ok {} (on_accounts (vs_Verify vs h t))" for h t
    unfolding inert_def
  proof (intro allI impI, elim conjE)
    fix v d v1 assume v: "ok (aw_store v)" "on_accounts (vs_Verify vs h t) v = (Inl d, v1)"
    then have s: "fst (vs_Verify vs h t (aw_store v)) = Inl d" "snd (vs_Verify vs h t (aw_store v)) = aw_store v1"
      by (auto simp: on_accounts_def)
    from Verify [of h t] v(1) show "view (aw_store v1) = view (aw_store v)"
      by (cases rule: implements_cases)
        (use s in \<open>auto simp: spec_Verify_def verify_fun_def split: option.splits if_splits\<close>)
  qed
  have last: "inert view ok {EVerification Verification_ErrInvalidRecord} (\<lambda>v. case on_accounts (vs_Verify vs h t) v of
             (Inl e, w1) \<Rightarrow>
               if errors_is e (EVerification Verification_ErrNotFound) \<or>
                  errors_is e (EVerification Verification_ErrInactiveToken)
               then ret_event (vm_securityEvents mgr) ''email_verification_failed'' [] k
                      (Inl (EToken Token_ErrInvalidToken)) w1
               else (Inl (EWrap ''verify email'' e), w1)
           | (Inr user, w1) \<Rightarrow>
               if blank (vu_ID user) \<or> \<not> email_Valid mail (vu_Email user) \<or> \<not> vu_Verified user
               then (Inl (EVerification Verification_ErrInvalidRecord), w1)
               else ret_event (vm_securityEvents mgr) ''email_verified'' (vu_ID user) k (Inr user) w1)" for h t
    using op [of h t] unfolding inert_def
    by (auto simp: ret_event_eq split: prod.splits sum.splits if_splits)
  have f: "inert view ok ex (ret_event s y i k x)" for s y i x ex
    by (rule inert_viewed) blast
  have "inert view ok {EVerification Verification_ErrInvalidRecord} (ver_Verify mail sha hmac mgr raw email code k)"
    unfolding ver_Verify_def Let_def vs
    by (intro inert_bindM viewed_framed framed_ver_checkAttempt)
      (auto split: sum.split intro!: f inert_bindM last)
  then show ?thesis using o run e unfolding inert_def by blast
qed

lemma Reset_Inl:
  assumes st: "reset_service ps mgr" and o: "ok (aw_store w)"
    and run: "reset_Reset mail sha mgr raw new k w = (Inl e, w1)"
    and e: "e \<noteq> EReset Reset_ErrInvalidRecord"
  shows "view (aw_store w1) = view (aw_store w)"
proof -
  have ps: "pm_store mgr = ps" and rd: "only_reads (pm_passwords mgr)" using st by (simp_all add: reset_service_def)
  have op: "inert view ok {} (on_accounts (ps_ResetPassword ps h c t))" for h c t
    unfolding inert_def
  proof (intro allI impI, elim conjE)
    fix v d v1 assume v: "ok (aw_store v)" "on_accounts (ps_ResetPassword ps h c t) v = (Inl d, v1)"
    then have s: "fst (ps_ResetPassword ps h c t (aw_store v)) = Inl d"
      "snd (ps_ResetPassword ps h c t (aw_store v)) = aw_store v1"
      by (auto simp: on_accounts_def)
    from ResetPassword [of h c t] v(1) show "view (aw_store v1) = view (aw_store v)"
      by (cases rule: implements_cases)
        (use s in \<open>auto simp: spec_ResetPassword_def reset_fun_def split: option.splits if_splits\<close>)
  qed
  have last: "inert view ok {EReset Reset_ErrInvalidRecord} (\<lambda>v. case on_accounts (ps_ResetPassword ps h c t) v of
             (Inl e, w1) \<Rightarrow>
               if errors_is e (EReset Reset_ErrNotFound) \<or> errors_is e (EReset Reset_ErrInactiveToken)
               then ret_event (pm_securityEvents mgr) ''password_reset_failed'' [] k
                      (Inl (EToken Token_ErrInvalidToken)) w1
               else (Inl (EWrap ''reset password'' e), w1)
           | (Inr user, w1) \<Rightarrow>
               if blank (eu_ID user) \<or> \<not> email_Valid mail (eu_Email user)
               then (Inl (EReset Reset_ErrInvalidRecord), w1)
               else ret_event (pm_securityEvents mgr) ''password_reset'' (eu_ID user) k (Inr user) w1)" for h c t
    using op [of h c t] unfolding inert_def
    by (auto simp: ret_event_eq split: prod.splits sum.splits if_splits)
  have f: "inert view ok ex (ret_event s y i k x)" for s y i x ex
    by (rule inert_viewed) blast
  have "inert view ok {EReset Reset_ErrInvalidRecord} (reset_Reset mail sha mgr raw new k)"
    unfolding reset_Reset_def ps
    by (intro inert_bindM viewed_framed framed_reset_checkAttempt)
      (auto split: sum.split option.split intro!: f inert_bindM viewed_framed framed_Hash rd last)
  then show ?thesis using o run e unfolding inert_def by blast
qed

text \<open>With no guard, a live token is accepted, unless the store fails.\<close>

lemma Verify_accepts:
  assumes st: "ver_service vs mgr" and o: "ok (aw_store w)" and guard: "vm_attemptGuard mgr = None"
    and h: "hashVerificationInput sha hmac mgr raw code
      (if vm_delivery mgr = DeliveryMethodOTP then ver_address mail mgr email else []) = Inr h"
    and rec: "verification_tokens (view (aw_store w)) h = Some i" "verifications (view (aw_store w)) i = Some r"
      "users (view (aw_store w)) i = Some u" "\<not> ud_EmailVerified u"
    and live: "\<forall>n. clock w n < ot_ExpiresAt r" and user: "\<not> blank i" "email_Valid mail (ud_Email u)"
  shows "fst (ver_Verify mail sha hmac mgr raw email code k w) =
      Inr \<lparr>vu_ID = i, vu_Email = ud_Email u, vu_Verified = True\<rparr> \<or>
    (\<exists>d. is_driver d \<and> fst (ver_Verify mail sha hmac mgr raw email code k w) = Inl (EWrap ''verify email'' d)) \<or>
    lossy \<and> fst (ver_Verify mail sha hmac mgr raw email code k w) = Inl (EToken Token_ErrInvalidToken)"
proof -
  have vs: "vm_store mgr = vs" using st by (simp add: ver_service_def)
  let ?e = "if vm_delivery mgr = DeliveryMethodOTP then ver_address mail mgr email else []"
  have a: "ver_checkAttempt mgr ''verify'' ?e k w = (Inr (), w)"
    by (simp add: ver_checkAttempt_def check_attempt_def guard)
  let ?t = "clock w (pos w)" and ?wb = "w\<lparr>pos := Suc (pos w)\<rparr>"
  obtain x wc where v: "on_accounts (vs_Verify vs h ?t) ?wb = (x, wc)" by fastforce
  have res: "fst (ver_Verify mail sha hmac mgr raw email code k w) = (case x of
      Inl e \<Rightarrow> if errors_is e (EVerification Verification_ErrNotFound) \<or>
          errors_is e (EVerification Verification_ErrInactiveToken)
        then Inl (EToken Token_ErrInvalidToken) else Inl (EWrap ''verify email'' e)
    | Inr user \<Rightarrow> if blank (vu_ID user) \<or> \<not> email_Valid mail (vu_Email user) \<or> \<not> vu_Verified user
        then Inl (EVerification Verification_ErrInvalidRecord) else Inr user)"
    using a h v vs by (simp add: ver_Verify_def Let_def bindM_def read_clock_def now_def split: sum.split)
  have s: "fst (vs_Verify vs h ?t (aw_store w)) = x" using v by (auto simp: on_accounts_def)
  have vf: "fst (verify_fun h ?t (view (aw_store w))) = Inr \<lparr>vu_ID = i, vu_Email = ud_Email u, vu_Verified = True\<rparr>"
    using rec live by (simp add: verify_fun_def)
  from Verify [of h ?t] o show ?thesis
  proof (cases rule: implements_cases)
    case (driver d)
    then show ?thesis using s res by (auto simp: err_simps)
  next
    case spec
    then show ?thesis using s res vf user by (auto simp: spec_Verify_def)
  qed
qed

lemma Reset_accepts:
  assumes st: "reset_service ps mgr" and o: "ok (aw_store w)" and guard: "pm_attemptGuard mgr = None"
    and new: "new \<noteq> []" "pm_validatePassword mgr = None" "pw_Hash (pm_passwords mgr) new w = (Inr enc, wh)"
    and h: "HashToken sha raw = Inr h"
    and rec: "reset_tokens (view (aw_store w)) h = Some i" "resets (view (aw_store w)) i = Some r"
      "users (view (aw_store w)) i = Some u"
    and live: "\<forall>n. clock w n < ot_ExpiresAt r" and user: "\<not> blank i" "email_Valid mail (ud_Email u)"
  shows "fst (reset_Reset mail sha mgr raw new k w) = Inr \<lparr>eu_ID = i, eu_Email = ud_Email u\<rparr> \<or>
    (\<exists>d. is_driver d \<and> fst (reset_Reset mail sha mgr raw new k w) = Inl (EWrap ''reset password'' d)) \<or>
    lossy \<and> fst (reset_Reset mail sha mgr raw new k w) = Inl (EToken Token_ErrInvalidToken)"
proof -
  have ps: "pm_store mgr = ps" and rd: "only_reads (pm_passwords mgr)" using st by (simp_all add: reset_service_def)
  have a: "reset_checkAttempt mgr ''reset'' [] k w = (Inr (), w)"
    by (simp add: reset_checkAttempt_def check_attempt_def guard)
  have sh: "still view ok w wh" by (rule still_framed [OF framed_Hash [OF rd] new(3)])
  let ?t = "clock wh (pos wh)" and ?wb = "wh\<lparr>pos := Suc (pos wh)\<rparr>"
  have t: "clock wh = clock w" using sh by (simp add: still_def tape_def)
  obtain x wc where v: "on_accounts (ps_ResetPassword ps h enc ?t) ?wb = (x, wc)" by fastforce
  have res: "fst (reset_Reset mail sha mgr raw new k w) = (case x of
      Inl e \<Rightarrow> if errors_is e (EReset Reset_ErrNotFound) \<or> errors_is e (EReset Reset_ErrInactiveToken)
        then Inl (EToken Token_ErrInvalidToken) else Inl (EWrap ''reset password'' e)
    | Inr user \<Rightarrow> if blank (eu_ID user) \<or> \<not> email_Valid mail (eu_Email user)
        then Inl (EReset Reset_ErrInvalidRecord) else Inr user)"
    using a h v ps new by (simp add: reset_Reset_def bindM_def on_err_def read_clock_def now_def split: sum.split)
  have s: "fst (ps_ResetPassword ps h enc ?t (aw_store w)) = x"
    using v framedD(1) [OF framed_Hash [OF rd] new(3)] by (auto simp: on_accounts_def)
  have vf: "fst (reset_fun h enc ?t (view (aw_store w))) = Inr \<lparr>eu_ID = i, eu_Email = ud_Email u\<rparr>"
    using rec live t by (simp add: reset_fun_def)
  from ResetPassword [of h enc ?t] o show ?thesis
  proof (cases rule: implements_cases)
    case (driver d)
    then show ?thesis using s res by (auto simp: err_simps)
  next
    case spec
    then show ?thesis using s res vf user rec(1,3) by (auto simp: spec_ResetPassword_def)
  qed
qed

text \<open>With no guard, an address that cannot be recovered gets the same answer as one that can.\<close>

lemma Request_unknown:
  assumes st: "ver_service vs mgr" and o: "ok (aw_store w)" and guard: "vm_attemptGuard mgr = None"
    and no: "\<forall>i u. emails (view (aw_store w)) (ver_address mail mgr email) = Some i \<and>
      users (view (aw_store w)) i = Some u \<longrightarrow>
        ud_EmailVerified u \<and> \<not> blank i \<and> ud_Email u = ver_address mail mgr email"
    and valid: "ver_address mail mgr email \<noteq> [] \<Longrightarrow> email_Valid mail (ver_address mail mgr email)"
  shows "fst (ver_Request mail sha hmac mgr email k w) = Inr () \<or>
    (\<exists>d. is_driver d \<and> fst (ver_Request mail sha hmac mgr email k w) =
       Inl (EWrap ''find user for email verification'' d))"
proof -
  have vs: "vm_store mgr = vs" using st by (simp add: ver_service_def)
  let ?e = "ver_address mail mgr email"
  have a: "ver_checkAttempt mgr ''request'' ?e k w = (Inr (), w)"
    by (simp add: ver_checkAttempt_def check_attempt_def guard)
  obtain z wb where f: "on_accounts (vs_FindUserByEmail vs ?e) w = (z, wb)" by fastforce
  show ?thesis
  proof (cases "?e = []")
    case False
    show ?thesis
    proof (cases z)
      case (Inl d)
      from op_Inl(1) [OF FindVerified o f [unfolded Inl]]
      have "is_driver d \<or> d = EVerification Verification_ErrNotFound"
        by (auto simp: spec_FindVerified_def split: option.splits)
      then show ?thesis
        using a f vs False Inl by (auto simp: ver_Request_def Let_def bindM_def err_simps)
    next
      case (Inr user)
      from op_Inr(1) [OF FindVerified o f [unfolded Inr]]
      have "vu_Verified user" "ver_validUser mail user ?e"
        using no valid [OF False] by (auto simp: spec_FindVerified_def ver_validUser_def split: option.splits)
      then show ?thesis
        using a f vs False Inr by (auto simp: ver_Request_def Let_def bindM_def)
    qed
  qed (use a in \<open>simp add: ver_Request_def bindM_def Let_def\<close>)
qed

lemma ResetRequest_unknown:
  assumes st: "reset_service ps mgr" and o: "ok (aw_store w)" and guard: "pm_attemptGuard mgr = None"
    and no: "emails (view (aw_store w)) (reset_address mail mgr email) = None"
  shows "fst (reset_Request mail sha mgr email k w) = Inr () \<or>
    (\<exists>d. is_driver d \<and> fst (reset_Request mail sha mgr email k w) =
       Inl (EWrap ''find user for password reset'' d))"
proof -
  have ps: "pm_store mgr = ps" using st by (simp add: reset_service_def)
  let ?e = "reset_address mail mgr email"
  note unf = reset_Request_def [folded reset_address_def]
  have a: "reset_checkAttempt mgr ''request'' ?e k w = (Inr (), w)"
    by (simp add: reset_checkAttempt_def check_attempt_def guard)
  obtain z wb where f: "on_accounts (ps_FindUserByEmail ps ?e) w = (z, wb)" by fastforce
  show ?thesis
  proof (cases "?e = []")
    case False
    show ?thesis
    proof (cases z)
      case (Inl d)
      from op_Inl(1) [OF FindReset o f [unfolded Inl]]
      have "is_driver d \<or> d = EReset Reset_ErrNotFound"
        by (auto simp: spec_FindReset_def split: option.splits)
      then show ?thesis
        using a f ps False Inl by (auto simp: unf Let_def bindM_def err_simps)
    next
      case (Inr user)
      from op_Inr(1) [OF FindReset o f [unfolded Inr]] no show ?thesis
        by (auto simp: spec_FindReset_def)
    qed
  qed (use a in \<open>simp add: unf bindM_def Let_def\<close>)
qed

end

end
