(* ===== verification/Gourl.thy ===== *)
theory Gourl
  imports Prelude "HOL-Library.List_Lexorder" "HOL-Library.Char_ord"
begin

text \<open>
  What the sources use of Go's \<^verbatim>\<open>net/url\<close>: \<^verbatim>\<open>Values\<close> with \<^verbatim>\<open>Set\<close> and \<^verbatim>\<open>Encode\<close> are defined here. Parsing a
  URL and its query and printing a URL are the parameter \<open>url_library\<close>, over the fields that the sources
  look at.
\<close>

record url =
  ur_Scheme :: string
  ur_HasUser :: bool
  ur_Host :: string
  ur_Path :: string
  ur_RawQuery :: string
  ur_Fragment :: string

type_synonym url_values = "(string \<times> string list) list"

record url_library =
  ul_Parse :: "string \<Rightarrow> url option"
  ul_Query :: "url \<Rightarrow> url_values"
  ul_String :: "url \<Rightarrow> string"

fun values_Set :: "string \<Rightarrow> string \<Rightarrow> url_values \<Rightarrow> url_values" where
  "values_Set key value [] = [(key, [value])]"
| "values_Set key value ((k, vs) # rest) =
     (if k = key then (k, [value]) # rest else (k, vs) # values_Set key value rest)"

definition values_Get :: "url_values \<Rightarrow> string \<Rightarrow> string" where
  "values_Get v key = (case map_of v key of Some (x # _) \<Rightarrow> x | _ \<Rightarrow> [])"

text \<open>\<^verbatim>\<open>url.QueryEscape\<close>\<close>

definition upperhex :: "nat \<Rightarrow> char" where
  "upperhex n = ''0123456789ABCDEF'' ! (n mod 16)"

definition unreserved :: "char \<Rightarrow> bool" where
  "unreserved c \<longleftrightarrow>
     (let n = of_char c :: nat in 48 \<le> n \<and> n \<le> 57 \<or> 65 \<le> n \<and> n \<le> 90 \<or> 97 \<le> n \<and> n \<le> 122) \<or>
     c \<in> set ''-_.~''"

definition escape_byte :: "char \<Rightarrow> string" where
  "escape_byte c =
     (if unreserved c then [c] else if c = CHR '' '' then ''+''
      else let n = of_char c :: nat in [CHR ''%'', upperhex (n div 16), upperhex n])"

definition QueryEscape :: "string \<Rightarrow> string" where
  "QueryEscape s = concat (map escape_byte s)"

fun join :: "string \<Rightarrow> string list \<Rightarrow> string" where
  "join sep [] = []"
| "join sep [s] = s"
| "join sep (s # t # r) = s @ sep @ join sep (t # r)"

text \<open>\<^verbatim>\<open>Values.Encode\<close>, sorted by key.\<close>

definition values_Encode :: "url_values \<Rightarrow> string" where
  "values_Encode v =
     join ''&'' (concat (map (\<lambda>(k, vs). map (\<lambda>x. QueryEscape k @ ''='' @ QueryEscape x) vs) (sort_key fst v)))"

section \<open>Lemmas\<close>

lemma values_Get_Set [simp]:
  "values_Get (values_Set key value v) k = (if k = key then value else values_Get v k)"
  by (induction v) (auto simp: values_Get_def)

end
