(* ===== verification/Googleoauth.thy ===== *)
theory Googleoauth
  imports AccountWorld Gourl
begin

text \<open>
  The package \<^verbatim>\<open>googleoauth\<close> (src/googleoauth): the Authorization Code flow with state, nonce and PKCE, and
  the removal of a Google identity. The provider that the manager calls reads the world; \<open>google_Exchange\<close>
  models the one of provider.go, whose OpenID Connect and OAuth libraries are the parameter
  \<open>oidc_library\<close>.
\<close>

record Identity =
  id_ProviderSubject :: string
  id_Email :: string
  id_EmailVerified :: bool
  id_Nonce :: string

record ExchangeInput =
  xi_Code :: string
  xi_CodeVerifier :: string
  xi_RedirectURL :: string
  xi_Audience :: string

type_synonym 's Provider = "ExchangeInput \<Rightarrow> 's account_world \<Rightarrow> (err + Identity) \<times> 's account_world"
type_synonym 's IdentityStore = "string \<Rightarrow> time \<Rightarrow> 's \<Rightarrow> (err + unit) \<times> 's"

record 's GoogleConfig =
  gf_ClientID :: string
  gf_AuthorizationURL :: string
  gf_RedirectURL :: string
  gf_StateLifetime :: duration
  gf_Identities :: "'s IdentityStore option"
  gf_SecurityEvents :: bool

record 's GoogleManager =
  gm_store :: "'s GoogleStore"
  gm_identities :: "'s IdentityStore option"
  gm_provider :: "'s Provider"
  gm_clientID :: string
  gm_authorizationURL :: url
  gm_redirectURL :: string
  gm_lifetime :: duration
  gm_securityEvents :: bool

record Started =
  st_AuthorizationURL :: string
  st_State :: string

definition google_config :: "string \<Rightarrow> err" where
  "google_config text = EWrap text (EGoogle Google_ErrInvalidConfig)"

definition google_parseURL :: "url_library \<Rightarrow> string \<Rightarrow> bool \<Rightarrow> err + url" where
  "google_parseURL urls rawURL requireHTTPS =
     (case ul_Parse urls (TrimSpace rawURL) of
        None \<Rightarrow> Inl (EGoogle Google_ErrInvalidConfig)
      | Some parsed \<Rightarrow>
          if ur_Host parsed = [] \<or> ur_HasUser parsed \<or> ur_Fragment parsed \<noteq> []
          then Inl (EGoogle Google_ErrInvalidConfig)
          else if requireHTTPS \<and> ur_Scheme parsed \<noteq> ''https'' then Inl (EGoogle Google_ErrInvalidConfig)
          else if \<not> requireHTTPS \<and> ur_Scheme parsed \<noteq> ''https'' \<and> ur_Scheme parsed \<noteq> ''http''
          then Inl (EGoogle Google_ErrInvalidConfig)
          else Inr parsed)"

text \<open>\<open>asserted\<close> is what the type assertion \<^verbatim>\<open>store.(IdentityStore)\<close> yields.\<close>

definition google_NewManager ::
  "url_library \<Rightarrow> 's GoogleStore option \<Rightarrow> 's IdentityStore option \<Rightarrow> 's Provider option \<Rightarrow> 's GoogleConfig \<Rightarrow>
     err + 's GoogleManager" where
  "google_NewManager urls store asserted provider config =
     (case store of None \<Rightarrow> Inl (google_config ''store is required'')
      | Some st \<Rightarrow>
     (case provider of None \<Rightarrow> Inl (google_config ''provider is required'')
      | Some pr \<Rightarrow>
          let clientID = TrimSpace (gf_ClientID config) in
          if clientID = [] then Inl (google_config ''client ID is required'')
          else
     (case google_parseURL urls (gf_AuthorizationURL config) True of
        Inl _ \<Rightarrow> Inl (google_config ''invalid authorization URL'')
      | Inr authorizationURL \<Rightarrow>
     (case google_parseURL urls (gf_RedirectURL config) False of
        Inl _ \<Rightarrow> Inl (google_config ''invalid redirect URL'')
      | Inr redirectURL \<Rightarrow>
          if gf_StateLifetime config \<le> 0 then Inl (google_config ''state lifetime must be positive'')
          else Inr \<lparr>gm_store = st,
                 gm_identities = (case gf_Identities config of None \<Rightarrow> asserted | Some i \<Rightarrow> Some i),
                 gm_provider = pr, gm_clientID = clientID, gm_authorizationURL = authorizationURL,
                 gm_redirectURL = ul_String urls redirectURL, gm_lifetime = gf_StateLifetime config,
                 gm_securityEvents = gf_SecurityEvents config\<rparr>))))"

section \<open>Operations\<close>

definition google_Unlink ::
  "'s GoogleManager \<Rightarrow> string \<Rightarrow> string \<Rightarrow> 's account_world \<Rightarrow> (err + unit) \<times> 's account_world" where
  "google_Unlink mgr rawSubject sourceKey =
     (case gm_identities mgr of None \<Rightarrow> retM (Inl (google_config ''identity store is required''))
      | Some unlink \<Rightarrow>
          let subjectID = TrimSpace rawSubject in
          if subjectID = [] then retM (Inl (EGoogle Google_ErrInvalidInput))
          else
          bindM read_clock (\<lambda>t.
          bindM (on_err (\<lambda>e. if errors_is e (EGoogle Google_ErrLastCredential) \<or> errors_is e (EGoogle Google_ErrNotFound)
                             then e else EWrap ''unlink Google identity'' e)
                   (on_accounts (unlink subjectID t))) (\<lambda>_.
          ret_event (gm_securityEvents mgr) ''google_unlinked'' subjectID sourceKey (Inr ()))))"

definition google_randomString :: "'a world_scheme \<Rightarrow> (err + string) \<times> 'a world_scheme" where
  "google_randomString = bindM (rand_read 32) (\<lambda>random. retM (Inr (b64_encode b64_url random)))"

text \<open>The 32 bytes of a digest.\<close>

definition hash_bytes :: "hash \<Rightarrow> string" where
  "hash_bytes h = map (\<lambda>i. char_of (unat (drop_bit (8 * (31 - i)) h))) [0..<32]"

definition google_pkceChallenge :: "(string \<Rightarrow> hash) \<Rightarrow> string \<Rightarrow> string" where
  "google_pkceChallenge sha codeVerifier = b64_encode b64_url (hash_bytes (sha codeVerifier))"

definition google_authorizationURL ::
  "url_library \<Rightarrow> (string \<Rightarrow> hash) \<Rightarrow> 's GoogleManager \<Rightarrow> string \<Rightarrow> string \<Rightarrow> string \<Rightarrow> url" where
  "google_authorizationURL urls sha mgr state nonce codeVerifier =
     (let query = ul_Query urls (gm_authorizationURL mgr);
          query = values_Set ''client_id'' (gm_clientID mgr) query;
          query = values_Set ''redirect_uri'' (gm_redirectURL mgr) query;
          query = values_Set ''response_type'' ''code'' query;
          query = values_Set ''scope'' ''openid email profile'' query;
          query = values_Set ''state'' state query;
          query = values_Set ''nonce'' nonce query;
          query = values_Set ''code_challenge'' (google_pkceChallenge sha codeVerifier) query;
          query = values_Set ''code_challenge_method'' ''S256'' query
      in (gm_authorizationURL mgr)\<lparr>ur_RawQuery := values_Encode query\<rparr>)"

definition google_Begin ::
  "url_library \<Rightarrow> (string \<Rightarrow> hash) \<Rightarrow> 's GoogleManager \<Rightarrow> string \<Rightarrow> 's account_world \<Rightarrow>
     (err + Started) \<times> 's account_world" where
  "google_Begin urls sha mgr subjectID =
     bindM (on_err (EWrap ''generate OAuth state'') google_randomString) (\<lambda>state.
     bindM (on_err (EWrap ''generate OAuth nonce'') google_randomString) (\<lambda>nonce.
     bindM (on_err (EWrap ''generate PKCE verifier'') google_randomString) (\<lambda>codeVerifier.
     bindM read_clock (\<lambda>t.
     bindM (on_err (EWrap ''store OAuth challenge'')
              (on_accounts (gs_CreateChallenge (gm_store mgr)
                 \<lparr>gc_StateHash = sha state, gc_Nonce = nonce, gc_CodeVerifier = codeVerifier,
                  gc_SubjectID = TrimSpace subjectID, gc_CreatedAt = t, gc_ExpiresAt = t + gm_lifetime mgr\<rparr>))) (\<lambda>_.
     retM (Inr \<lparr>st_AuthorizationURL =
                  ul_String urls (google_authorizationURL urls sha mgr state nonce codeVerifier),
                st_State = state\<rparr>))))))"

definition google_validChallenge :: "GoogleChallenge \<Rightarrow> hash \<Rightarrow> time \<Rightarrow> bool" where
  "google_validChallenge challenge stateHash t \<longleftrightarrow>
     gc_StateHash challenge = stateHash \<and> \<not> blank (gc_Nonce challenge) \<and> \<not> blank (gc_CodeVerifier challenge) \<and>
     gc_CreatedAt challenge \<noteq> 0 \<and> gc_CreatedAt challenge < gc_ExpiresAt challenge \<and> t < gc_ExpiresAt challenge"

text \<open>The part of \<^verbatim>\<open>Complete\<close> after the provider has answered.\<close>

definition google_accept ::
  "mail_library \<Rightarrow> 's GoogleManager \<Rightarrow> GoogleChallenge \<Rightarrow> Identity \<Rightarrow> 's account_world \<Rightarrow>
     (err + string) \<times> 's account_world" where
  "google_accept mail mgr challenge identity =
     (if id_Nonce identity \<noteq> gc_Nonce challenge then retM (Inl (EGoogle Google_ErrInvalidState))
      else
      let providerSubject = TrimSpace (id_ProviderSubject identity) in
      if providerSubject = [] then retM (Inl (EGoogle Google_ErrInvalidRecord))
      else if \<not> id_EmailVerified identity then retM (Inl (EGoogle Google_ErrUnverified))
      else
      (case email_Normalize mail (id_Email identity) of
         Inl _ \<Rightarrow> retM (Inl (EGoogle Google_ErrInvalidRecord))
       | Inr normalizedEmail \<Rightarrow>
           bindM (on_err (EWrap ''resolve Google identity'')
                    (on_accounts_drawing (\<lambda>dr. gs_ResolveIdentity (gm_store mgr) dr
                       \<lparr>ir_ProviderSubject = providerSubject, ir_Email = normalizedEmail,
                        ir_SubjectID = gc_SubjectID challenge\<rparr>))) (\<lambda>user.
           if blank user then retM (Inl (EGoogle Google_ErrInvalidRecord)) else retM (Inr user))))"

definition google_Complete ::
  "mail_library \<Rightarrow> (string \<Rightarrow> hash) \<Rightarrow> 's GoogleManager \<Rightarrow> string \<Rightarrow> string \<Rightarrow> 's account_world \<Rightarrow>
     (err + string) \<times> 's account_world" where
  "google_Complete mail sha mgr rawState rawCode =
     (let state = TrimSpace rawState; code = TrimSpace rawCode in
      if state = [] \<or> code = [] then retM (Inl (EGoogle Google_ErrInvalidState))
      else
      bindM read_clock (\<lambda>t.
      bindM (on_err (\<lambda>e. if errors_is e (EGoogle Google_ErrNotFound) \<or> errors_is e (EGoogle Google_ErrInvalidState)
                         then EGoogle Google_ErrInvalidState else EWrap ''consume OAuth challenge'' e)
               (on_accounts (gs_ConsumeChallenge (gm_store mgr) (sha state) t))) (\<lambda>challenge.
      if \<not> google_validChallenge challenge (sha state) t then retM (Inl (EGoogle Google_ErrInvalidRecord))
      else
      bindM (on_err (EWrap ''exchange Google authorization code'')
               (gm_provider mgr \<lparr>xi_Code = code, xi_CodeVerifier = gc_CodeVerifier challenge,
                  xi_RedirectURL = gm_redirectURL mgr, xi_Audience = gm_clientID mgr\<rparr>))
        (google_accept mail mgr challenge))))"

section \<open>The provider of Google\<close>

text \<open>
  \<open>'p\<close> is the library's discovery document, \<open>'t\<close> a verified ID token. \<^verbatim>\<open>Extra("id_token")\<close> of the OAuth token
  is \<open>None\<close> when it is missing or no text. The network answers by the number of the reading.
\<close>

record ('p, 't) oidc_library =
  ol_NewProvider :: "string \<Rightarrow> nat \<Rightarrow> err + 'p"
  ol_Exchange :: "'p \<Rightarrow> string \<Rightarrow> string \<Rightarrow> string \<Rightarrow> string \<Rightarrow> string \<Rightarrow> nat \<Rightarrow> err + string option"
  ol_Verify :: "'p \<Rightarrow> string \<Rightarrow> string \<Rightarrow> nat \<Rightarrow> err + 't"
  ol_Claims :: "'t \<Rightarrow> err + Identity"

record 'p googleProvider =
  gp_clientID :: string
  gp_clientSecret :: string
  gp_discovery :: "'p option"

definition googleIssuer :: string where
  "googleIssuer = ''https://accounts.google.com''"

definition NewGoogleProvider :: "string \<Rightarrow> string \<Rightarrow> err + 'p googleProvider" where
  "NewGoogleProvider rawID rawSecret =
     (let clientID = TrimSpace rawID; clientSecret = TrimSpace rawSecret in
      if clientID = [] \<or> clientSecret = []
      then Inl (google_config ''Google client ID and secret are required'')
      else Inr \<lparr>gp_clientID = clientID, gp_clientSecret = clientSecret, gp_discovery = None\<rparr>)"

text \<open>A discovery that failed is not remembered.\<close>

definition openIDProvider ::
  "('p, 't) oidc_library \<Rightarrow> 'p googleProvider \<Rightarrow> nat \<Rightarrow> (err + 'p) \<times> 'p googleProvider" where
  "openIDProvider lib provider n =
     (case gp_discovery provider of
        Some discovery \<Rightarrow> (Inr discovery, provider)
      | None \<Rightarrow>
          (case ol_NewProvider lib googleIssuer n of
             Inl e \<Rightarrow> (Inl (EWrap ''discover Google OpenID provider'' e), provider)
           | Inr discovery \<Rightarrow> (Inr discovery, provider\<lparr>gp_discovery := Some discovery\<rparr>)))"

definition google_Exchange ::
  "('p, 't) oidc_library \<Rightarrow> 'p googleProvider \<Rightarrow> ExchangeInput \<Rightarrow> nat \<Rightarrow> (err + Identity) \<times> 'p googleProvider" where
  "google_Exchange lib provider input n =
     (case openIDProvider lib provider n of
        (Inl e, provider) \<Rightarrow> (Inl e, provider)
      | (Inr discovery, provider) \<Rightarrow>
          ((case ol_Exchange lib discovery (gp_clientID provider) (gp_clientSecret provider)
                   (xi_RedirectURL input) (xi_Code input) (xi_CodeVerifier input) n of
              Inl e \<Rightarrow> Inl (EWrap ''exchange authorization code'' e)
            | Inr rawIDToken \<Rightarrow>
                if rawIDToken = None \<or> rawIDToken = Some [] then Inl (EGoogle Google_ErrInvalidRecord)
                else
                (case ol_Verify lib discovery (xi_Audience input) (the rawIDToken) n of
                   Inl e \<Rightarrow> Inl (EWrap ''verify Google ID token'' e)
                 | Inr verified \<Rightarrow>
                     (case ol_Claims lib verified of
                        Inl e \<Rightarrow> Inl (EWrap ''read Google ID token claims'' e)
                      | Inr claims \<Rightarrow> Inr claims))), provider))"

end
