(* ===== verification/GoogleService.thy ===== *)
theory GoogleService
  imports RecoveryService Googleoauth
begin

text \<open>
  The Google sign-in over any store that meets the contract \<open>account_store\<close>: every call is safe, a state
  authorises one completion, and what a completion has checked and linked.
\<close>

definition google_service :: "'s GoogleStore \<Rightarrow> 's GoogleManager \<Rightarrow> bool" where
  "google_service gs mgr \<longleftrightarrow> gm_store mgr = gs \<and>
     (gm_identities mgr = None \<or> gm_identities mgr = Some (gs_UnlinkIdentity gs)) \<and>
     (\<forall>input. framed (gm_provider mgr input))"

lemma draws_fresh_challenges [simp]: "draws_fresh dr (a\<lparr>challenges := c\<rparr>) = draws_fresh dr a"
  by (simp add: draws_fresh_def)

lemma framed_google_randomString [intro!]: "framed google_randomString"
  by (auto simp: google_randomString_def)

context account_store
begin

lemma Create_op_safe:
  assumes rel: "account_relation sha hmac secret R"
  shows "account_safe view ok R w (snd (on_accounts (gs_CreateChallenge gs c) w))"
  by (rule account_safe_op [OF rel CreateChallenge]) (auto simp: fun_spec_def intro: account_relationD(11) [OF rel])

lemma Consume_op_safe:
  assumes rel: "account_relation sha hmac secret R"
  shows "account_safe view ok R w (snd (on_accounts (gs_ConsumeChallenge gs h t) w))"
  by (rule account_safe_op [OF rel ConsumeChallenge]) (auto simp: fun_spec_def intro: account_relationD(12) [OF rel])

lemma Unlink_op_safe:
  assumes rel: "account_relation sha hmac secret R"
  shows "account_safe view ok R w (snd (on_accounts (gs_UnlinkIdentity gs i t) w))"
  by (rule account_safe_op [OF rel UnlinkIdentity]) (auto simp: fun_spec_def intro: account_relationD(14) [OF rel])

lemma Resolve_op_safe:
  assumes rel: "account_relation sha hmac secret R" and fresh: "fresh_tape view w"
  shows "account_safe view ok R w (snd (on_accounts_drawing (\<lambda>dr. gs_ResolveIdentity gs dr r) w))"
  by (rule account_safe_drawing [OF rel ResolveIdentity _ ok_view fresh])
    (auto simp: fun_spec_def intro: account_relationD(13) [OF rel])

text \<open>Consuming a challenge leaves the users alone, so that what is drawn next is as new as before.\<close>

lemma Consume_result:
  assumes "ok (aw_store u)" and "on_accounts (gs_ConsumeChallenge gs h t) u = (x, v)"
  shows "ok (aw_store v)" and "users (view (aw_store v)) = users (view (aw_store u))" and "tape v = tape u" and "pos v = pos u"
proof -
  have s: "snd (gs_ConsumeChallenge gs h t (aw_store u)) = aw_store v" "tape v = tape u" "pos v = pos u"
    using assms(2) by (auto simp: on_accounts_def)
  show "ok (aw_store v)" using implements_inv [OF ConsumeChallenge assms(1), of h t] s(1) by simp
  from ConsumeChallenge [of h t] assms(1) show "users (view (aw_store v)) = users (view (aw_store u))"
    by (cases rule: implements_cases)
      (use s(1) in \<open>auto simp: fun_spec_def spec_ConsumeChallenge_def split: option.splits dest: arg_cong [where f = users]\<close>)
  show "tape v = tape u" "pos v = pos u" by (fact s)+
qed

lemma Consume_fresh:
  assumes "ok (aw_store u)" and "on_accounts (gs_ConsumeChallenge gs h t) u = (x, v)" and "fresh_tape view u"
  shows "fresh_tape view v"
proof -
  note c = Consume_result [OF assms(1,2)]
  have "draws_fresh d (view (aw_store v)) = draws_fresh d (view (aw_store u))" for d
    by (simp add: draws_fresh_def c(2))
  then show ?thesis using assms(3) c(3,4) draws_at_tape [OF c(3)] by (simp add: fresh_tape_def)
qed

lemma google_Unlink_safe:
  assumes rel: "account_relation sha hmac secret R" and s: "google_service gs mgr"
  shows "account_safe view ok R w (snd (google_Unlink mgr i k w))"
proof (cases "gm_identities mgr")
  case (Some unlink)
  then have u: "unlink = gs_UnlinkIdentity gs" using s by (simp add: google_service_def)
  show ?thesis
  proof (cases "TrimSpace i = []")
    case False
    have "account_safe view ok R w (snd (bindM read_clock (\<lambda>t.
        bindM (on_err f (on_accounts (gs_UnlinkIdentity gs (TrimSpace i) t))) (\<lambda>_.
        ret_event (gm_securityEvents mgr) ''google_unlinked'' (TrimSpace i) k (Inr ()))) w))" for f
      by (intro account_safe_bindM [OF rel] account_safe_framed [OF rel framed_read_clock]
          account_safe_framed [OF rel framed_ret_event]) (simp add: Unlink_op_safe [OF rel])
    with False show ?thesis by (simp only: google_Unlink_def Some u option.case Let_def if_False)
  qed (simp add: google_Unlink_def Some account_safe_refl [OF rel])
qed (simp add: google_Unlink_def account_safe_refl [OF rel])

lemma google_Begin_safe:
  assumes rel: "account_relation sha hmac secret R" and s: "google_service gs mgr"
  shows "account_safe view ok R w (snd (google_Begin urls sha mgr i w))"
proof -
  have st: "gm_store mgr = gs" using s by (simp add: google_service_def)
  show ?thesis
    unfolding google_Begin_def st
    by (intro account_safe_bindM [OF rel] account_safe_framed [OF rel framed_read_clock]
        account_safe_framed [OF rel framed_on_err [OF framed_google_randomString]]
        account_safe_framed [OF rel framed_retM]) (simp add: Create_op_safe [OF rel])
qed

lemma google_accept_safe:
  assumes rel: "account_relation sha hmac secret R" and st: "gm_store mgr = gs" and fresh: "fresh_tape view w"
  shows "account_safe view ok R w (snd (google_accept mail mgr c i w))"
proof -
  have "account_safe view ok R w (snd (bindM (on_err f (on_accounts_drawing (\<lambda>dr. gs_ResolveIdentity gs dr r)))
      (\<lambda>user. if blank user then retM (Inl (EGoogle Google_ErrInvalidRecord)) else retM (Inr user)) w))" for f r
    by (rule account_safe_bindM [OF rel]) (simp_all add: Resolve_op_safe [OF rel fresh] account_safe_refl [OF rel])
  then show ?thesis
    by (simp add: google_accept_def st Let_def account_safe_refl [OF rel] split: sum.split)
qed

lemma google_Complete_safe:
  assumes rel: "account_relation sha hmac secret R" and s: "google_service gs mgr" and fresh: "fresh_tape view w"
    and o: "ok (aw_store w)"
  shows "account_safe view ok R w (snd (google_Complete mail gsha mgr st c w))"
proof (cases "TrimSpace st = [] \<or> TrimSpace c = []")
  case False
  have g: "gm_store mgr = gs" "\<And>i. framed (gm_provider mgr i)" using s by (simp_all add: google_service_def)
  show ?thesis
    unfolding google_Complete_def Let_def g(1)
  proof (simp only: False if_False, rule account_safe_bindM [OF rel account_safe_framed [OF rel framed_read_clock]],
      rule account_safe_bindM [OF rel], goal_cases)
    case (1 t w1)
    then show ?case by (simp add: Consume_op_safe [OF rel])
  next
    case (2 t w1 ch w2)
    have o1: "ok (aw_store w1)" using framedD(1) [OF framed_read_clock 2(1)] o by simp
    have "fresh_tape view w2"
      by (rule Consume_fresh [OF o1 on_err_InrD [OF 2(2)] fresh_tape_framed [OF framed_read_clock fresh 2(1)]])
    then show ?case
      by (simp add: account_safe_refl [OF rel])
        (intro impI account_safe_bindM_framed [OF rel] framed_on_err g(2) google_accept_safe [OF rel g(1)])
  qed
qed (simp add: google_Complete_def account_safe_refl [OF rel])

section \<open>What a call has checked and changed\<close>

text \<open>A call that draws, when it succeeds.\<close>

lemma drawing_Inr:
  assumes op: "\<And>dr. implements_when view ok (draws_fresh dr) (op dr) (fun_spec (f dr))"
    and o: "ok (aw_store w)" and fr: "fresh_tape view w" and run: "on_accounts_drawing op w = (Inr v, w1)"
  obtains dr where "draws_fresh dr (view (aw_store w))"
    "f dr (view (aw_store w)) = (Inr v, view (aw_store w1))" "ok (aw_store w1)"
proof -
  let ?dr = "draws_at w (pos w)"
  obtain w2 where dr: "draw w = (?dr, w2)" by (metis fst_draw prod.collapse)
  have st: "aw_store w2 = aw_store w" using draw_simps [of w] dr by simp
  have f: "draws_fresh ?dr (view (aw_store w))" using fr by (simp add: fresh_tape_def)
  have r: "fst (op ?dr (aw_store w)) = Inr v" "snd (op ?dr (aw_store w)) = aw_store w1"
    using run dr st by (auto simp: on_accounts_drawing_def on_accounts_def)
  have "f ?dr (view (aw_store w)) = (Inr v, view (aw_store w1))"
    using op [of ?dr] o f by (cases rule: implements_when_cases) (use r in \<open>simp_all add: fun_spec_def\<close>)
  moreover have "ok (aw_store w1)" using implements_when_inv [OF op o f] r by simp
  ultimately show ?thesis using that f by blast
qed

lemma google_accept_Inr:
  assumes st: "gm_store mgr = gs" and o: "ok (aw_store w)" and fr: "fresh_tape view w"
    and run: "google_accept mail mgr ch identity w = (Inr user, w1)"
  obtains e dr where "id_Nonce identity = gc_Nonce ch" "id_EmailVerified identity"
    "email_Normalize mail (id_Email identity) = Inr e" "draws_fresh dr (view (aw_store w))"
    "spec_ResolveIdentity dr \<lparr>ir_ProviderSubject = TrimSpace (id_ProviderSubject identity), ir_Email = e,
       ir_SubjectID = gc_SubjectID ch\<rparr> (view (aw_store w)) = (Inr user, view (aw_store w1))"
    "ok (aw_store w1)" "TrimSpace (id_ProviderSubject identity) \<noteq> []"
proof -
  obtain e where e: "email_Normalize mail (id_Email identity) = Inr e"
    using run by (auto simp: google_accept_def Let_def split: if_splits sum.splits)
  let ?r = "\<lparr>ir_ProviderSubject = TrimSpace (id_ProviderSubject identity), ir_Email = e,
       ir_SubjectID = gc_SubjectID ch\<rparr>"
  have g: "id_Nonce identity = gc_Nonce ch" "id_EmailVerified identity" "TrimSpace (id_ProviderSubject identity) \<noteq> []"
    and q: "on_accounts_drawing (\<lambda>dr. gs_ResolveIdentity gs dr ?r) w = (Inr user, w1)"
    using run e by (auto simp: google_accept_def Let_def st split: if_splits elim!: bindM_InrE dest!: on_err_InrD)
  from drawing_Inr [OF ResolveIdentity o fr q] obtain dr where "draws_fresh dr (view (aw_store w))"
    "spec_ResolveIdentity dr ?r (view (aw_store w)) = (Inr user, view (aw_store w1))" "ok (aw_store w1)" by blast
  with g e show ?thesis by (intro that)
qed

lemma Complete_Inr:
  assumes s: "google_service gs mgr" and o: "ok (aw_store w)" and fr: "fresh_tape view w"
    and run: "google_Complete mail gsha mgr st c w = (Inr user, w1)"
  obtains ch identity e dr wp wp' where
    "challenges (view (aw_store w)) (gsha (TrimSpace st)) = Some ch"
    "google_validChallenge ch (gsha (TrimSpace st)) (clock w (pos w))" "tape wp = tape w"
    "gm_provider mgr \<lparr>xi_Code = TrimSpace c, xi_CodeVerifier = gc_CodeVerifier ch,
       xi_RedirectURL = gm_redirectURL mgr, xi_Audience = gm_clientID mgr\<rparr> wp = (Inr identity, wp')"
    "id_Nonce identity = gc_Nonce ch" "id_EmailVerified identity" "email_Normalize mail (id_Email identity) = Inr e"
    "draws_fresh dr (view (aw_store w))"
    "spec_ResolveIdentity dr \<lparr>ir_ProviderSubject = TrimSpace (id_ProviderSubject identity), ir_Email = e,
       ir_SubjectID = gc_SubjectID ch\<rparr>
       ((view (aw_store w))\<lparr>challenges := (challenges (view (aw_store w)))(gsha (TrimSpace st) := None)\<rparr>)
       = (Inr user, view (aw_store w1))"
    "ok (aw_store w1)" "TrimSpace (id_ProviderSubject identity) \<noteq> []"
proof -
  let ?h = "gsha (TrimSpace st)"
  have g: "gm_store mgr = gs" "\<And>i. framed (gm_provider mgr i)" using s by (simp_all add: google_service_def)
  from run have "\<not> (TrimSpace st = [] \<or> TrimSpace c = [])" by (auto simp: google_Complete_def)
  with run obtain t wa ch wb identity wc where
    a: "read_clock w = (Inr t, wa)" and b: "on_accounts (gs_ConsumeChallenge gs ?h t) wa = (Inr ch, wb)"
    and v: "google_validChallenge ch ?h t"
    and p: "gm_provider mgr \<lparr>xi_Code = TrimSpace c, xi_CodeVerifier = gc_CodeVerifier ch,
       xi_RedirectURL = gm_redirectURL mgr, xi_Audience = gm_clientID mgr\<rparr> wb = (Inr identity, wc)"
    and f: "google_accept mail mgr ch identity wc = (Inr user, w1)"
    unfolding google_Complete_def Let_def g(1)
    by (auto elim!: bindM_InrE dest!: on_err_InrD split: if_splits simp del: read_clock_simps)
  note fa = framedD [OF framed_read_clock a]
  have oa: "ok (aw_store wa)" using fa o by simp
  note rb = Consume_result [OF oa b]
  note frb = Consume_fresh [OF oa b fresh_tape_framed [OF framed_read_clock fr a]]
  note fp = framedD [OF g(2) p]
  have vb: "challenges (view (aw_store w)) ?h = Some ch"
    "view (aw_store wb) = (view (aw_store w))\<lparr>challenges := (challenges (view (aw_store w)))(?h := None)\<rparr>"
    using op_Inr(1) [OF ConsumeChallenge oa b] fa(1)
    by (auto simp: spec_ConsumeChallenge_def split: option.splits if_splits)
  have oc: "ok (aw_store wc)" using rb(1) fp by simp
  from google_accept_Inr [OF g(1) oc fresh_tape_framed [OF g(2) frb p] f]
  obtain e dr where ed: "id_Nonce identity = gc_Nonce ch" "id_EmailVerified identity"
    "email_Normalize mail (id_Email identity) = Inr e" "draws_fresh dr (view (aw_store wc))"
    "spec_ResolveIdentity dr \<lparr>ir_ProviderSubject = TrimSpace (id_ProviderSubject identity), ir_Email = e,
       ir_SubjectID = gc_SubjectID ch\<rparr> (view (aw_store wc)) = (Inr user, view (aw_store w1))"
    "ok (aw_store w1)" "TrimSpace (id_ProviderSubject identity) \<noteq> []" by blast
  show ?thesis
    by (rule that [OF vb(1) _ _ p ed(1-3) _ _ ed(6,7)])
      (use v a ed(4,5) fp(1) vb(2) rb(3) fa(2) in simp_all)
qed

text \<open>A state that has no challenge completes nothing.\<close>

lemma Complete_unknown:
  assumes s: "google_service gs mgr" and o: "ok (aw_store w)"
    and no: "challenges (view (aw_store w)) (gsha (TrimSpace st)) = None"
    and run: "google_Complete mail gsha mgr st c w = (x, w1)"
  shows "x = Inl (EGoogle Google_ErrInvalidState) \<or> (\<exists>d. is_driver d \<and> x = Inl (EWrap ''consume OAuth challenge'' d))"
    and "view (aw_store w1) = view (aw_store w)"
proof -
  let ?h = "gsha (TrimSpace st)"
  have g: "gm_store mgr = gs" using s by (simp add: google_service_def)
  have "(x = Inl (EGoogle Google_ErrInvalidState) \<or> (\<exists>d. is_driver d \<and> x = Inl (EWrap ''consume OAuth challenge'' d))) \<and>
    view (aw_store w1) = view (aw_store w)"
  proof (cases "TrimSpace st = [] \<or> TrimSpace c = []")
    case True
    then show ?thesis using run by (auto simp: google_Complete_def)
  next
    case False
    obtain t wa where a: "read_clock w = (Inr t, wa)" "aw_store wa = aw_store w"
      by (simp add: read_clock_def)
    obtain y wb where b: "on_accounts (gs_ConsumeChallenge gs ?h t) wa = (y, wb)" by fastforce
    have oa: "ok (aw_store wa)" using a o by simp
    have "\<exists>e. y = Inl e \<and> (is_driver e \<or> e = EGoogle Google_ErrNotFound) \<and> view (aw_store wb) = view (aw_store w)"
    proof (cases y)
      case (Inl e)
      then show ?thesis
        using op_Inl(1) [OF ConsumeChallenge oa b [unfolded Inl]] no a(2) by (auto simp: spec_ConsumeChallenge_def)
    next
      case (Inr v)
      then show ?thesis
        using op_Inr(1) [OF ConsumeChallenge oa b [unfolded Inr]] no a(2) by (auto simp: spec_ConsumeChallenge_def)
    qed
    then obtain e where e: "y = Inl e" "is_driver e \<or> e = EGoogle Google_ErrNotFound"
      "view (aw_store wb) = view (aw_store w)" by blast
    have "x = Inl (if errors_is e (EGoogle Google_ErrNotFound) \<or> errors_is e (EGoogle Google_ErrInvalidState)
        then EGoogle Google_ErrInvalidState else EWrap ''consume OAuth challenge'' e) \<and> w1 = wb"
      using run False a(1) b e(1) g by (simp add: google_Complete_def Let_def bindM_def on_err_def)
    then show ?thesis using e by auto
  qed
  then show "x = Inl (EGoogle Google_ErrInvalidState) \<or> (\<exists>d. is_driver d \<and> x = Inl (EWrap ''consume OAuth challenge'' d))"
    and "view (aw_store w1) = view (aw_store w)" by blast+
qed

lemma google_Unlink_Inr:
  assumes s: "google_service gs mgr" and o: "ok (aw_store w)"
    and run: "google_Unlink mgr i k w = (Inr (), w1)"
  shows "spec_UnlinkIdentity (TrimSpace i) (view (aw_store w)) = (Inr (), view (aw_store w1))" and "ok (aw_store w1)"
proof -
  obtain unlink where u: "gm_identities mgr = Some unlink" using run by (cases "gm_identities mgr") (auto simp: google_Unlink_def)
  then have us: "unlink = gs_UnlinkIdentity gs" using s by (simp add: google_service_def)
  obtain t wa wb where a: "read_clock w = (Inr t, wa)"
    and b: "on_accounts (gs_UnlinkIdentity gs (TrimSpace i) t) wa = (Inr (), wb)" and w1: "aw_store w1 = aw_store wb"
    using run unfolding google_Unlink_def u us
    by (auto simp: Let_def ret_event_def simp del: read_clock_simps elim!: bindM_InrE dest!: on_err_InrD split: if_splits)
  have fa: "aw_store wa = aw_store w" using framedD [OF framed_read_clock a] by simp
  show "spec_UnlinkIdentity (TrimSpace i) (view (aw_store w)) = (Inr (), view (aw_store w1))" "ok (aw_store w1)"
    using op_Inr [OF UnlinkIdentity _ b] fa o w1 by simp_all
qed

end

end
