(* ===== verification/AccountRuns.thy ===== *)
theory AccountRuns
  imports GoogleService
begin

text \<open>
  The account managers together, over one store: the calls that the application can make, the runs that
  they form, and the safety of every run. Between two calls the environment may only promise that the
  UUIDs and handles still to be drawn are new.
\<close>

record 's account_service =
  av_email :: "'s EmailPasswordManager"
  av_ver :: "'s VerificationManager"
  av_reset :: "'s ResetManager"
  av_google :: "'s GoogleManager"

record crypto =
  cy_mail :: mail_library
  cy_sha :: "string \<Rightarrow> hash"
  cy_hmac :: "string \<Rightarrow> string \<Rightarrow> hash"
  cy_url :: url_library

datatype account_call =
    CallRegister string string string
  | CallLogin string string string
  | CallAddPassword string string string
  | CallChangePassword string string string string
  | CallRemovePassword string string string
  | CallRequestVerification string string
  | CallVerify string string string string
  | CallIsVerified string
  | CallRequestReset string string
  | CallReset string string string
  | CallGoogleBegin string
  | CallGoogleComplete string string
  | CallGoogleUnlink string string

text \<open>The world after a call, whatever it answered.\<close>

fun account_do ::
  "crypto \<Rightarrow> 's account_service \<Rightarrow> account_call \<Rightarrow> 's account_world \<Rightarrow> 's account_world" where
  "account_do cy sv (CallRegister e p k) w = snd (email_Register (cy_mail cy) (av_email sv) e p k w)"
| "account_do cy sv (CallLogin e p k) w = snd (email_Login (cy_mail cy) (av_email sv) e p k w)"
| "account_do cy sv (CallAddPassword i p k) w = snd (email_AddPassword (av_email sv) i p k w)"
| "account_do cy sv (CallChangePassword i p q k) w = snd (email_ChangePassword (av_email sv) i p q k w)"
| "account_do cy sv (CallRemovePassword i p k) w = snd (email_RemovePassword (av_email sv) i p k w)"
| "account_do cy sv (CallRequestVerification e k) w =
     snd (ver_Request (cy_mail cy) (cy_sha cy) (cy_hmac cy) (av_ver sv) e k w)"
| "account_do cy sv (CallVerify raw e c k) w =
     snd (ver_Verify (cy_mail cy) (cy_sha cy) (cy_hmac cy) (av_ver sv) raw e c k w)"
| "account_do cy sv (CallIsVerified e) w = snd (ver_IsVerified (cy_mail cy) (av_ver sv) e w)"
| "account_do cy sv (CallRequestReset e k) w = snd (reset_Request (cy_mail cy) (cy_sha cy) (av_reset sv) e k w)"
| "account_do cy sv (CallReset raw p k) w = snd (reset_Reset (cy_mail cy) (cy_sha cy) (av_reset sv) raw p k w)"
| "account_do cy sv (CallGoogleBegin i) w = snd (google_Begin (cy_url cy) (cy_sha cy) (av_google sv) i w)"
| "account_do cy sv (CallGoogleComplete st c) w =
     snd (google_Complete (cy_mail cy) (cy_sha cy) (av_google sv) st c w)"
| "account_do cy sv (CallGoogleUnlink i k) w = snd (google_Unlink (av_google sv) i k w)"

definition account_service ::
  "'s EmailPasswordStore \<Rightarrow> 's CredentialStore \<Rightarrow> 's VerificationStore \<Rightarrow> 's ResetStore \<Rightarrow> 's GoogleStore \<Rightarrow>
     's account_service \<Rightarrow> bool" where
  "account_service ep cr vs ps gs sv \<longleftrightarrow>
     email_service ep cr (av_email sv) \<and> ver_service vs (av_ver sv) \<and> reset_service ps (av_reset sv) \<and>
     google_service gs (av_google sv)"

text \<open>The HMAC key of the service, as far as it is used.\<close>

abbreviation av_secret :: "'s account_service \<Rightarrow> string" where
  "av_secret sv \<equiv> vm_otpSecret (av_ver sv)"

inductive account_run ::
  "('s \<Rightarrow> account_db) \<Rightarrow> crypto \<Rightarrow> 's account_service \<Rightarrow> 's account_world \<Rightarrow> 's account_world \<Rightarrow> bool"
  for view cy sv w where
  account_run_stop: "account_run view cy sv w w"
| account_run_call: "account_run view cy sv w v \<Longrightarrow> fresh_tape view v \<Longrightarrow>
    account_run view cy sv w (account_do cy sv c v)"

lemma account_run_one: "fresh_tape view w \<Longrightarrow> account_run view cy sv w (account_do cy sv c w)"
  by (rule account_run_call [OF account_run_stop])

lemma account_run_trans:
  assumes "account_run view cy sv v w" and "account_run view cy sv u v"
  shows "account_run view cy sv u w"
  using assms by (induction rule: account_run.induct) (auto intro: account_run_call)

lemma reset_fun_used: "reset_fun h enc t a = (Inr user, b) \<Longrightarrow> reset_tokens b h = None"
  by (auto simp: reset_fun_def split: option.splits if_splits)

lemma verify_fun_used: "verify_fun h t a = (Inr user, b) \<Longrightarrow> verification_tokens b h = None"
  by (auto simp: verify_fun_def split: option.splits if_splits)

lemma spec_Resolve_challenges: "spec_ResolveIdentity dr r a = (x, b) \<Longrightarrow> challenges b = challenges a"
  by (auto simp: spec_ResolveIdentity_def link_google_def insert_user_def
      split: option.splits if_splits sum.splits prod.splits)

context account_store
begin

lemma IsVerified_still:
  assumes "ver_service vs mgr"
  shows "still view ok w (snd (ver_IsVerified mail mgr e w))"
proof -
  obtain x w1 where q: "on_accounts (vs_FindUserByEmail vs (ver_address mail mgr e)) w = (x, w1)" by fastforce
  then show ?thesis
    using assms FindVerified_still [OF q] by (simp add: ver_IsVerified_def Let_def ver_service_def split: sum.split)
qed

lemma account_do_safe:
  assumes rel: "account_relation (cy_sha cy) (cy_hmac cy) (av_secret sv) R"
    and s: "account_service ep cr vs ps gs sv" and fresh: "fresh_tape view w" and o: "ok (aw_store w)"
  shows "account_safe view ok R w (account_do cy sv c w)"
proof -
  have e: "email_service ep cr (av_email sv)" "ver_service vs (av_ver sv)" "reset_service ps (av_reset sv)"
    "google_service gs (av_google sv)"
    using s by (simp_all add: account_service_def)
  show ?thesis
    by (cases c) (simp_all add: rel e fresh o email_Register_safe [OF rel] email_Login_safe [OF rel]
        email_AddPassword_safe [OF rel] email_ChangePassword_safe [OF rel] email_RemovePassword_safe [OF rel]
        Request_safe [OF rel] Verify_safe [OF rel] ResetRequest_safe [OF rel] Reset_safe [OF rel]
        google_Begin_safe [OF rel] google_Complete_safe [OF rel] google_Unlink_safe [OF rel]
        account_safe_still [OF rel IsVerified_still])
qed

lemma account_run_safe:
  assumes rel: "account_relation (cy_sha cy) (cy_hmac cy) (av_secret sv) R"
    and s: "account_service ep cr vs ps gs sv" and o: "ok (aw_store w)" and run: "account_run view cy sv w v"
  shows "account_safe view ok R w v"
  using run
proof (induction rule: account_run.induct)
  case (account_run_call v c)
  have "ok (aw_store v)" using account_run_call.IH o by (auto simp: account_safe_def)
  then show ?case
    by (rule account_safe_trans [OF rel account_run_call.IH account_do_safe [OF rel s account_run_call.hyps(2)]])
qed (simp add: account_safe_refl [OF rel])

lemma account_run_evolves:
  assumes s: "account_service ep cr vs ps gs sv" and o: "ok (aw_store w)" and run: "account_run view cy sv w v"
  shows "ok (aw_store v)" and "account_evolves (view (aw_store w)) (view (aw_store v))"
  using account_run_safe [OF account_relation_evolves s o run] o by (auto simp: account_safe_def)

text \<open>In a run a token becomes valid only if a message carries it.\<close>

lemma account_run_tokens:
  assumes s: "account_service ep cr vs ps gs sv" and o: "ok (aw_store w)" and run: "account_run view cy sv w v"
    and silent: "\<forall>m\<in>set (drop (length (aw_mail w)) (aw_mail v)). \<not> announces (cy_sha cy) (cy_hmac cy) (av_secret sv) m h"
  shows "reset_tokens (view (aw_store w)) h = None \<Longrightarrow> reset_tokens (view (aw_store v)) h = None"
    and "verification_tokens (view (aw_store w)) h = None \<Longrightarrow> verification_tokens (view (aw_store v)) h = None"
  using account_run_safe [OF account_relation_tokens s o run] o silent
  by (fastforce simp: account_safe_def tokens_announced_def)+

lemma ResetRequest_ok:
  assumes "reset_service ps mgr" and "ok (aw_store w)"
  shows "ok (aw_store (snd (reset_Request mail sha mgr e k w)))"
  using ResetRequest_safe [OF account_relation_evolves assms(1)] assms(2) by (auto simp: account_safe_def)

text \<open>A used token stays without effect until a message carries it again.\<close>

lemma Reset_single_use:
  assumes s: "account_service ep cr vs ps gs sv" and o: "ok (aw_store w)" and h: "HashToken (cy_sha cy) raw = Inr h"
    and r: "reset_Reset (cy_mail cy) (cy_sha cy) (av_reset sv) raw new k w = (Inr user, w1)"
    and run: "account_run view cy sv w1 v"
    and silent: "\<forall>m\<in>set (drop (length (aw_mail w1)) (aw_mail v)). \<not> announces (cy_sha cy) (cy_hmac cy) (av_secret sv) m h"
  shows "isl (fst (reset_Reset (cy_mail cy) (cy_sha cy) (av_reset sv) raw new2 k2 v))"
proof -
  have rs: "reset_service ps (av_reset sv)" using s by (simp add: account_service_def)
  obtain enc n where 1: "reset_fun h enc (clock w n) (view (aw_store w)) = (Inr user, view (aw_store w1))"
    and o1: "ok (aw_store w1)"
    by (rule Reset_Inr [OF rs o r]) (use h in auto)
  have "reset_tokens (view (aw_store w1)) h = None" by (rule reset_fun_used [OF 1])
  note no = account_run_tokens(1) [OF s o1 run silent this]
  note ov = account_run_evolves(1) [OF s o1 run]
  obtain x v1 where x: "reset_Reset (cy_mail cy) (cy_sha cy) (av_reset sv) raw new2 k2 v = (x, v1)" by fastforce
  show ?thesis
  proof (cases x)
    case (Inr u)
    show ?thesis
      by (rule Reset_Inr [OF rs ov x [unfolded Inr]]) (use h no in \<open>auto simp: reset_fun_def\<close>)
  qed (simp add: x)
qed

lemma Verify_single_use:
  assumes s: "account_service ep cr vs ps gs sv" and o: "ok (aw_store w)"
    and h: "hashVerificationInput (cy_sha cy) (cy_hmac cy) (av_ver sv) raw code
      (if vm_delivery (av_ver sv) = DeliveryMethodOTP then ver_address (cy_mail cy) (av_ver sv) email else []) = Inr h"
    and r: "ver_Verify (cy_mail cy) (cy_sha cy) (cy_hmac cy) (av_ver sv) raw email code k w = (Inr user, w1)"
    and run: "account_run view cy sv w1 v"
    and silent: "\<forall>m\<in>set (drop (length (aw_mail w1)) (aw_mail v)). \<not> announces (cy_sha cy) (cy_hmac cy) (av_secret sv) m h"
  shows "isl (fst (ver_Verify (cy_mail cy) (cy_sha cy) (cy_hmac cy) (av_ver sv) raw email code k2 v))"
proof -
  have rs: "ver_service vs (av_ver sv)" using s by (simp add: account_service_def)
  obtain n where 1: "verify_fun h (clock w n) (view (aw_store w)) = (Inr user, view (aw_store w1))"
    and o1: "ok (aw_store w1)"
    by (rule Verify_Inr [OF rs o r]) (use h in auto)
  have "verification_tokens (view (aw_store w1)) h = None" by (rule verify_fun_used [OF 1])
  note no = account_run_tokens(2) [OF s o1 run silent this]
  note ov = account_run_evolves(1) [OF s o1 run]
  obtain x v1 where x: "ver_Verify (cy_mail cy) (cy_sha cy) (cy_hmac cy) (av_ver sv) raw email code k2 v = (x, v1)"
    by fastforce
  show ?thesis
  proof (cases x)
    case (Inr u)
    show ?thesis
      by (rule Verify_Inr [OF rs ov x [unfolded Inr]]) (use h no in \<open>auto simp: verify_fun_def\<close>)
  qed (simp add: x)
qed

text \<open>A state completes one sign-in; the other calls never restore its challenge.\<close>

lemma Complete_single_use:
  assumes s: "google_service gs mgr" and o: "ok (aw_store w)" and fr: "fresh_tape view w"
    and r: "google_Complete mail gsha mgr st c w = (Inr user, w1)" and same: "aw_store v = aw_store w1"
  shows "fst (google_Complete mail gsha mgr st c' v) = Inl (EGoogle Google_ErrInvalidState) \<or>
    (\<exists>d. is_driver d \<and> fst (google_Complete mail gsha mgr st c' v) = Inl (EWrap ''consume OAuth challenge'' d))"
proof (rule Complete_Inr [OF s o fr r])
  fix ch identity e dr wp wp'
  assume a: "spec_ResolveIdentity dr \<lparr>ir_ProviderSubject = TrimSpace (id_ProviderSubject identity), ir_Email = e,
       ir_SubjectID = gc_SubjectID ch\<rparr>
       ((view (aw_store w))\<lparr>challenges := (challenges (view (aw_store w)))(gsha (TrimSpace st) := None)\<rparr>)
       = (Inr user, view (aw_store w1))" and o1: "ok (aw_store w1)"
  have no: "challenges (view (aw_store v)) (gsha (TrimSpace st)) = None"
    using spec_Resolve_challenges [OF a] same by simp
  obtain x v1 where x: "google_Complete mail gsha mgr st c' v = (x, v1)" by fastforce
  show ?thesis using Complete_unknown(1) [OF s _ no x] o1 same x by simp
qed

end

section \<open>Flows\<close>

text \<open>The hasher's own output is accepted by the verifier without a rehash.\<close>

definition verifies_own :: "'s Passwords \<Rightarrow> 's Passwords \<Rightarrow> string \<Rightarrow> bool" where
  "verifies_own hasher verifier p \<longleftrightarrow>
     (\<forall>w h v. pw_Hash hasher p w = (Inr h, v) \<longrightarrow>
        \<not> blank h \<and> pw_Verify verifier p h = Inr \<lparr>ve_Matches = True, ve_NeedsRehash = False\<rparr>)"

definition password_matches :: "'s Passwords \<Rightarrow> account_db \<Rightarrow> string \<Rightarrow> string \<Rightarrow> bool" where
  "password_matches pw a i p \<longleftrightarrow>
     (\<exists>pd v. passwords a i = Some pd \<and> pw_Verify pw p (pd_PasswordHash pd) = Inr v \<and> ve_Matches v)"

lemma set_password_simps [simp]:
  "users (set_password i h t a) = users a" "emails (set_password i h t a) = emails a"
  "passwords (set_password i h t a) = (passwords a)(i \<mapsto> \<lparr>pd_UserID = i, pd_PasswordHash = h, pd_UpdatedAt = t\<rparr>)"
  "googles (set_password i h t a) = googles a"
  by (simp_all add: set_password_def)

lemma insert_user_simps [simp]:
  "users (insert_user u a) = (users a)(ud_ID u \<mapsto> u)" "emails (insert_user u a) = (emails a)(ud_Email u \<mapsto> ud_ID u)"
  "passwords (insert_user u a) = passwords a" "googles (insert_user u a) = googles a"
  by (simp_all add: insert_user_def)

lemma reset_fun_Inr:
  assumes "reset_fun h enc t a = (Inr user, b)"
  obtains i r u where "reset_tokens a h = Some i" "resets a i = Some r" "users a i = Some u" "t < ot_ExpiresAt r"
    "user = \<lparr>eu_ID = i, eu_Email = ud_Email u\<rparr>" "users b = users a" "emails b = emails a"
    "passwords b = (passwords a)(i \<mapsto> \<lparr>pd_UserID = i, pd_PasswordHash = enc, pd_UpdatedAt = t\<rparr>)"
  using assms by (auto simp: reset_fun_def split: option.splits if_splits)

lemma verify_fun_Inr:
  assumes "verify_fun h t a = (Inr user, b)"
  obtains i r u where "verification_tokens a h = Some i" "verifications a i = Some r" "users a i = Some u"
    "t < ot_ExpiresAt r" "user = \<lparr>vu_ID = i, vu_Email = ud_Email u, vu_Verified = True\<rparr>"
    "users b = (users a)(i \<mapsto> u\<lparr>ud_EmailVerified := True\<rparr>)" "emails b = emails a"
  using assms by (auto simp: verify_fun_def split: option.splits if_splits)

lemma issue_rel_own:
  assumes "issue_rel False c r (recs, toks) (Inr ()) (recs', toks')"
  shows "recs' (ot_UserID r) = Some r" and "toks' (ot_TokenHash r) = Some (ot_UserID r)"
  using assms by (auto simp: issue_rel_def split: option.splits if_splits)

lemma spec_IssueReset_own:
  assumes "spec_IssueReset False r a (Inr ()) b"
  shows "resets b (ot_UserID r) = Some r" and "reset_tokens b (ot_TokenHash r) = Some (ot_UserID r)"
    and "users b = users a" and "emails b = emails a"
  using assms issue_rel_own by (auto simp: spec_IssueReset_def)

lemma spec_IssueVerification_own:
  assumes "spec_IssueVerification False r a (Inr ()) b"
  shows "verifications b (ot_UserID r) = Some r" and "verification_tokens b (ot_TokenHash r) = Some (ot_UserID r)"
    and "users b = users a" and "emails b = emails a"
  using assms issue_rel_own by (auto simp: spec_IssueVerification_def)

lemma hashVerificationInput_delivered:
  assumes "hashVerificationInput sha hmac mgr raw code e = Inr h"
  shows "hashVerificationInput sha hmac mgr raw code (if vm_delivery mgr = DeliveryMethodOTP then e else []) = Inr h"
  using assms by (auto simp: hashVerificationInput_def)

lemma address_valid:
  "ver_address mail vmgr email \<noteq> [] \<Longrightarrow> email_Valid mail (ver_address mail vmgr email)"
  "reset_address mail rmgr email \<noteq> [] \<Longrightarrow> email_Valid mail (reset_address mail rmgr email)"
  by (auto simp: ver_address_def reset_address_def split: sum.splits if_splits)

lemma reset_address_normalized:
  assumes "em_normalizeEmail emgr = pm_normalizeEmail mgr" and "reset_address mail mgr email \<noteq> []"
  shows "normalizeAndValidateEmail mail emgr email = Inr (reset_address mail mgr email)"
  using assms by (auto simp: reset_address_def normalizeAndValidateEmail_def split: sum.splits if_splits)

lemma spec_Resolve_Inr:
  assumes "spec_ResolveIdentity dr r a = (Inr user, b)"
  shows "googles b (ir_ProviderSubject r) = Some (user, ir_Email r)"
    and "ir_SubjectID r \<noteq> [] \<Longrightarrow> user = ir_SubjectID r"
    and "q \<noteq> ir_ProviderSubject r \<Longrightarrow> googles b q = googles a q" and "passwords b = passwords a"
    and "googles a (ir_ProviderSubject r) = None \<Longrightarrow> ir_SubjectID r = [] \<Longrightarrow> emails a (ir_Email r) = None"
  using assms
  by (auto simp: spec_ResolveIdentity_def link_google_def split: option.splits if_splits sum.splits prod.splits)

context account_store
begin

lemma Register_then_Login:
  assumes s: "email_service ep cr mgr" and o: "ok (aw_store w)" and fr: "fresh_tape view w"
    and guard: "em_attemptGuard mgr = None" and own: "verifies_own (em_passwords mgr) (em_passwords mgr) p"
    and run: "email_Register mail mgr email p k w = (Inr u, w1)" and same: "aw_store v = aw_store w1"
  shows "fst (email_Login mail mgr email p k' v) = Inr \<lparr>lr_User = u, lr_PasswordRehashed = False\<rparr> \<or>
    (\<exists>d. is_driver d \<and> fst (email_Login mail mgr email p k' v) = Inl (EWrap ''find email identity'' d))"
proof (rule Register_Inr [OF s o fr run])
  fix n wh h wh' t i ud
  assume a: "normalizeAndValidateEmail mail mgr email = Inr n" "pw_Hash (em_passwords mgr) p wh = (Inr h, wh')"
    "\<not> blank i" "ud_ID ud = i" "ud_Email ud = n" "u = \<lparr>eu_ID = i, eu_Email = n\<rparr>"
    "view (aw_store w1) = set_password i h t (insert_user ud (view (aw_store w)))" "ok (aw_store w1)"
  from own a(2) have h: "\<not> blank h" "pw_Verify (em_passwords mgr) p h = Inr \<lparr>ve_Matches = True, ve_NeedsRehash = False\<rparr>"
    unfolding verifies_own_def by blast+
  show ?thesis
    using Login_accepts [OF s _ guard a(1), of v i "\<lparr>pd_UserID = i, pd_PasswordHash = h, pd_UpdatedAt = t\<rparr>"]
      a h same by simp
qed

text \<open>The mailed token resets the password, and the new password logs in.\<close>

lemma ResetRequest_mailed:
  assumes st: "reset_service ps mgr" and ow: "\<not> overwrites" and o: "ok (aw_store w)"
    and run: "reset_Request mail sha mgr email k w = (x, w1)" and new: "aw_mail w1 = aw_mail w @ [m]"
  obtains h r u where "HashToken sha (ms_Token m) = Inr h" "ok (aw_store w1)" "ms_Email m = reset_address mail mgr email"
    "reset_tokens (view (aw_store w1)) h = Some (ms_UserID m)" "resets (view (aw_store w1)) (ms_UserID m) = Some r"
    "ot_ExpiresAt r = ms_ExpiresAt m" "users (view (aw_store w1)) (ms_UserID m) = Some u" "ud_Email u = ms_Email m"
    "emails (view (aw_store w1)) (ms_Email m) = Some (ms_UserID m)" "\<not> blank (ms_UserID m)"
    "reset_address mail mgr email \<noteq> []"
proof -
  from st run show ?thesis
  proof (cases rule: ResetRequest_issues)
    case still
    then show ?thesis using new by (simp add: still_def)
  next
    case (issued user)
    from issued(4) [OF o] obtain u where u: "emails (view (aw_store w)) (eu_Email user) = Some (eu_ID user)"
      "users (view (aw_store w)) (eu_ID user) = Some u" "ud_Email u = eu_Email user" by blast
    from issued(5) new obtain r where r: "reset_mail sha mgr user r m" "ok (aw_store w1)"
      "spec_IssueReset overwrites r (view (aw_store w)) (Inr ()) (view (aw_store w1))"
      using o by (auto simp: issues_def)
    with ow have sp: "spec_IssueReset False r (view (aw_store w)) (Inr ()) (view (aw_store w1))" by simp
    note q = spec_IssueReset_own [OF sp]
    show ?thesis
      by (rule that [of "ot_TokenHash r" r u]) (use r(1,2) q u issued(1-3) in \<open>simp_all add: reset_mail_def\<close>)
  qed
qed

lemma Request_then_Reset:
  assumes st: "reset_service ps mgr" and es: "email_service ep cr emgr" and ow: "\<not> overwrites" and o: "ok (aw_store w)"
    and guard: "pm_attemptGuard mgr = None" "em_attemptGuard emgr = None" "pm_validatePassword mgr = None"
    and norm: "em_normalizeEmail emgr = pm_normalizeEmail mgr"
    and own: "verifies_own (pm_passwords mgr) (em_passwords emgr) new"
    and run: "reset_Request mail sha mgr email k w = (x, w1)" and mail: "aw_mail w1 = aw_mail w @ [m]"
    and same: "aw_store v = aw_store w1" and live: "\<forall>n. clock v n < ms_ExpiresAt m"
    and new: "new \<noteq> []" "pw_Hash (pm_passwords mgr) new v = (Inr enc, v')"
  shows "case reset_Reset mail sha mgr (ms_Token m) new k2 v of
      (Inr user, v1) \<Rightarrow> user = \<lparr>eu_ID = ms_UserID m, eu_Email = ms_Email m\<rparr> \<and>
        (fst (email_Login mail emgr email new k3 v1) = Inr \<lparr>lr_User = user, lr_PasswordRehashed = False\<rparr> \<or>
         (\<exists>d. is_driver d \<and> fst (email_Login mail emgr email new k3 v1) = Inl (EWrap ''find email identity'' d)))
    | (Inl e, v1) \<Rightarrow> (\<exists>d. is_driver d \<and> e = EWrap ''reset password'' d) \<or> lossy \<and> e = EToken Token_ErrInvalidToken"
proof (rule ResetRequest_mailed [OF st ow o run mail])
  fix h r u
  assume h: "HashToken sha (ms_Token m) = Inr h" and o1: "ok (aw_store w1)"
    and a: "reset_tokens (view (aw_store w1)) h = Some (ms_UserID m)" "resets (view (aw_store w1)) (ms_UserID m) = Some r"
      "users (view (aw_store w1)) (ms_UserID m) = Some u"
    and b: "ot_ExpiresAt r = ms_ExpiresAt m" "ud_Email u = ms_Email m" "\<not> blank (ms_UserID m)"
      "emails (view (aw_store w1)) (ms_Email m) = Some (ms_UserID m)"
    and e: "ms_Email m = reset_address mail mgr email" "reset_address mail mgr email \<noteq> []"
  have ov: "ok (aw_store v)" using o1 same by simp
  obtain y v1 where y: "reset_Reset mail sha mgr (ms_Token m) new k2 v = (y, v1)" by fastforce
  have acc: "y = Inr \<lparr>eu_ID = ms_UserID m, eu_Email = ms_Email m\<rparr> \<or> (\<exists>d. is_driver d \<and> y = Inl (EWrap ''reset password'' d)) \<or>
      lossy \<and> y = Inl (EToken Token_ErrInvalidToken)"
    using Reset_accepts [OF st ov guard(1) new(1) guard(3) new(2) h, of "ms_UserID m" r u mail k2] a b live same y
      address_valid(2) [OF e(2)] e(1) by simp
  show ?thesis
  proof (cases y)
    case (Inr user)
    then have user: "user = \<lparr>eu_ID = ms_UserID m, eu_Email = ms_Email m\<rparr>" using acc by simp
    show ?thesis
    proof (rule Reset_Inr [OF st ov y [unfolded Inr]])
      fix h' wh enc' wh' n
      assume "HashToken sha (ms_Token m) = Inr h'" and ph: "pw_Hash (pm_passwords mgr) new wh = (Inr enc', wh')"
        and rf: "reset_fun h' enc' (clock v n) (view (aw_store v)) = (Inr user, view (aw_store v1))"
        and o2: "ok (aw_store v1)"
      with h have hh: "h' = h" by simp
      from rf obtain t where p: "passwords (view (aw_store v1)) (ms_UserID m) =
          Some \<lparr>pd_UserID = ms_UserID m, pd_PasswordHash = enc', pd_UpdatedAt = t\<rparr>"
        and em: "emails (view (aw_store v1)) (ms_Email m) = Some (ms_UserID m)"
        by (cases rule: reset_fun_Inr) (use user b(4) same in simp_all)
      from own ph have v: "\<not> blank enc'" "pw_Verify (em_passwords emgr) new enc' =
          Inr \<lparr>ve_Matches = True, ve_NeedsRehash = False\<rparr>" unfolding verifies_own_def by blast+
      show ?thesis
        using Login_accepts [OF es o2 guard(2) reset_address_normalized [OF norm e(2)] _ p b(3), of new k3] em e(1) v y Inr user
        by simp
    qed
  qed (use acc y in auto)
qed

lemma IsVerified_result:
  assumes st: "ver_service vs mgr" and o: "ok (aw_store w)"
    and rec: "emails (view (aw_store w)) (ver_address mail mgr email) = Some i" "users (view (aw_store w)) i = Some u"
      "ud_Email u = ver_address mail mgr email" and b: "\<not> blank i" "ver_address mail mgr email \<noteq> []"
  shows "fst (ver_IsVerified mail mgr email w) = Inr (ud_EmailVerified u) \<or>
    (\<exists>d. is_driver d \<and> fst (ver_IsVerified mail mgr email w) = Inl (EWrap ''find email verification status'' d))"
proof -
  let ?e = "ver_address mail mgr email"
  obtain x w1 where q: "on_accounts (vs_FindUserByEmail vs ?e) w = (x, w1)" by fastforce
  have st': "vm_store mgr = vs" using st by (simp add: ver_service_def)
  have "x = Inr \<lparr>vu_ID = i, vu_Email = ?e, vu_Verified = ud_EmailVerified u\<rparr> \<or> (\<exists>d. x = Inl d \<and> is_driver d)"
  proof (cases x)
    case (Inl d)
    then show ?thesis using op_Inl(1) [OF FindVerified o q [unfolded Inl]] rec by (auto simp: spec_FindVerified_def)
  next
    case (Inr y)
    then show ?thesis using op_Inr(1) [OF FindVerified o q [unfolded Inr]] rec by (auto simp: spec_FindVerified_def)
  qed
  then show ?thesis
    using q b address_valid(1) [OF b(2)] by (auto simp: ver_IsVerified_def Let_def st' ver_validUser_def driver_errors_is)
qed

text \<open>The mailed token or code verifies the address.\<close>

lemma Request_mailed:
  assumes st: "ver_service vs mgr" and ow: "\<not> overwrites" and o: "ok (aw_store w)"
    and run: "ver_Request mail sha hmac mgr email k w = (x, w1)" and new: "aw_mail w1 = aw_mail w @ [m]"
  obtains h r u where "hashVerificationInput sha hmac mgr (ms_Token m) (ms_Code m)
      (if vm_delivery mgr = DeliveryMethodOTP then ver_address mail mgr email else []) = Inr h" "ok (aw_store w1)"
    "ms_Email m = ver_address mail mgr email" "ver_address mail mgr email \<noteq> []" "\<not> blank (ms_UserID m)"
    "verification_tokens (view (aw_store w1)) h = Some (ms_UserID m)"
    "verifications (view (aw_store w1)) (ms_UserID m) = Some r" "ot_ExpiresAt r = ms_ExpiresAt m"
    "users (view (aw_store w1)) (ms_UserID m) = Some u" "ud_Email u = ms_Email m" "\<not> ud_EmailVerified u"
    "emails (view (aw_store w1)) (ms_Email m) = Some (ms_UserID m)"
proof -
  from st run show ?thesis
  proof (cases rule: Request_issues)
    case still
    then show ?thesis using new by (simp add: still_def)
  next
    case (issued user)
    from issued(5) [OF o] obtain u where u: "emails (view (aw_store w)) (vu_Email user) = Some (vu_ID user)"
      "users (view (aw_store w)) (vu_ID user) = Some u" "ud_Email u = vu_Email user" "\<not> ud_EmailVerified u" by blast
    from issued(6) new obtain r where r: "ver_mail sha hmac mgr user r m" "ok (aw_store w1)"
      "spec_IssueVerification overwrites r (view (aw_store w)) (Inr ()) (view (aw_store w1))"
      using o by (auto simp: issues_def)
    with ow have sp: "spec_IssueVerification False r (view (aw_store w)) (Inr ()) (view (aw_store w1))" by simp
    note q = spec_IssueVerification_own [OF sp]
    show ?thesis
      by (rule that [of "ot_TokenHash r" r u, OF hashVerificationInput_delivered])
        (use r(1,2) q u issued(1-4) in \<open>simp_all add: ver_mail_def\<close>)
  qed
qed

lemma Request_then_Verify:
  assumes st: "ver_service vs mgr" and ow: "\<not> overwrites" and o: "ok (aw_store w)" and guard: "vm_attemptGuard mgr = None"
    and run: "ver_Request mail sha hmac mgr email k w = (x, w1)" and mail: "aw_mail w1 = aw_mail w @ [m]"
    and same: "aw_store v = aw_store w1" and live: "\<forall>n. clock v n < ms_ExpiresAt m"
  shows "case ver_Verify mail sha hmac mgr (ms_Token m) email (ms_Code m) k2 v of
      (Inr user, v1) \<Rightarrow> user = \<lparr>vu_ID = ms_UserID m, vu_Email = ms_Email m, vu_Verified = True\<rparr> \<and>
        (fst (ver_IsVerified mail mgr email v1) = Inr True \<or>
         (\<exists>d. is_driver d \<and> fst (ver_IsVerified mail mgr email v1) = Inl (EWrap ''find email verification status'' d)))
    | (Inl e, v1) \<Rightarrow> (\<exists>d. is_driver d \<and> e = EWrap ''verify email'' d) \<or> lossy \<and> e = EToken Token_ErrInvalidToken"
proof (rule Request_mailed [OF st ow o run mail])
  fix h r u
  assume h: "hashVerificationInput sha hmac mgr (ms_Token m) (ms_Code m)
      (if vm_delivery mgr = DeliveryMethodOTP then ver_address mail mgr email else []) = Inr h"
    and o1: "ok (aw_store w1)" and e: "ms_Email m = ver_address mail mgr email" "ver_address mail mgr email \<noteq> []"
    and a: "verification_tokens (view (aw_store w1)) h = Some (ms_UserID m)"
      "verifications (view (aw_store w1)) (ms_UserID m) = Some r" "users (view (aw_store w1)) (ms_UserID m) = Some u"
    and b: "\<not> blank (ms_UserID m)" "ot_ExpiresAt r = ms_ExpiresAt m" "ud_Email u = ms_Email m" "\<not> ud_EmailVerified u"
      "emails (view (aw_store w1)) (ms_Email m) = Some (ms_UserID m)"
  have ov: "ok (aw_store v)" using o1 same by simp
  obtain y v1 where y: "ver_Verify mail sha hmac mgr (ms_Token m) email (ms_Code m) k2 v = (y, v1)" by fastforce
  have acc: "y = Inr \<lparr>vu_ID = ms_UserID m, vu_Email = ms_Email m, vu_Verified = True\<rparr> \<or>
      (\<exists>d. is_driver d \<and> y = Inl (EWrap ''verify email'' d)) \<or> lossy \<and> y = Inl (EToken Token_ErrInvalidToken)"
    using Verify_accepts [OF st ov guard h, of "ms_UserID m" r u k2] a b live same y
      address_valid(1) [OF e(2)] e(1) by simp
  show ?thesis
  proof (cases y)
    case (Inr user)
    then have user: "user = \<lparr>vu_ID = ms_UserID m, vu_Email = ms_Email m, vu_Verified = True\<rparr>" using acc by simp
    show ?thesis
    proof (rule Verify_Inr [OF st ov y [unfolded Inr]])
      fix h' n
      assume rf: "verify_fun h' (clock v n) (view (aw_store v)) = (Inr user, view (aw_store v1))" and o2: "ok (aw_store v1)"
      from rf have "users (view (aw_store v1)) (ms_UserID m) = Some (u\<lparr>ud_EmailVerified := True\<rparr>)"
        "emails (view (aw_store v1)) (ms_Email m) = Some (ms_UserID m)"
        by (cases rule: verify_fun_Inr; use user a(3) b(5) same in simp)+
      then show ?thesis
        using IsVerified_result [OF st o2, of mail email "ms_UserID m" "u\<lparr>ud_EmailVerified := True\<rparr>"] b(1,3) e y Inr user
        by simp
    qed
  qed (use acc y in auto)
qed

end

section \<open>Two adapters side by side\<close>

text \<open>Two operations that start from the same accounts and do not fail in the database do the same.\<close>

definition agree ::
  "('s \<Rightarrow> account_db) \<Rightarrow> ('s \<Rightarrow> bool) \<Rightarrow> ('t \<Rightarrow> account_db) \<Rightarrow> ('t \<Rightarrow> bool) \<Rightarrow>
     ('s \<Rightarrow> (err + 'r) \<times> 's) \<Rightarrow> ('t \<Rightarrow> (err + 'r) \<times> 't) \<Rightarrow> bool" where
  "agree view ok view' ok' op op' \<longleftrightarrow>
     (\<forall>s t. ok s \<and> ok' t \<and> view s = view' t \<and> \<not> (\<exists>e. is_driver e \<and> (fst (op s) = Inl e \<or> fst (op' t) = Inl e)) \<longrightarrow>
        fst (op s) = fst (op' t) \<and> view (snd (op s)) = view' (snd (op' t)))"

lemma agreeI:
  assumes "implements view ok op (fun_spec f)" and "implements view' ok' op' (fun_spec f)"
  shows "agree view ok view' ok' op op'"
  unfolding agree_def
proof (intro allI impI; elim conjE)
  fix s t
  assume a: "ok s" "ok' t" "view s = view' t" "\<not> (\<exists>e. is_driver e \<and> (fst (op s) = Inl e \<or> fst (op' t) = Inl e))"
  from assms(1) a(1) show "fst (op s) = fst (op' t) \<and> view (snd (op s)) = view' (snd (op' t))"
  proof (cases rule: implements_cases)
    case spec
    from assms(2) a(2) show ?thesis
      by (cases rule: implements_cases) (use a(3,4) spec in \<open>auto simp: fun_spec_def prod_eq_iff\<close>)
  qed (use a(4) in blast)
qed

text \<open>The operations of the account stores whose outcome the contract fixes.\<close>

definition stores_agree ::
  "('s \<Rightarrow> account_db) \<Rightarrow> ('s \<Rightarrow> bool) \<Rightarrow> ('t \<Rightarrow> account_db) \<Rightarrow> ('t \<Rightarrow> bool) \<Rightarrow>
     's EmailPasswordStore \<times> 's CredentialStore \<times> 's VerificationStore \<times> 's ResetStore \<times> 's GoogleStore \<Rightarrow>
     't EmailPasswordStore \<times> 't CredentialStore \<times> 't VerificationStore \<times> 't ResetStore \<times> 't GoogleStore \<Rightarrow> bool" where
  "stores_agree view ok view' ok' = (\<lambda>(ep, cr, vs, ps, gs) (ep', cr', vs', ps', gs').
     (\<forall>e. agree view ok view' ok' (es_FindByEmail ep e) (es_FindByEmail ep' e)) \<and>
     (\<forall>i c r t. agree view ok view' ok' (es_ReplacePasswordHash ep i c r t) (es_ReplacePasswordHash ep' i c r t)) \<and>
     (\<forall>i. agree view ok view' ok' (cs_FindBySubject cr i) (cs_FindBySubject cr' i)) \<and>
     (\<forall>i p t. agree view ok view' ok' (cs_AddPassword cr i p t) (cs_AddPassword cr' i p t)) \<and>
     (\<forall>i c t. agree view ok view' ok' (cs_RemovePassword cr i c t) (cs_RemovePassword cr' i c t)) \<and>
     (\<forall>e. agree view ok view' ok' (vs_FindUserByEmail vs e) (vs_FindUserByEmail vs' e)) \<and>
     (\<forall>e. agree view ok view' ok' (ps_FindUserByEmail ps e) (ps_FindUserByEmail ps' e)) \<and>
     (\<forall>c. agree view ok view' ok' (gs_CreateChallenge gs c) (gs_CreateChallenge gs' c)) \<and>
     (\<forall>h t. agree view ok view' ok' (gs_ConsumeChallenge gs h t) (gs_ConsumeChallenge gs' h t)) \<and>
     (\<forall>i t. agree view ok view' ok' (gs_UnlinkIdentity gs i t) (gs_UnlinkIdentity gs' i t)))"

lemma stores_agreeI:
  assumes "account_store ep cr vs ps gs view ok ow lossy" and "account_store ep' cr' vs' ps' gs' view' ok' ow' lossy'"
  shows "stores_agree view ok view' ok' (ep, cr, vs, ps, gs) (ep', cr', vs', ps', gs')"
  unfolding stores_agree_def prod.case
  by (intro conjI allI; rule agreeI;
      rule account_store.FindByEmail account_store.ReplaceHash account_store.FindBySubject account_store.AddPassword
        account_store.RemovePassword account_store.FindVerified account_store.FindReset account_store.CreateChallenge
        account_store.ConsumeChallenge account_store.UnlinkIdentity, rule assms)

end
