(* ===== verification/AccountTables.thy ===== *)
theory AccountTables
  imports AccountSafety
begin

text \<open>
  The tables of the accounts that the PostgreSQL and the MySQL adapter share, with the unique keys and the
  references of the two schemas (\<^verbatim>\<open>authlier_users\<close>, \<^verbatim>\<open>authlier_password_credentials\<close>,
  \<^verbatim>\<open>authlier_google_identities\<close> with its unique \<^verbatim>\<open>user_id\<close>, \<^verbatim>\<open>authlier_email_verifications\<close>,
  \<^verbatim>\<open>authlier_password_resets\<close>, \<^verbatim>\<open>authlier_google_challenges\<close>). Of \<^verbatim>\<open>authlier_passkey_credentials\<close> only the
  column \<^verbatim>\<open>subject_id\<close> matters here.
\<close>

record googleRow =
  gi_ProviderSubject :: string
  gi_UserID :: string
  gi_Email :: string
  gi_LinkedAt :: time

record account_tables =
  t_users :: "userDocument list"
  t_passwords :: "passwordDocument list"
  t_googles :: "googleRow list"
  t_verifications :: "OneTimeRecord list"
  t_resets :: "OneTimeRecord list"
  t_challenges :: "GoogleChallenge list"
  t_passkeys :: "string list"

type_synonym account_conn = "account_tables conn"

definition account_tables_ok :: "account_tables \<Rightarrow> bool" where
  "account_tables_ok d \<longleftrightarrow>
     distinct (map ud_ID (t_users d)) \<and> distinct (map ud_Email (t_users d)) \<and>
     distinct (map pd_UserID (t_passwords d)) \<and> pd_UserID ` set (t_passwords d) \<subseteq> ud_ID ` set (t_users d) \<and>
     distinct (map gi_ProviderSubject (t_googles d)) \<and> distinct (map gi_UserID (t_googles d)) \<and>
     gi_UserID ` set (t_googles d) \<subseteq> ud_ID ` set (t_users d) \<and>
     distinct (map ot_UserID (t_verifications d)) \<and> distinct (map ot_TokenHash (t_verifications d)) \<and>
     distinct (map ot_UserID (t_resets d)) \<and> distinct (map ot_TokenHash (t_resets d)) \<and>
     distinct (map gc_StateHash (t_challenges d))"

text \<open>The abstract accounts of the tables.\<close>

definition index :: "('r \<Rightarrow> 'k) \<Rightarrow> ('r \<Rightarrow> 'v) \<Rightarrow> 'r list \<Rightarrow> ('k \<rightharpoonup> 'v)" where
  "index k f t = (\<lambda>x. map_option f (keyed k t x))"

definition accounts_view :: "account_tables \<Rightarrow> account_db" where
  "accounts_view d =
     \<lparr>users = keyed ud_ID (t_users d), emails = index ud_Email ud_ID (t_users d),
      passwords = keyed pd_UserID (t_passwords d),
      googles = index gi_ProviderSubject (\<lambda>g. (gi_UserID g, gi_Email g)) (t_googles d),
      verifications = keyed ot_UserID (t_verifications d),
      verification_tokens = index ot_TokenHash ot_UserID (t_verifications d),
      resets = keyed ot_UserID (t_resets d), reset_tokens = index ot_TokenHash ot_UserID (t_resets d),
      challenges = keyed gc_StateHash (t_challenges d), passkeys = count_list (t_passkeys d)\<rparr>"

definition account_view :: "account_conn \<Rightarrow> account_db" where
  "account_view c = accounts_view (tables c)"

definition account_ok :: "account_conn \<Rightarrow> bool" where
  "account_ok c \<longleftrightarrow> account_tables_ok (tables c)"

section \<open>Statements\<close>

text \<open>\<^verbatim>\<open>QueryRow(...).Scan(...)\<close> where no row is no error.\<close>

definition opt_row :: "'r list \<Rightarrow> 'r option" where
  "opt_row rows = (case rows of [] \<Rightarrow> None | r # _ \<Rightarrow> Some r)"

text \<open>\<^verbatim>\<open>FROM x JOIN y ON y.k2 = x.k1 WHERE p(x)\<close>\<close>

definition sql_join :: "('x \<Rightarrow> 'k) \<Rightarrow> ('y \<Rightarrow> 'k) \<Rightarrow> ('x \<Rightarrow> bool) \<Rightarrow> 'x list \<Rightarrow> 'y list \<Rightarrow> ('x \<times> 'y) list" where
  "sql_join k1 k2 p xs ys =
     concat (map (\<lambda>x. map (Pair x) (sql_select (\<lambda>y. k2 y = k1 x) ys)) (sql_select p xs))"

definition foreign_key_error :: err where
  "foreign_key_error = EDriver ''foreign key''"

definition insert_user_row :: "userDocument \<Rightarrow> account_tables \<Rightarrow> (err + unit) \<times> account_tables" where
  "insert_user_row u d =
     (case sql_insert (\<lambda>x y. ud_ID x = ud_ID y \<or> ud_Email x = ud_Email y \<or>
               ud_WebAuthnHandle x = ud_WebAuthnHandle y) u (t_users d) of
        (r, t) \<Rightarrow> (r, d\<lparr>t_users := t\<rparr>))"

definition references_user :: "string \<Rightarrow> account_tables \<Rightarrow> bool" where
  "references_user i d \<longleftrightarrow> list_ex (\<lambda>u. ud_ID u = i) (t_users d)"

definition insert_password_row :: "passwordDocument \<Rightarrow> account_tables \<Rightarrow> (err + unit) \<times> account_tables" where
  "insert_password_row p d =
     (case sql_insert (\<lambda>x y. pd_UserID x = pd_UserID y) p (t_passwords d) of
        (Inl e, _) \<Rightarrow> (Inl e, d)
      | (Inr _, t) \<Rightarrow> if references_user (pd_UserID p) d then (Inr (), d\<lparr>t_passwords := t\<rparr>)
                     else (Inl foreign_key_error, d))"

text \<open>\<^verbatim>\<open>INSERT ... ON CONFLICT (user_id) DO UPDATE\<close> of a password, and MySQL's equivalent.\<close>

definition upsert_password_row :: "passwordDocument \<Rightarrow> account_tables \<Rightarrow> (err + unit) \<times> account_tables" where
  "upsert_password_row p d =
     (if list_ex (\<lambda>x. pd_UserID x = pd_UserID p) (t_passwords d)
      then (Inr (), d\<lparr>t_passwords := map (\<lambda>x. if pd_UserID x = pd_UserID p
              then x\<lparr>pd_PasswordHash := pd_PasswordHash p, pd_UpdatedAt := pd_UpdatedAt p\<rparr> else x) (t_passwords d)\<rparr>)
      else insert_password_row p d)"

definition insert_google_row :: "googleRow \<Rightarrow> account_tables \<Rightarrow> (err + unit) \<times> account_tables" where
  "insert_google_row g d =
     (case sql_insert (\<lambda>x y. gi_ProviderSubject x = gi_ProviderSubject y \<or> gi_UserID x = gi_UserID y) g (t_googles d) of
        (Inl e, _) \<Rightarrow> (Inl e, d)
      | (Inr _, t) \<Rightarrow> if references_user (gi_UserID g) d then (Inr (), d\<lparr>t_googles := t\<rparr>)
                     else (Inl foreign_key_error, d))"

definition insert_challenge_row :: "GoogleChallenge \<Rightarrow> account_tables \<Rightarrow> (err + unit) \<times> account_tables" where
  "insert_challenge_row c d =
     (case sql_insert (\<lambda>x y. gc_StateHash x = gc_StateHash y) c (t_challenges d) of
        (r, t) \<Rightarrow> (r, d\<lparr>t_challenges := t\<rparr>))"

section \<open>The tables as the maps of the contract\<close>

lemma accounts_view_simps [simp]:
  "users (accounts_view d) = keyed ud_ID (t_users d)"
  "emails (accounts_view d) = index ud_Email ud_ID (t_users d)"
  "passwords (accounts_view d) = keyed pd_UserID (t_passwords d)"
  "googles (accounts_view d) = index gi_ProviderSubject (\<lambda>g. (gi_UserID g, gi_Email g)) (t_googles d)"
  "verifications (accounts_view d) = keyed ot_UserID (t_verifications d)"
  "verification_tokens (accounts_view d) = index ot_TokenHash ot_UserID (t_verifications d)"
  "resets (accounts_view d) = keyed ot_UserID (t_resets d)"
  "reset_tokens (accounts_view d) = index ot_TokenHash ot_UserID (t_resets d)"
  "challenges (accounts_view d) = keyed gc_StateHash (t_challenges d)"
  "passkeys (accounts_view d) = count_list (t_passkeys d)"
  by (simp_all add: accounts_view_def)

lemma account_tables_okD:
  assumes "account_tables_ok d"
  shows "distinct (map ud_ID (t_users d))" "distinct (map ud_Email (t_users d))"
    "distinct (map pd_UserID (t_passwords d))" "distinct (map gi_ProviderSubject (t_googles d))"
    "distinct (map gi_UserID (t_googles d))"
    "distinct (map ot_UserID (t_verifications d))" "distinct (map ot_TokenHash (t_verifications d))"
    "distinct (map ot_UserID (t_resets d))" "distinct (map ot_TokenHash (t_resets d))"
    "distinct (map gc_StateHash (t_challenges d))"
  using assms by (simp_all add: account_tables_ok_def)

lemma index_Some: "distinct (map k t) \<Longrightarrow> (index k f t x = Some v) = (\<exists>r\<in>set t. k r = x \<and> v = f r)"
  by (auto simp: index_def keyed_Some)

lemma index_None: "(index k f t x = None) = (\<forall>r\<in>set t. k r \<noteq> x)"
  by (simp add: index_def keyed_None)

lemma list_ex_keyed: "list_ex (\<lambda>x. k x = y) t = (keyed k t y \<noteq> None)" "list_ex (\<lambda>x. y = k x) t = (keyed k t y \<noteq> None)"
  by (auto simp: keyed_None list_ex_iff)

lemma one_time_view:
  assumes "distinct (map ot_UserID t)" and "distinct (map ot_TokenHash t)"
  shows "one_time_ok (keyed ot_UserID t) (index ot_TokenHash ot_UserID t)"
  using assms unfolding one_time_ok_def by (auto simp: keyed_Some index_Some)

lemma accounts_view_ok:
  assumes "account_tables_ok d" shows "accounts_ok (accounts_view d)"
proof -
  note D = account_tables_okD [OF assms]
  have fk: "r \<in> set (t_passwords d) \<Longrightarrow> \<exists>u\<in>set (t_users d). ud_ID u = pd_UserID r"
    "g \<in> set (t_googles d) \<Longrightarrow> \<exists>u\<in>set (t_users d). ud_ID u = gi_UserID g" for r g
    using assms unfolding account_tables_ok_def by (metis image_eqI image_iff subsetD)+
  have one: "gi_ProviderSubject g = gi_ProviderSubject h" if "g \<in> set (t_googles d)" "h \<in> set (t_googles d)"
    "gi_UserID g = gi_UserID h" for g h
    using D(5) that by (auto simp: distinct_map dest: inj_onD)
  show ?thesis
    unfolding accounts_ok_def
  proof (intro conjI)
    show "\<forall>i u. users (accounts_view d) i = Some u \<longrightarrow> ud_ID u = i \<and> emails (accounts_view d) (ud_Email u) = Some i"
      using D by (auto simp: keyed_Some index_Some)
    show "\<forall>e i. emails (accounts_view d) e = Some i \<longrightarrow>
        (\<exists>u. users (accounts_view d) i = Some u \<and> ud_Email u = e)"
      using D by (auto simp: keyed_Some index_Some)
    show "\<forall>i p. passwords (accounts_view d) i = Some p \<longrightarrow> pd_UserID p = i \<and> users (accounts_view d) i \<noteq> None"
      using D fk(1) by (auto simp: keyed_Some keyed_None)
    show "\<forall>p i e. googles (accounts_view d) p = Some (i, e) \<longrightarrow> users (accounts_view d) i \<noteq> None"
      using D fk(2) by (auto simp: index_Some keyed_None)
    show "\<forall>p q i e f. googles (accounts_view d) p = Some (i, e) \<and> googles (accounts_view d) q = Some (i, f) \<longrightarrow> p = q"
    proof (intro allI impI, elim conjE)
      fix p q i e f
      assume "googles (accounts_view d) p = Some (i, e)" "googles (accounts_view d) q = Some (i, f)"
      then obtain g h where "g \<in> set (t_googles d)" "gi_ProviderSubject g = p" "gi_UserID g = i"
        "h \<in> set (t_googles d)" "gi_ProviderSubject h = q" "gi_UserID h = i"
        using D(4) by (auto simp: index_Some)
      then show "p = q" using one [of g h] by simp
    qed
    show "one_time_ok (verifications (accounts_view d)) (verification_tokens (accounts_view d))"
      "one_time_ok (resets (accounts_view d)) (reset_tokens (accounts_view d))"
      using D by (simp_all add: one_time_view)
    show "\<forall>h c. challenges (accounts_view d) h = Some c \<longrightarrow> gc_StateHash c = h"
      using D by (auto simp: keyed_Some)
  qed
qed


text \<open>The effect of each statement on the maps.\<close>

lemma index_append:
  "keyed k t (k r) = None \<Longrightarrow> index k f (t @ [r]) = (index k f t)(k r \<mapsto> f r)"
  by (rule ext) (simp add: index_def keyed_append keyed_None)

lemma keyed_append': "keyed k t (k r) = None \<Longrightarrow> keyed k (t @ [r]) = (keyed k t)(k r \<mapsto> r)"
  by (simp add: keyed_append keyed_None)

lemma insert_user_row_eq:
  "insert_user_row u d =
     (if list_ex (\<lambda>x. ud_ID u = ud_ID x \<or> ud_Email u = ud_Email x \<or> ud_WebAuthnHandle u = ud_WebAuthnHandle x) (t_users d)
      then (Inl EUnique, d) else (Inr (), d\<lparr>t_users := t_users d @ [u]\<rparr>))"
  by (simp add: insert_user_row_def sql_insert_def)

lemma insert_user_view:
  assumes "account_tables_ok d" and "keyed ud_ID (t_users d) (ud_ID u) = None"
    and "keyed ud_Email (t_users d) (ud_Email u) = None"
  shows "account_tables_ok (d\<lparr>t_users := t_users d @ [u]\<rparr>)"
    and "accounts_view (d\<lparr>t_users := t_users d @ [u]\<rparr>) = insert_user u (accounts_view d)"
  using assms
  by (auto simp: account_tables_ok_def accounts_view_def insert_user_def keyed_append' index_append keyed_None)

text \<open>Under fresh draws the new row collides with an email at most.\<close>

lemma insert_user_fresh:
  assumes "account_tables_ok d" and "draws_fresh dr (accounts_view d)" and "new_user e v t dr = Inr u"
  shows "insert_user_row u d =
    (if emails (accounts_view d) e \<noteq> None then (Inl EUnique, d) else (Inr (), d\<lparr>t_users := t_users d @ [u]\<rparr>))"
    and "keyed ud_ID (t_users d) (ud_ID u) = None" and "ud_Email u = e" and "ud_EmailVerified u = v"
proof -
  have u: "ud_Email u = e" "dr_uuid dr = Inr (ud_ID u)" "dr_handle dr = Inr (ud_WebAuthnHandle u)" "ud_EmailVerified u = v"
    using assms(3) by (auto simp: new_user_def split: sum.splits)
  show n: "keyed ud_ID (t_users d) (ud_ID u) = None" using assms(2) u by (auto simp: draws_fresh_def)
  have "ud_WebAuthnHandle x \<noteq> ud_WebAuthnHandle u" if "x \<in> set (t_users d)" for x
    using assms(2) u that account_tables_okD(1) [OF assms(1)]
    by (auto simp: draws_fresh_def keyed_Some)
  then have h: "\<not> list_ex (\<lambda>x. ud_WebAuthnHandle u = ud_WebAuthnHandle x) (t_users d)"
    unfolding list_ex_iff by metis
  have "list_ex (\<lambda>x. ud_ID u = ud_ID x \<or> ud_Email u = ud_Email x \<or> ud_WebAuthnHandle u = ud_WebAuthnHandle x) (t_users d) =
      (emails (accounts_view d) e \<noteq> None)"
    using n h u(1) unfolding list_ex_iff keyed_None accounts_view_simps index_None by metis
  then show "insert_user_row u d =
    (if emails (accounts_view d) e \<noteq> None then (Inl EUnique, d) else (Inr (), d\<lparr>t_users := t_users d @ [u]\<rparr>))"
    by (simp add: insert_user_row_eq)
  show "ud_Email u = e" "ud_EmailVerified u = v" by (fact u)+
qed

lemma references_user_view: "references_user i d = (users (accounts_view d) i \<noteq> None)"
  by (simp add: references_user_def list_ex_keyed)

lemma references_user_simps [simp]:
  "references_user i (d\<lparr>t_passwords := p\<rparr>) = references_user i d"
  "references_user i (d\<lparr>t_users := t @ [u]\<rparr>) = (references_user i (d\<lparr>t_users := t\<rparr>) \<or> ud_ID u = i)"
  by (simp_all add: references_user_def)

lemma insert_password_row_eq:
  "insert_password_row p d =
     (if passwords (accounts_view d) (pd_UserID p) \<noteq> None then (Inl EUnique, d)
      else if users (accounts_view d) (pd_UserID p) = None then (Inl foreign_key_error, d)
      else (Inr (), d\<lparr>t_passwords := t_passwords d @ [p]\<rparr>))"
  by (simp add: insert_password_row_def sql_insert_def list_ex_keyed references_user_view)

lemma insert_password_view:
  assumes "account_tables_ok d" and "keyed pd_UserID (t_passwords d) (pd_UserID p) = None"
    and "users (accounts_view d) (pd_UserID p) \<noteq> None"
  shows "account_tables_ok (d\<lparr>t_passwords := t_passwords d @ [p]\<rparr>)"
    and "accounts_view (d\<lparr>t_passwords := t_passwords d @ [p]\<rparr>) =
      set_password (pd_UserID p) (pd_PasswordHash p) (pd_UpdatedAt p) (accounts_view d)"
  using assms
  by (auto simp: account_tables_ok_def accounts_view_def set_password_def keyed_append' keyed_None
      intro: rev_image_eqI)

lemma update_password_view:
  assumes "account_tables_ok d" and "keyed pd_UserID (t_passwords d) i = Some p"
    and "\<And>x. x \<in> set (t_passwords d) \<Longrightarrow> q x = (pd_UserID x = i)"
  shows "account_tables_ok (d\<lparr>t_passwords := map (\<lambda>x. if q x
        then x\<lparr>pd_PasswordHash := h, pd_UpdatedAt := t\<rparr> else x) (t_passwords d)\<rparr>)"
    and "accounts_view (d\<lparr>t_passwords := map (\<lambda>x. if q x
        then x\<lparr>pd_PasswordHash := h, pd_UpdatedAt := t\<rparr> else x) (t_passwords d)\<rparr>) =
      set_password i h t (accounts_view d)"
proof -
  let ?f = "\<lambda>x. x\<lparr>pd_PasswordHash := h, pd_UpdatedAt := t\<rparr>"
  have m: "map (\<lambda>x. if q x then ?f x else x) (t_passwords d) =
      map (\<lambda>x. if pd_UserID x = i then ?f x else x) (t_passwords d)"
    using assms(3) by simp
  have k: "map pd_UserID (map (\<lambda>x. if pd_UserID x = i then ?f x else x) (t_passwords d)) = map pd_UserID (t_passwords d)"
    by simp
  then have s: "pd_UserID ` set (map (\<lambda>x. if pd_UserID x = i then ?f x else x) (t_passwords d)) = pd_UserID ` set (t_passwords d)"
    by (metis list.set_map)
  show "account_tables_ok (d\<lparr>t_passwords := map (\<lambda>x. if q x then ?f x else x) (t_passwords d)\<rparr>)"
    using assms(1) k s unfolding m account_tables_ok_def by (simp del: map_map set_map)
  have "pd_UserID p = i" using keyed_key [OF assms(2)] .
  then have "?f p = \<lparr>pd_UserID = i, pd_PasswordHash = h, pd_UpdatedAt = t\<rparr>" by (cases p) simp
  moreover have "keyed pd_UserID (map (\<lambda>x. if pd_UserID x = i then ?f x else x) (t_passwords d)) =
      (keyed pd_UserID (t_passwords d))(i \<mapsto> ?f p)"
    using keyed_update_key [of pd_UserID "t_passwords d" ?f i] account_tables_okD(3) [OF assms(1)] assms(2) by simp
  ultimately show "accounts_view (d\<lparr>t_passwords := map (\<lambda>x. if q x then ?f x else x) (t_passwords d)\<rparr>) =
      set_password i h t (accounts_view d)"
    unfolding m by (simp add: accounts_view_def set_password_def)
qed

lemma keyed_filter_key:
  "keyed k (filter (\<lambda>r. k r \<noteq> i) t) = (keyed k t)(i := None)"
  by (induction t) (auto simp: fun_eq_iff)

lemma delete_password_view:
  assumes "account_tables_ok d"
  shows "account_tables_ok (d\<lparr>t_passwords := filter (\<lambda>x. pd_UserID x \<noteq> i) (t_passwords d)\<rparr>)"
    and "accounts_view (d\<lparr>t_passwords := filter (\<lambda>x. pd_UserID x \<noteq> i) (t_passwords d)\<rparr>) =
      (accounts_view d)\<lparr>passwords := (passwords (accounts_view d))(i := None)\<rparr>"
  using assms by (auto simp: account_tables_ok_def accounts_view_def keyed_filter_key distinct_map_filter)


text \<open>Google identities.\<close>

lemma has_google_rows:
  assumes "account_tables_ok d"
  shows "has_google (accounts_view d) i = (\<exists>g\<in>set (t_googles d). gi_UserID g = i)"
  by (auto simp: has_google_def index_Some [OF account_tables_okD(4) [OF assms]])

lemma insert_google_row_eq:
  assumes "account_tables_ok d"
  shows "insert_google_row g d =
     (if googles (accounts_view d) (gi_ProviderSubject g) \<noteq> None \<or> has_google (accounts_view d) (gi_UserID g)
      then (Inl EUnique, d)
      else if users (accounts_view d) (gi_UserID g) = None then (Inl foreign_key_error, d)
      else (Inr (), d\<lparr>t_googles := t_googles d @ [g]\<rparr>))"
proof -
  have "list_ex (\<lambda>x. gi_ProviderSubject g = gi_ProviderSubject x \<or> gi_UserID g = gi_UserID x) (t_googles d) =
      (googles (accounts_view d) (gi_ProviderSubject g) \<noteq> None \<or> has_google (accounts_view d) (gi_UserID g))"
    unfolding has_google_rows [OF assms] list_ex_iff accounts_view_simps index_None by metis
  then show ?thesis by (simp add: insert_google_row_def sql_insert_def references_user_view)
qed

lemma google_filter:
  assumes "account_tables_ok d"
  shows "(filter (\<lambda>g. gi_UserID g = i) (t_googles d) = []) = (\<not> has_google (accounts_view d) i)"
  by (auto simp: has_google_rows [OF assms] filter_empty_conv)

lemma insert_google_view:
  assumes "account_tables_ok d" and "googles (accounts_view d) (gi_ProviderSubject g) = None"
    and "\<not> has_google (accounts_view d) (gi_UserID g)" and "users (accounts_view d) (gi_UserID g) \<noteq> None"
  shows "account_tables_ok (d\<lparr>t_googles := t_googles d @ [g]\<rparr>)"
    and "accounts_view (d\<lparr>t_googles := t_googles d @ [g]\<rparr>) =
      link_google (gi_ProviderSubject g) (gi_UserID g) (gi_Email g) (accounts_view d)"
  using assms(1,2,4) assms(3) [unfolded has_google_rows [OF assms(1)]]
  by (auto simp: account_tables_ok_def accounts_view_def link_google_def index_append keyed_None index_None
      intro: rev_image_eqI)

lemma update_google_view:
  assumes "account_tables_ok d" and "keyed gi_ProviderSubject (t_googles d) p = Some g"
  shows "account_tables_ok (d\<lparr>t_googles := map (\<lambda>x. if gi_ProviderSubject x = p then x\<lparr>gi_Email := e\<rparr> else x) (t_googles d)\<rparr>)"
    and "accounts_view (d\<lparr>t_googles := map (\<lambda>x. if gi_ProviderSubject x = p then x\<lparr>gi_Email := e\<rparr> else x) (t_googles d)\<rparr>) =
      link_google p (gi_UserID g) e (accounts_view d)"
proof -
  let ?m = "map (\<lambda>x. if gi_ProviderSubject x = p then x\<lparr>gi_Email := e\<rparr> else x) (t_googles d)"
  have k: "map gi_ProviderSubject ?m = map gi_ProviderSubject (t_googles d)" "map gi_UserID ?m = map gi_UserID (t_googles d)"
    by simp_all
  then have s: "gi_UserID ` set ?m = gi_UserID ` set (t_googles d)" by (metis list.set_map)
  show "account_tables_ok (d\<lparr>t_googles := ?m\<rparr>)"
    using assms(1) k s unfolding account_tables_ok_def by (simp del: map_map set_map)
  have "keyed gi_ProviderSubject ?m = (keyed gi_ProviderSubject (t_googles d))(p \<mapsto> g\<lparr>gi_Email := e\<rparr>)"
    using keyed_update_key [of gi_ProviderSubject "t_googles d" "\<lambda>x. x\<lparr>gi_Email := e\<rparr>" p]
      account_tables_okD(4) [OF assms(1)] assms(2) by simp
  then show "accounts_view (d\<lparr>t_googles := ?m\<rparr>) = link_google p (gi_UserID g) e (accounts_view d)"
    by (auto simp: accounts_view_def link_google_def index_def)
qed

lemma delete_google_view:
  assumes "account_tables_ok d"
  shows "account_tables_ok (d\<lparr>t_googles := filter (\<lambda>x. gi_UserID x \<noteq> i) (t_googles d)\<rparr>)"
    and "accounts_view (d\<lparr>t_googles := filter (\<lambda>x. gi_UserID x \<noteq> i) (t_googles d)\<rparr>) =
      (accounts_view d)\<lparr>googles := (\<lambda>p. case googles (accounts_view d) p of None \<Rightarrow> None
        | Some (j, e) \<Rightarrow> if j = i then None else Some (j, e))\<rparr>"
proof -
  have k: "keyed gi_ProviderSubject (filter (\<lambda>x. gi_UserID x \<noteq> i) t) p =
      (case keyed gi_ProviderSubject t p of None \<Rightarrow> None | Some g \<Rightarrow> if gi_UserID g = i then None else Some g)"
    if "distinct (map gi_ProviderSubject t)" for t p
    using that
  proof (induction t)
    case (Cons g t)
    then show ?case
      by (auto simp: keyed_None split: option.splits dest: keyed_key)
        (metis (mono_tags, lifting) image_eqI keyed_None option.exhaust_sel option.simps(3))?
  qed simp
  show "account_tables_ok (d\<lparr>t_googles := filter (\<lambda>x. gi_UserID x \<noteq> i) (t_googles d)\<rparr>)"
    using assms by (auto simp: account_tables_ok_def distinct_map_filter)
  show "accounts_view (d\<lparr>t_googles := filter (\<lambda>x. gi_UserID x \<noteq> i) (t_googles d)\<rparr>) =
      (accounts_view d)\<lparr>googles := (\<lambda>p. case googles (accounts_view d) p of None \<Rightarrow> None
        | Some (j, e) \<Rightarrow> if j = i then None else Some (j, e))\<rparr>"
    using k [OF account_tables_okD(4) [OF assms]]
    by (auto simp: accounts_view_def index_def fun_eq_iff split: option.split)
qed

text \<open>Challenges.\<close>

lemma insert_challenge_row_eq:
  "insert_challenge_row c d =
     (if challenges (accounts_view d) (gc_StateHash c) \<noteq> None then (Inl EUnique, d)
      else (Inr (), d\<lparr>t_challenges := t_challenges d @ [c]\<rparr>))"
  by (simp add: insert_challenge_row_def sql_insert_def list_ex_keyed)

lemma insert_challenge_view:
  assumes "account_tables_ok d" and "keyed gc_StateHash (t_challenges d) (gc_StateHash c) = None"
  shows "account_tables_ok (d\<lparr>t_challenges := t_challenges d @ [c]\<rparr>)"
    and "accounts_view (d\<lparr>t_challenges := t_challenges d @ [c]\<rparr>) =
      (accounts_view d)\<lparr>challenges := (challenges (accounts_view d))(gc_StateHash c \<mapsto> c)\<rparr>"
  using assms by (auto simp: account_tables_ok_def accounts_view_def keyed_append' keyed_None)

lemma delete_challenge_view:
  assumes "account_tables_ok d"
  shows "account_tables_ok (d\<lparr>t_challenges := filter (\<lambda>c. gc_StateHash c \<noteq> h) (t_challenges d)\<rparr>)"
    and "accounts_view (d\<lparr>t_challenges := filter (\<lambda>c. gc_StateHash c \<noteq> h) (t_challenges d)\<rparr>) =
      (accounts_view d)\<lparr>challenges := (challenges (accounts_view d))(h := None)\<rparr>"
  using assms by (auto simp: account_tables_ok_def accounts_view_def keyed_filter_key distinct_map_filter)

text \<open>A verified user.\<close>

lemma set_verified_view:
  assumes "account_tables_ok d" and "keyed ud_ID (t_users d) i = Some u"
  shows "account_tables_ok (d\<lparr>t_users := map (\<lambda>x. if ud_ID x = i then x\<lparr>ud_EmailVerified := True\<rparr> else x) (t_users d)\<rparr>)"
    and "accounts_view (d\<lparr>t_users := map (\<lambda>x. if ud_ID x = i then x\<lparr>ud_EmailVerified := True\<rparr> else x) (t_users d)\<rparr>) =
      (accounts_view d)\<lparr>users := (users (accounts_view d))(i \<mapsto> u\<lparr>ud_EmailVerified := True\<rparr>)\<rparr>"
proof -
  let ?f = "\<lambda>x. if ud_ID x = i then x\<lparr>ud_EmailVerified := True\<rparr> else x"
  let ?m = "map ?f (t_users d)"
  have k: "map ud_ID ?m = map ud_ID (t_users d)" "map ud_Email ?m = map ud_Email (t_users d)" by simp_all
  then have s: "ud_ID ` set ?m = ud_ID ` set (t_users d)" by (metis list.set_map)
  show "account_tables_ok (d\<lparr>t_users := ?m\<rparr>)"
    using assms(1) k s unfolding account_tables_ok_def by (simp del: map_map set_map)
  have "keyed ud_ID ?m = (keyed ud_ID (t_users d))(i \<mapsto> u\<lparr>ud_EmailVerified := True\<rparr>)"
    using keyed_update_key [of ud_ID "t_users d" "\<lambda>x. x\<lparr>ud_EmailVerified := True\<rparr>" i]
      account_tables_okD(1) [OF assms(1)] assms(2) by simp
  moreover have "index ud_Email ud_ID ?m = index ud_Email ud_ID (t_users d)"
  proof
    fix e
    have "keyed ud_Email ?m e = map_option ?f (keyed ud_Email (t_users d) e)" by (rule keyed_map) simp
    then show "index ud_Email ud_ID ?m e = index ud_Email ud_ID (t_users d) e"
      by (simp add: index_def option.map_comp comp_def if_distrib cong: if_cong)
  qed
  ultimately show "accounts_view (d\<lparr>t_users := ?m\<rparr>) =
      (accounts_view d)\<lparr>users := (users (accounts_view d))(i \<mapsto> u\<lparr>ud_EmailVerified := True\<rparr>)\<rparr>"
    by (simp add: accounts_view_def)
qed

section \<open>One-time records\<close>

text \<open>
  \<^verbatim>\<open>INSERT ... ON CONFLICT (user_id) DO UPDATE\<close> (PostgreSQL) and \<^verbatim>\<open>INSERT ... ON DUPLICATE KEY UPDATE\<close>
  (MySQL) into a table with the unique keys \<^verbatim>\<open>user_id\<close> and \<^verbatim>\<open>token_hash\<close>. Both update the row of the user
  if there is one. Otherwise PostgreSQL reports a duplicate token hash, while MySQL updates the row that
  has it, whoever it belongs to.
\<close>

definition update_one_time :: "OneTimeRecord \<Rightarrow> (OneTimeRecord \<Rightarrow> bool) \<Rightarrow> OneTimeRecord list \<Rightarrow> OneTimeRecord list" where
  "update_one_time r p t = map (\<lambda>x. if p x then r\<lparr>ot_UserID := ot_UserID x\<rparr> else x) t"

definition pg_upsert_one_time ::
  "bool \<Rightarrow> OneTimeRecord \<Rightarrow> OneTimeRecord list \<Rightarrow> (err + unit) \<times> OneTimeRecord list" where
  "pg_upsert_one_time user_exists r t =
     (if list_ex (\<lambda>x. ot_UserID x \<noteq> ot_UserID r \<and> ot_TokenHash x = ot_TokenHash r) t then (Inl EUnique, t)
      else if list_ex (\<lambda>x. ot_UserID x = ot_UserID r) t
      then (Inr (), update_one_time r (\<lambda>x. ot_UserID x = ot_UserID r) t)
      else if \<not> user_exists then (Inl foreign_key_error, t)
      else (Inr (), t @ [r]))"

definition my_upsert_one_time ::
  "bool \<Rightarrow> OneTimeRecord \<Rightarrow> OneTimeRecord list \<Rightarrow> (err + unit) \<times> OneTimeRecord list" where
  "my_upsert_one_time user_exists r t =
     (if list_ex (\<lambda>x. ot_UserID x = ot_UserID r) t
      then (if list_ex (\<lambda>x. ot_UserID x \<noteq> ot_UserID r \<and> ot_TokenHash x = ot_TokenHash r) t then (Inl EUnique, t)
            else (Inr (), update_one_time r (\<lambda>x. ot_UserID x = ot_UserID r) t))
      else if \<not> user_exists then (Inl foreign_key_error, t)
      else if list_ex (\<lambda>x. ot_TokenHash x = ot_TokenHash r) t
      then (Inr (), update_one_time r (\<lambda>x. ot_TokenHash x = ot_TokenHash r) t)
      else (Inr (), t @ [r]))"

definition one_time_maps :: "OneTimeRecord list \<Rightarrow> (string \<rightharpoonup> OneTimeRecord) \<times> (hash \<rightharpoonup> string)" where
  "one_time_maps t = (keyed ot_UserID t, index ot_TokenHash ot_UserID t)"

definition one_time_distinct :: "OneTimeRecord list \<Rightarrow> bool" where
  "one_time_distinct t \<longleftrightarrow> distinct (map ot_UserID t) \<and> distinct (map ot_TokenHash t)"

text \<open>The row with the key \<open>j\<close> takes the contents of \<open>r\<close>, whose token no other row has.\<close>

lemma update_one_time_maps:
  assumes t: "one_time_distinct t" and x: "x \<in> set t"
    and p: "\<And>y. y \<in> set t \<Longrightarrow> p y = (y = x)"
    and tok: "\<And>y. y \<in> set t \<Longrightarrow> ot_TokenHash y = ot_TokenHash r \<Longrightarrow> y = x"
  shows "one_time_distinct (update_one_time r p t)"
    and "one_time_maps (update_one_time r p t) =
      ((keyed ot_UserID t)(ot_UserID x \<mapsto> r\<lparr>ot_UserID := ot_UserID x\<rparr>),
       (index ot_TokenHash ot_UserID t)(ot_TokenHash x := None, ot_TokenHash r \<mapsto> ot_UserID x))"
proof -
  let ?n = "r\<lparr>ot_UserID := ot_UserID x\<rparr>"
  have u: "update_one_time r p t = map (\<lambda>y. if y = x then ?n else y) t"
    unfolding update_one_time_def using p by (intro map_cong) auto
  have ids: "map ot_UserID (update_one_time r p t) = map ot_UserID t"
    unfolding u by (auto intro: map_cong)
  have inj: "inj_on ot_TokenHash (set t)" "distinct t" using t by (auto simp: one_time_distinct_def distinct_map)
  have "inj_on (\<lambda>y. ot_TokenHash (if y = x then ?n else y)) (set t)"
  proof (rule inj_onI)
    fix y z assume yz: "y \<in> set t" "z \<in> set t"
      "ot_TokenHash (if y = x then ?n else y) = ot_TokenHash (if z = x then ?n else z)"
    then show "y = z" using tok [of y] tok [of z] inj_onD [OF inj(1), of y z] by (auto split: if_splits)
  qed
  then have toks: "distinct (map ot_TokenHash (update_one_time r p t))"
    using inj(2) unfolding u by (simp add: distinct_map comp_inj_on comp_def)
  show d: "one_time_distinct (update_one_time r p t)"
    using t toks unfolding one_time_distinct_def ids by simp
  have s: "set (update_one_time r p t) = insert ?n (set t - {x})"
    unfolding u using x by auto
  have K: "keyed ot_UserID (update_one_time r p t) = (keyed ot_UserID t)(ot_UserID x \<mapsto> ?n)"
  proof
    fix i
    have q: "inj_on ot_UserID (set t)" using t by (simp add: one_time_distinct_def distinct_map)
    have "keyed ot_UserID (update_one_time r p t) i = Some y \<longleftrightarrow>
        ((keyed ot_UserID t)(ot_UserID x \<mapsto> ?n)) i = Some y" for y
      using d t inj_onD [OF q, of x y] x
      by (auto simp: one_time_distinct_def keyed_Some s)
    then show "keyed ot_UserID (update_one_time r p t) i = ((keyed ot_UserID t)(ot_UserID x \<mapsto> ?n)) i"
      by (metis option.exhaust)
  qed
  have I: "index ot_TokenHash ot_UserID (update_one_time r p t) =
      (index ot_TokenHash ot_UserID t)(ot_TokenHash x := None, ot_TokenHash r \<mapsto> ot_UserID x)"
  proof
    fix h
    have "index ot_TokenHash ot_UserID (update_one_time r p t) h = Some i \<longleftrightarrow>
        ((index ot_TokenHash ot_UserID t)(ot_TokenHash x := None, ot_TokenHash r \<mapsto> ot_UserID x)) h = Some i" for i
    proof -
      have one: "ot_TokenHash y = ot_TokenHash x \<Longrightarrow> y \<in> set t \<Longrightarrow> y = x" for y
        using inj_onD [OF inj(1), of y x] x by blast
      have "index ot_TokenHash ot_UserID (update_one_time r p t) h = Some i \<longleftrightarrow>
          ot_TokenHash r = h \<and> i = ot_UserID x \<or> (\<exists>y\<in>set t. y \<noteq> x \<and> ot_TokenHash y = h \<and> i = ot_UserID y)"
        using d by (auto simp: one_time_distinct_def index_Some s)
      moreover have "index ot_TokenHash ot_UserID t h = Some i \<longleftrightarrow> (\<exists>y\<in>set t. ot_TokenHash y = h \<and> i = ot_UserID y)"
        using t by (simp add: one_time_distinct_def index_Some)
      ultimately show ?thesis using one tok by (simp add: fun_upd_def) metis
    qed
    then show "index ot_TokenHash ot_UserID (update_one_time r p t) h =
        ((index ot_TokenHash ot_UserID t)(ot_TokenHash x := None, ot_TokenHash r \<mapsto> ot_UserID x)) h"
      by (metis option.exhaust)
  qed
  show "one_time_maps (update_one_time r p t) =
      ((keyed ot_UserID t)(ot_UserID x \<mapsto> ?n),
       (index ot_TokenHash ot_UserID t)(ot_TokenHash x := None, ot_TokenHash r \<mapsto> ot_UserID x))"
    by (simp add: one_time_maps_def K I)
qed

lemma append_one_time_maps:
  assumes "one_time_distinct t" and "keyed ot_UserID t (ot_UserID r) = None"
    and "index ot_TokenHash ot_UserID t (ot_TokenHash r) = None"
  shows "one_time_distinct (t @ [r])"
    and "one_time_maps (t @ [r]) = ((keyed ot_UserID t)(ot_UserID r \<mapsto> r),
       (index ot_TokenHash ot_UserID t)(ot_TokenHash r \<mapsto> ot_UserID r))"
  using assms
  by (auto simp: one_time_distinct_def one_time_maps_def keyed_append' index_append keyed_None index_None index_def)

lemma delete_one_time_maps:
  assumes "one_time_distinct t" and "keyed ot_UserID t i = Some r"
  shows "one_time_distinct (filter (\<lambda>x. ot_UserID x \<noteq> i) t)"
    and "one_time_maps (filter (\<lambda>x. ot_UserID x \<noteq> i) t) =
      ((keyed ot_UserID t)(i := None), (index ot_TokenHash ot_UserID t)(ot_TokenHash r := None))"
proof -
  show d: "one_time_distinct (filter (\<lambda>x. ot_UserID x \<noteq> i) t)"
    using assms(1) by (simp add: one_time_distinct_def distinct_map_filter)
  have r: "r \<in> set t" "ot_UserID r = i" using assms by (auto simp: one_time_distinct_def keyed_Some)
  have inj: "inj_on ot_UserID (set t)" "inj_on ot_TokenHash (set t)"
    using assms(1) by (auto simp: one_time_distinct_def distinct_map)
  have eq: "(ot_UserID x \<noteq> i) = (ot_TokenHash x \<noteq> ot_TokenHash r)" if "x \<in> set t" for x
    using r that inj_onD [OF inj(1), of x r] inj_onD [OF inj(2), of x r] by metis
  then have f: "filter (\<lambda>x. ot_UserID x \<noteq> i) t = filter (\<lambda>x. ot_TokenHash x \<noteq> ot_TokenHash r) t"
    by (rule filter_cong [OF refl])
  have "index ot_TokenHash ot_UserID (filter (\<lambda>x. ot_UserID x \<noteq> i) t) =
      (index ot_TokenHash ot_UserID t)(ot_TokenHash r := None)"
    unfolding f by (rule ext) (simp add: index_def keyed_filter_key)
  then show "one_time_maps (filter (\<lambda>x. ot_UserID x \<noteq> i) t) =
      ((keyed ot_UserID t)(i := None), (index ot_TokenHash ot_UserID t)(ot_TokenHash r := None))"
    by (simp add: one_time_maps_def keyed_filter_key)
qed

lemma one_time_lookup:
  assumes "one_time_distinct t"
  shows "list_ex (\<lambda>x. ot_UserID x = i) t = (keyed ot_UserID t i \<noteq> None)"
    and "list_ex (\<lambda>x. ot_TokenHash x = h) t = (index ot_TokenHash ot_UserID t h \<noteq> None)"
    and "list_ex (\<lambda>x. ot_UserID x \<noteq> i \<and> ot_TokenHash x = h) t =
      (\<exists>j. index ot_TokenHash ot_UserID t h = Some j \<and> j \<noteq> i)"
  using assms by (auto simp: list_ex_keyed index_def one_time_distinct_def keyed_Some list_ex_iff)

lemma update_by_user:
  assumes "one_time_distinct t" and "keyed ot_UserID t (ot_UserID r) = Some x"
    and "\<And>j. index ot_TokenHash ot_UserID t (ot_TokenHash r) = Some j \<Longrightarrow> j = ot_UserID r"
  shows "one_time_distinct (update_one_time r (\<lambda>y. ot_UserID y = ot_UserID r) t)"
    and "one_time_maps (update_one_time r (\<lambda>y. ot_UserID y = ot_UserID r) t) =
      ((keyed ot_UserID t)(ot_UserID r \<mapsto> r),
       (index ot_TokenHash ot_UserID t)(ot_TokenHash x := None, ot_TokenHash r \<mapsto> ot_UserID r))"
proof -
  have x: "x \<in> set t" "ot_UserID x = ot_UserID r" using assms(1,2) by (auto simp: one_time_distinct_def keyed_Some)
  have inj: "inj_on ot_UserID (set t)" using assms(1) by (auto simp: one_time_distinct_def distinct_map)
  have p: "(ot_UserID y = ot_UserID r) = (y = x)" if "y \<in> set t" for y
    using inj_onD [OF inj, of y x] x that by auto
  have tok: "y = x" if y: "y \<in> set t" "ot_TokenHash y = ot_TokenHash r" for y
  proof -
    have "index ot_TokenHash ot_UserID t (ot_TokenHash r) = Some (ot_UserID y)"
      using y assms(1) by (auto simp: one_time_distinct_def index_Some)
    from assms(3) [OF this] show ?thesis using p [OF y(1)] by simp
  qed
  have e: "r\<lparr>ot_UserID := ot_UserID x\<rparr> = r" using x(2) by (cases r) simp
  show "one_time_distinct (update_one_time r (\<lambda>y. ot_UserID y = ot_UserID r) t)"
    and "one_time_maps (update_one_time r (\<lambda>y. ot_UserID y = ot_UserID r) t) =
      ((keyed ot_UserID t)(ot_UserID r \<mapsto> r),
       (index ot_TokenHash ot_UserID t)(ot_TokenHash x := None, ot_TokenHash r \<mapsto> ot_UserID r))"
    using update_one_time_maps [OF assms(1) x(1) p tok] x(2) by (simp_all add: e)
qed

lemma issue_rel_by_user:
  assumes "one_time_distinct t" and "keyed ot_UserID t (ot_UserID r) = Some x"
    and "\<And>j. index ot_TokenHash ot_UserID t (ot_TokenHash r) = Some j \<Longrightarrow> j = ot_UserID r"
  shows "issue_rel ow c r (one_time_maps t) (Inr ()) (one_time_maps (update_one_time r (\<lambda>y. ot_UserID y = ot_UserID r) t))"
proof (cases "index ot_TokenHash ot_UserID t (ot_TokenHash r)")
  case None
  then show ?thesis
    using assms(2) by (subst update_by_user(2) [OF assms]) (simp_all add: one_time_maps_def issue_rel_def drop_token_def)
next
  case (Some j)
  then have j: "j = ot_UserID r" by (rule assms(3))
  then obtain y where y: "y \<in> set t" "ot_TokenHash y = ot_TokenHash r" "ot_UserID y = ot_UserID r"
    using Some assms(1) by (auto simp: one_time_distinct_def index_Some)
  then have "keyed ot_UserID t (ot_UserID r) = Some y"
    using assms(1) by (simp add: one_time_distinct_def keyed_Some)
  then have "x = y" using assms(2) by simp
  then have "(index ot_TokenHash ot_UserID t)(ot_TokenHash x := None, ot_TokenHash r \<mapsto> ot_UserID r) =
      index ot_TokenHash ot_UserID t"
    using Some j y(2) by (auto simp: fun_upd_triv)
  then show ?thesis
    using Some j by (subst update_by_user(2) [OF assms]) (simp_all add: one_time_maps_def issue_rel_def)
qed

lemma issue_rel_append:
  assumes "one_time_distinct t" and "keyed ot_UserID t (ot_UserID r) = None"
    and "index ot_TokenHash ot_UserID t (ot_TokenHash r) = None"
  shows "issue_rel ow c r (one_time_maps t) (Inr ()) (one_time_maps (t @ [r]))"
  unfolding append_one_time_maps(2) [OF assms] using assms(2,3)
  by (simp add: one_time_maps_def issue_rel_def drop_token_def)

text \<open>What the two statements do, as the reference operation has it.\<close>

definition upsert_result :: "bool \<Rightarrow> err \<Rightarrow> OneTimeRecord \<Rightarrow> OneTimeRecord list \<Rightarrow> (err + unit) \<times> OneTimeRecord list \<Rightarrow> bool" where
  "upsert_result ow c r t y \<longleftrightarrow> one_time_distinct (snd y) \<and>
     (fst y = Inl foreign_key_error \<and> snd y = t \<or>
      fst y = Inl EUnique \<and> issue_rel ow c r (one_time_maps t) (Inl c) (one_time_maps (snd y)) \<or>
      fst y = Inr () \<and> issue_rel ow c r (one_time_maps t) (Inr ()) (one_time_maps (snd y)))"

lemma issue_rel_conflict:
  "index ot_TokenHash ot_UserID t (ot_TokenHash r) = Some j \<Longrightarrow> j \<noteq> ot_UserID r \<Longrightarrow>
     issue_rel ow c r (one_time_maps t) (Inl c) (one_time_maps t)"
  by (simp add: one_time_maps_def issue_rel_def)

lemma pg_upsert_result:
  assumes "one_time_distinct t" shows "upsert_result False c r t (pg_upsert_one_time ue r t)"
proof (cases "\<exists>j. index ot_TokenHash ot_UserID t (ot_TokenHash r) = Some j \<and> j \<noteq> ot_UserID r")
  case True
  then show ?thesis
    using assms issue_rel_conflict by (auto simp: pg_upsert_one_time_def upsert_result_def one_time_lookup)
next
  case False
  then have f: "index ot_TokenHash ot_UserID t (ot_TokenHash r) = Some j \<Longrightarrow> j = ot_UserID r" for j by blast
  show ?thesis
  proof (cases "keyed ot_UserID t (ot_UserID r)")
    case None
    then have "index ot_TokenHash ot_UserID t (ot_TokenHash r) = None"
    proof (cases "index ot_TokenHash ot_UserID t (ot_TokenHash r)")
      case (Some j)
      then have "list_ex (\<lambda>x. ot_UserID x = ot_UserID r) t"
        using f [OF Some] assms by (auto simp: one_time_distinct_def index_Some list_ex_iff)
      then show ?thesis using None by (simp add: list_ex_keyed)
    qed
    then show ?thesis
      using None False assms append_one_time_maps(1) [OF assms None] issue_rel_append [OF assms None]
      by (simp add: pg_upsert_one_time_def upsert_result_def one_time_lookup)
  next
    case (Some x)
    then show ?thesis
      using False update_by_user(1) [OF assms Some f] issue_rel_by_user [OF assms Some f]
      unfolding pg_upsert_one_time_def upsert_result_def one_time_lookup [OF assms] by (auto split: if_splits)
  qed
qed

lemma my_upsert_result:
  assumes "one_time_distinct t" shows "upsert_result True c r t (my_upsert_one_time ue r t)"
proof (cases "keyed ot_UserID t (ot_UserID r)")
  case (Some x)
  then have "my_upsert_one_time ue r t = pg_upsert_one_time ue r t"
    using assms by (simp add: my_upsert_one_time_def pg_upsert_one_time_def one_time_lookup)
  moreover have "issue_rel True c r b z a" if "issue_rel False c r b z a" for b z a
    using that unfolding issue_rel_def by (auto split: option.splits prod.splits if_splits)
  then have "upsert_result True c r t y" if "upsert_result False c r t y" for y
    using that unfolding upsert_result_def by blast
  ultimately show ?thesis using pg_upsert_result [OF assms, of c r ue] by simp
next
  case None
  show ?thesis
  proof (cases "index ot_TokenHash ot_UserID t (ot_TokenHash r)")
    case n: None
    then show ?thesis
      using None assms append_one_time_maps(1) [OF assms None n] issue_rel_append [OF assms None n]
      by (simp add: my_upsert_one_time_def upsert_result_def one_time_lookup)
  next
    case (Some j)
    then obtain x where x: "x \<in> set t" "ot_TokenHash x = ot_TokenHash r" "ot_UserID x = j"
      using assms by (auto simp: one_time_distinct_def index_Some)
    have inj: "inj_on ot_TokenHash (set t)" using assms by (auto simp: one_time_distinct_def distinct_map)
    have p: "(ot_TokenHash y = ot_TokenHash r) = (y = x)" if "y \<in> set t" for y
      using inj_onD [OF inj, of y x] x that by auto
    note u = update_one_time_maps [OF assms x(1), of "\<lambda>y. ot_TokenHash y = ot_TokenHash r" r]
    have j: "j \<noteq> ot_UserID r" using None x by (auto simp: keyed_None)
    have t: "y = x" if "y \<in> set t" "ot_TokenHash y = ot_TokenHash r" for y using p that by blast
    have m: "(index ot_TokenHash ot_UserID t)(ot_TokenHash r \<mapsto> j) = index ot_TokenHash ot_UserID t"
      using Some by (simp add: fun_upd_idem)
    have q: "my_upsert_one_time ue r t = (if \<not> ue then (Inl foreign_key_error, t)
        else (Inr (), update_one_time r (\<lambda>y. ot_TokenHash y = ot_TokenHash r) t))"
      using None Some unfolding my_upsert_one_time_def one_time_lookup [OF assms] by simp
    have i: "issue_rel True c r (one_time_maps t) (Inr ())
        (one_time_maps (update_one_time r (\<lambda>y. ot_TokenHash y = ot_TokenHash r) t))"
      using None Some j x by (subst u(2) [OF p t]) (simp_all add: one_time_maps_def issue_rel_def m)
    have d: "one_time_distinct (update_one_time r (\<lambda>y. ot_TokenHash y = ot_TokenHash r) t)"
      by (rule u(1) [OF p t])
    show ?thesis
    proof (cases ue)
      case True
      then show ?thesis using i d unfolding q upsert_result_def by simp
    next
      case False
      then show ?thesis using assms unfolding q upsert_result_def by simp
    qed
  qed
qed

lemma account_tables_one_time:
  "account_tables_ok d \<Longrightarrow> one_time_distinct (t_verifications d)"
  "account_tables_ok d \<Longrightarrow> one_time_distinct (t_resets d)"
  by (simp_all add: account_tables_ok_def one_time_distinct_def)

lemma one_time_tables_view:
  assumes "account_tables_ok d" and "one_time_distinct t"
  shows "account_tables_ok (d\<lparr>t_verifications := t\<rparr>)" "account_tables_ok (d\<lparr>t_resets := t\<rparr>)"
    and "accounts_view (d\<lparr>t_verifications := t\<rparr>) = (accounts_view d)
      \<lparr>verifications := fst (one_time_maps t), verification_tokens := snd (one_time_maps t)\<rparr>"
    and "accounts_view (d\<lparr>t_resets := t\<rparr>) = (accounts_view d)
      \<lparr>resets := fst (one_time_maps t), reset_tokens := snd (one_time_maps t)\<rparr>"
  using assms by (simp_all add: account_tables_ok_def one_time_distinct_def accounts_view_def one_time_maps_def)


section \<open>Queries and contracts\<close>

lemma first_join:
  assumes "distinct (map k xs)" and "distinct (map k2 ys)"
  shows "first_row (sql_join k1 k2 (\<lambda>x. k x = i) xs ys) =
    (case keyed k xs i of None \<Rightarrow> Inl ENoRows
     | Some x \<Rightarrow> (case keyed k2 ys (k1 x) of None \<Rightarrow> Inl ENoRows | Some y \<Rightarrow> Inr (x, y)))"
  using assms by (simp add: sql_join_def sql_select_def filter_keyed_eq first_row_def split: option.split)

lemma opt_row_keyed:
  "distinct (map k t) \<Longrightarrow> opt_row (filter (\<lambda>r. k r = h) t) = keyed k t h"
  by (simp add: filter_keyed_eq opt_row_def split: option.split)

lemma opt_row_filter: "(opt_row (filter p t) = None) = (\<forall>r\<in>set t. \<not> p r)"
  by (simp add: opt_row_def filter_empty_conv split: list.split)
    (metis (mono_tags, lifting) filter_empty_conv list.distinct(1))

lemma account_implements:
  assumes "robust op"
    and "\<And>c :: account_conn. fault c = (\<lambda>_. False) \<Longrightarrow> account_tables_ok (tables c) \<Longrightarrow>
      account_tables_ok (tables (snd (op c))) \<and>
      ((\<exists>e. is_driver e \<and> fst (op c) = Inl e) \<and> accounts_view (tables (snd (op c))) = accounts_view (tables c) \<or>
       spec (accounts_view (tables c)) (fst (op c)) (accounts_view (tables (snd (op c)))))"
  shows "implements account_view account_ok op spec"
proof (rule implements_weaken)
  show "implements account_view account_ok op
      (\<lambda>a r b. (\<exists>e. is_driver e \<and> r = Inl e) \<and> b = a \<or> spec a r b)"
    using implements_robust [OF assms(1), where okt = "\<lambda>_ d. account_tables_ok d" and vw = accounts_view and
        spec = "\<lambda>a r b. (\<exists>e. is_driver e \<and> r = Inl e) \<and> b = a \<or> spec a r b"] assms(2)
    by (simp add: account_view_def [abs_def] account_ok_def [abs_def])
qed

lemma account_implements_when:
  assumes "robust op"
    and "\<And>c :: account_conn. fault c = (\<lambda>_. False) \<Longrightarrow> account_tables_ok (tables c) \<Longrightarrow>
      pre (accounts_view (tables c)) \<Longrightarrow>
      account_tables_ok (tables (snd (op c))) \<and>
      ((\<exists>e. is_driver e \<and> fst (op c) = Inl e) \<and> accounts_view (tables (snd (op c))) = accounts_view (tables c) \<or>
       spec (accounts_view (tables c)) (fst (op c)) (accounts_view (tables (snd (op c)))))"
  shows "implements_when account_view account_ok pre op spec"
  unfolding implements_when_def
proof (intro allI impI, elim conjE)
  fix c :: account_conn
  assume c: "account_ok c" "pre (account_view c)"
  have q: "account_tables_ok (tables (snd (op (quiet c)))) \<and>
      ((\<exists>e. is_driver e \<and> fst (op (quiet c)) = Inl e) \<and>
         accounts_view (tables (snd (op (quiet c)))) = accounts_view (tables c) \<or>
       spec (accounts_view (tables c)) (fst (op (quiet c))) (accounts_view (tables (snd (op (quiet c))))))"
    using assms(2) [of "quiet c"] c by (simp add: account_ok_def account_view_def)
  have "fst (op c) = Inl connection_error \<and> tables (snd (op c)) = tables c \<or>
      op c = (fst (op (quiet c)), (snd (op (quiet c)))\<lparr>fault := fault c\<rparr>)"
    using assms(1) by (simp add: robust_def)
  then consider (lost) "fst (op c) = Inl connection_error" "tables (snd (op c)) = tables c"
    | (run) "fst (op c) = fst (op (quiet c))" "tables (snd (op c)) = tables (snd (op (quiet c)))"
    by (metis (no_types, lifting) conn.select_convs(1) conn.surjective conn.update_convs(2) fst_conv snd_conv)
  then show "account_ok (snd (op c)) \<and>
      ((\<exists>e. is_driver e \<and> fst (op c) = Inl e) \<and> account_view (snd (op c)) = account_view c \<or>
       spec (account_view c) (fst (op c)) (account_view (snd (op c))))"
  proof cases
    case lost
    then have "account_view (snd (op c)) = account_view c" "account_ok (snd (op c))"
      using c(1) by (simp_all add: account_view_def account_ok_def)
    then show ?thesis using lost(1) is_driver_connection_error by blast
  next
    case run
    then show ?thesis using q by (simp add: account_view_def account_ok_def)
  qed
qed

lemma steps_option [simp, intro!]:
  "steps g \<Longrightarrow> (\<And>v. steps (f v)) \<Longrightarrow> steps (case x of None \<Rightarrow> g | Some v \<Rightarrow> f v)"
  by (cases x) simp_all

lemma steps_prod [simp, intro!]: "(\<And>a b. steps (f a b)) \<Longrightarrow> steps (case p of (a, b) \<Rightarrow> f a b)"
  by (cases p) simp_all

lemma is_driver_foreign_key [simp]: "is_driver foreign_key_error" "foreign_key_error \<noteq> EUnique" "EUnique \<noteq> foreign_key_error"
  "foreign_key_error \<noteq> ENoRows" "errors_is foreign_key_error EUnique = False" "errors_is foreign_key_error ENoRows = False"
  by (simp_all add: foreign_key_error_def)


lemma user_by_email:
  assumes "account_tables_ok d" and "keyed ud_Email (t_users d) e = Some u"
  shows "keyed ud_ID (t_users d) (ud_ID u) = Some u" and "ud_Email u = e"
  using assms account_tables_okD(1,2) [OF assms(1)] by (auto simp: keyed_Some)

end
