(* ===== verification/PostgresAccounts.thy ===== *)
theory PostgresAccounts
  imports AccountTables
begin

text \<open>
  The account stores of the PostgreSQL adapter (src/storage/postgres/accounts.go), statement by statement,
  and the interpretation that shows that they implement the contract \<open>account_store\<close>.
\<close>

section \<open>EmailPasswordStore\<close>

definition pg_email_Register ::
  "draws \<Rightarrow> Registration \<Rightarrow> account_conn \<Rightarrow> (err + EmailUser) \<times> account_conn" where
  "pg_email_Register dr registration =
     transaction
       (bindM (retM (new_user (rg_Email registration) False (rg_CreatedAt registration) dr)) (\<lambda>u.
        bindM (on_err (\<lambda>e. if e = EUnique then EEmailpassword Emailpassword_ErrConflict else e)
                 (stmt (insert_user_row u))) (\<lambda>_.
        bindM (stmt (insert_password_row \<lparr>pd_UserID = ud_ID u, pd_PasswordHash = rg_PasswordHash registration,
                 pd_UpdatedAt = rg_CreatedAt registration\<rparr>)) (\<lambda>_.
        retM (Inr \<lparr>eu_ID = ud_ID u, eu_Email = rg_Email registration\<rparr>)))))"

definition credential_row :: "userDocument \<times> passwordDocument \<Rightarrow> EmailUser \<times> PasswordCredential" where
  "credential_row row =
     (\<lparr>eu_ID = ud_ID (fst row), eu_Email = ud_Email (fst row)\<rparr>,
      \<lparr>pc_UserID = ud_ID (fst row), pc_PasswordHash = pd_PasswordHash (snd row)\<rparr>)"

definition pg_email_FindByEmail ::
  "string \<Rightarrow> account_conn \<Rightarrow> (err + EmailUser \<times> PasswordCredential) \<times> account_conn" where
  "pg_email_FindByEmail email =
     bindM (on_err (\<lambda>e. if errors_is e ENoRows then EEmailpassword Emailpassword_ErrNotFound else e)
              (stmt (\<lambda>d. (first_row (sql_join ud_ID pd_UserID (\<lambda>u. ud_Email u = email)
                 (t_users d) (t_passwords d)), d))))
       (\<lambda>row. retM (Inr (credential_row row)))"

definition pg_email_FindBySubject ::
  "string \<Rightarrow> account_conn \<Rightarrow> (err + EmailUser \<times> PasswordCredential) \<times> account_conn" where
  "pg_email_FindBySubject subjectID =
     bindM (on_err (\<lambda>e. if errors_is e ENoRows then EEmailpassword Emailpassword_ErrNotFound else e)
              (stmt (\<lambda>d. (first_row (sql_join ud_ID pd_UserID (\<lambda>u. ud_ID u = subjectID)
                 (t_users d) (t_passwords d)), d))))
       (\<lambda>row. retM (Inr (credential_row row)))"

text \<open>\<^verbatim>\<open>SELECT ... FROM authlier_users WHERE id = $1 FOR UPDATE\<close>\<close>

definition pg_lockUser :: "string \<Rightarrow> account_conn \<Rightarrow> (err + userDocument) \<times> account_conn" where
  "pg_lockUser subjectID = stmt (\<lambda>d. (first_row (sql_select (\<lambda>u. ud_ID u = subjectID) (t_users d)), d))"

definition pg_email_AddPassword ::
  "string \<Rightarrow> string \<Rightarrow> time \<Rightarrow> account_conn \<Rightarrow> (err + EmailUser) \<times> account_conn" where
  "pg_email_AddPassword subjectID passwordHash addedAt =
     transaction
       (bindM (on_err (\<lambda>e. if errors_is e ENoRows then EEmailpassword Emailpassword_ErrNotFound else e)
                 (pg_lockUser subjectID)) (\<lambda>u.
        bindM (on_err (\<lambda>e. if e = EUnique then EEmailpassword Emailpassword_ErrConflict else e)
                 (stmt (insert_password_row \<lparr>pd_UserID = subjectID, pd_PasswordHash = passwordHash,
                    pd_UpdatedAt = addedAt\<rparr>))) (\<lambda>_.
        retM (Inr \<lparr>eu_ID = ud_ID u, eu_Email = ud_Email u\<rparr>))))"

definition pg_email_ReplacePasswordHash ::
  "string \<Rightarrow> string \<Rightarrow> string \<Rightarrow> time \<Rightarrow> account_conn \<Rightarrow> (err + unit) \<times> account_conn" where
  "pg_email_ReplacePasswordHash userID currentHash replacementHash updatedAt =
     bindM (stmt (\<lambda>d. case sql_update (\<lambda>p. pd_UserID p = userID \<and> pd_PasswordHash p = currentHash)
                        (\<lambda>p. p\<lparr>pd_PasswordHash := replacementHash, pd_UpdatedAt := updatedAt\<rparr>) (t_passwords d) of
                      (rows, t) \<Rightarrow> (Inr (length rows), d\<lparr>t_passwords := t\<rparr>)))
       (\<lambda>affected. retM (if affected = 0 then Inl (EEmailpassword Emailpassword_ErrConflict) else Inr ()))"

definition pg_otherCredentialCount :: "string \<Rightarrow> account_conn \<Rightarrow> (err + nat) \<times> account_conn" where
  "pg_otherCredentialCount subjectID =
     stmt (\<lambda>d. (Inr (length (sql_select (\<lambda>g. gi_UserID g = subjectID) (t_googles d)) +
                     length (sql_select (\<lambda>i. i = subjectID) (t_passkeys d))), d))"

definition pg_email_RemovePassword ::
  "string \<Rightarrow> string \<Rightarrow> time \<Rightarrow> account_conn \<Rightarrow> (err + unit) \<times> account_conn" where
  "pg_email_RemovePassword subjectID currentHash removedAt =
     transaction
       (bindM (on_err (\<lambda>e. if errors_is e ENoRows then EEmailpassword Emailpassword_ErrNotFound else e)
                 (pg_lockUser subjectID)) (\<lambda>_.
        bindM (on_err (\<lambda>e. if errors_is e ENoRows then EEmailpassword Emailpassword_ErrNotFound else e)
                 (stmt (\<lambda>d. (first_row (sql_select (\<lambda>p. pd_UserID p = subjectID) (t_passwords d)), d)))) (\<lambda>stored.
        if pd_PasswordHash stored \<noteq> currentHash then retM (Inl (EEmailpassword Emailpassword_ErrConflict))
        else
        bindM (pg_otherCredentialCount subjectID) (\<lambda>methods.
        if methods = 0 then retM (Inl (EEmailpassword Emailpassword_ErrLastCredential))
        else
        stmt (\<lambda>d. (Inr (), d\<lparr>t_passwords := snd (sql_delete (\<lambda>p. pd_UserID p = subjectID) (t_passwords d))\<rparr>))))))"

definition pg_EmailPasswordStore :: "account_conn EmailPasswordStore" where
  "pg_EmailPasswordStore =
     \<lparr>es_Register = pg_email_Register, es_FindByEmail = pg_email_FindByEmail,
      es_ReplacePasswordHash = pg_email_ReplacePasswordHash\<rparr>"

definition pg_CredentialStore :: "account_conn CredentialStore" where
  "pg_CredentialStore =
     \<lparr>cs_FindBySubject = pg_email_FindBySubject, cs_AddPassword = pg_email_AddPassword,
      cs_ReplacePasswordHash = pg_email_ReplacePasswordHash, cs_RemovePassword = pg_email_RemovePassword\<rparr>"

section \<open>EmailVerificationStore\<close>

definition pg_ver_FindUserByEmail :: "string \<Rightarrow> account_conn \<Rightarrow> (err + VerifiedUser) \<times> account_conn" where
  "pg_ver_FindUserByEmail email =
     bindM (on_err (\<lambda>e. if errors_is e ENoRows then EVerification Verification_ErrNotFound else e)
              (stmt (\<lambda>d. (first_row (sql_select (\<lambda>u. ud_Email u = email) (t_users d)), d))))
       (\<lambda>u. retM (Inr \<lparr>vu_ID = ud_ID u, vu_Email = ud_Email u, vu_Verified = ud_EmailVerified u\<rparr>))"

definition pg_ver_Issue :: "OneTimeRecord \<Rightarrow> account_conn \<Rightarrow> (err + unit) \<times> account_conn" where
  "pg_ver_Issue r =
     on_err (\<lambda>e. if e = EUnique then EVerification Verification_ErrConflict else e)
       (stmt (\<lambda>d. case pg_upsert_one_time (references_user (ot_UserID r) d) r (t_verifications d) of
                    (x, t) \<Rightarrow> (x, d\<lparr>t_verifications := t\<rparr>)))"

definition pg_ver_Verify :: "hash \<Rightarrow> time \<Rightarrow> account_conn \<Rightarrow> (err + VerifiedUser) \<times> account_conn" where
  "pg_ver_Verify tokenHash verifiedAt =
     transaction
       (bindM (on_err (\<lambda>e. if errors_is e ENoRows then EVerification Verification_ErrNotFound else e)
                 (stmt (\<lambda>d. (first_row (sql_join ot_UserID ud_ID (\<lambda>v. ot_TokenHash v = tokenHash)
                    (t_verifications d) (t_users d)), d)))) (\<lambda>(v, u).
        if ud_EmailVerified u \<or> \<not> verifiedAt < ot_ExpiresAt v
        then retM (Inl (EVerification Verification_ErrInactiveToken))
        else
        bindM (stmt (\<lambda>d. (Inr (), d\<lparr>t_users := snd (sql_update (\<lambda>x. ud_ID x = ud_ID u)
                 (\<lambda>x. x\<lparr>ud_EmailVerified := True\<rparr>) (t_users d))\<rparr>))) (\<lambda>_.
        bindM (stmt (\<lambda>d. (Inr (), d\<lparr>t_verifications := snd (sql_delete (\<lambda>x. ot_UserID x = ud_ID u)
                 (t_verifications d))\<rparr>))) (\<lambda>_.
        retM (Inr \<lparr>vu_ID = ud_ID u, vu_Email = ud_Email u, vu_Verified = True\<rparr>)))))"

definition pg_VerificationStore :: "account_conn VerificationStore" where
  "pg_VerificationStore =
     \<lparr>vs_FindUserByEmail = pg_ver_FindUserByEmail, vs_Issue = pg_ver_Issue, vs_Verify = pg_ver_Verify\<rparr>"

section \<open>PasswordResetStore\<close>

definition pg_reset_FindUserByEmail :: "string \<Rightarrow> account_conn \<Rightarrow> (err + EmailUser) \<times> account_conn" where
  "pg_reset_FindUserByEmail email =
     bindM (on_err (\<lambda>e. if errors_is e ENoRows then EReset Reset_ErrNotFound else e)
              (stmt (\<lambda>d. (first_row (sql_select (\<lambda>u. ud_Email u = email) (t_users d)), d))))
       (\<lambda>u. retM (Inr \<lparr>eu_ID = ud_ID u, eu_Email = ud_Email u\<rparr>))"

definition pg_reset_Issue :: "OneTimeRecord \<Rightarrow> account_conn \<Rightarrow> (err + unit) \<times> account_conn" where
  "pg_reset_Issue r =
     on_err (\<lambda>e. if e = EUnique then EReset Reset_ErrConflict else e)
       (stmt (\<lambda>d. case pg_upsert_one_time (references_user (ot_UserID r) d) r (t_resets d) of
                    (x, t) \<Rightarrow> (x, d\<lparr>t_resets := t\<rparr>)))"

definition pg_reset_ResetPassword ::
  "hash \<Rightarrow> string \<Rightarrow> time \<Rightarrow> account_conn \<Rightarrow> (err + EmailUser) \<times> account_conn" where
  "pg_reset_ResetPassword tokenHash passwordHash resetAt =
     transaction
       (bindM (on_err (\<lambda>e. if errors_is e ENoRows then EReset Reset_ErrNotFound else e)
                 (stmt (\<lambda>d. (first_row (sql_join ot_UserID ud_ID (\<lambda>r. ot_TokenHash r = tokenHash)
                    (t_resets d) (t_users d)), d)))) (\<lambda>(r, u).
        if \<not> resetAt < ot_ExpiresAt r then retM (Inl (EReset Reset_ErrInactiveToken))
        else
        bindM (stmt (upsert_password_row \<lparr>pd_UserID = ud_ID u, pd_PasswordHash = passwordHash,
                 pd_UpdatedAt = resetAt\<rparr>)) (\<lambda>_.
        bindM (stmt (\<lambda>d. (Inr (), d\<lparr>t_resets := snd (sql_delete (\<lambda>x. ot_UserID x = ud_ID u) (t_resets d))\<rparr>))) (\<lambda>_.
        retM (Inr \<lparr>eu_ID = ud_ID u, eu_Email = ud_Email u\<rparr>)))))"

definition pg_ResetStore :: "account_conn ResetStore" where
  "pg_ResetStore =
     \<lparr>ps_FindUserByEmail = pg_reset_FindUserByEmail, ps_Issue = pg_reset_Issue,
      ps_ResetPassword = pg_reset_ResetPassword\<rparr>"

section \<open>GoogleStore\<close>

definition pg_google_CreateChallenge :: "GoogleChallenge \<Rightarrow> account_conn \<Rightarrow> (err + unit) \<times> account_conn" where
  "pg_google_CreateChallenge challenge =
     on_err (\<lambda>e. if e = EUnique then EGoogle Google_ErrConflict else e) (stmt (insert_challenge_row challenge))"

text \<open>\<^verbatim>\<open>DELETE ... RETURNING\<close>; an expired challenge is consumed as well.\<close>

definition pg_google_ConsumeChallenge ::
  "hash \<Rightarrow> time \<Rightarrow> account_conn \<Rightarrow> (err + GoogleChallenge) \<times> account_conn" where
  "pg_google_ConsumeChallenge stateHash consumedAt =
     bindM (on_err (\<lambda>e. if errors_is e ENoRows then EGoogle Google_ErrNotFound else e)
              (stmt (\<lambda>d. case sql_delete (\<lambda>c. gc_StateHash c = stateHash) (t_challenges d) of
                           (rows, t) \<Rightarrow> (first_row rows, d\<lparr>t_challenges := t\<rparr>))))
       (\<lambda>challenge. retM (if \<not> consumedAt < gc_ExpiresAt challenge then Inl (EGoogle Google_ErrInvalidState)
                          else Inr challenge))"

definition pg_insertUser ::
  "string \<Rightarrow> bool \<Rightarrow> time \<Rightarrow> draws \<Rightarrow> account_conn \<Rightarrow> (err + string) \<times> account_conn" where
  "pg_insertUser email verified createdAt dr =
     bindM (retM (new_user email verified createdAt dr)) (\<lambda>u.
     bindM (stmt (insert_user_row u)) (\<lambda>_. retM (Inr (ud_ID u))))"

definition pg_google_ResolveIdentity ::
  "draws \<Rightarrow> IdentityResolution \<Rightarrow> account_conn \<Rightarrow> (err + string) \<times> account_conn" where
  "pg_google_ResolveIdentity dr resolution =
     transaction
       (bindM (stmt (\<lambda>d. (Inr (opt_row (sql_select
                 (\<lambda>g. gi_ProviderSubject g = ir_ProviderSubject resolution) (t_googles d))), d))) (\<lambda>linked.
        case linked of
          Some g \<Rightarrow>
            if ir_SubjectID resolution \<noteq> [] \<and> gi_UserID g \<noteq> ir_SubjectID resolution
            then retM (Inl (EGoogle Google_ErrConflict))
            else bindM (stmt (\<lambda>d. (Inr (), d\<lparr>t_googles := snd (sql_update
                   (\<lambda>x. gi_ProviderSubject x = ir_ProviderSubject resolution)
                   (\<lambda>x. x\<lparr>gi_Email := ir_Email resolution\<rparr>) (t_googles d))\<rparr>)))
                 (\<lambda>_. retM (Inr (gi_UserID g)))
        | None \<Rightarrow>
            bindM
              (if ir_SubjectID resolution \<noteq> [] then
                 bindM (on_err (\<lambda>e. if errors_is e ENoRows then EGoogle Google_ErrNotFound else e)
                          (pg_lockUser (ir_SubjectID resolution))) (\<lambda>_.
                 bindM (stmt (\<lambda>d. (Inr (opt_row (sql_select
                          (\<lambda>g. gi_UserID g = ir_SubjectID resolution) (t_googles d))), d))) (\<lambda>existing.
                 retM (if existing \<noteq> None then Inl (EGoogle Google_ErrConflict)
                       else Inr (ir_SubjectID resolution))))
               else
                 bindM (stmt (\<lambda>d. (Inr (opt_row (sql_select
                          (\<lambda>u. ud_Email u = ir_Email resolution) (t_users d))), d))) (\<lambda>existing.
                 if existing \<noteq> None then retM (Inl (EGoogle Google_ErrLinkRequired))
                 else on_err (\<lambda>e. if e = EUnique then EGoogle Google_ErrLinkRequired else e)
                        (pg_insertUser (ir_Email resolution) True (dr_now dr) dr)))
              (\<lambda>userID.
            bindM (on_err (\<lambda>e. if e = EUnique then EGoogle Google_ErrConflict else e)
                     (\<lambda>c. stmt ((\<lambda>current_timestamp. insert_google_row
                        \<lparr>gi_ProviderSubject = ir_ProviderSubject resolution, gi_UserID = userID,
                         gi_Email = ir_Email resolution, gi_LinkedAt = current_timestamp\<rparr>) (server_now c)) c)) (\<lambda>_.
            retM (Inr userID)))))"

definition pg_google_UnlinkIdentity :: "string \<Rightarrow> time \<Rightarrow> account_conn \<Rightarrow> (err + unit) \<times> account_conn" where
  "pg_google_UnlinkIdentity subjectID unlinkedAt =
     transaction
       (bindM (on_err (\<lambda>e. if errors_is e ENoRows then EGoogle Google_ErrNotFound else e) (pg_lockUser subjectID)) (\<lambda>_.
        bindM (on_err (\<lambda>e. if errors_is e ENoRows then EGoogle Google_ErrNotFound else e)
                 (stmt (\<lambda>d. (first_row (sql_select (\<lambda>g. gi_UserID g = subjectID) (t_googles d)), d)))) (\<lambda>_.
        bindM (stmt (\<lambda>d. (Inr (length (sql_select (\<lambda>p. pd_UserID p = subjectID) (t_passwords d)),
                               length (sql_select (\<lambda>i. i = subjectID) (t_passkeys d))), d)))
          (\<lambda>(passwordCount, passkeyCount).
        if passwordCount + passkeyCount = 0 then retM (Inl (EGoogle Google_ErrLastCredential))
        else
        stmt (\<lambda>d. (Inr (), d\<lparr>t_googles := snd (sql_delete (\<lambda>g. gi_UserID g = subjectID) (t_googles d))\<rparr>))))))"

definition pg_GoogleStore :: "account_conn GoogleStore" where
  "pg_GoogleStore =
     \<lparr>gs_CreateChallenge = pg_google_CreateChallenge, gs_ConsumeChallenge = pg_google_ConsumeChallenge,
      gs_ResolveIdentity = pg_google_ResolveIdentity, gs_UnlinkIdentity = pg_google_UnlinkIdentity\<rparr>"

lemmas pg_account_stores =
  pg_EmailPasswordStore_def pg_CredentialStore_def pg_VerificationStore_def pg_ResetStore_def pg_GoogleStore_def
  EmailPasswordStore.simps CredentialStore.simps VerificationStore.simps ResetStore.simps GoogleStore.simps

section \<open>Each operation implements its reference operation\<close>

lemma pg_account_steps [simp, intro!]:
  "steps (pg_lockUser i)" "steps (pg_otherCredentialCount i)" "steps (pg_insertUser e v t dr)"
  by (auto simp: pg_lockUser_def pg_otherCredentialCount_def pg_insertUser_def)

lemma pg_account_robust [intro!]:
  "robust (pg_email_Register dr reg)" "robust (pg_email_FindByEmail e)" "robust (pg_email_FindBySubject i)"
  "robust (pg_email_AddPassword i h t)" "robust (pg_email_ReplacePasswordHash i p q t)"
  "robust (pg_email_RemovePassword i p t)" "robust (pg_ver_FindUserByEmail e)" "robust (pg_ver_Issue r)"
  "robust (pg_ver_Verify th t)" "robust (pg_reset_FindUserByEmail e)" "robust (pg_reset_Issue r)"
  "robust (pg_reset_ResetPassword th p t)" "robust (pg_google_CreateChallenge c)"
  "robust (pg_google_ConsumeChallenge th t)" "robust (pg_google_ResolveIdentity dr ir)"
  "robust (pg_google_UnlinkIdentity i t)"
  unfolding pg_email_Register_def pg_email_FindByEmail_def pg_email_FindBySubject_def pg_email_AddPassword_def
    pg_email_ReplacePasswordHash_def pg_email_RemovePassword_def pg_ver_FindUserByEmail_def pg_ver_Issue_def
    pg_ver_Verify_def pg_reset_FindUserByEmail_def pg_reset_Issue_def pg_reset_ResetPassword_def
    pg_google_CreateChallenge_def pg_google_ConsumeChallenge_def pg_google_ResolveIdentity_def
    pg_google_UnlinkIdentity_def
  by (auto split: prod.split)

lemma length_filter_count: "length (filter (\<lambda>x. x = y) xs) = count_list xs y"
  by (induction xs) auto

lemma pg_Register_implements:
  "implements_when account_view account_ok (draws_fresh dr) (pg_email_Register dr reg) (fun_spec (spec_Register dr reg))"
proof (rule account_implements_when)
  fix c :: account_conn
  assume c: "fault c = (\<lambda>_. False)" "account_tables_ok (tables c)" "draws_fresh dr (accounts_view (tables c))"
  let ?d = "tables c"
  let ?op = "pg_email_Register dr reg"
  show "account_tables_ok (tables (snd (?op c))) \<and>
      ((\<exists>e. is_driver e \<and> fst (?op c) = Inl e) \<and> accounts_view (tables (snd (?op c))) = accounts_view ?d \<or>
       fun_spec (spec_Register dr reg) (accounts_view ?d) (fst (?op c)) (accounts_view (tables (snd (?op c)))))"
  proof (cases "new_user (rg_Email reg) False (rg_CreatedAt reg) dr")
    case (Inl e)
    then show ?thesis
      using c by (simp add: pg_email_Register_def transaction_quiet bindM_eq fun_spec_def spec_Register_def)
  next
    case (Inr u)
    note f = insert_user_fresh [OF c(2,3) Inr]
    show ?thesis
    proof (cases "emails (accounts_view ?d) (rg_Email reg) = None")
      case False
      then show ?thesis
        using c f Inr
        by (auto simp: pg_email_Register_def transaction_quiet bindM_eq on_err_eq stmt_quiet fun_spec_def spec_Register_def)
    next
      case True
      then have e: "keyed ud_Email (t_users ?d) (ud_Email u) = None" using f(3) by (auto simp: index_def)
      let ?d1 = "?d\<lparr>t_users := t_users ?d @ [u]\<rparr>"
      let ?p = "\<lparr>pd_UserID = ud_ID u, pd_PasswordHash = rg_PasswordHash reg, pd_UpdatedAt = rg_CreatedAt reg\<rparr>"
      note v = insert_user_view [OF c(2) f(2) e]
      have np: "keyed pd_UserID (t_passwords ?d1) (pd_UserID ?p) = None"
        using f(2) c(2) by (auto simp: keyed_None account_tables_ok_def image_iff dest: subsetD)
      have us: "users (accounts_view ?d1) (pd_UserID ?p) \<noteq> None"
        using v(2) by (simp add: insert_user_def del: accounts_view_simps)
      have i: "insert_password_row ?p ?d1 = (Inr (), ?d1\<lparr>t_passwords := t_passwords ?d1 @ [?p]\<rparr>)"
        using np us by (simp add: insert_password_row_eq)
      note w = insert_password_view [OF v(1) np us]
      have run: "fst (?op c) = Inr \<lparr>eu_ID = ud_ID u, eu_Email = rg_Email reg\<rparr>"
        "tables (snd (?op c)) = ?d1\<lparr>t_passwords := t_passwords ?d1 @ [?p]\<rparr>"
        using c f(1) Inr True i
        by (simp_all add: pg_email_Register_def transaction_quiet bindM_eq on_err_eq stmt_quiet)
      show ?thesis
        unfolding run using w v(2) Inr True f(3) by (simp add: fun_spec_def spec_Register_def del: accounts_view_simps)
    qed
  qed
qed auto

lemma pg_FindByEmail_implements:
  "implements account_view account_ok (pg_email_FindByEmail e) (fun_spec (spec_FindByEmail e))"
  by (rule account_implements)
    (auto simp: pg_email_FindByEmail_def bindM_eq on_err_eq stmt_quiet first_join account_tables_okD
      fun_spec_def spec_FindByEmail_def credential_of_def credential_row_def index_def user_by_email
      split: option.split)

lemma pg_FindBySubject_implements:
  "implements account_view account_ok (pg_email_FindBySubject i) (fun_spec (spec_FindBySubject i))"
  by (rule account_implements)
    (auto simp: pg_email_FindBySubject_def bindM_eq on_err_eq stmt_quiet first_join account_tables_okD
      fun_spec_def spec_FindBySubject_def credential_of_def credential_row_def dest: keyed_key
      split: option.split)

lemma pg_AddPassword_implements:
  "implements account_view account_ok (pg_email_AddPassword i h t) (fun_spec (spec_AddPassword i h t))"
  by (rule account_implements)
    (auto simp: pg_email_AddPassword_def pg_lockUser_def transaction_quiet bindM_eq on_err_eq stmt_quiet sql_select_def
      first_row_keyed account_tables_okD insert_password_row_eq insert_password_view
      fun_spec_def spec_AddPassword_def dest: keyed_key split: option.splits)

lemma pg_ReplacePasswordHash_implements:
  "implements account_view account_ok (pg_email_ReplacePasswordHash i p q t)
     (fun_spec (spec_ReplacePasswordHash i p q t))"
proof (rule account_implements)
  fix c :: account_conn
  assume c: "fault c = (\<lambda>_. False)" "account_tables_ok (tables c)"
  let ?d = "tables c" and ?op = "pg_email_ReplacePasswordHash i p q t"
  have f: "filter (\<lambda>x. pd_UserID x = i \<and> pd_PasswordHash x = p) (t_passwords ?d) =
      (case keyed pd_UserID (t_passwords ?d) i of None \<Rightarrow> [] | Some x \<Rightarrow> if pd_PasswordHash x = p then [x] else [])"
    by (rule filter_keyed) (rule account_tables_okD(3) [OF c(2)])
  show "account_tables_ok (tables (snd (?op c))) \<and>
      ((\<exists>e. is_driver e \<and> fst (?op c) = Inl e) \<and> accounts_view (tables (snd (?op c))) = accounts_view ?d \<or>
       fun_spec (spec_ReplacePasswordHash i p q t) (accounts_view ?d) (fst (?op c)) (accounts_view (tables (snd (?op c)))))"
  proof (cases "\<exists>x. keyed pd_UserID (t_passwords ?d) i = Some x \<and> pd_PasswordHash x = p")
    case True
    then obtain x where x: "keyed pd_UserID (t_passwords ?d) i = Some x" "pd_PasswordHash x = p" by blast
    have m: "(pd_UserID y = i \<and> pd_PasswordHash y = p) = (pd_UserID y = i)" if "y \<in> set (t_passwords ?d)" for y
      using that x account_tables_okD(3) [OF c(2)] by (auto simp: keyed_Some distinct_map dest: inj_onD)
    have "fst (?op c) = Inr ()"
      "tables (snd (?op c)) = ?d\<lparr>t_passwords := map (\<lambda>y. if pd_UserID y = i \<and> pd_PasswordHash y = p
        then y\<lparr>pd_PasswordHash := q, pd_UpdatedAt := t\<rparr> else y) (t_passwords ?d)\<rparr>"
      using c(1) x f by (simp_all add: pg_email_ReplacePasswordHash_def bindM_eq stmt_quiet sql_update_def)
    then show ?thesis
      using update_password_view [OF c(2) x(1) m, where h = q and t = t] x
      by (simp add: fun_spec_def spec_ReplacePasswordHash_def)
  next
    case False
    then have e: "filter (\<lambda>x. pd_UserID x = i \<and> pd_PasswordHash x = p) (t_passwords ?d) = []"
      unfolding f by (auto split: option.split)
    then have "map (\<lambda>y. if pd_UserID y = i \<and> pd_PasswordHash y = p
        then y\<lparr>pd_PasswordHash := q, pd_UpdatedAt := t\<rparr> else y) (t_passwords ?d) = t_passwords ?d"
      unfolding filter_empty_conv by (intro map_idI) auto
    then show ?thesis
      using c e False
      by (auto simp: pg_email_ReplacePasswordHash_def bindM_eq stmt_quiet sql_update_def fun_spec_def
          spec_ReplacePasswordHash_def split: option.split)
  qed
qed auto

lemma pg_RemovePassword_implements:
  "implements account_view account_ok (pg_email_RemovePassword i p t) (fun_spec (spec_RemovePassword i p))"
  by (rule account_implements)
    (auto simp: pg_email_RemovePassword_def pg_lockUser_def pg_otherCredentialCount_def transaction_quiet bindM_eq
      on_err_eq stmt_quiet sql_select_def sql_delete_def first_row_keyed account_tables_okD google_filter
      length_filter_count delete_password_view fun_spec_def spec_RemovePassword_def split: option.splits)


lemma pg_FindVerified_implements:
  "implements account_view account_ok (pg_ver_FindUserByEmail e) (fun_spec (spec_FindVerified e))"
  by (rule account_implements)
    (auto simp: pg_ver_FindUserByEmail_def bindM_eq on_err_eq stmt_quiet sql_select_def first_row_keyed account_tables_okD
      fun_spec_def spec_FindVerified_def index_def user_by_email split: option.split)

lemma pg_FindReset_implements:
  "implements account_view account_ok (pg_reset_FindUserByEmail e) (fun_spec (spec_FindReset e))"
  by (rule account_implements)
    (auto simp: pg_reset_FindUserByEmail_def bindM_eq on_err_eq stmt_quiet sql_select_def first_row_keyed account_tables_okD
      fun_spec_def spec_FindReset_def index_def user_by_email split: option.split)

lemma issue_verification_result:
  assumes "account_tables_ok d" and "upsert_result ow (EVerification Verification_ErrConflict) r (t_verifications d) y"
  defines "x \<equiv> (case fst y of Inl e \<Rightarrow> Inl (if e = EUnique then EVerification Verification_ErrConflict else e) | Inr v \<Rightarrow> Inr v)"
  shows "account_tables_ok (d\<lparr>t_verifications := snd y\<rparr>) \<and>
    ((\<exists>e. is_driver e \<and> x = Inl e) \<and> accounts_view (d\<lparr>t_verifications := snd y\<rparr>) = accounts_view d \<or>
     spec_IssueVerification ow r (accounts_view d) x (accounts_view (d\<lparr>t_verifications := snd y\<rparr>)))"
proof -
  note d = assms(2) [unfolded upsert_result_def, THEN conjunct1]
  note v = one_time_tables_view [OF assms(1) d]
  have m: "one_time_maps (t_verifications d) = (verifications (accounts_view d), verification_tokens (accounts_view d))"
    by (simp add: one_time_maps_def)
  have spec: "spec_IssueVerification ow r (accounts_view d) z (accounts_view (d\<lparr>t_verifications := snd y\<rparr>))"
    if "issue_rel ow (EVerification Verification_ErrConflict) r (one_time_maps (t_verifications d)) z (one_time_maps (snd y))" for z
    unfolding spec_IssueVerification_def v
    using that m by (intro exI [of _ "fst (one_time_maps (snd y))"] exI [of _ "snd (one_time_maps (snd y))"]) simp
  from assms(2) consider "fst y = Inl foreign_key_error" "snd y = t_verifications d"
    | "fst y = Inl EUnique" "issue_rel ow (EVerification Verification_ErrConflict) r (one_time_maps (t_verifications d))
        (Inl (EVerification Verification_ErrConflict)) (one_time_maps (snd y))"
    | "fst y = Inr ()" "issue_rel ow (EVerification Verification_ErrConflict) r (one_time_maps (t_verifications d))
        (Inr ()) (one_time_maps (snd y))"
    unfolding upsert_result_def by blast
  then show ?thesis
    by cases (use v spec in \<open>simp_all add: x_def\<close>)
qed

lemma issue_reset_result:
  assumes "account_tables_ok d" and "upsert_result ow (EReset Reset_ErrConflict) r (t_resets d) y"
  defines "x \<equiv> (case fst y of Inl e \<Rightarrow> Inl (if e = EUnique then EReset Reset_ErrConflict else e) | Inr v \<Rightarrow> Inr v)"
  shows "account_tables_ok (d\<lparr>t_resets := snd y\<rparr>) \<and>
    ((\<exists>e. is_driver e \<and> x = Inl e) \<and> accounts_view (d\<lparr>t_resets := snd y\<rparr>) = accounts_view d \<or>
     spec_IssueReset ow r (accounts_view d) x (accounts_view (d\<lparr>t_resets := snd y\<rparr>)))"
proof -
  note d = assms(2) [unfolded upsert_result_def, THEN conjunct1]
  note v = one_time_tables_view [OF assms(1) d]
  have m: "one_time_maps (t_resets d) = (resets (accounts_view d), reset_tokens (accounts_view d))"
    by (simp add: one_time_maps_def)
  have spec: "spec_IssueReset ow r (accounts_view d) z (accounts_view (d\<lparr>t_resets := snd y\<rparr>))"
    if "issue_rel ow (EReset Reset_ErrConflict) r (one_time_maps (t_resets d)) z (one_time_maps (snd y))" for z
    unfolding spec_IssueReset_def v
    using that m by (intro exI [of _ "fst (one_time_maps (snd y))"] exI [of _ "snd (one_time_maps (snd y))"]) simp
  from assms(2) consider "fst y = Inl foreign_key_error" "snd y = t_resets d"
    | "fst y = Inl EUnique" "issue_rel ow (EReset Reset_ErrConflict) r (one_time_maps (t_resets d))
        (Inl (EReset Reset_ErrConflict)) (one_time_maps (snd y))"
    | "fst y = Inr ()" "issue_rel ow (EReset Reset_ErrConflict) r (one_time_maps (t_resets d))
        (Inr ()) (one_time_maps (snd y))"
    unfolding upsert_result_def by blast
  then show ?thesis
    by cases (use v spec in \<open>simp_all add: x_def\<close>)
qed

lemma pg_IssueVerification_implements:
  "implements account_view account_ok (pg_ver_Issue r) (spec_IssueVerification False r)"
proof (rule account_implements)
  fix c :: account_conn
  assume c: "fault c = (\<lambda>_. False)" "account_tables_ok (tables c)"
  let ?y = "pg_upsert_one_time (references_user (ot_UserID r) (tables c)) r (t_verifications (tables c))"
  have run: "fst (pg_ver_Issue r c) = (case fst ?y of
      Inl e \<Rightarrow> Inl (if e = EUnique then EVerification Verification_ErrConflict else e) | Inr v \<Rightarrow> Inr v)"
    "tables (snd (pg_ver_Issue r c)) = (tables c)\<lparr>t_verifications := snd ?y\<rparr>"
    using c(1) by (simp_all add: pg_ver_Issue_def on_err_eq stmt_quiet split: prod.split sum.split)
  show "account_tables_ok (tables (snd (pg_ver_Issue r c))) \<and>
      ((\<exists>e. is_driver e \<and> fst (pg_ver_Issue r c) = Inl e) \<and>
         accounts_view (tables (snd (pg_ver_Issue r c))) = accounts_view (tables c) \<or>
       spec_IssueVerification False r (accounts_view (tables c)) (fst (pg_ver_Issue r c))
         (accounts_view (tables (snd (pg_ver_Issue r c)))))"
    unfolding run
    by (rule issue_verification_result [OF c(2) pg_upsert_result [OF account_tables_one_time(1) [OF c(2)]]])
qed auto

lemma pg_IssueReset_implements:
  "implements account_view account_ok (pg_reset_Issue r) (spec_IssueReset False r)"
proof (rule account_implements)
  fix c :: account_conn
  assume c: "fault c = (\<lambda>_. False)" "account_tables_ok (tables c)"
  let ?y = "pg_upsert_one_time (references_user (ot_UserID r) (tables c)) r (t_resets (tables c))"
  have run: "fst (pg_reset_Issue r c) = (case fst ?y of
      Inl e \<Rightarrow> Inl (if e = EUnique then EReset Reset_ErrConflict else e) | Inr v \<Rightarrow> Inr v)"
    "tables (snd (pg_reset_Issue r c)) = (tables c)\<lparr>t_resets := snd ?y\<rparr>"
    using c(1) by (simp_all add: pg_reset_Issue_def on_err_eq stmt_quiet split: prod.split sum.split)
  show "account_tables_ok (tables (snd (pg_reset_Issue r c))) \<and>
      ((\<exists>e. is_driver e \<and> fst (pg_reset_Issue r c) = Inl e) \<and>
         accounts_view (tables (snd (pg_reset_Issue r c))) = accounts_view (tables c) \<or>
       spec_IssueReset False r (accounts_view (tables c)) (fst (pg_reset_Issue r c))
         (accounts_view (tables (snd (pg_reset_Issue r c)))))"
    unfolding run
    by (rule issue_reset_result [OF c(2) pg_upsert_result [OF account_tables_one_time(2) [OF c(2)]]])
qed auto

text \<open>The row of a token, its user, and the deletion of the row.\<close>

lemma token_row_Some:
  assumes "one_time_distinct t" and "keyed ot_TokenHash t h = Some r"
  shows "index ot_TokenHash ot_UserID t h = Some (ot_UserID r)" and "keyed ot_UserID t (ot_UserID r) = Some r"
    and "ot_TokenHash r = h"
  using assms by (auto simp: index_def one_time_distinct_def keyed_Some)

lemma pg_Verify_implements:
  "implements account_view account_ok (pg_ver_Verify h t) (spec_Verify False h t)"
proof (rule account_implements)
  fix c :: account_conn
  assume c: "fault c = (\<lambda>_. False)" "account_tables_ok (tables c)"
  let ?d = "tables c" and ?op = "pg_ver_Verify h t"
  note one = account_tables_one_time(1) [OF c(2)]
  have D: "distinct (map ot_TokenHash (t_verifications ?d))" "distinct (map ud_ID (t_users ?d))"
    using account_tables_okD [OF c(2)] by auto
  show "account_tables_ok (tables (snd (?op c))) \<and>
      ((\<exists>e. is_driver e \<and> fst (?op c) = Inl e) \<and> accounts_view (tables (snd (?op c))) = accounts_view ?d \<or>
       spec_Verify False h t (accounts_view ?d) (fst (?op c)) (accounts_view (tables (snd (?op c)))))"
  proof (cases "keyed ot_TokenHash (t_verifications ?d) h")
    case None
    then show ?thesis
      using c D by (auto simp: pg_ver_Verify_def transaction_quiet bindM_eq on_err_eq stmt_quiet first_join
          spec_Verify_def verify_fun_def index_def split: prod.split)
  next
    case (Some r)
    note r = token_row_Some [OF one Some]
    show ?thesis
    proof (cases "keyed ud_ID (t_users ?d) (ot_UserID r)")
      case None
      then show ?thesis
        using c D Some r by (auto simp: pg_ver_Verify_def transaction_quiet bindM_eq on_err_eq stmt_quiet first_join
            spec_Verify_def verify_fun_def split: prod.split)
    next
      case u: (Some u)
      have uid: "ud_ID u = ot_UserID r" using keyed_key [OF u] .
      show ?thesis
      proof (cases "ud_EmailVerified u \<or> \<not> t < ot_ExpiresAt r")
        case True
        then show ?thesis
          using c D Some r u by (auto simp: pg_ver_Verify_def transaction_quiet bindM_eq on_err_eq stmt_quiet first_join
              spec_Verify_def verify_fun_def split: prod.split)
      next
        case False
        let ?us = "map (\<lambda>x. if ud_ID x = ot_UserID r then x\<lparr>ud_EmailVerified := True\<rparr> else x) (t_users ?d)"
        let ?vs = "filter (\<lambda>x. ot_UserID x \<noteq> ot_UserID r) (t_verifications ?d)"
        have run: "fst (?op c) = Inr \<lparr>vu_ID = ud_ID u, vu_Email = ud_Email u, vu_Verified = True\<rparr>"
          "tables (snd (?op c)) = ?d\<lparr>t_users := ?us, t_verifications := ?vs\<rparr>"
          using c D Some u uid False
          by (simp_all add: pg_ver_Verify_def transaction_quiet bindM_eq on_err_eq stmt_quiet first_join
              sql_update_def sql_delete_def)
        note v1 = set_verified_view [OF c(2) u]
        note dm = delete_one_time_maps [OF one r(2)]
        have dm1: "one_time_distinct ?vs" using dm(1) by simp
        note v2 = one_time_tables_view [OF v1(1) dm1]
        show ?thesis
          unfolding run using v1 v2 dm(2) r u uid False
          by (simp add: spec_Verify_def verify_fun_def)
      qed
    qed
  qed
qed auto

lemma upsert_password_view:
  assumes "account_tables_ok d" and "users (accounts_view d) (pd_UserID p) \<noteq> None"
  shows "fst (upsert_password_row p d) = Inr ()" and "account_tables_ok (snd (upsert_password_row p d))"
    and "accounts_view (snd (upsert_password_row p d)) =
      set_password (pd_UserID p) (pd_PasswordHash p) (pd_UpdatedAt p) (accounts_view d)"
    and "t_resets (snd (upsert_password_row p d)) = t_resets d"
proof -
  have "fst (upsert_password_row p d) = Inr () \<and> account_tables_ok (snd (upsert_password_row p d)) \<and>
      accounts_view (snd (upsert_password_row p d)) =
        set_password (pd_UserID p) (pd_PasswordHash p) (pd_UpdatedAt p) (accounts_view d) \<and>
      t_resets (snd (upsert_password_row p d)) = t_resets d"
  proof (cases "keyed pd_UserID (t_passwords d) (pd_UserID p)")
    case None
    then show ?thesis
      using insert_password_view [OF assms(1) None assms(2)] assms(2)
      by (simp add: upsert_password_row_def list_ex_keyed insert_password_row_eq)
  next
    case (Some q)
    then show ?thesis
      using update_password_view [OF assms(1) Some, of "\<lambda>x. pd_UserID x = pd_UserID p"]
      by (simp add: upsert_password_row_def list_ex_keyed)
  qed
  then show "fst (upsert_password_row p d) = Inr ()" "account_tables_ok (snd (upsert_password_row p d))"
    "accounts_view (snd (upsert_password_row p d)) =
      set_password (pd_UserID p) (pd_PasswordHash p) (pd_UpdatedAt p) (accounts_view d)"
    "t_resets (snd (upsert_password_row p d)) = t_resets d" by blast+
qed

lemma pg_ResetPassword_implements:
  "implements account_view account_ok (pg_reset_ResetPassword h p t) (spec_ResetPassword False h p t)"
proof (rule account_implements)
  fix c :: account_conn
  assume c: "fault c = (\<lambda>_. False)" "account_tables_ok (tables c)"
  let ?d = "tables c" and ?op = "pg_reset_ResetPassword h p t"
  note one = account_tables_one_time(2) [OF c(2)]
  have D: "distinct (map ot_TokenHash (t_resets ?d))" "distinct (map ud_ID (t_users ?d))"
    using account_tables_okD [OF c(2)] by auto
  show "account_tables_ok (tables (snd (?op c))) \<and>
      ((\<exists>e. is_driver e \<and> fst (?op c) = Inl e) \<and> accounts_view (tables (snd (?op c))) = accounts_view ?d \<or>
       spec_ResetPassword False h p t (accounts_view ?d) (fst (?op c)) (accounts_view (tables (snd (?op c)))))"
  proof (cases "keyed ot_TokenHash (t_resets ?d) h")
    case None
    then show ?thesis
      using c D by (auto simp: pg_reset_ResetPassword_def transaction_quiet bindM_eq on_err_eq stmt_quiet first_join
          spec_ResetPassword_def reset_fun_def index_def split: prod.split)
  next
    case (Some r)
    note r = token_row_Some [OF one Some]
    show ?thesis
    proof (cases "keyed ud_ID (t_users ?d) (ot_UserID r)")
      case None
      then show ?thesis
        using c D Some r
        by (cases "t < ot_ExpiresAt r")
          (auto simp: pg_reset_ResetPassword_def transaction_quiet bindM_eq on_err_eq stmt_quiet first_join
            spec_ResetPassword_def reset_fun_def split: prod.split)
    next
      case u: (Some u)
      have uid: "ud_ID u = ot_UserID r" using keyed_key [OF u] .
      show ?thesis
      proof (cases "t < ot_ExpiresAt r")
        case False
        then show ?thesis
          using c D Some r u by (auto simp: pg_reset_ResetPassword_def transaction_quiet bindM_eq on_err_eq stmt_quiet
              first_join spec_ResetPassword_def reset_fun_def split: prod.split)
      next
        case True
        let ?p = "\<lparr>pd_UserID = ud_ID u, pd_PasswordHash = p, pd_UpdatedAt = t\<rparr>"
        let ?d1 = "snd (upsert_password_row ?p ?d)"
        let ?rs = "filter (\<lambda>x. ot_UserID x \<noteq> ot_UserID r) (t_resets ?d1)"
        have us: "users (accounts_view ?d) (pd_UserID ?p) \<noteq> None" using u uid by simp
        note v1 = upsert_password_view [OF c(2) us]
        have run: "fst (?op c) = Inr \<lparr>eu_ID = ud_ID u, eu_Email = ud_Email u\<rparr>"
          "tables (snd (?op c)) = ?d1\<lparr>t_resets := ?rs\<rparr>"
          using c D Some u uid True v1(1)
          by (simp_all add: pg_reset_ResetPassword_def transaction_quiet bindM_eq on_err_eq stmt_quiet first_join
              sql_delete_def)
        note dm = delete_one_time_maps [OF one r(2)]
        have dm1: "one_time_distinct ?rs" using dm(1) v1(4) by simp
        note v2 = one_time_tables_view [OF v1(2) dm1]
        have m: "one_time_maps ?rs = ((keyed ot_UserID (t_resets ?d))(ot_UserID r := None),
            (index ot_TokenHash ot_UserID (t_resets ?d))(h := None))"
          using dm(2) v1(4) r(3) by simp
        show ?thesis
          unfolding run v2(4) m using v2(2) v1(3) r u uid True
          by (simp add: spec_ResetPassword_def reset_fun_def)
      qed
    qed
  qed
qed auto

lemma pg_CreateChallenge_implements:
  "implements account_view account_ok (pg_google_CreateChallenge x) (fun_spec (spec_CreateChallenge x))"
  by (rule account_implements)
    (auto simp: pg_google_CreateChallenge_def on_err_eq stmt_quiet insert_challenge_row_eq insert_challenge_view
      fun_spec_def spec_CreateChallenge_def)

lemma delete_absent_challenge:
  "keyed gc_StateHash t h = None \<Longrightarrow> filter (\<lambda>c. gc_StateHash c \<noteq> h) t = t"
  by (simp add: keyed_None)

lemma pg_ConsumeChallenge_implements:
  "implements account_view account_ok (pg_google_ConsumeChallenge h t) (fun_spec (spec_ConsumeChallenge h t))"
  by (rule account_implements)
    (auto simp: pg_google_ConsumeChallenge_def bindM_eq on_err_eq stmt_quiet sql_delete_def first_row_keyed
      account_tables_okD delete_challenge_view delete_absent_challenge fun_spec_def spec_ConsumeChallenge_def
      split: option.splits)

lemma pg_UnlinkIdentity_implements:
  "implements account_view account_ok (pg_google_UnlinkIdentity i t) (fun_spec (spec_UnlinkIdentity i))"
proof (rule account_implements)
  fix c :: account_conn
  assume c: "fault c = (\<lambda>_. False)" "account_tables_ok (tables c)"
  have g: "first_row (filter (\<lambda>g. gi_UserID g = i) (t_googles (tables c))) = Inl ENoRows \<longleftrightarrow>
      \<not> has_google (accounts_view (tables c)) i"
    using google_filter [OF c(2)] by (simp add: first_row_Inl)
  have p: "length (filter (\<lambda>p. pd_UserID p = i) (t_passwords (tables c))) = 0 \<longleftrightarrow>
      passwords (accounts_view (tables c)) i = None"
    by (simp add: filter_empty_conv keyed_None)
  let ?op = "pg_google_UnlinkIdentity i t"
  show "account_tables_ok (tables (snd (?op c))) \<and>
      ((\<exists>e. is_driver e \<and> fst (?op c) = Inl e) \<and> accounts_view (tables (snd (?op c))) = accounts_view (tables c) \<or>
       fun_spec (spec_UnlinkIdentity i) (accounts_view (tables c)) (fst (?op c)) (accounts_view (tables (snd (?op c)))))"
  proof (cases "keyed ud_ID (t_users (tables c)) i")
    case None
    then show ?thesis
      using c by (simp add: pg_google_UnlinkIdentity_def pg_lockUser_def transaction_quiet bindM_eq on_err_eq stmt_quiet
          sql_select_def first_row_keyed account_tables_okD fun_spec_def spec_UnlinkIdentity_def)
  next
    case (Some u)
    show ?thesis
    proof (cases "first_row (filter (\<lambda>g. gi_UserID g = i) (t_googles (tables c)))")
      case (Inl e)
      then have "e = ENoRows" by (simp add: first_row_Inl)
      then show ?thesis
        using c Some Inl g by (simp add: pg_google_UnlinkIdentity_def pg_lockUser_def transaction_quiet bindM_eq on_err_eq
            stmt_quiet sql_select_def first_row_keyed account_tables_okD fun_spec_def spec_UnlinkIdentity_def)
    next
      case (Inr x)
      then have h: "has_google (accounts_view (tables c)) i" using g by simp
      show ?thesis
        using c Some Inr h p
        by (auto simp: pg_google_UnlinkIdentity_def pg_lockUser_def transaction_quiet bindM_eq on_err_eq
            stmt_quiet sql_select_def sql_delete_def first_row_keyed account_tables_okD length_filter_count
            delete_google_view fun_spec_def spec_UnlinkIdentity_def)
    qed
  qed
qed auto

text \<open>Resolving a Google identity, case by case.\<close>

lemma steps_insert_google [simp]:
  "steps (\<lambda>c. stmt (insert_google_row \<lparr>gi_ProviderSubject = p, gi_UserID = i, gi_Email = e, gi_LinkedAt = server_now c\<rparr>) c)"
  using steps_server_stmt [of "\<lambda>t. insert_google_row \<lparr>gi_ProviderSubject = p, gi_UserID = i, gi_Email = e, gi_LinkedAt = t\<rparr>"]
  by simp

lemma pg_ResolveIdentity_linked:
  assumes c: "fault c = (\<lambda>_. False)" "account_tables_ok (tables c)"
    and g: "keyed gi_ProviderSubject (t_googles (tables c)) (ir_ProviderSubject r) = Some g"
  shows "account_tables_ok (tables (snd (pg_google_ResolveIdentity dr r c))) \<and>
    fun_spec (spec_ResolveIdentity dr r) (accounts_view (tables c)) (fst (pg_google_ResolveIdentity dr r c))
      (accounts_view (tables (snd (pg_google_ResolveIdentity dr r c))))"
  using c g update_google_view [OF c(2) g, of "ir_Email r"]
  by (simp add: pg_google_ResolveIdentity_def transaction_quiet bindM_eq stmt_quiet sql_select_def sql_update_def
      opt_row_keyed account_tables_okD fun_spec_def spec_ResolveIdentity_def index_def)

lemma pg_ResolveIdentity_existing:
  assumes c: "fault c = (\<lambda>_. False)" "account_tables_ok (tables c)"
    and g: "keyed gi_ProviderSubject (t_googles (tables c)) (ir_ProviderSubject r) = None" and i: "ir_SubjectID r \<noteq> []"
  shows "account_tables_ok (tables (snd (pg_google_ResolveIdentity dr r c))) \<and>
    fun_spec (spec_ResolveIdentity dr r) (accounts_view (tables c)) (fst (pg_google_ResolveIdentity dr r c))
      (accounts_view (tables (snd (pg_google_ResolveIdentity dr r c))))"
proof -
  let ?d = "tables c" and ?i = "ir_SubjectID r"
  have o: "(opt_row (filter (\<lambda>g. gi_UserID g = ?i) (t_googles ?d)) = None) = (\<not> has_google (accounts_view ?d) ?i)"
    by (simp add: opt_row_filter has_google_rows [OF c(2)])
  have gn: "googles (accounts_view ?d) (ir_ProviderSubject r) = None" using g by (simp add: index_def)
  note simps = pg_google_ResolveIdentity_def pg_lockUser_def transaction_quiet bindM_eq on_err_eq stmt_quiet sql_select_def
    opt_row_keyed first_row_keyed account_tables_okD fun_spec_def spec_ResolveIdentity_def index_def
  show ?thesis
  proof (cases "keyed ud_ID (t_users ?d) ?i")
    case None
    then show ?thesis using c g i by (simp add: simps)
  next
    case (Some u)
    show ?thesis
    proof (cases "has_google (accounts_view ?d) ?i")
      case True
      then show ?thesis using c g i Some o by (simp add: simps)
    next
      case False
      have ins: "insert_google_row \<lparr>gi_ProviderSubject = ir_ProviderSubject r, gi_UserID = ?i, gi_Email = ir_Email r,
          gi_LinkedAt = t\<rparr> ?d =
        (Inr (), ?d\<lparr>t_googles := t_googles ?d @ [\<lparr>gi_ProviderSubject = ir_ProviderSubject r, gi_UserID = ?i,
           gi_Email = ir_Email r, gi_LinkedAt = t\<rparr>]\<rparr>)" for t
        using gn False Some by (simp add: insert_google_row_eq [OF c(2)])
      have v: "account_tables_ok (?d\<lparr>t_googles := t_googles ?d @ [\<lparr>gi_ProviderSubject = ir_ProviderSubject r,
            gi_UserID = ?i, gi_Email = ir_Email r, gi_LinkedAt = t\<rparr>]\<rparr>)"
        "accounts_view (?d\<lparr>t_googles := t_googles ?d @ [\<lparr>gi_ProviderSubject = ir_ProviderSubject r,
            gi_UserID = ?i, gi_Email = ir_Email r, gi_LinkedAt = t\<rparr>]\<rparr>) =
          link_google (ir_ProviderSubject r) ?i (ir_Email r) (accounts_view ?d)" for t
        using insert_google_view [OF c(2), of "\<lparr>gi_ProviderSubject = ir_ProviderSubject r, gi_UserID = ?i,
          gi_Email = ir_Email r, gi_LinkedAt = t\<rparr>"] gn False Some by simp_all
      show ?thesis using c g i Some False o ins v by (simp add: simps)
    qed
  qed
qed

lemma pg_ResolveIdentity_new:
  assumes c: "fault c = (\<lambda>_. False)" "account_tables_ok (tables c)" "draws_fresh dr (accounts_view (tables c))"
    and g: "keyed gi_ProviderSubject (t_googles (tables c)) (ir_ProviderSubject r) = None" and i: "ir_SubjectID r = []"
  shows "account_tables_ok (tables (snd (pg_google_ResolveIdentity dr r c))) \<and>
    fun_spec (spec_ResolveIdentity dr r) (accounts_view (tables c)) (fst (pg_google_ResolveIdentity dr r c))
      (accounts_view (tables (snd (pg_google_ResolveIdentity dr r c))))"
proof -
  let ?d = "tables c"
  have gn: "googles (accounts_view ?d) (ir_ProviderSubject r) = None" using g by (simp add: index_def)
  have o: "opt_row (filter (\<lambda>u. ud_Email u = ir_Email r) (t_users ?d)) = keyed ud_Email (t_users ?d) (ir_Email r)"
    by (rule opt_row_keyed) (rule account_tables_okD(2) [OF c(2)])
  note simps = pg_google_ResolveIdentity_def pg_insertUser_def transaction_quiet bindM_eq on_err_eq stmt_quiet
    sql_select_def opt_row_keyed account_tables_okD fun_spec_def spec_ResolveIdentity_def index_def
  show ?thesis
  proof (cases "keyed ud_Email (t_users ?d) (ir_Email r)")
    case (Some u)
    then show ?thesis using c g i o by (simp add: simps)
  next
    case None
    show ?thesis
    proof (cases "new_user (ir_Email r) True (dr_now dr) dr")
      case (Inl e)
      have "e \<noteq> EUnique" using Inl by (auto simp: new_user_def split: sum.splits)
      then show ?thesis using c g i o None Inl by (simp add: simps)
    next
      case (Inr u)
      note f = insert_user_fresh [OF c(2,3) Inr]
      have e: "keyed ud_Email (t_users ?d) (ud_Email u) = None" using None f(3) by simp
      have f1: "insert_user_row u ?d = (Inr (), ?d\<lparr>t_users := t_users ?d @ [u]\<rparr>)"
        using f(1) None by (simp add: index_def)
      let ?d1 = "?d\<lparr>t_users := t_users ?d @ [u]\<rparr>"
      note v = insert_user_view [OF c(2) f(2) e]
      let ?g = "\<lambda>t. \<lparr>gi_ProviderSubject = ir_ProviderSubject r, gi_UserID = ud_ID u, gi_Email = ir_Email r, gi_LinkedAt = t\<rparr>"
      have g1: "googles (accounts_view ?d1) (ir_ProviderSubject r) = None"
        "users (accounts_view ?d1) (ud_ID u) \<noteq> None"
        using gn unfolding v(2) by (simp_all add: insert_user_def del: accounts_view_simps)
      have h1: "\<not> has_google (accounts_view ?d1) (ud_ID u)"
      proof
        assume "has_google (accounts_view ?d1) (ud_ID u)"
        then have "has_google (accounts_view ?d) (ud_ID u)" unfolding v(2) by simp
        then have "users (accounts_view ?d) (ud_ID u) \<noteq> None"
          using accounts_view_ok [OF c(2)] unfolding has_google_def accounts_ok_def by blast
        then show False using f(2) by simp
      qed
      have ins: "insert_google_row (?g t) ?d1 = (Inr (), ?d1\<lparr>t_googles := t_googles ?d @ [?g t]\<rparr>)" for t
        using g1 h1 insert_google_row_eq [OF v(1), of "?g t"] by (simp del: accounts_view_simps)
      have w: "account_tables_ok (?d1\<lparr>t_googles := t_googles ?d @ [?g t]\<rparr>)"
        "accounts_view (?d1\<lparr>t_googles := t_googles ?d @ [?g t]\<rparr>) =
          link_google (ir_ProviderSubject r) (ud_ID u) (ir_Email r) (insert_user u (accounts_view ?d))" for t
        using insert_google_view [OF v(1), of "?g t"] g1 h1 v(2) by (simp_all del: accounts_view_simps)
      have run: "fst (pg_google_ResolveIdentity dr r c) = Inr (ud_ID u)"
        "\<exists>t. tables (snd (pg_google_ResolveIdentity dr r c)) = ?d1\<lparr>t_googles := t_googles ?d @ [?g t]\<rparr>"
        using c g i o None Inr f1 ins by (simp_all add: simps) (rule exI, rule refl)
      then obtain t where t: "tables (snd (pg_google_ResolveIdentity dr r c)) = ?d1\<lparr>t_googles := t_googles ?d @ [?g t]\<rparr>"
        by blast
      show ?thesis
        unfolding run(1) t using w g i None Inr by (simp add: fun_spec_def spec_ResolveIdentity_def index_def)
    qed
  qed
qed

lemma pg_ResolveIdentity_implements:
  "implements_when account_view account_ok (draws_fresh dr) (pg_google_ResolveIdentity dr r)
     (fun_spec (spec_ResolveIdentity dr r))"
proof (rule account_implements_when)
  fix c :: account_conn
  assume c: "fault c = (\<lambda>_. False)" "account_tables_ok (tables c)" "draws_fresh dr (accounts_view (tables c))"
  have "account_tables_ok (tables (snd (pg_google_ResolveIdentity dr r c))) \<and>
    fun_spec (spec_ResolveIdentity dr r) (accounts_view (tables c)) (fst (pg_google_ResolveIdentity dr r c))
      (accounts_view (tables (snd (pg_google_ResolveIdentity dr r c))))"
  proof (cases "keyed gi_ProviderSubject (t_googles (tables c)) (ir_ProviderSubject r)")
    case (Some g)
    then show ?thesis by (rule pg_ResolveIdentity_linked [OF c(1,2)])
  next
    case None
    then show ?thesis
      using pg_ResolveIdentity_existing [OF c(1,2) None] pg_ResolveIdentity_new [OF c None] by blast
  qed
  then show "account_tables_ok (tables (snd (pg_google_ResolveIdentity dr r c))) \<and>
      ((\<exists>e. is_driver e \<and> fst (pg_google_ResolveIdentity dr r c) = Inl e) \<and>
         accounts_view (tables (snd (pg_google_ResolveIdentity dr r c))) = accounts_view (tables c) \<or>
       fun_spec (spec_ResolveIdentity dr r) (accounts_view (tables c)) (fst (pg_google_ResolveIdentity dr r c))
         (accounts_view (tables (snd (pg_google_ResolveIdentity dr r c)))))" by blast
qed auto

interpretation pg_accounts: account_store pg_EmailPasswordStore pg_CredentialStore pg_VerificationStore pg_ResetStore
  pg_GoogleStore account_view account_ok False False
  by unfold_locales
    (simp_all add: pg_account_stores account_view_def [symmetric] account_ok_def accounts_view_ok
      pg_Register_implements pg_FindByEmail_implements pg_ReplacePasswordHash_implements pg_FindBySubject_implements
      pg_AddPassword_implements pg_RemovePassword_implements pg_FindVerified_implements pg_IssueVerification_implements
      pg_Verify_implements pg_FindReset_implements pg_IssueReset_implements pg_ResetPassword_implements
      pg_CreateChallenge_implements pg_ConsumeChallenge_implements pg_ResolveIdentity_implements
      pg_UnlinkIdentity_implements, simp add: account_view_def accounts_view_ok)

end
