(* ===== verification/MysqlAccounts.thy ===== *)
theory MysqlAccounts
  imports PostgresAccounts
begin

text \<open>
  The account stores of the MySQL adapter (src/storage/mysql/accounts.go), statement by statement. Most
  statements are those of PostgreSQL; three operations differ: \<^verbatim>\<open>Issue\<close> (\<^verbatim>\<open>ON DUPLICATE KEY UPDATE\<close> may
  update the row of another user), \<^verbatim>\<open>ReplacePasswordHash\<close> (\<^verbatim>\<open>RowsAffected\<close>) and \<^verbatim>\<open>ConsumeChallenge\<close>. The
  interpretation needs \<^verbatim>\<open>clientFoundRows\<close>, as that of the sessions does. Emails are compared byte by byte
  here; the schema leaves the collation to the server.
\<close>

section \<open>EmailPasswordStore\<close>

definition my_email_Register ::
  "draws \<Rightarrow> Registration \<Rightarrow> account_conn \<Rightarrow> (err + EmailUser) \<times> account_conn" where
  "my_email_Register dr registration =
     transaction
       (bindM (retM (new_user (rg_Email registration) False (rg_CreatedAt registration) dr)) (\<lambda>u.
        bindM (on_err (\<lambda>e. if e = EUnique then EEmailpassword Emailpassword_ErrConflict else e)
                 (stmt (insert_user_row u))) (\<lambda>_.
        bindM (stmt (insert_password_row \<lparr>pd_UserID = ud_ID u, pd_PasswordHash = rg_PasswordHash registration,
                 pd_UpdatedAt = rg_CreatedAt registration\<rparr>)) (\<lambda>_.
        retM (Inr \<lparr>eu_ID = ud_ID u, eu_Email = rg_Email registration\<rparr>)))))"

definition my_email_FindByEmail ::
  "string \<Rightarrow> account_conn \<Rightarrow> (err + EmailUser \<times> PasswordCredential) \<times> account_conn" where
  "my_email_FindByEmail email =
     bindM (on_err (\<lambda>e. if errors_is e ENoRows then EEmailpassword Emailpassword_ErrNotFound else e)
              (stmt (\<lambda>d. (first_row (sql_join ud_ID pd_UserID (\<lambda>u. ud_Email u = email)
                 (t_users d) (t_passwords d)), d))))
       (\<lambda>row. retM (Inr (credential_row row)))"

definition my_email_FindBySubject ::
  "string \<Rightarrow> account_conn \<Rightarrow> (err + EmailUser \<times> PasswordCredential) \<times> account_conn" where
  "my_email_FindBySubject subjectID =
     bindM (on_err (\<lambda>e. if errors_is e ENoRows then EEmailpassword Emailpassword_ErrNotFound else e)
              (stmt (\<lambda>d. (first_row (sql_join ud_ID pd_UserID (\<lambda>u. ud_ID u = subjectID)
                 (t_users d) (t_passwords d)), d))))
       (\<lambda>row. retM (Inr (credential_row row)))"

text \<open>\<^verbatim>\<open>SELECT ... FROM authlier_users WHERE id = $1 FOR UPDATE\<close>\<close>

definition my_lockUser :: "string \<Rightarrow> account_conn \<Rightarrow> (err + userDocument) \<times> account_conn" where
  "my_lockUser subjectID = stmt (\<lambda>d. (first_row (sql_select (\<lambda>u. ud_ID u = subjectID) (t_users d)), d))"

definition my_email_AddPassword ::
  "string \<Rightarrow> string \<Rightarrow> time \<Rightarrow> account_conn \<Rightarrow> (err + EmailUser) \<times> account_conn" where
  "my_email_AddPassword subjectID passwordHash addedAt =
     transaction
       (bindM (on_err (\<lambda>e. if errors_is e ENoRows then EEmailpassword Emailpassword_ErrNotFound else e)
                 (my_lockUser subjectID)) (\<lambda>u.
        bindM (on_err (\<lambda>e. if e = EUnique then EEmailpassword Emailpassword_ErrConflict else e)
                 (stmt (insert_password_row \<lparr>pd_UserID = subjectID, pd_PasswordHash = passwordHash,
                    pd_UpdatedAt = addedAt\<rparr>))) (\<lambda>_.
        retM (Inr \<lparr>eu_ID = ud_ID u, eu_Email = ud_Email u\<rparr>))))"

text \<open>\<^verbatim>\<open>RowsAffected\<close> counts the rows that changed, unless the connection has \<^verbatim>\<open>clientFoundRows\<close>.\<close>

definition my_email_ReplacePasswordHash ::
  "string \<Rightarrow> string \<Rightarrow> string \<Rightarrow> time \<Rightarrow> account_conn \<Rightarrow> (err + unit) \<times> account_conn" where
  "my_email_ReplacePasswordHash userID currentHash replacementHash updatedAt =
     bindM (\<lambda>c. stmt ((\<lambda>found d. case sql_update (\<lambda>p. pd_UserID p = userID \<and> pd_PasswordHash p = currentHash)
                        (\<lambda>p. p\<lparr>pd_PasswordHash := replacementHash, pd_UpdatedAt := updatedAt\<rparr>) (t_passwords d) of
                      (rows, t) \<Rightarrow>
                        (Inr (if found then length rows else if t = t_passwords d then 0 else length rows),
                         d\<lparr>t_passwords := t\<rparr>)) (found_rows c)) c)
       (\<lambda>affected. retM (if affected = 0 then Inl (EEmailpassword Emailpassword_ErrConflict) else Inr ()))"

definition my_otherCredentialCount :: "string \<Rightarrow> account_conn \<Rightarrow> (err + nat) \<times> account_conn" where
  "my_otherCredentialCount subjectID =
     stmt (\<lambda>d. (Inr (length (sql_select (\<lambda>g. gi_UserID g = subjectID) (t_googles d)) +
                     length (sql_select (\<lambda>i. i = subjectID) (t_passkeys d))), d))"

definition my_email_RemovePassword ::
  "string \<Rightarrow> string \<Rightarrow> time \<Rightarrow> account_conn \<Rightarrow> (err + unit) \<times> account_conn" where
  "my_email_RemovePassword subjectID currentHash removedAt =
     transaction
       (bindM (on_err (\<lambda>e. if errors_is e ENoRows then EEmailpassword Emailpassword_ErrNotFound else e)
                 (my_lockUser subjectID)) (\<lambda>_.
        bindM (on_err (\<lambda>e. if errors_is e ENoRows then EEmailpassword Emailpassword_ErrNotFound else e)
                 (stmt (\<lambda>d. (first_row (sql_select (\<lambda>p. pd_UserID p = subjectID) (t_passwords d)), d)))) (\<lambda>stored.
        if pd_PasswordHash stored \<noteq> currentHash then retM (Inl (EEmailpassword Emailpassword_ErrConflict))
        else
        bindM (my_otherCredentialCount subjectID) (\<lambda>methods.
        if methods = 0 then retM (Inl (EEmailpassword Emailpassword_ErrLastCredential))
        else
        stmt (\<lambda>d. (Inr (), d\<lparr>t_passwords := snd (sql_delete (\<lambda>p. pd_UserID p = subjectID) (t_passwords d))\<rparr>))))))"

definition my_EmailPasswordStore :: "account_conn EmailPasswordStore" where
  "my_EmailPasswordStore =
     \<lparr>es_Register = my_email_Register, es_FindByEmail = my_email_FindByEmail,
      es_ReplacePasswordHash = my_email_ReplacePasswordHash\<rparr>"

definition my_CredentialStore :: "account_conn CredentialStore" where
  "my_CredentialStore =
     \<lparr>cs_FindBySubject = my_email_FindBySubject, cs_AddPassword = my_email_AddPassword,
      cs_ReplacePasswordHash = my_email_ReplacePasswordHash, cs_RemovePassword = my_email_RemovePassword\<rparr>"

section \<open>EmailVerificationStore\<close>

definition my_ver_FindUserByEmail :: "string \<Rightarrow> account_conn \<Rightarrow> (err + VerifiedUser) \<times> account_conn" where
  "my_ver_FindUserByEmail email =
     bindM (on_err (\<lambda>e. if errors_is e ENoRows then EVerification Verification_ErrNotFound else e)
              (stmt (\<lambda>d. (first_row (sql_select (\<lambda>u. ud_Email u = email) (t_users d)), d))))
       (\<lambda>u. retM (Inr \<lparr>vu_ID = ud_ID u, vu_Email = ud_Email u, vu_Verified = ud_EmailVerified u\<rparr>))"

definition my_ver_Issue :: "OneTimeRecord \<Rightarrow> account_conn \<Rightarrow> (err + unit) \<times> account_conn" where
  "my_ver_Issue r =
     on_err (\<lambda>e. if e = EUnique then EVerification Verification_ErrConflict else e)
       (stmt (\<lambda>d. case my_upsert_one_time (references_user (ot_UserID r) d) r (t_verifications d) of
                    (x, t) \<Rightarrow> (x, d\<lparr>t_verifications := t\<rparr>)))"

definition my_ver_Verify :: "hash \<Rightarrow> time \<Rightarrow> account_conn \<Rightarrow> (err + VerifiedUser) \<times> account_conn" where
  "my_ver_Verify tokenHash verifiedAt =
     transaction
       (bindM (on_err (\<lambda>e. if errors_is e ENoRows then EVerification Verification_ErrNotFound else e)
                 (stmt (\<lambda>d. (first_row (sql_join ot_UserID ud_ID (\<lambda>v. ot_TokenHash v = tokenHash)
                    (t_verifications d) (t_users d)), d)))) (\<lambda>(v, u).
        if ud_EmailVerified u \<or> \<not> verifiedAt < ot_ExpiresAt v
        then retM (Inl (EVerification Verification_ErrInactiveToken))
        else
        bindM (stmt (\<lambda>d. (Inr (), d\<lparr>t_users := snd (sql_update (\<lambda>x. ud_ID x = ud_ID u)
                 (\<lambda>x. x\<lparr>ud_EmailVerified := True\<rparr>) (t_users d))\<rparr>))) (\<lambda>_.
        bindM (stmt (\<lambda>d. (Inr (), d\<lparr>t_verifications := snd (sql_delete (\<lambda>x. ot_UserID x = ud_ID u)
                 (t_verifications d))\<rparr>))) (\<lambda>_.
        retM (Inr \<lparr>vu_ID = ud_ID u, vu_Email = ud_Email u, vu_Verified = True\<rparr>)))))"

definition my_VerificationStore :: "account_conn VerificationStore" where
  "my_VerificationStore =
     \<lparr>vs_FindUserByEmail = my_ver_FindUserByEmail, vs_Issue = my_ver_Issue, vs_Verify = my_ver_Verify\<rparr>"

section \<open>PasswordResetStore\<close>

definition my_reset_FindUserByEmail :: "string \<Rightarrow> account_conn \<Rightarrow> (err + EmailUser) \<times> account_conn" where
  "my_reset_FindUserByEmail email =
     bindM (on_err (\<lambda>e. if errors_is e ENoRows then EReset Reset_ErrNotFound else e)
              (stmt (\<lambda>d. (first_row (sql_select (\<lambda>u. ud_Email u = email) (t_users d)), d))))
       (\<lambda>u. retM (Inr \<lparr>eu_ID = ud_ID u, eu_Email = ud_Email u\<rparr>))"

definition my_reset_Issue :: "OneTimeRecord \<Rightarrow> account_conn \<Rightarrow> (err + unit) \<times> account_conn" where
  "my_reset_Issue r =
     on_err (\<lambda>e. if e = EUnique then EReset Reset_ErrConflict else e)
       (stmt (\<lambda>d. case my_upsert_one_time (references_user (ot_UserID r) d) r (t_resets d) of
                    (x, t) \<Rightarrow> (x, d\<lparr>t_resets := t\<rparr>)))"

definition my_reset_ResetPassword ::
  "hash \<Rightarrow> string \<Rightarrow> time \<Rightarrow> account_conn \<Rightarrow> (err + EmailUser) \<times> account_conn" where
  "my_reset_ResetPassword tokenHash passwordHash resetAt =
     transaction
       (bindM (on_err (\<lambda>e. if errors_is e ENoRows then EReset Reset_ErrNotFound else e)
                 (stmt (\<lambda>d. (first_row (sql_join ot_UserID ud_ID (\<lambda>r. ot_TokenHash r = tokenHash)
                    (t_resets d) (t_users d)), d)))) (\<lambda>(r, u).
        if \<not> resetAt < ot_ExpiresAt r then retM (Inl (EReset Reset_ErrInactiveToken))
        else
        bindM (stmt (upsert_password_row \<lparr>pd_UserID = ud_ID u, pd_PasswordHash = passwordHash,
                 pd_UpdatedAt = resetAt\<rparr>)) (\<lambda>_.
        bindM (stmt (\<lambda>d. (Inr (), d\<lparr>t_resets := snd (sql_delete (\<lambda>x. ot_UserID x = ud_ID u) (t_resets d))\<rparr>))) (\<lambda>_.
        retM (Inr \<lparr>eu_ID = ud_ID u, eu_Email = ud_Email u\<rparr>)))))"

definition my_ResetStore :: "account_conn ResetStore" where
  "my_ResetStore =
     \<lparr>ps_FindUserByEmail = my_reset_FindUserByEmail, ps_Issue = my_reset_Issue,
      ps_ResetPassword = my_reset_ResetPassword\<rparr>"

section \<open>GoogleStore\<close>

definition my_google_CreateChallenge :: "GoogleChallenge \<Rightarrow> account_conn \<Rightarrow> (err + unit) \<times> account_conn" where
  "my_google_CreateChallenge challenge =
     on_err (\<lambda>e. if e = EUnique then EGoogle Google_ErrConflict else e) (stmt (insert_challenge_row challenge))"

text \<open>MySQL has no \<^verbatim>\<open>RETURNING\<close>: the row is read, deleted and committed before its expiry is checked.\<close>

definition my_google_ConsumeChallenge ::
  "hash \<Rightarrow> time \<Rightarrow> account_conn \<Rightarrow> (err + GoogleChallenge) \<times> account_conn" where
  "my_google_ConsumeChallenge stateHash consumedAt =
     bindM (transaction
              (bindM (on_err (\<lambda>e. if errors_is e ENoRows then EGoogle Google_ErrNotFound else e)
                        (stmt (\<lambda>d. (first_row (sql_select (\<lambda>c. gc_StateHash c = stateHash) (t_challenges d)), d))))
                (\<lambda>challenge.
               bindM (stmt (\<lambda>d. (Inr (), d\<lparr>t_challenges := snd (sql_delete (\<lambda>c. gc_StateHash c = stateHash)
                        (t_challenges d))\<rparr>)))
                 (\<lambda>_. retM (Inr challenge)))))
       (\<lambda>challenge. retM (if \<not> consumedAt < gc_ExpiresAt challenge then Inl (EGoogle Google_ErrInvalidState)
                          else Inr challenge))"

definition my_insertUser ::
  "string \<Rightarrow> bool \<Rightarrow> time \<Rightarrow> draws \<Rightarrow> account_conn \<Rightarrow> (err + string) \<times> account_conn" where
  "my_insertUser email verified createdAt dr =
     bindM (retM (new_user email verified createdAt dr)) (\<lambda>u.
     bindM (stmt (insert_user_row u)) (\<lambda>_. retM (Inr (ud_ID u))))"

definition my_google_ResolveIdentity ::
  "draws \<Rightarrow> IdentityResolution \<Rightarrow> account_conn \<Rightarrow> (err + string) \<times> account_conn" where
  "my_google_ResolveIdentity dr resolution =
     transaction
       (bindM (stmt (\<lambda>d. (Inr (opt_row (sql_select
                 (\<lambda>g. gi_ProviderSubject g = ir_ProviderSubject resolution) (t_googles d))), d))) (\<lambda>linked.
        case linked of
          Some g \<Rightarrow>
            if ir_SubjectID resolution \<noteq> [] \<and> gi_UserID g \<noteq> ir_SubjectID resolution
            then retM (Inl (EGoogle Google_ErrConflict))
            else bindM (stmt (\<lambda>d. (Inr (), d\<lparr>t_googles := snd (sql_update
                   (\<lambda>x. gi_ProviderSubject x = ir_ProviderSubject resolution)
                   (\<lambda>x. x\<lparr>gi_Email := ir_Email resolution\<rparr>) (t_googles d))\<rparr>)))
                 (\<lambda>_. retM (Inr (gi_UserID g)))
        | None \<Rightarrow>
            bindM
              (if ir_SubjectID resolution \<noteq> [] then
                 bindM (on_err (\<lambda>e. if errors_is e ENoRows then EGoogle Google_ErrNotFound else e)
                          (my_lockUser (ir_SubjectID resolution))) (\<lambda>_.
                 bindM (stmt (\<lambda>d. (Inr (opt_row (sql_select
                          (\<lambda>g. gi_UserID g = ir_SubjectID resolution) (t_googles d))), d))) (\<lambda>existing.
                 retM (if existing \<noteq> None then Inl (EGoogle Google_ErrConflict)
                       else Inr (ir_SubjectID resolution))))
               else
                 bindM (stmt (\<lambda>d. (Inr (opt_row (sql_select
                          (\<lambda>u. ud_Email u = ir_Email resolution) (t_users d))), d))) (\<lambda>existing.
                 if existing \<noteq> None then retM (Inl (EGoogle Google_ErrLinkRequired))
                 else on_err (\<lambda>e. if e = EUnique then EGoogle Google_ErrLinkRequired else e)
                        (my_insertUser (ir_Email resolution) True (dr_now dr) dr)))
              (\<lambda>userID.
            bindM (on_err (\<lambda>e. if e = EUnique then EGoogle Google_ErrConflict else e)
                     (\<lambda>c. stmt ((\<lambda>current_timestamp. insert_google_row
                        \<lparr>gi_ProviderSubject = ir_ProviderSubject resolution, gi_UserID = userID,
                         gi_Email = ir_Email resolution, gi_LinkedAt = current_timestamp\<rparr>) (server_now c)) c)) (\<lambda>_.
            retM (Inr userID)))))"

definition my_google_UnlinkIdentity :: "string \<Rightarrow> time \<Rightarrow> account_conn \<Rightarrow> (err + unit) \<times> account_conn" where
  "my_google_UnlinkIdentity subjectID unlinkedAt =
     transaction
       (bindM (on_err (\<lambda>e. if errors_is e ENoRows then EGoogle Google_ErrNotFound else e) (my_lockUser subjectID)) (\<lambda>_.
        bindM (on_err (\<lambda>e. if errors_is e ENoRows then EGoogle Google_ErrNotFound else e)
                 (stmt (\<lambda>d. (first_row (sql_select (\<lambda>g. gi_UserID g = subjectID) (t_googles d)), d)))) (\<lambda>_.
        bindM (stmt (\<lambda>d. (Inr (length (sql_select (\<lambda>p. pd_UserID p = subjectID) (t_passwords d)),
                               length (sql_select (\<lambda>i. i = subjectID) (t_passkeys d))), d)))
          (\<lambda>(passwordCount, passkeyCount).
        if passwordCount + passkeyCount = 0 then retM (Inl (EGoogle Google_ErrLastCredential))
        else
        stmt (\<lambda>d. (Inr (), d\<lparr>t_googles := snd (sql_delete (\<lambda>g. gi_UserID g = subjectID) (t_googles d))\<rparr>))))))"

definition my_GoogleStore :: "account_conn GoogleStore" where
  "my_GoogleStore =
     \<lparr>gs_CreateChallenge = my_google_CreateChallenge, gs_ConsumeChallenge = my_google_ConsumeChallenge,
      gs_ResolveIdentity = my_google_ResolveIdentity, gs_UnlinkIdentity = my_google_UnlinkIdentity\<rparr>"

section \<open>The operations that are those of PostgreSQL\<close>

lemma my_shared_helpers:
  "my_lockUser = pg_lockUser" "my_otherCredentialCount = pg_otherCredentialCount" "my_insertUser = pg_insertUser"
  by (simp_all add: fun_eq_iff my_lockUser_def pg_lockUser_def my_otherCredentialCount_def pg_otherCredentialCount_def
      my_insertUser_def pg_insertUser_def)

lemma my_shared:
  "my_email_Register = pg_email_Register"
  "my_email_FindByEmail = pg_email_FindByEmail"
  "my_email_FindBySubject = pg_email_FindBySubject"
  "my_email_AddPassword = pg_email_AddPassword"
  "my_email_RemovePassword = pg_email_RemovePassword"
  "my_ver_FindUserByEmail = pg_ver_FindUserByEmail"
  "my_ver_Verify = pg_ver_Verify"
  "my_reset_FindUserByEmail = pg_reset_FindUserByEmail"
  "my_reset_ResetPassword = pg_reset_ResetPassword"
  "my_google_CreateChallenge = pg_google_CreateChallenge"
  "my_google_ResolveIdentity = pg_google_ResolveIdentity"
  "my_google_UnlinkIdentity = pg_google_UnlinkIdentity"
  by (intro ext; simp only: my_email_Register_def pg_email_Register_def my_email_FindByEmail_def pg_email_FindByEmail_def my_email_FindBySubject_def pg_email_FindBySubject_def my_email_AddPassword_def pg_email_AddPassword_def my_email_RemovePassword_def pg_email_RemovePassword_def my_ver_FindUserByEmail_def pg_ver_FindUserByEmail_def my_ver_Verify_def pg_ver_Verify_def my_reset_FindUserByEmail_def pg_reset_FindUserByEmail_def my_reset_ResetPassword_def pg_reset_ResetPassword_def my_google_CreateChallenge_def pg_google_CreateChallenge_def my_google_ResolveIdentity_def pg_google_ResolveIdentity_def my_google_UnlinkIdentity_def pg_google_UnlinkIdentity_def my_shared_helpers)+

section \<open>The contract\<close>

definition my_account_ok :: "account_conn \<Rightarrow> bool" where
  "my_account_ok c \<longleftrightarrow> found_rows c \<and> account_ok c"

lemma my_implements:
  assumes "implements account_view account_ok op spec" and "robust op"
  shows "implements account_view my_account_ok op spec"
  using assms unfolding implements_def my_account_ok_def robust_def by simp

lemma my_implements_when:
  assumes "implements_when account_view account_ok pre op spec" and "robust op"
  shows "implements_when account_view my_account_ok pre op spec"
  using assms unfolding implements_when_def my_account_ok_def robust_def by simp

lemma my_account_robust [intro!]:
  "robust (my_ver_Issue r)" "robust (my_reset_Issue r)" "robust (my_google_ConsumeChallenge h t)"
  unfolding my_ver_Issue_def my_reset_Issue_def my_google_ConsumeChallenge_def by auto


lemma my_ReplacePasswordHash_robust [intro!]: "robust (my_email_ReplacePasswordHash i p q t)"
  unfolding my_email_ReplacePasswordHash_def
  by (auto simp: robust_def bindM_eq stmt_def quiet_def connection_error_def retM_def split: sum.split prod.split)

lemma my_ReplacePasswordHash_eq:
  "found_rows c \<Longrightarrow> my_email_ReplacePasswordHash i p q t c = pg_email_ReplacePasswordHash i p q t c"
  by (simp add: my_email_ReplacePasswordHash_def pg_email_ReplacePasswordHash_def bindM_def cong: if_cong)

lemma my_ReplacePasswordHash_implements:
  "implements account_view my_account_ok (my_email_ReplacePasswordHash i p q t)
     (fun_spec (spec_ReplacePasswordHash i p q t))"
  using my_implements [OF pg_ReplacePasswordHash_implements, of i p q t]
  by (auto simp: implements_def my_account_ok_def my_ReplacePasswordHash_eq)

lemma my_IssueVerification_implements:
  "implements account_view account_ok (my_ver_Issue r) (spec_IssueVerification True r)"
proof (rule account_implements)
  fix c :: account_conn
  assume c: "fault c = (\<lambda>_. False)" "account_tables_ok (tables c)"
  let ?y = "my_upsert_one_time (references_user (ot_UserID r) (tables c)) r (t_verifications (tables c))"
  have run: "fst (my_ver_Issue r c) = (case fst ?y of
      Inl e \<Rightarrow> Inl (if e = EUnique then EVerification Verification_ErrConflict else e) | Inr v \<Rightarrow> Inr v)"
    "tables (snd (my_ver_Issue r c)) = (tables c)\<lparr>t_verifications := snd ?y\<rparr>"
    using c(1) by (simp_all add: my_ver_Issue_def on_err_eq stmt_quiet split: prod.split sum.split)
  show "account_tables_ok (tables (snd (my_ver_Issue r c))) \<and>
      ((\<exists>e. is_driver e \<and> fst (my_ver_Issue r c) = Inl e) \<and>
         accounts_view (tables (snd (my_ver_Issue r c))) = accounts_view (tables c) \<or>
       spec_IssueVerification True r (accounts_view (tables c)) (fst (my_ver_Issue r c))
         (accounts_view (tables (snd (my_ver_Issue r c)))))"
    unfolding run
    by (rule issue_verification_result [OF c(2) my_upsert_result [OF account_tables_one_time(1) [OF c(2)]]])
qed auto

lemma my_IssueReset_implements:
  "implements account_view account_ok (my_reset_Issue r) (spec_IssueReset True r)"
proof (rule account_implements)
  fix c :: account_conn
  assume c: "fault c = (\<lambda>_. False)" "account_tables_ok (tables c)"
  let ?y = "my_upsert_one_time (references_user (ot_UserID r) (tables c)) r (t_resets (tables c))"
  have run: "fst (my_reset_Issue r c) = (case fst ?y of
      Inl e \<Rightarrow> Inl (if e = EUnique then EReset Reset_ErrConflict else e) | Inr v \<Rightarrow> Inr v)"
    "tables (snd (my_reset_Issue r c)) = (tables c)\<lparr>t_resets := snd ?y\<rparr>"
    using c(1) by (simp_all add: my_reset_Issue_def on_err_eq stmt_quiet split: prod.split sum.split)
  show "account_tables_ok (tables (snd (my_reset_Issue r c))) \<and>
      ((\<exists>e. is_driver e \<and> fst (my_reset_Issue r c) = Inl e) \<and>
         accounts_view (tables (snd (my_reset_Issue r c))) = accounts_view (tables c) \<or>
       spec_IssueReset True r (accounts_view (tables c)) (fst (my_reset_Issue r c))
         (accounts_view (tables (snd (my_reset_Issue r c)))))"
    unfolding run
    by (rule issue_reset_result [OF c(2) my_upsert_result [OF account_tables_one_time(2) [OF c(2)]]])
qed auto

lemma my_ConsumeChallenge_run:
  fixes c :: account_conn
  assumes "fault c = (\<lambda>_. False)" and "account_tables_ok (tables c)"
  shows "fst (my_google_ConsumeChallenge h t c) = (case keyed gc_StateHash (t_challenges (tables c)) h of
      None \<Rightarrow> Inl (EGoogle Google_ErrNotFound)
    | Some x \<Rightarrow> if \<not> t < gc_ExpiresAt x then Inl (EGoogle Google_ErrInvalidState) else Inr x)"
    and "tables (snd (my_google_ConsumeChallenge h t c)) = (tables c)
      \<lparr>t_challenges := filter (\<lambda>x. gc_StateHash x \<noteq> h) (t_challenges (tables c))\<rparr>"
  using assms by (auto simp: my_google_ConsumeChallenge_def bindM_eq on_err_eq stmt_quiet transaction_quiet
      sql_select_def sql_delete_def first_row_keyed account_tables_okD delete_absent_challenge split: option.splits)

lemma absent_challenge_view:
  "keyed gc_StateHash (t_challenges d) h = None \<Longrightarrow>
     accounts_view d\<lparr>challenges := (keyed gc_StateHash (t_challenges d))(h := None)\<rparr> = accounts_view d"
  by (simp add: fun_upd_idem accounts_view_def)

lemma my_ConsumeChallenge_implements:
  "implements account_view account_ok (my_google_ConsumeChallenge h t) (fun_spec (spec_ConsumeChallenge h t))"
  by (rule account_implements)
    (auto simp: my_ConsumeChallenge_run account_tables_okD delete_challenge_view fun_spec_def
      spec_ConsumeChallenge_def absent_challenge_view split: option.splits)

lemmas my_account_stores =
  my_EmailPasswordStore_def my_CredentialStore_def my_VerificationStore_def my_ResetStore_def my_GoogleStore_def
  EmailPasswordStore.simps CredentialStore.simps VerificationStore.simps ResetStore.simps GoogleStore.simps

lemma my_account_okD: "my_account_ok c \<Longrightarrow> accounts_ok (account_view c)"
  by (simp add: my_account_ok_def account_ok_def account_view_def accounts_view_ok)

interpretation my_accounts: account_store my_EmailPasswordStore my_CredentialStore my_VerificationStore my_ResetStore
  my_GoogleStore account_view my_account_ok True False
  by unfold_locales
    (simp_all add: my_account_stores my_shared my_account_okD my_ReplacePasswordHash_implements,
     (intro my_implements my_implements_when pg_Register_implements pg_FindByEmail_implements
      pg_FindBySubject_implements pg_AddPassword_implements pg_RemovePassword_implements
      pg_FindVerified_implements my_IssueVerification_implements pg_Verify_implements pg_FindReset_implements
      my_IssueReset_implements pg_ResetPassword_implements pg_CreateChallenge_implements
      my_ConsumeChallenge_implements pg_ResolveIdentity_implements pg_UnlinkIdentity_implements
      pg_account_robust my_account_robust; assumption?)+)

end
