(* ===== verification/MongoAccounts.thy ===== *)
theory MongoAccounts
  imports MongoSessions PostgresAccounts
begin

text \<open>
  The account stores of the MongoDB adapter (src/storage/mongodb/accounts.go), on collections that are
  the tables of the theory AccountTables without foreign keys. The unique indexes are those of
  \<^verbatim>\<open>Adapter.Migrate\<close>; \<^verbatim>\<open>user_id\<close> of the Google identities is not unique there, so one identity per user
  rests on the check inside the transaction. The counter \<^verbatim>\<open>credential_version\<close> that \<^verbatim>\<open>lockUser\<close> increments
  serves as a lock only and is not modelled; the two instants that \<^verbatim>\<open>ResolveIdentity\<close> reads are one,
  \<open>dr_now\<close>. Each operation is related to that of PostgreSQL on a connection without faults, and so meets
  the same contract.
\<close>

section \<open>Collections\<close>

fun delete_first :: "('r \<Rightarrow> bool) \<Rightarrow> 'r list \<Rightarrow> 'r list" where
  "delete_first p [] = []"
| "delete_first p (r # rs) = (if p r then rs else r # delete_first p rs)"

text \<open>\<^verbatim>\<open>ReplaceOne\<close> with \<^verbatim>\<open>SetUpsert(true)\<close>, under the unique keys \<open>same_key\<close>.\<close>

definition replace_one :: "('r \<Rightarrow> bool) \<Rightarrow> ('r \<Rightarrow> 'r \<Rightarrow> bool) \<Rightarrow> 'r \<Rightarrow> 'r list \<Rightarrow> (err + unit) \<times> 'r list" where
  "replace_one p same_key r t =
     (if \<not> list_ex p t then sql_insert same_key r t
      else if list_ex (\<lambda>x. \<not> p x \<and> same_key r x) t then (Inl EUnique, t)
      else (Inr (), snd (update_first p (\<lambda>_. r) t)))"

definition mg_find_one ::
  "(account_tables \<Rightarrow> 'r list) \<Rightarrow> ('r \<Rightarrow> bool) \<Rightarrow> account_conn \<Rightarrow> (err + 'r) \<times> account_conn" where
  "mg_find_one collection p = stmt (\<lambda>d. (first_row (filter p (collection d)), d))"

definition mg_find_optional ::
  "(account_tables \<Rightarrow> 'r list) \<Rightarrow> ('r \<Rightarrow> bool) \<Rightarrow> account_conn \<Rightarrow> (err + 'r option) \<times> account_conn" where
  "mg_find_optional collection p = stmt (\<lambda>d. (Inr (opt_row (filter p (collection d))), d))"

definition mg_count ::
  "(account_tables \<Rightarrow> 'r list) \<Rightarrow> ('r \<Rightarrow> bool) \<Rightarrow> account_conn \<Rightarrow> (err + nat) \<times> account_conn" where
  "mg_count collection p = stmt (\<lambda>d. (Inr (length (filter p (collection d))), d))"

definition mg_insert_password :: "passwordDocument \<Rightarrow> account_tables \<Rightarrow> (err + unit) \<times> account_tables" where
  "mg_insert_password p d =
     (case sql_insert (\<lambda>x y. pd_UserID x = pd_UserID y) p (t_passwords d) of (r, t) \<Rightarrow> (r, d\<lparr>t_passwords := t\<rparr>))"

definition mg_insert_google :: "googleRow \<Rightarrow> account_tables \<Rightarrow> (err + unit) \<times> account_tables" where
  "mg_insert_google g d =
     (case sql_insert (\<lambda>x y. gi_ProviderSubject x = gi_ProviderSubject y) g (t_googles d) of
        (r, t) \<Rightarrow> (r, d\<lparr>t_googles := t\<rparr>))"

definition same_one_time :: "OneTimeRecord \<Rightarrow> OneTimeRecord \<Rightarrow> bool" where
  "same_one_time x y \<longleftrightarrow> ot_UserID x = ot_UserID y \<or> ot_TokenHash x = ot_TokenHash y"

section \<open>EmailPasswordStore\<close>

definition mg_lockUser :: "string \<Rightarrow> account_conn \<Rightarrow> (err + userDocument) \<times> account_conn" where
  "mg_lockUser subjectID = mg_find_one t_users (\<lambda>u. ud_ID u = subjectID)"

definition mg_otherCredentialCount :: "string \<Rightarrow> account_conn \<Rightarrow> (err + nat) \<times> account_conn" where
  "mg_otherCredentialCount subjectID =
     bindM (mg_count t_googles (\<lambda>g. gi_UserID g = subjectID)) (\<lambda>googleCount.
     bindM (mg_count t_passkeys (\<lambda>i. i = subjectID)) (\<lambda>passkeyCount.
     retM (Inr (googleCount + passkeyCount))))"

definition mg_email_Register ::
  "draws \<Rightarrow> Registration \<Rightarrow> account_conn \<Rightarrow> (err + EmailUser) \<times> account_conn" where
  "mg_email_Register dr registration =
     transaction
       (bindM (retM (new_user (rg_Email registration) False (rg_CreatedAt registration) dr)) (\<lambda>document.
        bindM (on_err (\<lambda>e. if mg_duplicateKey e then EEmailpassword Emailpassword_ErrConflict else e)
                 (stmt (insert_user_row document))) (\<lambda>_.
        bindM (stmt (mg_insert_password \<lparr>pd_UserID = ud_ID document, pd_PasswordHash = rg_PasswordHash registration,
                 pd_UpdatedAt = rg_CreatedAt registration\<rparr>)) (\<lambda>_.
        retM (Inr \<lparr>eu_ID = ud_ID document, eu_Email = ud_Email document\<rparr>)))))"

definition mg_findWithPassword ::
  "userDocument \<Rightarrow> account_conn \<Rightarrow> (err + EmailUser \<times> PasswordCredential) \<times> account_conn" where
  "mg_findWithPassword document =
     bindM (on_err (\<lambda>e. if errors_is e ENoRows then EEmailpassword Emailpassword_ErrNotFound else e)
              (mg_find_one t_passwords (\<lambda>p. pd_UserID p = ud_ID document)))
       (\<lambda>password. retM (Inr (\<lparr>eu_ID = ud_ID document, eu_Email = ud_Email document\<rparr>,
          \<lparr>pc_UserID = ud_ID document, pc_PasswordHash = pd_PasswordHash password\<rparr>)))"

definition mg_email_FindByEmail ::
  "string \<Rightarrow> account_conn \<Rightarrow> (err + EmailUser \<times> PasswordCredential) \<times> account_conn" where
  "mg_email_FindByEmail email =
     bindM (on_err (\<lambda>e. if errors_is e ENoRows then EEmailpassword Emailpassword_ErrNotFound else e)
              (mg_find_one t_users (\<lambda>u. ud_Email u = email))) mg_findWithPassword"

definition mg_email_FindBySubject ::
  "string \<Rightarrow> account_conn \<Rightarrow> (err + EmailUser \<times> PasswordCredential) \<times> account_conn" where
  "mg_email_FindBySubject subjectID =
     bindM (on_err (\<lambda>e. if errors_is e ENoRows then EEmailpassword Emailpassword_ErrNotFound else e)
              (mg_find_one t_users (\<lambda>u. ud_ID u = subjectID))) mg_findWithPassword"

definition mg_email_AddPassword ::
  "string \<Rightarrow> string \<Rightarrow> time \<Rightarrow> account_conn \<Rightarrow> (err + EmailUser) \<times> account_conn" where
  "mg_email_AddPassword subjectID passwordHash addedAt =
     transaction
       (bindM (on_err (\<lambda>e. if errors_is e ENoRows then EEmailpassword Emailpassword_ErrNotFound else e)
                 (mg_lockUser subjectID)) (\<lambda>document.
        bindM (on_err (\<lambda>e. if mg_duplicateKey e then EEmailpassword Emailpassword_ErrConflict else e)
                 (stmt (mg_insert_password \<lparr>pd_UserID = subjectID, pd_PasswordHash = passwordHash,
                    pd_UpdatedAt = addedAt\<rparr>))) (\<lambda>_.
        retM (Inr \<lparr>eu_ID = ud_ID document, eu_Email = ud_Email document\<rparr>))))"

definition mg_email_ReplacePasswordHash ::
  "string \<Rightarrow> string \<Rightarrow> string \<Rightarrow> time \<Rightarrow> account_conn \<Rightarrow> (err + unit) \<times> account_conn" where
  "mg_email_ReplacePasswordHash userID currentHash replacementHash updatedAt =
     bindM (stmt (\<lambda>d. case update_first (\<lambda>p. pd_UserID p = userID \<and> pd_PasswordHash p = currentHash)
                        (\<lambda>p. p\<lparr>pd_PasswordHash := replacementHash, pd_UpdatedAt := updatedAt\<rparr>) (t_passwords d) of
                      (matchedCount, t) \<Rightarrow> (Inr matchedCount, d\<lparr>t_passwords := t\<rparr>)))
       (\<lambda>matchedCount. retM (if matchedCount = 0 then Inl (EEmailpassword Emailpassword_ErrConflict) else Inr ()))"

definition mg_email_RemovePassword ::
  "string \<Rightarrow> string \<Rightarrow> time \<Rightarrow> account_conn \<Rightarrow> (err + unit) \<times> account_conn" where
  "mg_email_RemovePassword subjectID currentHash removedAt =
     transaction
       (bindM (on_err (\<lambda>e. if errors_is e ENoRows then EEmailpassword Emailpassword_ErrNotFound else e)
                 (mg_lockUser subjectID)) (\<lambda>_.
        bindM (on_err (\<lambda>e. if errors_is e ENoRows then EEmailpassword Emailpassword_ErrNotFound else e)
                 (mg_find_one t_passwords (\<lambda>p. pd_UserID p = subjectID))) (\<lambda>password.
        if pd_PasswordHash password \<noteq> currentHash then retM (Inl (EEmailpassword Emailpassword_ErrConflict))
        else
        bindM (mg_otherCredentialCount subjectID) (\<lambda>count.
        if count = 0 then retM (Inl (EEmailpassword Emailpassword_ErrLastCredential))
        else
        stmt (\<lambda>d. (Inr (), d\<lparr>t_passwords := delete_first (\<lambda>p. pd_UserID p = subjectID) (t_passwords d)\<rparr>))))))"

definition mg_EmailPasswordStore :: "account_conn EmailPasswordStore" where
  "mg_EmailPasswordStore =
     \<lparr>es_Register = mg_email_Register, es_FindByEmail = mg_email_FindByEmail,
      es_ReplacePasswordHash = mg_email_ReplacePasswordHash\<rparr>"

definition mg_CredentialStore :: "account_conn CredentialStore" where
  "mg_CredentialStore =
     \<lparr>cs_FindBySubject = mg_email_FindBySubject, cs_AddPassword = mg_email_AddPassword,
      cs_ReplacePasswordHash = mg_email_ReplacePasswordHash, cs_RemovePassword = mg_email_RemovePassword\<rparr>"

section \<open>EmailVerificationStore\<close>

definition mg_ver_FindUserByEmail :: "string \<Rightarrow> account_conn \<Rightarrow> (err + VerifiedUser) \<times> account_conn" where
  "mg_ver_FindUserByEmail email =
     bindM (on_err (\<lambda>e. if errors_is e ENoRows then EVerification Verification_ErrNotFound else e)
              (mg_find_one t_users (\<lambda>u. ud_Email u = email)))
       (\<lambda>u. retM (Inr \<lparr>vu_ID = ud_ID u, vu_Email = ud_Email u, vu_Verified = ud_EmailVerified u\<rparr>))"

definition mg_ver_Issue :: "OneTimeRecord \<Rightarrow> account_conn \<Rightarrow> (err + unit) \<times> account_conn" where
  "mg_ver_Issue r =
     on_err (\<lambda>e. if mg_duplicateKey e then EVerification Verification_ErrConflict else e)
       (stmt (\<lambda>d. case replace_one (\<lambda>x. ot_UserID x = ot_UserID r) same_one_time r (t_verifications d) of
                    (x, t) \<Rightarrow> (x, d\<lparr>t_verifications := t\<rparr>)))"

definition mg_ver_Verify :: "hash \<Rightarrow> time \<Rightarrow> account_conn \<Rightarrow> (err + VerifiedUser) \<times> account_conn" where
  "mg_ver_Verify tokenHash verifiedAt =
     transaction
       (bindM (on_err (\<lambda>e. if errors_is e ENoRows then EVerification Verification_ErrNotFound else e)
                 (mg_find_one t_verifications (\<lambda>v. ot_TokenHash v = tokenHash))) (\<lambda>token.
        bindM (on_err (\<lambda>e. if errors_is e ENoRows then EVerification Verification_ErrNotFound else e)
                 (mg_find_one t_users (\<lambda>u. ud_ID u = ot_UserID token))) (\<lambda>document.
        if ud_EmailVerified document \<or> \<not> verifiedAt < ot_ExpiresAt token
        then retM (Inl (EVerification Verification_ErrInactiveToken))
        else
        bindM (stmt (\<lambda>d. (Inr (), d\<lparr>t_users := snd (update_first (\<lambda>x. ud_ID x = ud_ID document)
                 (\<lambda>x. x\<lparr>ud_EmailVerified := True\<rparr>) (t_users d))\<rparr>))) (\<lambda>_.
        bindM (stmt (\<lambda>d. (Inr (), d\<lparr>t_verifications := delete_first (\<lambda>x. ot_UserID x = ot_UserID token)
                 (t_verifications d)\<rparr>))) (\<lambda>_.
        retM (Inr \<lparr>vu_ID = ud_ID document, vu_Email = ud_Email document, vu_Verified = True\<rparr>))))))"

definition mg_VerificationStore :: "account_conn VerificationStore" where
  "mg_VerificationStore =
     \<lparr>vs_FindUserByEmail = mg_ver_FindUserByEmail, vs_Issue = mg_ver_Issue, vs_Verify = mg_ver_Verify\<rparr>"

section \<open>PasswordResetStore\<close>

definition mg_reset_FindUserByEmail :: "string \<Rightarrow> account_conn \<Rightarrow> (err + EmailUser) \<times> account_conn" where
  "mg_reset_FindUserByEmail email =
     bindM (on_err (\<lambda>e. if errors_is e ENoRows then EReset Reset_ErrNotFound else e)
              (mg_find_one t_users (\<lambda>u. ud_Email u = email)))
       (\<lambda>u. retM (Inr \<lparr>eu_ID = ud_ID u, eu_Email = ud_Email u\<rparr>))"

definition mg_reset_Issue :: "OneTimeRecord \<Rightarrow> account_conn \<Rightarrow> (err + unit) \<times> account_conn" where
  "mg_reset_Issue r =
     on_err (\<lambda>e. if mg_duplicateKey e then EReset Reset_ErrConflict else e)
       (stmt (\<lambda>d. case replace_one (\<lambda>x. ot_UserID x = ot_UserID r) same_one_time r (t_resets d) of
                    (x, t) \<Rightarrow> (x, d\<lparr>t_resets := t\<rparr>)))"

text \<open>The expiry is checked before the user is read.\<close>

definition mg_reset_ResetPassword ::
  "hash \<Rightarrow> string \<Rightarrow> time \<Rightarrow> account_conn \<Rightarrow> (err + EmailUser) \<times> account_conn" where
  "mg_reset_ResetPassword tokenHash passwordHash resetAt =
     transaction
       (bindM (on_err (\<lambda>e. if errors_is e ENoRows then EReset Reset_ErrNotFound else e)
                 (mg_find_one t_resets (\<lambda>r. ot_TokenHash r = tokenHash))) (\<lambda>token.
        if \<not> resetAt < ot_ExpiresAt token then retM (Inl (EReset Reset_ErrInactiveToken))
        else
        bindM (on_err (\<lambda>e. if errors_is e ENoRows then EReset Reset_ErrNotFound else e)
                 (mg_find_one t_users (\<lambda>u. ud_ID u = ot_UserID token))) (\<lambda>document.
        bindM (stmt (\<lambda>d. case replace_one (\<lambda>x. pd_UserID x = ot_UserID token)
                 (\<lambda>x y. pd_UserID x = pd_UserID y)
                 \<lparr>pd_UserID = ot_UserID token, pd_PasswordHash = passwordHash, pd_UpdatedAt = resetAt\<rparr>
                 (t_passwords d) of (x, t) \<Rightarrow> (x, d\<lparr>t_passwords := t\<rparr>))) (\<lambda>_.
        bindM (stmt (\<lambda>d. (Inr (), d\<lparr>t_resets := delete_first (\<lambda>x. ot_UserID x = ot_UserID token)
                 (t_resets d)\<rparr>))) (\<lambda>_.
        retM (Inr \<lparr>eu_ID = ud_ID document, eu_Email = ud_Email document\<rparr>))))))"

definition mg_ResetStore :: "account_conn ResetStore" where
  "mg_ResetStore =
     \<lparr>ps_FindUserByEmail = mg_reset_FindUserByEmail, ps_Issue = mg_reset_Issue,
      ps_ResetPassword = mg_reset_ResetPassword\<rparr>"

section \<open>GoogleStore\<close>

definition mg_google_CreateChallenge :: "GoogleChallenge \<Rightarrow> account_conn \<Rightarrow> (err + unit) \<times> account_conn" where
  "mg_google_CreateChallenge challenge =
     on_err (\<lambda>e. if mg_duplicateKey e then EGoogle Google_ErrConflict else e) (stmt (insert_challenge_row challenge))"

definition mg_google_ConsumeChallenge ::
  "hash \<Rightarrow> time \<Rightarrow> account_conn \<Rightarrow> (err + GoogleChallenge) \<times> account_conn" where
  "mg_google_ConsumeChallenge stateHash consumedAt =
     bindM (on_err (\<lambda>e. if errors_is e ENoRows then EGoogle Google_ErrNotFound else e)
              (stmt (\<lambda>d. (first_row (filter (\<lambda>c. gc_StateHash c = stateHash) (t_challenges d)),
                 d\<lparr>t_challenges := delete_first (\<lambda>c. gc_StateHash c = stateHash) (t_challenges d)\<rparr>))))
       (\<lambda>challenge. retM (if \<not> consumedAt < gc_ExpiresAt challenge then Inl (EGoogle Google_ErrInvalidState)
                          else Inr challenge))"

definition mg_google_ResolveIdentity ::
  "draws \<Rightarrow> IdentityResolution \<Rightarrow> account_conn \<Rightarrow> (err + string) \<times> account_conn" where
  "mg_google_ResolveIdentity dr resolution =
     transaction
       (bindM (mg_find_optional t_googles (\<lambda>g. gi_ProviderSubject g = ir_ProviderSubject resolution)) (\<lambda>found.
        case found of
          Some identity \<Rightarrow>
            if ir_SubjectID resolution \<noteq> [] \<and> gi_UserID identity \<noteq> ir_SubjectID resolution
            then retM (Inl (EGoogle Google_ErrConflict))
            else bindM (stmt (\<lambda>d. (Inr (), d\<lparr>t_googles := snd (update_first
                   (\<lambda>x. gi_ProviderSubject x = ir_ProviderSubject resolution)
                   (\<lambda>x. x\<lparr>gi_Email := ir_Email resolution\<rparr>) (t_googles d))\<rparr>)))
                 (\<lambda>_. retM (Inr (gi_UserID identity)))
        | None \<Rightarrow>
            bindM
              (if ir_SubjectID resolution \<noteq> [] then
                 bindM (on_err (\<lambda>e. if errors_is e ENoRows then EGoogle Google_ErrNotFound else e)
                          (mg_lockUser (ir_SubjectID resolution))) (\<lambda>_.
                 bindM (mg_find_optional t_googles (\<lambda>g. gi_UserID g = ir_SubjectID resolution)) (\<lambda>existingIdentity.
                 retM (if existingIdentity \<noteq> None then Inl (EGoogle Google_ErrConflict)
                       else Inr (ir_SubjectID resolution))))
               else
                 bindM (mg_find_optional t_users (\<lambda>u. ud_Email u = ir_Email resolution)) (\<lambda>existing.
                 if existing \<noteq> None then retM (Inl (EGoogle Google_ErrLinkRequired))
                 else
                 bindM (retM (new_user (ir_Email resolution) True (dr_now dr) dr)) (\<lambda>document.
                 bindM (on_err (\<lambda>e. if mg_duplicateKey e then EGoogle Google_ErrLinkRequired else e)
                          (stmt (insert_user_row document))) (\<lambda>_.
                 retM (Inr (ud_ID document))))))
              (\<lambda>userID.
            bindM (on_err (\<lambda>e. if mg_duplicateKey e then EGoogle Google_ErrConflict else e)
                     (stmt (mg_insert_google
                        \<lparr>gi_ProviderSubject = ir_ProviderSubject resolution, gi_UserID = userID,
                         gi_Email = ir_Email resolution, gi_LinkedAt = dr_now dr\<rparr>))) (\<lambda>_.
            retM (Inr userID)))))"

definition mg_google_UnlinkIdentity :: "string \<Rightarrow> time \<Rightarrow> account_conn \<Rightarrow> (err + unit) \<times> account_conn" where
  "mg_google_UnlinkIdentity subjectID unlinkedAt =
     transaction
       (bindM (on_err (\<lambda>e. if errors_is e ENoRows then EGoogle Google_ErrNotFound else e) (mg_lockUser subjectID)) (\<lambda>_.
        bindM (on_err (\<lambda>e. if errors_is e ENoRows then EGoogle Google_ErrNotFound else e)
                 (mg_find_one t_googles (\<lambda>g. gi_UserID g = subjectID))) (\<lambda>_.
        bindM (mg_count t_passwords (\<lambda>p. pd_UserID p = subjectID)) (\<lambda>passwords.
        bindM (mg_count t_passkeys (\<lambda>i. i = subjectID)) (\<lambda>passkeys.
        if passwords + passkeys = 0 then retM (Inl (EGoogle Google_ErrLastCredential))
        else
        stmt (\<lambda>d. (Inr (), d\<lparr>t_googles := delete_first (\<lambda>g. gi_UserID g = subjectID) (t_googles d)\<rparr>)))))))"

definition mg_GoogleStore :: "account_conn GoogleStore" where
  "mg_GoogleStore =
     \<lparr>gs_CreateChallenge = mg_google_CreateChallenge, gs_ConsumeChallenge = mg_google_ConsumeChallenge,
      gs_ResolveIdentity = mg_google_ResolveIdentity, gs_UnlinkIdentity = mg_google_UnlinkIdentity\<rparr>"

section \<open>Steps\<close>

lemma mg_account_steps [simp, intro!]:
  "steps (mg_find_one c p)" "steps (mg_find_optional c p)" "steps (mg_count c p)" "steps (mg_lockUser i)"
  "steps (mg_otherCredentialCount i)" "steps (mg_findWithPassword u)"
  by (auto simp: mg_find_one_def mg_find_optional_def mg_count_def mg_lockUser_def mg_otherCredentialCount_def
      mg_findWithPassword_def)

lemma robust_reading: "steps m \<Longrightarrow> (\<And>c. tables (snd (m c)) = tables c) \<Longrightarrow> robust m"
  unfolding robust_def steps_def by blast

lemma mg_find_reads [simp]:
  "tables (snd (mg_find_one k p c)) = tables c" "tables (snd (mg_find_optional k p c)) = tables c"
  "tables (snd (mg_count k p c)) = tables c" "tables (snd (mg_findWithPassword u c)) = tables c"
  by (auto simp: mg_find_one_def mg_find_optional_def mg_count_def stmt_def mg_findWithPassword_def bindM_eq
      split: sum.split prod.split)

lemma mg_account_robust [intro!]:
  "robust (mg_email_Register dr reg)" "robust (mg_email_FindByEmail e)" "robust (mg_email_FindBySubject i)"
  "robust (mg_email_AddPassword i h t)" "robust (mg_email_ReplacePasswordHash i p q t)"
  "robust (mg_email_RemovePassword i p t)" "robust (mg_ver_FindUserByEmail e)" "robust (mg_ver_Issue r)"
  "robust (mg_ver_Verify th t)" "robust (mg_reset_FindUserByEmail e)" "robust (mg_reset_Issue r)"
  "robust (mg_reset_ResetPassword th p t)" "robust (mg_google_CreateChallenge c)"
  "robust (mg_google_ConsumeChallenge th t)" "robust (mg_google_ResolveIdentity dr ir)"
  "robust (mg_google_UnlinkIdentity i t)"
  unfolding mg_email_Register_def mg_email_AddPassword_def
    mg_email_ReplacePasswordHash_def mg_email_RemovePassword_def mg_ver_FindUserByEmail_def mg_ver_Issue_def
    mg_ver_Verify_def mg_reset_FindUserByEmail_def mg_reset_Issue_def mg_reset_ResetPassword_def
    mg_google_CreateChallenge_def mg_google_ConsumeChallenge_def mg_google_ResolveIdentity_def
    mg_google_UnlinkIdentity_def
  by (auto intro: robust_reading simp: mg_email_FindByEmail_def mg_email_FindBySubject_def bindM_eq mg_duplicateKey_def
      connection_error_def split: sum.split)

section \<open>Unique keys\<close>

lemma update_unique:
  "distinct (map k t) \<Longrightarrow> snd (update_first (\<lambda>r. k r = h) f t) = map (\<lambda>r. if k r = h then f r else r) t"
  using update_first_keyed [of k t h "\<lambda>_. True" f] by simp

lemma delete_unique: "distinct (map k t) \<Longrightarrow> delete_first (\<lambda>r. k r = h) t = filter (\<lambda>r. k r \<noteq> h) t"
proof (induction t)
  case (Cons r t)
  have "filter (\<lambda>x. k x \<noteq> h) t = t" if "k r = h"
    using Cons.prems that by (auto intro!: filter_True simp: image_iff)
  with Cons show ?case by auto
qed simp

lemma replace_password:
  assumes "distinct (map pd_UserID (t_passwords d))" and "references_user i d"
  shows "(case replace_one (\<lambda>x. pd_UserID x = i) (\<lambda>x y. pd_UserID x = pd_UserID y)
             \<lparr>pd_UserID = i, pd_PasswordHash = h, pd_UpdatedAt = t\<rparr> (t_passwords d) of
           (x, p) \<Rightarrow> (x, d\<lparr>t_passwords := p\<rparr>)) =
    upsert_password_row \<lparr>pd_UserID = i, pd_PasswordHash = h, pd_UpdatedAt = t\<rparr> d"
proof -
  have "(\<lambda>x. if pd_UserID x = i then \<lparr>pd_UserID = i, pd_PasswordHash = h, pd_UpdatedAt = t\<rparr> else x) =
      (\<lambda>x. if pd_UserID x = i then x\<lparr>pd_PasswordHash := h, pd_UpdatedAt := t\<rparr> else x)"
    by (auto simp: fun_eq_iff)
  then show ?thesis
    using assms by (auto simp: replace_one_def upsert_password_row_def insert_password_row_def sql_insert_def
        update_unique list_ex_iff)
qed

lemma replace_one_time:
  assumes "distinct (map ot_UserID t)"
  shows "replace_one (\<lambda>x. ot_UserID x = ot_UserID r) same_one_time r t = pg_upsert_one_time True r t"
proof -
  have m: "snd (update_first (\<lambda>x. ot_UserID x = ot_UserID r) (\<lambda>_. r) t) =
      update_one_time r (\<lambda>x. ot_UserID x = ot_UserID r) t"
    unfolding update_unique [OF assms] update_one_time_def
    by (intro map_cong refl if_cong) (metis OneTimeRecord.surjective OneTimeRecord.update_convs(1))
  have c: "list_ex (\<lambda>x. ot_UserID x \<noteq> ot_UserID r \<and> same_one_time r x) t =
      list_ex (\<lambda>x. ot_UserID x \<noteq> ot_UserID r \<and> ot_TokenHash x = ot_TokenHash r) t"
    by (auto simp: list_ex_iff same_one_time_def)
  show ?thesis
  proof (cases "list_ex (\<lambda>x. ot_UserID x = ot_UserID r) t")
    case False
    then have "list_ex (same_one_time r) t = list_ex (\<lambda>x. ot_UserID x \<noteq> ot_UserID r \<and> ot_TokenHash x = ot_TokenHash r) t"
      unfolding list_ex_iff same_one_time_def by metis
    with False show ?thesis by (simp add: replace_one_def pg_upsert_one_time_def sql_insert_def)
  next
    case True
    then show ?thesis by (simp add: replace_one_def pg_upsert_one_time_def c m)
  qed
qed

lemma upsert_password_resets [simp]: "t_resets (snd (upsert_password_row p d)) = t_resets d"
  by (auto simp: upsert_password_row_def insert_password_row_def split: prod.split sum.split)

lemma replace_password_resets [simp]:
  "t_resets (snd (case z of (x, t) \<Rightarrow> (x, d\<lparr>t_passwords := t\<rparr>))) = t_resets d"
  by (simp split: prod.split)

section \<open>The contract\<close>

lemma account_transfer_when:
  assumes op': "implements_when account_view account_ok pre op' spec" and op: "robust op"
    and run: "\<And>c :: account_conn. fault c = (\<lambda>_. False) \<Longrightarrow> account_tables_ok (tables c) \<Longrightarrow>
      pre (accounts_view (tables c)) \<Longrightarrow>
      \<exists>c'. tables c' = tables c \<and> fst (op c) = fst (op' c') \<and> tables (snd (op c)) = tables (snd (op' c'))"
  shows "implements_when account_view account_ok pre op spec"
proof (rule account_implements_when [OF op])
  fix c :: account_conn
  assume c: "fault c = (\<lambda>_. False)" "account_tables_ok (tables c)" "pre (accounts_view (tables c))"
  obtain c' where "tables c' = tables c" "fst (op c) = fst (op' c')" "tables (snd (op c)) = tables (snd (op' c'))"
    using run [OF c] by blast
  then show "account_tables_ok (tables (snd (op c))) \<and>
      ((\<exists>e. is_driver e \<and> fst (op c) = Inl e) \<and> accounts_view (tables (snd (op c))) = accounts_view (tables c) \<or>
       spec (accounts_view (tables c)) (fst (op c)) (accounts_view (tables (snd (op c)))))"
    using op' c unfolding implements_when_def account_view_def account_ok_def by (metis)
qed

lemma implements_always: "implements_when view ok (\<lambda>_. True) op spec = implements view ok op spec"
  by (simp add: implements_when_def implements_def)

lemma account_transfer:
  assumes "implements account_view account_ok op' spec" and "robust op"
    and "\<And>c :: account_conn. fault c = (\<lambda>_. False) \<Longrightarrow> account_tables_ok (tables c) \<Longrightarrow>
      \<exists>c'. tables c' = tables c \<and> fst (op c) = fst (op' c') \<and> tables (snd (op c)) = tables (snd (op' c'))"
  shows "implements account_view account_ok op spec"
  using account_transfer_when [of "\<lambda>_. True" op' spec op] assms by (simp add: implements_always)

section \<open>Two programs of statements that do the same\<close>

text \<open>
  Without faults, on the tables \<open>d\<close>, and with the server's clock of the second program at \<open>t\<close>, the two
  programs answer the same and leave the same tables.
\<close>

definition alike ::
  "time \<Rightarrow> 'db \<Rightarrow> ('db conn \<Rightarrow> (err + 'a) \<times> 'db conn) \<Rightarrow> ('db conn \<Rightarrow> (err + 'a) \<times> 'db conn) \<Rightarrow> bool" where
  "alike t d m m' \<longleftrightarrow>
     (\<forall>c c'. fault c = (\<lambda>_. False) \<and> fault c' = (\<lambda>_. False) \<and> tables c = d \<and> tables c' = d \<and> db_clock c' = (\<lambda>_. t) \<longrightarrow>
        fst (m c) = fst (m' c') \<and> tables (snd (m c)) = tables (snd (m' c')) \<and>
        fault (snd (m c)) = (\<lambda>_. False) \<and> fault (snd (m' c')) = (\<lambda>_. False) \<and>
        db_clock (snd (m' c')) = (\<lambda>_. t))"

lemma alikeI:
  assumes "\<And>c c'. fault c = (\<lambda>_. False) \<Longrightarrow> fault c' = (\<lambda>_. False) \<Longrightarrow> tables c = d \<Longrightarrow> tables c' = d \<Longrightarrow>
      db_clock c' = (\<lambda>_. t) \<Longrightarrow>
      fst (m c) = fst (m' c') \<and> tables (snd (m c)) = tables (snd (m' c')) \<and>
      fault (snd (m c)) = (\<lambda>_. False) \<and> fault (snd (m' c')) = (\<lambda>_. False) \<and> db_clock (snd (m' c')) = (\<lambda>_. t)"
  shows "alike t d m m'"
  using assms unfolding alike_def by blast

lemma alikeD:
  assumes "alike t d m m'" and "fault c = (\<lambda>_. False)" and "fault c' = (\<lambda>_. False)" and "tables c = d"
    and "tables c' = d" and "db_clock c' = (\<lambda>_. t)"
  shows "fst (m c) = fst (m' c')" and "tables (snd (m c)) = tables (snd (m' c'))"
    and "fault (snd (m c)) = (\<lambda>_. False)" and "fault (snd (m' c')) = (\<lambda>_. False)"
    and "db_clock (snd (m' c')) = (\<lambda>_. t)"
  using assms unfolding alike_def by blast+

lemma alike_ret: "alike t d (retM r) (retM r)"
  by (simp add: alike_def)

lemma alike_stmt: "f d = g d \<Longrightarrow> alike t d (stmt f) (stmt g)"
  by (auto simp: alike_def stmt_quiet)

lemma alike_server_stmt: "f d = g t d \<Longrightarrow> alike t d (stmt f) (\<lambda>c. stmt (g (server_now c)) c)"
  by (auto simp: alike_def stmt_quiet server_now_def)

lemma alike_on_err: assumes "alike t d m m'" shows "alike t d (on_err h m) (on_err h m')"
proof (rule alikeI)
  fix c c' :: "'a conn"
  assume c: "fault c = (\<lambda>_. False)" "fault c' = (\<lambda>_. False)" "tables c = d" "tables c' = d" "db_clock c' = (\<lambda>_. t)"
  show "fst (on_err h m c) = fst (on_err h m' c') \<and> tables (snd (on_err h m c)) = tables (snd (on_err h m' c')) \<and>
      fault (snd (on_err h m c)) = (\<lambda>_. False) \<and> fault (snd (on_err h m' c')) = (\<lambda>_. False) \<and>
      db_clock (snd (on_err h m' c')) = (\<lambda>_. t)"
    using alikeD [OF assms c] by (simp add: on_err_eq)
qed

lemma alike_seq:
  assumes m: "alike t d m m'"
    and k: "\<And>c v. fault c = (\<lambda>_. False) \<Longrightarrow> tables c = d \<Longrightarrow> fst (m c) = Inr v \<Longrightarrow>
      alike t (tables (snd (m c))) (k v) (k' v)"
  shows "alike t d (bindM m k) (bindM m' k')"
proof (rule alikeI)
  fix c c' :: "'a conn"
  assume c: "fault c = (\<lambda>_. False)" "fault c' = (\<lambda>_. False)" "tables c = d" "tables c' = d" "db_clock c' = (\<lambda>_. t)"
  note D = alikeD [OF m c]
  show "fst (bindM m k c) = fst (bindM m' k' c') \<and> tables (snd (bindM m k c)) = tables (snd (bindM m' k' c')) \<and>
      fault (snd (bindM m k c)) = (\<lambda>_. False) \<and> fault (snd (bindM m' k' c')) = (\<lambda>_. False) \<and>
      db_clock (snd (bindM m' k' c')) = (\<lambda>_. t)"
  proof (cases "fst (m c)")
    case (Inr v)
    have "fst (m' c') = Inr v" using D(1) Inr by simp
    then show ?thesis
      using Inr alikeD [OF k [OF c(1,3) Inr] D(3,4) refl D(2) [symmetric] D(5)] by (simp add: bindM_eq)
  qed (use D in \<open>simp add: bindM_eq\<close>)
qed

lemma alike_bind_ret:
  "(\<And>v. r = Inr v \<Longrightarrow> alike t d (k v) (k' v)) \<Longrightarrow> alike t d (bindM (retM r) k) (bindM (retM r) k')"
  by (rule alike_seq) (auto intro: alike_ret)

lemma alike_bind:
  "f d = g d \<Longrightarrow> (\<And>v. fst (f d) = Inr v \<Longrightarrow> alike t (snd (f d)) (k v) (k' v)) \<Longrightarrow>
    alike t d (bindM (stmt f) k) (bindM (stmt g) k')"
  by (rule alike_seq) (auto simp: alike_stmt stmt_quiet)

lemma alike_bind_err:
  "f d = g d \<Longrightarrow> (\<And>v. fst (f d) = Inr v \<Longrightarrow> alike t (snd (f d)) (k v) (k' v)) \<Longrightarrow>
    alike t d (bindM (on_err h (stmt f)) k) (bindM (on_err h (stmt g)) k')"
  by (rule alike_seq) (auto simp: alike_stmt alike_on_err stmt_quiet)

lemma alike_transaction:
  assumes "alike t d m m'" shows "alike t d (transaction m) (transaction m')"
proof (rule alikeI)
  fix c c' :: "'a conn"
  assume c: "fault c = (\<lambda>_. False)" "fault c' = (\<lambda>_. False)" "tables c = d" "tables c' = d" "db_clock c' = (\<lambda>_. t)"
  let ?c = "c\<lparr>tables := d, stmt_pos := Suc (stmt_pos c)\<rparr>"
  let ?c' = "c'\<lparr>tables := d, stmt_pos := Suc (stmt_pos c')\<rparr>"
  have "fst (m ?c) = fst (m' ?c')" "tables (snd (m ?c)) = tables (snd (m' ?c'))"
    "fault (snd (m ?c)) = (\<lambda>_. False)" "fault (snd (m' ?c')) = (\<lambda>_. False)" "db_clock (snd (m' ?c')) = (\<lambda>_. t)"
    using c by (intro alikeD [OF assms]; simp)+
  then show "fst (transaction m c) = fst (transaction m' c') \<and>
      tables (snd (transaction m c)) = tables (snd (transaction m' c')) \<and>
      fault (snd (transaction m c)) = (\<lambda>_. False) \<and> fault (snd (transaction m' c')) = (\<lambda>_. False) \<and>
      db_clock (snd (transaction m' c')) = (\<lambda>_. t)"
    using c by (cases "fst (m' ?c')") (simp_all add: transaction_eq bindM_eq stmt_quiet split: prod.split)
qed

lemmas alike_rules = alike_transaction alike_bind_ret alike_bind alike_bind_err alike_ret

lemma alike_implements_when:
  assumes op': "implements_when account_view account_ok pre op' spec" and op: "robust op"
    and run: "\<And>d. account_tables_ok d \<Longrightarrow> pre (accounts_view d) \<Longrightarrow> alike t d op op'"
  shows "implements_when account_view account_ok pre op spec"
proof (rule account_transfer_when [OF op' op])
  fix c :: account_conn
  assume c: "fault c = (\<lambda>_. False)" "account_tables_ok (tables c)" "pre (accounts_view (tables c))"
  then show "\<exists>c'. tables c' = tables c \<and> fst (op c) = fst (op' c') \<and> tables (snd (op c)) = tables (snd (op' c'))"
    using alikeD [OF run [OF c(2,3)] c(1) _ refl, of "c\<lparr>db_clock := \<lambda>_. t\<rparr>"]
    by (intro exI [of _ "c\<lparr>db_clock := \<lambda>_. t\<rparr>"]) simp
qed

lemma alike_implements:
  assumes "implements account_view account_ok op' spec" and "robust op"
    and "\<And>d. account_tables_ok d \<Longrightarrow> alike 0 d op op'"
  shows "implements account_view account_ok op spec"
  using alike_implements_when [of "\<lambda>_. True" op' spec op 0] assms by (simp add: implements_always)

lemma references_keyed [simp]:
  "distinct (map ud_ID (t_users d)) \<Longrightarrow> references_user i d = (keyed ud_ID (t_users d) i \<noteq> None)"
  by (auto simp: references_user_def list_ex_iff keyed_Some keyed_None)

lemma mg_insert_password_eq:
  "references_user (pd_UserID p) d \<Longrightarrow> mg_insert_password p d = insert_password_row p d"
  by (auto simp: mg_insert_password_def insert_password_row_def sql_insert_def)

lemma mg_Register_implements:
  "implements_when account_view account_ok (draws_fresh dr) (mg_email_Register dr reg) (fun_spec (spec_Register dr reg))"
  by (rule alike_implements_when [OF pg_Register_implements mg_account_robust(1), where t = 0])
    (auto simp: mg_email_Register_def pg_email_Register_def mg_duplicateKey_def insert_user_row_def sql_insert_def
      new_user_def references_user_def
      split: sum.splits if_splits intro!: alike_rules mg_insert_password_eq)

lemma mg_AddPassword_implements:
  "implements account_view account_ok (mg_email_AddPassword i h t) (fun_spec (spec_AddPassword i h t))"
  by (rule alike_implements [OF pg_AddPassword_implements mg_account_robust(4)])
    (auto simp: mg_email_AddPassword_def pg_email_AddPassword_def pg_lockUser_def mg_lockUser_def mg_find_one_def
      sql_select_def mg_duplicateKey_def first_row_keyed account_tables_okD
      split: option.splits intro!: alike_rules mg_insert_password_eq)

text \<open>Two reads for a join of PostgreSQL, and two counts for one statement.\<close>

lemma alike_join:
  assumes x: "distinct (map k (cx d))" and y: "distinct (map k2 (cy d))"
    and run: "\<And>x y. keyed k (cx d) i = Some x \<Longrightarrow> keyed k2 (cy d) (k1 x) = Some y \<Longrightarrow> alike t d (f x y) (g (x, y))"
  shows "alike t d
    (bindM (on_err h (mg_find_one cx (\<lambda>x. k x = i)))
       (\<lambda>x. bindM (on_err h (mg_find_one cy (\<lambda>y. k2 y = k1 x))) (f x)))
    (bindM (on_err h (stmt (\<lambda>d. (first_row (sql_join k1 k2 (\<lambda>x. k x = i) (cx d) (cy d)), d)))) g)"
proof (rule alikeI)
  fix c c' :: account_conn
  assume c: "fault c = (\<lambda>_. False)" "fault c' = (\<lambda>_. False)" "tables c = d" "tables c' = d" "db_clock c' = (\<lambda>_. t)"
  note j = first_join [OF x y, of k1 i]
  let ?m = "bindM (on_err h (mg_find_one cx (\<lambda>x. k x = i)))
       (\<lambda>x. bindM (on_err h (mg_find_one cy (\<lambda>y. k2 y = k1 x))) (f x))"
  let ?m' = "bindM (on_err h (stmt (\<lambda>d. (first_row (sql_join k1 k2 (\<lambda>x. k x = i) (cx d) (cy d)), d)))) g"
  consider (no) "keyed k (cx d) i = None"
    | (half) u where "keyed k (cx d) i = Some u" "keyed k2 (cy d) (k1 u) = None"
    | (both) u v where "keyed k (cx d) i = Some u" "keyed k2 (cy d) (k1 u) = Some v" by blast
  then show "fst (?m c) = fst (?m' c') \<and> tables (snd (?m c)) = tables (snd (?m' c')) \<and>
      fault (snd (?m c)) = (\<lambda>_. False) \<and> fault (snd (?m' c')) = (\<lambda>_. False) \<and> db_clock (snd (?m' c')) = (\<lambda>_. t)"
  proof cases
    case both
    show ?thesis
      using alikeD [OF run [OF both],
          of "c\<lparr>tables := d, stmt_pos := Suc (Suc (stmt_pos c))\<rparr>" "c'\<lparr>tables := d, stmt_pos := Suc (stmt_pos c')\<rparr>"] c both x y
      by (simp add: bindM_eq on_err_eq stmt_quiet mg_find_one_def first_row_keyed j)
  qed (use c x y in \<open>simp_all add: bindM_eq on_err_eq stmt_quiet mg_find_one_def first_row_keyed j\<close>)
qed

lemma alike_counts:
  assumes "alike t d (f (length (filter p (cx d))) (length (filter q (cy d))))
      (g (length (filter p (cx d)), length (filter q (cy d))))"
  shows "alike t d (bindM (mg_count cx p) (\<lambda>x. bindM (mg_count cy q) (f x)))
    (bindM (stmt (\<lambda>d. (Inr (length (sql_select p (cx d)), length (sql_select q (cy d))), d))) g)"
proof (rule alikeI)
  fix c c' :: account_conn
  assume c: "fault c = (\<lambda>_. False)" "fault c' = (\<lambda>_. False)" "tables c = d" "tables c' = d" "db_clock c' = (\<lambda>_. t)"
  let ?m = "bindM (mg_count cx p) (\<lambda>x. bindM (mg_count cy q) (f x))"
  let ?m' = "bindM (stmt (\<lambda>d. (Inr (length (sql_select p (cx d)), length (sql_select q (cy d))), d))) g"
  show "fst (?m c) = fst (?m' c') \<and> tables (snd (?m c)) = tables (snd (?m' c')) \<and>
      fault (snd (?m c)) = (\<lambda>_. False) \<and> fault (snd (?m' c')) = (\<lambda>_. False) \<and> db_clock (snd (?m' c')) = (\<lambda>_. t)"
    using alikeD [OF assms, of "c\<lparr>tables := d, stmt_pos := Suc (Suc (stmt_pos c))\<rparr>"
        "c'\<lparr>tables := d, stmt_pos := Suc (stmt_pos c')\<rparr>"] c
    by (simp add: bindM_eq stmt_quiet mg_count_def sql_select_def)
qed

text \<open>A check between the two reads that does not fail.\<close>

lemma alike_check:
  assumes "distinct (map k (cx d))" and "\<And>x. keyed k (cx d) i = Some x \<Longrightarrow> \<not> b x"
    and "alike t d (bindM (on_err h (mg_find_one cx (\<lambda>x. k x = i))) f) m'"
  shows "alike t d (bindM (on_err h (mg_find_one cx (\<lambda>x. k x = i))) (\<lambda>x. if b x then g x else f x)) m'"
proof -
  have "bindM (on_err h (mg_find_one cx (\<lambda>x. k x = i))) (\<lambda>x. if b x then g x else f x) c =
      bindM (on_err h (mg_find_one cx (\<lambda>x. k x = i))) f c" if "fault c = (\<lambda>_. False)" "tables c = d" for c
    using that assms(1,2) by (auto simp: bindM_eq on_err_eq mg_find_one_def stmt_quiet first_row_keyed split: option.split)
  then show ?thesis
    using alikeD [OF assms(3)] by (intro alikeI) (metis (no_types, lifting))
qed

lemma alike_otherCredentialCount: "alike t d (mg_otherCredentialCount i) (pg_otherCredentialCount i)"
  by (auto simp: alike_def mg_otherCredentialCount_def pg_otherCredentialCount_def mg_count_def bindM_eq stmt_quiet
      sql_select_def)

lemma mg_count_reads: "tables (snd (mg_otherCredentialCount i c)) = tables c"
  by (simp add: mg_otherCredentialCount_def bindM_eq split: sum.split)

lemma mg_FindByEmail_implements:
  "implements account_view account_ok (mg_email_FindByEmail e) (fun_spec (spec_FindByEmail e))"
  unfolding mg_email_FindByEmail_def mg_findWithPassword_def [abs_def]
  by (rule alike_implements [OF pg_FindByEmail_implements])
    (auto simp: pg_email_FindByEmail_def account_tables_okD credential_row_def dest: keyed_key
      intro!: alike_join alike_ret mg_account_robust(2) [unfolded mg_email_FindByEmail_def mg_findWithPassword_def [abs_def]])

lemma mg_FindBySubject_implements:
  "implements account_view account_ok (mg_email_FindBySubject i) (fun_spec (spec_FindBySubject i))"
  unfolding mg_email_FindBySubject_def mg_findWithPassword_def [abs_def]
  by (rule alike_implements [OF pg_FindBySubject_implements])
    (auto simp: pg_email_FindBySubject_def account_tables_okD credential_row_def dest: keyed_key
      intro!: alike_join alike_ret mg_account_robust(3) [unfolded mg_email_FindBySubject_def mg_findWithPassword_def [abs_def]])

lemma mg_ReplacePasswordHash_implements:
  "implements account_view account_ok (mg_email_ReplacePasswordHash i p q t)
     (fun_spec (spec_ReplacePasswordHash i p q t))"
  by (rule alike_implements [OF pg_ReplacePasswordHash_implements mg_account_robust(5)])
    (auto simp: mg_email_ReplacePasswordHash_def pg_email_ReplacePasswordHash_def sql_update_def update_first_keyed
      account_tables_okD intro!: alike_rules)

lemma mg_RemovePassword_implements:
  "implements account_view account_ok (mg_email_RemovePassword i p t) (fun_spec (spec_RemovePassword i p))"
  by (rule alike_implements [OF pg_RemovePassword_implements mg_account_robust(6)])
    (auto simp: mg_email_RemovePassword_def pg_email_RemovePassword_def mg_lockUser_def pg_lockUser_def mg_find_one_def
      sql_select_def sql_delete_def delete_unique account_tables_okD mg_count_reads
      intro!: alike_rules alike_seq [OF alike_otherCredentialCount] alike_stmt)

lemma mg_FindVerified_implements:
  "implements account_view account_ok (mg_ver_FindUserByEmail e) (fun_spec (spec_FindVerified e))"
  using pg_FindVerified_implements [of e]
  by (simp add: mg_ver_FindUserByEmail_def [abs_def] pg_ver_FindUserByEmail_def mg_find_one_def sql_select_def)

lemma mg_FindReset_implements:
  "implements account_view account_ok (mg_reset_FindUserByEmail e) (fun_spec (spec_FindReset e))"
  using pg_FindReset_implements [of e]
  by (simp add: mg_reset_FindUserByEmail_def [abs_def] pg_reset_FindUserByEmail_def mg_find_one_def sql_select_def)

lemma mg_IssueVerification_implements:
  "implements account_view account_ok (mg_ver_Issue r) (spec_IssueVerification False r)"
proof (rule account_implements)
  fix c :: account_conn
  assume c: "fault c = (\<lambda>_. False)" "account_tables_ok (tables c)"
  let ?y = "pg_upsert_one_time True r (t_verifications (tables c))"
  have run: "fst (mg_ver_Issue r c) = (case fst ?y of
      Inl e \<Rightarrow> Inl (if e = EUnique then EVerification Verification_ErrConflict else e) | Inr v \<Rightarrow> Inr v)"
    "tables (snd (mg_ver_Issue r c)) = (tables c)\<lparr>t_verifications := snd ?y\<rparr>"
    using c by (simp_all add: mg_ver_Issue_def mg_duplicateKey_def on_err_eq stmt_quiet replace_one_time
        account_tables_okD split: prod.split sum.split)
  show "account_tables_ok (tables (snd (mg_ver_Issue r c))) \<and>
      ((\<exists>e. is_driver e \<and> fst (mg_ver_Issue r c) = Inl e) \<and>
         accounts_view (tables (snd (mg_ver_Issue r c))) = accounts_view (tables c) \<or>
       spec_IssueVerification False r (accounts_view (tables c)) (fst (mg_ver_Issue r c))
         (accounts_view (tables (snd (mg_ver_Issue r c)))))"
    unfolding run
    by (rule issue_verification_result [OF c(2) pg_upsert_result [OF account_tables_one_time(1) [OF c(2)]]])
qed auto

lemma mg_IssueReset_implements:
  "implements account_view account_ok (mg_reset_Issue r) (spec_IssueReset False r)"
proof (rule account_implements)
  fix c :: account_conn
  assume c: "fault c = (\<lambda>_. False)" "account_tables_ok (tables c)"
  let ?y = "pg_upsert_one_time True r (t_resets (tables c))"
  have run: "fst (mg_reset_Issue r c) = (case fst ?y of
      Inl e \<Rightarrow> Inl (if e = EUnique then EReset Reset_ErrConflict else e) | Inr v \<Rightarrow> Inr v)"
    "tables (snd (mg_reset_Issue r c)) = (tables c)\<lparr>t_resets := snd ?y\<rparr>"
    using c by (simp_all add: mg_reset_Issue_def mg_duplicateKey_def on_err_eq stmt_quiet replace_one_time
        account_tables_okD split: prod.split sum.split)
  show "account_tables_ok (tables (snd (mg_reset_Issue r c))) \<and>
      ((\<exists>e. is_driver e \<and> fst (mg_reset_Issue r c) = Inl e) \<and>
         accounts_view (tables (snd (mg_reset_Issue r c))) = accounts_view (tables c) \<or>
       spec_IssueReset False r (accounts_view (tables c)) (fst (mg_reset_Issue r c))
         (accounts_view (tables (snd (mg_reset_Issue r c)))))"
    unfolding run
    by (rule issue_reset_result [OF c(2) pg_upsert_result [OF account_tables_one_time(2) [OF c(2)]]])
qed auto

lemma mg_Verify_implements:
  "implements account_view account_ok (mg_ver_Verify h t) (spec_Verify False h t)"
  by (rule alike_implements [OF pg_Verify_implements mg_account_robust(9)])
    (auto simp: mg_ver_Verify_def pg_ver_Verify_def sql_update_def sql_delete_def update_unique delete_unique
      account_tables_okD dest!: keyed_key [of ud_ID] intro!: alike_rules alike_join)

lemma mg_ResetPassword_expired:
  fixes c :: account_conn
  assumes "fault c = (\<lambda>_. False)" and "account_tables_ok (tables c)"
    and "keyed ot_TokenHash (t_resets (tables c)) h = Some r"
    and "keyed ud_ID (t_users (tables c)) (ot_UserID r) = None \<or> \<not> t < ot_ExpiresAt r"
  shows "mg_reset_ResetPassword h p t c =
    (Inl (if t < ot_ExpiresAt r then EReset Reset_ErrNotFound else EReset Reset_ErrInactiveToken),
     snd (mg_reset_ResetPassword h p t c))"
    and "tables (snd (mg_reset_ResetPassword h p t c)) = tables c"
  using assms by (auto simp: prod_eq_iff mg_reset_ResetPassword_def mg_find_one_def transaction_quiet bindM_eq on_err_eq
      stmt_quiet first_row_keyed account_tables_okD)

lemma mg_CreateChallenge_implements:
  "implements account_view account_ok (mg_google_CreateChallenge x) (fun_spec (spec_CreateChallenge x))"
  using pg_CreateChallenge_implements [of x]
  by (simp add: mg_google_CreateChallenge_def pg_google_CreateChallenge_def mg_duplicateKey_def)

lemma mg_ConsumeChallenge_implements:
  "implements account_view account_ok (mg_google_ConsumeChallenge h t) (fun_spec (spec_ConsumeChallenge h t))"
  by (rule alike_implements [OF pg_ConsumeChallenge_implements mg_account_robust(14)])
    (auto simp: mg_google_ConsumeChallenge_def pg_google_ConsumeChallenge_def sql_delete_def delete_unique
      account_tables_okD intro!: alike_rules)

lemma mg_UnlinkIdentity_implements:
  "implements account_view account_ok (mg_google_UnlinkIdentity i t) (fun_spec (spec_UnlinkIdentity i))"
  by (rule alike_implements [OF pg_UnlinkIdentity_implements mg_account_robust(16)])
    (auto simp: mg_google_UnlinkIdentity_def pg_google_UnlinkIdentity_def mg_lockUser_def pg_lockUser_def mg_find_one_def
      sql_select_def [of "\<lambda>u. ud_ID u = i"] sql_select_def [of "\<lambda>g. gi_UserID g = i"] sql_delete_def delete_unique
      account_tables_okD intro!: alike_rules alike_counts alike_stmt)

lemma alike_result:
  assumes op': "implements account_view account_ok op' spec" and run: "alike t (tables c) op op'"
    and c: "fault c = (\<lambda>_. False)" "account_tables_ok (tables c)"
  shows "account_tables_ok (tables (snd (op c))) \<and>
      ((\<exists>e. is_driver e \<and> fst (op c) = Inl e) \<and> accounts_view (tables (snd (op c))) = accounts_view (tables c) \<or>
       spec (accounts_view (tables c)) (fst (op c)) (accounts_view (tables (snd (op c)))))"
proof -
  let ?c = "c\<lparr>db_clock := \<lambda>_. t\<rparr>"
  have "fst (op c) = fst (op' ?c)" "tables (snd (op c)) = tables (snd (op' ?c))"
    using c by (intro alikeD [OF run]; simp)+
  moreover have "account_ok ?c" using c by (simp add: account_ok_def)
  ultimately show ?thesis
    using op' unfolding implements_def account_view_def account_ok_def
    by (metis conn.ext_inject conn.surjective conn.update_convs(4))
qed

lemma mg_ResetPassword_implements:
  "implements account_view account_ok (mg_reset_ResetPassword h p t) (spec_ResetPassword False h p t)"
proof (rule account_implements)
  fix c :: account_conn
  assume c: "fault c = (\<lambda>_. False)" "account_tables_ok (tables c)"
  let ?d = "tables c" and ?op = "mg_reset_ResetPassword h p t"
  note one = account_tables_one_time(2) [OF c(2)]
  show "account_tables_ok (tables (snd (?op c))) \<and>
      ((\<exists>e. is_driver e \<and> fst (?op c) = Inl e) \<and> accounts_view (tables (snd (?op c))) = accounts_view ?d \<or>
       spec_ResetPassword False h p t (accounts_view ?d) (fst (?op c)) (accounts_view (tables (snd (?op c)))))"
  proof (cases "\<exists>r. keyed ot_TokenHash (t_resets ?d) h = Some r \<and>
      (keyed ud_ID (t_users ?d) (ot_UserID r) = None \<or> \<not> t < ot_ExpiresAt r)")
    case True
    then obtain r where r: "keyed ot_TokenHash (t_resets ?d) h = Some r"
      "keyed ud_ID (t_users ?d) (ot_UserID r) = None \<or> \<not> t < ot_ExpiresAt r" by blast
    note run = mg_ResetPassword_expired [OF c r]
    show ?thesis
      unfolding run(2) using c run(1) [THEN arg_cong [of _ _ fst]] r token_row_Some [OF one r(1)]
      by (auto simp: spec_ResetPassword_def reset_fun_def split: option.splits)
  next
    case False
    then have live: "t < ot_ExpiresAt r" if "keyed ot_TokenHash (t_resets ?d) h = Some r" for r
      using that by blast
    have "alike 0 ?d ?op (pg_reset_ResetPassword h p t)"
      unfolding mg_reset_ResetPassword_def pg_reset_ResetPassword_def
    proof (rule alike_transaction, rule alike_check [where b = "\<lambda>r. \<not> t < ot_ExpiresAt r"])
    qed (use c(2) live in \<open>auto simp: account_tables_okD sql_delete_def delete_unique replace_password
        keyed_key [of ud_ID] intro!: alike_rules alike_join\<close>)
    then show ?thesis by (rule alike_result [OF pg_ResetPassword_implements _ c])
  qed
qed auto

lemma mg_insert_google_eq:
  assumes "references_user (gi_UserID g) d" and "gi_UserID g \<notin> gi_UserID ` set (t_googles d)"
  shows "mg_insert_google g d = insert_google_row g d"
  using assms by (auto simp: mg_insert_google_def insert_google_row_def sql_insert_def list_ex_iff image_iff)

lemma alike_insert_google:
  assumes "references_user u d" and "u \<notin> gi_UserID ` set (t_googles d)"
  shows "alike t d
    (bindM (on_err h (stmt (mg_insert_google \<lparr>gi_ProviderSubject = p, gi_UserID = u, gi_Email = e, gi_LinkedAt = t\<rparr>)))
       (\<lambda>_. retM r))
    (bindM (on_err h (\<lambda>c. stmt (insert_google_row
       \<lparr>gi_ProviderSubject = p, gi_UserID = u, gi_Email = e, gi_LinkedAt = server_now c\<rparr>) c)) (\<lambda>_. retM r))"
  using assms
  by (intro alike_seq alike_ret alike_on_err alike_server_stmt
      [where g = "\<lambda>s. insert_google_row \<lparr>gi_ProviderSubject = p, gi_UserID = u, gi_Email = e, gi_LinkedAt = s\<rparr>"]
      mg_insert_google_eq) simp_all

lemma new_user_not_unique: "new_user e v t dr \<noteq> Inl EUnique"
  by (auto simp: new_user_def split: sum.splits)

lemma alike_insert_user:
  "alike t d
    (bindM (retM (new_user e v s dr)) (\<lambda>u. bindM (on_err (\<lambda>x. if x = EUnique then y else x) (stmt (insert_user_row u)))
       (\<lambda>_. retM (Inr (ud_ID u)))))
    (on_err (\<lambda>x. if x = EUnique then y else x) (pg_insertUser e v s dr))"
  using new_user_not_unique [of e v s dr]
  by (intro alikeI; cases "new_user e v s dr")
    (auto simp: pg_insertUser_def bindM_eq on_err_eq stmt_quiet split: sum.split)

lemma mg_ResolveIdentity_alike:
  assumes d: "account_tables_ok d" "draws_fresh dr (accounts_view d)"
  shows "alike (dr_now dr) d (mg_google_ResolveIdentity dr r) (pg_google_ResolveIdentity dr r)"
  unfolding mg_google_ResolveIdentity_def pg_google_ResolveIdentity_def mg_find_optional_def mg_duplicateKey_def sql_select_def
proof (rule alike_transaction, rule alike_bind, rule refl, goal_cases)
  case (1 v)
  then have v: "v = keyed gi_ProviderSubject (t_googles d) (ir_ProviderSubject r)"
    using d by (simp add: opt_row_keyed account_tables_okD)
  show ?case
  proof (cases v)
    case (Some g)
    then show ?thesis
      using d by (simp add: alike_ret account_tables_okD sql_update_def update_unique alike_bind)
  next
    case None
    show ?thesis
      unfolding None option.case snd_conv
    proof (rule alike_seq, goal_cases)
      case 1
      show ?case
        unfolding mg_lockUser_def mg_find_one_def pg_lockUser_def sql_select_def
        by (cases "ir_SubjectID r = []") (auto intro!: alike_rules alike_insert_user)
    next
      case (2 c u)
      show ?case
      proof (cases "ir_SubjectID r = []")
        case False
        then show ?thesis
          using 2 d by (intro alike_insert_google) (auto simp: bindM_eq on_err_eq stmt_quiet mg_lockUser_def
              mg_find_one_def first_row_keyed account_tables_okD opt_row_filter split: option.splits if_splits)
      next
        case True
        then obtain x where x: "new_user (ir_Email r) True (dr_now dr) dr = Inr x"
          using 2 by (cases "new_user (ir_Email r) True (dr_now dr) dr") (auto simp: bindM_eq stmt_quiet split: if_splits)
        note f = insert_user_fresh [OF d x]
        have "ud_ID x \<notin> gi_UserID ` set (t_googles d)"
          using f(2) d by (auto simp: keyed_None account_tables_ok_def dest: subsetD)
        then show ?thesis
          using 2 True x f by (intro alike_insert_google) (auto simp: bindM_eq on_err_eq stmt_quiet references_user_def
              split: if_splits)
      qed
    qed
  qed
qed

lemma mg_ResolveIdentity_implements:
  "implements_when account_view account_ok (draws_fresh dr) (mg_google_ResolveIdentity dr r)
     (fun_spec (spec_ResolveIdentity dr r))"
  by (rule alike_implements_when [OF pg_ResolveIdentity_implements mg_account_robust(15) mg_ResolveIdentity_alike])

lemmas mg_account_stores =
  mg_EmailPasswordStore_def mg_CredentialStore_def mg_VerificationStore_def mg_ResetStore_def mg_GoogleStore_def
  EmailPasswordStore.simps CredentialStore.simps VerificationStore.simps ResetStore.simps GoogleStore.simps

interpretation mg_accounts: account_store mg_EmailPasswordStore mg_CredentialStore mg_VerificationStore mg_ResetStore
  mg_GoogleStore account_view account_ok False False
  by unfold_locales
    (simp_all add: mg_account_stores account_view_def [symmetric] account_ok_def accounts_view_ok
      mg_Register_implements mg_FindByEmail_implements mg_ReplacePasswordHash_implements mg_FindBySubject_implements
      mg_AddPassword_implements mg_RemovePassword_implements mg_FindVerified_implements mg_IssueVerification_implements
      mg_Verify_implements mg_FindReset_implements mg_IssueReset_implements mg_ResetPassword_implements
      mg_CreateChallenge_implements mg_ConsumeChallenge_implements mg_ResolveIdentity_implements
      mg_UnlinkIdentity_implements, simp add: account_view_def accounts_view_ok)

end
