(* ===== verification/RedisAccounts.thy ===== *)
theory RedisAccounts
  imports Redis AccountSafety
begin

text \<open>
  The account stores of the Redis adapter (src/storage/redis/accounts.go): hashes as finite maps, the
  sets \<^verbatim>\<open>google:subject:<id>\<close> and \<^verbatim>\<open>passkeys:subject:<id>\<close> as lists without repetition, and one optimistic
  transaction per operation that writes. \<^verbatim>\<open>Verify\<close> and \<^verbatim>\<open>ResetPassword\<close> answer \<^verbatim>\<open>ErrNotFound\<close> when a read
  inside the transaction fails for any reason (\<open>lossy\<close>). \<^verbatim>\<open>ResolveIdentity\<close> draws the new user inside the
  transaction body: \<open>dr\<close> are the draws of the last attempt, those of an aborted attempt have no effect,
  and its two readings of the clock are one.
\<close>

record redis_accounts =
  ru_users :: "string \<rightharpoonup> userDocument"
  ru_emails :: "string \<rightharpoonup> string"
  ru_handles :: "string \<rightharpoonup> string"
  ru_passwords :: "string \<rightharpoonup> passwordDocument"
  ru_verifications :: "string \<rightharpoonup> OneTimeRecord"
  ru_verification_tokens :: "hash \<rightharpoonup> string"
  ru_resets :: "string \<rightharpoonup> OneTimeRecord"
  ru_reset_tokens :: "hash \<rightharpoonup> string"
  ru_identities :: "string \<rightharpoonup> string \<times> string \<times> time"
  ru_google :: "string \<Rightarrow> string list"
  ru_passkeys :: "string \<Rightarrow> string list"
  ru_challenges :: "hash \<rightharpoonup> GoogleChallenge"

section \<open>EmailPasswordStore\<close>

definition rd_put_user :: "userDocument \<Rightarrow> redis_accounts \<Rightarrow> redis_accounts" where
  "rd_put_user user d = d
     \<lparr>ru_users := (ru_users d)(ud_ID user \<mapsto> user), ru_emails := (ru_emails d)(ud_Email user \<mapsto> ud_ID user),
      ru_handles := (ru_handles d)(ud_WebAuthnHandle user \<mapsto> ud_ID user)\<rparr>"

definition rd_email_Register ::
  "draws \<Rightarrow> Registration \<Rightarrow> redis_accounts redis \<Rightarrow> (err + EmailUser) \<times> redis_accounts redis" where
  "rd_email_Register dr registration =
     bindM (retM (new_user (rg_Email registration) False (rg_CreatedAt registration) dr)) (\<lambda>user.
       watch (bindM (hexists ru_emails (rg_Email registration)) (\<lambda>emailExists.
         bindM (hexists ru_handles (ud_WebAuthnHandle user)) (\<lambda>handleExists.
         if emailExists \<or> handleExists then retM (Inl (EEmailpassword Emailpassword_ErrConflict))
         else bindM (redis_exec (\<lambda>d. (rd_put_user user d)
             \<lparr>ru_passwords := (ru_passwords d)(ud_ID user \<mapsto> \<lparr>pd_UserID = ud_ID user,
                pd_PasswordHash = rg_PasswordHash registration, pd_UpdatedAt = rg_CreatedAt registration\<rparr>)\<rparr>))
           (\<lambda>_. retM (Inr \<lparr>eu_ID = ud_ID user, eu_Email = ud_Email user\<rparr>))))))"

definition rd_findBySubject ::
  "string \<Rightarrow> redis_accounts redis \<Rightarrow> (err + EmailUser \<times> PasswordCredential) \<times> redis_accounts redis" where
  "rd_findBySubject subjectID =
     bindM (on_err (\<lambda>e. if errors_is e ENoRows then EEmailpassword Emailpassword_ErrNotFound else e)
              (readJSON ru_users subjectID)) (\<lambda>user.
     bindM (on_err (\<lambda>e. if errors_is e ENoRows then EEmailpassword Emailpassword_ErrNotFound else e)
              (readJSON ru_passwords subjectID)) (\<lambda>password.
     retM (Inr (\<lparr>eu_ID = ud_ID user, eu_Email = ud_Email user\<rparr>,
       \<lparr>pc_UserID = ud_ID user, pc_PasswordHash = pd_PasswordHash password\<rparr>))))"

definition rd_email_FindByEmail ::
  "string \<Rightarrow> redis_accounts redis \<Rightarrow> (err + EmailUser \<times> PasswordCredential) \<times> redis_accounts redis" where
  "rd_email_FindByEmail email =
     bindM (on_err (\<lambda>e. if errors_is e ENoRows then EEmailpassword Emailpassword_ErrNotFound else e)
              (readJSON ru_emails email)) rd_findBySubject"

definition rd_email_FindBySubject ::
  "string \<Rightarrow> redis_accounts redis \<Rightarrow> (err + EmailUser \<times> PasswordCredential) \<times> redis_accounts redis" where
  "rd_email_FindBySubject subjectID = rd_findBySubject subjectID"

definition rd_email_AddPassword ::
  "string \<Rightarrow> string \<Rightarrow> time \<Rightarrow> redis_accounts redis \<Rightarrow> (err + EmailUser) \<times> redis_accounts redis" where
  "rd_email_AddPassword subjectID passwordHash addedAt =
     watch
       (bindM (on_err (\<lambda>e. if errors_is e ENoRows then EEmailpassword Emailpassword_ErrNotFound else e)
                 (readJSON ru_users subjectID)) (\<lambda>user.
        bindM (hexists ru_passwords subjectID) (\<lambda>exists.
        if exists then retM (Inl (EEmailpassword Emailpassword_ErrConflict))
        else bindM (redis_exec (\<lambda>d. d\<lparr>ru_passwords := (ru_passwords d)(subjectID \<mapsto>
                 \<lparr>pd_UserID = subjectID, pd_PasswordHash = passwordHash, pd_UpdatedAt = addedAt\<rparr>)\<rparr>))
          (\<lambda>_. retM (Inr \<lparr>eu_ID = ud_ID user, eu_Email = ud_Email user\<rparr>)))))"

definition rd_email_ReplacePasswordHash ::
  "string \<Rightarrow> string \<Rightarrow> string \<Rightarrow> time \<Rightarrow> redis_accounts redis \<Rightarrow> (err + unit) \<times> redis_accounts redis" where
  "rd_email_ReplacePasswordHash userID currentHash replacementHash updatedAt =
     watch
       (bindM (on_err (\<lambda>e. if errors_is e ENoRows then EEmailpassword Emailpassword_ErrConflict else e)
                 (readJSON ru_passwords userID)) (\<lambda>record.
        if pd_PasswordHash record \<noteq> currentHash then retM (Inl (EEmailpassword Emailpassword_ErrConflict))
        else redis_exec (\<lambda>d. d\<lparr>ru_passwords := (ru_passwords d)(userID \<mapsto>
               record\<lparr>pd_PasswordHash := replacementHash, pd_UpdatedAt := updatedAt\<rparr>)\<rparr>)))"

definition rd_email_RemovePassword ::
  "string \<Rightarrow> string \<Rightarrow> time \<Rightarrow> redis_accounts redis \<Rightarrow> (err + unit) \<times> redis_accounts redis" where
  "rd_email_RemovePassword subjectID currentHash removedAt =
     watch
       (bindM (hexists ru_users subjectID) (\<lambda>exists.
        if \<not> exists then retM (Inl (EEmailpassword Emailpassword_ErrNotFound))
        else
        bindM (on_err (\<lambda>e. if errors_is e ENoRows then EEmailpassword Emailpassword_ErrNotFound else e)
                 (readJSON ru_passwords subjectID)) (\<lambda>password.
        if pd_PasswordHash password \<noteq> currentHash then retM (Inl (EEmailpassword Emailpassword_ErrConflict))
        else
        bindM (redis_get (\<lambda>d. Inr (length (ru_passkeys d subjectID)))) (\<lambda>passkeyCount.
        bindM (redis_get (\<lambda>d. Inr (length (ru_google d subjectID)))) (\<lambda>googleCount.
        if passkeyCount + googleCount = 0 then retM (Inl (EEmailpassword Emailpassword_ErrLastCredential))
        else redis_exec (\<lambda>d. d\<lparr>ru_passwords := (ru_passwords d)(subjectID := None)\<rparr>))))))"

definition rd_EmailPasswordStore :: "redis_accounts redis EmailPasswordStore" where
  "rd_EmailPasswordStore =
     \<lparr>es_Register = rd_email_Register, es_FindByEmail = rd_email_FindByEmail,
      es_ReplacePasswordHash = rd_email_ReplacePasswordHash\<rparr>"

definition rd_CredentialStore :: "redis_accounts redis CredentialStore" where
  "rd_CredentialStore =
     \<lparr>cs_FindBySubject = rd_email_FindBySubject, cs_AddPassword = rd_email_AddPassword,
      cs_ReplacePasswordHash = rd_email_ReplacePasswordHash, cs_RemovePassword = rd_email_RemovePassword\<rparr>"

section \<open>EmailVerificationStore and PasswordResetStore\<close>

definition rd_findUserByEmail ::
  "string \<Rightarrow> redis_accounts redis \<Rightarrow> (err + userDocument) \<times> redis_accounts redis" where
  "rd_findUserByEmail email =
     on_err (\<lambda>e. if errors_is e ENoRows then EVerification Verification_ErrNotFound else e)
       (bindM (readJSON ru_emails email) (\<lambda>userID. readJSON ru_users userID))"

text \<open>\<^verbatim>\<open>issue\<close>, over the two hashes of the flow.\<close>

definition rd_issue ::
  "(redis_accounts \<Rightarrow> string \<rightharpoonup> OneTimeRecord) \<Rightarrow> (redis_accounts \<Rightarrow> hash \<rightharpoonup> string) \<Rightarrow>
   ((string \<rightharpoonup> OneTimeRecord) \<Rightarrow> (hash \<rightharpoonup> string) \<Rightarrow> redis_accounts \<Rightarrow> redis_accounts) \<Rightarrow> err \<Rightarrow> OneTimeRecord \<Rightarrow>
   redis_accounts redis \<Rightarrow> (err + unit) \<times> redis_accounts redis" where
  "rd_issue records tokens store conflict record =
     watch
       (bindM (readJSON_optional records (ot_UserID record)) (\<lambda>previous.
        bindM (readJSON_optional tokens (ot_TokenHash record)) (\<lambda>owner.
        if owner \<noteq> None \<and> owner \<noteq> Some (ot_UserID record) then retM (Inl conflict)
        else redis_exec (\<lambda>d. store
               ((records d)(ot_UserID record \<mapsto> record))
               ((case previous of None \<Rightarrow> tokens d | Some p \<Rightarrow> (tokens d)(ot_TokenHash p := None))
                  (ot_TokenHash record \<mapsto> ot_UserID record)) d))))"

definition rd_ver_FindUserByEmail ::
  "string \<Rightarrow> redis_accounts redis \<Rightarrow> (err + VerifiedUser) \<times> redis_accounts redis" where
  "rd_ver_FindUserByEmail email =
     bindM (rd_findUserByEmail email)
       (\<lambda>u. retM (Inr \<lparr>vu_ID = ud_ID u, vu_Email = ud_Email u, vu_Verified = ud_EmailVerified u\<rparr>))"

definition rd_ver_Issue :: "OneTimeRecord \<Rightarrow> redis_accounts redis \<Rightarrow> (err + unit) \<times> redis_accounts redis" where
  "rd_ver_Issue =
     rd_issue ru_verifications ru_verification_tokens
       (\<lambda>records tokens d. d\<lparr>ru_verifications := records, ru_verification_tokens := tokens\<rparr>)
       (EVerification Verification_ErrConflict)"

definition rd_ver_Verify ::
  "hash \<Rightarrow> time \<Rightarrow> redis_accounts redis \<Rightarrow> (err + VerifiedUser) \<times> redis_accounts redis" where
  "rd_ver_Verify tokenHash verifiedAt =
     watch
       (bindM (on_err (\<lambda>e. if errors_is e ENoRows then EVerification Verification_ErrNotFound else e)
                 (readJSON ru_verification_tokens tokenHash)) (\<lambda>userID.
        bindM (on_err (\<lambda>e. EVerification Verification_ErrNotFound) (readJSON ru_verifications userID)) (\<lambda>token.
        bindM (on_err (\<lambda>e. EVerification Verification_ErrNotFound) (readJSON ru_users userID)) (\<lambda>user.
        if ud_EmailVerified user \<or> \<not> verifiedAt < ot_ExpiresAt token
        then retM (Inl (EVerification Verification_ErrInactiveToken))
        else bindM (redis_exec (\<lambda>d. d
               \<lparr>ru_users := (ru_users d)(userID \<mapsto> user\<lparr>ud_EmailVerified := True\<rparr>),
                ru_verifications := (ru_verifications d)(userID := None),
                ru_verification_tokens := (ru_verification_tokens d)(ot_TokenHash token := None)\<rparr>))
          (\<lambda>_. retM (Inr \<lparr>vu_ID = ud_ID user, vu_Email = ud_Email user, vu_Verified = True\<rparr>))))))"

definition rd_VerificationStore :: "redis_accounts redis VerificationStore" where
  "rd_VerificationStore =
     \<lparr>vs_FindUserByEmail = rd_ver_FindUserByEmail, vs_Issue = rd_ver_Issue, vs_Verify = rd_ver_Verify\<rparr>"

definition rd_reset_FindUserByEmail ::
  "string \<Rightarrow> redis_accounts redis \<Rightarrow> (err + EmailUser) \<times> redis_accounts redis" where
  "rd_reset_FindUserByEmail email =
     bindM (on_err (\<lambda>e. if errors_is e (EVerification Verification_ErrNotFound) then EReset Reset_ErrNotFound else e)
              (rd_findUserByEmail email))
       (\<lambda>u. retM (Inr \<lparr>eu_ID = ud_ID u, eu_Email = ud_Email u\<rparr>))"

definition rd_reset_Issue :: "OneTimeRecord \<Rightarrow> redis_accounts redis \<Rightarrow> (err + unit) \<times> redis_accounts redis" where
  "rd_reset_Issue =
     rd_issue ru_resets ru_reset_tokens (\<lambda>records tokens d. d\<lparr>ru_resets := records, ru_reset_tokens := tokens\<rparr>)
       (EReset Reset_ErrConflict)"

definition rd_reset_ResetPassword ::
  "hash \<Rightarrow> string \<Rightarrow> time \<Rightarrow> redis_accounts redis \<Rightarrow> (err + EmailUser) \<times> redis_accounts redis" where
  "rd_reset_ResetPassword tokenHash passwordHash resetAt =
     watch
       (bindM (on_err (\<lambda>e. if errors_is e ENoRows then EReset Reset_ErrNotFound else e)
                 (readJSON ru_reset_tokens tokenHash)) (\<lambda>userID.
        bindM (on_err (\<lambda>e. EReset Reset_ErrNotFound) (readJSON ru_resets userID)) (\<lambda>token.
        if \<not> resetAt < ot_ExpiresAt token then retM (Inl (EReset Reset_ErrInactiveToken))
        else
        bindM (on_err (\<lambda>e. EReset Reset_ErrNotFound) (readJSON ru_users userID)) (\<lambda>user.
        bindM (redis_exec (\<lambda>d. d
            \<lparr>ru_passwords := (ru_passwords d)(userID \<mapsto>
               \<lparr>pd_UserID = userID, pd_PasswordHash = passwordHash, pd_UpdatedAt = resetAt\<rparr>),
             ru_resets := (ru_resets d)(userID := None),
             ru_reset_tokens := (ru_reset_tokens d)(ot_TokenHash token := None)\<rparr>))
          (\<lambda>_. retM (Inr \<lparr>eu_ID = ud_ID user, eu_Email = ud_Email user\<rparr>))))))"

definition rd_ResetStore :: "redis_accounts redis ResetStore" where
  "rd_ResetStore =
     \<lparr>ps_FindUserByEmail = rd_reset_FindUserByEmail, ps_Issue = rd_reset_Issue,
      ps_ResetPassword = rd_reset_ResetPassword\<rparr>"

section \<open>GoogleStore\<close>

text \<open>\<^verbatim>\<open>HSETNX\<close> answers whether it created the field.\<close>

definition rd_google_CreateChallenge ::
  "GoogleChallenge \<Rightarrow> redis_accounts redis \<Rightarrow> (err + unit) \<times> redis_accounts redis" where
  "rd_google_CreateChallenge challenge =
     bindM (redis_cmd (\<lambda>d. case ru_challenges d (gc_StateHash challenge) of
              None \<Rightarrow> (Inr True, d\<lparr>ru_challenges := (ru_challenges d)(gc_StateHash challenge \<mapsto> challenge)\<rparr>)
            | Some _ \<Rightarrow> (Inr False, d)))
       (\<lambda>created. retM (if \<not> created then Inl (EGoogle Google_ErrConflict) else Inr ()))"

definition rd_google_ConsumeChallenge ::
  "hash \<Rightarrow> time \<Rightarrow> redis_accounts redis \<Rightarrow> (err + GoogleChallenge) \<times> redis_accounts redis" where
  "rd_google_ConsumeChallenge stateHash consumedAt =
     watch
       (bindM (on_err (\<lambda>e. if errors_is e ENoRows then EGoogle Google_ErrNotFound else e)
                 (readJSON ru_challenges stateHash)) (\<lambda>result.
        bindM (redis_exec (\<lambda>d. d\<lparr>ru_challenges := (ru_challenges d)(stateHash := None)\<rparr>)) (\<lambda>_.
        retM (if \<not> consumedAt < gc_ExpiresAt result then Inl (EGoogle Google_ErrInvalidState) else Inr result))))"

definition rd_google_ResolveIdentity ::
  "draws \<Rightarrow> IdentityResolution \<Rightarrow> redis_accounts redis \<Rightarrow> (err + string) \<times> redis_accounts redis" where
  "rd_google_ResolveIdentity dr resolution =
     watch
       (bindM (readJSON_optional ru_identities (ir_ProviderSubject resolution)) (\<lambda>found.
        case found of
          Some (identityUserID, identityEmail, linkedAt) \<Rightarrow>
            if ir_SubjectID resolution \<noteq> [] \<and> identityUserID \<noteq> ir_SubjectID resolution
            then retM (Inl (EGoogle Google_ErrConflict))
            else bindM (redis_exec (\<lambda>d. d\<lparr>ru_identities := (ru_identities d)(ir_ProviderSubject resolution \<mapsto>
                     (identityUserID, ir_Email resolution, linkedAt))\<rparr>))
                   (\<lambda>_. retM (Inr identityUserID))
        | None \<Rightarrow>
            bindM
              (if ir_SubjectID resolution \<noteq> [] then
                 bindM (on_err (\<lambda>e. if errors_is e ENoRows then EGoogle Google_ErrNotFound else e)
                          (readJSON ru_users (ir_SubjectID resolution))) (\<lambda>user.
                 bindM (redis_get (\<lambda>d. Inr (length (ru_google d (ir_SubjectID resolution))))) (\<lambda>linkedCount.
                 retM (if linkedCount \<noteq> 0 then Inl (EGoogle Google_ErrConflict) else Inr user)))
               else
                 bindM (hexists ru_emails (ir_Email resolution)) (\<lambda>exists.
                 retM (if exists then Inl (EGoogle Google_ErrLinkRequired)
                       else new_user (ir_Email resolution) True (dr_now dr) dr)))
              (\<lambda>user.
            let userID = (if ir_SubjectID resolution \<noteq> [] then ir_SubjectID resolution else ud_ID user)
            in bindM (redis_exec (\<lambda>d.
                 (if ir_SubjectID resolution = [] then rd_put_user user d else d)
                   \<lparr>ru_identities := (ru_identities d)(ir_ProviderSubject resolution \<mapsto>
                      (userID, ir_Email resolution, dr_now dr)),
                    ru_google := (ru_google d)(userID := sadd (ir_ProviderSubject resolution) (ru_google d userID))\<rparr>))
               (\<lambda>_. retM (Inr userID)))))"

definition rd_google_UnlinkIdentity ::
  "string \<Rightarrow> time \<Rightarrow> redis_accounts redis \<Rightarrow> (err + unit) \<times> redis_accounts redis" where
  "rd_google_UnlinkIdentity subjectID unlinkedAt =
     watch
       (bindM (hexists ru_users subjectID) (\<lambda>exists.
        if \<not> exists then retM (Inl (EGoogle Google_ErrNotFound))
        else
        bindM (redis_get (\<lambda>d. Inr (ru_google d subjectID))) (\<lambda>providerSubjects.
        if length providerSubjects = 0 then retM (Inl (EGoogle Google_ErrNotFound))
        else if length providerSubjects \<noteq> 1 then retM (Inl (EGoogle Google_ErrConflict))
        else
        bindM (on_err (\<lambda>e. if errors_is e ENoRows then EGoogle Google_ErrNotFound else e)
                 (readJSON ru_identities (hd providerSubjects))) (\<lambda>(identityUserID, identityEmail, linkedAt).
        if identityUserID \<noteq> subjectID then retM (Inl (EGoogle Google_ErrNotFound))
        else
        bindM (hexists ru_passwords subjectID) (\<lambda>passwordCount.
        bindM (redis_get (\<lambda>d. Inr (length (ru_passkeys d subjectID)))) (\<lambda>passkeyCount.
        if \<not> passwordCount \<and> passkeyCount = 0 then retM (Inl (EGoogle Google_ErrLastCredential))
        else redis_exec (\<lambda>d. d
               \<lparr>ru_identities := (ru_identities d)(hd providerSubjects := None),
                ru_google := (ru_google d)(subjectID := removeAll (hd providerSubjects) (ru_google d subjectID))\<rparr>)))))))"

definition rd_GoogleStore :: "redis_accounts redis GoogleStore" where
  "rd_GoogleStore =
     \<lparr>gs_CreateChallenge = rd_google_CreateChallenge, gs_ConsumeChallenge = rd_google_ConsumeChallenge,
      gs_ResolveIdentity = rd_google_ResolveIdentity, gs_UnlinkIdentity = rd_google_UnlinkIdentity\<rparr>"

section \<open>The data as abstract accounts\<close>

definition redis_accounts_db :: "redis_accounts \<Rightarrow> account_db" where
  "redis_accounts_db d =
     \<lparr>users = ru_users d, emails = ru_emails d, passwords = ru_passwords d,
      googles = (\<lambda>p. map_option (\<lambda>(i, e, t). (i, e)) (ru_identities d p)),
      verifications = ru_verifications d, verification_tokens = ru_verification_tokens d,
      resets = ru_resets d, reset_tokens = ru_reset_tokens d, challenges = ru_challenges d,
      passkeys = (\<lambda>i. length (ru_passkeys d i))\<rparr>"

definition redis_accounts_ok :: "redis_accounts \<Rightarrow> bool" where
  "redis_accounts_ok d \<longleftrightarrow>
     accounts_ok (redis_accounts_db d) \<and>
     (\<forall>h i. ru_handles d h = Some i \<longrightarrow> (\<exists>u. ru_users d i = Some u \<and> ud_WebAuthnHandle u = h)) \<and>
     (\<forall>i. distinct (ru_google d i)) \<and>
     (\<forall>i p. p \<in> set (ru_google d i) \<longleftrightarrow> (\<exists>e t. ru_identities d p = Some (i, e, t)))"

section \<open>Attempts\<close>

text \<open>A retried transaction ends as its last attempt does.\<close>

lemma attempt_watch_loop:
  fixes d :: 'db
  assumes op: "attempt d op P" and P: "\<And>e d'. P (Inl e) d' \<Longrightarrow> errors_is e tx_failed \<Longrightarrow> d' = d"
  shows "attempt d (watch_loop n op) P"
proof (induction n)
  case 0
  then show ?case by (auto simp: attempt_def)
next
  case (Suc n)
  show ?case
    unfolding attempt_def
  proof (intro allI impI)
    fix r :: "'db redis" assume r: "rd_db r = d"
    obtain x r1 where 1: "op r = (x, r1)" by fastforce
    then have o: "(\<exists>e. is_driver e \<and> x = Inl e) \<and> rd_db r1 = d \<or> P x (rd_db r1)"
      using op r unfolding attempt_def by (metis fst_conv snd_conv)
    have "(\<exists>e. is_driver e \<and> fst (watch_loop n op r1) = Inl e) \<and> rd_db (snd (watch_loop n op r1)) = d \<or>
        P (fst (watch_loop n op r1)) (rd_db (snd (watch_loop n op r1)))" if "rd_db r1 = d"
      using Suc that unfolding attempt_def by blast
    then show "(\<exists>e. is_driver e \<and> fst (watch_loop (Suc n) op r) = Inl e) \<and>
        rd_db (snd (watch_loop (Suc n) op r)) = d \<or>
      P (fst (watch_loop (Suc n) op r)) (rd_db (snd (watch_loop (Suc n) op r)))"
      using 1 o P by (cases x) auto
  qed
qed

lemma attempt_watch:
  "attempt d op P \<Longrightarrow> (\<And>e d'. P (Inl e) d' \<Longrightarrow> errors_is e tx_failed \<Longrightarrow> d' = d) \<Longrightarrow> attempt d (watch op) P"
  unfolding watch_def by (rule attempt_watch_loop)

text \<open>Where a failure leaves the data alone, its cause does not matter.\<close>

lemma attempt_watch_same:
  assumes "attempt d op (\<lambda>x d'. P x d' \<and> (isl x \<longrightarrow> d' = d))"
  shows "attempt d (watch op) P"
proof -
  have "attempt d (watch op) (\<lambda>x d'. P x d' \<and> (isl x \<longrightarrow> d' = d))"
    using assms by (rule attempt_watch) simp
  then show ?thesis unfolding attempt_def by blast
qed

text \<open>A read whose every failure is answered by the error \<open>e\<close>.\<close>

lemma attempt_lossy:
  fixes d :: 'db
  assumes "P (Inl e) d" and "\<And>v. key d field = Some v \<Longrightarrow> attempt d (k v) P"
  shows "attempt d (bindM (on_err (\<lambda>_. e) (readJSON key field)) k) P"
  unfolding attempt_def
proof (intro allI impI)
  fix r :: "'db redis" assume d: "rd_db r = d"
  show "(\<exists>x. is_driver x \<and> fst (bindM (on_err (\<lambda>_. e) (readJSON key field)) k r) = Inl x) \<and>
      rd_db (snd (bindM (on_err (\<lambda>_. e) (readJSON key field)) k r)) = d \<or>
    P (fst (bindM (on_err (\<lambda>_. e) (readJSON key field)) k r))
      (rd_db (snd (bindM (on_err (\<lambda>_. e) (readJSON key field)) k r)))"
    using assms d
    by (cases "fst (readJSON key field r)")
      (auto simp: bindM_eq on_err_eq attempt_def readJSON_def redis_get_def redis_cmd_def split: option.splits if_splits)
qed

lemma attempt_optional:
  "attempt d (k (key d field)) P \<Longrightarrow> attempt d (bindM (readJSON_optional key field) k) P"
  by (rule attempt_reads [OF reads_optional])

lemma attempt_implements_when:
  fixes op :: "'db redis \<Rightarrow> (err + 'a) \<times> 'db redis"
  assumes "\<And>d. ok d \<Longrightarrow> pre (vw d) \<Longrightarrow> attempt d op (\<lambda>x d'. ok d' \<and> spec (vw d) x (vw d'))"
  shows "implements_when (\<lambda>r. vw (rd_db r)) (\<lambda>r. ok (rd_db r)) pre op spec"
  unfolding implements_when_def
proof (intro allI impI, elim conjE)
  fix s :: "'db redis" assume s: "ok (rd_db s)" "pre (vw (rd_db s))"
  from assms [OF this] have a: "(\<exists>e. is_driver e \<and> fst (op s) = Inl e) \<and> rd_db (snd (op s)) = rd_db s \<or>
    ok (rd_db (snd (op s))) \<and> spec (vw (rd_db s)) (fst (op s)) (vw (rd_db (snd (op s))))"
    unfolding attempt_def by blast
  then show "ok (rd_db (snd (op s))) \<and>
      ((\<exists>e. is_driver e \<and> fst (op s) = Inl e) \<and> vw (rd_db (snd (op s))) = vw (rd_db s) \<or>
       spec (vw (rd_db s)) (fst (op s)) (vw (rd_db (snd (op s)))))"
    using s(1) by auto
qed

section \<open>The invariant\<close>

lemma redis_accounts_db_simps [simp]:
  "users (redis_accounts_db d) = ru_users d" "emails (redis_accounts_db d) = ru_emails d"
  "passwords (redis_accounts_db d) = ru_passwords d"
  "verifications (redis_accounts_db d) = ru_verifications d"
  "verification_tokens (redis_accounts_db d) = ru_verification_tokens d"
  "resets (redis_accounts_db d) = ru_resets d" "reset_tokens (redis_accounts_db d) = ru_reset_tokens d"
  "challenges (redis_accounts_db d) = ru_challenges d"
  "passkeys (redis_accounts_db d) i = length (ru_passkeys d i)"
  "googles (redis_accounts_db d) p = map_option (\<lambda>(i, e, t). (i, e)) (ru_identities d p)"
  by (simp_all add: redis_accounts_db_def)

lemma redis_accounts_okD:
  assumes "redis_accounts_ok d"
  shows "accounts_ok (redis_accounts_db d)"
    and "ru_users d i = Some u \<Longrightarrow> ud_ID u = i \<and> ru_emails d (ud_Email u) = Some i"
    and "ru_emails d e = Some i \<Longrightarrow> \<exists>u. ru_users d i = Some u \<and> ud_Email u = e"
    and "ru_passwords d i = Some p \<Longrightarrow> pd_UserID p = i"
    and "ru_handles d h = Some i \<Longrightarrow> \<exists>u. ru_users d i = Some u \<and> ud_WebAuthnHandle u = h"
    and "distinct (ru_google d i)"
    and "q \<in> set (ru_google d i) \<longleftrightarrow> (\<exists>e t. ru_identities d q = Some (i, e, t))"
proof -
  note r = assms [unfolded redis_accounts_ok_def]
  note a = r [THEN conjunct1, unfolded accounts_ok_def redis_accounts_db_simps]
  show "accounts_ok (redis_accounts_db d)" using r by simp
  show "ru_users d i = Some u \<Longrightarrow> ud_ID u = i \<and> ru_emails d (ud_Email u) = Some i" using a by blast
  show "ru_emails d e = Some i \<Longrightarrow> \<exists>u. ru_users d i = Some u \<and> ud_Email u = e" using a by blast
  show "ru_passwords d i = Some p \<Longrightarrow> pd_UserID p = i" using a by blast
  show "ru_handles d h = Some i \<Longrightarrow> \<exists>u. ru_users d i = Some u \<and> ud_WebAuthnHandle u = h" using r by blast
  show "distinct (ru_google d i)" using r by blast
  show "q \<in> set (ru_google d i) \<longleftrightarrow> (\<exists>e t. ru_identities d q = Some (i, e, t))" using r by blast
qed

lemma has_google_redis: "redis_accounts_ok d \<Longrightarrow> has_google (redis_accounts_db d) i = (ru_google d i \<noteq> [])"
proof -
  assume ok: "redis_accounts_ok d"
  have "has_google (redis_accounts_db d) i = (\<exists>p. p \<in> set (ru_google d i))"
    unfolding redis_accounts_okD(7) [OF ok] has_google_def by auto
  then show ?thesis by (cases "ru_google d i") auto
qed

text \<open>A write that leaves the Google sets and the handles alone.\<close>

lemma redis_accounts_okI:
  assumes "redis_accounts_ok d" and "accounts_ok (redis_accounts_db d')"
    and "ru_handles d' = ru_handles d" and "ru_google d' = ru_google d" and "ru_identities d' = ru_identities d"
    and "\<And>i u. ru_users d i = Some u \<Longrightarrow> \<exists>v. ru_users d' i = Some v \<and> ud_WebAuthnHandle v = ud_WebAuthnHandle u"
  shows "redis_accounts_ok d'"
  using assms unfolding redis_accounts_ok_def by metis

section \<open>What the reference operations keep of the invariant\<close>

lemma accounts_ok_set_password: "accounts_ok a \<Longrightarrow> users a i \<noteq> None \<Longrightarrow> accounts_ok (set_password i h t a)"
  unfolding accounts_ok_def set_password_def by simp

lemma accounts_ok_insert_user:
  "accounts_ok a \<Longrightarrow> users a (ud_ID u) = None \<Longrightarrow> emails a (ud_Email u) = None \<Longrightarrow> accounts_ok (insert_user u a)"
  unfolding accounts_ok_def insert_user_def by (auto; metis option.distinct(1))

lemma accounts_ok_one_time:
  "accounts_ok a \<Longrightarrow> one_time_ok r t \<Longrightarrow> accounts_ok (a\<lparr>verifications := r, verification_tokens := t\<rparr>)"
  "accounts_ok a \<Longrightarrow> one_time_ok r t \<Longrightarrow> accounts_ok (a\<lparr>resets := r, reset_tokens := t\<rparr>)"
  unfolding accounts_ok_def by simp_all

lemma accounts_ok_D:
  assumes "accounts_ok a"
  shows "one_time_ok (verifications a) (verification_tokens a)" and "one_time_ok (resets a) (reset_tokens a)"
  using assms unfolding accounts_ok_def by simp_all

lemma one_time_ok_delete:
  "one_time_ok r t \<Longrightarrow> r i = Some x \<Longrightarrow> one_time_ok (r(i := None)) (t(ot_TokenHash x := None))"
  unfolding one_time_ok_def by (auto; metis option.inject)

lemma one_time_ok_issue:
  assumes "one_time_ok recs toks" and "toks (ot_TokenHash r) = None \<or> toks (ot_TokenHash r) = Some (ot_UserID r)"
  shows "one_time_ok (recs(ot_UserID r \<mapsto> r))
    ((case recs (ot_UserID r) of None \<Rightarrow> toks | Some p \<Rightarrow> toks(ot_TokenHash p := None))(ot_TokenHash r \<mapsto> ot_UserID r))"
  using assms unfolding one_time_ok_def by (auto split: option.split; metis option.inject option.distinct(1))

lemma issue_rel_free:
  assumes "one_time_ok recs toks" and "toks (ot_TokenHash r) = None \<or> toks (ot_TokenHash r) = Some (ot_UserID r)"
  shows "issue_rel ow c r (recs, toks) (Inr ()) (recs(ot_UserID r \<mapsto> r),
    (case recs (ot_UserID r) of None \<Rightarrow> toks | Some p \<Rightarrow> toks(ot_TokenHash p := None))(ot_TokenHash r \<mapsto> ot_UserID r))"
proof (cases "toks (ot_TokenHash r)")
  case None
  then show ?thesis by (simp add: issue_rel_def drop_token_def)
next
  case (Some j)
  have j: "j = ot_UserID r" using assms(2) Some by simp
  obtain p where "recs (ot_UserID r) = Some p" "ot_TokenHash p = ot_TokenHash r"
    using assms(1) Some unfolding one_time_ok_def j by blast
  then show ?thesis using Some j by (simp add: issue_rel_def fun_upd_idem)
qed

lemma accounts_ok_verified:
  "accounts_ok a \<Longrightarrow> users a i = Some u \<Longrightarrow> accounts_ok (a\<lparr>users := (users a)(i \<mapsto> u\<lparr>ud_EmailVerified := True\<rparr>)\<rparr>)"
  unfolding accounts_ok_def by (auto; metis option.inject)

lemma accounts_ok_link:
  assumes "accounts_ok a" and "users a i \<noteq> None"
    and "(\<exists>e. googles a p = Some (i, e)) \<or> \<not> has_google a i \<and> googles a p = None"
  shows "accounts_ok (link_google p i e a)"
  using assms unfolding accounts_ok_def link_google_def has_google_def by (auto; metis)

lemma accounts_ok_unlink: "accounts_ok a \<Longrightarrow> accounts_ok (a\<lparr>googles := (googles a)(p := None)\<rparr>)"
  unfolding accounts_ok_def by auto

lemma accounts_ok_challenges:
  "accounts_ok a \<Longrightarrow> accounts_ok (a\<lparr>challenges := (challenges a)(gc_StateHash c \<mapsto> c)\<rparr>)"
  "accounts_ok a \<Longrightarrow> accounts_ok (a\<lparr>challenges := (challenges a)(h := None)\<rparr>)"
  unfolding accounts_ok_def by auto

lemma accounts_ok_no_password: "accounts_ok a \<Longrightarrow> accounts_ok (a\<lparr>passwords := (passwords a)(i := None)\<rparr>)"
  unfolding accounts_ok_def by auto

section \<open>Each operation implements its reference operation\<close>

definition rd_account_view :: "redis_accounts redis \<Rightarrow> account_db" where
  "rd_account_view r = redis_accounts_db (rd_db r)"

definition rd_account_ok :: "redis_accounts redis \<Rightarrow> bool" where
  "rd_account_ok r \<longleftrightarrow> redis_accounts_ok (rd_db r)"

lemma rd_implements:
  assumes "\<And>d. redis_accounts_ok d \<Longrightarrow>
    attempt d op (\<lambda>x d'. redis_accounts_ok d' \<and> spec (redis_accounts_db d) x (redis_accounts_db d'))"
  shows "implements rd_account_view rd_account_ok op spec"
  using attempt_implements [where ok = redis_accounts_ok and vw = redis_accounts_db, OF assms]
  by (simp add: rd_account_view_def [abs_def] rd_account_ok_def [abs_def])

lemma rd_implements_when:
  assumes "\<And>d. redis_accounts_ok d \<Longrightarrow> pre (redis_accounts_db d) \<Longrightarrow>
    attempt d op (\<lambda>x d'. redis_accounts_ok d' \<and> spec (redis_accounts_db d) x (redis_accounts_db d'))"
  shows "implements_when rd_account_view rd_account_ok pre op spec"
  using attempt_implements_when [where ok = redis_accounts_ok and vw = redis_accounts_db, OF assms]
  by (simp add: rd_account_view_def [abs_def] rd_account_ok_def [abs_def])

lemma tx_failed_simps [simp]:
  "EEmailpassword x1 \<noteq> tx_failed" "EVerification x2 \<noteq> tx_failed" "EReset x3 \<noteq> tx_failed" "EGoogle x4 \<noteq> tx_failed"
  by (simp_all add: tx_failed_def)

text \<open>The data after a write of one hash, as the abstract accounts.\<close>

lemma redis_accounts_db_updates:
  "redis_accounts_db (d\<lparr>ru_passwords := p\<rparr>) = (redis_accounts_db d)\<lparr>passwords := p\<rparr>"
  "redis_accounts_db (d\<lparr>ru_users := u\<rparr>) = (redis_accounts_db d)\<lparr>users := u\<rparr>"
  "redis_accounts_db (d\<lparr>ru_emails := e\<rparr>) = (redis_accounts_db d)\<lparr>emails := e\<rparr>"
  "redis_accounts_db (d\<lparr>ru_verifications := v\<rparr>) = (redis_accounts_db d)\<lparr>verifications := v\<rparr>"
  "redis_accounts_db (d\<lparr>ru_verification_tokens := t\<rparr>) = (redis_accounts_db d)\<lparr>verification_tokens := t\<rparr>"
  "redis_accounts_db (d\<lparr>ru_resets := v\<rparr>) = (redis_accounts_db d)\<lparr>resets := v\<rparr>"
  "redis_accounts_db (d\<lparr>ru_reset_tokens := t\<rparr>) = (redis_accounts_db d)\<lparr>reset_tokens := t\<rparr>"
  "redis_accounts_db (d\<lparr>ru_challenges := c\<rparr>) = (redis_accounts_db d)\<lparr>challenges := c\<rparr>"
  "redis_accounts_db (d\<lparr>ru_handles := h\<rparr>) = redis_accounts_db d"
  "redis_accounts_db (d\<lparr>ru_google := g\<rparr>) = redis_accounts_db d"
  by (simp_all add: redis_accounts_db_def)

lemma rd_set_password:
  assumes "redis_accounts_ok d" and "ru_users d i \<noteq> None"
  shows "redis_accounts_ok (d\<lparr>ru_passwords := (ru_passwords d)(i \<mapsto> \<lparr>pd_UserID = i, pd_PasswordHash = h, pd_UpdatedAt = t\<rparr>)\<rparr>)"
    and "redis_accounts_db (d\<lparr>ru_passwords := (ru_passwords d)(i \<mapsto> \<lparr>pd_UserID = i, pd_PasswordHash = h, pd_UpdatedAt = t\<rparr>)\<rparr>) =
      set_password i h t (redis_accounts_db d)"
proof -
  show e: "redis_accounts_db (d\<lparr>ru_passwords := (ru_passwords d)(i \<mapsto> \<lparr>pd_UserID = i, pd_PasswordHash = h, pd_UpdatedAt = t\<rparr>)\<rparr>) =
      set_password i h t (redis_accounts_db d)"
    by (simp add: redis_accounts_db_updates set_password_def)
  show "redis_accounts_ok (d\<lparr>ru_passwords := (ru_passwords d)(i \<mapsto> \<lparr>pd_UserID = i, pd_PasswordHash = h, pd_UpdatedAt = t\<rparr>)\<rparr>)"
    using assms accounts_ok_set_password [OF redis_accounts_okD(1) [OF assms(1)], of i h t]
    by (intro redis_accounts_okI [OF assms(1)]) (simp_all add: e)
qed

lemma rd_FindBySubject_implements:
  "implements rd_account_view rd_account_ok (rd_email_FindBySubject i) (fun_spec (spec_FindBySubject i))"
  unfolding rd_email_FindBySubject_def rd_findBySubject_def
  by (rule rd_implements, rule attempt_read_err, simp)
    (auto split: option.split simp: fun_spec_def spec_FindBySubject_def credential_of_def redis_accounts_okD
      intro!: attempt_read_err)

lemma rd_FindByEmail_implements:
  "implements rd_account_view rd_account_ok (rd_email_FindByEmail e) (fun_spec (spec_FindByEmail e))"
  unfolding rd_email_FindByEmail_def rd_findBySubject_def [abs_def]
  by (rule rd_implements, rule attempt_read_err, simp)
    (auto split: option.split simp: fun_spec_def spec_FindByEmail_def credential_of_def redis_accounts_okD
      intro!: attempt_read_err)

lemma rd_AddPassword_implements:
  "implements rd_account_view rd_account_ok (rd_email_AddPassword i h t) (fun_spec (spec_AddPassword i h t))"
  unfolding rd_email_AddPassword_def
  by (rule rd_implements, rule attempt_watch, rule attempt_read_err, simp)
    (auto split: option.split_asm option.split if_splits simp: fun_spec_def spec_AddPassword_def redis_accounts_okD
      rd_set_password intro!: attempt_read_err attempt_hexists attempt_exec_ret)

lemma rd_ReplacePasswordHash_implements:
  "implements rd_account_view rd_account_ok (rd_email_ReplacePasswordHash i p q t)
     (fun_spec (spec_ReplacePasswordHash i p q t))"
  unfolding rd_email_ReplacePasswordHash_def
proof (rule rd_implements, rule attempt_watch, rule attempt_read_err, goal_cases)
  case (2 d)
  have "r\<lparr>pd_PasswordHash := q, pd_UpdatedAt := t\<rparr> = \<lparr>pd_UserID = i, pd_PasswordHash = q, pd_UpdatedAt = t\<rparr>"
    "ru_users d i \<noteq> None" if "ru_passwords d i = Some r" for r
    using redis_accounts_okD(1,4) [OF 2] that by (auto simp: accounts_ok_def)
  then show ?case
    using 2 by (auto split: option.split simp: fun_spec_def spec_ReplacePasswordHash_def rd_set_password)
qed (auto simp: fun_spec_def spec_ReplacePasswordHash_def split: option.split_asm if_splits)

lemma rd_RemovePassword_implements:
  "implements rd_account_view rd_account_ok (rd_email_RemovePassword i p t) (fun_spec (spec_RemovePassword i p))"
  unfolding rd_email_RemovePassword_def
proof (rule rd_implements, rule attempt_watch, rule attempt_hexists, goal_cases)
  case (1 d)
  have "redis_accounts_ok (d\<lparr>ru_passwords := (ru_passwords d)(i := None)\<rparr>)"
    using accounts_ok_no_password [OF redis_accounts_okD(1) [OF 1], of i]
    by (intro redis_accounts_okI [OF 1]) (simp_all add: redis_accounts_db_updates)
  with 1 show ?case
    by (auto split: option.split simp: fun_spec_def spec_RemovePassword_def redis_accounts_db_updates has_google_redis
        intro!: attempt_read_err attempt_get)
qed (auto simp: fun_spec_def spec_RemovePassword_def split: option.split_asm if_splits)

lemma rd_FindVerified_implements:
  "implements rd_account_view rd_account_ok (rd_ver_FindUserByEmail e) (fun_spec (spec_FindVerified e))"
  unfolding rd_ver_FindUserByEmail_def rd_findUserByEmail_def
  by (rule rd_implements)
    (auto simp: attempt_def on_err_eq bindM_eq readJSON_def redis_get_def redis_cmd_def fun_spec_def
      spec_FindVerified_def redis_accounts_okD split: option.splits)

lemma rd_FindReset_implements:
  "implements rd_account_view rd_account_ok (rd_reset_FindUserByEmail e) (fun_spec (spec_FindReset e))"
  unfolding rd_reset_FindUserByEmail_def rd_findUserByEmail_def
  by (rule rd_implements)
    (auto simp: attempt_def on_err_eq bindM_eq readJSON_def redis_get_def redis_cmd_def fun_spec_def
      spec_FindReset_def redis_accounts_okD split: option.splits)

lemma rd_IssueVerification_implements:
  "implements rd_account_view rd_account_ok (rd_ver_Issue r) (spec_IssueVerification False r)"
  unfolding rd_ver_Issue_def rd_issue_def
proof (rule rd_implements, rule attempt_watch, rule attempt_optional, rule attempt_optional, goal_cases)
  case (1 d)
  note one = accounts_ok_D(1) [OF redis_accounts_okD(1) [OF 1], unfolded redis_accounts_db_simps]
  let ?v = "(ru_verifications d)(ot_UserID r \<mapsto> r)"
  let ?t = "(case ru_verifications d (ot_UserID r) of None \<Rightarrow> ru_verification_tokens d
     | Some p \<Rightarrow> (ru_verification_tokens d)(ot_TokenHash p := None))(ot_TokenHash r \<mapsto> ot_UserID r)"
  let ?d = "d\<lparr>ru_verifications := ?v, ru_verification_tokens := ?t\<rparr>"
  have free: "redis_accounts_ok ?d \<and>
      spec_IssueVerification False r (redis_accounts_db d) (Inr ()) (redis_accounts_db ?d)"
    if "ru_verification_tokens d (ot_TokenHash r) = None \<or> ru_verification_tokens d (ot_TokenHash r) = Some (ot_UserID r)"
  proof
    show "redis_accounts_ok ?d"
      using accounts_ok_one_time(1) [OF redis_accounts_okD(1) [OF 1] one_time_ok_issue [OF one that]]
      by (intro redis_accounts_okI [OF 1]) (simp_all add: redis_accounts_db_updates)
    show "spec_IssueVerification False r (redis_accounts_db d) (Inr ()) (redis_accounts_db ?d)"
      unfolding redis_accounts_db_updates spec_IssueVerification_def
      using issue_rel_free [OF one that] by auto
  qed
  show ?case
  proof (cases "ru_verification_tokens d (ot_TokenHash r)")
    case None
    then show ?thesis using free by auto
  next
    case (Some j)
    then show ?thesis
      using 1 free by (auto simp: spec_IssueVerification_def issue_rel_def)
  qed
qed (auto simp: spec_IssueVerification_def issue_rel_def split: option.split_asm if_splits)

lemma rd_IssueReset_implements:
  "implements rd_account_view rd_account_ok (rd_reset_Issue r) (spec_IssueReset False r)"
  unfolding rd_reset_Issue_def rd_issue_def
proof (rule rd_implements, rule attempt_watch, rule attempt_optional, rule attempt_optional, goal_cases)
  case (1 d)
  note one = accounts_ok_D(2) [OF redis_accounts_okD(1) [OF 1], unfolded redis_accounts_db_simps]
  let ?v = "(ru_resets d)(ot_UserID r \<mapsto> r)"
  let ?t = "(case ru_resets d (ot_UserID r) of None \<Rightarrow> ru_reset_tokens d
     | Some p \<Rightarrow> (ru_reset_tokens d)(ot_TokenHash p := None))(ot_TokenHash r \<mapsto> ot_UserID r)"
  let ?d = "d\<lparr>ru_resets := ?v, ru_reset_tokens := ?t\<rparr>"
  have free: "redis_accounts_ok ?d \<and>
      spec_IssueReset False r (redis_accounts_db d) (Inr ()) (redis_accounts_db ?d)"
    if "ru_reset_tokens d (ot_TokenHash r) = None \<or> ru_reset_tokens d (ot_TokenHash r) = Some (ot_UserID r)"
  proof
    show "redis_accounts_ok ?d"
      using accounts_ok_one_time(2) [OF redis_accounts_okD(1) [OF 1] one_time_ok_issue [OF one that]]
      by (intro redis_accounts_okI [OF 1]) (simp_all add: redis_accounts_db_updates)
    show "spec_IssueReset False r (redis_accounts_db d) (Inr ()) (redis_accounts_db ?d)"
      unfolding redis_accounts_db_updates spec_IssueReset_def
      using issue_rel_free [OF one that] by auto
  qed
  show ?case
  proof (cases "ru_reset_tokens d (ot_TokenHash r)")
    case None
    then show ?thesis using free by auto
  next
    case (Some j)
    then show ?thesis
      using 1 free by (auto simp: spec_IssueReset_def issue_rel_def)
  qed
qed (auto simp: spec_IssueReset_def issue_rel_def split: option.split_asm if_splits)

lemma rd_Verify_implements:
  "implements rd_account_view rd_account_ok (rd_ver_Verify h t) (spec_Verify True h t)"
  unfolding rd_ver_Verify_def
proof (rule rd_implements, rule attempt_watch, rule attempt_read_err, simp, goal_cases)
  case (1 d)
  note one = accounts_ok_D(1) [OF redis_accounts_okD(1) [OF 1], unfolded redis_accounts_db_simps]
  show ?case
  proof (cases "ru_verification_tokens d h")
    case None
    then show ?thesis using 1 by (simp add: spec_Verify_def)
  next
    case (Some i)
    then obtain r where r: "ru_verifications d i = Some r" "ot_TokenHash r = h"
      using one unfolding one_time_ok_def by blast
    have ok: "redis_accounts_ok (d\<lparr>ru_users := (ru_users d)(i \<mapsto> u\<lparr>ud_EmailVerified := True\<rparr>),
        ru_verifications := (ru_verifications d)(i := None),
        ru_verification_tokens := (ru_verification_tokens d)(h := None)\<rparr>)" if "ru_users d i = Some u" for u
      using accounts_ok_one_time(1) [OF accounts_ok_verified [OF redis_accounts_okD(1) [OF 1], of i u]
          one_time_ok_delete [OF one r(1)]] that r(2)
      by (intro redis_accounts_okI [OF 1]) (auto simp: redis_accounts_db_updates)
    show ?thesis
      unfolding Some option.case
      using 1 Some r ok
      by (auto intro!: attempt_lossy attempt_exec_ret simp: spec_Verify_def verify_fun_def redis_accounts_db_updates redis_accounts_okD)
  qed
qed (auto simp: spec_Verify_def verify_fun_def split: option.split_asm if_splits)

lemma rd_ResetPassword_implements:
  "implements rd_account_view rd_account_ok (rd_reset_ResetPassword h p t) (spec_ResetPassword True h p t)"
  unfolding rd_reset_ResetPassword_def
proof (rule rd_implements, rule attempt_watch, rule attempt_read_err, simp, goal_cases)
  case (1 d)
  note one = accounts_ok_D(2) [OF redis_accounts_okD(1) [OF 1], unfolded redis_accounts_db_simps]
  show ?case
  proof (cases "ru_reset_tokens d h")
    case None
    then show ?thesis using 1 by (simp add: spec_ResetPassword_def)
  next
    case (Some i)
    then obtain r where r: "ru_resets d i = Some r" "ot_TokenHash r = h"
      using one unfolding one_time_ok_def by blast
    let ?d = "d\<lparr>ru_passwords := (ru_passwords d)(i \<mapsto> \<lparr>pd_UserID = i, pd_PasswordHash = p, pd_UpdatedAt = t\<rparr>),
        ru_resets := (ru_resets d)(i := None), ru_reset_tokens := (ru_reset_tokens d)(h := None)\<rparr>"
    have db: "redis_accounts_db ?d = (set_password i p t (redis_accounts_db d))
        \<lparr>resets := (ru_resets d)(i := None), reset_tokens := (ru_reset_tokens d)(h := None)\<rparr>"
      by (simp add: redis_accounts_db_updates set_password_def)
    have ok: "redis_accounts_ok ?d" if "ru_users d i = Some u" for u
      using accounts_ok_one_time(2) [OF accounts_ok_set_password [OF redis_accounts_okD(1) [OF 1], of i p t]
          one_time_ok_delete [OF one r(1)]] that r(2)
      by (intro redis_accounts_okI [OF 1]) (simp_all add: db)
    show ?thesis
      unfolding Some option.case
      using 1 Some r ok
      by (auto intro!: attempt_lossy attempt_exec_ret simp: spec_ResetPassword_def reset_fun_def
          redis_accounts_db_updates set_password_def redis_accounts_okD)
  qed
qed (auto simp: spec_ResetPassword_def reset_fun_def split: option.split_asm if_splits)

lemma rd_CreateChallenge_implements:
  "implements rd_account_view rd_account_ok (rd_google_CreateChallenge c) (fun_spec (spec_CreateChallenge c))"
  unfolding rd_google_CreateChallenge_def
proof (rule rd_implements)
  fix d assume d: "redis_accounts_ok d"
  have "redis_accounts_ok (d\<lparr>ru_challenges := (ru_challenges d)(gc_StateHash c \<mapsto> c)\<rparr>)"
    using accounts_ok_challenges(1) [OF redis_accounts_okD(1) [OF d], of c]
    by (intro redis_accounts_okI [OF d]) (simp_all add: redis_accounts_db_updates)
  then show "attempt d (bindM (redis_cmd (\<lambda>d. case ru_challenges d (gc_StateHash c) of
              None \<Rightarrow> (Inr True, d\<lparr>ru_challenges := (ru_challenges d)(gc_StateHash c \<mapsto> c)\<rparr>)
            | Some _ \<Rightarrow> (Inr False, d)))
       (\<lambda>created. retM (if \<not> created then Inl (EGoogle Google_ErrConflict) else Inr ())))
     (\<lambda>x d'. redis_accounts_ok d' \<and> fun_spec (spec_CreateChallenge c) (redis_accounts_db d) x (redis_accounts_db d'))"
    using d by (auto simp: attempt_def redis_cmd_def bindM_eq fun_spec_def spec_CreateChallenge_def
        redis_accounts_db_updates split: option.splits)
qed

lemma rd_ConsumeChallenge_implements:
  "implements rd_account_view rd_account_ok (rd_google_ConsumeChallenge h t) (fun_spec (spec_ConsumeChallenge h t))"
  unfolding rd_google_ConsumeChallenge_def
proof (rule rd_implements, rule attempt_watch, rule attempt_read_err, simp, goal_cases)
  case (1 d)
  have "redis_accounts_ok (d\<lparr>ru_challenges := (ru_challenges d)(h := None)\<rparr>)"
    using accounts_ok_challenges(2) [OF redis_accounts_okD(1) [OF 1], of h]
    by (intro redis_accounts_okI [OF 1]) (simp_all add: redis_accounts_db_updates)
  with 1 show ?case
    by (auto simp: attempt_def redis_exec_def bindM_eq fun_spec_def spec_ConsumeChallenge_def
        redis_accounts_db_updates split: option.splits)
qed (auto simp: fun_spec_def spec_ConsumeChallenge_def split: option.split_asm if_splits)

lemma rd_put_user_simps [simp]:
  "ru_identities (rd_put_user u d) = ru_identities d" "ru_google (rd_put_user u d) = ru_google d"
  "ru_passwords (rd_put_user u d) = ru_passwords d" "ru_users (rd_put_user u d) = (ru_users d)(ud_ID u \<mapsto> u)"
  by (simp_all add: rd_put_user_def)

lemma rd_put_user:
  assumes ok: "redis_accounts_ok d" and new: "ru_users d (ud_ID u) = None" "ru_emails d (ud_Email u) = None"
  shows "redis_accounts_db (rd_put_user u d) = insert_user u (redis_accounts_db d)"
    and "redis_accounts_ok (rd_put_user u d)"
proof -
  show e: "redis_accounts_db (rd_put_user u d) = insert_user u (redis_accounts_db d)"
    by (simp add: rd_put_user_def insert_user_def redis_accounts_db_updates)
  have "accounts_ok (redis_accounts_db (rd_put_user u d))"
    unfolding e using new by (intro accounts_ok_insert_user redis_accounts_okD [OF ok]) simp_all
  moreover have "\<exists>v. ru_users (rd_put_user u d) i = Some v \<and> ud_WebAuthnHandle v = h"
    if "ru_handles (rd_put_user u d) h = Some i" for h i
    using that redis_accounts_okD(5) [OF ok, of h i] new by (auto simp: rd_put_user_def split: if_splits)
  ultimately show "redis_accounts_ok (rd_put_user u d)"
    using redis_accounts_okD(6,7) [OF ok] by (simp add: redis_accounts_ok_def)
qed

lemma bindM_ret: "bindM (retM (Inr v)) k = k v" "bindM (retM (Inl e)) k = retM (Inl e)"
  by (simp_all add: fun_eq_iff bindM_def)

lemma rd_Register_implements:
  "implements_when rd_account_view rd_account_ok (draws_fresh dr) (rd_email_Register dr reg) (fun_spec (spec_Register dr reg))"
proof (rule rd_implements_when)
  fix d assume d: "redis_accounts_ok d" "draws_fresh dr (redis_accounts_db d)"
  show "attempt d (rd_email_Register dr reg) (\<lambda>x d'. redis_accounts_ok d' \<and>
      fun_spec (spec_Register dr reg) (redis_accounts_db d) x (redis_accounts_db d'))"
  proof (cases "new_user (rg_Email reg) False (rg_CreatedAt reg) dr")
    case (Inl e)
    then show ?thesis using d by (auto simp: rd_email_Register_def bindM_ret fun_spec_def spec_Register_def)
  next
    case (Inr u)
    note u = draws_fresh_new_user [OF d(2) Inr]
    have h: "ru_handles d (ud_WebAuthnHandle u) = None"
    proof (rule ccontr)
      assume "ru_handles d (ud_WebAuthnHandle u) \<noteq> None"
      then obtain i v where "ru_users d i = Some v" "ud_WebAuthnHandle v = ud_WebAuthnHandle u"
        using redis_accounts_okD(5) [OF d(1)] by blast
      then show False using d(2) Inr by (auto simp: draws_fresh_def new_user_def split: sum.splits)
    qed
    let ?d = "rd_put_user u d"
    show ?thesis
      unfolding rd_email_Register_def Inr bindM_ret
    proof (rule attempt_watch, rule attempt_hexists, rule attempt_hexists, goal_cases)
      case 1
      show ?case
      proof (cases "ru_emails d (rg_Email reg)")
        case None
        note p = rd_put_user [OF d(1), of u] 
        have "ru_users ?d (ud_ID u) \<noteq> None" "ru_passwords ?d = ru_passwords d" by (simp_all add: rd_put_user_def)
        then show ?thesis
          using None u h p d rd_set_password [of ?d "ud_ID u" "rg_PasswordHash reg" "rg_CreatedAt reg"]
          by (auto intro!: attempt_exec_ret simp: Inr fun_spec_def spec_Register_def)
      next
        case (Some i)
        then show ?thesis using d Inr by (auto simp: fun_spec_def spec_Register_def)
      qed
    qed (auto simp: Inr fun_spec_def spec_Register_def split: if_splits)
  qed
qed

lemma rd_UnlinkIdentity_implements:
  "implements rd_account_view rd_account_ok (rd_google_UnlinkIdentity i t) (fun_spec (spec_UnlinkIdentity i))"
  unfolding rd_google_UnlinkIdentity_def
proof (rule rd_implements, rule attempt_watch, rule attempt_hexists, goal_cases)
  case (1 d)
  show ?case
  proof (cases "ru_google d i = []")
    case True
    then show ?thesis
      using 1 by (auto intro!: attempt_get simp: fun_spec_def spec_UnlinkIdentity_def has_google_redis)
  next
    case False
    then obtain p where p: "p \<in> set (ru_google d i)" by (cases "ru_google d i") auto
    then obtain e s where id: "ru_identities d p = Some (i, e, s)" using redis_accounts_okD(7) [OF 1] by blast
    have only: "q = p" if "ru_identities d q = Some (i, f, u)" for q f u
    proof -
      have "googles (redis_accounts_db d) p = Some (i, e)" "googles (redis_accounts_db d) q = Some (i, f)"
        using id that by simp_all
      then show ?thesis using redis_accounts_okD(1) [OF 1] unfolding accounts_ok_def by blast
    qed
    have "set (ru_google d i) = {p}" using redis_accounts_okD(7) [OF 1] only p by blast
    with redis_accounts_okD(6) [OF 1, of i] have l: "ru_google d i = [p]"
      by (cases "ru_google d i"; cases "tl (ru_google d i)") auto
    let ?d = "d\<lparr>ru_identities := (ru_identities d)(p := None), ru_google := (ru_google d)(i := [])\<rparr>"
    have db: "redis_accounts_db ?d = (redis_accounts_db d)\<lparr>googles := (googles (redis_accounts_db d))(p := None)\<rparr>"
      by (simp add: redis_accounts_db_def fun_eq_iff)
    have "accounts_ok (redis_accounts_db ?d)"
      unfolding db by (intro accounts_ok_unlink redis_accounts_okD [OF 1])
    moreover have "(q \<in> set (ru_google ?d j)) = (\<exists>e t. ru_identities ?d q = Some (j, e, t))" for q j
    proof (cases "j = i")
      case True
      then show ?thesis using only by auto
    next
      case False
      then show ?thesis using id redis_accounts_okD(7) [OF 1, of q j] by auto
    qed
    ultimately have ok: "redis_accounts_ok ?d"
      using redis_accounts_okD(5,6) [OF 1] by (simp add: redis_accounts_ok_def)
    have g: "(googles (redis_accounts_db d))(p := None) = (\<lambda>q. case googles (redis_accounts_db d) q of None \<Rightarrow> None
        | Some (j, e) \<Rightarrow> if j = i then None else Some (j, e))"
    proof
      fix q
      show "((googles (redis_accounts_db d))(p := None)) q = (case googles (redis_accounts_db d) q of None \<Rightarrow> None
        | Some (j, e) \<Rightarrow> if j = i then None else Some (j, e))"
      proof (cases "ru_identities d q")
        case (Some v)
        obtain j f u where v: "v = (j, f, u)" by (cases v)
        show ?thesis
        proof (cases "j = i")
          case True
          then have "q = p" using only Some v by blast
          then show ?thesis using id by simp
        next
          case False
          then have "q \<noteq> p" using Some v id by auto
          then show ?thesis using Some v False by simp
        qed
      qed simp
    qed
    have "spec_UnlinkIdentity i (redis_accounts_db d) =
        (if ru_users d i = None then (Inl (EGoogle Google_ErrNotFound), redis_accounts_db d)
         else if ru_passwords d i = None \<and> ru_passkeys d i = [] then (Inl (EGoogle Google_ErrLastCredential), redis_accounts_db d)
         else (Inr (), redis_accounts_db ?d))"
      unfolding spec_UnlinkIdentity_def g [symmetric] db using 1 False by (simp add: has_google_redis)
    then show ?thesis
      using 1 id l ok
      by (auto intro!: attempt_get attempt_read_err attempt_hexists attempt_exec simp: fun_spec_def)
  qed
qed (auto simp: fun_spec_def spec_UnlinkIdentity_def split: option.split_asm if_splits)

lemma bindM_assoc: "bindM (bindM m f) k = bindM m (\<lambda>x. bindM (f x) k)"
  by (auto simp: fun_eq_iff bindM_def split: prod.split sum.split)

lemma rd_link:
  fixes e :: string and s :: time
  assumes ok: "redis_accounts_ok d" and user: "ru_users d i \<noteq> None"
    and free: "ru_google d i = [] \<and> ru_identities d p = None \<or> (\<exists>f u. ru_identities d p = Some (i, f, u))"
  defines "d' \<equiv> d\<lparr>ru_identities := (ru_identities d)(p \<mapsto> (i, e, s)), ru_google := (ru_google d)(i := sadd p (ru_google d i))\<rparr>"
  shows "redis_accounts_db d' = link_google p i e (redis_accounts_db d)" and "redis_accounts_ok d'"
proof -
  show db: "redis_accounts_db d' = link_google p i e (redis_accounts_db d)"
    by (simp add: d'_def redis_accounts_db_def link_google_def fun_eq_iff)
  have "(\<exists>f. googles (redis_accounts_db d) p = Some (i, f)) \<or>
      \<not> has_google (redis_accounts_db d) i \<and> googles (redis_accounts_db d) p = None"
    using free by (auto simp: has_google_redis [OF ok])
  then have "accounts_ok (redis_accounts_db d')"
    unfolding db using user by (intro accounts_ok_link redis_accounts_okD [OF ok]) simp_all
  moreover have "(q \<in> set (ru_google d' j)) = (\<exists>e t. ru_identities d' q = Some (j, e, t))" for q j
    using redis_accounts_okD(7) [OF ok, of q j] free by (auto simp: d'_def)
  moreover have "distinct (ru_google d' j)" for j
    using redis_accounts_okD(6) [OF ok, of j] redis_accounts_okD(6) [OF ok, of i] by (simp add: d'_def)
  ultimately show "redis_accounts_ok d'"
    using redis_accounts_okD(5) [OF ok] by (simp add: redis_accounts_ok_def) (simp add: d'_def)
qed

lemma rd_relink:
  fixes e :: string
  assumes ok: "redis_accounts_ok d" and id: "ru_identities d p = Some (i, f, s)"
  defines "d' \<equiv> d\<lparr>ru_identities := (ru_identities d)(p \<mapsto> (i, e, s))\<rparr>"
  shows "redis_accounts_db d' = link_google p i e (redis_accounts_db d)" and "redis_accounts_ok d'"
proof -
  have p: "sadd p (ru_google d i) = ru_google d i"
    using id redis_accounts_okD(7) [OF ok, of p i] by (simp add: sadd_def)
  have "googles (redis_accounts_db d) p = Some (i, f)" using id by simp
  then have "ru_users d i \<noteq> None"
    using redis_accounts_okD(1) [OF ok] unfolding accounts_ok_def redis_accounts_db_simps by blast
  then show "redis_accounts_db d' = link_google p i e (redis_accounts_db d)" "redis_accounts_ok d'"
    using rd_link [OF ok, of i p e s] id by (simp_all add: p d'_def)
qed

lemma rd_ResolveIdentity_implements:
  "implements_when rd_account_view rd_account_ok (draws_fresh dr) (rd_google_ResolveIdentity dr r)
     (fun_spec (spec_ResolveIdentity dr r))"
  unfolding rd_google_ResolveIdentity_def
proof (rule rd_implements_when, rule attempt_watch_same, rule attempt_optional, goal_cases)
  case (1 d)
  show ?case
  proof (cases "ru_identities d (ir_ProviderSubject r)")
    case (Some v)
    obtain i f s where v: "v = (i, f, s)" by (cases v)
    show ?thesis
      using 1 Some rd_relink [OF 1(1), of "ir_ProviderSubject r" i f s]
      by (auto simp: v fun_spec_def spec_ResolveIdentity_def intro!: attempt_exec_ret)
  next
    case None
    show ?thesis
    proof (cases "ir_SubjectID r = []")
      case False
      then show ?thesis
        unfolding None option.case
        using 1 None rd_link [OF 1(1), of "ir_SubjectID r" "ir_ProviderSubject r"]
        by (auto simp: bindM_assoc bindM_ret fun_spec_def spec_ResolveIdentity_def has_google_redis Let_def
            intro!: attempt_read_err attempt_get attempt_exec_ret split: option.split)
    next
      case True
      show ?thesis
      proof (cases "new_user (ir_Email r) True (dr_now dr) dr")
        case (Inl e)
        then show ?thesis
          unfolding None option.case
          using 1 None True
          by (auto simp: bindM_assoc bindM_ret fun_spec_def spec_ResolveIdentity_def intro!: attempt_hexists)
      next
        case (Inr u)
        note u = draws_fresh_new_user [OF 1(2) Inr]
        note p = rd_put_user [OF 1(1), of u]
        have "\<not> has_google (redis_accounts_db d) (ud_ID u)"
          using redis_accounts_okD(1) [OF 1(1)] u unfolding accounts_ok_def has_google_def by blast
        then have g: "ru_google d (ud_ID u) = []" by (simp add: has_google_redis [OF 1(1)])
        show ?thesis
          unfolding None option.case
          using 1 None True Inr u p g rd_link [of "rd_put_user u d" "ud_ID u" "ir_ProviderSubject r"]
          by (auto simp: bindM_assoc bindM_ret fun_spec_def spec_ResolveIdentity_def Let_def intro!: attempt_hexists attempt_exec_ret)
      qed
    qed
  qed
qed

lemmas rd_account_stores =
  rd_EmailPasswordStore_def rd_CredentialStore_def rd_VerificationStore_def rd_ResetStore_def rd_GoogleStore_def
  EmailPasswordStore.simps CredentialStore.simps VerificationStore.simps ResetStore.simps GoogleStore.simps

interpretation rd_accounts: account_store rd_EmailPasswordStore rd_CredentialStore rd_VerificationStore rd_ResetStore
  rd_GoogleStore rd_account_view rd_account_ok False True
  by unfold_locales
    (simp_all add: rd_account_stores rd_account_view_def [symmetric] redis_accounts_okD
      rd_Register_implements rd_FindByEmail_implements rd_ReplacePasswordHash_implements rd_FindBySubject_implements
      rd_AddPassword_implements rd_RemovePassword_implements rd_FindVerified_implements rd_IssueVerification_implements
      rd_Verify_implements rd_FindReset_implements rd_IssueReset_implements rd_ResetPassword_implements
      rd_CreateChallenge_implements rd_ConsumeChallenge_implements rd_ResolveIdentity_implements
      rd_UnlinkIdentity_implements, simp add: rd_account_view_def rd_account_ok_def redis_accounts_okD)

end
