(* ===== verification/AccountProperties.thy ===== *)
theory AccountProperties
  imports AccountRuns PostgresAccounts MysqlAccounts MongoAccounts RedisAccounts
begin

text \<open>
  The guarantees of accounts: registration and login, the recovery by mailed tokens, and the Google
  sign-in. They hold over every store that meets the contract \<open>account_store\<close>, which
  \<open>account_adapters_refine\<close> shows of the four that the repository ships; the witnesses run them there.
\<close>

section \<open>Sample services\<close>

definition sample_mail :: mail_library where
  "sample_mail = \<lparr>ml_ToLower = (\<lambda>s. s), ml_ParseAddress = Some\<rparr>"

definition sample_hasher :: "'s Passwords" where
  "sample_hasher = \<lparr>pw_Hash = (\<lambda>p. retM (Inr (CHR ''h'' # p))),
     pw_Verify = (\<lambda>p h. Inr \<lparr>ve_Matches = (h = CHR ''h'' # p), ve_NeedsRehash = False\<rparr>)\<rparr>"

definition sample_sha :: "string \<Rightarrow> hash" where
  "sample_sha bs = (case bs of [] \<Rightarrow> 1 | c # _ \<Rightarrow> of_char c + 2)"

definition sample_url :: url where
  "sample_url = \<lparr>ur_Scheme = ''https'', ur_HasUser = False, ur_Host = ''h'', ur_Path = [], ur_RawQuery = [], ur_Fragment = []\<rparr>"

definition sample_crypto :: crypto where
  "sample_crypto = \<lparr>cy_mail = sample_mail, cy_sha = sample_sha, cy_hmac = (\<lambda>k m. sample_sha m),
     cy_url = \<lparr>ul_Parse = (\<lambda>_. Some sample_url), ul_Query = (\<lambda>_. []), ul_String = ur_RawQuery\<rparr>\<rparr>"

definition sample_account_service ::
  "'s EmailPasswordStore \<Rightarrow> 's CredentialStore \<Rightarrow> 's VerificationStore \<Rightarrow> 's ResetStore \<Rightarrow> 's GoogleStore \<Rightarrow>
     's account_service" where
  "sample_account_service ep cr vs ps gs =
     \<lparr>av_email = \<lparr>em_store = ep, em_credentials = Some cr, em_passwords = sample_hasher,
        em_validatePassword = None, em_attemptGuard = None, em_securityEvents = True,
        em_normalizeEmail = email_Normalize sample_mail, em_dummyHash = ''hx''\<rparr>,
      av_ver = \<lparr>vm_store = vs, vm_sender = (\<lambda>_ _. None), vm_attemptGuard = None, vm_securityEvents = True,
        vm_normalizeEmail = email_Normalize sample_mail, vm_delivery = DeliveryMethodLink, vm_otpSecret = ''s'',
        vm_lifetime = 3600 * second_ns\<rparr>,
      av_reset = \<lparr>pm_store = ps, pm_sender = (\<lambda>_ _. None), pm_passwords = sample_hasher,
        pm_validatePassword = None, pm_attemptGuard = None, pm_securityEvents = False,
        pm_normalizeEmail = email_Normalize sample_mail, pm_lifetime = 3600 * second_ns\<rparr>,
      av_google = \<lparr>gm_store = gs, gm_identities = Some (gs_UnlinkIdentity gs),
        gm_provider = (\<lambda>i. retM (Inr \<lparr>id_ProviderSubject = ''g'', id_Email = ''a'', id_EmailVerified = True,
          id_Nonce = xi_Code i\<rparr>)),
        gm_clientID = ''c'', gm_authorizationURL = sample_url, gm_redirectURL = ''r'',
        gm_lifetime = 600 * second_ns, gm_securityEvents = False\<rparr>\<rparr>"

definition sample_account_world :: "'s \<Rightarrow> 's account_world" where
  "sample_account_world s =
     \<lparr>pos = 0, clock = clock sample_world, rand_byte = rand_byte sample_world,
      rand_err = rand_err sample_world, uuid_v7 = (\<lambda>_. Some ''id0''), aw_store = s, aw_events = [], aw_mail = []\<rparr>"

definition sample_account_conn :: account_conn where
  "sample_account_conn =
     \<lparr>tables = \<lparr>t_users = [], t_passwords = [], t_googles = [], t_verifications = [], t_resets = [],
        t_challenges = [], t_passkeys = []\<rparr>,
      fault = (\<lambda>_. False), stmt_pos = 0, db_clock = (\<lambda>_. 0), found_rows = True\<rparr>"

definition sample_account_redis :: "redis_accounts redis" where
  "sample_account_redis =
     \<lparr>rd_db = \<lparr>ru_users = Map.empty, ru_emails = Map.empty, ru_handles = Map.empty, ru_passwords = Map.empty,
        ru_verifications = Map.empty, ru_verification_tokens = Map.empty, ru_resets = Map.empty,
        ru_reset_tokens = Map.empty, ru_identities = Map.empty, ru_google = (\<lambda>_. []), ru_passkeys = (\<lambda>_. []),
        ru_challenges = Map.empty\<rparr>,
      rd_fault = (\<lambda>_. False), rd_abort = (\<lambda>_. False), rd_clock = (\<lambda>_. 0), rd_pos = 0\<rparr>"

abbreviation pg_account_service :: "account_conn account_service" where
  "pg_account_service \<equiv>
     sample_account_service pg_EmailPasswordStore pg_CredentialStore pg_VerificationStore pg_ResetStore pg_GoogleStore"

abbreviation mg_account_service :: "account_conn account_service" where
  "mg_account_service \<equiv>
     sample_account_service mg_EmailPasswordStore mg_CredentialStore mg_VerificationStore mg_ResetStore mg_GoogleStore"

abbreviation rd_account_service :: "redis_accounts redis account_service" where
  "rd_account_service \<equiv>
     sample_account_service rd_EmailPasswordStore rd_CredentialStore rd_VerificationStore rd_ResetStore rd_GoogleStore"

abbreviation pg_account_start :: "account_conn account_world" where
  "pg_account_start \<equiv> sample_account_world sample_account_conn"

abbreviation rd_account_start :: "redis_accounts redis account_world" where
  "rd_account_start \<equiv> sample_account_world sample_account_redis"

lemma sample_service: "account_service ep cr vs ps gs (sample_account_service ep cr vs ps gs)"
  by (simp add: account_service_def sample_account_service_def email_service_def ver_service_def reset_service_def
      google_service_def only_reads_def sample_hasher_def framed_retM)

lemma sample_services:
  "email_service ep cr (av_email (sample_account_service ep cr vs ps gs))"
  "ver_service vs (av_ver (sample_account_service ep cr vs ps gs))"
  "reset_service ps (av_reset (sample_account_service ep cr vs ps gs))"
  "google_service gs (av_google (sample_account_service ep cr vs ps gs))"
  using sample_service [unfolded account_service_def] by blast+

lemma sample_account_ok:
  "account_ok (aw_store pg_account_start)" "rd_account_ok (aw_store rd_account_start)"
  "account_view (aw_store pg_account_start) = rd_account_view (aw_store rd_account_start)"
  by (auto simp: sample_account_world_def sample_account_conn_def sample_account_redis_def account_ok_def
      account_tables_ok_def rd_account_ok_def redis_accounts_ok_def accounts_ok_def one_time_ok_def account_view_def
      accounts_view_def rd_account_view_def redis_accounts_db_def index_def keyed_def)

lemma sample_account_empty: "users (rd_account_view sample_account_redis) = Map.empty"
  "users (account_view sample_account_conn) = Map.empty"
  by (simp_all add: sample_account_conn_def account_view_def accounts_view_def index_def keyed_def sample_account_redis_def rd_account_view_def redis_accounts_db_def)

lemma fresh_sample:
  assumes "users (view s) = Map.empty" shows "fresh_tape view (sample_account_world s)"
proof -
  have "\<not> blank ''id0''" by code_simp
  then show ?thesis
    using assms
    by (auto simp: fresh_tape_def draws_fresh_def draws_at_def draw_def uuid_NewV7_def rand_read_def now_def
      sample_account_world_def sample_world_def split: option.splits)
qed

section \<open>Properties\<close>

text \<open>C9: All four database adapters implement the contract of accounts: registration, credentials,
  verification and reset tokens, Google challenges and identities act on one abstract state, keep its
  keys and indexes, and either fail with a driver error without effect or return and store what the
  reference operation does. MySQL may overwrite the record of another user whose token hash is equal;
  Redis may report a failing read as a missing token.\<close>

theorem account_adapters_refine:
  "account_store pg_EmailPasswordStore pg_CredentialStore pg_VerificationStore pg_ResetStore pg_GoogleStore
     account_view account_ok False False \<and>
   account_store my_EmailPasswordStore my_CredentialStore my_VerificationStore my_ResetStore my_GoogleStore
     account_view my_account_ok True False \<and>
   account_store mg_EmailPasswordStore mg_CredentialStore mg_VerificationStore mg_ResetStore mg_GoogleStore
     account_view account_ok False False \<and>
   account_store rd_EmailPasswordStore rd_CredentialStore rd_VerificationStore rd_ResetStore rd_GoogleStore
     rd_account_view rd_account_ok False True"
  by (intro conjI pg_accounts.account_store_axioms my_accounts.account_store_axioms
      mg_accounts.account_store_axioms rd_accounts.account_store_axioms)

text \<open>C16: The invariant of accounts holds in every state that any calls of the managers can reach: the
  indexes by email and by token agree with the users and records, and every user keeps a way to sign in,
  so that neither \<^verbatim>\<open>RemovePassword\<close> nor \<^verbatim>\<open>Unlink\<close> takes the last one. No user is removed, no address or
  WebAuthn handle changes, and a verified address stays verified.\<close>

theorem accounts_invariant:
  assumes "account_store ep cr vs ps gs view ok ow lossy" and "account_service ep cr vs ps gs sv"
    and "ok (aw_store w)" and "reachable_users (view (aw_store w))" and "account_run view cy sv w v"
  shows "accounts_ok (view (aw_store v)) \<and> reachable_users (view (aw_store v)) \<and>
    account_evolves (view (aw_store w)) (view (aw_store v))"
proof -
  note r = account_store.account_run_evolves [OF assms(1,2,3,5)]
  show ?thesis
    using account_store.ok_view [OF assms(1) r(1)] account_evolves_reachable [OF r(2) assms(4)] r(2) by simp
qed

theorem accounts_invariant_witness:
  "let v = account_do sample_crypto rd_account_service (CallRegister ''a'' ''p'' ''k'') rd_account_start in
   users (rd_account_view (aw_store v)) ''id0'' \<noteq> None \<and> reachable_users (rd_account_view (aw_store v))"
proof -
  let ?v = "account_do sample_crypto rd_account_service (CallRegister ''a'' ''p'' ''k'') rd_account_start"
  have "users (rd_account_view (aw_store ?v)) ''id0'' \<noteq> None" by code_simp
  moreover have "reachable_users (rd_account_view (aw_store ?v))"
    by (rule accounts_invariant [OF rd_accounts.account_store_axioms sample_service sample_account_ok(2) _
          account_run_one [OF fresh_sample [where view = rd_account_view, OF sample_account_empty(1)]], THEN conjunct2, THEN conjunct1])
      (simp add: reachable_users_def sample_account_world_def sample_account_empty)
  ultimately show ?thesis by simp
qed

text \<open>C18: A mailed token works once. After a token has reset a password, or a token or code has verified an
  address, it fails in every later state, whatever calls are made in between, unless a later message
  carries it again.\<close>

theorem recovery_tokens_single_use:
  assumes "account_store ep cr vs ps gs view ok ow lossy" and "account_service ep cr vs ps gs sv"
    and "ok (aw_store w)"
    and "HashToken (cy_sha cy) raw = Inr h"
    and "hashVerificationInput (cy_sha cy) (cy_hmac cy) (av_ver sv) token code
      (if vm_delivery (av_ver sv) = DeliveryMethodOTP then ver_address (cy_mail cy) (av_ver sv) email else []) = Inr g"
    and "account_run view cy sv w1 v"
    and "\<forall>m\<in>set (drop (length (aw_mail w1)) (aw_mail v)).
      \<not> announces (cy_sha cy) (cy_hmac cy) (av_secret sv) m h \<and> \<not> announces (cy_sha cy) (cy_hmac cy) (av_secret sv) m g"
  shows "(reset_Reset (cy_mail cy) (cy_sha cy) (av_reset sv) raw new k w = (Inr user, w1) \<longrightarrow>
      isl (fst (reset_Reset (cy_mail cy) (cy_sha cy) (av_reset sv) raw new2 k2 v))) \<and>
    (ver_Verify (cy_mail cy) (cy_sha cy) (cy_hmac cy) (av_ver sv) token email code k w = (Inr verified, w1) \<longrightarrow>
      isl (fst (ver_Verify (cy_mail cy) (cy_sha cy) (cy_hmac cy) (av_ver sv) token email code k2 v)))"
  using account_store.Reset_single_use [OF assms(1-4) _ assms(6)]
    account_store.Verify_single_use [OF assms(1-3,5) _ assms(6)] assms(7) by blast

definition sample_token :: string where
  "sample_token = ''BQYHCAkKCwwNDg8QERITFBUWFxgZGhscHR4fICEiIyQ''"

definition sample_requested :: "account_conn account_world" where
  "sample_requested = account_do sample_crypto pg_account_service (CallRequestReset ''a'' ''k'')
     (account_do sample_crypto pg_account_service (CallRegister ''a'' ''p'' ''k'') pg_account_start)"

text \<open>The state after registration and a request is proper.\<close>

lemma sample_registered_ok:
  "account_ok (aw_store (account_do sample_crypto pg_account_service (CallRegister e p k) pg_account_start))"
  by (rule account_store.account_run_evolves(1) [OF pg_accounts.account_store_axioms sample_service sample_account_ok(1)
        account_run_one [OF fresh_sample [where view = account_view, OF sample_account_empty(2)]]])

lemma sample_requested_ok: "account_ok (aw_store sample_requested)"
  using account_store.ResetRequest_ok [OF pg_accounts.account_store_axioms sample_services(3) sample_registered_ok]
  by (simp add: sample_requested_def)

theorem recovery_tokens_single_use_witness:
  "\<exists>user w1. reset_Reset sample_mail sample_sha (av_reset pg_account_service) sample_token ''q'' ''k'' sample_requested =
       (Inr user, w1) \<and>
     isl (fst (reset_Reset sample_mail sample_sha (av_reset pg_account_service) sample_token ''r'' ''k'' w1))"
proof -
  let ?reset = "\<lambda>p. reset_Reset (cy_mail sample_crypto) (cy_sha sample_crypto) (av_reset pg_account_service) sample_token p ''k''"
  have "\<not> isl (fst (?reset ''q'' sample_requested))" by code_simp
  from sample_result [OF this] obtain user w1 where r: "?reset ''q'' sample_requested = (Inr user, w1)" by blast
  have h: "HashToken (cy_sha sample_crypto) sample_token = Inr 7" by code_simp
  have g: "hashVerificationInput (cy_sha sample_crypto) (cy_hmac sample_crypto) (av_ver pg_account_service) sample_token []
      (if vm_delivery (av_ver pg_account_service) = DeliveryMethodOTP
       then ver_address (cy_mail sample_crypto) (av_ver pg_account_service) [] else []) = Inr 7" by code_simp
  from recovery_tokens_single_use [OF pg_accounts.account_store_axioms sample_service sample_requested_ok h g
      account_run_stop [where view = account_view], THEN conjunct1, THEN mp, OF _ r]
  show ?thesis using r by (auto simp: sample_crypto_def)
qed

text \<open>C15: Only the right password opens an account or changes its credentials. A successful login names the
  owner of the normalised address, and the password matches the stored hash; \<^verbatim>\<open>ChangePassword\<close> and
  \<^verbatim>\<open>RemovePassword\<close> change the subject's own credential only, after the current password matched, and
  the last sign-in method cannot be removed.\<close>

theorem password_proves_owner:
  assumes "account_store ep cr vs ps gs view ok ow lossy" and "email_service ep cr mgr" and "ok (aw_store w)"
  shows "(email_Login mail mgr email p k w = (Inr lr, w1) \<longrightarrow>
      (\<exists>e i. normalizeAndValidateEmail mail mgr email = Inr e \<and> emails (view (aw_store w)) e = Some i \<and>
         lr_User lr = \<lparr>eu_ID = i, eu_Email = e\<rparr> \<and> password_matches (em_passwords mgr) (view (aw_store w)) i p)) \<and>
    (email_ChangePassword mgr sub p q k w = (Inr u, w1) \<longrightarrow>
      password_matches (em_passwords mgr) (view (aw_store w)) (TrimSpace sub) p \<and>
      (\<exists>h t. view (aw_store w1) = set_password (TrimSpace sub) h t (view (aw_store w)))) \<and>
    (email_RemovePassword mgr sub p k w = (Inr (), w1) \<longrightarrow>
      password_matches (em_passwords mgr) (view (aw_store w)) (TrimSpace sub) p \<and>
      has_method (view (aw_store w1)) (TrimSpace sub) \<and>
      view (aw_store w1) = (view (aw_store w))\<lparr>passwords := (passwords (view (aw_store w)))(TrimSpace sub := None)\<rparr>)"
proof (intro conjI impI)
  assume "email_Login mail mgr email p k w = (Inr lr, w1)"
  then show "\<exists>e i. normalizeAndValidateEmail mail mgr email = Inr e \<and> emails (view (aw_store w)) e = Some i \<and>
      lr_User lr = \<lparr>eu_ID = i, eu_Email = e\<rparr> \<and> password_matches (em_passwords mgr) (view (aw_store w)) i p"
    by (rule account_store.Login_Inr [OF assms]) (unfold password_matches_def, blast)
next
  assume r: "email_ChangePassword mgr sub p q k w = (Inr u, w1)"
  show "password_matches (em_passwords mgr) (view (aw_store w)) (TrimSpace sub) p"
    and "\<exists>h t. view (aw_store w1) = set_password (TrimSpace sub) h t (view (aw_store w))"
    by (rule account_store.ChangePassword_Inr [OF assms r], auto simp: password_matches_def)+
next
  assume r: "email_RemovePassword mgr sub p k w = (Inr (), w1)"
  show "password_matches (em_passwords mgr) (view (aw_store w)) (TrimSpace sub) p"
    and "view (aw_store w1) = (view (aw_store w))\<lparr>passwords := (passwords (view (aw_store w)))(TrimSpace sub := None)\<rparr>"
    by (rule account_store.RemovePassword_Inr [OF assms r], auto simp: password_matches_def)+
  show "has_method (view (aw_store w1)) (TrimSpace sub)"
    by (rule account_store.RemovePassword_Inr [OF assms r]) (auto simp: has_method_def has_google_def)
qed

theorem password_proves_owner_witness:
  "\<exists>lr w1. email_Login sample_mail (av_email pg_account_service) ''a'' ''p'' ''k''
       (account_do sample_crypto pg_account_service (CallRegister ''a'' ''p'' ''k'') pg_account_start) = (Inr lr, w1) \<and>
     eu_Email (lr_User lr) = ''a''"
proof -
  let ?w = "account_do sample_crypto pg_account_service (CallRegister ''a'' ''p'' ''k'') pg_account_start"
  let ?login = "email_Login sample_mail (av_email pg_account_service) ''a'' ''p'' ''k'' ?w"
  have "\<not> isl (fst ?login)" by code_simp
  from sample_result [OF this] obtain lr w1 where r: "?login = (Inr lr, w1)" by blast
  have "normalizeAndValidateEmail sample_mail (av_email pg_account_service) ''a'' = Inr ''a''" by code_simp
  with password_proves_owner [OF pg_accounts.account_store_axioms sample_services(1) sample_registered_ok,
      THEN conjunct1, THEN mp, OF r] r
  show ?thesis by auto
qed

text \<open>C23: Login does not tell whether an account exists. Without an attempt guard, an unknown or malformed
  address, an account without a password and a wrong password all get \<^verbatim>\<open>ErrInvalidCredentials\<close>; only a
  failing database answers otherwise.\<close>

theorem login_failures_alike:
  assumes "account_store ep cr vs ps gs view ok ow lossy" and "email_service ep cr mgr" and "ok (aw_store w)"
    and "em_attemptGuard mgr = None"
    and "\<forall>e i pd. emails (view (aw_store w)) e = Some i \<and> passwords (view (aw_store w)) i = Some pd \<longrightarrow>
      \<not> blank i \<and> \<not> blank (pd_PasswordHash pd)"
    and "\<forall>e i. normalizeAndValidateEmail mail mgr email = Inr e \<and> emails (view (aw_store w)) e = Some i \<longrightarrow>
      \<not> password_matches (em_passwords mgr) (view (aw_store w)) i p"
  shows "fst (email_Login mail mgr email p k w) = Inl (EEmailpassword Emailpassword_ErrInvalidCredentials) \<or>
    (\<exists>d. is_driver d \<and> fst (email_Login mail mgr email p k w) = Inl (EWrap ''find email identity'' d))"
  using account_store.Login_rejects [OF assms(1-5)] assms(6) unfolding password_matches_def by blast

theorem login_failures_alike_witness:
  "fst (email_Login sample_mail (av_email rd_account_service) ''a'' ''p'' ''k'' rd_account_start) =
     Inl (EEmailpassword Emailpassword_ErrInvalidCredentials) \<or>
   (\<exists>d. is_driver d \<and> fst (email_Login sample_mail (av_email rd_account_service) ''a'' ''p'' ''k'' rd_account_start) =
     Inl (EWrap ''find email identity'' d))"
proof -
  have "emails (rd_account_view (aw_store rd_account_start)) = Map.empty"
    by (simp add: sample_account_world_def sample_account_redis_def rd_account_view_def redis_accounts_db_def)
  then show ?thesis
    by (intro login_failures_alike [OF rd_accounts.account_store_axioms sample_services(1) sample_account_ok(2)])
      (simp_all add: sample_account_service_def)
qed

text \<open>C24: A failed call leaves the accounts as they were: login, changing, adding and removing a password, and
  the use of a verification or reset token, unless it reports that the store returned an invalid
  record.\<close>

theorem failed_account_calls_change_nothing:
  assumes "account_store ep cr vs ps gs view ok ow lossy" and "account_service ep cr vs ps gs sv"
    and "ok (aw_store w)" and "e \<noteq> EEmailpassword Emailpassword_ErrInvalidRecord"
    and "e \<noteq> EVerification Verification_ErrInvalidRecord" and "e \<noteq> EReset Reset_ErrInvalidRecord"
    and "email_Login mail (av_email sv) email p k w = (Inl e, w1) \<or>
      email_ChangePassword (av_email sv) sub p q k w = (Inl e, w1) \<or>
      email_AddPassword (av_email sv) sub p k w = (Inl e, w1) \<or>
      email_RemovePassword (av_email sv) sub p k w = (Inl e, w1) \<or>
      ver_Verify mail sha hmac (av_ver sv) raw email code k w = (Inl e, w1) \<or>
      reset_Reset mail sha (av_reset sv) raw p k w = (Inl e, w1)"
  shows "view (aw_store w1) = view (aw_store w)"
proof -
  from assms(2) have s: "email_service ep cr (av_email sv)" "ver_service vs (av_ver sv)" "reset_service ps (av_reset sv)"
    by (simp_all add: account_service_def)
  note inert = inert_def [THEN iffD1, rule_format]
  note i = account_store.email_Login_inert [OF assms(1) s(1), where ex = "{}", THEN inert]
    account_store.email_ChangePassword_inert [OF assms(1) s(1), where ex = "{}", THEN inert]
    account_store.email_AddPassword_inert [OF assms(1) s(1), THEN inert]
    account_store.email_RemovePassword_inert [OF assms(1) s(1), where ex = "{}", THEN inert]
    account_store.Verify_Inl [OF assms(1) s(2)] account_store.Reset_Inl [OF assms(1) s(3)]
  show ?thesis
    using assms(3-7) by (elim disjE) (blast intro: i)+
qed

theorem failed_account_calls_change_nothing_witness:
  "\<exists>e w1. email_ChangePassword (av_email pg_account_service) ''id0'' ''x'' ''q'' ''k''
       (account_do sample_crypto pg_account_service (CallRegister ''a'' ''p'' ''k'') pg_account_start) = (Inl e, w1) \<and>
     account_view (aw_store w1) = account_view (aw_store
       (account_do sample_crypto pg_account_service (CallRegister ''a'' ''p'' ''k'') pg_account_start))"
proof -
  let ?w = "account_do sample_crypto pg_account_service (CallRegister ''a'' ''p'' ''k'') pg_account_start"
  let ?c = "email_ChangePassword (av_email pg_account_service) ''id0'' ''x'' ''q'' ''k'' ?w"
  have "fst ?c = Inl (EEmailpassword Emailpassword_ErrInvalidCredentials)" by code_simp
  then obtain w1 where r: "?c = (Inl (EEmailpassword Emailpassword_ErrInvalidCredentials), w1)"
    by (metis prod.collapse)
  from failed_account_calls_change_nothing [OF pg_accounts.account_store_axioms sample_service sample_registered_ok
      _ _ _ disjI2 [OF disjI1], OF _ _ _ r]
  show ?thesis using r by auto
qed

text \<open>C22: A registered account can be used: its password logs in, and the login names the user that
  \<^verbatim>\<open>Register\<close> returned.\<close>

theorem registered_account_logs_in:
  assumes "account_store ep cr vs ps gs view ok ow lossy" and "email_service ep cr mgr" and "ok (aw_store w)"
    and "fresh_tape view w" and "em_attemptGuard mgr = None"
    and "verifies_own (em_passwords mgr) (em_passwords mgr) p"
    and "email_Register mail mgr email p k w = (Inr u, w1)" and "aw_store v = aw_store w1"
  shows "fst (email_Login mail mgr email p k' v) = Inr \<lparr>lr_User = u, lr_PasswordRehashed = False\<rparr> \<or>
    (\<exists>d. is_driver d \<and> fst (email_Login mail mgr email p k' v) = Inl (EWrap ''find email identity'' d))"
  by (rule account_store.Register_then_Login [OF assms])

lemma sample_verifies_own: "verifies_own sample_hasher sample_hasher ''p''" "verifies_own sample_hasher sample_hasher ''q''"
proof -
  have "\<not> blank ''hp''" "\<not> blank ''hq''" by code_simp+
  then show "verifies_own sample_hasher sample_hasher ''p''" "verifies_own sample_hasher sample_hasher ''q''"
    by (auto simp: verifies_own_def sample_hasher_def)
qed

theorem registered_account_logs_in_witness:
  "\<exists>u w1. email_Register sample_mail (av_email rd_account_service) ''a'' ''p'' ''k'' rd_account_start = (Inr u, w1) \<and>
     (fst (email_Login sample_mail (av_email rd_account_service) ''a'' ''p'' ''k2'' w1) =
        Inr \<lparr>lr_User = u, lr_PasswordRehashed = False\<rparr> \<or>
      (\<exists>d. is_driver d \<and> fst (email_Login sample_mail (av_email rd_account_service) ''a'' ''p'' ''k2'' w1) =
        Inl (EWrap ''find email identity'' d)))"
proof -
  let ?r = "email_Register sample_mail (av_email rd_account_service) ''a'' ''p'' ''k'' rd_account_start"
  have "\<not> isl (fst ?r)" by code_simp
  from sample_result [OF this] obtain u w1 where r: "?r = (Inr u, w1)" by blast
  have m: "em_attemptGuard (av_email rd_account_service) = None" "em_passwords (av_email rd_account_service) = sample_hasher"
    by (simp_all add: sample_account_service_def)
  from registered_account_logs_in [OF rd_accounts.account_store_axioms sample_services(1) sample_account_ok(2)
      fresh_sample [where view = rd_account_view, OF sample_account_empty(1)] m(1) _ r refl] m(2) sample_verifies_own r
  show ?thesis by fastforce
qed







text \<open>C17: The Google sign-in completes once, for the flow that was started. A successful \<^verbatim>\<open>Complete\<close> consumed an
  unexpired challenge of exactly this state, the provider answered with the nonce of that challenge and a
  verified address, and the identity is then linked to the returned user: the user who started the
  linking flow, if there is one, and otherwise never an existing account with the same address. A second
  completion with the same state fails.\<close>

theorem google_sign_in_sound:
  assumes "account_store ep cr vs ps gs view ok ow lossy" and "google_service gs mgr" and "ok (aw_store w)"
    and "fresh_tape view w" and "google_Complete mail sha mgr st c w = (Inr user, w1)" and "aw_store v = aw_store w1"
  shows "(\<exists>ch identity e p. challenges (view (aw_store w)) (sha (TrimSpace st)) = Some ch \<and>
      clock w (pos w) < gc_ExpiresAt ch \<and> id_Nonce identity = gc_Nonce ch \<and> id_EmailVerified identity \<and>
      (\<exists>u u'. tape u = tape w \<and> gm_provider mgr \<lparr>xi_Code = TrimSpace c, xi_CodeVerifier = gc_CodeVerifier ch,
         xi_RedirectURL = gm_redirectURL mgr, xi_Audience = gm_clientID mgr\<rparr> u = (Inr identity, u')) \<and>
      p = TrimSpace (id_ProviderSubject identity) \<and> email_Normalize mail (id_Email identity) = Inr e \<and>
      googles (view (aw_store w1)) p = Some (user, e) \<and> passwords (view (aw_store w1)) = passwords (view (aw_store w)) \<and>
      (if gc_SubjectID ch \<noteq> [] then user = gc_SubjectID ch
       else googles (view (aw_store w)) p = None \<longrightarrow> emails (view (aw_store w)) e = None)) \<and>
    (fst (google_Complete mail sha mgr st c' v) = Inl (EGoogle Google_ErrInvalidState) \<or>
     (\<exists>d. is_driver d \<and> fst (google_Complete mail sha mgr st c' v) = Inl (EWrap ''consume OAuth challenge'' d)))"
  (is "?sound \<and> ?once")
proof
  show ?once by (rule account_store.Complete_single_use [OF assms])
  show ?sound
  proof (rule account_store.Complete_Inr [OF assms(1-5)])
    fix ch identity e dr u u'
    assume a: "challenges (view (aw_store w)) (sha (TrimSpace st)) = Some ch"
      "google_validChallenge ch (sha (TrimSpace st)) (clock w (pos w))" "tape u = tape w"
      "gm_provider mgr \<lparr>xi_Code = TrimSpace c, xi_CodeVerifier = gc_CodeVerifier ch,
         xi_RedirectURL = gm_redirectURL mgr, xi_Audience = gm_clientID mgr\<rparr> u = (Inr identity, u')"
      "id_Nonce identity = gc_Nonce ch" "id_EmailVerified identity" "email_Normalize mail (id_Email identity) = Inr e"
      and r: "spec_ResolveIdentity dr \<lparr>ir_ProviderSubject = TrimSpace (id_ProviderSubject identity), ir_Email = e,
       ir_SubjectID = gc_SubjectID ch\<rparr>
       ((view (aw_store w))\<lparr>challenges := (challenges (view (aw_store w)))(sha (TrimSpace st) := None)\<rparr>)
       = (Inr user, view (aw_store w1))"
    show ?thesis
      using spec_Resolve_Inr [OF r] a
      by (intro exI [of _ ch] exI [of _ identity] exI [of _ e] exI conjI) (auto simp: google_validChallenge_def)
  qed
qed

definition sample_state :: string where
  "sample_state = ''AAECAwQFBgcICQoLDA0ODxAREhMUFRYXGBkaGxwdHh8''"

definition sample_challenged :: "redis_accounts redis" where
  "sample_challenged = sample_account_redis\<lparr>rd_db := (rd_db sample_account_redis)
     \<lparr>ru_challenges := [sample_sha sample_state \<mapsto> \<lparr>gc_StateHash = sample_sha sample_state, gc_Nonce = ''n'',
        gc_CodeVerifier = ''v'', gc_SubjectID = [], gc_CreatedAt = 1, gc_ExpiresAt = 4606 * second_ns\<rparr>]\<rparr>\<rparr>"

theorem google_sign_in_sound_witness:
  "\<exists>user w1. google_Complete sample_mail sample_sha (av_google rd_account_service) sample_state ''n''
       (sample_account_world sample_challenged) = (Inr user, w1) \<and>
     (fst (google_Complete sample_mail sample_sha (av_google rd_account_service) sample_state ''n'' w1) =
        Inl (EGoogle Google_ErrInvalidState) \<or>
      (\<exists>d. is_driver d \<and> fst (google_Complete sample_mail sample_sha (av_google rd_account_service) sample_state ''n'' w1) =
        Inl (EWrap ''consume OAuth challenge'' d)))"
proof -
  let ?c = "google_Complete sample_mail sample_sha (av_google rd_account_service) sample_state ''n''
       (sample_account_world sample_challenged)"
  have "\<not> isl (fst ?c)" by code_simp
  from sample_result [OF this] obtain user w1 where r: "?c = (Inr user, w1)" by blast
  have o: "rd_account_ok (aw_store (sample_account_world sample_challenged))"
    using sample_account_ok(2)
    by (auto simp: sample_account_world_def sample_challenged_def sample_account_redis_def rd_account_ok_def
        redis_accounts_ok_def accounts_ok_def redis_accounts_db_def)
  have e: "users (rd_account_view sample_challenged) = Map.empty"
    by (simp add: sample_challenged_def sample_account_redis_def rd_account_view_def redis_accounts_db_def)
  from google_sign_in_sound [OF rd_accounts.account_store_axioms sample_services(4) o
      fresh_sample [where view = rd_account_view, OF e] r refl, THEN conjunct2] r
  show ?thesis by blast
qed


end
