(* ===== verification/TotpStore.thy ===== *)
theory TotpStore
  imports Database
begin

text \<open>
  The durable state of the second factor, the interface \<^verbatim>\<open>totp.Store\<close> (src/totp/totp.go), and its contract, the
  locale \<open>totp_store\<close>. The state holds the secrets as the secret codec of the application encrypted them:
  \<open>encrypt\<close> and \<open>decrypt\<close> are arguments of the contract, their results may depend on the number of the call.
  A counter is a \<^verbatim>\<open>uint64\<close>; three adapters store it as a signed 64-bit number, so the contract is stated for
  counters below 2^63. A challenge that was consumed may keep its row: then its hash conflicts (the
  reference operation may report a conflict at any time). Redis reports a failing read of the challenge as
  an inactive challenge (\<open>lossy\<close>).
\<close>

type_synonym counter = "64 word"

record Enrollment =
  en_SubjectID :: string
  en_Secret :: string
  en_CreatedAt :: time
  en_ExpiresAt :: time

record Credential =
  cd_SubjectID :: string
  cd_Secret :: string
  cd_EnabledAt :: time
  cd_LastUsedCounter :: counter
  cd_HasLastUsedCounter :: bool

record storedTOTPCredential = Credential +
  cd_DisabledAt :: "time option"

record TotpChallenge =
  tc_SubjectID :: string
  tc_TokenHash :: hash
  tc_CreatedAt :: time
  tc_ExpiresAt :: time

record 's TotpStore =
  ts_IsEnabled :: "string \<Rightarrow> 's \<Rightarrow> (err + bool) \<times> 's"
  ts_BeginEnrollment :: "Enrollment \<Rightarrow> 's \<Rightarrow> (err + unit) \<times> 's"
  ts_FindEnrollment :: "string \<Rightarrow> 's \<Rightarrow> (err + Enrollment) \<times> 's"
  ts_Enable :: "string \<Rightarrow> counter \<Rightarrow> hash list \<Rightarrow> time \<Rightarrow> 's \<Rightarrow> (err + unit) \<times> 's"
  ts_Disable :: "string \<Rightarrow> time \<Rightarrow> 's \<Rightarrow> (err + unit) \<times> 's"
  ts_CreateChallenge :: "TotpChallenge \<Rightarrow> 's \<Rightarrow> (err + unit) \<times> 's"
  ts_FindChallenge :: "hash \<Rightarrow> 's \<Rightarrow> (err + TotpChallenge \<times> Credential) \<times> 's"
  ts_CompleteCode :: "hash \<Rightarrow> counter \<Rightarrow> time \<Rightarrow> 's \<Rightarrow> (err + string) \<times> 's"
  ts_CompleteRecovery :: "hash \<Rightarrow> hash \<Rightarrow> time \<Rightarrow> 's \<Rightarrow> (err + string) \<times> 's"

text \<open>The application's secret codec; an adapter without one refuses.\<close>

record secret_codec =
  sc_Encrypt :: "nat \<Rightarrow> string \<Rightarrow> err + string"
  sc_Decrypt :: "nat \<Rightarrow> string \<Rightarrow> err + string"

definition codec_encrypt :: "string \<Rightarrow> secret_codec option \<Rightarrow> nat \<Rightarrow> string \<Rightarrow> err + string" where
  "codec_encrypt adapter codec n secret =
     (case codec of None \<Rightarrow> Inl (EWrap ''secret codec is required for TOTP'' (EAdapter adapter))
      | Some c \<Rightarrow> sc_Encrypt c n secret)"

definition codec_decrypt :: "string \<Rightarrow> secret_codec option \<Rightarrow> nat \<Rightarrow> string \<Rightarrow> err + string" where
  "codec_decrypt adapter codec n encrypted =
     (case codec of None \<Rightarrow> Inl (EWrap ''secret codec is required for TOTP'' (EAdapter adapter))
      | Some c \<Rightarrow> sc_Decrypt c n encrypted)"

text \<open>The codec of an adapter that names itself in the refusal.\<close>

definition named_codec :: "string \<Rightarrow> secret_codec option \<Rightarrow> secret_codec option" where
  "named_codec adapter codec =
     Some \<lparr>sc_Encrypt = codec_encrypt adapter codec, sc_Decrypt = codec_decrypt adapter codec\<rparr>"

lemma named_codec_simps [simp]:
  "codec_encrypt a (named_codec b codec) = codec_encrypt b codec"
  "codec_decrypt a (named_codec b codec) = codec_decrypt b codec"
  by (simp_all add: named_codec_def codec_encrypt_def [of a] codec_decrypt_def [of a] fun_eq_iff)

section \<open>The abstract state\<close>

record totp_db =
  enrollments :: "string \<rightharpoonup> Enrollment"
  totp_credentials :: "string \<rightharpoonup> storedTOTPCredential"
  totp_challenges :: "hash \<rightharpoonup> TotpChallenge"
  unused_codes :: "(string \<times> hash) set"

definition counter_ok :: "counter \<Rightarrow> bool" where
  "counter_ok c \<longleftrightarrow> uint c < 2 ^ 63"

definition totp_ok :: "totp_db \<Rightarrow> bool" where
  "totp_ok a \<longleftrightarrow>
     (\<forall>i e. enrollments a i = Some e \<longrightarrow> en_SubjectID e = i) \<and>
     (\<forall>i c. totp_credentials a i = Some c \<longrightarrow> cd_SubjectID c = i) \<and>
     (\<forall>h c. totp_challenges a h = Some c \<longrightarrow> tc_TokenHash c = h)"

section \<open>The reference operations\<close>

definition spec_IsEnabled :: "string \<Rightarrow> totp_db \<Rightarrow> (err + bool) \<times> totp_db" where
  "spec_IsEnabled i a =
     (Inr (case totp_credentials a i of None \<Rightarrow> False | Some c \<Rightarrow> cd_DisabledAt c = None), a)"

definition spec_BeginEnrollment ::
  "(nat \<Rightarrow> string \<Rightarrow> err + string) \<Rightarrow> Enrollment \<Rightarrow> totp_db \<Rightarrow> (err + unit) \<Rightarrow> totp_db \<Rightarrow> bool" where
  "spec_BeginEnrollment encrypt e a x b \<longleftrightarrow>
     (\<exists>n. case encrypt n (en_Secret e) of
        Inl err \<Rightarrow> x = Inl err \<and> b = a
      | Inr s \<Rightarrow> x = Inr () \<and> b = a\<lparr>enrollments := (enrollments a)(en_SubjectID e \<mapsto> e\<lparr>en_Secret := s\<rparr>)\<rparr>)"

definition spec_FindEnrollment ::
  "(nat \<Rightarrow> string \<Rightarrow> err + string) \<Rightarrow> string \<Rightarrow> totp_db \<Rightarrow> (err + Enrollment) \<Rightarrow> totp_db \<Rightarrow> bool" where
  "spec_FindEnrollment decrypt i a x b \<longleftrightarrow> b = a \<and>
     (case enrollments a i of None \<Rightarrow> x = Inl (ETotp Totp_ErrNotFound)
      | Some e \<Rightarrow> \<exists>n. x = (case decrypt n (en_Secret e) of Inl err \<Rightarrow> Inl err | Inr s \<Rightarrow> Inr (e\<lparr>en_Secret := s\<rparr>)))"

definition spec_Enable :: "string \<Rightarrow> counter \<Rightarrow> hash list \<Rightarrow> time \<Rightarrow> totp_db \<Rightarrow> (err + unit) \<times> totp_db" where
  "spec_Enable i c codes t a =
     (case enrollments a i of None \<Rightarrow> (Inl (ETotp Totp_ErrNotFound), a)
      | Some e \<Rightarrow>
          if \<not> t < en_ExpiresAt e then (Inl (ETotp Totp_ErrInactiveEnrollment), a)
          else (Inr (), a\<lparr>enrollments := (enrollments a)(i := None),
                  totp_credentials := (totp_credentials a)(i \<mapsto>
                    \<lparr>cd_SubjectID = i, cd_Secret = en_Secret e, cd_EnabledAt = t, cd_LastUsedCounter = c,
                     cd_HasLastUsedCounter = True, cd_DisabledAt = None\<rparr>),
                  unused_codes := {p \<in> unused_codes a. fst p \<noteq> i} \<union> Pair i ` set codes\<rparr>))"

definition spec_Disable :: "string \<Rightarrow> time \<Rightarrow> totp_db \<Rightarrow> (err + unit) \<times> totp_db" where
  "spec_Disable i t a =
     (case totp_credentials a i of None \<Rightarrow> (Inl (ETotp Totp_ErrNotFound), a)
      | Some c \<Rightarrow>
          (Inr (), a\<lparr>totp_credentials := (totp_credentials a)(i \<mapsto>
                       c\<lparr>cd_DisabledAt := Some (case cd_DisabledAt c of None \<Rightarrow> t | Some d \<Rightarrow> d)\<rparr>),
                     unused_codes := {p \<in> unused_codes a. fst p \<noteq> i}\<rparr>))"

definition spec_CreateTotpChallenge :: "TotpChallenge \<Rightarrow> totp_db \<Rightarrow> (err + unit) \<Rightarrow> totp_db \<Rightarrow> bool" where
  "spec_CreateTotpChallenge c a x b \<longleftrightarrow>
     x = Inl (ETotp Totp_ErrConflict) \<and> b = a \<or>
     totp_challenges a (tc_TokenHash c) = None \<and> x = Inr () \<and>
       b = a\<lparr>totp_challenges := (totp_challenges a)(tc_TokenHash c \<mapsto> c)\<rparr>"

definition spec_FindChallenge ::
  "(nat \<Rightarrow> string \<Rightarrow> err + string) \<Rightarrow> hash \<Rightarrow> totp_db \<Rightarrow> (err + TotpChallenge \<times> Credential) \<Rightarrow> totp_db \<Rightarrow> bool" where
  "spec_FindChallenge decrypt h a x b \<longleftrightarrow> b = a \<and>
     (case totp_challenges a h of None \<Rightarrow> x = Inl (ETotp Totp_ErrNotFound)
      | Some ch \<Rightarrow>
     (case totp_credentials a (tc_SubjectID ch) of None \<Rightarrow> x = Inl (ETotp Totp_ErrNotFound)
      | Some c \<Rightarrow>
          if cd_DisabledAt c \<noteq> None then x = Inl (ETotp Totp_ErrNotFound)
          else \<exists>n. x = (case decrypt n (cd_Secret c) of Inl err \<Rightarrow> Inl err
                     | Inr s \<Rightarrow> Inr (ch, (Credential.truncate c)\<lparr>cd_Secret := s\<rparr>))))"

definition code_fun :: "hash \<Rightarrow> counter \<Rightarrow> time \<Rightarrow> totp_db \<Rightarrow> (err + string) \<times> totp_db" where
  "code_fun h c t a =
     (case totp_challenges a h of None \<Rightarrow> (Inl (ETotp Totp_ErrInactiveChallenge), a)
      | Some ch \<Rightarrow>
          if \<not> t < tc_ExpiresAt ch then (Inl (ETotp Totp_ErrInactiveChallenge), a)
          else
     (case totp_credentials a (tc_SubjectID ch) of None \<Rightarrow> (Inl (ETotp Totp_ErrInvalidCode), a)
      | Some cr \<Rightarrow>
          if cd_DisabledAt cr \<noteq> None \<or> cd_HasLastUsedCounter cr \<and> c \<le> cd_LastUsedCounter cr
          then (Inl (ETotp Totp_ErrInvalidCode), a)
          else (Inr (tc_SubjectID ch),
                a\<lparr>totp_challenges := (totp_challenges a)(h := None),
                  totp_credentials := (totp_credentials a)(tc_SubjectID ch \<mapsto>
                    cr\<lparr>cd_LastUsedCounter := c, cd_HasLastUsedCounter := True\<rparr>)\<rparr>)))"

definition recovery_fun :: "hash \<Rightarrow> hash \<Rightarrow> time \<Rightarrow> totp_db \<Rightarrow> (err + string) \<times> totp_db" where
  "recovery_fun h code t a =
     (case totp_challenges a h of None \<Rightarrow> (Inl (ETotp Totp_ErrInactiveChallenge), a)
      | Some ch \<Rightarrow>
          if \<not> t < tc_ExpiresAt ch then (Inl (ETotp Totp_ErrInactiveChallenge), a)
          else if (tc_SubjectID ch, code) \<notin> unused_codes a then (Inl (ETotp Totp_ErrInvalidCode), a)
          else (Inr (tc_SubjectID ch),
                a\<lparr>totp_challenges := (totp_challenges a)(h := None),
                  unused_codes := unused_codes a - {(tc_SubjectID ch, code)}\<rparr>))"

text \<open>The same where a failing read may be reported as an inactive challenge.\<close>

definition lossy_spec ::
  "bool \<Rightarrow> (totp_db \<Rightarrow> (err + string) \<times> totp_db) \<Rightarrow> totp_db \<Rightarrow> (err + string) \<Rightarrow> totp_db \<Rightarrow> bool" where
  "lossy_spec lossy f a x b \<longleftrightarrow> f a = (x, b) \<or> lossy \<and> x = Inl (ETotp Totp_ErrInactiveChallenge) \<and> b = a"

section \<open>The contract\<close>

locale totp_store =
  fixes ts :: "'s TotpStore" and encrypt decrypt :: "nat \<Rightarrow> string \<Rightarrow> err + string"
    and view :: "'s \<Rightarrow> totp_db" and ok :: "'s \<Rightarrow> bool" and lossy :: bool
  assumes ok_view: "ok s \<Longrightarrow> totp_ok (view s)"
    and IsEnabled: "implements view ok (ts_IsEnabled ts i) (fun_spec (spec_IsEnabled i))"
    and BeginEnrollment: "implements view ok (ts_BeginEnrollment ts e) (spec_BeginEnrollment encrypt e)"
    and FindEnrollment: "implements view ok (ts_FindEnrollment ts i) (spec_FindEnrollment decrypt i)"
    and Enable: "counter_ok c \<Longrightarrow> implements view ok (ts_Enable ts i c codes t) (fun_spec (spec_Enable i c codes t))"
    and Disable: "implements view ok (ts_Disable ts i t) (fun_spec (spec_Disable i t))"
    and CreateChallenge: "implements view ok (ts_CreateChallenge ts ch) (spec_CreateTotpChallenge ch)"
    and FindChallenge: "implements view ok (ts_FindChallenge ts h) (spec_FindChallenge decrypt h)"
    and CompleteCode: "counter_ok c \<Longrightarrow> implements view ok (ts_CompleteCode ts h c t) (lossy_spec lossy (code_fun h c t))"
    and CompleteRecovery: "implements view ok (ts_CompleteRecovery ts h code t) (lossy_spec lossy (recovery_fun h code t))"

section \<open>Lemmas\<close>

text \<open>A reading of the codec.\<close>

lemma spec_FindEnrollmentI:
  assumes "enrollments a i = Some e"
    and "x = (case decrypt n (en_Secret e) of Inl err \<Rightarrow> Inl err | Inr s \<Rightarrow> Inr (e\<lparr>en_Secret := s\<rparr>))"
  shows "spec_FindEnrollment decrypt i a x a"
  using assms by (auto simp: spec_FindEnrollment_def)

lemma spec_FindChallengeI:
  assumes "totp_challenges a h = Some ch" and "totp_credentials a (tc_SubjectID ch) = Some c" and "cd_DisabledAt c = None"
    and "x = (case decrypt n (cd_Secret c) of Inl err \<Rightarrow> Inl err
      | Inr s \<Rightarrow> Inr (ch, (Credential.truncate c)\<lparr>cd_Secret := s\<rparr>))"
  shows "spec_FindChallenge decrypt h a x a"
  using assms by (auto simp: spec_FindChallenge_def)

text \<open>The signed comparison of the databases agrees with the unsigned one of Go.\<close>

lemma counter_ok_less:
  assumes "counter_ok c" and "counter_ok d"
  shows "(sint c < sint d) = (c < d)"
proof -
  have "sint x = uint x" if "counter_ok x" for x
    using that signed_take_bit_int_eq_self [of 63 "uint x"] order_trans [OF _ uint_ge_0, of "- (2 ^ 63)" x]
    by (simp add: counter_ok_def sint_uint)
  with assms show ?thesis by (simp add: word_less_def)
qed

lemma totp_okD:
  assumes "totp_ok a"
  shows "enrollments a i = Some e \<Longrightarrow> en_SubjectID e = i"
    and "totp_credentials a i = Some c \<Longrightarrow> cd_SubjectID c = i"
    and "totp_challenges a h = Some ch \<Longrightarrow> tc_TokenHash ch = h"
  using assms by (auto simp: totp_ok_def)

end
