(* ===== verification/Totp.thy ===== *)
theory Totp
  imports AccountWorld TotpStore "HOL-Library.Signed_Division"
begin

text \<open>
  The package \<^verbatim>\<open>totp\<close> (src/totp/totp.go): enrollment, challenges and recovery codes of an authenticator
  application. The one-time-password library \<^verbatim>\<open>github.com/pquerna/otp\<close> is the argument \<open>lib\<close>: it generates a
  key (reading random bytes: its answer may depend on the number of the reading) and validates a code for a
  counter. \<open>totp_ConfirmEnrollment\<close> returns an option: generating recovery codes repeats a reading while its
  hash has been seen, which need not end.
\<close>

record totp_library =
  tl_Generate :: "string \<Rightarrow> string \<Rightarrow> nat \<Rightarrow> err + string \<times> string" \<comment> \<open>issuer, account name; secret and URL\<close>
  tl_ValidateCustom :: "string \<Rightarrow> counter \<Rightarrow> string \<Rightarrow> err + bool" \<comment> \<open>six digits, SHA-1\<close>

definition challengeAttempts :: nat where
  "challengeAttempts = 3"

definition periodSeconds :: int where
  "periodSeconds = 30"

definition recoveryCodeBytes :: nat where
  "recoveryCodeBytes = 16"

record 's TotpConfig =
  oc_Issuer :: string
  oc_EnrollmentLifetime :: duration
  oc_ChallengeLifetime :: duration
  oc_RecoveryCodeCount :: int
  oc_AttemptGuard :: "AttemptGuard option"
  oc_SecurityEvents :: bool

record 's TotpManager =
  tm_store :: "'s TotpStore"
  tm_issuer :: string
  tm_enrollmentLifetime :: duration
  tm_challengeLifetime :: duration
  tm_recoveryCodeCount :: int
  tm_attemptGuard :: "AttemptGuard option"
  tm_securityEvents :: bool

record EnrollmentStarted =
  es_Secret :: string
  es_URI :: string
  es_ExpiresAt :: time

record ChallengeStarted =
  cs_Token :: string
  cs_ExpiresAt :: time

record VerifyInput =
  vi_ChallengeToken :: string
  vi_Code :: string
  vi_SourceKey :: string

record Authentication =
  au_SubjectID :: string
  au_UsedRecoveryCode :: bool

definition totp_config_error :: "string \<Rightarrow> err" where
  "totp_config_error text = EWrap text (ETotp Totp_ErrInvalidConfig)"

definition totp_NewManager :: "'s TotpStore option \<Rightarrow> 's TotpConfig \<Rightarrow> err + 's TotpManager" where
  "totp_NewManager store config =
     (case store of None \<Rightarrow> Inl (totp_config_error ''store is required'')
      | Some st \<Rightarrow>
          let issuer = TrimSpace (oc_Issuer config) in
          if issuer = [] then Inl (totp_config_error ''issuer is required'')
          else if oc_EnrollmentLifetime config \<le> 0 \<or> oc_ChallengeLifetime config \<le> 0
          then Inl (totp_config_error ''lifetimes must be positive'')
          else if oc_RecoveryCodeCount config \<le> 0
          then Inl (totp_config_error ''recovery code count must be positive'')
          else Inr \<lparr>tm_store = st, tm_issuer = issuer, tm_enrollmentLifetime = oc_EnrollmentLifetime config,
                 tm_challengeLifetime = oc_ChallengeLifetime config,
                 tm_recoveryCodeCount = oc_RecoveryCodeCount config, tm_attemptGuard = oc_AttemptGuard config,
                 tm_securityEvents = oc_SecurityEvents config\<rparr>)"

section \<open>Records and codes\<close>

definition totp_validEnrollment :: "Enrollment \<Rightarrow> string \<Rightarrow> bool" where
  "totp_validEnrollment enrollment subjectID \<longleftrightarrow>
     en_SubjectID enrollment = subjectID \<and> \<not> blank (en_Secret enrollment) \<and> en_CreatedAt enrollment \<noteq> 0 \<and>
     en_ExpiresAt enrollment > en_CreatedAt enrollment"

definition totp_validChallenge :: "TotpChallenge \<Rightarrow> hash \<Rightarrow> bool" where
  "totp_validChallenge challenge expectedHash \<longleftrightarrow>
     \<not> blank (tc_SubjectID challenge) \<and> tc_TokenHash challenge = expectedHash \<and>
     tc_CreatedAt challenge \<noteq> 0 \<and> tc_ExpiresAt challenge > tc_CreatedAt challenge"

definition totp_validCredential :: "Credential \<Rightarrow> string \<Rightarrow> bool" where
  "totp_validCredential credential subjectID \<longleftrightarrow>
     cd_SubjectID credential = subjectID \<and> \<not> blank (cd_Secret credential) \<and> cd_EnabledAt credential \<noteq> 0"

text \<open>\<^verbatim>\<open>Time.Unix()\<close>, in 64-bit arithmetic: the zero time is 62135596800 seconds before 1970.\<close>

definition time_Unix :: "time \<Rightarrow> int" where
  "time_Unix t = sint (word_of_int (t div second_ns - 62135596800) :: 64 word)"

fun match_counters :: "totp_library \<Rightarrow> string \<Rightarrow> string \<Rightarrow> counter list \<Rightarrow> err + counter \<times> bool" where
  "match_counters lib secret code [] = Inr (0, False)"
| "match_counters lib secret code (counter # counters) =
     (case tl_ValidateCustom lib code counter secret of
        Inl e \<Rightarrow> Inl e
      | Inr matched \<Rightarrow> if matched then Inr (counter, True) else match_counters lib secret code counters)"

text \<open>A string of six bytes with a character outside ASCII has a byte that is no digit.\<close>

definition matchCounter :: "totp_library \<Rightarrow> string \<Rightarrow> string \<Rightarrow> time \<Rightarrow> err + counter \<times> bool" where
  "matchCounter lib secret code at =
     (if length code \<noteq> 6 then Inr (0, False)
      else if list_ex (\<lambda>c. (of_char c :: nat) < of_char (CHR ''0'') \<or> of_char c > (of_char (CHR ''9'') :: nat)) code
      then Inr (0, False)
      else
      let currentCounter = time_Unix at sdiv periodSeconds in
      if currentCounter < 1 then Inr (0, False)
      else match_counters lib secret code
             [word_of_int currentCounter, word_of_int (currentCounter - 1), word_of_int (currentCounter + 1)])"

definition HashRecoveryCode :: "(string \<Rightarrow> hash) \<Rightarrow> string \<Rightarrow> err + hash" where
  "HashRecoveryCode sha rawCode =
     (let code = TrimSpace rawCode in if code = [] then Inl (ETotp Totp_ErrInvalidCode) else Inr (sha code))"

partial_function (option) recovery_code_loop ::
  "(string \<Rightarrow> hash) \<Rightarrow> int \<Rightarrow> string list \<Rightarrow> hash list \<Rightarrow> 'a world_scheme \<Rightarrow>
     ((err + string list \<times> hash list) \<times> 'a world_scheme) option" where
  "recovery_code_loop sha count codes hashes w =
     (if \<not> int (length codes) < count then Some (Inr (codes, hashes), w)
      else (case rand_read recoveryCodeBytes w of
         (Inl e, w1) \<Rightarrow> Some (Inl e, w1)
       | (Inr random, w1) \<Rightarrow>
           let code = b64_encode b64_url random;
               h = (case HashRecoveryCode sha code of Inl _ \<Rightarrow> 0 | Inr h \<Rightarrow> h)
           in if h \<in> set hashes then recovery_code_loop sha count codes hashes w1
              else recovery_code_loop sha count (codes @ [code]) (hashes @ [h]) w1))"

declare recovery_code_loop.simps [code]

definition generateRecoveryCodes ::
  "(string \<Rightarrow> hash) \<Rightarrow> int \<Rightarrow> 'a world_scheme \<Rightarrow> ((err + string list \<times> hash list) \<times> 'a world_scheme) option" where
  "generateRecoveryCodes sha count = recovery_code_loop sha count [] []"

section \<open>Helpers of the manager\<close>

definition totp_checkAttempt ::
  "'s TotpManager \<Rightarrow> string \<Rightarrow> string \<Rightarrow> string \<Rightarrow> 's account_world \<Rightarrow> (err + unit) \<times> 's account_world" where
  "totp_checkAttempt mgr operation subjectID sourceKey =
     check_attempt ''check TOTP attempt'' (tm_attemptGuard mgr)
       \<lparr>tr_Operation = operation, tr_Email = [], tr_SubjectID = subjectID, tr_SourceKey = sourceKey\<rparr>"

definition totp_fail ::
  "'s TotpManager \<Rightarrow> string \<Rightarrow> string \<Rightarrow> 's account_world \<Rightarrow> (err + 'r) \<times> 's account_world" where
  "totp_fail mgr subjectID sourceKey =
     ret_event (tm_securityEvents mgr) ''totp_failed'' subjectID sourceKey (Inl (ETotp Totp_ErrInvalidCode))"

definition totp_completionError :: "err \<Rightarrow> err" where
  "totp_completionError e =
     (if errors_is e (ETotp Totp_ErrNotFound) \<or> errors_is e (ETotp Totp_ErrInactiveChallenge)
      then ETotp Totp_ErrInvalidChallenge
      else if errors_is e (ETotp Totp_ErrInvalidCode) then ETotp Totp_ErrInvalidCode
      else EWrap ''complete TOTP challenge'' e)"

definition totp_findChallenge ::
  "(string \<Rightarrow> hash) \<Rightarrow> 's TotpManager \<Rightarrow> string \<Rightarrow> 's account_world \<Rightarrow>
     (err + TotpChallenge \<times> Credential \<times> hash) \<times> 's account_world" where
  "totp_findChallenge sha mgr rawToken =
     (case HashToken sha rawToken of
        Inl _ \<Rightarrow> retM (Inl (ETotp Totp_ErrInvalidChallenge))
      | Inr challengeHash \<Rightarrow>
          bindM (on_err (\<lambda>e. if errors_is e (ETotp Totp_ErrNotFound) \<or> errors_is e (ETotp Totp_ErrInactiveChallenge)
                             then ETotp Totp_ErrInvalidChallenge else EWrap ''find TOTP challenge'' e)
                   (on_accounts (ts_FindChallenge (tm_store mgr) challengeHash))) (\<lambda>(challenge, credential).
          bindM read_clock (\<lambda>now.
          if \<not> totp_validChallenge challenge challengeHash \<or>
             \<not> totp_validCredential credential (tc_SubjectID challenge)
          then retM (Inl (ETotp Totp_ErrInvalidRecord))
          else if \<not> now < tc_ExpiresAt challenge then retM (Inl (ETotp Totp_ErrInvalidChallenge))
          else retM (Inr (challenge, credential, challengeHash)))))"

section \<open>Operations\<close>

definition totp_BeginEnrollment ::
  "totp_library \<Rightarrow> 's TotpManager \<Rightarrow> string \<Rightarrow> string \<Rightarrow> 's account_world \<Rightarrow>
     (err + EnrollmentStarted) \<times> 's account_world" where
  "totp_BeginEnrollment lib mgr rawSubject rawAccount =
     (let subjectID = TrimSpace rawSubject; accountName = TrimSpace rawAccount in
      if subjectID = [] \<or> accountName = [] then retM (Inl (ETotp Totp_ErrInvalidInput))
      else
      bindM (on_err (EWrap ''generate TOTP secret'')
               (\<lambda>w. (tl_Generate lib (tm_issuer mgr) accountName (pos w), w\<lparr>pos := Suc (pos w)\<rparr>))) (\<lambda>(secret, url).
      bindM read_clock (\<lambda>now.
      bindM (on_err (EWrap ''begin TOTP enrollment'')
               (on_accounts (ts_BeginEnrollment (tm_store mgr)
                  \<lparr>en_SubjectID = subjectID, en_Secret = secret, en_CreatedAt = now,
                   en_ExpiresAt = now + tm_enrollmentLifetime mgr\<rparr>))) (\<lambda>_.
      retM (Inr \<lparr>es_Secret = secret, es_URI = url, es_ExpiresAt = now + tm_enrollmentLifetime mgr\<rparr>)))))"

definition totp_IsEnabled ::
  "'s TotpManager \<Rightarrow> string \<Rightarrow> 's account_world \<Rightarrow> (err + bool) \<times> 's account_world" where
  "totp_IsEnabled mgr rawSubject =
     (let subjectID = TrimSpace rawSubject in
      if subjectID = [] then retM (Inl (ETotp Totp_ErrInvalidInput))
      else on_err (EWrap ''check TOTP status'') (on_accounts (ts_IsEnabled (tm_store mgr) subjectID)))"

text \<open>\<^verbatim>\<open>ConfirmEnrollment\<close> up to the recovery codes, and from them on.\<close>

definition totp_matchEnrollment ::
  "totp_library \<Rightarrow> 's TotpManager \<Rightarrow> string \<Rightarrow> string \<Rightarrow> string \<Rightarrow> 's account_world \<Rightarrow>
     (err + counter \<times> time) \<times> 's account_world" where
  "totp_matchEnrollment lib mgr subjectID code sourceKey =
     (if subjectID = [] then retM (Inl (ETotp Totp_ErrInvalidInput))
      else
      bindM (totp_checkAttempt mgr ''confirm_enrollment'' subjectID sourceKey) (\<lambda>_ w.
      (case on_accounts (ts_FindEnrollment (tm_store mgr) subjectID) w of
         (Inl e, w1) \<Rightarrow>
           if errors_is e (ETotp Totp_ErrNotFound) \<or> errors_is e (ETotp Totp_ErrInactiveEnrollment)
           then totp_fail mgr subjectID sourceKey w1
           else (Inl (EWrap ''find TOTP enrollment'' e), w1)
       | (Inr enrollment, w1) \<Rightarrow>
           bindM read_clock (\<lambda>now.
           if \<not> totp_validEnrollment enrollment subjectID then retM (Inl (ETotp Totp_ErrInvalidRecord))
           else if \<not> now < en_ExpiresAt enrollment then totp_fail mgr subjectID sourceKey
           else
           (case matchCounter lib (en_Secret enrollment) code now of
              Inl _ \<Rightarrow> retM (Inl (ETotp Totp_ErrInvalidRecord))
            | Inr (confirmedCounter, matched) \<Rightarrow>
                if \<not> matched then totp_fail mgr subjectID sourceKey
                else retM (Inr (confirmedCounter, now)))) w1)))"

definition totp_enable ::
  "'s TotpManager \<Rightarrow> string \<Rightarrow> string \<Rightarrow> counter \<Rightarrow> time \<Rightarrow> string list \<Rightarrow> hash list \<Rightarrow> 's account_world \<Rightarrow>
     (err + string list) \<times> 's account_world" where
  "totp_enable mgr subjectID sourceKey confirmedCounter at codes hashes =
     bindM (on_err (\<lambda>e. if errors_is e (ETotp Totp_ErrNotFound) \<or> errors_is e (ETotp Totp_ErrInactiveEnrollment)
                        then ETotp Totp_ErrInvalidCode else EWrap ''enable TOTP'' e)
              (on_accounts (ts_Enable (tm_store mgr) subjectID confirmedCounter hashes at))) (\<lambda>_.
     ret_event (tm_securityEvents mgr) ''totp_enabled'' subjectID sourceKey (Inr codes))"

definition totp_ConfirmEnrollment ::
  "totp_library \<Rightarrow> (string \<Rightarrow> hash) \<Rightarrow> 's TotpManager \<Rightarrow> string \<Rightarrow> string \<Rightarrow> string \<Rightarrow> 's account_world \<Rightarrow>
     ((err + string list) \<times> 's account_world) option" where
  "totp_ConfirmEnrollment lib sha mgr rawSubject code sourceKey w =
     (let subjectID = TrimSpace rawSubject in
      case totp_matchEnrollment lib mgr subjectID code sourceKey w of
        (Inl e, w1) \<Rightarrow> Some (Inl e, w1)
      | (Inr (confirmedCounter, confirmedAt), w1) \<Rightarrow>
          (case generateRecoveryCodes sha (tm_recoveryCodeCount mgr) w1 of
             None \<Rightarrow> None
           | Some (Inl e, w2) \<Rightarrow> Some (Inl (EWrap ''generate recovery codes'' e), w2)
           | Some (Inr (codes, hashes), w2) \<Rightarrow>
               Some (totp_enable mgr subjectID sourceKey confirmedCounter confirmedAt codes hashes w2)))"

fun totp_challenge_loop ::
  "nat \<Rightarrow> (string \<Rightarrow> hash) \<Rightarrow> 's TotpManager \<Rightarrow> string \<Rightarrow> 's account_world \<Rightarrow>
     (err + ChallengeStarted) \<times> 's account_world" where
  "totp_challenge_loop 0 sha mgr subjectID w =
     (Inl (EWrap ''create unique TOTP challenge'' (ETotp Totp_ErrConflict)), w)"
| "totp_challenge_loop (Suc n) sha mgr subjectID w =
     (case Generate sha w of
        (Inl e, w1) \<Rightarrow> (Inl (EWrap ''generate TOTP challenge'' e), w1)
      | (Inr (rawToken, tokenHash), w1) \<Rightarrow>
          (case now w1 of (t, w2) \<Rightarrow>
           let challenge = \<lparr>tc_SubjectID = subjectID, tc_TokenHash = tokenHash, tc_CreatedAt = t,
                 tc_ExpiresAt = t + tm_challengeLifetime mgr\<rparr> in
           (case on_accounts (ts_CreateChallenge (tm_store mgr) challenge) w2 of
              (Inl e, w3) \<Rightarrow>
                if errors_is e (ETotp Totp_ErrConflict) then totp_challenge_loop n sha mgr subjectID w3
                else (Inl (EWrap ''store TOTP challenge'' e), w3)
            | (Inr _, w3) \<Rightarrow> (Inr \<lparr>cs_Token = rawToken, cs_ExpiresAt = tc_ExpiresAt challenge\<rparr>, w3))))"

definition totp_BeginChallenge ::
  "(string \<Rightarrow> hash) \<Rightarrow> 's TotpManager \<Rightarrow> string \<Rightarrow> 's account_world \<Rightarrow>
     (err + ChallengeStarted) \<times> 's account_world" where
  "totp_BeginChallenge sha mgr rawSubject =
     (let subjectID = TrimSpace rawSubject in
      if subjectID = [] then retM (Inl (ETotp Totp_ErrInvalidInput))
      else totp_challenge_loop challengeAttempts sha mgr subjectID)"

text \<open>The common end of \<^verbatim>\<open>Verify\<close> and \<^verbatim>\<open>Recover\<close>.\<close>

definition totp_complete ::
  "'s TotpManager \<Rightarrow> string \<Rightarrow> string \<Rightarrow> string \<Rightarrow> bool \<Rightarrow> ('s \<Rightarrow> (err + string) \<times> 's) \<Rightarrow> 's account_world \<Rightarrow>
     (err + Authentication) \<times> 's account_world" where
  "totp_complete mgr subject sourceKey event recovery op w =
     (case on_accounts op w of
        (Inl e, w1) \<Rightarrow>
          if errors_is (totp_completionError e) (ETotp Totp_ErrInvalidCode)
          then ret_event (tm_securityEvents mgr) ''totp_failed'' subject sourceKey (Inl (totp_completionError e)) w1
          else (Inl (totp_completionError e), w1)
      | (Inr subjectID, w1) \<Rightarrow>
          if subjectID \<noteq> subject then (Inl (ETotp Totp_ErrInvalidRecord), w1)
          else ret_event (tm_securityEvents mgr) event subjectID sourceKey
                 (Inr \<lparr>au_SubjectID = subjectID, au_UsedRecoveryCode = recovery\<rparr>) w1)"

definition totp_Verify ::
  "totp_library \<Rightarrow> (string \<Rightarrow> hash) \<Rightarrow> 's TotpManager \<Rightarrow> VerifyInput \<Rightarrow> 's account_world \<Rightarrow>
     (err + Authentication) \<times> 's account_world" where
  "totp_Verify lib sha mgr input =
     bindM (totp_findChallenge sha mgr (vi_ChallengeToken input)) (\<lambda>(challenge, credential, challengeHash).
     bindM (totp_checkAttempt mgr ''verify_code'' (tc_SubjectID challenge) (vi_SourceKey input)) (\<lambda>_.
     bindM read_clock (\<lambda>now.
     (case matchCounter lib (cd_Secret credential) (vi_Code input) now of
        Inl _ \<Rightarrow> retM (Inl (ETotp Totp_ErrInvalidRecord))
      | Inr (counter, matched) \<Rightarrow>
          if \<not> matched \<or> cd_HasLastUsedCounter credential \<and> counter \<le> cd_LastUsedCounter credential
          then totp_fail mgr (tc_SubjectID challenge) (vi_SourceKey input)
          else totp_complete mgr (tc_SubjectID challenge) (vi_SourceKey input) ''totp_verified'' False
                 (ts_CompleteCode (tm_store mgr) challengeHash counter now)))))"

definition totp_Recover ::
  "(string \<Rightarrow> hash) \<Rightarrow> 's TotpManager \<Rightarrow> VerifyInput \<Rightarrow> 's account_world \<Rightarrow>
     (err + Authentication) \<times> 's account_world" where
  "totp_Recover sha mgr input =
     bindM (totp_findChallenge sha mgr (vi_ChallengeToken input)) (\<lambda>(challenge, _, challengeHash).
     bindM (totp_checkAttempt mgr ''use_recovery'' (tc_SubjectID challenge) (vi_SourceKey input)) (\<lambda>_.
     (case HashRecoveryCode sha (vi_Code input) of
        Inl _ \<Rightarrow> totp_fail mgr (tc_SubjectID challenge) (vi_SourceKey input)
      | Inr recoveryHash \<Rightarrow>
          bindM read_clock (\<lambda>now.
          totp_complete mgr (tc_SubjectID challenge) (vi_SourceKey input) ''totp_recovery_used'' True
            (ts_CompleteRecovery (tm_store mgr) challengeHash recoveryHash now)))))"

definition totp_Disable ::
  "'s TotpManager \<Rightarrow> string \<Rightarrow> string \<Rightarrow> 's account_world \<Rightarrow> (err + unit) \<times> 's account_world" where
  "totp_Disable mgr rawSubject sourceKey =
     (let subjectID = TrimSpace rawSubject in
      if subjectID = [] then retM (Inl (ETotp Totp_ErrInvalidInput))
      else
      bindM read_clock (\<lambda>now.
      bindM (on_err (EWrap ''disable TOTP'') (on_accounts (ts_Disable (tm_store mgr) subjectID now))) (\<lambda>_.
      ret_event (tm_securityEvents mgr) ''totp_disabled'' subjectID sourceKey (Inr ()))))"

end
