(* ===== verification/TotpService.thy ===== *)
theory TotpService
  imports Totp AccountSteps
begin

text \<open>
  The manager of the second factor over any store that meets the contract: how the state evolves under its
  calls, what a successful verification or recovery means, when the generation of recovery codes ends, and
  the runs that any calls form.
\<close>

section \<open>How the state evolves\<close>

text \<open>
  Between two states no challenge appears except those of \<open>H\<close>; for subjects outside \<open>I\<close> no recovery code
  and no credential appears, counters grow and a disabled credential stays disabled.
\<close>

definition totp_evolves :: "hash set \<Rightarrow> string set \<Rightarrow> totp_db \<Rightarrow> totp_db \<Rightarrow> bool" where
  "totp_evolves H I a b \<longleftrightarrow>
     (\<forall>h ch. totp_challenges b h = Some ch \<and> h \<notin> H \<longrightarrow> totp_challenges a h = Some ch) \<and>
     (\<forall>i code. (i, code) \<in> unused_codes b \<and> i \<notin> I \<longrightarrow> (i, code) \<in> unused_codes a) \<and>
     (\<forall>i d. totp_credentials b i = Some d \<and> i \<notin> I \<longrightarrow>
        (\<exists>c. totp_credentials a i = Some c \<and> cd_Secret d = cd_Secret c \<and>
           (cd_DisabledAt c \<noteq> None \<longrightarrow> cd_DisabledAt d \<noteq> None) \<and>
           (cd_HasLastUsedCounter c \<longrightarrow> cd_HasLastUsedCounter d \<and> cd_LastUsedCounter c \<le> cd_LastUsedCounter d)))"

lemma totp_evolves_refl [simp]: "totp_evolves H I a a"
  by (simp add: totp_evolves_def)

lemma totp_evolves_mono: "totp_evolves H I a b \<Longrightarrow> H \<subseteq> H' \<Longrightarrow> I \<subseteq> I' \<Longrightarrow> totp_evolves H' I' a b"
  unfolding totp_evolves_def by blast

lemma totp_evolves_trans:
  assumes "totp_evolves H I a b" and "totp_evolves H' I' b c"
  shows "totp_evolves (H \<union> H') (I \<union> I') a c"
  unfolding totp_evolves_def
proof (intro conjI allI impI, goal_cases)
  case (3 i d)
  then obtain e where e: "totp_credentials b i = Some e" "cd_Secret d = cd_Secret e"
    "cd_DisabledAt e \<noteq> None \<longrightarrow> cd_DisabledAt d \<noteq> None"
    "cd_HasLastUsedCounter e \<longrightarrow> cd_HasLastUsedCounter d \<and> cd_LastUsedCounter e \<le> cd_LastUsedCounter d"
    using assms(2) unfolding totp_evolves_def by blast
  then obtain f where "totp_credentials a i = Some f" "cd_Secret e = cd_Secret f"
    "cd_DisabledAt f \<noteq> None \<longrightarrow> cd_DisabledAt e \<noteq> None"
    "cd_HasLastUsedCounter f \<longrightarrow> cd_HasLastUsedCounter e \<and> cd_LastUsedCounter f \<le> cd_LastUsedCounter e"
    using assms(1) 3 unfolding totp_evolves_def by blast
  with e show ?case by auto
qed (use assms in \<open>unfold totp_evolves_def, blast+\<close>)

lemma evolves_BeginEnrollment:
  assumes "spec_BeginEnrollment enc e a x b" shows "totp_evolves H I a b"
proof -
  obtain n where n: "case enc n (en_Secret e) of Inl err \<Rightarrow> x = Inl err \<and> b = a
    | Inr s \<Rightarrow> x = Inr () \<and> b = a\<lparr>enrollments := (enrollments a)(en_SubjectID e \<mapsto> e\<lparr>en_Secret := s\<rparr>)\<rparr>"
    using assms by (auto simp: spec_BeginEnrollment_def)
  then show ?thesis by (cases "enc n (en_Secret e)") (auto simp: totp_evolves_def)
qed

lemma evolves_Enable: "spec_Enable i c codes t a = (x, b) \<Longrightarrow> totp_evolves {} (if isl x then {} else {i}) a b"
  by (auto simp: spec_Enable_def totp_evolves_def split: option.splits if_splits)

lemma evolves_Disable: "spec_Disable i t a = (x, b) \<Longrightarrow> totp_evolves {} {} a b"
  by (auto simp: spec_Disable_def totp_evolves_def split: option.splits if_splits)

lemma evolves_CreateTotpChallenge:
  "spec_CreateTotpChallenge c a x b \<Longrightarrow> totp_evolves (if isl x then {} else {tc_TokenHash c}) {} a b"
  by (auto simp: spec_CreateTotpChallenge_def totp_evolves_def split: if_splits)

lemma evolves_code: "code_fun h c t a = (x, b) \<Longrightarrow> totp_evolves {} {} a b"
  by (auto simp: code_fun_def totp_evolves_def split: option.splits if_splits)

lemma evolves_recovery: "recovery_fun h c t a = (x, b) \<Longrightarrow> totp_evolves {} {} a b"
  by (auto simp: recovery_fun_def totp_evolves_def split: option.splits if_splits)

lemma lossy_spec_cases:
  assumes "lossy_spec lossy f a x b"
  obtains "f a = (x, b)" | "lossy" "x = Inl (ETotp Totp_ErrInactiveChallenge)" "b = a"
  using assms by (auto simp: lossy_spec_def)

section \<open>Codes and counters\<close>

lemma match_counters_True:
  "match_counters lib secret code counters = Inr (c, True) \<Longrightarrow>
     c \<in> set counters \<and> tl_ValidateCustom lib code c secret = Inr True"
  by (induction lib secret code counters rule: match_counters.induct) (auto split: sum.splits if_splits)

lemma matchCounter_True:
  assumes "matchCounter lib secret code t = Inr (c, True)"
  shows "tl_ValidateCustom lib code c secret = Inr True" and "length code = 6"
    and "\<bar>uint c - time_Unix t sdiv periodSeconds\<bar> \<le> 1" and "counter_ok c"
proof -
  let ?n = "time_Unix t sdiv periodSeconds"
  have m: "length code = 6" "\<not> ?n < 1"
    "match_counters lib secret code [word_of_int ?n, word_of_int (?n - 1), word_of_int (?n + 1)] = Inr (c, True)"
    using assms by (auto simp: matchCounter_def Let_def split: if_splits)
  have u: "- (2 ^ 63) \<le> time_Unix t" "time_Unix t < 2 ^ 63"
    using sint_range_size [of "word_of_int (t div second_ns - 62135596800) :: 64 word"]
    by (simp_all add: time_Unix_def word_size)
  have "\<bar>time_Unix t sdiv 30\<bar> \<le> \<bar>time_Unix t\<bar> div 30"
    by (simp add: signed_divide_int_def abs_mult sgn_if)
  with u have n: "1 \<le> ?n" "?n < 2 ^ 62" using m(2) by (simp_all add: periodSeconds_def)
  have w: "uint (word_of_int k :: counter) = k" if "0 \<le> k" "k < 2 ^ 63" for k
    using that by (simp add: word_of_int_inverse uint_word_of_int)
  from match_counters_True [OF m(3)]
  have c: "c = word_of_int ?n \<or> c = word_of_int (?n - 1) \<or> c = word_of_int (?n + 1)"
    and v: "tl_ValidateCustom lib code c secret = Inr True" by auto
  show "tl_ValidateCustom lib code c secret = Inr True" by (rule v)
  show "length code = 6" by (rule m(1))
  obtain k where "c = word_of_int k" "\<bar>k - ?n\<bar> \<le> 1" using c by fastforce
  with n w [of k] show "\<bar>uint c - ?n\<bar> \<le> 1" "counter_ok c" by (auto simp: counter_ok_def)
qed

section \<open>Recovery codes\<close>

text \<open>The readings that the generation makes, and what it returns.\<close>

abbreviation recovery_hash :: "(string \<Rightarrow> hash) \<Rightarrow> string \<Rightarrow> hash" where
  "recovery_hash sha c \<equiv> (case HashRecoveryCode sha c of Inl _ \<Rightarrow> 0 | Inr h \<Rightarrow> h)"

definition code_loop_post ::
  "(string \<Rightarrow> hash) \<Rightarrow> int \<Rightarrow> string list \<Rightarrow> hash list \<Rightarrow> 'a world_scheme \<Rightarrow>
     (err + string list \<times> hash list) \<times> 'a world_scheme \<Rightarrow> bool" where
  "code_loop_post sha count codes hashes w z \<longleftrightarrow>
     (\<exists>m \<ge> pos w. snd z = w\<lparr>pos := m\<rparr>) \<and>
     (case fst z of Inl e \<Rightarrow> is_driver e
      | Inr (cs, hs) \<Rightarrow>
          (distinct hashes \<longrightarrow> distinct hs) \<and>
          (hashes = map (recovery_hash sha) codes \<longrightarrow> hs = map (recovery_hash sha) cs) \<and>
          (int (length codes) \<le> count \<longrightarrow> int (length cs) = count) \<and>
          (\<exists>more. cs = codes @ more \<and> (\<forall>c\<in>set more. \<exists>r. length r = recoveryCodeBytes \<and> c = b64_encode b64_url r)))"

lemma code_loop_post_pos:
  "code_loop_post sha count codes hashes (w\<lparr>pos := Suc (pos w)\<rparr>) z \<Longrightarrow> code_loop_post sha count codes hashes w z"
  unfolding code_loop_post_def by (auto dest: Suc_leD)

lemma code_loop_post_add:
  assumes "code_loop_post sha count (codes @ [b64_encode b64_url r]) (hashes @ [recovery_hash sha (b64_encode b64_url r)]) w z"
    and "recovery_hash sha (b64_encode b64_url r) \<notin> set hashes" and "int (length codes) < count"
    and "length r = recoveryCodeBytes"
  shows "code_loop_post sha count codes hashes w z"
proof (cases "fst z")
  case (Inr p)
  obtain cs hs where p: "p = (cs, hs)" by fastforce
  obtain more where "cs = codes @ b64_encode b64_url r # more"
    "\<forall>c\<in>set more. \<exists>r. length r = recoveryCodeBytes \<and> c = b64_encode b64_url r"
    using assms(1) Inr p by (auto simp: code_loop_post_def)
  then have "\<exists>more. cs = codes @ more \<and> (\<forall>c\<in>set more. \<exists>r. length r = recoveryCodeBytes \<and> c = b64_encode b64_url r)"
    using assms(4) by (intro exI [of _ "b64_encode b64_url r # more"]) auto
  with assms(1-3) Inr p show ?thesis by (auto simp: code_loop_post_def)
qed (use assms in \<open>auto simp: code_loop_post_def\<close>)

lemma recovery_code_loop_result:
  "recovery_code_loop sha count codes hashes w = Some z \<Longrightarrow> code_loop_post sha count codes hashes w z"
proof (rule recovery_code_loop.raw_induct [where P = code_loop_post], goal_cases)
  case (1 loop sha count codes hashes w z)
  show ?case
  proof (cases "int (length codes) < count")
    case False
    then have "z = (Inr (codes, hashes), w)" using 1(3) by simp
    then show ?thesis using False by (auto simp: code_loop_post_def intro: exI [of _ "pos w"])
  next
    case True
    show ?thesis
    proof (cases "fst (rand_read recoveryCodeBytes w)")
      case (Inl e)
      then have "z = (Inl e, w\<lparr>pos := Suc (pos w)\<rparr>)"
        using 1(3) True by (simp add: rand_read_def split: if_splits)
      moreover have "is_driver e" using Inl by (auto simp: rand_read_def split: if_splits)
      ultimately show ?thesis by (auto simp: code_loop_post_def intro!: exI [of _ "Suc (pos w)"])
    next
      case (Inr r)
      let ?c = "b64_encode b64_url r" and ?w = "w\<lparr>pos := Suc (pos w)\<rparr>"
      have r: "rand_read recoveryCodeBytes w = (Inr r, ?w)" using Inr by (simp add: prod_eq_iff)
      have len: "length r = recoveryCodeBytes" using rand_read_length [OF Inr] .
      show ?thesis
      proof (cases "recovery_hash sha ?c \<in> set hashes")
        case in_set: True
        then have "loop sha count codes hashes ?w = Some z" using 1(3) True r by (simp add: Let_def)
        then show ?thesis by (rule code_loop_post_pos [OF 1(2)])
      next
        case False
        then have "loop sha count (codes @ [?c]) (hashes @ [recovery_hash sha ?c]) ?w = Some z"
          using 1(3) True r by (simp add: Let_def)
        from code_loop_post_add [OF 1(2) [OF this] False True len] show ?thesis
          by (rule code_loop_post_pos)
      qed
    qed
  qed
qed

lemma HashRecoveryCode_encode:
  assumes "length r = recoveryCodeBytes"
  shows "HashRecoveryCode sha (b64_encode b64_url r) = Inr (sha (b64_encode b64_url r))"
proof -
  have "set (b64_encode b64_url r) \<subseteq> set b64_url" by (rule set_b64_encode) simp
  then have "TrimSpace (b64_encode b64_url r) = b64_encode b64_url r"
    using b64_url_not_space by (intro TrimSpace_id) blast
  moreover have "length (b64_encode b64_url r) = 22"
    using assms by (simp add: length_b64_encode recoveryCodeBytes_def)
  ultimately show ?thesis by (auto simp: HashRecoveryCode_def Let_def)
qed

lemma generateRecoveryCodes_Inr:
  assumes "generateRecoveryCodes sha count w = Some (Inr (codes, hashes), v)" and "0 \<le> count"
  shows "\<exists>m \<ge> pos w. v = w\<lparr>pos := m\<rparr>" and "hashes = map sha codes" and "distinct hashes"
    and "int (length codes) = count" and "c \<in> set codes \<Longrightarrow> HashRecoveryCode sha c = Inr (sha c)"
proof -
  have R: "(\<exists>m \<ge> pos w. v = w\<lparr>pos := m\<rparr>)" "distinct hashes" "hashes = map (recovery_hash sha) codes" "int (length codes) = count"
    "\<forall>c\<in>set codes. \<exists>r. length r = recoveryCodeBytes \<and> c = b64_encode b64_url r"
    using recovery_code_loop_result [OF assms(1) [unfolded generateRecoveryCodes_def]] assms(2)
    by (auto simp: code_loop_post_def)
  have H: "HashRecoveryCode sha c = Inr (sha c)" if "c \<in> set codes" for c
    using that R(5) HashRecoveryCode_encode [of _ sha] by auto
  show "\<exists>m \<ge> pos w. v = w\<lparr>pos := m\<rparr>" "distinct hashes" "int (length codes) = count" by fact+
  show "hashes = map sha codes" unfolding R(3) using H by simp
  show "c \<in> set codes \<Longrightarrow> HashRecoveryCode sha c = Inr (sha c)" by (rule H)
qed

lemma generateRecoveryCodes_frame:
  "generateRecoveryCodes sha count w = Some (x, v) \<Longrightarrow> \<exists>m \<ge> pos w. v = w\<lparr>pos := m\<rparr>"
  unfolding generateRecoveryCodes_def by (drule recovery_code_loop_result) (simp add: code_loop_post_def)

text \<open>
  The generation ends when the random source fails or keeps giving enough codes: from every position on, for
  every set of fewer than \<open>count\<close> hashes, some later reading fails or gives a code whose hash is outside.
\<close>

definition varied :: "(string \<Rightarrow> hash) \<Rightarrow> int \<Rightarrow> 'a world_scheme \<Rightarrow> bool" where
  "varied sha count w \<longleftrightarrow>
     (\<forall>n S. finite S \<and> int (card S) < count \<longrightarrow> (\<exists>m \<ge> n. rand_err w m \<or>
        sha (b64_encode b64_url (map (rand_byte w m) [0..<recoveryCodeBytes])) \<notin> S))"

lemma recovery_code_loop_unfold:
  assumes "int (length codes) < count"
  shows "recovery_code_loop sha count codes hashes w =
     (if rand_err w (pos w) then Some (Inl (EDriver ''rand''), w\<lparr>pos := Suc (pos w)\<rparr>)
      else let code = b64_encode b64_url (map (rand_byte w (pos w)) [0..<recoveryCodeBytes])
           in if sha code \<in> set hashes then recovery_code_loop sha count codes hashes (w\<lparr>pos := Suc (pos w)\<rparr>)
              else recovery_code_loop sha count (codes @ [code]) (hashes @ [sha code]) (w\<lparr>pos := Suc (pos w)\<rparr>))"
  using assms HashRecoveryCode_encode [of "map (rand_byte w (pos w)) [0..<recoveryCodeBytes]" sha]
    recovery_code_loop.simps [of sha count codes hashes w]
  by (simp add: rand_read_def Let_def)

lemma recovery_code_loop_returns:
  assumes "varied sha count w" and "length hashes = length codes"
  shows "recovery_code_loop sha count codes hashes w \<noteq> None"
  using assms
proof (induction "nat (count - int (length codes))" arbitrary: codes hashes w rule: less_induct)
  case less
  show ?case
  proof (cases "int (length codes) < count")
    case False
    then show ?thesis by (subst recovery_code_loop.simps) simp
  next
    case True
    have L: "length hashes = length codes" by (rule less.prems(2))
    note U = recovery_code_loop_unfold [OF True]
    obtain m where m: "pos w \<le> m" "rand_err w m \<or>
        sha (b64_encode b64_url (map (rand_byte w m) [0..<recoveryCodeBytes])) \<notin> set hashes"
    proof -
      have "int (card (set hashes)) < count"
        using True less.prems(2) card_length [of hashes] by linarith
      then show thesis using that less.prems(1) unfolding varied_def by (meson List.finite_set)
    qed
    define d where "d = m - pos w"
    have "m = pos w + d" using m(1) by (simp add: d_def)
    with m(2) have "rand_err w (pos w + d) \<or>
        sha (b64_encode b64_url (map (rand_byte w (pos w + d)) [0..<recoveryCodeBytes])) \<notin> set hashes" by simp
    then show ?thesis
      using less.prems(1)
    proof (induction d arbitrary: w)
      case 0
      have v: "varied sha count (w\<lparr>pos := Suc (pos w)\<rparr>)" using 0(2) by (simp add: varied_def)
      have "recovery_code_loop sha count (codes @ [c]) (hashes @ [h]) (w\<lparr>pos := Suc (pos w)\<rparr>) \<noteq> None" for c h
        using True L by (intro less.hyps v) simp_all
      then show ?case using 0(1) by (auto simp: U [of sha hashes w] Let_def)
    next
      case (Suc d)
      let ?w = "w\<lparr>pos := Suc (pos w)\<rparr>"
      have v: "varied sha count ?w" using Suc(3) by (simp add: varied_def)
      have "recovery_code_loop sha count (codes @ [c]) (hashes @ [h]) ?w \<noteq> None" for c h
        using True L by (intro less.hyps v) simp_all
      moreover have "recovery_code_loop sha count codes hashes ?w \<noteq> None"
        using Suc.IH [of ?w] Suc.prems(1) v by simp
      ultimately show ?case by (auto simp: U [of sha hashes w] Let_def)
    qed
  qed
qed

lemma varied_tape: "tape w = tape v \<Longrightarrow> varied sha count w = varied sha count v"
  by (simp add: varied_def tape_def)

lemma matchEnrollment_tape: "tape (snd (totp_matchEnrollment lib mgr i code k w)) = tape w"
proof -
  obtain x w1 where g: "totp_checkAttempt mgr ''confirm_enrollment'' i k w = (x, w1)" by fastforce
  have "framed (totp_checkAttempt mgr ''confirm_enrollment'' i k)" by (auto simp: totp_checkAttempt_def)
  note g1 = framedD(2) [OF this g]
  obtain y w2 where o: "on_accounts (ts_FindEnrollment (tm_store mgr) i) w1 = (y, w2)" by fastforce
  have "tape w2 = tape w1" using o by (auto simp: on_accounts_def)
  then show ?thesis
    using g g1 o
    by (auto simp: totp_matchEnrollment_def totp_fail_def bindM_eq ret_event_def split: sum.split)
qed

lemma ConfirmEnrollment_returns:
  assumes "varied sha (tm_recoveryCodeCount mgr) w"
  shows "\<exists>x w1. totp_ConfirmEnrollment lib sha mgr i code k w = Some (x, w1)"
proof -
  obtain x w1 where m: "totp_matchEnrollment lib mgr (TrimSpace i) code k w = (x, w1)" by fastforce
  have "varied sha (tm_recoveryCodeCount mgr) w1"
    using assms varied_tape [OF matchEnrollment_tape [of lib mgr "TrimSpace i" code k w]] m by simp
  then have "generateRecoveryCodes sha (tm_recoveryCodeCount mgr) w1 \<noteq> None"
    unfolding generateRecoveryCodes_def by (rule recovery_code_loop_returns) simp
  with m show ?thesis
    by (auto simp: totp_ConfirmEnrollment_def Let_def split: prod.split sum.split)
qed

section \<open>Calls\<close>

text \<open>A computation that keeps the store's invariant and lets the state evolve without new entries.\<close>

definition totp_quiet ::
  "('s \<Rightarrow> totp_db) \<Rightarrow> ('s \<Rightarrow> bool) \<Rightarrow> ('s account_world \<Rightarrow> 'r \<times> 's account_world) \<Rightarrow> bool" where
  "totp_quiet view ok m \<longleftrightarrow>
     (\<forall>w. ok (aw_store w) \<longrightarrow> ok (aw_store (snd (m w))) \<and>
        totp_evolves {} {} (view (aw_store w)) (view (aw_store (snd (m w)))))"

lemma totp_quietD:
  assumes "totp_quiet view ok m" and "ok (aw_store w)" and "m w = (x, v)"
  shows "ok (aw_store v)" and "totp_evolves {} {} (view (aw_store w)) (view (aw_store v))"
  using assms unfolding totp_quiet_def by (metis snd_conv)+

lemma totp_quiet_framed: "framed m \<Longrightarrow> totp_quiet view ok m"
  by (simp add: totp_quiet_def framed_def)

lemma totp_quiet_on_err [intro!]: "totp_quiet view ok m \<Longrightarrow> totp_quiet view ok (on_err f m)"
  by (simp add: totp_quiet_def)

lemma totp_quiet_bindM [intro!]:
  fixes m :: "'a account_world \<Rightarrow> (err + 'b) \<times> 'a account_world"
  assumes m: "totp_quiet view ok m" and k: "\<And>v. totp_quiet view ok (k v)"
  shows "totp_quiet view ok (bindM m k)"
  unfolding totp_quiet_def
proof (intro allI impI)
  fix w :: "'a account_world" assume w: "ok (aw_store w)"
  obtain x v where mw: "m w = (x, v)" by fastforce
  note 1 = totp_quietD [OF m w mw]
  show "ok (aw_store (snd (bindM m k w))) \<and>
      totp_evolves {} {} (view (aw_store w)) (view (aw_store (snd (bindM m k w))))"
  proof (cases x)
    case (Inr a)
    have "ok (aw_store (snd (k a v)))" "totp_evolves {} {} (view (aw_store v)) (view (aw_store (snd (k a v))))"
      using k [of a] 1(1) by (simp_all add: totp_quiet_def)
    with totp_evolves_trans [OF 1(2) this(2)] show ?thesis using mw Inr by simp
  qed (use 1 mw in simp)
qed

lemma framed_totp_checkAttempt [intro!]: "framed (totp_checkAttempt mgr operation i k)"
  by (auto simp: totp_checkAttempt_def)

lemma totp_quiet_rules [intro!]:
  "totp_quiet view ok (retM x)" "totp_quiet view ok read_clock" "totp_quiet view ok (ret_event s y i k x)"
  "totp_quiet view ok (totp_checkAttempt mgr operation i k)" "totp_quiet view ok (totp_fail mgr i k)"
  by (rule totp_quiet_framed; auto simp: totp_checkAttempt_def totp_fail_def simp del: retM_simps)+

lemma totp_quiet_op:
  assumes "implements view ok op spec" and "\<And>a x b. spec a x b \<Longrightarrow> totp_evolves {} {} a b"
  shows "totp_quiet view ok (on_accounts op)"
  unfolding totp_quiet_def
proof (intro allI impI)
  fix w :: "'a account_world" assume w: "ok (aw_store w)"
  from assms(1) w show "ok (aw_store (snd (on_accounts op w))) \<and>
      totp_evolves {} {} (view (aw_store w)) (view (aw_store (snd (on_accounts op w))))"
    by (cases rule: implements_cases) (use implements_inv [OF assms(1) w] assms(2) in \<open>auto simp: on_accounts_def\<close>)
qed

text \<open>A store call that only reads.\<close>

lemma reading_op:
  assumes "implements view ok op spec" and "\<forall>a x b. spec a x b \<longrightarrow> b = a"
    and "ok (aw_store w)" and "on_accounts op w = (Inr v, w1)"
  shows "spec (view (aw_store w)) (Inr v) (view (aw_store w))" and "view (aw_store w1) = view (aw_store w)"
    and "ok (aw_store w1)" and "tape w1 = tape w"
proof -
  have s: "fst (op (aw_store w)) = Inr v" "snd (op (aw_store w)) = aw_store w1" "tape w1 = tape w"
    using assms(4) by (auto simp: on_accounts_def)
  have "spec (view (aw_store w)) (Inr v) (view (aw_store w1))"
    using implements_Inr [OF assms(1,3) s(1)] s(2) by simp
  with assms(2) [rule_format, OF this] show "spec (view (aw_store w)) (Inr v) (view (aw_store w))"
    "view (aw_store w1) = view (aw_store w)" by simp_all
  show "ok (aw_store w1)" using implements_inv [OF assms(1,3)] s(2) by simp
  show "tape w1 = tape w" by (rule s(3))
qed

lemma spec_FindChallenge_Inr:
  assumes "spec_FindChallenge dec h a (Inr (ch, c)) b"
  obtains cr n where "totp_challenges a h = Some ch" "totp_credentials a (tc_SubjectID ch) = Some cr"
    "cd_DisabledAt cr = None" "dec n (cd_Secret cr) = Inr (cd_Secret c)" "c = (Credential.truncate cr)\<lparr>cd_Secret := cd_Secret c\<rparr>"
proof -
  obtain ch' cr n where o: "totp_challenges a h = Some ch'" "totp_credentials a (tc_SubjectID ch') = Some cr"
    "cd_DisabledAt cr = None" and x: "Inr (ch, c) = (case dec n (cd_Secret cr) of Inl err \<Rightarrow> Inl err
      | Inr s \<Rightarrow> Inr (ch', (Credential.truncate cr)\<lparr>cd_Secret := s\<rparr>))"
    using assms by (auto simp: spec_FindChallenge_def split: option.splits if_splits)
  from x obtain s where "dec n (cd_Secret cr) = Inr s" "ch' = ch" "c = (Credential.truncate cr)\<lparr>cd_Secret := s\<rparr>"
    by (cases "dec n (cd_Secret cr)") auto
  with o show thesis by (intro that [of cr n]) simp_all
qed

context totp_store
begin

lemma findChallenge_Inr:
  assumes "tm_store mgr = ts" and "ok (aw_store w)"
    and "totp_findChallenge sha mgr raw w = (Inr (ch, c, h), w1)"
  obtains cr n where "HashToken sha raw = Inr h" "totp_challenges (view (aw_store w)) h = Some ch"
    "totp_credentials (view (aw_store w)) (tc_SubjectID ch) = Some cr" "cd_DisabledAt cr = None"
    "decrypt n (cd_Secret cr) = Inr (cd_Secret c)" "c = (Credential.truncate cr)\<lparr>cd_Secret := cd_Secret c\<rparr>"
    "view (aw_store w1) = view (aw_store w)" "ok (aw_store w1)" "tape w1 = tape w"
proof -
  obtain h' where h': "HashToken sha raw = Inr h'"
    using assms(3) by (cases "HashToken sha raw") (auto simp: totp_findChallenge_def)
  from assms(3) obtain p w2 where o: "on_err (\<lambda>e. if errors_is e (ETotp Totp_ErrNotFound) \<or>
          errors_is e (ETotp Totp_ErrInactiveChallenge) then ETotp Totp_ErrInvalidChallenge
          else EWrap ''find TOTP challenge'' e) (on_accounts (ts_FindChallenge ts h')) w = (Inr p, w2)"
    and r: "(case p of (challenge, credential) \<Rightarrow> bindM read_clock (\<lambda>now.
          if \<not> totp_validChallenge challenge h' \<or> \<not> totp_validCredential credential (tc_SubjectID challenge)
          then retM (Inl (ETotp Totp_ErrInvalidRecord))
          else if \<not> now < tc_ExpiresAt challenge then retM (Inl (ETotp Totp_ErrInvalidChallenge))
          else retM (Inr (challenge, credential, h')))) w2 = (Inr (ch, c, h), w1)"
    unfolding totp_findChallenge_def h' sum.case assms(1) by (rule bindM_InrE)
  have w1: "w1 = w2\<lparr>pos := Suc (pos w2)\<rparr>" "p = (ch, c)" "h' = h"
    using r by (auto split: prod.splits if_splits)
  note f = on_err_InrD [OF o, unfolded w1]
  have rd: "\<forall>a x b. spec_FindChallenge decrypt h a x b \<longrightarrow> b = a" by (simp add: spec_FindChallenge_def)
  note r = reading_op [OF FindChallenge rd assms(2) f]
  from r(1) show thesis
    by (rule spec_FindChallenge_Inr) (rule that, use h' r w1 in simp_all)
qed

lemma complete_Inr:
  assumes "implements view ok op (lossy_spec lossy f)" and "ok (aw_store w)"
    and "totp_complete mgr subject k event r op w = (Inr au, w1)"
  shows "f (view (aw_store w)) = (Inr subject, view (aw_store w1))" and "ok (aw_store w1)"
    and "au = \<lparr>au_SubjectID = subject, au_UsedRecoveryCode = r\<rparr>"
proof -
  obtain w2 where o: "on_accounts op w = (Inr subject, w2)" and w1: "aw_store w1 = aw_store w2"
    and au: "au = \<lparr>au_SubjectID = subject, au_UsedRecoveryCode = r\<rparr>"
    using assms(3) by (auto simp: totp_complete_def ret_event_def split: prod.splits sum.splits if_splits)
  have s: "fst (op (aw_store w)) = Inr subject" "snd (op (aw_store w)) = aw_store w2"
    using o by (auto simp: on_accounts_def)
  show "f (view (aw_store w)) = (Inr subject, view (aw_store w1))"
    using implements_Inr [OF assms(1,2) s(1)] s(2) w1 by (auto simp: lossy_spec_def)
  show "ok (aw_store w1)" using implements_inv [OF assms(1,2)] s(2) w1 by simp
  show "au = \<lparr>au_SubjectID = subject, au_UsedRecoveryCode = r\<rparr>" by (rule au)
qed

lemma Verify_Inr:
  assumes "tm_store mgr = ts" and "ok (aw_store w)" and "totp_Verify lib sha mgr input w = (Inr au, w1)"
  obtains h ch cr c n secret t m where
    "HashToken sha (vi_ChallengeToken input) = Inr h" "totp_challenges (view (aw_store w)) h = Some ch"
    "totp_credentials (view (aw_store w)) (tc_SubjectID ch) = Some cr" "cd_DisabledAt cr = None"
    "decrypt n (cd_Secret cr) = Inr secret" "t = clock w m" "t < tc_ExpiresAt ch"
    "matchCounter lib secret (vi_Code input) t = Inr (c, True)"
    "cd_HasLastUsedCounter cr \<longrightarrow> cd_LastUsedCounter cr < c"
    "au = \<lparr>au_SubjectID = tc_SubjectID ch, au_UsedRecoveryCode = False\<rparr>"
    "code_fun h c t (view (aw_store w)) = (Inr (tc_SubjectID ch), view (aw_store w1))" "ok (aw_store w1)"
proof -
  from assms(3) obtain ch c h w2 w3 where f: "totp_findChallenge sha mgr (vi_ChallengeToken input) w = (Inr (ch, c, h), w2)"
    and g: "totp_checkAttempt mgr ''verify_code'' (tc_SubjectID ch) (vi_SourceKey input) w2 = (Inr (), w3)"
    and r: "bindM read_clock (\<lambda>now.
     (case matchCounter lib (cd_Secret c) (vi_Code input) now of
        Inl _ \<Rightarrow> retM (Inl (ETotp Totp_ErrInvalidRecord))
      | Inr (counter, matched) \<Rightarrow>
          if \<not> matched \<or> cd_HasLastUsedCounter c \<and> counter \<le> cd_LastUsedCounter c
          then totp_fail mgr (tc_SubjectID ch) (vi_SourceKey input)
          else totp_complete mgr (tc_SubjectID ch) (vi_SourceKey input) ''totp_verified'' False
                 (ts_CompleteCode (tm_store mgr) h counter now))) w3 = (Inr au, w1)"
    unfolding totp_Verify_def by (auto elim!: bindM_InrE)
  from assms(1,2) f show thesis
  proof (rule findChallenge_Inr)
    fix cr n
    assume F: "HashToken sha (vi_ChallengeToken input) = Inr h" "totp_challenges (view (aw_store w)) h = Some ch"
      "totp_credentials (view (aw_store w)) (tc_SubjectID ch) = Some cr" "cd_DisabledAt cr = None"
      "decrypt n (cd_Secret cr) = Inr (cd_Secret c)" "c = (Credential.truncate cr)\<lparr>cd_Secret := cd_Secret c\<rparr>"
      "view (aw_store w2) = view (aw_store w)" "ok (aw_store w2)" "tape w2 = tape w"
    note g3 = framedD [OF framed_totp_checkAttempt g]
    let ?t = "clock w3 (pos w3)" and ?w = "w3\<lparr>pos := Suc (pos w3)\<rparr>"
    have cc: "cd_HasLastUsedCounter c = cd_HasLastUsedCounter cr" "cd_LastUsedCounter c = cd_LastUsedCounter cr"
      using F(6) by (metis Credential.select_convs(4,5) Credential.truncate_def Credential.update_convs(2))+
    obtain n' where m: "matchCounter lib (cd_Secret c) (vi_Code input) ?t = Inr (n', True)"
      "cd_HasLastUsedCounter cr \<longrightarrow> cd_LastUsedCounter cr < n'"
      and cmp: "totp_complete mgr (tc_SubjectID ch) (vi_SourceKey input) ''totp_verified'' False
         (ts_CompleteCode ts h n' ?t) ?w = (Inr au, w1)"
      using r assms(1) cc
      by (auto simp: totp_fail_def ret_event_def not_le elim!: bindM_InrE split: sum.splits if_splits)
    have s: "view (aw_store ?w) = view (aw_store w)" "ok (aw_store ?w)" using F g3 by simp_all
    note C = complete_Inr [OF CompleteCode [OF matchCounter_True(4) [OF m(1)]] s(2) cmp]
    have "clock w3 = clock w" using F(9) g3(2) by (simp add: tape_def)
    moreover have "?t < tc_ExpiresAt ch"
      using C(1) s(1) F(2) by (auto simp: code_fun_def split: if_splits)
    ultimately show thesis
      using C F m s(1) by (intro that [where m = "pos w3" and n = n]) simp_all
  qed
qed

lemma Recover_Inr:
  assumes "tm_store mgr = ts" and "ok (aw_store w)" and "totp_Recover sha mgr input w = (Inr au, w1)"
  obtains h ch cr r t m where
    "HashToken sha (vi_ChallengeToken input) = Inr h" "totp_challenges (view (aw_store w)) h = Some ch"
    "totp_credentials (view (aw_store w)) (tc_SubjectID ch) = Some cr" "cd_DisabledAt cr = None"
    "t = clock w m" "t < tc_ExpiresAt ch" "HashRecoveryCode sha (vi_Code input) = Inr r"
    "au = \<lparr>au_SubjectID = tc_SubjectID ch, au_UsedRecoveryCode = True\<rparr>"
    "recovery_fun h r t (view (aw_store w)) = (Inr (tc_SubjectID ch), view (aw_store w1))" "ok (aw_store w1)"
proof -
  from assms(3) obtain ch c h w2 w3 where f: "totp_findChallenge sha mgr (vi_ChallengeToken input) w = (Inr (ch, c, h), w2)"
    and g: "totp_checkAttempt mgr ''use_recovery'' (tc_SubjectID ch) (vi_SourceKey input) w2 = (Inr (), w3)"
    and r: "(case HashRecoveryCode sha (vi_Code input) of
        Inl _ \<Rightarrow> totp_fail mgr (tc_SubjectID ch) (vi_SourceKey input)
      | Inr recoveryHash \<Rightarrow>
          bindM read_clock (\<lambda>now.
          totp_complete mgr (tc_SubjectID ch) (vi_SourceKey input) ''totp_recovery_used'' True
            (ts_CompleteRecovery (tm_store mgr) h recoveryHash now))) w3 = (Inr au, w1)"
    unfolding totp_Recover_def by (auto elim!: bindM_InrE)
  from assms(1,2) f show thesis
  proof (rule findChallenge_Inr)
    fix cr n
    assume F: "HashToken sha (vi_ChallengeToken input) = Inr h" "totp_challenges (view (aw_store w)) h = Some ch"
      "totp_credentials (view (aw_store w)) (tc_SubjectID ch) = Some cr" "cd_DisabledAt cr = None"
      "view (aw_store w2) = view (aw_store w)" "ok (aw_store w2)" "tape w2 = tape w"
    note g3 = framedD [OF framed_totp_checkAttempt g]
    let ?t = "clock w3 (pos w3)" and ?w = "w3\<lparr>pos := Suc (pos w3)\<rparr>"
    obtain rh where m: "HashRecoveryCode sha (vi_Code input) = Inr rh"
      and cmp: "totp_complete mgr (tc_SubjectID ch) (vi_SourceKey input) ''totp_recovery_used'' True
         (ts_CompleteRecovery ts h rh ?t) ?w = (Inr au, w1)"
      using r assms(1) by (auto simp: totp_fail_def ret_event_def elim!: bindM_InrE split: sum.splits)
    have s: "view (aw_store ?w) = view (aw_store w)" "ok (aw_store ?w)" using F g3 by simp_all
    note C = complete_Inr [OF CompleteRecovery s(2) cmp]
    have "clock w3 = clock w" using F(7) g3(2) by (simp add: tape_def)
    moreover have "?t < tc_ExpiresAt ch"
      using C(1) s(1) F(2) by (auto simp: recovery_fun_def split: if_splits)
    ultimately show thesis
      using C F m s(1) by (intro that [where m = "pos w3"]) simp_all
  qed
qed

lemma enable_result:
  assumes "tm_store mgr = ts" and "counter_ok c" and "ok (aw_store w)"
    and "totp_enable mgr i k c t codes hashes w = (x, w1)"
  shows "ok (aw_store w1)" and "totp_evolves {} (if isl x then {} else {i}) (view (aw_store w)) (view (aw_store w1))"
    and "x = Inr v \<Longrightarrow> v = codes \<and> spec_Enable i c hashes t (view (aw_store w)) = (Inr (), view (aw_store w1))"
    and "tape w1 = tape w"
proof -
  obtain y w2 where o: "on_accounts (ts_Enable ts i c hashes t) w = (y, w2)" by fastforce
  have w1: "aw_store w1 = aw_store w2" "isl x = isl y" "tape w1 = tape w2" "\<not> isl x \<Longrightarrow> x = Inr codes"
    using assms(1,4) o
    by (auto simp: totp_enable_def bindM_def on_err_def ret_event_def split: sum.splits if_splits)
  have s: "fst (ts_Enable ts i c hashes t (aw_store w)) = y" "snd (ts_Enable ts i c hashes t (aw_store w)) = aw_store w2"
    "tape w2 = tape w" using o by (auto simp: on_accounts_def)
  note imp = Enable [OF assms(2), of i hashes t]
  show "ok (aw_store w1)" using implements_inv [OF imp assms(3)] s w1 by simp
  show "tape w1 = tape w" using s w1 by simp
  from imp assms(3) show "totp_evolves {} (if isl x then {} else {i}) (view (aw_store w)) (view (aw_store w1))"
    unfolding w1
  proof (cases rule: implements_cases)
    case spec
    then show "totp_evolves {} (if isl y then {} else {i}) (view (aw_store w)) (view (aw_store w2))"
      unfolding s using evolves_Enable by (simp add: fun_spec_def)
  qed (use s in auto)
  show "v = codes \<and> spec_Enable i c hashes t (view (aw_store w)) = (Inr (), view (aw_store w1))" if "x = Inr v"
  proof -
    have "\<not> isl y" using that w1(2) by simp
    then obtain u where "y = Inr u" by (cases y) auto
    then show ?thesis using implements_Inr [OF imp assms(3), of u] s w1 that by (simp add: fun_spec_def)
  qed
qed

lemma quiet_complete:
  assumes "implements view ok op (lossy_spec lossy f)" and "\<And>a x b. f a = (x, b) \<Longrightarrow> totp_evolves {} {} a b"
  shows "totp_quiet view ok (totp_complete mgr subject k event r op)"
proof -
  have q: "totp_quiet view ok (on_accounts op)"
    using assms(1) by (rule totp_quiet_op) (auto elim!: lossy_spec_cases intro: assms(2))
  have "aw_store (snd (totp_complete mgr subject k event r op w)) = aw_store (snd (on_accounts op w))" for w
    by (auto simp: totp_complete_def ret_event_def on_accounts_def split: prod.split sum.split)
  with q show ?thesis by (simp add: totp_quiet_def)
qed

lemma quiet_matched:
  assumes "\<And>c. matchCounter lib secret code t = Inr (c, True) \<Longrightarrow> totp_quiet view ok (g c)"
  shows "totp_quiet view ok (case matchCounter lib secret code t of
      Inl _ \<Rightarrow> retM (Inl e) | Inr (c, matched) \<Rightarrow> if \<not> matched \<or> p c then totp_fail mgr i k else g c)"
  using assms by (auto simp: totp_fail_def simp del: retM_simps split: sum.split)

lemma quiet_findChallenge:
  assumes "tm_store mgr = ts"
  shows "totp_quiet view ok (totp_findChallenge sha mgr raw)"
  unfolding totp_findChallenge_def assms
  by (auto simp: spec_FindChallenge_def simp del: retM_simps split: sum.split prod.split
      intro!: totp_quiet_op [OF FindChallenge])

lemma quiet_calls:
  assumes "tm_store mgr = ts"
  shows "totp_quiet view ok (totp_BeginEnrollment lib mgr i a)" and "totp_quiet view ok (totp_IsEnabled mgr i)"
    and "totp_quiet view ok (totp_Disable mgr i k)" and "totp_quiet view ok (totp_Verify lib sha mgr input)"
    and "totp_quiet view ok (totp_Recover sha mgr input)"
    and "totp_quiet view ok (totp_matchEnrollment lib mgr i code k)"
proof -
  have gen: "framed (\<lambda>w. (tl_Generate lib is ac (pos w), w\<lparr>pos := Suc (pos w)\<rparr>))" for "is" ac
    by (simp add: framed_def)
  show "totp_quiet view ok (totp_BeginEnrollment lib mgr i a)"
    unfolding totp_BeginEnrollment_def Let_def assms
    by (auto simp del: retM_simps split: prod.split
        intro!: totp_quiet_op [OF BeginEnrollment] evolves_BeginEnrollment totp_quiet_framed [OF gen])
  show "totp_quiet view ok (totp_IsEnabled mgr i)"
    unfolding totp_IsEnabled_def Let_def assms
    by (auto simp: fun_spec_def spec_IsEnabled_def simp del: retM_simps intro!: totp_quiet_op [OF IsEnabled])
  show "totp_quiet view ok (totp_Disable mgr i k)"
    unfolding totp_Disable_def Let_def assms
    by (auto simp: fun_spec_def simp del: retM_simps intro!: totp_quiet_op [OF Disable] evolves_Disable)
  show "totp_quiet view ok (totp_Verify lib sha mgr input)"
    unfolding totp_Verify_def assms
    by (auto simp del: retM_simps split: prod.split
        intro!: quiet_findChallenge [OF assms] quiet_matched
          quiet_complete [OF CompleteCode] evolves_code matchCounter_True)
  show "totp_quiet view ok (totp_Recover sha mgr input)"
    unfolding totp_Recover_def assms
    by (auto simp: totp_fail_def simp del: retM_simps split: prod.split sum.split
        intro!: quiet_findChallenge [OF assms]
          quiet_complete [OF CompleteRecovery] evolves_recovery)
  have me: "totp_quiet view ok (\<lambda>w. case on_accounts (ts_FindEnrollment ts i) w of
      (Inl e, w1) \<Rightarrow> if p e then totp_fail mgr i k w1 else (Inl (g e), w1) | (Inr v, w1) \<Rightarrow> h v w1)"
    if h: "\<And>v. framed (h v)" for p g and h :: "Enrollment \<Rightarrow> 's account_world \<Rightarrow> (err + counter \<times> time) \<times> 's account_world"
    unfolding totp_quiet_def
  proof (intro allI impI)
    fix w :: "'s account_world" assume w: "ok (aw_store w)"
    obtain y w2 where o: "on_accounts (ts_FindEnrollment ts i) w = (y, w2)" by fastforce
    have "totp_quiet view ok (on_accounts (ts_FindEnrollment ts i))"
      by (rule totp_quiet_op [OF FindEnrollment]) (simp add: spec_FindEnrollment_def)
    note q = totp_quietD [OF this w o]
    have "aw_store (snd (case y of Inl e \<Rightarrow> if p e then totp_fail mgr i k w2 else (Inl (g e), w2) | Inr v \<Rightarrow> h v w2)) =
        aw_store w2"
      using h by (simp add: totp_fail_def framed_def split: sum.split)
    with q show "ok (aw_store (snd (case on_accounts (ts_FindEnrollment ts i) w of
      (Inl e, w1) \<Rightarrow> if p e then totp_fail mgr i k w1 else (Inl (g e), w1) | (Inr v, w1) \<Rightarrow> h v w1))) \<and>
      totp_evolves {} {} (view (aw_store w)) (view (aw_store (snd (case on_accounts (ts_FindEnrollment ts i) w of
      (Inl e, w1) \<Rightarrow> if p e then totp_fail mgr i k w1 else (Inl (g e), w1) | (Inr v, w1) \<Rightarrow> h v w1))))"
      unfolding o by (cases y) simp_all
  qed
  show "totp_quiet view ok (totp_matchEnrollment lib mgr i code k)"
    unfolding totp_matchEnrollment_def assms
    by (auto simp: totp_fail_def [abs_def] simp del: retM_simps split: prod.split sum.split
        intro!: me framed_bindM)
qed

lemma matchEnrollment_Inr:
  assumes "tm_store mgr = ts" and "ok (aw_store w)"
    and "totp_matchEnrollment lib mgr i code k w = (Inr (c, t), w1)"
  obtains e secret n m where "enrollments (view (aw_store w)) i = Some e" "decrypt n (en_Secret e) = Inr secret"
    "\<not> blank secret" "t = clock w m" "t < en_ExpiresAt e" "matchCounter lib secret code t = Inr (c, True)"
    "view (aw_store w1) = view (aw_store w)" "ok (aw_store w1)" "tape w1 = tape w"
proof -
  let ?rest = "\<lambda>enrollment. bindM read_clock (\<lambda>now.
           if \<not> totp_validEnrollment enrollment i then retM (Inl (ETotp Totp_ErrInvalidRecord))
           else if \<not> now < en_ExpiresAt enrollment then totp_fail mgr i k
           else
           (case matchCounter lib (en_Secret enrollment) code now of
              Inl _ \<Rightarrow> retM (Inl (ETotp Totp_ErrInvalidRecord))
            | Inr (confirmedCounter, matched) \<Rightarrow>
                if \<not> matched then totp_fail mgr i k
                else retM (Inr (confirmedCounter, now))))"
  have ne: "i \<noteq> []" using assms(3) by (auto simp: totp_matchEnrollment_def)
  from assms(3) obtain u w0 where g: "totp_checkAttempt mgr ''confirm_enrollment'' i k w = (Inr u, w0)"
    and r: "(case on_accounts (ts_FindEnrollment ts i) w0 of
         (Inl e, w1) \<Rightarrow>
           if errors_is e (ETotp Totp_ErrNotFound) \<or> errors_is e (ETotp Totp_ErrInactiveEnrollment)
           then totp_fail mgr i k w1
           else (Inl (EWrap ''find TOTP enrollment'' e), w1)
       | (Inr enrollment, w1) \<Rightarrow> ?rest enrollment w1) = (Inr (c, t), w1)"
    unfolding totp_matchEnrollment_def assms(1) using ne by (auto elim: bindM_InrE)
  note g' = framedD [OF framed_totp_checkAttempt g]
  from r obtain e w2 where f: "on_accounts (ts_FindEnrollment ts i) w0 = (Inr e, w2)" and q: "?rest e w2 = (Inr (c, t), w1)"
    by (auto simp: totp_fail_def ret_event_def split: prod.splits sum.splits if_splits)
  have o0: "ok (aw_store w0)" using assms(2) g' by simp
  have rd: "\<forall>a x b. spec_FindEnrollment decrypt i a x b \<longrightarrow> b = a" by (simp add: spec_FindEnrollment_def)
  note R = reading_op [OF FindEnrollment rd o0 f]
  obtain d n s where d: "enrollments (view (aw_store w0)) i = Some d" "decrypt n (en_Secret d) = Inr s"
    "e = d\<lparr>en_Secret := s\<rparr>"
  proof -
    obtain d n where "enrollments (view (aw_store w0)) i = Some d"
      and x: "Inr e = (case decrypt n (en_Secret d) of Inl err \<Rightarrow> Inl err | Inr s \<Rightarrow> Inr (d\<lparr>en_Secret := s\<rparr>))"
      using R(1) by (auto simp: spec_FindEnrollment_def split: option.splits)
    then show thesis by (cases "decrypt n (en_Secret d)") (auto intro: that)
  qed
  have q': "totp_validEnrollment e i" "clock w2 (pos w2) < en_ExpiresAt e" "t = clock w2 (pos w2)"
    "matchCounter lib (en_Secret e) code t = Inr (c, True)" "w1 = w2\<lparr>pos := Suc (pos w2)\<rparr>"
    using q by (auto simp: totp_fail_def ret_event_def split: sum.splits if_splits)
  have "clock w2 = clock w" using R(4) g'(2) by (simp add: tape_def)
  then show thesis
    using d q' R g' by (intro that [of d n s "pos w2"]) (auto simp: totp_validEnrollment_def)
qed

lemma Confirm_Inr:
  assumes "tm_store mgr = ts" and "ok (aw_store w)" and "0 \<le> tm_recoveryCodeCount mgr"
    and "totp_ConfirmEnrollment lib sha mgr raw code k w = Some (Inr codes, w1)"
  obtains e secret n m t c where "enrollments (view (aw_store w)) (TrimSpace raw) = Some e"
    "decrypt n (en_Secret e) = Inr secret" "\<not> blank secret" "t = clock w m" "t < en_ExpiresAt e"
    "matchCounter lib secret code t = Inr (c, True)"
    "spec_Enable (TrimSpace raw) c (map sha codes) t (view (aw_store w)) = (Inr (), view (aw_store w1))"
    "ok (aw_store w1)" "tape w1 = tape w" "distinct (map sha codes)" "int (length codes) = tm_recoveryCodeCount mgr"
    "\<forall>x\<in>set codes. HashRecoveryCode sha x = Inr (sha x)"
proof -
  let ?i = "TrimSpace raw"
  obtain c t w2 cs hs w3 where m: "totp_matchEnrollment lib mgr ?i code k w = (Inr (c, t), w2)"
    and g: "generateRecoveryCodes sha (tm_recoveryCodeCount mgr) w2 = Some (Inr (cs, hs), w3)"
    and en: "totp_enable mgr ?i k c t cs hs w3 = (Inr codes, w1)"
    using assms(4) by (auto simp: totp_ConfirmEnrollment_def Let_def split: prod.splits sum.splits option.splits)
  note G = generateRecoveryCodes_Inr [OF g assms(3)]
  obtain p where w3: "w3 = w2\<lparr>pos := p\<rparr>" using G(1) by blast
  from assms(1,2) m show thesis
  proof (rule matchEnrollment_Inr)
    fix e secret n l
    assume M: "enrollments (view (aw_store w)) ?i = Some e" "decrypt n (en_Secret e) = Inr secret" "\<not> blank secret"
      "t = clock w l" "t < en_ExpiresAt e" "matchCounter lib secret code t = Inr (c, True)"
      "view (aw_store w2) = view (aw_store w)" "ok (aw_store w2)" "tape w2 = tape w"
    have "ok (aw_store w3)" using M(8) w3 by simp
    note E = enable_result [OF assms(1) matchCounter_True(4) [OF M(6)] this en]
    have "codes = cs" "spec_Enable ?i c hs t (view (aw_store w)) = (Inr (), view (aw_store w1))"
      using E(3) [of codes] w3 M(7) by simp_all
    then show thesis using M E(1,4) G w3 by (intro that) auto
  qed
qed

lemma Confirm_evolves:
  assumes "tm_store mgr = ts" and "ok (aw_store w)"
    and "totp_ConfirmEnrollment lib sha mgr raw code k w = Some (x, w1)"
  shows "ok (aw_store w1)"
    and "totp_evolves {} (if isl x then {} else {TrimSpace raw}) (view (aw_store w)) (view (aw_store w1))"
proof -
  let ?i = "TrimSpace raw"
  obtain y w2 where m: "totp_matchEnrollment lib mgr ?i code k w = (y, w2)" by fastforce
  note q = totp_quietD [OF quiet_calls(6) [OF assms(1)] assms(2) m]
  have "ok (aw_store w1) \<and> totp_evolves {} (if isl x then {} else {?i}) (view (aw_store w)) (view (aw_store w1))"
  proof (cases y)
    case (Inl e)
    then have "x = Inl e" "w1 = w2" using assms(3) m by (simp_all add: totp_ConfirmEnrollment_def Let_def)
    then show ?thesis using q by simp
  next
    case (Inr ct)
    obtain c t where ct: "ct = (c, t)" by fastforce
    obtain z w3 where g: "generateRecoveryCodes sha (tm_recoveryCodeCount mgr) w2 = Some (z, w3)"
      using assms(3) m Inr ct by (auto simp: totp_ConfirmEnrollment_def Let_def split: option.splits)
    obtain p where w3: "w3 = w2\<lparr>pos := p\<rparr>" using generateRecoveryCodes_frame [OF g] by blast
    show ?thesis
    proof (cases z)
      case (Inl e)
      then have "isl x" "w1 = w3" using assms(3) m Inr ct g by (auto simp: totp_ConfirmEnrollment_def Let_def)
      then show ?thesis using q w3 by simp
    next
      case z: (Inr chs)
      obtain cs hs where "chs = (cs, hs)" by fastforce
      then have en: "totp_enable mgr ?i k c t cs hs w3 = (x, w1)"
        using assms(3) m Inr ct g z by (simp add: totp_ConfirmEnrollment_def Let_def)
      from assms(1,2) m [unfolded Inr ct] have cok: "counter_ok c"
        by (rule matchEnrollment_Inr) (rule matchCounter_True(4))
      have "ok (aw_store w3)" using q(1) w3 by simp
      note E = enable_result [OF assms(1) cok this en]
      from totp_evolves_trans [OF q(2), of "{}" "if isl x then {} else {?i}"] E w3 show ?thesis by auto
    qed
  qed
  then show "ok (aw_store w1)"
    "totp_evolves {} (if isl x then {} else {?i}) (view (aw_store w)) (view (aw_store w1))" by blast+
qed

lemma challenge_loop_result:
  assumes "tm_store mgr = ts" and "ok (aw_store w)" and "totp_challenge_loop n sha mgr i w = (x, w1)"
  shows "ok (aw_store w1) \<and> tape w1 = tape w \<and>
    (case x of Inl e \<Rightarrow> view (aw_store w1) = view (aw_store w)
     | Inr c \<Rightarrow> \<exists>h t m. HashToken sha (cs_Token c) = Inr h \<and> t = clock w m \<and>
         cs_ExpiresAt c = t + tm_challengeLifetime mgr \<and> totp_challenges (view (aw_store w)) h = None \<and>
         view (aw_store w1) = (view (aw_store w))\<lparr>totp_challenges := (totp_challenges (view (aw_store w)))
           (h \<mapsto> \<lparr>tc_SubjectID = i, tc_TokenHash = h, tc_CreatedAt = t, tc_ExpiresAt = cs_ExpiresAt c\<rparr>)\<rparr>)"
  using assms(2,3)
proof (induction n arbitrary: w)
  case (Suc n)
  obtain y w2 where g: "Generate sha w = (y, w2)" by fastforce
  have w2: "w2 = w\<lparr>pos := Suc (pos w)\<rparr>" using Generate_snd [of sha w] g by simp
  show ?case
  proof (cases y)
    case (Inl e)
    then show ?thesis using Suc.prems g w2 by auto
  next
    case (Inr rh)
    obtain raw h where rh: "rh = (raw, h)" by fastforce
    have h: "HashToken sha raw = Inr h" using Generate_hash [of sha w raw h] g Inr rh by simp
    let ?t = "clock w2 (pos w2)"
    let ?ch = "\<lparr>tc_SubjectID = i, tc_TokenHash = h, tc_CreatedAt = ?t, tc_ExpiresAt = ?t + tm_challengeLifetime mgr\<rparr>"
    let ?w = "w2\<lparr>pos := Suc (pos w2)\<rparr>"
    obtain z w3 where o: "on_accounts (ts_CreateChallenge ts ?ch) ?w = (z, w3)" by fastforce
    have s: "fst (ts_CreateChallenge ts ?ch (aw_store w)) = z" "snd (ts_CreateChallenge ts ?ch (aw_store w)) = aw_store w3"
      "tape w3 = tape w" using o w2 by (auto simp: on_accounts_def)
    have ok3: "ok (aw_store w3)" using implements_inv [OF CreateChallenge [where ch = ?ch] Suc.prems(1)] s(2) by simp
    have run: "totp_challenge_loop (Suc n) sha mgr i w = (case z of
        Inl e \<Rightarrow> if errors_is e (ETotp Totp_ErrConflict) then totp_challenge_loop n sha mgr i w3
          else (Inl (EWrap ''store TOTP challenge'' e), w3)
      | Inr _ \<Rightarrow> (Inr \<lparr>cs_Token = raw, cs_ExpiresAt = ?t + tm_challengeLifetime mgr\<rparr>, w3))"
      using o g Inr rh assms(1) by (simp add: Let_def now_def split: sum.split)
    show ?thesis
    proof (cases z)
      case z: (Inl e)
      have v: "view (aw_store w3) = view (aw_store w)"
        using CreateChallenge [where ch = ?ch] Suc.prems(1)
        by (cases rule: implements_cases) (use s z in \<open>auto simp: spec_CreateTotpChallenge_def\<close>)
      show ?thesis
      proof (cases "errors_is e (ETotp Totp_ErrConflict)")
        case True
        then have "totp_challenge_loop n sha mgr i w3 = (x, w1)" using run Suc.prems(2) z by simp
        from Suc.IH [OF ok3 this] show ?thesis using v s(3) by (auto simp: tape_def split: sum.splits)
      next
        case False
        then show ?thesis using run Suc.prems(2) z v ok3 s(3) by auto
      qed
    next
      case z: (Inr u)
      have "spec_CreateTotpChallenge ?ch (view (aw_store w)) (Inr u) (view (aw_store w3))"
        using implements_Inr [OF CreateChallenge [where ch = ?ch] Suc.prems(1)] s z by simp
      then show ?thesis
        using run Suc.prems(2) z ok3 s(3) h w2
        by (auto simp: spec_CreateTotpChallenge_def intro!: exI [of _ h] exI [of _ "Suc (pos w)"])
    qed
  qed
qed auto

lemma BeginChallenge_result:
  assumes "tm_store mgr = ts" and "ok (aw_store w)" and "totp_BeginChallenge sha mgr raw w = (x, w1)"
  shows "ok (aw_store w1)" and "tape w1 = tape w"
    and "totp_evolves {h. \<exists>c. x = Inr c \<and> HashToken sha (cs_Token c) = Inr h} {} (view (aw_store w)) (view (aw_store w1))"
    and "x = Inr c \<Longrightarrow> \<exists>h t m. HashToken sha (cs_Token c) = Inr h \<and> t = clock w m \<and>
         cs_ExpiresAt c = t + tm_challengeLifetime mgr \<and> TrimSpace raw \<noteq> [] \<and>
         view (aw_store w1) = (view (aw_store w))\<lparr>totp_challenges := (totp_challenges (view (aw_store w)))
           (h \<mapsto> \<lparr>tc_SubjectID = TrimSpace raw, tc_TokenHash = h, tc_CreatedAt = t, tc_ExpiresAt = cs_ExpiresAt c\<rparr>)\<rparr>"
proof -
  have "ok (aw_store w1) \<and> tape w1 = tape w \<and>
    totp_evolves {h. \<exists>c. x = Inr c \<and> HashToken sha (cs_Token c) = Inr h} {} (view (aw_store w)) (view (aw_store w1)) \<and>
    (\<forall>c. x = Inr c \<longrightarrow> (\<exists>h t m. HashToken sha (cs_Token c) = Inr h \<and> t = clock w m \<and>
         cs_ExpiresAt c = t + tm_challengeLifetime mgr \<and> TrimSpace raw \<noteq> [] \<and>
         view (aw_store w1) = (view (aw_store w))\<lparr>totp_challenges := (totp_challenges (view (aw_store w)))
           (h \<mapsto> \<lparr>tc_SubjectID = TrimSpace raw, tc_TokenHash = h, tc_CreatedAt = t, tc_ExpiresAt = cs_ExpiresAt c\<rparr>)\<rparr>))"
  proof (cases "TrimSpace raw = []")
    case True
    then show ?thesis using assms(2,3) by (auto simp: totp_BeginChallenge_def Let_def)
  next
    case False
    then have "totp_challenge_loop challengeAttempts sha mgr (TrimSpace raw) w = (x, w1)"
      using assms(3) by (simp add: totp_BeginChallenge_def Let_def)
    from challenge_loop_result [OF assms(1,2) this] False show ?thesis
      by (cases x) (auto simp: totp_evolves_def split: if_splits)
  qed
  then show "ok (aw_store w1)" and "tape w1 = tape w"
    and "totp_evolves {h. \<exists>c. x = Inr c \<and> HashToken sha (cs_Token c) = Inr h} {} (view (aw_store w)) (view (aw_store w1))"
    and "x = Inr c \<Longrightarrow> \<exists>h t m. HashToken sha (cs_Token c) = Inr h \<and> t = clock w m \<and>
         cs_ExpiresAt c = t + tm_challengeLifetime mgr \<and> TrimSpace raw \<noteq> [] \<and>
         view (aw_store w1) = (view (aw_store w))\<lparr>totp_challenges := (totp_challenges (view (aw_store w)))
           (h \<mapsto> \<lparr>tc_SubjectID = TrimSpace raw, tc_TokenHash = h, tc_CreatedAt = t, tc_ExpiresAt = cs_ExpiresAt c\<rparr>)\<rparr>"
    by blast+
qed

end

section \<open>Runs\<close>

text \<open>
  The states that calls reach from \<open>w\<close>, with the hashes \<open>H\<close> of the challenges that were started and the
  subjects \<open>I\<close> that were enrolled on the way. Between two calls the rest of the world may change.
\<close>

inductive totp_run ::
  "totp_library \<Rightarrow> (string \<Rightarrow> hash) \<Rightarrow> 's TotpManager \<Rightarrow> 's account_world \<Rightarrow> hash set \<Rightarrow> string set \<Rightarrow>
     's account_world \<Rightarrow> bool"
  for lib sha mgr w where
  totp_run_stop: "totp_run lib sha mgr w {} {} w"
| totp_run_world: "totp_run lib sha mgr w H I v \<Longrightarrow> aw_store v' = aw_store v \<Longrightarrow> totp_run lib sha mgr w H I v'"
| totp_run_BeginEnrollment: "totp_run lib sha mgr w H I v \<Longrightarrow>
    totp_run lib sha mgr w H I (snd (totp_BeginEnrollment lib mgr i a v))"
| totp_run_IsEnabled: "totp_run lib sha mgr w H I v \<Longrightarrow> totp_run lib sha mgr w H I (snd (totp_IsEnabled mgr i v))"
| totp_run_Confirm: "totp_run lib sha mgr w H I v \<Longrightarrow>
    totp_ConfirmEnrollment lib sha mgr i code k v = Some (x, v') \<Longrightarrow>
    totp_run lib sha mgr w H (I \<union> (if isl x then {} else {TrimSpace i})) v'"
| totp_run_BeginChallenge: "totp_run lib sha mgr w H I v \<Longrightarrow> totp_BeginChallenge sha mgr i v = (x, v') \<Longrightarrow>
    totp_run lib sha mgr w (H \<union> {h. \<exists>c. x = Inr c \<and> HashToken sha (cs_Token c) = Inr h}) I v'"
| totp_run_Verify: "totp_run lib sha mgr w H I v \<Longrightarrow> totp_run lib sha mgr w H I (snd (totp_Verify lib sha mgr input v))"
| totp_run_Recover: "totp_run lib sha mgr w H I v \<Longrightarrow> totp_run lib sha mgr w H I (snd (totp_Recover sha mgr input v))"
| totp_run_Disable: "totp_run lib sha mgr w H I v \<Longrightarrow> totp_run lib sha mgr w H I (snd (totp_Disable mgr i k v))"

lemma quiet_step:
  assumes "totp_quiet view ok m"
    and "ok (aw_store v) \<and> totp_evolves H I (view (aw_store w)) (view (aw_store v))"
  shows "ok (aw_store (snd (m v))) \<and> totp_evolves H I (view (aw_store w)) (view (aw_store (snd (m v))))"
proof -
  have "ok (aw_store (snd (m v)))" "totp_evolves {} {} (view (aw_store v)) (view (aw_store (snd (m v))))"
    using assms by (simp_all add: totp_quiet_def)
  with totp_evolves_trans [OF conjunct2 [OF assms(2)] this(2)] show ?thesis by simp
qed

context totp_store
begin

lemma totp_run_evolves:
  assumes "totp_run lib sha mgr w H I v" and "tm_store mgr = ts" and "ok (aw_store w)"
  shows "ok (aw_store v) \<and> totp_evolves H I (view (aw_store w)) (view (aw_store v))"
  using assms(1)
proof (induction rule: totp_run.induct)
  case totp_run_stop
  then show ?case using assms(3) by simp
next
  case (totp_run_Confirm H I v i code k x v')
  note IH = conjunct1 [OF totp_run_Confirm.IH] conjunct2 [OF totp_run_Confirm.IH]
  note C = Confirm_evolves [OF assms(2) IH(1) totp_run_Confirm.hyps(2)]
  from totp_evolves_trans [OF IH(2) C(2)] C(1) show ?case by simp
next
  case (totp_run_BeginChallenge H I v i x v')
  note IH = conjunct1 [OF totp_run_BeginChallenge.IH] conjunct2 [OF totp_run_BeginChallenge.IH]
  note C = BeginChallenge_result [OF assms(2) IH(1) totp_run_BeginChallenge.hyps(2)]
  from totp_evolves_trans [OF IH(2) C(3)] C(1) show ?case by simp
next
  case (totp_run_world H I v v')
  then show ?case by simp
next
  case (totp_run_BeginEnrollment H I v i a)
  then show ?case by (intro quiet_step quiet_calls(1) assms(2)) auto
next
  case (totp_run_IsEnabled H I v i)
  then show ?case by (intro quiet_step quiet_calls(2) assms(2)) auto
next
  case (totp_run_Verify H I v input)
  then show ?case by (intro quiet_step quiet_calls(4) assms(2)) auto
next
  case (totp_run_Recover H I v input)
  then show ?case by (intro quiet_step quiet_calls(5) assms(2)) auto
next
  case (totp_run_Disable H I v i k)
  then show ?case by (intro quiet_step quiet_calls(3) assms(2)) auto
qed

end

end
