(* ===== verification/TotpTables.thy ===== *)
theory TotpTables
  imports TotpStore AccountTables
begin

text \<open>
  The tables (collections) of the second factor in the SQL and MongoDB adapters: the statements on them and
  the abstract state that they represent. A consumed challenge and a used recovery code keep their row.
\<close>

record totpCredentialDocument =
  cr_SubjectID :: string
  cr_Secret :: string
  cr_EnabledAt :: time
  cr_LastUsedCounter :: "counter option"
  cr_DisabledAt :: "time option"

record totpChallengeDocument = TotpChallenge +
  tc_ConsumedAt :: "time option"

record recoveryCodeRow =
  rc_SubjectID :: string
  rc_CodeHash :: hash
  rc_UsedAt :: "time option"

record totp_tables =
  t_enrollments :: "Enrollment list"
  t_credentials :: "totpCredentialDocument list"
  t_recovery :: "recoveryCodeRow list"
  t_totp_challenges :: "totpChallengeDocument list"

type_synonym totp_conn = "totp_tables conn"

definition totp_tables_ok :: "totp_tables \<Rightarrow> bool" where
  "totp_tables_ok d \<longleftrightarrow>
     distinct (map en_SubjectID (t_enrollments d)) \<and> distinct (map cr_SubjectID (t_credentials d)) \<and>
     distinct (map (\<lambda>r. (rc_SubjectID r, rc_CodeHash r)) (t_recovery d)) \<and>
     distinct (map tc_TokenHash (t_totp_challenges d)) \<and>
     (\<forall>r \<in> set (t_credentials d). case cr_LastUsedCounter r of None \<Rightarrow> True | Some c \<Rightarrow> counter_ok c)"

definition stored_credential :: "totpCredentialDocument \<Rightarrow> storedTOTPCredential" where
  "stored_credential r =
     \<lparr>cd_SubjectID = cr_SubjectID r, cd_Secret = cr_Secret r, cd_EnabledAt = cr_EnabledAt r,
      cd_LastUsedCounter = (case cr_LastUsedCounter r of None \<Rightarrow> 0 | Some c \<Rightarrow> c),
      cd_HasLastUsedCounter = (cr_LastUsedCounter r \<noteq> None), cd_DisabledAt = cr_DisabledAt r\<rparr>"

definition live_challenge :: "totpChallengeDocument \<Rightarrow> TotpChallenge option" where
  "live_challenge r = (if tc_ConsumedAt r = None then Some (TotpChallenge.truncate r) else None)"

definition totp_tables_view :: "totp_tables \<Rightarrow> totp_db" where
  "totp_tables_view d =
     \<lparr>enrollments = keyed en_SubjectID (t_enrollments d),
      totp_credentials = index cr_SubjectID stored_credential (t_credentials d),
      totp_challenges = (\<lambda>h. Option.bind (keyed tc_TokenHash (t_totp_challenges d) h) live_challenge),
      unused_codes = (\<lambda>r. (rc_SubjectID r, rc_CodeHash r)) ` {r \<in> set (t_recovery d). rc_UsedAt r = None}\<rparr>"

definition totp_view :: "totp_conn \<Rightarrow> totp_db" where
  "totp_view c = totp_tables_view (tables c)"

definition totp_conn_ok :: "totp_conn \<Rightarrow> bool" where
  "totp_conn_ok c \<longleftrightarrow> totp_tables_ok (tables c)"

section \<open>Statements\<close>

text \<open>\<^verbatim>\<open>INSERT ... ON CONFLICT (subject_id) DO UPDATE\<close>, and the equivalents of MySQL and MongoDB.\<close>

definition upsert :: "('r \<Rightarrow> 'k) \<Rightarrow> ('r \<Rightarrow> 'r) \<Rightarrow> 'r \<Rightarrow> 'r list \<Rightarrow> 'r list" where
  "upsert k f r t = (if list_ex (\<lambda>x. k x = k r) t then map (\<lambda>x. if k x = k r then f x else x) t else t @ [r])"

definition upsert_enrollment :: "Enrollment \<Rightarrow> totp_tables \<Rightarrow> (err + unit) \<times> totp_tables" where
  "upsert_enrollment e d =
     (Inr (), d\<lparr>t_enrollments := upsert en_SubjectID
        (\<lambda>x. x\<lparr>en_Secret := en_Secret e, en_CreatedAt := en_CreatedAt e, en_ExpiresAt := en_ExpiresAt e\<rparr>) e
        (t_enrollments d)\<rparr>)"

definition upsert_credential :: "totpCredentialDocument \<Rightarrow> totp_tables \<Rightarrow> (err + unit) \<times> totp_tables" where
  "upsert_credential r d =
     (Inr (), d\<lparr>t_credentials := upsert cr_SubjectID
        (\<lambda>x. x\<lparr>cr_Secret := cr_Secret r, cr_EnabledAt := cr_EnabledAt r, cr_LastUsedCounter := cr_LastUsedCounter r,
           cr_DisabledAt := None\<rparr>) r (t_credentials d)\<rparr>)"

definition delete_codes :: "string \<Rightarrow> totp_tables \<Rightarrow> (err + unit) \<times> totp_tables" where
  "delete_codes i d = (Inr (), d\<lparr>t_recovery := snd (sql_delete (\<lambda>r. rc_SubjectID r = i) (t_recovery d))\<rparr>)"

text \<open>The recovery codes reference their credential.\<close>

definition insert_code :: "string \<Rightarrow> hash \<Rightarrow> totp_tables \<Rightarrow> (err + unit) \<times> totp_tables" where
  "insert_code i h d =
     (case sql_insert (\<lambda>x y. rc_SubjectID x = rc_SubjectID y \<and> rc_CodeHash x = rc_CodeHash y)
             \<lparr>rc_SubjectID = i, rc_CodeHash = h, rc_UsedAt = None\<rparr> (t_recovery d) of
        (Inl e, _) \<Rightarrow> (Inl e, d)
      | (Inr _, t) \<Rightarrow> if list_ex (\<lambda>r. cr_SubjectID r = i) (t_credentials d) then (Inr (), d\<lparr>t_recovery := t\<rparr>)
                     else (Inl foreign_key_error, d))"

definition insert_totp_challenge :: "TotpChallenge \<Rightarrow> totp_tables \<Rightarrow> (err + unit) \<times> totp_tables" where
  "insert_totp_challenge c d =
     (case sql_insert (\<lambda>x y. tc_TokenHash x = tc_TokenHash y)
             (TotpChallenge.extend c \<lparr>tc_ConsumedAt = None\<rparr>) (t_totp_challenges d) of
        (r, t) \<Rightarrow> (r, d\<lparr>t_totp_challenges := t\<rparr>))"

section \<open>Readings of the codec between statements\<close>

lemma robust_codec_then:
  assumes "\<And>s. robust (k s)"
  shows "robust (bindM (\<lambda>c. (g (stmt_pos c), c)) k)"
  unfolding robust_def
proof (intro allI)
  fix c
  show "found_rows (snd (bindM (\<lambda>c. (g (stmt_pos c), c)) k c)) = found_rows c \<and>
      fault (snd (bindM (\<lambda>c. (g (stmt_pos c), c)) k c)) = fault c \<and>
      (fst (bindM (\<lambda>c. (g (stmt_pos c), c)) k c) = Inl connection_error \<and>
         tables (snd (bindM (\<lambda>c. (g (stmt_pos c), c)) k c)) = tables c \<or>
       bindM (\<lambda>c. (g (stmt_pos c), c)) k c = (fst (bindM (\<lambda>c. (g (stmt_pos c), c)) k (quiet c)),
         (snd (bindM (\<lambda>c. (g (stmt_pos c), c)) k (quiet c)))\<lparr>fault := fault c\<rparr>))"
  proof (cases "g (stmt_pos c)")
    case (Inl e)
    then show ?thesis by (simp add: bindM_eq quiet_def)
  next
    case (Inr s)
    then show ?thesis using assms [of s, unfolded robust_def, rule_format, of c] by (simp add: bindM_eq quiet_def)
  qed
qed

lemma robust_then_codec:
  assumes m: "robust m"
  shows "robust (bindM m (\<lambda>v c. (g v (stmt_pos c), c)))"
  unfolding robust_def
proof (intro allI)
  fix c
  let ?op = "bindM m (\<lambda>v c. (g v (stmt_pos c), c))"
  have r: "found_rows (snd (m c)) = found_rows c" "fault (snd (m c)) = fault c"
    "fst (m c) = Inl connection_error \<and> tables (snd (m c)) = tables c \<or>
      m c = (fst (m (quiet c)), (snd (m (quiet c)))\<lparr>fault := fault c\<rparr>)"
    using m by (simp_all add: robust_def)
  from r(3) show "found_rows (snd (?op c)) = found_rows c \<and> fault (snd (?op c)) = fault c \<and>
      (fst (?op c) = Inl connection_error \<and> tables (snd (?op c)) = tables c \<or>
       ?op c = (fst (?op (quiet c)), (snd (?op (quiet c)))\<lparr>fault := fault c\<rparr>))"
    by (elim disjE) (use r(1,2) in \<open>simp_all add: bindM_eq split: sum.split\<close>)
qed

section \<open>The tables as the maps of the contract\<close>

lemma totp_view_simps [simp]:
  "enrollments (totp_tables_view d) = keyed en_SubjectID (t_enrollments d)"
  "totp_credentials (totp_tables_view d) = index cr_SubjectID stored_credential (t_credentials d)"
  "totp_challenges (totp_tables_view d) h = Option.bind (keyed tc_TokenHash (t_totp_challenges d) h) live_challenge"
  by (simp_all add: totp_tables_view_def)

lemma unused_codes_iff:
  "(i, h) \<in> unused_codes (totp_tables_view d) \<longleftrightarrow>
     (\<exists>r\<in>set (t_recovery d). rc_SubjectID r = i \<and> rc_CodeHash r = h \<and> rc_UsedAt r = None)"
  by (auto simp: totp_tables_view_def)

lemma unused_codes_eqI:
  assumes "\<And>i h. (\<exists>r\<in>set (t_recovery d). rc_SubjectID r = i \<and> rc_CodeHash r = h \<and> rc_UsedAt r = None) \<longleftrightarrow> (i, h) \<in> X"
  shows "unused_codes (totp_tables_view d) = X"
  using assms unfolding unused_codes_iff [symmetric] by auto

lemma totp_tables_okD:
  assumes "totp_tables_ok d"
  shows "distinct (map en_SubjectID (t_enrollments d))" and "distinct (map cr_SubjectID (t_credentials d))"
    and "distinct (map (\<lambda>r. (rc_SubjectID r, rc_CodeHash r)) (t_recovery d))"
    and "distinct (map tc_TokenHash (t_totp_challenges d))"
    and "r \<in> set (t_credentials d) \<Longrightarrow> cr_LastUsedCounter r = Some c \<Longrightarrow> counter_ok c"
  using assms by (auto simp: totp_tables_ok_def split: option.splits dest!: bspec)

lemma totp_view_eqI:
  assumes "enrollments a = enrollments b" and "totp_credentials a = totp_credentials b"
    and "totp_challenges a = totp_challenges b" and "unused_codes a = unused_codes b"
  shows "a = (b :: totp_db)"
  using assms by simp

lemma totp_tables_view_ok: "totp_tables_ok d \<Longrightarrow> totp_ok (totp_tables_view d)"
  by (auto simp: totp_ok_def index_def stored_credential_def live_challenge_def TotpChallenge.truncate_def
      dest: keyed_key split: if_splits bind_splits)

lemma totp_conn_view_ok: "totp_conn_ok c \<Longrightarrow> totp_ok (totp_view c)"
  by (simp add: totp_conn_ok_def totp_view_def totp_tables_view_ok)

lemma keyed_upsert:
  assumes "distinct (map k t)" and "\<And>x. x \<in> set t \<Longrightarrow> k x = k r \<Longrightarrow> f x = r"
  shows "keyed k (upsert k f r t) = (keyed k t)(k r \<mapsto> r)" and "distinct (map k (upsert k f r t))"
proof -
  have "keyed k (upsert k f r t) = (keyed k t)(k r \<mapsto> r) \<and> distinct (map k (upsert k f r t))"
  proof (cases "list_ex (\<lambda>x. k x = k r) t")
    case True
    have k: "k (if k x = k r then f x else x) = k x" if "x \<in> set t" for x using assms(2) that by auto
    have "keyed k (map (\<lambda>x. if k x = k r then f x else x) t) = (keyed k t)(k r \<mapsto> r)"
    proof
      fix h
      have "keyed k (map (\<lambda>x. if k x = k r then f x else x) t) h =
          map_option (\<lambda>x. if k x = k r then f x else x) (keyed k t h)"
        by (rule keyed_map) (rule k)
      moreover obtain a where a: "keyed k t (k r) = Some a" using True by (auto simp: list_ex_keyed)
      moreover have "a \<in> set t" "k a = k r" using a assms(1) by (simp_all add: keyed_Some)
      then have "f a = r" "k a = k r" using assms(2) by auto
      ultimately show "keyed k (map (\<lambda>x. if k x = k r then f x else x) t) h = ((keyed k t)(k r \<mapsto> r)) h"
        by (cases "h = k r"; cases "keyed k t h") (auto dest: keyed_key)
    qed
    moreover have "map k (map (\<lambda>x. if k x = k r then f x else x) t) = map k t" using k by simp
    ultimately show ?thesis using assms(1) True by (simp add: upsert_def del: map_map)
  next
    case False
    then have n: "\<forall>q\<in>set t. k q \<noteq> k r" by (auto simp: list_ex_iff)
    then have "k r \<notin> k ` set t" by auto
    with False n show ?thesis using assms(1) by (simp add: upsert_def keyed_append)
  qed
  then show "keyed k (upsert k f r t) = (keyed k t)(k r \<mapsto> r)" and "distinct (map k (upsert k f r t))" by simp_all
qed

lemma set_upsert: "x \<in> set (upsert k f r t) \<Longrightarrow> x = r \<or> x \<in> set t \<or> (\<exists>y\<in>set t. k y = k r \<and> x = f y)"
  by (auto simp: upsert_def split: if_splits)

lemma upsert_enrollment_eq:
  assumes "totp_tables_ok d"
  shows "totp_tables_ok (snd (upsert_enrollment e d))"
    and "totp_tables_view (snd (upsert_enrollment e d)) =
      (totp_tables_view d)\<lparr>enrollments := (enrollments (totp_tables_view d))(en_SubjectID e \<mapsto> e)\<rparr>"
proof -
  let ?f = "\<lambda>x. x\<lparr>en_Secret := en_Secret e, en_CreatedAt := en_CreatedAt e, en_ExpiresAt := en_ExpiresAt e\<rparr>"
  note k = keyed_upsert [where k = en_SubjectID and f = ?f and r = e and t = "t_enrollments d",
      OF totp_tables_okD(1) [OF assms]]
  show "totp_tables_ok (snd (upsert_enrollment e d))"
    using assms k(2) by (simp add: upsert_enrollment_def totp_tables_ok_def)
  show "totp_tables_view (snd (upsert_enrollment e d)) =
      (totp_tables_view d)\<lparr>enrollments := (enrollments (totp_tables_view d))(en_SubjectID e \<mapsto> e)\<rparr>"
    using k(1) by (simp add: upsert_enrollment_def totp_tables_view_def)
qed

lemma index_upsert:
  assumes "keyed k t' = (keyed k t)(i \<mapsto> r)" shows "index k f t' = (index k f t)(i \<mapsto> f r)"
  using assms by (auto simp: index_def)

lemma upsert_credential_eq:
  assumes "totp_tables_ok d" and "cr_DisabledAt r = None" and "cr_LastUsedCounter r = Some c" and "counter_ok c"
  shows "totp_tables_ok (snd (upsert_credential r d))"
    and "totp_tables_view (snd (upsert_credential r d)) = (totp_tables_view d)
      \<lparr>totp_credentials := (totp_credentials (totp_tables_view d))(cr_SubjectID r \<mapsto> stored_credential r)\<rparr>"
    and "keyed cr_SubjectID (t_credentials (snd (upsert_credential r d))) (cr_SubjectID r) = Some r"
    and "t_recovery (snd (upsert_credential r d)) = t_recovery d"
    and "t_enrollments (snd (upsert_credential r d)) = t_enrollments d"
proof -
  let ?f = "\<lambda>x. x\<lparr>cr_Secret := cr_Secret r, cr_EnabledAt := cr_EnabledAt r, cr_LastUsedCounter := cr_LastUsedCounter r,
           cr_DisabledAt := None\<rparr>"
  have f: "?f x = r" if "cr_SubjectID x = cr_SubjectID r" for x using that assms(2) by simp
  note k = keyed_upsert [where k = cr_SubjectID and f = ?f and r = r and t = "t_credentials d",
      OF totp_tables_okD(2) [OF assms(1)] f]
  have "case cr_LastUsedCounter x of None \<Rightarrow> True | Some c \<Rightarrow> counter_ok c"
    if "x \<in> set (upsert cr_SubjectID ?f r (t_credentials d))" for x
    using set_upsert [OF that] f assms totp_tables_okD(5) [OF assms(1)] by (auto split: option.split)
  then show "totp_tables_ok (snd (upsert_credential r d))"
    using assms(1) k(2) by (simp add: upsert_credential_def totp_tables_ok_def)
  show "totp_tables_view (snd (upsert_credential r d)) = (totp_tables_view d)
      \<lparr>totp_credentials := (totp_credentials (totp_tables_view d))(cr_SubjectID r \<mapsto> stored_credential r)\<rparr>"
    using index_upsert [OF k(1)] by (simp add: upsert_credential_def totp_tables_view_def)
  show "keyed cr_SubjectID (t_credentials (snd (upsert_credential r d))) (cr_SubjectID r) = Some r"
    using k(1) by (simp add: upsert_credential_def)
qed (simp_all add: upsert_credential_def)

lemma fst_totp_statements [simp]:
  "fst (upsert_enrollment e d) = Inr ()" "fst (upsert_credential r d) = Inr ()" "fst (delete_codes i d) = Inr ()"
  by (simp_all add: upsert_enrollment_def upsert_credential_def delete_codes_def)

lemma delete_codes_eq:
  assumes "totp_tables_ok d"
  shows "totp_tables_ok (snd (delete_codes i d))"
    and "totp_tables_view (snd (delete_codes i d)) =
      (totp_tables_view d)\<lparr>unused_codes := {p \<in> unused_codes (totp_tables_view d). fst p \<noteq> i}\<rparr>"
  using assms
  by (auto simp: delete_codes_def sql_delete_def totp_tables_ok_def totp_tables_view_def distinct_map_filter)

lemma totp_implements:
  assumes "robust op"
    and "\<And>c :: totp_conn. fault c = (\<lambda>_. False) \<Longrightarrow> totp_tables_ok (tables c) \<Longrightarrow>
      totp_tables_ok (tables (snd (op c))) \<and>
      ((\<exists>e. is_driver e \<and> fst (op c) = Inl e) \<and>
         totp_tables_view (tables (snd (op c))) = totp_tables_view (tables c) \<or>
       spec (totp_tables_view (tables c)) (fst (op c)) (totp_tables_view (tables (snd (op c)))))"
  shows "implements totp_view totp_conn_ok op spec"
proof (rule implements_weaken)
  show "implements totp_view totp_conn_ok op
      (\<lambda>a r b. (\<exists>e. is_driver e \<and> r = Inl e) \<and> b = a \<or> spec a r b)"
    using implements_robust [OF assms(1), where okt = "\<lambda>_ d. totp_tables_ok d" and vw = totp_tables_view and
        spec = "\<lambda>a r b. (\<exists>e. is_driver e \<and> r = Inl e) \<and> b = a \<or> spec a r b"] assms(2)
    by (simp add: totp_view_def [abs_def] totp_conn_ok_def [abs_def])
qed

text \<open>Consuming a challenge.\<close>

abbreviation consumable :: "hash \<Rightarrow> time \<Rightarrow> totpChallengeDocument \<Rightarrow> bool" where
  "consumable h t c \<equiv> tc_TokenHash c = h \<and> tc_ConsumedAt c = None \<and> t < tc_ExpiresAt c"

lemma live_challenge_cases:
  assumes "totp_tables_ok d"
  shows "filter (consumable h t) (t_totp_challenges d) = [] \<and>
      (case totp_challenges (totp_tables_view d) h of None \<Rightarrow> True | Some ch \<Rightarrow> \<not> t < tc_ExpiresAt ch) \<or>
    (\<exists>r. filter (consumable h t) (t_totp_challenges d) = [r] \<and> keyed tc_TokenHash (t_totp_challenges d) h = Some r \<and>
       tc_ConsumedAt r = None \<and> t < tc_ExpiresAt r \<and>
       totp_challenges (totp_tables_view d) h = Some (TotpChallenge.truncate r))"
  using totp_tables_okD(4) [OF assms]
  by (cases "keyed tc_TokenHash (t_totp_challenges d) h")
    (auto simp: filter_keyed live_challenge_def TotpChallenge.truncate_def split: if_splits)

lemma consume_challenge_eq:
  assumes "totp_tables_ok d" and "keyed tc_TokenHash (t_totp_challenges d) h = Some r"
    and "p r" and "\<And>c. p c \<Longrightarrow> q c"
  shows "totp_tables_ok (d\<lparr>t_totp_challenges := map (\<lambda>c. if tc_TokenHash c = h \<and> q c
        then c\<lparr>tc_ConsumedAt := Some t\<rparr> else c) (t_totp_challenges d)\<rparr>)"
    and "totp_tables_view (d\<lparr>t_totp_challenges := map (\<lambda>c. if tc_TokenHash c = h \<and> q c
        then c\<lparr>tc_ConsumedAt := Some t\<rparr> else c) (t_totp_challenges d)\<rparr>) =
      (totp_tables_view d)\<lparr>totp_challenges := (totp_challenges (totp_tables_view d))(h := None)\<rparr>"
proof -
  have "map tc_TokenHash (map (\<lambda>c. if tc_TokenHash c = h \<and> q c then c\<lparr>tc_ConsumedAt := Some t\<rparr> else c)
      (t_totp_challenges d)) = map tc_TokenHash (t_totp_challenges d)" by simp
  then show "totp_tables_ok (d\<lparr>t_totp_challenges := map (\<lambda>c. if tc_TokenHash c = h \<and> q c
        then c\<lparr>tc_ConsumedAt := Some t\<rparr> else c) (t_totp_challenges d)\<rparr>)"
    using assms(1) by (simp add: totp_tables_ok_def del: map_map)
  show "totp_tables_view (d\<lparr>t_totp_challenges := map (\<lambda>c. if tc_TokenHash c = h \<and> q c
        then c\<lparr>tc_ConsumedAt := Some t\<rparr> else c) (t_totp_challenges d)\<rparr>) =
      (totp_tables_view d)\<lparr>totp_challenges := (totp_challenges (totp_tables_view d))(h := None)\<rparr>"
    using keyed_update_one [OF totp_tables_okD(4) [OF assms(1)], of "\<lambda>c. c\<lparr>tc_ConsumedAt := Some t\<rparr>" h q] assms
    by (intro totp_view_eqI) (auto simp: totp_tables_view_def fun_eq_iff live_challenge_def)
qed

lemma update_credential_eq:
  fixes i :: string
  assumes "totp_tables_ok d" and "\<And>r. cr_SubjectID (f r) = cr_SubjectID r"
    and "\<And>r c. p r \<Longrightarrow> cr_LastUsedCounter (f r) = Some c \<Longrightarrow> cr_LastUsedCounter r = Some c \<or> counter_ok c"
  defines "d' \<equiv> d\<lparr>t_credentials := map (\<lambda>r. if cr_SubjectID r = i \<and> p r then f r else r) (t_credentials d)\<rparr>"
  shows "totp_tables_ok d'"
    and "totp_tables_view d' =
      (case keyed cr_SubjectID (t_credentials d) i of None \<Rightarrow> totp_tables_view d
       | Some r \<Rightarrow> if p r then (totp_tables_view d)
             \<lparr>totp_credentials := (totp_credentials (totp_tables_view d))(i \<mapsto> stored_credential (f r))\<rparr>
           else totp_tables_view d)"
proof -
  have "map cr_SubjectID (map (\<lambda>r. if cr_SubjectID r = i \<and> p r then f r else r) (t_credentials d)) =
      map cr_SubjectID (t_credentials d)" using assms(2) by simp
  moreover have "case cr_LastUsedCounter x of None \<Rightarrow> True | Some c \<Rightarrow> counter_ok c"
    if "x \<in> set (map (\<lambda>r. if cr_SubjectID r = i \<and> p r then f r else r) (t_credentials d))" for x
    using that assms(3) totp_tables_okD(5) [OF assms(1)]
    by (auto split: option.split if_splits)
  ultimately show "totp_tables_ok d'"
    using assms(1) unfolding d'_def by (simp add: totp_tables_ok_def del: map_map set_map)
  show "totp_tables_view d' =
      (case keyed cr_SubjectID (t_credentials d) i of None \<Rightarrow> totp_tables_view d
       | Some r \<Rightarrow> if p r then (totp_tables_view d)
             \<lparr>totp_credentials := (totp_credentials (totp_tables_view d))(i \<mapsto> stored_credential (f r))\<rparr>
           else totp_tables_view d)"
    using keyed_update_one [OF totp_tables_okD(2) [OF assms(1)] assms(2), where h = i and p = p]
    unfolding d'_def
    by (auto simp: totp_tables_view_def index_def fun_eq_iff split: option.split)
qed

lemma use_code_eq:
  fixes i :: string and code :: hash and t :: time
  assumes "totp_tables_ok d"
  defines "d' \<equiv> d\<lparr>t_recovery := map (\<lambda>r. if rc_SubjectID r = i \<and> rc_CodeHash r = code \<and> rc_UsedAt r = None
      then r\<lparr>rc_UsedAt := Some t\<rparr> else r) (t_recovery d)\<rparr>"
  shows "totp_tables_ok d'"
    and "totp_tables_view d' =
      (totp_tables_view d)\<lparr>unused_codes := unused_codes (totp_tables_view d) - {(i, code)}\<rparr>"
    and "filter (\<lambda>r. rc_SubjectID r = i \<and> rc_CodeHash r = code \<and> rc_UsedAt r = None) (t_recovery d) = [] \<longleftrightarrow>
      (i, code) \<notin> unused_codes (totp_tables_view d)"
proof -
  let ?f = "\<lambda>r. if rc_SubjectID r = i \<and> rc_CodeHash r = code \<and> rc_UsedAt r = None
      then r\<lparr>rc_UsedAt := Some t\<rparr> else r"
  have "map (\<lambda>r. (rc_SubjectID r, rc_CodeHash r)) (map ?f (t_recovery d)) =
      map (\<lambda>r. (rc_SubjectID r, rc_CodeHash r)) (t_recovery d)" by simp
  then show "totp_tables_ok d'"
    using assms(1) unfolding d'_def by (simp add: totp_tables_ok_def del: map_map)
  show "totp_tables_view d' =
      (totp_tables_view d)\<lparr>unused_codes := unused_codes (totp_tables_view d) - {(i, code)}\<rparr>"
    unfolding d'_def
  proof (rule totp_view_eqI, goal_cases)
    case 4
    show ?case by (rule unused_codes_eqI) (auto simp: unused_codes_iff)
  qed (simp_all add: fun_eq_iff)
  show "filter (\<lambda>r. rc_SubjectID r = i \<and> rc_CodeHash r = code \<and> rc_UsedAt r = None) (t_recovery d) = [] \<longleftrightarrow>
      (i, code) \<notin> unused_codes (totp_tables_view d)"
    by (simp add: filter_empty_conv unused_codes_iff)
qed

lemma delete_enrollment_eq:
  fixes i :: string
  assumes "totp_tables_ok d"
  defines "d' \<equiv> d\<lparr>t_enrollments := filter (\<lambda>e. en_SubjectID e \<noteq> i) (t_enrollments d)\<rparr>"
  shows "totp_tables_ok d'"
    and "totp_tables_view d' =
      (totp_tables_view d)\<lparr>enrollments := (enrollments (totp_tables_view d))(i := None)\<rparr>"
proof -
  show "totp_tables_ok d'" using assms(1) unfolding d'_def by (simp add: totp_tables_ok_def distinct_map_filter)
  have "keyed en_SubjectID (filter (\<lambda>e. en_SubjectID e \<noteq> i) (t_enrollments d)) =
      (keyed en_SubjectID (t_enrollments d))(i := None)"
    by (simp add: keyed_filter_key)
  then show "totp_tables_view d' =
      (totp_tables_view d)\<lparr>enrollments := (enrollments (totp_tables_view d))(i := None)\<rparr>"
    unfolding d'_def by (intro totp_view_eqI) (simp_all add: totp_tables_view_def)
qed

lemma insert_code_eq:
  assumes "totp_tables_ok d" and "keyed cr_SubjectID (t_credentials d) i \<noteq> None"
  shows "fst (insert_code i h d) = Inl EUnique \<or>
    fst (insert_code i h d) = Inr () \<and> totp_tables_ok (snd (insert_code i h d)) \<and>
      totp_tables_view (snd (insert_code i h d)) =
        (totp_tables_view d)\<lparr>unused_codes := insert (i, h) (unused_codes (totp_tables_view d))\<rparr> \<and>
      t_credentials (snd (insert_code i h d)) = t_credentials d"
proof (cases "list_ex (\<lambda>x. i = rc_SubjectID x \<and> h = rc_CodeHash x) (t_recovery d)")
  case True
  then show ?thesis by (simp add: insert_code_def sql_insert_def)
next
  case False
  have "list_ex (\<lambda>r. cr_SubjectID r = i) (t_credentials d)" using assms(2) by (simp add: list_ex_keyed)
  with False assms(1) show ?thesis
    by (intro disjI2 conjI totp_view_eqI unused_codes_eqI)
      (auto simp: insert_code_def sql_insert_def totp_tables_ok_def list_ex_iff unused_codes_iff)
qed

lemma insert_totp_challenge_eq:
  assumes "totp_tables_ok d"
  shows "totp_tables_ok (snd (insert_totp_challenge ch d))"
    and "fst (insert_totp_challenge ch d) = Inl EUnique \<and> snd (insert_totp_challenge ch d) = d \<or>
      fst (insert_totp_challenge ch d) = Inr () \<and> totp_challenges (totp_tables_view d) (tc_TokenHash ch) = None \<and>
      totp_tables_view (snd (insert_totp_challenge ch d)) = (totp_tables_view d)
        \<lparr>totp_challenges := (totp_challenges (totp_tables_view d))(tc_TokenHash ch \<mapsto> ch)\<rparr>"
proof -
  let ?T = "t_totp_challenges d" and ?r = "TotpChallenge.extend ch \<lparr>tc_ConsumedAt = None\<rparr>"
  have r: "tc_TokenHash ?r = tc_TokenHash ch" "live_challenge ?r = Some ch"
    by (simp_all add: TotpChallenge.extend_def live_challenge_def TotpChallenge.truncate_def)
  have *: "totp_tables_ok (snd (insert_totp_challenge ch d)) \<and>
     (fst (insert_totp_challenge ch d) = Inl EUnique \<and> snd (insert_totp_challenge ch d) = d \<or>
      fst (insert_totp_challenge ch d) = Inr () \<and> totp_challenges (totp_tables_view d) (tc_TokenHash ch) = None \<and>
      totp_tables_view (snd (insert_totp_challenge ch d)) = (totp_tables_view d)
        \<lparr>totp_challenges := (totp_challenges (totp_tables_view d))(tc_TokenHash ch \<mapsto> ch)\<rparr>)"
  proof (cases "list_ex (\<lambda>x. tc_TokenHash ?r = tc_TokenHash x) ?T")
    case True
    then show ?thesis using assms by (simp add: insert_totp_challenge_def sql_insert_def split: prod.split)
  next
    case False
    then have n: "\<forall>x\<in>set ?T. tc_TokenHash x \<noteq> tc_TokenHash ?r" by (auto simp: list_ex_iff)
    have k: "keyed tc_TokenHash (?T @ [?r]) = (keyed tc_TokenHash ?T)(tc_TokenHash ?r \<mapsto> ?r)"
      using n by (rule keyed_append)
    have "keyed tc_TokenHash ?T (tc_TokenHash ch) = None" using n by (simp add: keyed_None r(1))
    with False n k r assms show ?thesis
      by (auto simp: insert_totp_challenge_def sql_insert_def totp_tables_ok_def totp_tables_view_def fun_eq_iff)
  qed
  then show "totp_tables_ok (snd (insert_totp_challenge ch d))"
    and "fst (insert_totp_challenge ch d) = Inl EUnique \<and> snd (insert_totp_challenge ch d) = d \<or>
      fst (insert_totp_challenge ch d) = Inr () \<and> totp_challenges (totp_tables_view d) (tc_TokenHash ch) = None \<and>
      totp_tables_view (snd (insert_totp_challenge ch d)) = (totp_tables_view d)
        \<lparr>totp_challenges := (totp_challenges (totp_tables_view d))(tc_TokenHash ch \<mapsto> ch)\<rparr>" by blast+
qed

text \<open>Storing an enrollment, with any statement that replaces the old one.\<close>

lemma begin_enrollment_implements:
  fixes e :: Enrollment and enc :: "nat \<Rightarrow> string \<Rightarrow> err + string"
    and f :: "Enrollment \<Rightarrow> totp_tables \<Rightarrow> (err + unit) \<times> totp_tables"
  defines "op \<equiv> bindM (\<lambda>c. (enc (stmt_pos c) (en_Secret e), c)) (\<lambda>s. stmt (f (e\<lparr>en_Secret := s\<rparr>)))"
  assumes f: "\<And>d e. totp_tables_ok d \<Longrightarrow> f e d = upsert_enrollment e d" and rob: "robust op"
  shows "implements totp_view totp_conn_ok op (spec_BeginEnrollment enc e)"
proof (rule totp_implements [OF rob])
  fix c :: totp_conn
  assume c: "fault c = (\<lambda>_. False)" "totp_tables_ok (tables c)"
  show "totp_tables_ok (tables (snd (op c))) \<and>
      ((\<exists>err. is_driver err \<and> fst (op c) = Inl err) \<and>
         totp_tables_view (tables (snd (op c))) = totp_tables_view (tables c) \<or>
       spec_BeginEnrollment enc e (totp_tables_view (tables c)) (fst (op c)) (totp_tables_view (tables (snd (op c)))))"
  proof (cases "enc (stmt_pos c) (en_Secret e)")
    case (Inl err)
    then show ?thesis
      using c by (intro conjI disjI2)
        (simp_all add: op_def bindM_eq spec_BeginEnrollment_def, intro exI [of _ "stmt_pos c"], simp)
  next
    case (Inr s)
    then show ?thesis
      using c upsert_enrollment_eq [OF c(2), of "e\<lparr>en_Secret := s\<rparr>"]
      by (intro conjI disjI2)
        (simp_all add: op_def bindM_eq spec_BeginEnrollment_def stmt_quiet f,
         intro exI [of _ "stmt_pos c"], simp)
  qed
qed

text \<open>Completing a challenge, with any way to consume it.\<close>

definition consumes :: "hash \<Rightarrow> time \<Rightarrow> (totp_conn \<Rightarrow> (err + string) \<times> totp_conn) \<Rightarrow> bool" where
  "consumes h t op \<longleftrightarrow> steps op \<and>
     (\<forall>c. fault c = (\<lambda>_. False) \<and> totp_tables_ok (tables c) \<longrightarrow>
        fst (op c) = Inl (ETotp Totp_ErrInactiveChallenge) \<and>
          (case totp_challenges (totp_tables_view (tables c)) h of None \<Rightarrow> True | Some ch \<Rightarrow> \<not> t < tc_ExpiresAt ch) \<or>
        (\<exists>ch. totp_challenges (totp_tables_view (tables c)) h = Some ch \<and> t < tc_ExpiresAt ch \<and>
           fst (op c) = Inr (tc_SubjectID ch) \<and> fault (snd (op c)) = (\<lambda>_. False) \<and>
           totp_tables_ok (tables (snd (op c))) \<and>
           totp_tables_view (tables (snd (op c))) = (totp_tables_view (tables c))
             \<lparr>totp_challenges := (totp_challenges (totp_tables_view (tables c)))(h := None)\<rparr>))"

lemmas consumesD = consumes_def [THEN iffD1, THEN conjunct2, rule_format, OF _ conjI]

lemmas totp_steps = transaction_quiet bindM_eq on_err_eq stmt_quiet sql_select_def sql_update_def first_row_keyed
  filter_keyed keyed_update_one totp_tables_okD(1-4) fun_spec_def

lemma complete_code_implements:
  assumes n: "counter_ok n" and cons: "consumes h t consume"
  defines "op \<equiv> transaction
       (bindM consume (\<lambda>subjectID.
        bindM (stmt (\<lambda>d. case sql_update (\<lambda>r. cr_SubjectID r = subjectID \<and> cr_DisabledAt r = None \<and>
                    (case cr_LastUsedCounter r of None \<Rightarrow> True | Some m \<Rightarrow> sint m < sint n))
                  (\<lambda>r. r\<lparr>cr_LastUsedCounter := Some n\<rparr>) (t_credentials d) of
                (rows, t) \<Rightarrow> (Inr (length rows), d\<lparr>t_credentials := t\<rparr>))) (\<lambda>affected.
        if affected = 0 then retM (Inl (ETotp Totp_ErrInvalidCode)) else retM (Inr subjectID))))"
  shows "implements totp_view totp_conn_ok op (lossy_spec False (code_fun h n t))"
proof -
  have st: "steps consume" using cons by (simp add: consumes_def)
  then have rob: "robust op" by (auto simp: op_def)
  show ?thesis
  proof (rule totp_implements [OF rob])
    fix c :: totp_conn
    assume c: "fault c = (\<lambda>_. False)" "totp_tables_ok (tables c)"
    let ?d = "tables c"
    let ?c1 = "snd (consume (c\<lparr>stmt_pos := Suc (stmt_pos c)\<rparr>))"
    let ?x1 = "fst (consume (c\<lparr>stmt_pos := Suc (stmt_pos c)\<rparr>))"
    let ?p = "\<lambda>r. cr_DisabledAt r = None \<and> (case cr_LastUsedCounter r of None \<Rightarrow> True | Some m \<Rightarrow> sint m < sint n)"
    let ?f = "\<lambda>r. r\<lparr>cr_LastUsedCounter := Some n\<rparr>"
    have "fault (c\<lparr>stmt_pos := Suc (stmt_pos c)\<rparr>) = (\<lambda>_. False)" "totp_tables_ok (tables (c\<lparr>stmt_pos := Suc (stmt_pos c)\<rparr>))"
      using c by simp_all
    note cs = consumesD [OF cons this, simplified]
    show "totp_tables_ok (tables (snd (op c))) \<and>
        ((\<exists>e. is_driver e \<and> fst (op c) = Inl e) \<and> totp_tables_view (tables (snd (op c))) = totp_tables_view ?d \<or>
         lossy_spec False (code_fun h n t) (totp_tables_view ?d) (fst (op c)) (totp_tables_view (tables (snd (op c)))))"
      using cs
    proof (elim disjE exE conjE)
      assume "?x1 = Inl (ETotp Totp_ErrInactiveChallenge)"
        "case Option.bind (keyed tc_TokenHash (t_totp_challenges ?d) h) live_challenge of None \<Rightarrow> True
          | Some ch \<Rightarrow> \<not> t < tc_ExpiresAt ch"
      then show ?thesis
        using c by (auto simp: op_def st totp_steps lossy_spec_def code_fun_def split: option.splits)
    next
      fix ch
      assume ch: "Option.bind (keyed tc_TokenHash (t_totp_challenges ?d) h) live_challenge = Some ch"
        "t < tc_ExpiresAt ch" "?x1 = Inr (tc_SubjectID ch)" "fault ?c1 = (\<lambda>_. False)" "totp_tables_ok (tables ?c1)"
        and v: "totp_tables_view (tables ?c1) = (totp_tables_view ?d)
          \<lparr>totp_challenges := (totp_challenges (totp_tables_view ?d))(h := None)\<rparr>"
      have g: "cr_LastUsedCounter r = Some m \<or> counter_ok m" if "cr_LastUsedCounter (?f r) = Some m" for r m
        using that n by simp
      note u = update_credential_eq [where f = ?f and p = ?p and i = "tc_SubjectID ch", OF ch(5) _ g, simplified]
      have D: "distinct (map cr_SubjectID (t_credentials (tables ?c1)))" using totp_tables_okD(2) [OF ch(5)] .
      have cr: "index cr_SubjectID stored_credential (t_credentials (tables ?c1)) =
          index cr_SubjectID stored_credential (t_credentials ?d)"
        using arg_cong [OF v, of totp_credentials] by simp
      show ?thesis
      proof (cases "keyed cr_SubjectID (t_credentials (tables ?c1)) (tc_SubjectID ch)")
        case None
        then show ?thesis
          using c ch D fun_cong [OF cr, of "tc_SubjectID ch"]
          by (auto simp: op_def st totp_steps filter_keyed lossy_spec_def code_fun_def index_def)
      next
        case (Some r)
        have less: "(sint m < sint n) = (m < n)" if "cr_LastUsedCounter r = Some m" for m
          using counter_ok_less [OF _ n] totp_tables_okD(5) [OF ch(5) _ that] Some keyed_Some [OF D] by blast
        have cr': "index cr_SubjectID stored_credential (t_credentials ?d) (tc_SubjectID ch) = Some (stored_credential r)"
          using Some cr by (metis index_def map_option_eq_Some)
        show ?thesis
        proof (cases "?p r")
          case True
          have run: "fst (op c) = Inr (tc_SubjectID ch)" "tables (snd (op c)) = (tables ?c1)
            \<lparr>t_credentials := map (\<lambda>r. if cr_SubjectID r = tc_SubjectID ch \<and> ?p r then ?f r else r)
               (t_credentials (tables ?c1))\<rparr>"
            using c ch D Some True by (simp_all add: op_def st totp_steps filter_keyed)
          show ?thesis
            unfolding run using u(1) u(2) [unfolded Some v] True ch cr' less
            by (auto simp: lossy_spec_def code_fun_def stored_credential_def not_le split: option.splits)
        next
          case False
          have run: "fst (op c) = Inl (ETotp Totp_ErrInvalidCode)" "tables (snd (op c)) = ?d"
            using c ch D Some False by (auto simp: op_def st totp_steps filter_keyed)
          show ?thesis
            unfolding run using c False ch cr' less
            by (auto simp: lossy_spec_def code_fun_def stored_credential_def not_le split: option.splits)
        qed
      qed
    qed
  qed
qed

lemma complete_recovery_implements:
  fixes code :: hash
  assumes cons: "consumes h u consume"
  defines "op \<equiv> transaction
       (bindM consume (\<lambda>subjectID.
        bindM (stmt (\<lambda>d. case sql_update (\<lambda>r. rc_SubjectID r = subjectID \<and> rc_CodeHash r = code \<and> rc_UsedAt r = None)
                  (\<lambda>r. r\<lparr>rc_UsedAt := Some u\<rparr>) (t_recovery d) of
                (rows, t) \<Rightarrow> (Inr (length rows), d\<lparr>t_recovery := t\<rparr>))) (\<lambda>affected.
        if affected = 0 then retM (Inl (ETotp Totp_ErrInvalidCode)) else retM (Inr subjectID))))"
  shows "implements totp_view totp_conn_ok op (lossy_spec False (recovery_fun h code u))"
proof -
  have st: "steps consume" using cons by (simp add: consumes_def)
  then have rob: "robust op" by (auto simp: op_def)
  show ?thesis
  proof (rule totp_implements [OF rob])
    fix c :: totp_conn
    assume c: "fault c = (\<lambda>_. False)" "totp_tables_ok (tables c)"
    let ?d = "tables c"
    let ?c1 = "snd (consume (c\<lparr>stmt_pos := Suc (stmt_pos c)\<rparr>))"
    let ?x1 = "fst (consume (c\<lparr>stmt_pos := Suc (stmt_pos c)\<rparr>))"
    have "fault (c\<lparr>stmt_pos := Suc (stmt_pos c)\<rparr>) = (\<lambda>_. False)" "totp_tables_ok (tables (c\<lparr>stmt_pos := Suc (stmt_pos c)\<rparr>))"
      using c by simp_all
    note cs = consumesD [OF cons this, simplified]
    show "totp_tables_ok (tables (snd (op c))) \<and>
        ((\<exists>e. is_driver e \<and> fst (op c) = Inl e) \<and> totp_tables_view (tables (snd (op c))) = totp_tables_view ?d \<or>
         lossy_spec False (recovery_fun h code u) (totp_tables_view ?d) (fst (op c))
           (totp_tables_view (tables (snd (op c)))))"
      using cs
    proof (elim disjE exE conjE)
      assume "?x1 = Inl (ETotp Totp_ErrInactiveChallenge)"
        "case Option.bind (keyed tc_TokenHash (t_totp_challenges ?d) h) live_challenge of None \<Rightarrow> True
          | Some ch \<Rightarrow> \<not> u < tc_ExpiresAt ch"
      then show ?thesis
        using c by (auto simp: op_def st totp_steps lossy_spec_def recovery_fun_def split: option.splits)
    next
      fix ch
      assume ch: "Option.bind (keyed tc_TokenHash (t_totp_challenges ?d) h) live_challenge = Some ch"
        "u < tc_ExpiresAt ch" "?x1 = Inr (tc_SubjectID ch)" "fault ?c1 = (\<lambda>_. False)" "totp_tables_ok (tables ?c1)"
        and v: "totp_tables_view (tables ?c1) = (totp_tables_view ?d)
          \<lparr>totp_challenges := (totp_challenges (totp_tables_view ?d))(h := None)\<rparr>"
      note u = use_code_eq(1,2) [OF ch(5), of "tc_SubjectID ch" code u]
        use_code_eq(3) [OF ch(5), of "tc_SubjectID ch" code]
      have cs: "unused_codes (totp_tables_view (tables ?c1)) = unused_codes (totp_tables_view ?d)"
        using arg_cong [OF v, of unused_codes] by simp
      show ?thesis
      proof (cases "(tc_SubjectID ch, code) \<in> unused_codes (totp_tables_view ?d)")
        case True
        have run: "fst (op c) = Inr (tc_SubjectID ch)" "tables (snd (op c)) = (tables ?c1)
            \<lparr>t_recovery := map (\<lambda>r. if rc_SubjectID r = tc_SubjectID ch \<and> rc_CodeHash r = code \<and> rc_UsedAt r = None
               then r\<lparr>rc_UsedAt := Some u\<rparr> else r) (t_recovery (tables ?c1))\<rparr>"
          using c ch True u(3) cs by (simp_all add: op_def st totp_steps)
        show ?thesis
          unfolding run u(2) v using u(1) True ch(1,2)
          by (simp add: lossy_spec_def recovery_fun_def)
      next
        case False
        have run: "fst (op c) = Inl (ETotp Totp_ErrInvalidCode)" "tables (snd (op c)) = ?d"
          using c ch False u(3) cs by (simp_all add: op_def st totp_steps)
        show ?thesis
          unfolding run using c(2) False ch(1,2)
          by (simp add: lossy_spec_def recovery_fun_def)
      qed
    qed
  qed
qed

end
