(* ===== verification/PostgresTotp.thy ===== *)
theory PostgresTotp
  imports TotpTables
begin

text \<open>
  The second factor in the PostgreSQL adapter (src/storage/postgres/totp.go), statement by statement.
\<close>

definition pg_totp_IsEnabled :: "string \<Rightarrow> totp_conn \<Rightarrow> (err + bool) \<times> totp_conn" where
  "pg_totp_IsEnabled subjectID =
     stmt (\<lambda>d. (Inr (list_ex (\<lambda>r. cr_SubjectID r = subjectID \<and> cr_DisabledAt r = None) (t_credentials d)), d))"

definition pg_totp_encrypt :: "secret_codec option \<Rightarrow> string \<Rightarrow> totp_conn \<Rightarrow> (err + string) \<times> totp_conn" where
  "pg_totp_encrypt codec secret c = (codec_encrypt ''postgres'' codec (stmt_pos c) secret, c)"

definition pg_totp_decrypt :: "secret_codec option \<Rightarrow> string \<Rightarrow> totp_conn \<Rightarrow> (err + string) \<times> totp_conn" where
  "pg_totp_decrypt codec encrypted c = (codec_decrypt ''postgres'' codec (stmt_pos c) encrypted, c)"

definition pg_totp_BeginEnrollment :: "secret_codec option \<Rightarrow> Enrollment \<Rightarrow> totp_conn \<Rightarrow> (err + unit) \<times> totp_conn" where
  "pg_totp_BeginEnrollment codec enrollment =
     bindM (pg_totp_encrypt codec (en_Secret enrollment)) (\<lambda>secret.
     stmt (upsert_enrollment (enrollment\<lparr>en_Secret := secret\<rparr>)))"

definition pg_totp_FindEnrollment ::
  "secret_codec option \<Rightarrow> string \<Rightarrow> totp_conn \<Rightarrow> (err + Enrollment) \<times> totp_conn" where
  "pg_totp_FindEnrollment codec subjectID =
     bindM (on_err (\<lambda>e. if errors_is e ENoRows then ETotp Totp_ErrNotFound else e)
              (stmt (\<lambda>d. (first_row (sql_select (\<lambda>e. en_SubjectID e = subjectID) (t_enrollments d)), d)))) (\<lambda>enrollment.
     bindM (pg_totp_decrypt codec (en_Secret enrollment)) (\<lambda>secret.
     retM (Inr (enrollment\<lparr>en_Secret := secret\<rparr>))))"

fun pg_insert_codes :: "string \<Rightarrow> hash list \<Rightarrow> totp_conn \<Rightarrow> (err + unit) \<times> totp_conn" where
  "pg_insert_codes subjectID [] = retM (Inr ())"
| "pg_insert_codes subjectID (code # codes) =
     bindM (stmt (insert_code subjectID code)) (\<lambda>_. pg_insert_codes subjectID codes)"

definition pg_totp_Enable ::
  "string \<Rightarrow> counter \<Rightarrow> hash list \<Rightarrow> time \<Rightarrow> totp_conn \<Rightarrow> (err + unit) \<times> totp_conn" where
  "pg_totp_Enable subjectID confirmedCounter recoveryCodes enabledAt =
     transaction
       (bindM (on_err (\<lambda>e. if errors_is e ENoRows then ETotp Totp_ErrNotFound else e)
                 (stmt (\<lambda>d. (first_row (sql_select (\<lambda>e. en_SubjectID e = subjectID) (t_enrollments d)), d)))) (\<lambda>enrollment.
        if \<not> enabledAt < en_ExpiresAt enrollment then retM (Inl (ETotp Totp_ErrInactiveEnrollment))
        else
        bindM (stmt (upsert_credential \<lparr>cr_SubjectID = subjectID, cr_Secret = en_Secret enrollment,
                 cr_EnabledAt = enabledAt, cr_LastUsedCounter = Some confirmedCounter, cr_DisabledAt = None\<rparr>)) (\<lambda>_.
        bindM (stmt (delete_codes subjectID)) (\<lambda>_.
        bindM (pg_insert_codes subjectID recoveryCodes) (\<lambda>_.
        stmt (\<lambda>d. (Inr (), d\<lparr>t_enrollments :=
          snd (sql_delete (\<lambda>e. en_SubjectID e = subjectID) (t_enrollments d))\<rparr>)))))))"

definition pg_totp_Disable :: "string \<Rightarrow> time \<Rightarrow> totp_conn \<Rightarrow> (err + unit) \<times> totp_conn" where
  "pg_totp_Disable subjectID disabledAt =
     transaction
       (bindM (stmt (\<lambda>d. case sql_update (\<lambda>r. cr_SubjectID r = subjectID)
                  (\<lambda>r. r\<lparr>cr_DisabledAt := Some (case cr_DisabledAt r of None \<Rightarrow> disabledAt | Some t \<Rightarrow> t)\<rparr>)
                  (t_credentials d) of
                (rows, t) \<Rightarrow> (Inr (length rows), d\<lparr>t_credentials := t\<rparr>))) (\<lambda>affected.
        if affected = 0 then retM (Inl (ETotp Totp_ErrNotFound))
        else stmt (delete_codes subjectID)))"

definition pg_totp_CreateChallenge :: "TotpChallenge \<Rightarrow> totp_conn \<Rightarrow> (err + unit) \<times> totp_conn" where
  "pg_totp_CreateChallenge challenge =
     on_err (\<lambda>e. if e = EUnique then ETotp Totp_ErrConflict else e) (stmt (insert_totp_challenge challenge))"

definition pg_totp_FindChallenge ::
  "secret_codec option \<Rightarrow> hash \<Rightarrow> totp_conn \<Rightarrow> (err + TotpChallenge \<times> Credential) \<times> totp_conn" where
  "pg_totp_FindChallenge codec challengeHash =
     bindM (on_err (\<lambda>e. if errors_is e ENoRows then ETotp Totp_ErrNotFound else e)
              (stmt (\<lambda>d. (first_row (filter (\<lambda>(c, t). cr_DisabledAt t = None)
                 (sql_join tc_SubjectID cr_SubjectID
                    (\<lambda>c. tc_TokenHash c = challengeHash \<and> tc_ConsumedAt c = None)
                    (t_totp_challenges d) (t_credentials d))), d)))) (\<lambda>(c, t).
     bindM (pg_totp_decrypt codec (cr_Secret t)) (\<lambda>secret.
     retM (Inr (TotpChallenge.truncate c,
       \<lparr>cd_SubjectID = tc_SubjectID c, cd_Secret = secret, cd_EnabledAt = cr_EnabledAt t,
        cd_LastUsedCounter = (case cr_LastUsedCounter t of None \<Rightarrow> 0 | Some n \<Rightarrow> n),
        cd_HasLastUsedCounter = (cr_LastUsedCounter t \<noteq> None)\<rparr>))))"

definition pg_consumeTOTPChallenge :: "hash \<Rightarrow> time \<Rightarrow> totp_conn \<Rightarrow> (err + string) \<times> totp_conn" where
  "pg_consumeTOTPChallenge h t =
     on_err (\<lambda>e. if errors_is e ENoRows then ETotp Totp_ErrInactiveChallenge else e)
       (stmt (\<lambda>d. case sql_update (\<lambda>c. tc_TokenHash c = h \<and> tc_ConsumedAt c = None \<and> t < tc_ExpiresAt c)
                    (\<lambda>c. c\<lparr>tc_ConsumedAt := Some t\<rparr>) (t_totp_challenges d) of
           (rows, table) \<Rightarrow> (first_row (map tc_SubjectID rows), d\<lparr>t_totp_challenges := table\<rparr>)))"

definition pg_totp_CompleteCode :: "hash \<Rightarrow> counter \<Rightarrow> time \<Rightarrow> totp_conn \<Rightarrow> (err + string) \<times> totp_conn" where
  "pg_totp_CompleteCode challengeHash counter completedAt =
     transaction
       (bindM (pg_consumeTOTPChallenge challengeHash completedAt) (\<lambda>subjectID.
        bindM (stmt (\<lambda>d. case sql_update (\<lambda>r. cr_SubjectID r = subjectID \<and> cr_DisabledAt r = None \<and>
                    (case cr_LastUsedCounter r of None \<Rightarrow> True | Some n \<Rightarrow> sint n < sint counter))
                  (\<lambda>r. r\<lparr>cr_LastUsedCounter := Some counter\<rparr>) (t_credentials d) of
                (rows, t) \<Rightarrow> (Inr (length rows), d\<lparr>t_credentials := t\<rparr>))) (\<lambda>affected.
        if affected = 0 then retM (Inl (ETotp Totp_ErrInvalidCode)) else retM (Inr subjectID))))"

definition pg_totp_CompleteRecovery :: "hash \<Rightarrow> hash \<Rightarrow> time \<Rightarrow> totp_conn \<Rightarrow> (err + string) \<times> totp_conn" where
  "pg_totp_CompleteRecovery challengeHash recoveryCode completedAt =
     transaction
       (bindM (pg_consumeTOTPChallenge challengeHash completedAt) (\<lambda>subjectID.
        bindM (stmt (\<lambda>d. case sql_update (\<lambda>r. rc_SubjectID r = subjectID \<and> rc_CodeHash r = recoveryCode \<and> rc_UsedAt r = None)
                  (\<lambda>r. r\<lparr>rc_UsedAt := Some completedAt\<rparr>) (t_recovery d) of
                (rows, t) \<Rightarrow> (Inr (length rows), d\<lparr>t_recovery := t\<rparr>))) (\<lambda>affected.
        if affected = 0 then retM (Inl (ETotp Totp_ErrInvalidCode)) else retM (Inr subjectID))))"

definition pg_TOTPStore :: "secret_codec option \<Rightarrow> totp_conn TotpStore" where
  "pg_TOTPStore codec =
     \<lparr>ts_IsEnabled = pg_totp_IsEnabled, ts_BeginEnrollment = pg_totp_BeginEnrollment codec,
      ts_FindEnrollment = pg_totp_FindEnrollment codec, ts_Enable = pg_totp_Enable, ts_Disable = pg_totp_Disable,
      ts_CreateChallenge = pg_totp_CreateChallenge, ts_FindChallenge = pg_totp_FindChallenge codec,
      ts_CompleteCode = pg_totp_CompleteCode, ts_CompleteRecovery = pg_totp_CompleteRecovery\<rparr>"

section \<open>Every operation meets the contract\<close>

lemma pg_totp_codec_reading:
  "robust (bindM (pg_totp_encrypt codec s) k)" if "\<And>v. robust (k v)"
  using robust_codec_then [where g = "\<lambda>n. codec_encrypt ''postgres'' codec n s" and k = k] that
  by (simp add: pg_totp_encrypt_def [abs_def])

lemma pg_insert_codes_steps [simp, intro!]: "steps (pg_insert_codes i codes)"
  by (induction codes) (auto simp del: retM_simps)

lemma pg_totp_robust [intro!]:
  "robust (pg_totp_IsEnabled i)" "robust (pg_totp_BeginEnrollment codec e)" "robust (pg_totp_FindEnrollment codec i)"
  "robust (pg_totp_Enable i n codes t)" "robust (pg_totp_Disable i t)" "robust (pg_totp_CreateChallenge ch)"
  "robust (pg_totp_FindChallenge codec h)" "robust (pg_totp_CompleteCode h n t)" "robust (pg_totp_CompleteRecovery h r t)"
proof -
  show "robust (pg_totp_IsEnabled i)" "robust (pg_totp_Enable i n codes t)" "robust (pg_totp_Disable i t)"
    "robust (pg_totp_CreateChallenge ch)" "robust (pg_totp_CompleteCode h n t)" "robust (pg_totp_CompleteRecovery h r t)"
    by (auto simp: pg_totp_IsEnabled_def pg_totp_Enable_def pg_totp_Disable_def pg_totp_CreateChallenge_def
        pg_totp_CompleteCode_def pg_totp_CompleteRecovery_def pg_consumeTOTPChallenge_def)
  show "robust (pg_totp_BeginEnrollment codec e)"
    by (auto simp: pg_totp_BeginEnrollment_def intro!: pg_totp_codec_reading)
  have "pg_totp_FindEnrollment codec i =
      bindM (on_err (\<lambda>e. if errors_is e ENoRows then ETotp Totp_ErrNotFound else e)
        (stmt (\<lambda>d. (first_row (sql_select (\<lambda>e. en_SubjectID e = i) (t_enrollments d)), d))))
        (\<lambda>e c. (case codec_decrypt ''postgres'' codec (stmt_pos c) (en_Secret e) of Inl err \<Rightarrow> Inl err
           | Inr s \<Rightarrow> Inr (e\<lparr>en_Secret := s\<rparr>), c))"
    by (intro ext) (auto simp: pg_totp_FindEnrollment_def pg_totp_decrypt_def bindM_def split: sum.split prod.split)
  then show "robust (pg_totp_FindEnrollment codec i)" by (auto intro!: robust_then_codec)
  have "pg_totp_FindChallenge codec h =
      bindM (on_err (\<lambda>e. if errors_is e ENoRows then ETotp Totp_ErrNotFound else e)
        (stmt (\<lambda>d. (first_row (filter (\<lambda>(c, t). cr_DisabledAt t = None)
                 (sql_join tc_SubjectID cr_SubjectID (\<lambda>c. tc_TokenHash c = h \<and> tc_ConsumedAt c = None)
                    (t_totp_challenges d) (t_credentials d))), d))))
        (\<lambda>(r, t) c. (case codec_decrypt ''postgres'' codec (stmt_pos c) (cr_Secret t) of Inl err \<Rightarrow> Inl err
           | Inr s \<Rightarrow> Inr (TotpChallenge.truncate r, \<lparr>cd_SubjectID = tc_SubjectID r, cd_Secret = s,
               cd_EnabledAt = cr_EnabledAt t, cd_LastUsedCounter = (case cr_LastUsedCounter t of None \<Rightarrow> 0 | Some n \<Rightarrow> n),
               cd_HasLastUsedCounter = (cr_LastUsedCounter t \<noteq> None)\<rparr>), c))"
    by (intro ext) (auto simp: pg_totp_FindChallenge_def pg_totp_decrypt_def bindM_def split: sum.split prod.split)
  then show "robust (pg_totp_FindChallenge codec h)"
    unfolding split_beta' by (auto intro!: robust_then_codec)
qed

lemma pg_totp_IsEnabled_implements:
  "implements totp_view totp_conn_ok (pg_totp_IsEnabled i) (fun_spec (spec_IsEnabled i))"
proof (rule totp_implements [OF pg_totp_robust(1)])
  fix c :: totp_conn
  assume c: "fault c = (\<lambda>_. False)" "totp_tables_ok (tables c)"
  have "list_ex (\<lambda>r. cr_SubjectID r = i \<and> cr_DisabledAt r = None) (t_credentials (tables c)) =
      (case keyed cr_SubjectID (t_credentials (tables c)) i of None \<Rightarrow> False | Some r \<Rightarrow> cr_DisabledAt r = None)"
    using totp_tables_okD(2) [OF c(2)]
    by (auto simp: list_ex_iff keyed_Some keyed_None distinct_map dest: inj_onD split: option.split)
  then show "totp_tables_ok (tables (snd (pg_totp_IsEnabled i c))) \<and>
      ((\<exists>e. is_driver e \<and> fst (pg_totp_IsEnabled i c) = Inl e) \<and>
         totp_tables_view (tables (snd (pg_totp_IsEnabled i c))) = totp_tables_view (tables c) \<or>
       fun_spec (spec_IsEnabled i) (totp_tables_view (tables c)) (fst (pg_totp_IsEnabled i c))
         (totp_tables_view (tables (snd (pg_totp_IsEnabled i c)))))"
    using c by (auto simp: pg_totp_IsEnabled_def stmt_quiet fun_spec_def spec_IsEnabled_def index_def stored_credential_def
        split: option.split)
qed

lemma pg_totp_BeginEnrollment_implements:
  "implements totp_view totp_conn_ok (pg_totp_BeginEnrollment codec e)
     (spec_BeginEnrollment (codec_encrypt ''postgres'' codec) e)"
  using begin_enrollment_implements [of upsert_enrollment "codec_encrypt ''postgres'' codec" e] pg_totp_robust(2)
  by (simp add: pg_totp_BeginEnrollment_def pg_totp_encrypt_def [abs_def])

lemma pg_totp_FindEnrollment_implements:
  "implements totp_view totp_conn_ok (pg_totp_FindEnrollment codec i)
     (spec_FindEnrollment (codec_decrypt ''postgres'' codec) i)"
proof (rule totp_implements [OF pg_totp_robust(3)])
  fix c :: totp_conn
  assume c: "fault c = (\<lambda>_. False)" "totp_tables_ok (tables c)"
  let ?op = "pg_totp_FindEnrollment codec i"
  show "totp_tables_ok (tables (snd (?op c))) \<and>
      ((\<exists>e. is_driver e \<and> fst (?op c) = Inl e) \<and>
         totp_tables_view (tables (snd (?op c))) = totp_tables_view (tables c) \<or>
       spec_FindEnrollment (codec_decrypt ''postgres'' codec) i (totp_tables_view (tables c)) (fst (?op c))
         (totp_tables_view (tables (snd (?op c)))))"
  proof (cases "keyed en_SubjectID (t_enrollments (tables c)) i")
    case None
    then show ?thesis
      using c by (simp add: pg_totp_FindEnrollment_def totp_steps spec_FindEnrollment_def)
  next
    case (Some e)
    have run: "fst (?op c) = (case codec_decrypt ''postgres'' codec (Suc (stmt_pos c)) (en_Secret e) of
        Inl err \<Rightarrow> Inl err | Inr s \<Rightarrow> Inr (e\<lparr>en_Secret := s\<rparr>))" "tables (snd (?op c)) = tables c"
      using c Some by (simp_all add: pg_totp_FindEnrollment_def totp_steps pg_totp_decrypt_def split: sum.split)
    show ?thesis
      unfolding run using c(2) spec_FindEnrollmentI [of "totp_tables_view (tables c)" i e] Some by simp
  qed
qed

lemma pg_insert_codes_result:
  assumes "fault c = (\<lambda>_. False)" and "totp_tables_ok (tables c)"
    and "keyed cr_SubjectID (t_credentials (tables c)) i \<noteq> None"
  shows "fst (pg_insert_codes i codes c) = Inl EUnique \<or>
    fst (pg_insert_codes i codes c) = Inr () \<and> fault (snd (pg_insert_codes i codes c)) = (\<lambda>_. False) \<and>
      totp_tables_ok (tables (snd (pg_insert_codes i codes c))) \<and>
      totp_tables_view (tables (snd (pg_insert_codes i codes c))) = (totp_tables_view (tables c))
        \<lparr>unused_codes := unused_codes (totp_tables_view (tables c)) \<union> Pair i ` set codes\<rparr>"
  using assms
proof (induction codes arbitrary: c)
  case Nil
  then show ?case by simp
next
  case (Cons code codes)
  let ?d = "snd (insert_code i code (tables c))"
  let ?c = "c\<lparr>tables := ?d, stmt_pos := Suc (stmt_pos c)\<rparr>"
  show ?case
  proof (cases "fst (insert_code i code (tables c)) = Inl EUnique")
    case True
    then show ?thesis using Cons.prems(1) by (simp add: bindM_eq stmt_quiet)
  next
    case False
    note one = insert_code_eq [OF Cons.prems(2,3), of code]
    with False have one: "fst (insert_code i code (tables c)) = Inr ()" "totp_tables_ok ?d"
      "totp_tables_view ?d = (totp_tables_view (tables c))
         \<lparr>unused_codes := insert (i, code) (unused_codes (totp_tables_view (tables c)))\<rparr>"
      "t_credentials ?d = t_credentials (tables c)" by simp_all
    have run: "pg_insert_codes i (code # codes) c = pg_insert_codes i codes ?c"
      using one(1) Cons.prems(1) by (simp add: bindM_eq stmt_quiet)
    have IH: "fst (pg_insert_codes i codes ?c) = Inl EUnique \<or>
      fst (pg_insert_codes i codes ?c) = Inr () \<and> fault (snd (pg_insert_codes i codes ?c)) = (\<lambda>_. False) \<and>
      totp_tables_ok (tables (snd (pg_insert_codes i codes ?c))) \<and>
      totp_tables_view (tables (snd (pg_insert_codes i codes ?c))) = (totp_tables_view ?d)
        \<lparr>unused_codes := unused_codes (totp_tables_view ?d) \<union> Pair i ` set codes\<rparr>"
      using Cons.IH [of ?c] Cons.prems one by simp
    then show ?thesis unfolding run one(3) by auto
  qed
qed

lemma pg_totp_Enable_implements:
  assumes n: "counter_ok n"
  shows "implements totp_view totp_conn_ok (pg_totp_Enable i n codes t) (fun_spec (spec_Enable i n codes t))"
proof (rule totp_implements [OF pg_totp_robust(4)])
  fix c :: totp_conn
  assume c: "fault c = (\<lambda>_. False)" "totp_tables_ok (tables c)"
  let ?d = "tables c" and ?op = "pg_totp_Enable i n codes t"
  show "totp_tables_ok (tables (snd (?op c))) \<and>
      ((\<exists>e. is_driver e \<and> fst (?op c) = Inl e) \<and> totp_tables_view (tables (snd (?op c))) = totp_tables_view ?d \<or>
       fun_spec (spec_Enable i n codes t) (totp_tables_view ?d) (fst (?op c)) (totp_tables_view (tables (snd (?op c)))))"
  proof (cases "keyed en_SubjectID (t_enrollments ?d) i")
    case None
    then show ?thesis
      using c by (auto simp: pg_totp_Enable_def totp_steps spec_Enable_def)
  next
    case (Some e)
    show ?thesis
    proof (cases "t < en_ExpiresAt e")
      case False
      then show ?thesis using c Some by (auto simp: pg_totp_Enable_def totp_steps spec_Enable_def)
    next
      case True
      let ?r = "\<lparr>cr_SubjectID = i, cr_Secret = en_Secret e, cr_EnabledAt = t, cr_LastUsedCounter = Some n,
        cr_DisabledAt = None\<rparr>"
      let ?d1 = "snd (upsert_credential ?r ?d)"
      let ?d2 = "snd (delete_codes i ?d1)"
      let ?c2 = "c\<lparr>tables := ?d2, stmt_pos := Suc (Suc (Suc (Suc (stmt_pos c))))\<rparr>"
      let ?c3 = "snd (pg_insert_codes i codes ?c2)"
      let ?x = "fst (pg_insert_codes i codes ?c2)"
      have u: "totp_tables_ok ?d1" "totp_tables_view ?d1 = (totp_tables_view ?d)
          \<lparr>totp_credentials := (totp_credentials (totp_tables_view ?d))(i \<mapsto> stored_credential ?r)\<rparr>"
        "keyed cr_SubjectID (t_credentials ?d1) i = Some ?r"
        using upsert_credential_eq(1-3) [OF c(2), of ?r n] n by simp_all
      note dc = delete_codes_eq [OF u(1), of i]
      have k2: "keyed cr_SubjectID (t_credentials ?d2) i \<noteq> None" using u(3) by (simp add: delete_codes_def)
      define body where "body = bindM (pg_insert_codes i codes) (\<lambda>_. stmt (\<lambda>d. (Inr (), d\<lparr>t_enrollments :=
          snd (sql_delete (\<lambda>e. en_SubjectID e = i) (t_enrollments d))\<rparr>)))"
      have sb: "steps body" by (auto simp: body_def simp del: retM_simps)
      have op: "fst (?op c) = fst (body ?c2)"
        "tables (snd (?op c)) = (if isl (fst (body ?c2)) then ?d else tables (snd (body ?c2)))"
        using c(1) Some True sb
        by (simp_all add: pg_totp_Enable_def transaction_quiet bindM_eq on_err_eq stmt_quiet sql_select_def
            first_row_keyed totp_tables_okD(1) [OF c(2)] flip: body_def)
      have run: "fst (?op c) = (case ?x of Inl e \<Rightarrow> Inl e | Inr _ \<Rightarrow> Inr ())"
        "tables (snd (?op c)) = (case ?x of Inl e \<Rightarrow> ?d | Inr _ \<Rightarrow>
           tables ?c3\<lparr>t_enrollments := filter (\<lambda>e. en_SubjectID e \<noteq> i) (t_enrollments (tables ?c3))\<rparr>)"
        if "isl ?x \<or> fault ?c3 = (\<lambda>_. False)"
        using that unfolding op by (auto simp: body_def bindM_eq stmt_quiet sql_delete_def isl_def split: sum.split)
      have ins: "?x = Inl EUnique \<or> ?x = Inr () \<and> fault ?c3 = (\<lambda>_. False) \<and> totp_tables_ok (tables ?c3) \<and>
        totp_tables_view (tables ?c3) = (totp_tables_view ?d2)
          \<lparr>unused_codes := unused_codes (totp_tables_view ?d2) \<union> Pair i ` set codes\<rparr>"
        using pg_insert_codes_result [of ?c2 i codes] c(1) dc(1) k2 by simp
      then show ?thesis
      proof (elim disjE conjE)
        assume "?x = Inl EUnique"
        with run have "fst (?op c) = Inl EUnique" "tables (snd (?op c)) = ?d" by simp_all
        with c(2) show ?thesis by simp
      next
        assume x: "?x = Inr ()" "fault ?c3 = (\<lambda>_. False)" "totp_tables_ok (tables ?c3)"
          and v: "totp_tables_view (tables ?c3) = (totp_tables_view ?d2)
            \<lparr>unused_codes := unused_codes (totp_tables_view ?d2) \<union> Pair i ` set codes\<rparr>"
        have run': "fst (?op c) = Inr ()" "tables (snd (?op c)) =
            tables ?c3\<lparr>t_enrollments := filter (\<lambda>e. en_SubjectID e \<noteq> i) (t_enrollments (tables ?c3))\<rparr>"
          using run x by simp_all
        note de = delete_enrollment_eq [OF x(3), of i]
        show ?thesis
          unfolding run' using de(1) Some True
          by (simp add: de(2) v dc(2) u(2) fun_spec_def spec_Enable_def stored_credential_def)
      qed
    qed
  qed
qed

lemma pg_totp_Disable_implements:
  "implements totp_view totp_conn_ok (pg_totp_Disable i t) (fun_spec (spec_Disable i t))"
proof (rule totp_implements [OF pg_totp_robust(5)])
  fix c :: totp_conn
  assume c: "fault c = (\<lambda>_. False)" "totp_tables_ok (tables c)"
  let ?d = "tables c" and ?op = "pg_totp_Disable i t"
  let ?f = "\<lambda>r. r\<lparr>cr_DisabledAt := Some (case cr_DisabledAt r of None \<Rightarrow> t | Some u \<Rightarrow> u)\<rparr>"
  note u = update_credential_eq [OF c(2), where f = ?f and p = "\<lambda>_. True" and i = i, simplified]
  note dc = delete_codes_eq [OF u(1), of i]
  show "totp_tables_ok (tables (snd (?op c))) \<and>
      ((\<exists>e. is_driver e \<and> fst (?op c) = Inl e) \<and> totp_tables_view (tables (snd (?op c))) = totp_tables_view ?d \<or>
       fun_spec (spec_Disable i t) (totp_tables_view ?d) (fst (?op c)) (totp_tables_view (tables (snd (?op c)))))"
  proof (cases "keyed cr_SubjectID (t_credentials ?d) i")
    case None
    then show ?thesis
      using c by (auto simp: pg_totp_Disable_def totp_steps filter_keyed_eq spec_Disable_def index_def)
  next
    case (Some r)
    have run: "fst (?op c) = Inr ()" "tables (snd (?op c)) = snd (delete_codes i (?d\<lparr>t_credentials :=
        map (\<lambda>r. if cr_SubjectID r = i then ?f r else r) (t_credentials ?d)\<rparr>))"
      using c Some by (simp_all add: pg_totp_Disable_def totp_steps filter_keyed_eq delete_codes_def)
    show ?thesis
      unfolding run using dc(1) Some
      by (simp add: dc(2) u(2) fun_spec_def spec_Disable_def index_def stored_credential_def)
  qed
qed

lemma pg_totp_CreateChallenge_implements:
  "implements totp_view totp_conn_ok (pg_totp_CreateChallenge ch) (spec_CreateTotpChallenge ch)"
proof (rule totp_implements [OF pg_totp_robust(6)])
  fix c :: totp_conn
  assume c: "fault c = (\<lambda>_. False)" "totp_tables_ok (tables c)"
  show "totp_tables_ok (tables (snd (pg_totp_CreateChallenge ch c))) \<and>
      ((\<exists>e. is_driver e \<and> fst (pg_totp_CreateChallenge ch c) = Inl e) \<and>
         totp_tables_view (tables (snd (pg_totp_CreateChallenge ch c))) = totp_tables_view (tables c) \<or>
       spec_CreateTotpChallenge ch (totp_tables_view (tables c)) (fst (pg_totp_CreateChallenge ch c))
         (totp_tables_view (tables (snd (pg_totp_CreateChallenge ch c)))))"
    using insert_totp_challenge_eq [OF c(2), of ch] c
    by (auto simp: pg_totp_CreateChallenge_def on_err_eq stmt_quiet spec_CreateTotpChallenge_def)
qed

lemma pg_totp_FindChallenge_implements:
  "implements totp_view totp_conn_ok (pg_totp_FindChallenge codec h)
     (spec_FindChallenge (codec_decrypt ''postgres'' codec) h)"
proof (rule totp_implements [OF pg_totp_robust(7)])
  fix c :: totp_conn
  assume c: "fault c = (\<lambda>_. False)" "totp_tables_ok (tables c)"
  let ?d = "tables c"
  have D: "distinct (map tc_TokenHash (t_totp_challenges ?d))" "distinct (map cr_SubjectID (t_credentials ?d))"
    using totp_tables_okD [OF c(2)] by auto
  have row: "first_row (filter (\<lambda>(c, t). cr_DisabledAt t = None)
      (sql_join tc_SubjectID cr_SubjectID (\<lambda>c. tc_TokenHash c = h \<and> tc_ConsumedAt c = None)
         (t_totp_challenges ?d) (t_credentials ?d))) =
    (case keyed tc_TokenHash (t_totp_challenges ?d) h of None \<Rightarrow> Inl ENoRows
     | Some x \<Rightarrow> if tc_ConsumedAt x \<noteq> None then Inl ENoRows
         else (case keyed cr_SubjectID (t_credentials ?d) (tc_SubjectID x) of None \<Rightarrow> Inl ENoRows
               | Some y \<Rightarrow> if cr_DisabledAt y = None then Inr (x, y) else Inl ENoRows))"
    using D by (auto simp: sql_join_def sql_select_def filter_keyed filter_keyed_eq first_row_def split: option.split)
  show "totp_tables_ok (tables (snd (pg_totp_FindChallenge codec h c))) \<and>
      ((\<exists>e. is_driver e \<and> fst (pg_totp_FindChallenge codec h c) = Inl e) \<and>
         totp_tables_view (tables (snd (pg_totp_FindChallenge codec h c))) = totp_tables_view ?d \<or>
       spec_FindChallenge (codec_decrypt ''postgres'' codec) h (totp_tables_view ?d)
         (fst (pg_totp_FindChallenge codec h c)) (totp_tables_view (tables (snd (pg_totp_FindChallenge codec h c)))))"
  proof (cases "keyed tc_TokenHash (t_totp_challenges ?d) h")
    case None
    then show ?thesis
      using c by (simp add: pg_totp_FindChallenge_def row bindM_eq on_err_eq stmt_quiet spec_FindChallenge_def)
  next
    case x: (Some x)
    show ?thesis
    proof (cases "tc_ConsumedAt x = None \<and> (\<exists>y. keyed cr_SubjectID (t_credentials ?d) (tc_SubjectID x) = Some y \<and>
        cr_DisabledAt y = None)")
      case False
      then show ?thesis
        using c x by (auto simp: pg_totp_FindChallenge_def row bindM_eq on_err_eq stmt_quiet spec_FindChallenge_def
            live_challenge_def index_def stored_credential_def TotpChallenge.truncate_def split: option.split)
    next
      case True
      then obtain y where y: "tc_ConsumedAt x = None" "cr_DisabledAt y = None"
        "keyed cr_SubjectID (t_credentials ?d) (tc_SubjectID x) = Some y" by blast
      have run: "fst (pg_totp_FindChallenge codec h c) =
          (case codec_decrypt ''postgres'' codec (Suc (stmt_pos c)) (cr_Secret y) of Inl err \<Rightarrow> Inl err
           | Inr s \<Rightarrow> Inr (TotpChallenge.truncate x, (Credential.truncate (stored_credential y))\<lparr>cd_Secret := s\<rparr>))"
        "tables (snd (pg_totp_FindChallenge codec h c)) = ?d"
        using c x y keyed_key [OF y(3)]
        by (simp_all add: pg_totp_FindChallenge_def row bindM_eq on_err_eq stmt_quiet pg_totp_decrypt_def
            stored_credential_def Credential.truncate_def split: sum.split)
      show ?thesis
        unfolding run using c(2) x y
        by (intro conjI disjI2 spec_FindChallengeI [where ch = "TotpChallenge.truncate x" and c = "stored_credential y"])
          (auto simp: live_challenge_def index_def stored_credential_def TotpChallenge.truncate_def)
    qed
  qed
qed

lemma pg_consume_steps [simp, intro!]: "steps (pg_consumeTOTPChallenge h t)"
  by (auto simp: pg_consumeTOTPChallenge_def)

lemma pg_consumes: "consumes h t (pg_consumeTOTPChallenge h t)"
  unfolding consumes_def
proof (intro conjI allI impI, goal_cases)
  case (2 c)
  then have c: "fault c = (\<lambda>_. False)" "totp_tables_ok (tables c)" by simp_all
  show ?case
    using live_challenge_cases [OF c(2), of h t]
  proof (elim disjE exE conjE)
    fix r
    assume r: "filter (consumable h t) (t_totp_challenges (tables c)) = [r]"
      "keyed tc_TokenHash (t_totp_challenges (tables c)) h = Some r" "tc_ConsumedAt r = None" "t < tc_ExpiresAt r"
      "totp_challenges (totp_tables_view (tables c)) h = Some (TotpChallenge.truncate r)"
    note u = consume_challenge_eq [OF c(2) r(2), of "\<lambda>c. tc_ConsumedAt c = None \<and> t < tc_ExpiresAt c"
        "\<lambda>c. tc_ConsumedAt c = None \<and> t < tc_ExpiresAt c" t]
    show ?thesis
      using r u c(1) by (intro disjI2 exI [of _ "TotpChallenge.truncate r"])
        (simp add: pg_consumeTOTPChallenge_def on_err_eq stmt_quiet sql_update_def first_row_def TotpChallenge.truncate_def)
  qed (simp add: pg_consumeTOTPChallenge_def on_err_eq stmt_quiet c sql_update_def first_row_def)
qed simp

lemma pg_totp_CompleteCode_implements:
  "counter_ok n \<Longrightarrow> implements totp_view totp_conn_ok (pg_totp_CompleteCode h n t) (lossy_spec False (code_fun h n t))"
  using complete_code_implements [OF _ pg_consumes] by (simp add: pg_totp_CompleteCode_def)

lemma pg_totp_CompleteRecovery_implements:
  "implements totp_view totp_conn_ok (pg_totp_CompleteRecovery h code t) (lossy_spec False (recovery_fun h code t))"
  using complete_recovery_implements [OF pg_consumes] by (simp add: pg_totp_CompleteRecovery_def)

interpretation pg_totp: totp_store "pg_TOTPStore codec" "codec_encrypt ''postgres'' codec"
  "codec_decrypt ''postgres'' codec" totp_view totp_conn_ok False
  for codec
  by unfold_locales
    (simp_all add: pg_TOTPStore_def totp_conn_view_ok pg_totp_IsEnabled_implements
      pg_totp_BeginEnrollment_implements pg_totp_FindEnrollment_implements pg_totp_Enable_implements
      pg_totp_Disable_implements pg_totp_CreateChallenge_implements pg_totp_FindChallenge_implements
      pg_totp_CompleteCode_implements pg_totp_CompleteRecovery_implements)

end
