(* ===== verification/MysqlTotp.thy ===== *)
theory MysqlTotp
  imports PostgresTotp
begin

text \<open>
  The second factor in the MySQL adapter (src/storage/mysql/totp.go), statement by statement. \<^verbatim>\<open>RowsAffected\<close>
  counts the matched rows only when the connection asks for them (\<^verbatim>\<open>clientFoundRows\<close>): otherwise disabling
  twice reports \<^verbatim>\<open>ErrNotFound\<close>. The other updates change every row that they match.
\<close>

definition my_totp_IsEnabled :: "string \<Rightarrow> totp_conn \<Rightarrow> (err + bool) \<times> totp_conn" where
  "my_totp_IsEnabled subjectID =
     stmt (\<lambda>d. (Inr (list_ex (\<lambda>r. cr_SubjectID r = subjectID \<and> cr_DisabledAt r = None) (t_credentials d)), d))"

definition my_totp_encrypt :: "secret_codec option \<Rightarrow> string \<Rightarrow> totp_conn \<Rightarrow> (err + string) \<times> totp_conn" where
  "my_totp_encrypt codec secret c = (codec_encrypt ''mysql'' codec (stmt_pos c) secret, c)"

definition my_totp_decrypt :: "secret_codec option \<Rightarrow> string \<Rightarrow> totp_conn \<Rightarrow> (err + string) \<times> totp_conn" where
  "my_totp_decrypt codec encrypted c = (codec_decrypt ''mysql'' codec (stmt_pos c) encrypted, c)"

definition my_totp_BeginEnrollment :: "secret_codec option \<Rightarrow> Enrollment \<Rightarrow> totp_conn \<Rightarrow> (err + unit) \<times> totp_conn" where
  "my_totp_BeginEnrollment codec enrollment =
     bindM (my_totp_encrypt codec (en_Secret enrollment)) (\<lambda>secret.
     stmt (upsert_enrollment (enrollment\<lparr>en_Secret := secret\<rparr>)))"

definition my_totp_FindEnrollment ::
  "secret_codec option \<Rightarrow> string \<Rightarrow> totp_conn \<Rightarrow> (err + Enrollment) \<times> totp_conn" where
  "my_totp_FindEnrollment codec subjectID =
     bindM (on_err (\<lambda>e. if errors_is e ENoRows then ETotp Totp_ErrNotFound else e)
              (stmt (\<lambda>d. (first_row (sql_select (\<lambda>e. en_SubjectID e = subjectID) (t_enrollments d)), d)))) (\<lambda>enrollment.
     bindM (my_totp_decrypt codec (en_Secret enrollment)) (\<lambda>secret.
     retM (Inr (enrollment\<lparr>en_Secret := secret\<rparr>))))"

fun my_insert_codes :: "string \<Rightarrow> hash list \<Rightarrow> totp_conn \<Rightarrow> (err + unit) \<times> totp_conn" where
  "my_insert_codes subjectID [] = retM (Inr ())"
| "my_insert_codes subjectID (code # codes) =
     bindM (stmt (insert_code subjectID code)) (\<lambda>_. my_insert_codes subjectID codes)"

definition my_totp_Enable ::
  "string \<Rightarrow> counter \<Rightarrow> hash list \<Rightarrow> time \<Rightarrow> totp_conn \<Rightarrow> (err + unit) \<times> totp_conn" where
  "my_totp_Enable subjectID confirmedCounter recoveryCodes enabledAt =
     transaction
       (bindM (on_err (\<lambda>e. if errors_is e ENoRows then ETotp Totp_ErrNotFound else e)
                 (stmt (\<lambda>d. (first_row (sql_select (\<lambda>e. en_SubjectID e = subjectID) (t_enrollments d)), d)))) (\<lambda>enrollment.
        if \<not> enabledAt < en_ExpiresAt enrollment then retM (Inl (ETotp Totp_ErrInactiveEnrollment))
        else
        bindM (stmt (upsert_credential \<lparr>cr_SubjectID = subjectID, cr_Secret = en_Secret enrollment,
                 cr_EnabledAt = enabledAt, cr_LastUsedCounter = Some confirmedCounter, cr_DisabledAt = None\<rparr>)) (\<lambda>_.
        bindM (stmt (delete_codes subjectID)) (\<lambda>_.
        bindM (my_insert_codes subjectID recoveryCodes) (\<lambda>_.
        stmt (\<lambda>d. (Inr (), d\<lparr>t_enrollments :=
          snd (sql_delete (\<lambda>e. en_SubjectID e = subjectID) (t_enrollments d))\<rparr>)))))))"

definition my_totp_Disable :: "string \<Rightarrow> time \<Rightarrow> totp_conn \<Rightarrow> (err + unit) \<times> totp_conn" where
  "my_totp_Disable subjectID disabledAt =
     transaction
       (bindM (\<lambda>c. stmt ((\<lambda>found d. case sql_update (\<lambda>r. cr_SubjectID r = subjectID)
                  (\<lambda>r. r\<lparr>cr_DisabledAt := Some (case cr_DisabledAt r of None \<Rightarrow> disabledAt | Some t \<Rightarrow> t)\<rparr>)
                  (t_credentials d) of
                (rows, t) \<Rightarrow> (Inr (if found then length rows else if t = t_credentials d then 0 else length rows),
                  d\<lparr>t_credentials := t\<rparr>)) (found_rows c)) c) (\<lambda>affected.
        if affected = 0 then retM (Inl (ETotp Totp_ErrNotFound))
        else stmt (delete_codes subjectID)))"

definition my_totp_CreateChallenge :: "TotpChallenge \<Rightarrow> totp_conn \<Rightarrow> (err + unit) \<times> totp_conn" where
  "my_totp_CreateChallenge challenge =
     on_err (\<lambda>e. if e = EUnique then ETotp Totp_ErrConflict else e) (stmt (insert_totp_challenge challenge))"

definition my_totp_FindChallenge ::
  "secret_codec option \<Rightarrow> hash \<Rightarrow> totp_conn \<Rightarrow> (err + TotpChallenge \<times> Credential) \<times> totp_conn" where
  "my_totp_FindChallenge codec challengeHash =
     bindM (on_err (\<lambda>e. if errors_is e ENoRows then ETotp Totp_ErrNotFound else e)
              (stmt (\<lambda>d. (first_row (filter (\<lambda>(c, t). cr_DisabledAt t = None)
                 (sql_join tc_SubjectID cr_SubjectID
                    (\<lambda>c. tc_TokenHash c = challengeHash \<and> tc_ConsumedAt c = None)
                    (t_totp_challenges d) (t_credentials d))), d)))) (\<lambda>(c, t).
     bindM (my_totp_decrypt codec (cr_Secret t)) (\<lambda>secret.
     retM (Inr (TotpChallenge.truncate c,
       \<lparr>cd_SubjectID = tc_SubjectID c, cd_Secret = secret, cd_EnabledAt = cr_EnabledAt t,
        cd_LastUsedCounter = (case cr_LastUsedCounter t of None \<Rightarrow> 0 | Some n \<Rightarrow> n),
        cd_HasLastUsedCounter = (cr_LastUsedCounter t \<noteq> None)\<rparr>))))"

definition my_consumeTOTPChallenge :: "hash \<Rightarrow> time \<Rightarrow> totp_conn \<Rightarrow> (err + string) \<times> totp_conn" where
  "my_consumeTOTPChallenge h t =
     bindM (on_err (\<lambda>e. if errors_is e ENoRows then ETotp Totp_ErrInactiveChallenge else e)
              (stmt (\<lambda>d. (first_row (map tc_SubjectID (sql_select
                 (\<lambda>c. tc_TokenHash c = h \<and> tc_ConsumedAt c = None \<and> t < tc_ExpiresAt c) (t_totp_challenges d))), d)))) (\<lambda>subjectID.
     bindM (stmt (\<lambda>d. case sql_update (\<lambda>c. tc_TokenHash c = h \<and> tc_ConsumedAt c = None)
                    (\<lambda>c. c\<lparr>tc_ConsumedAt := Some t\<rparr>) (t_totp_challenges d) of
                (rows, table) \<Rightarrow> (Inr (length rows), d\<lparr>t_totp_challenges := table\<rparr>))) (\<lambda>affected.
     if affected = 0 then retM (Inl (ETotp Totp_ErrInactiveChallenge)) else retM (Inr subjectID)))"

definition my_totp_CompleteCode :: "hash \<Rightarrow> counter \<Rightarrow> time \<Rightarrow> totp_conn \<Rightarrow> (err + string) \<times> totp_conn" where
  "my_totp_CompleteCode challengeHash counter completedAt =
     transaction
       (bindM (my_consumeTOTPChallenge challengeHash completedAt) (\<lambda>subjectID.
        bindM (stmt (\<lambda>d. case sql_update (\<lambda>r. cr_SubjectID r = subjectID \<and> cr_DisabledAt r = None \<and>
                    (case cr_LastUsedCounter r of None \<Rightarrow> True | Some n \<Rightarrow> sint n < sint counter))
                  (\<lambda>r. r\<lparr>cr_LastUsedCounter := Some counter\<rparr>) (t_credentials d) of
                (rows, t) \<Rightarrow> (Inr (length rows), d\<lparr>t_credentials := t\<rparr>))) (\<lambda>affected.
        if affected = 0 then retM (Inl (ETotp Totp_ErrInvalidCode)) else retM (Inr subjectID))))"

definition my_totp_CompleteRecovery :: "hash \<Rightarrow> hash \<Rightarrow> time \<Rightarrow> totp_conn \<Rightarrow> (err + string) \<times> totp_conn" where
  "my_totp_CompleteRecovery challengeHash recoveryCode completedAt =
     transaction
       (bindM (my_consumeTOTPChallenge challengeHash completedAt) (\<lambda>subjectID.
        bindM (stmt (\<lambda>d. case sql_update (\<lambda>r. rc_SubjectID r = subjectID \<and> rc_CodeHash r = recoveryCode \<and> rc_UsedAt r = None)
                  (\<lambda>r. r\<lparr>rc_UsedAt := Some completedAt\<rparr>) (t_recovery d) of
                (rows, t) \<Rightarrow> (Inr (length rows), d\<lparr>t_recovery := t\<rparr>))) (\<lambda>affected.
        if affected = 0 then retM (Inl (ETotp Totp_ErrInvalidCode)) else retM (Inr subjectID))))"

definition my_TOTPStore :: "secret_codec option \<Rightarrow> totp_conn TotpStore" where
  "my_TOTPStore codec =
     \<lparr>ts_IsEnabled = my_totp_IsEnabled, ts_BeginEnrollment = my_totp_BeginEnrollment codec,
      ts_FindEnrollment = my_totp_FindEnrollment codec, ts_Enable = my_totp_Enable, ts_Disable = my_totp_Disable,
      ts_CreateChallenge = my_totp_CreateChallenge, ts_FindChallenge = my_totp_FindChallenge codec,
      ts_CompleteCode = my_totp_CompleteCode, ts_CompleteRecovery = my_totp_CompleteRecovery\<rparr>"

section \<open>The contract\<close>

definition my_totp_ok :: "totp_conn \<Rightarrow> bool" where
  "my_totp_ok c \<longleftrightarrow> found_rows c \<and> totp_conn_ok c"

text \<open>Apart from two operations the statements are those of PostgreSQL.\<close>

lemma my_insert_codes_eq: "my_insert_codes i codes = pg_insert_codes i codes"
  by (induction codes) simp_all

lemma my_totp_shared:
  "my_totp_IsEnabled i = pg_totp_IsEnabled i"
  "my_totp_BeginEnrollment codec e = pg_totp_BeginEnrollment (named_codec ''mysql'' codec) e"
  "my_totp_FindEnrollment codec i = pg_totp_FindEnrollment (named_codec ''mysql'' codec) i"
  "my_totp_Enable i n codes t = pg_totp_Enable i n codes t"
  "my_totp_CreateChallenge ch = pg_totp_CreateChallenge ch"
  "my_totp_FindChallenge codec h = pg_totp_FindChallenge (named_codec ''mysql'' codec) h"
  by (simp_all add: my_totp_IsEnabled_def pg_totp_IsEnabled_def my_totp_BeginEnrollment_def
      pg_totp_BeginEnrollment_def my_totp_FindEnrollment_def pg_totp_FindEnrollment_def my_totp_Enable_def
      pg_totp_Enable_def my_totp_CreateChallenge_def pg_totp_CreateChallenge_def my_totp_FindChallenge_def
      pg_totp_FindChallenge_def my_totp_encrypt_def [abs_def] pg_totp_encrypt_def [abs_def]
      my_totp_decrypt_def [abs_def] pg_totp_decrypt_def [abs_def] my_insert_codes_eq cong: if_cong)

lemma my_totp_implements:
  assumes "implements totp_view totp_conn_ok op spec" and "robust op"
  shows "implements totp_view my_totp_ok op spec"
  using assms unfolding implements_def my_totp_ok_def robust_def by simp

lemma steps_found_stmt [simp, intro!]: "steps (\<lambda>c. stmt (f (found_rows c)) c)"
  by (auto simp: steps_def stmt_def quiet_def connection_error_def)

lemma my_consume_steps [simp, intro!]: "steps (my_consumeTOTPChallenge h t)"
  by (auto simp: my_consumeTOTPChallenge_def simp del: retM_simps)

lemma my_totp_robust [intro!]:
  "robust (my_totp_Disable i t)" "robust (my_totp_CompleteCode h n t)" "robust (my_totp_CompleteRecovery h r t)"
  by (auto simp: my_totp_Disable_def my_totp_CompleteCode_def my_totp_CompleteRecovery_def simp del: retM_simps)

lemma my_totp_Disable_eq: "found_rows c \<Longrightarrow> my_totp_Disable i t c = pg_totp_Disable i t c"
  by (simp add: my_totp_Disable_def pg_totp_Disable_def transaction_def bindM_eq stmt_def sql_update_def cong: if_cong)

lemma my_totp_Disable_implements:
  "implements totp_view my_totp_ok (my_totp_Disable i t) (fun_spec (spec_Disable i t))"
  using my_totp_implements [OF pg_totp_Disable_implements pg_totp_robust(5), of i t]
  by (auto simp: implements_def my_totp_ok_def my_totp_Disable_eq)

lemma my_consumes: "consumes h t (my_consumeTOTPChallenge h t)"
  unfolding consumes_def
proof (intro conjI allI impI, goal_cases)
  case (2 c)
  then have c: "fault c = (\<lambda>_. False)" "totp_tables_ok (tables c)" by simp_all
  show ?case
    using live_challenge_cases [OF c(2), of h t]
  proof (elim disjE exE conjE)
    fix r
    assume r: "filter (consumable h t) (t_totp_challenges (tables c)) = [r]"
      "keyed tc_TokenHash (t_totp_challenges (tables c)) h = Some r" "tc_ConsumedAt r = None" "t < tc_ExpiresAt r"
      "totp_challenges (totp_tables_view (tables c)) h = Some (TotpChallenge.truncate r)"
    note u = consume_challenge_eq [OF c(2) r(2), of "\<lambda>c. tc_ConsumedAt c = None \<and> t < tc_ExpiresAt c"
        "\<lambda>c. tc_ConsumedAt c = None" t]
    have rows: "filter (\<lambda>c. tc_TokenHash c = h \<and> tc_ConsumedAt c = None) (t_totp_challenges (tables c)) = [r]"
      using r(2,3) by (simp add: filter_keyed totp_tables_okD(4) [OF c(2)])
    show ?thesis
      using r u rows c(1) by (intro disjI2 exI [of _ "TotpChallenge.truncate r"])
        (simp add: my_consumeTOTPChallenge_def bindM_eq on_err_eq stmt_quiet sql_select_def sql_update_def
          first_row_def TotpChallenge.truncate_def)
  qed (simp add: my_consumeTOTPChallenge_def bindM_eq on_err_eq stmt_quiet c sql_select_def first_row_def)
qed simp

lemma my_totp_CompleteCode_implements:
  "counter_ok n \<Longrightarrow> implements totp_view totp_conn_ok (my_totp_CompleteCode h n t) (lossy_spec False (code_fun h n t))"
  using complete_code_implements [OF _ my_consumes] by (simp add: my_totp_CompleteCode_def)

lemma my_totp_CompleteRecovery_implements:
  "implements totp_view totp_conn_ok (my_totp_CompleteRecovery h code t) (lossy_spec False (recovery_fun h code t))"
  using complete_recovery_implements [OF my_consumes] by (simp add: my_totp_CompleteRecovery_def)

interpretation my_totp: totp_store "my_TOTPStore codec" "codec_encrypt ''mysql'' codec"
  "codec_decrypt ''mysql'' codec" totp_view my_totp_ok False
  for codec
proof
  show "my_totp_ok c \<Longrightarrow> totp_ok (totp_view c)" for c by (simp add: my_totp_ok_def totp_conn_view_ok)
  show "implements totp_view my_totp_ok (ts_BeginEnrollment (my_TOTPStore codec) e)
      (spec_BeginEnrollment (codec_encrypt ''mysql'' codec) e)" for e
    using my_totp_implements [OF pg_totp_BeginEnrollment_implements pg_totp_robust(2), of "named_codec ''mysql'' codec"]
    by (simp add: my_TOTPStore_def my_totp_shared)
  show "implements totp_view my_totp_ok (ts_FindEnrollment (my_TOTPStore codec) i)
      (spec_FindEnrollment (codec_decrypt ''mysql'' codec) i)" for i
    using my_totp_implements [OF pg_totp_FindEnrollment_implements pg_totp_robust(3), of "named_codec ''mysql'' codec"]
    by (simp add: my_TOTPStore_def my_totp_shared)
  show "implements totp_view my_totp_ok (ts_FindChallenge (my_TOTPStore codec) h)
      (spec_FindChallenge (codec_decrypt ''mysql'' codec) h)" for h
    using my_totp_implements [OF pg_totp_FindChallenge_implements pg_totp_robust(7), of "named_codec ''mysql'' codec"]
    by (simp add: my_TOTPStore_def my_totp_shared)
qed (simp_all add: my_TOTPStore_def my_totp_shared my_totp_Disable_implements my_totp_robust
    my_totp_implements pg_totp_IsEnabled_implements pg_totp_Enable_implements pg_totp_CreateChallenge_implements
    my_totp_CompleteCode_implements my_totp_CompleteRecovery_implements pg_totp_robust)

end
