(* ===== verification/MongoTotp.thy ===== *)
theory MongoTotp
  imports PostgresTotp MongoAccounts
begin

text \<open>
  The second factor in the MongoDB adapter (src/storage/mongodb/totp.go), on collections that are the tables
  of the theory TotpTables. A field with \<^verbatim>\<open>omitempty\<close> is absent exactly when its pointer is nil, so
  \<^verbatim>\<open>$exists: false\<close> is \<open>= None\<close>. Recovery codes are unique by the index of \<^verbatim>\<open>Adapter.Migrate\<close>.
\<close>

definition mg_totp_IsEnabled :: "string \<Rightarrow> totp_conn \<Rightarrow> (err + bool) \<times> totp_conn" where
  "mg_totp_IsEnabled subjectID =
     bindM (stmt (\<lambda>d. (Inr (length (filter (\<lambda>r. cr_SubjectID r = subjectID \<and> cr_DisabledAt r = None)
              (t_credentials d))), d))) (\<lambda>count. retM (Inr (0 < count)))"

definition mg_totp_encrypt :: "secret_codec option \<Rightarrow> string \<Rightarrow> totp_conn \<Rightarrow> (err + string) \<times> totp_conn" where
  "mg_totp_encrypt codec secret c = (codec_encrypt ''mongodb'' codec (stmt_pos c) secret, c)"

definition mg_totp_decrypt :: "secret_codec option \<Rightarrow> string \<Rightarrow> totp_conn \<Rightarrow> (err + string) \<times> totp_conn" where
  "mg_totp_decrypt codec encrypted c = (codec_decrypt ''mongodb'' codec (stmt_pos c) encrypted, c)"

definition mg_replace_enrollment :: "Enrollment \<Rightarrow> totp_tables \<Rightarrow> (err + unit) \<times> totp_tables" where
  "mg_replace_enrollment document d =
     (case replace_one (\<lambda>e. en_SubjectID e = en_SubjectID document) (\<lambda>x y. en_SubjectID x = en_SubjectID y)
             document (t_enrollments d) of
        (r, t) \<Rightarrow> (r, d\<lparr>t_enrollments := t\<rparr>))"

definition mg_replace_credential :: "totpCredentialDocument \<Rightarrow> totp_tables \<Rightarrow> (err + unit) \<times> totp_tables" where
  "mg_replace_credential document d =
     (case replace_one (\<lambda>r. cr_SubjectID r = cr_SubjectID document) (\<lambda>x y. cr_SubjectID x = cr_SubjectID y)
             document (t_credentials d) of
        (r, t) \<Rightarrow> (r, d\<lparr>t_credentials := t\<rparr>))"

definition mg_totp_BeginEnrollment :: "secret_codec option \<Rightarrow> Enrollment \<Rightarrow> totp_conn \<Rightarrow> (err + unit) \<times> totp_conn" where
  "mg_totp_BeginEnrollment codec enrollment =
     bindM (mg_totp_encrypt codec (en_Secret enrollment)) (\<lambda>secret.
     stmt (mg_replace_enrollment (enrollment\<lparr>en_Secret := secret\<rparr>)))"

definition mg_totp_FindEnrollment ::
  "secret_codec option \<Rightarrow> string \<Rightarrow> totp_conn \<Rightarrow> (err + Enrollment) \<times> totp_conn" where
  "mg_totp_FindEnrollment codec subjectID =
     bindM (on_err (\<lambda>e. if errors_is e ENoRows then ETotp Totp_ErrNotFound else e)
              (stmt (\<lambda>d. (first_row (filter (\<lambda>e. en_SubjectID e = subjectID) (t_enrollments d)), d)))) (\<lambda>document.
     bindM (mg_totp_decrypt codec (en_Secret document)) (\<lambda>secret.
     retM (Inr (document\<lparr>en_Secret := secret\<rparr>))))"

text \<open>\<^verbatim>\<open>InsertMany\<close> stops at the first document that the unique index refuses.\<close>

fun mg_insert_codes :: "string \<Rightarrow> hash list \<Rightarrow> totp_tables \<Rightarrow> (err + unit) \<times> totp_tables" where
  "mg_insert_codes subjectID [] d = (Inr (), d)"
| "mg_insert_codes subjectID (code # codes) d =
     (case sql_insert (\<lambda>x y. rc_SubjectID x = rc_SubjectID y \<and> rc_CodeHash x = rc_CodeHash y)
             \<lparr>rc_SubjectID = subjectID, rc_CodeHash = code, rc_UsedAt = None\<rparr> (t_recovery d) of
        (Inl e, _) \<Rightarrow> (Inl e, d)
      | (Inr _, t) \<Rightarrow> mg_insert_codes subjectID codes (d\<lparr>t_recovery := t\<rparr>))"

definition mg_totp_Enable ::
  "string \<Rightarrow> counter \<Rightarrow> hash list \<Rightarrow> time \<Rightarrow> totp_conn \<Rightarrow> (err + unit) \<times> totp_conn" where
  "mg_totp_Enable subjectID confirmedCounter recoveryCodes enabledAt =
     transaction
       (bindM (on_err (\<lambda>e. if errors_is e ENoRows then ETotp Totp_ErrNotFound else e)
                 (stmt (\<lambda>d. (first_row (filter (\<lambda>e. en_SubjectID e = subjectID) (t_enrollments d)), d)))) (\<lambda>enrollment.
        if \<not> enabledAt < en_ExpiresAt enrollment then retM (Inl (ETotp Totp_ErrInactiveEnrollment))
        else
        bindM (stmt (mg_replace_credential \<lparr>cr_SubjectID = subjectID, cr_Secret = en_Secret enrollment,
                 cr_EnabledAt = enabledAt, cr_LastUsedCounter = Some confirmedCounter, cr_DisabledAt = None\<rparr>)) (\<lambda>_.
        bindM (stmt (delete_codes subjectID)) (\<lambda>_.
        bindM (if recoveryCodes = [] then retM (Inr ()) else stmt (mg_insert_codes subjectID recoveryCodes)) (\<lambda>_.
        stmt (\<lambda>d. (Inr (), d\<lparr>t_enrollments :=
          delete_first (\<lambda>e. en_SubjectID e = subjectID) (t_enrollments d)\<rparr>)))))))"

definition mg_totp_Disable :: "string \<Rightarrow> time \<Rightarrow> totp_conn \<Rightarrow> (err + unit) \<times> totp_conn" where
  "mg_totp_Disable subjectID disabledAt =
     transaction
       (bindM (stmt (\<lambda>d. case update_first (\<lambda>r. cr_SubjectID r = subjectID \<and> cr_DisabledAt r = None)
                  (\<lambda>r. r\<lparr>cr_DisabledAt := Some disabledAt\<rparr>) (t_credentials d) of
                (n, t) \<Rightarrow> (Inr n, d\<lparr>t_credentials := t\<rparr>))) (\<lambda>matchedCount.
        bindM (if matchedCount = 0
               then on_err (\<lambda>e. if errors_is e ENoRows then ETotp Totp_ErrNotFound else e)
                      (stmt (\<lambda>d. (case first_row (filter (\<lambda>r. cr_SubjectID r = subjectID) (t_credentials d)) of
                           Inl e \<Rightarrow> Inl e | Inr _ \<Rightarrow> Inr (), d)))
               else retM (Inr ())) (\<lambda>_.
        stmt (delete_codes subjectID))))"

definition mg_totp_CreateChallenge :: "TotpChallenge \<Rightarrow> totp_conn \<Rightarrow> (err + unit) \<times> totp_conn" where
  "mg_totp_CreateChallenge challenge =
     on_err (\<lambda>e. if mg_duplicateKey e then ETotp Totp_ErrConflict else e) (stmt (insert_totp_challenge challenge))"

definition mg_totp_FindChallenge ::
  "secret_codec option \<Rightarrow> hash \<Rightarrow> totp_conn \<Rightarrow> (err + TotpChallenge \<times> Credential) \<times> totp_conn" where
  "mg_totp_FindChallenge codec challengeHash =
     bindM (on_err (\<lambda>e. if errors_is e ENoRows then ETotp Totp_ErrNotFound else e)
              (stmt (\<lambda>d. (first_row (filter (\<lambda>c. tc_TokenHash c = challengeHash \<and> tc_ConsumedAt c = None)
                 (t_totp_challenges d)), d)))) (\<lambda>c.
     bindM (on_err (\<lambda>e. if errors_is e ENoRows then ETotp Totp_ErrNotFound else e)
              (stmt (\<lambda>d. (first_row (filter (\<lambda>r. cr_SubjectID r = tc_SubjectID c \<and> cr_DisabledAt r = None)
                 (t_credentials d)), d)))) (\<lambda>t.
     bindM (mg_totp_decrypt codec (cr_Secret t)) (\<lambda>secret.
     retM (Inr (TotpChallenge.truncate c,
       \<lparr>cd_SubjectID = cr_SubjectID t, cd_Secret = secret, cd_EnabledAt = cr_EnabledAt t,
        cd_LastUsedCounter = (case cr_LastUsedCounter t of None \<Rightarrow> 0 | Some n \<Rightarrow> n),
        cd_HasLastUsedCounter = (cr_LastUsedCounter t \<noteq> None)\<rparr>)))))"

text \<open>\<^verbatim>\<open>FindOneAndUpdate\<close> is one atomic statement.\<close>

definition mg_consumeChallenge :: "hash \<Rightarrow> time \<Rightarrow> totp_conn \<Rightarrow> (err + string) \<times> totp_conn" where
  "mg_consumeChallenge h t =
     on_err (\<lambda>e. if errors_is e ENoRows then ETotp Totp_ErrInactiveChallenge else e)
       (stmt (\<lambda>d. let p = (\<lambda>c. tc_TokenHash c = h \<and> tc_ConsumedAt c = None \<and> t < tc_ExpiresAt c) in
          (first_row (map tc_SubjectID (filter p (t_totp_challenges d))),
           d\<lparr>t_totp_challenges := snd (update_first p (\<lambda>c. c\<lparr>tc_ConsumedAt := Some t\<rparr>) (t_totp_challenges d))\<rparr>)))"

definition mg_totp_CompleteCode :: "hash \<Rightarrow> counter \<Rightarrow> time \<Rightarrow> totp_conn \<Rightarrow> (err + string) \<times> totp_conn" where
  "mg_totp_CompleteCode challengeHash counter completedAt =
     transaction
       (bindM (mg_consumeChallenge challengeHash completedAt) (\<lambda>subjectID.
        bindM (stmt (\<lambda>d. case update_first (\<lambda>r. cr_SubjectID r = subjectID \<and> cr_DisabledAt r = None \<and>
                    (case cr_LastUsedCounter r of None \<Rightarrow> True | Some m \<Rightarrow> sint m < sint counter))
                  (\<lambda>r. r\<lparr>cr_LastUsedCounter := Some counter\<rparr>) (t_credentials d) of
                (n, t) \<Rightarrow> (Inr n, d\<lparr>t_credentials := t\<rparr>))) (\<lambda>matchedCount.
        if matchedCount = 0 then retM (Inl (ETotp Totp_ErrInvalidCode)) else retM (Inr subjectID))))"

definition mg_totp_CompleteRecovery :: "hash \<Rightarrow> hash \<Rightarrow> time \<Rightarrow> totp_conn \<Rightarrow> (err + string) \<times> totp_conn" where
  "mg_totp_CompleteRecovery challengeHash recoveryCode completedAt =
     transaction
       (bindM (mg_consumeChallenge challengeHash completedAt) (\<lambda>subjectID.
        bindM (stmt (\<lambda>d. case update_first (\<lambda>r. rc_SubjectID r = subjectID \<and> rc_CodeHash r = recoveryCode \<and> rc_UsedAt r = None)
                  (\<lambda>r. r\<lparr>rc_UsedAt := Some completedAt\<rparr>) (t_recovery d) of
                (n, t) \<Rightarrow> (Inr n, d\<lparr>t_recovery := t\<rparr>))) (\<lambda>matchedCount.
        if matchedCount = 0 then retM (Inl (ETotp Totp_ErrInvalidCode)) else retM (Inr subjectID))))"

definition mg_TOTPStore :: "secret_codec option \<Rightarrow> totp_conn TotpStore" where
  "mg_TOTPStore codec =
     \<lparr>ts_IsEnabled = mg_totp_IsEnabled, ts_BeginEnrollment = mg_totp_BeginEnrollment codec,
      ts_FindEnrollment = mg_totp_FindEnrollment codec, ts_Enable = mg_totp_Enable, ts_Disable = mg_totp_Disable,
      ts_CreateChallenge = mg_totp_CreateChallenge, ts_FindChallenge = mg_totp_FindChallenge codec,
      ts_CompleteCode = mg_totp_CompleteCode, ts_CompleteRecovery = mg_totp_CompleteRecovery\<rparr>"

section \<open>The operations do what those of PostgreSQL do\<close>

lemma mg_replace_enrollment_eq:
  "totp_tables_ok d \<Longrightarrow> mg_replace_enrollment e d = upsert_enrollment e d"
proof -
  assume d: "totp_tables_ok d"
  have "(\<lambda>x. if en_SubjectID x = en_SubjectID e then e else x) = (\<lambda>x. if en_SubjectID x = en_SubjectID e
      then x\<lparr>en_Secret := en_Secret e, en_CreatedAt := en_CreatedAt e, en_ExpiresAt := en_ExpiresAt e\<rparr> else x)"
    by (auto simp: fun_eq_iff)
  with totp_tables_okD(1) [OF d] show ?thesis
    by (auto simp: mg_replace_enrollment_def upsert_enrollment_def upsert_def replace_one_def sql_insert_def
        update_unique list_ex_iff eq_commute [of "en_SubjectID e"])
qed

lemma mg_replace_credential_eq:
  "totp_tables_ok d \<Longrightarrow> cr_DisabledAt r = None \<Longrightarrow> mg_replace_credential r d = upsert_credential r d"
proof -
  assume d: "totp_tables_ok d" and r: "cr_DisabledAt r = None"
  have "(\<lambda>x. if cr_SubjectID x = cr_SubjectID r then r else x) = (\<lambda>x. if cr_SubjectID x = cr_SubjectID r
      then x\<lparr>cr_Secret := cr_Secret r, cr_EnabledAt := cr_EnabledAt r, cr_LastUsedCounter := cr_LastUsedCounter r,
           cr_DisabledAt := None\<rparr> else x)"
    using r by (auto simp: fun_eq_iff)
  with totp_tables_okD(2) [OF d] show ?thesis
    by (auto simp: mg_replace_credential_def upsert_credential_def upsert_def replace_one_def sql_insert_def
        update_unique list_ex_iff eq_commute [of "cr_SubjectID r"])
qed

lemma alike_totp:
  assumes "implements totp_view totp_conn_ok op' spec" and "robust op"
    and run: "\<And>d. totp_tables_ok d \<Longrightarrow> alike 0 d op op'"
  shows "implements totp_view totp_conn_ok op spec"
proof (rule totp_implements [OF assms(2)])
  fix c :: totp_conn
  assume c: "fault c = (\<lambda>_. False)" "totp_tables_ok (tables c)"
  let ?c = "c\<lparr>db_clock := \<lambda>_. 0\<rparr>"
  have eq: "fst (op c) = fst (op' ?c)" "tables (snd (op c)) = tables (snd (op' ?c))"
    using alikeD [OF run [OF c(2)] c(1) _ refl, of ?c] c(1) by simp_all
  have "totp_conn_ok ?c" using c(2) by (simp add: totp_conn_ok_def)
  then show "totp_tables_ok (tables (snd (op c))) \<and>
      ((\<exists>e. is_driver e \<and> fst (op c) = Inl e) \<and> totp_tables_view (tables (snd (op c))) = totp_tables_view (tables c) \<or>
       spec (totp_tables_view (tables c)) (fst (op c)) (totp_tables_view (tables (snd (op c)))))"
    using assms(1) [unfolded implements_def totp_view_def totp_conn_ok_def, rule_format, of ?c] unfolding eq
    by (simp add: totp_conn_ok_def)
qed

lemma mg_totp_steps [simp, intro!]: "steps (mg_consumeChallenge h t)"
  by (auto simp: mg_consumeChallenge_def Let_def)

lemma mg_totp_robust [intro!]:
  "robust (mg_totp_IsEnabled i)" "robust (mg_totp_BeginEnrollment codec e)"
  "robust (mg_totp_Enable i n codes t)" "robust (mg_totp_Disable i t)" "robust (mg_totp_CreateChallenge ch)"
  "robust (mg_totp_CompleteCode h n t)" "robust (mg_totp_CompleteRecovery h r t)"
proof -
  show "robust (mg_totp_BeginEnrollment codec e)"
    using robust_codec_then [where g = "\<lambda>n. codec_encrypt ''mongodb'' codec n (en_Secret e)"
        and k = "\<lambda>s. stmt (mg_replace_enrollment (e\<lparr>en_Secret := s\<rparr>))"]
    by (simp add: mg_totp_BeginEnrollment_def mg_totp_encrypt_def [abs_def] robust_stmt)
qed (auto simp: mg_totp_IsEnabled_def mg_totp_Enable_def mg_totp_Disable_def mg_totp_CreateChallenge_def
    mg_totp_CompleteCode_def mg_totp_CompleteRecovery_def mg_duplicateKey_def connection_error_def
    simp del: retM_simps)

lemma mg_totp_IsEnabled_implements:
  "implements totp_view totp_conn_ok (mg_totp_IsEnabled i) (fun_spec (spec_IsEnabled i))"
  by (rule alike_totp [OF pg_totp_IsEnabled_implements mg_totp_robust(1)])
    (auto simp: mg_totp_IsEnabled_def pg_totp_IsEnabled_def alike_def bindM_eq stmt_quiet list_ex_iff filter_empty_conv)

lemma mg_totp_BeginEnrollment_implements:
  "implements totp_view totp_conn_ok (mg_totp_BeginEnrollment codec e)
     (spec_BeginEnrollment (codec_encrypt ''mongodb'' codec) e)"
  using begin_enrollment_implements [of mg_replace_enrollment "codec_encrypt ''mongodb'' codec" e] mg_totp_robust(2)
  by (simp add: mg_totp_BeginEnrollment_def mg_totp_encrypt_def [abs_def] mg_replace_enrollment_eq)

lemma mg_totp_FindEnrollment_eq:
  "mg_totp_FindEnrollment codec i = pg_totp_FindEnrollment (named_codec ''mongodb'' codec) i"
  by (simp add: mg_totp_FindEnrollment_def pg_totp_FindEnrollment_def mg_totp_decrypt_def [abs_def]
      pg_totp_decrypt_def [abs_def] sql_select_def)

lemma alike_insert_codes:
  assumes "keyed cr_SubjectID (t_credentials d) i \<noteq> None" and "distinct (map cr_SubjectID (t_credentials d))"
  shows "alike t d (stmt (mg_insert_codes i codes)) (pg_insert_codes i codes)"
  using assms
proof (induction codes arbitrary: d)
  case Nil
  then show ?case by (auto simp: alike_def stmt_quiet)
next
  case (Cons code codes)
  let ?d = "snd (insert_code i code d)"
  show ?case
  proof (cases "fst (insert_code i code d)")
    case (Inl e)
    then have "mg_insert_codes i (code # codes) d = (Inl e, d) \<and> snd (insert_code i code d) = d"
      using Cons.prems by (auto simp: insert_code_def list_ex_keyed split: sum.splits prod.splits if_splits)
    then show ?thesis using Inl by (auto simp: alike_def stmt_quiet bindM_eq)
  next
    case (Inr u)
    have e: "mg_insert_codes i (code # codes) d = mg_insert_codes i codes ?d"
      using Inr by (auto simp: insert_code_def split: sum.splits prod.splits if_splits)
    have "t_credentials ?d = t_credentials d"
      by (auto simp: insert_code_def split: sum.splits prod.splits if_splits)
    then have IH: "alike t ?d (stmt (mg_insert_codes i codes)) (pg_insert_codes i codes)"
      using Cons by simp
    show ?thesis
    proof (rule alikeI)
      fix c c' :: totp_conn
      assume c: "fault c = (\<lambda>_. False)" "fault c' = (\<lambda>_. False)" "tables c = d" "tables c' = d" "db_clock c' = (\<lambda>_. t)"
      let ?c = "c\<lparr>tables := ?d\<rparr>" and ?c' = "c'\<lparr>tables := ?d, stmt_pos := Suc (stmt_pos c')\<rparr>"
      show "fst (stmt (mg_insert_codes i (code # codes)) c) = fst (pg_insert_codes i (code # codes) c') \<and>
         tables (snd (stmt (mg_insert_codes i (code # codes)) c)) = tables (snd (pg_insert_codes i (code # codes) c')) \<and>
         fault (snd (stmt (mg_insert_codes i (code # codes)) c)) = (\<lambda>_. False) \<and>
         fault (snd (pg_insert_codes i (code # codes) c')) = (\<lambda>_. False) \<and>
         db_clock (snd (pg_insert_codes i (code # codes) c')) = (\<lambda>_. t)"
        using alikeD [OF IH, of ?c ?c'] c Inr by (simp add: stmt_quiet bindM_eq e del: mg_insert_codes.simps)
    qed
  qed
qed

lemma mg_totp_Enable_implements:
  assumes n: "counter_ok n"
  shows "implements totp_view totp_conn_ok (mg_totp_Enable i n codes t) (fun_spec (spec_Enable i n codes t))"
proof (rule alike_totp [OF pg_totp_Enable_implements [OF n] mg_totp_robust(3)])
  fix d assume d: "totp_tables_ok d"
  have ins: "alike 0 e (if codes = [] then retM (Inr ()) else stmt (mg_insert_codes i codes)) (pg_insert_codes i codes)"
    if "keyed cr_SubjectID (t_credentials e) i \<noteq> None" "distinct (map cr_SubjectID (t_credentials e))" for e
    using alike_insert_codes [OF that, of 0 codes] by (auto intro: alike_ret simp del: retM_simps)
  have en: "distinct (map en_SubjectID (t_enrollments (tables (snd (pg_insert_codes i codes c)))))"
    if "distinct (map en_SubjectID (t_enrollments (tables c)))" for c
    using that
  proof (induction codes arbitrary: c)
    case (Cons x xs)
    have "distinct (map en_SubjectID (t_enrollments (tables (snd (stmt (insert_code i x) c)))))"
      using Cons.prems by (auto simp: stmt_def insert_code_def split: sum.split prod.split)
    then show ?case using Cons.IH by (simp add: bindM_eq split: sum.split)
  qed simp
  show "alike 0 d (mg_totp_Enable i n codes t) (pg_totp_Enable i n codes t)"
    unfolding mg_totp_Enable_def pg_totp_Enable_def
  proof (intro alike_transaction alike_bind_err, goal_cases)
    case (2 e)
    let ?r = "\<lparr>cr_SubjectID = i, cr_Secret = en_Secret e, cr_EnabledAt = t, cr_LastUsedCounter = Some n,
        cr_DisabledAt = None\<rparr>"
    note u = upsert_credential_eq [OF d, of ?r n, simplified, OF n]
    show ?case
    proof (cases "t < en_ExpiresAt e")
      case True
      have "alike 0 (snd (delete_codes i (snd (mg_replace_credential ?r d))))
          (bindM (if codes = [] then retM (Inr ()) else stmt (mg_insert_codes i codes))
             (\<lambda>_. stmt (\<lambda>d. (Inr (), d\<lparr>t_enrollments := delete_first (\<lambda>e. en_SubjectID e = i) (t_enrollments d)\<rparr>))))
          (bindM (pg_insert_codes i codes)
             (\<lambda>_. stmt (\<lambda>d. (Inr (), d\<lparr>t_enrollments := snd (sql_delete (\<lambda>e. en_SubjectID e = i) (t_enrollments d))\<rparr>))))"
        (is "alike 0 ?d2 _ _")
      proof (rule alike_seq)
        have k: "t_credentials ?d2 = t_credentials (snd (upsert_credential ?r d))"
          "t_enrollments ?d2 = t_enrollments d"
          using d u(5) by (simp_all add: mg_replace_credential_eq delete_codes_def)
        show i: "alike 0 ?d2 (if codes = [] then retM (Inr ()) else stmt (mg_insert_codes i codes)) (pg_insert_codes i codes)"
          using u(3) totp_tables_okD(2) [OF u(1)] by (intro ins) (simp_all add: k)
        fix c :: totp_conn and v
        assume c: "fault c = (\<lambda>_. False)" "tables c = ?d2"
        have "tables (snd ((if codes = [] then retM (Inr ()) else stmt (mg_insert_codes i codes)) c)) =
            tables (snd (pg_insert_codes i codes (c\<lparr>db_clock := \<lambda>_. 0\<rparr>)))"
          using alikeD(2) [OF i c(1), of "c\<lparr>db_clock := \<lambda>_. 0\<rparr>"] c by simp
        then have "distinct (map en_SubjectID (t_enrollments
            (tables (snd ((if codes = [] then retM (Inr ()) else stmt (mg_insert_codes i codes)) c)))))"
          using en [of "c\<lparr>db_clock := \<lambda>_. 0\<rparr>"] c(2) k(2) totp_tables_okD(1) [OF d] by simp
        then show "alike 0 (tables (snd ((if codes = [] then retM (Inr ()) else stmt (mg_insert_codes i codes)) c)))
            (stmt (\<lambda>d. (Inr (), d\<lparr>t_enrollments := delete_first (\<lambda>e. en_SubjectID e = i) (t_enrollments d)\<rparr>)))
            (stmt (\<lambda>d. (Inr (), d\<lparr>t_enrollments := snd (sql_delete (\<lambda>e. en_SubjectID e = i) (t_enrollments d))\<rparr>)))"
          by (intro alike_stmt) (simp add: delete_unique sql_delete_def)
      qed
      then show ?thesis
        using True d by (auto simp: mg_replace_credential_eq intro!: alike_bind simp del: retM_simps)
    qed (auto intro: alike_ret simp del: retM_simps)
  qed (simp add: sql_select_def)
qed

lemma mg_totp_Disable_implements:
  "implements totp_view totp_conn_ok (mg_totp_Disable i t) (fun_spec (spec_Disable i t))"
proof (rule totp_implements [OF mg_totp_robust(4)])
  fix c :: totp_conn
  assume c: "fault c = (\<lambda>_. False)" "totp_tables_ok (tables c)"
  let ?d = "tables c" and ?op = "mg_totp_Disable i t" and ?p = "\<lambda>r. cr_DisabledAt r = None"
  let ?f = "\<lambda>r. r\<lparr>cr_DisabledAt := Some t\<rparr>"
  let ?d1 = "?d\<lparr>t_credentials := map (\<lambda>r. if cr_SubjectID r = i \<and> ?p r then ?f r else r) (t_credentials ?d)\<rparr>"
  define body where "body = bindM (stmt (\<lambda>d. case update_first (\<lambda>r. cr_SubjectID r = i \<and> cr_DisabledAt r = None)
                  (\<lambda>r. r\<lparr>cr_DisabledAt := Some t\<rparr>) (t_credentials d) of
                (n, t) \<Rightarrow> (Inr n, d\<lparr>t_credentials := t\<rparr>))) (\<lambda>matchedCount.
        bindM (if matchedCount = 0
               then on_err (\<lambda>e. if errors_is e ENoRows then ETotp Totp_ErrNotFound else e)
                      (stmt (\<lambda>d. (case first_row (filter (\<lambda>r. cr_SubjectID r = i) (t_credentials d)) of
                           Inl e \<Rightarrow> Inl e | Inr _ \<Rightarrow> Inr (), d)))
               else retM (Inr ())) (\<lambda>_.
        stmt (delete_codes i)))"
  have sb: "steps body" by (auto simp: body_def simp del: retM_simps)
  have op: "fst (?op c) = fst (body (c\<lparr>stmt_pos := Suc (stmt_pos c)\<rparr>))"
    "tables (snd (?op c)) = (if isl (fst (body (c\<lparr>stmt_pos := Suc (stmt_pos c)\<rparr>))) then ?d
       else tables (snd (body (c\<lparr>stmt_pos := Suc (stmt_pos c)\<rparr>))))"
    unfolding mg_totp_Disable_def body_def [symmetric] using transaction_quiet [OF sb c(1)] by simp_all
  note D = totp_tables_okD(2) [OF c(2)]
  note u = update_credential_eq [OF c(2), where f = ?f and p = ?p and i = i, simplified]
  note dc = delete_codes_eq [OF u(1), of i]
  note eval = body_def bindM_eq on_err_eq stmt_quiet update_first_keyed [OF D] filter_keyed [OF D] filter_keyed_eq [OF D]
    first_row_def
  show "totp_tables_ok (tables (snd (?op c))) \<and>
      ((\<exists>e. is_driver e \<and> fst (?op c) = Inl e) \<and> totp_tables_view (tables (snd (?op c))) = totp_tables_view ?d \<or>
       fun_spec (spec_Disable i t) (totp_tables_view ?d) (fst (?op c)) (totp_tables_view (tables (snd (?op c)))))"
  proof (cases "keyed cr_SubjectID (t_credentials ?d) i")
    case None
    have same: "map (\<lambda>r. if cr_SubjectID r = i \<and> ?p r then ?f r else r) (t_credentials ?d) = t_credentials ?d"
      using None by (auto simp: keyed_None intro!: map_idI)
    have run: "fst (?op c) = Inl (ETotp Totp_ErrNotFound)" "tables (snd (?op c)) = ?d"
      unfolding op using c(1) None by (simp_all add: eval same)
    show ?thesis unfolding run using c(2) None by (simp add: fun_spec_def spec_Disable_def index_def)
  next
    case (Some r)
    have run: "fst (?op c) = Inr () \<and> tables (snd (?op c)) = snd (delete_codes i ?d1)"
    proof (cases "?p r")
      case True
      then show ?thesis unfolding op using c(1) Some by (simp add: eval)
    next
      case False
      have "\<not> ?p x" if "x \<in> set (t_credentials ?d)" "cr_SubjectID x = i" for x
      proof -
        have "keyed cr_SubjectID (t_credentials ?d) i = Some x" using that keyed_Some [OF D] by blast
        with Some False show ?thesis by simp
      qed
      then have same: "map (\<lambda>r. if cr_SubjectID r = i \<and> ?p r then ?f r else r) (t_credentials ?d) = t_credentials ?d"
        by (auto intro!: map_idI)
      show ?thesis unfolding op using c(1) Some False by (simp add: eval same)
    qed
    have "totp_tables_view (snd (delete_codes i ?d1)) = snd (spec_Disable i t (totp_tables_view ?d)) \<and>
        fst (spec_Disable i t (totp_tables_view ?d)) = Inr ()"
      unfolding dc(2) u(2) using Some
      by (intro conjI totp_view_eqI)
        (auto simp: spec_Disable_def index_def stored_credential_def fun_eq_iff split: option.split)
    with run dc(1) show ?thesis by (simp add: fun_spec_def prod_eq_iff)
  qed
qed

lemma mg_totp_CreateChallenge_implements:
  "implements totp_view totp_conn_ok (mg_totp_CreateChallenge ch) (spec_CreateTotpChallenge ch)"
  using pg_totp_CreateChallenge_implements
  by (simp add: mg_totp_CreateChallenge_def pg_totp_CreateChallenge_def mg_duplicateKey_def)

lemma mg_totp_FindChallenge_robust: "robust (mg_totp_FindChallenge codec h)"
proof -
  have "mg_totp_FindChallenge codec h =
      bindM (bindM (on_err (\<lambda>e. if errors_is e ENoRows then ETotp Totp_ErrNotFound else e)
              (stmt (\<lambda>d. (first_row (filter (\<lambda>c. tc_TokenHash c = h \<and> tc_ConsumedAt c = None)
                 (t_totp_challenges d)), d)))) (\<lambda>c.
            bindM (on_err (\<lambda>e. if errors_is e ENoRows then ETotp Totp_ErrNotFound else e)
              (stmt (\<lambda>d. (first_row (filter (\<lambda>r. cr_SubjectID r = tc_SubjectID c \<and> cr_DisabledAt r = None)
                 (t_credentials d)), d)))) (\<lambda>t. retM (Inr (c, t)))))
        (\<lambda>v c. (case codec_decrypt ''mongodb'' codec (stmt_pos c) (cr_Secret (snd v)) of Inl err \<Rightarrow> Inl err
           | Inr s \<Rightarrow> Inr (TotpChallenge.truncate (fst v),
               \<lparr>cd_SubjectID = cr_SubjectID (snd v), cd_Secret = s, cd_EnabledAt = cr_EnabledAt (snd v),
                cd_LastUsedCounter = (case cr_LastUsedCounter (snd v) of None \<Rightarrow> 0 | Some n \<Rightarrow> n),
                cd_HasLastUsedCounter = (cr_LastUsedCounter (snd v) \<noteq> None)\<rparr>), c))"
    by (intro ext) (auto simp: mg_totp_FindChallenge_def mg_totp_decrypt_def bindM_def split: sum.split prod.split)
  moreover have "robust (bindM (on_err (\<lambda>e. if errors_is e ENoRows then ETotp Totp_ErrNotFound else e)
              (stmt (\<lambda>d. (first_row (filter (\<lambda>c. tc_TokenHash c = h \<and> tc_ConsumedAt c = None)
                 (t_totp_challenges d)), d)))) (\<lambda>c.
            bindM (on_err (\<lambda>e. if errors_is e ENoRows then ETotp Totp_ErrNotFound else e)
              (stmt (\<lambda>d. (first_row (filter (\<lambda>r. cr_SubjectID r = tc_SubjectID c \<and> cr_DisabledAt r = None)
                 (t_credentials d)), d)))) (\<lambda>t. retM (Inr (c, t)))))"
    by (intro robust_reading) (auto simp: bindM_eq on_err_eq stmt_def split: sum.split)
  ultimately show ?thesis by (auto intro!: robust_then_codec)
qed

lemma mg_totp_FindChallenge_implements:
  "implements totp_view totp_conn_ok (mg_totp_FindChallenge codec h)
     (spec_FindChallenge (codec_decrypt ''mongodb'' codec) h)"
proof (rule totp_implements [OF mg_totp_FindChallenge_robust])
  fix c :: totp_conn
  assume c: "fault c = (\<lambda>_. False)" "totp_tables_ok (tables c)"
  let ?d = "tables c" and ?op = "mg_totp_FindChallenge codec h"
  note eval = mg_totp_FindChallenge_def bindM_eq on_err_eq stmt_quiet filter_keyed [OF totp_tables_okD(4) [OF c(2)]]
    filter_keyed [OF totp_tables_okD(2) [OF c(2)]] first_row_def
  show "totp_tables_ok (tables (snd (?op c))) \<and>
      ((\<exists>e. is_driver e \<and> fst (?op c) = Inl e) \<and> totp_tables_view (tables (snd (?op c))) = totp_tables_view ?d \<or>
       spec_FindChallenge (codec_decrypt ''mongodb'' codec) h (totp_tables_view ?d)
         (fst (?op c)) (totp_tables_view (tables (snd (?op c)))))"
  proof (cases "keyed tc_TokenHash (t_totp_challenges ?d) h")
    case None
    then show ?thesis using c by (simp add: eval spec_FindChallenge_def)
  next
    case x: (Some x)
    show ?thesis
    proof (cases "tc_ConsumedAt x = None \<and> (\<exists>y. keyed cr_SubjectID (t_credentials ?d) (tc_SubjectID x) = Some y \<and>
        cr_DisabledAt y = None)")
      case False
      then show ?thesis
        using c x by (auto simp: eval spec_FindChallenge_def live_challenge_def index_def stored_credential_def
            TotpChallenge.truncate_def split: option.split)
    next
      case True
      then obtain y where y: "tc_ConsumedAt x = None" "cr_DisabledAt y = None"
        "keyed cr_SubjectID (t_credentials ?d) (tc_SubjectID x) = Some y" by blast
      have run: "fst (?op c) =
          (case codec_decrypt ''mongodb'' codec (Suc (Suc (stmt_pos c))) (cr_Secret y) of Inl err \<Rightarrow> Inl err
           | Inr s \<Rightarrow> Inr (TotpChallenge.truncate x, (Credential.truncate (stored_credential y))\<lparr>cd_Secret := s\<rparr>))"
        "tables (snd (?op c)) = ?d"
        using c x y by (simp_all add: eval mg_totp_decrypt_def stored_credential_def Credential.truncate_def
            split: sum.split)
      show ?thesis
        unfolding run using c(2) x y
        by (intro conjI disjI2 spec_FindChallengeI [where ch = "TotpChallenge.truncate x" and c = "stored_credential y"])
          (auto simp: live_challenge_def index_def stored_credential_def TotpChallenge.truncate_def)
    qed
  qed
qed

lemma update_first_consume:
  assumes "totp_tables_ok d"
  shows "update_first (consumable h t) f (t_totp_challenges d) =
    (length (filter (consumable h t) (t_totp_challenges d)),
     map (\<lambda>c. if consumable h t c then f c else c) (t_totp_challenges d))"
  using update_first_keyed [OF totp_tables_okD(4) [OF assms], of h "\<lambda>c. tc_ConsumedAt c = None \<and> t < tc_ExpiresAt c" f]
  by simp

lemma mg_consumes: "consumes h t (mg_consumeChallenge h t)"
  unfolding consumes_def
proof (intro conjI allI impI, goal_cases)
  case (2 c)
  then have c: "fault c = (\<lambda>_. False)" "totp_tables_ok (tables c)" by simp_all
  show ?case
    using live_challenge_cases [OF c(2), of h t]
  proof (elim disjE exE conjE)
    fix r
    assume r: "filter (consumable h t) (t_totp_challenges (tables c)) = [r]"
      "keyed tc_TokenHash (t_totp_challenges (tables c)) h = Some r" "tc_ConsumedAt r = None" "t < tc_ExpiresAt r"
      "totp_challenges (totp_tables_view (tables c)) h = Some (TotpChallenge.truncate r)"
    note u = consume_challenge_eq [OF c(2) r(2), of "\<lambda>c. tc_ConsumedAt c = None \<and> t < tc_ExpiresAt c"
        "\<lambda>c. tc_ConsumedAt c = None \<and> t < tc_ExpiresAt c" t]
    show ?thesis
      using r u c(1) by (intro disjI2 exI [of _ "TotpChallenge.truncate r"])
        (simp add: mg_consumeChallenge_def on_err_eq stmt_quiet first_row_def Let_def update_first_consume [OF c(2)]
          TotpChallenge.truncate_def)
  qed (simp add: mg_consumeChallenge_def on_err_eq stmt_quiet c first_row_def Let_def)
qed simp

lemma consumes_ok:
  assumes "consumes h t op" and "fault c = (\<lambda>_. False)" and "totp_tables_ok (tables c)"
    and "fst (op c) = Inr i"
  shows "totp_tables_ok (tables (snd (op c)))"
  using consumesD [OF assms(1-3)] assms(4) by auto

lemma alike_consume: "alike u d (mg_consumeChallenge h t) (mg_consumeChallenge h t)"
  by (auto simp: mg_consumeChallenge_def intro!: alike_on_err alike_stmt)

lemma mg_totp_CompleteCode_implements:
  assumes n: "counter_ok n"
  shows "implements totp_view totp_conn_ok (mg_totp_CompleteCode h n t) (lossy_spec False (code_fun h n t))"
proof (rule alike_totp [OF complete_code_implements [OF n mg_consumes] mg_totp_robust(6)])
  fix d assume d: "totp_tables_ok d"
  show "alike 0 d (mg_totp_CompleteCode h n t) (transaction
       (bindM (mg_consumeChallenge h t) (\<lambda>subjectID.
        bindM (stmt (\<lambda>d. case sql_update (\<lambda>r. cr_SubjectID r = subjectID \<and> cr_DisabledAt r = None \<and>
                    (case cr_LastUsedCounter r of None \<Rightarrow> True | Some m \<Rightarrow> sint m < sint n))
                  (\<lambda>r. r\<lparr>cr_LastUsedCounter := Some n\<rparr>) (t_credentials d) of
                (rows, t) \<Rightarrow> (Inr (length rows), d\<lparr>t_credentials := t\<rparr>))) (\<lambda>affected.
        if affected = 0 then retM (Inl (ETotp Totp_ErrInvalidCode)) else retM (Inr subjectID)))))"
    unfolding mg_totp_CompleteCode_def
  proof (rule alike_transaction, rule alike_seq [OF alike_consume])
    fix c :: totp_conn and i
    assume c: "fault c = (\<lambda>_. False)" "tables c = d" "fst (mg_consumeChallenge h t c) = Inr i"
    have "totp_tables_ok (tables (snd (mg_consumeChallenge h t c)))"
      using consumes_ok [OF mg_consumes] c d by blast
    from totp_tables_okD(2) [OF this]
    show "alike 0 (tables (snd (mg_consumeChallenge h t c)))
      (bindM (stmt (\<lambda>d. case update_first (\<lambda>r. cr_SubjectID r = i \<and> cr_DisabledAt r = None \<and>
                    (case cr_LastUsedCounter r of None \<Rightarrow> True | Some m \<Rightarrow> sint m < sint n))
                  (\<lambda>r. r\<lparr>cr_LastUsedCounter := Some n\<rparr>) (t_credentials d) of
                (n, t) \<Rightarrow> (Inr n, d\<lparr>t_credentials := t\<rparr>))) (\<lambda>matchedCount.
        if matchedCount = 0 then retM (Inl (ETotp Totp_ErrInvalidCode)) else retM (Inr i)))
      (bindM (stmt (\<lambda>d. case sql_update (\<lambda>r. cr_SubjectID r = i \<and> cr_DisabledAt r = None \<and>
                    (case cr_LastUsedCounter r of None \<Rightarrow> True | Some m \<Rightarrow> sint m < sint n))
                  (\<lambda>r. r\<lparr>cr_LastUsedCounter := Some n\<rparr>) (t_credentials d) of
                (rows, t) \<Rightarrow> (Inr (length rows), d\<lparr>t_credentials := t\<rparr>))) (\<lambda>affected.
        if affected = 0 then retM (Inl (ETotp Totp_ErrInvalidCode)) else retM (Inr i)))"
      by (intro alike_bind) (simp_all add: update_first_keyed sql_update_def alike_def)
  qed
qed

lemma mg_totp_CompleteRecovery_implements:
  "implements totp_view totp_conn_ok (mg_totp_CompleteRecovery h code t) (lossy_spec False (recovery_fun h code t))"
proof (rule alike_totp [OF complete_recovery_implements [OF mg_consumes] mg_totp_robust(7)])
  fix d assume d: "totp_tables_ok d"
  show "alike 0 d (mg_totp_CompleteRecovery h code t) (transaction
       (bindM (mg_consumeChallenge h t) (\<lambda>subjectID.
        bindM (stmt (\<lambda>d. case sql_update (\<lambda>r. rc_SubjectID r = subjectID \<and> rc_CodeHash r = code \<and> rc_UsedAt r = None)
                  (\<lambda>r. r\<lparr>rc_UsedAt := Some t\<rparr>) (t_recovery d) of
                (rows, t) \<Rightarrow> (Inr (length rows), d\<lparr>t_recovery := t\<rparr>))) (\<lambda>affected.
        if affected = 0 then retM (Inl (ETotp Totp_ErrInvalidCode)) else retM (Inr subjectID)))))"
    unfolding mg_totp_CompleteRecovery_def
  proof (rule alike_transaction, rule alike_seq [OF alike_consume])
    fix c :: totp_conn and i
    assume c: "fault c = (\<lambda>_. False)" "tables c = d" "fst (mg_consumeChallenge h t c) = Inr i"
    let ?d = "tables (snd (mg_consumeChallenge h t c))"
    have "totp_tables_ok ?d" using consumes_ok [OF mg_consumes] c d by blast
    then have u: "update_first (\<lambda>r. rc_SubjectID r = i \<and> rc_CodeHash r = code \<and> rc_UsedAt r = None) f (t_recovery ?d) =
        (length (filter (\<lambda>r. rc_SubjectID r = i \<and> rc_CodeHash r = code \<and> rc_UsedAt r = None) (t_recovery ?d)),
         map (\<lambda>r. if rc_SubjectID r = i \<and> rc_CodeHash r = code \<and> rc_UsedAt r = None then f r else r) (t_recovery ?d))"
      for f
      using update_first_keyed [OF totp_tables_okD(3), of ?d "(i, code)" "\<lambda>r. rc_UsedAt r = None" f] by simp
    show "alike 0 ?d
      (bindM (stmt (\<lambda>d. case update_first (\<lambda>r. rc_SubjectID r = i \<and> rc_CodeHash r = code \<and> rc_UsedAt r = None)
                  (\<lambda>r. r\<lparr>rc_UsedAt := Some t\<rparr>) (t_recovery d) of
                (n, t) \<Rightarrow> (Inr n, d\<lparr>t_recovery := t\<rparr>))) (\<lambda>matchedCount.
        if matchedCount = 0 then retM (Inl (ETotp Totp_ErrInvalidCode)) else retM (Inr i)))
      (bindM (stmt (\<lambda>d. case sql_update (\<lambda>r. rc_SubjectID r = i \<and> rc_CodeHash r = code \<and> rc_UsedAt r = None)
                  (\<lambda>r. r\<lparr>rc_UsedAt := Some t\<rparr>) (t_recovery d) of
                (rows, t) \<Rightarrow> (Inr (length rows), d\<lparr>t_recovery := t\<rparr>))) (\<lambda>affected.
        if affected = 0 then retM (Inl (ETotp Totp_ErrInvalidCode)) else retM (Inr i)))"
      by (intro alike_bind) (simp_all add: u sql_update_def alike_def)
  qed
qed

interpretation mg_totp: totp_store "mg_TOTPStore codec" "codec_encrypt ''mongodb'' codec"
  "codec_decrypt ''mongodb'' codec" totp_view totp_conn_ok False
  for codec
proof
  show "implements totp_view totp_conn_ok (ts_FindEnrollment (mg_TOTPStore codec) i)
      (spec_FindEnrollment (codec_decrypt ''mongodb'' codec) i)" for i
    using pg_totp_FindEnrollment_implements [of "named_codec ''mongodb'' codec" i]
    by (simp add: mg_TOTPStore_def mg_totp_FindEnrollment_eq)
qed (simp_all add: mg_TOTPStore_def totp_conn_view_ok mg_totp_IsEnabled_implements
    mg_totp_BeginEnrollment_implements mg_totp_Enable_implements mg_totp_Disable_implements
    mg_totp_CreateChallenge_implements mg_totp_FindChallenge_implements mg_totp_CompleteCode_implements
    mg_totp_CompleteRecovery_implements)

end
