(* ===== verification/RedisTotp.thy ===== *)
theory RedisTotp
  imports TotpStore RedisAccounts
begin

text \<open>
  The second factor in the Redis adapter (src/storage/redis/totp.go): the hashes \<^verbatim>\<open>totp-enrollments\<close>,
  \<^verbatim>\<open>totp-credentials\<close>, \<^verbatim>\<open>totp-challenges\<close> and \<^verbatim>\<open>totp-recovery-codes\<close> as finite maps, a set
  \<^verbatim>\<open>totp:recovery:<subject>\<close> per subject as a list without repetition. A field of the recovery codes is the
  pair of subject and hash that \<^verbatim>\<open>recoveryField\<close> joins, its value \<^verbatim>\<open>"unused"\<close> or the instant of its use.
\<close>

datatype recovery_status = Unused | UsedAt time

record redis_totp =
  rt_enrollments :: "string \<rightharpoonup> Enrollment"
  rt_credentials :: "string \<rightharpoonup> storedTOTPCredential"
  rt_challenges :: "hash \<rightharpoonup> TotpChallenge"
  rt_recovery :: "string \<times> hash \<rightharpoonup> recovery_status"
  rt_recovery_sets :: "string \<Rightarrow> (string \<times> hash) list"

definition rd_recoveryField :: "string \<Rightarrow> hash \<Rightarrow> string \<times> hash" where
  "rd_recoveryField subjectID code = (subjectID, code)"

definition rd_totp_encrypt ::
  "secret_codec option \<Rightarrow> string \<Rightarrow> redis_totp redis \<Rightarrow> (err + string) \<times> redis_totp redis" where
  "rd_totp_encrypt codec secret r = (codec_encrypt ''redis'' codec (rd_pos r) secret, r)"

definition rd_totp_decrypt ::
  "secret_codec option \<Rightarrow> string \<Rightarrow> redis_totp redis \<Rightarrow> (err + string) \<times> redis_totp redis" where
  "rd_totp_decrypt codec secret r = (codec_decrypt ''redis'' codec (rd_pos r) secret, r)"

definition rd_totp_IsEnabled :: "string \<Rightarrow> redis_totp redis \<Rightarrow> (err + bool) \<times> redis_totp redis" where
  "rd_totp_IsEnabled subjectID =
     bindM (readJSON_optional rt_credentials subjectID) (\<lambda>credential.
       retM (Inr (case credential of None \<Rightarrow> False | Some c \<Rightarrow> cd_DisabledAt c = None)))"

definition rd_totp_BeginEnrollment ::
  "secret_codec option \<Rightarrow> Enrollment \<Rightarrow> redis_totp redis \<Rightarrow> (err + unit) \<times> redis_totp redis" where
  "rd_totp_BeginEnrollment codec enrollment =
     bindM (rd_totp_encrypt codec (en_Secret enrollment)) (\<lambda>secret.
     redis_cmd (\<lambda>d. (Inr (), d\<lparr>rt_enrollments :=
       (rt_enrollments d)(en_SubjectID enrollment \<mapsto> enrollment\<lparr>en_Secret := secret\<rparr>)\<rparr>)))"

definition rd_totp_FindEnrollment ::
  "secret_codec option \<Rightarrow> string \<Rightarrow> redis_totp redis \<Rightarrow> (err + Enrollment) \<times> redis_totp redis" where
  "rd_totp_FindEnrollment codec subjectID =
     bindM (on_err (\<lambda>e. if errors_is e ENoRows then ETotp Totp_ErrNotFound else e)
              (readJSON rt_enrollments subjectID)) (\<lambda>stored.
     bindM (rd_totp_decrypt codec (en_Secret stored)) (\<lambda>secret.
     retM (Inr (stored\<lparr>en_Secret := secret\<rparr>))))"

text \<open>The pipeline of \<^verbatim>\<open>Enable\<close> and of \<^verbatim>\<open>Disable\<close>.\<close>

definition rd_drop_codes :: "string \<Rightarrow> (string \<times> hash) list \<Rightarrow> redis_totp \<Rightarrow> redis_totp" where
  "rd_drop_codes subjectID oldFields d = d
     \<lparr>rt_recovery := (\<lambda>f. if f \<in> set oldFields then None else rt_recovery d f),
      rt_recovery_sets := (rt_recovery_sets d)(subjectID := [])\<rparr>"

definition rd_add_code :: "string \<Rightarrow> hash \<Rightarrow> redis_totp \<Rightarrow> redis_totp" where
  "rd_add_code subjectID code d = d
     \<lparr>rt_recovery := (rt_recovery d)(rd_recoveryField subjectID code \<mapsto> Unused),
      rt_recovery_sets := (rt_recovery_sets d)(subjectID :=
        sadd (rd_recoveryField subjectID code) (rt_recovery_sets d subjectID))\<rparr>"

definition rd_totp_Enable ::
  "string \<Rightarrow> counter \<Rightarrow> hash list \<Rightarrow> time \<Rightarrow> redis_totp redis \<Rightarrow> (err + unit) \<times> redis_totp redis" where
  "rd_totp_Enable subjectID confirmedCounter recoveryCodes enabledAt =
     watch
       (bindM (on_err (\<lambda>e. if errors_is e ENoRows then ETotp Totp_ErrNotFound else e)
                 (readJSON rt_enrollments subjectID)) (\<lambda>enrollment.
        if \<not> enabledAt < en_ExpiresAt enrollment then retM (Inl (ETotp Totp_ErrInactiveEnrollment))
        else
        bindM (redis_get (\<lambda>d. Inr (rt_recovery_sets d subjectID))) (\<lambda>oldFields.
        redis_exec (\<lambda>d. fold (rd_add_code subjectID) recoveryCodes (rd_drop_codes subjectID oldFields
          (d\<lparr>rt_credentials := (rt_credentials d)(subjectID \<mapsto>
               \<lparr>cd_SubjectID = subjectID, cd_Secret = en_Secret enrollment, cd_EnabledAt = enabledAt,
                cd_LastUsedCounter = confirmedCounter, cd_HasLastUsedCounter = True, cd_DisabledAt = None\<rparr>),
             rt_enrollments := (rt_enrollments d)(subjectID := None)\<rparr>))))))"

definition rd_totp_Disable :: "string \<Rightarrow> time \<Rightarrow> redis_totp redis \<Rightarrow> (err + unit) \<times> redis_totp redis" where
  "rd_totp_Disable subjectID disabledAt =
     watch
       (bindM (on_err (\<lambda>e. if errors_is e ENoRows then ETotp Totp_ErrNotFound else e)
                 (readJSON rt_credentials subjectID)) (\<lambda>credential.
        let credential' = (if cd_DisabledAt credential = None
                           then credential\<lparr>cd_DisabledAt := Some disabledAt\<rparr> else credential) in
        bindM (redis_get (\<lambda>d. Inr (rt_recovery_sets d subjectID))) (\<lambda>fields.
        redis_exec (\<lambda>d. rd_drop_codes subjectID fields
          (d\<lparr>rt_credentials := (rt_credentials d)(subjectID \<mapsto> credential')\<rparr>)))))"

definition rd_totp_CreateChallenge ::
  "TotpChallenge \<Rightarrow> redis_totp redis \<Rightarrow> (err + unit) \<times> redis_totp redis" where
  "rd_totp_CreateChallenge challenge =
     bindM (redis_cmd (\<lambda>d. if rt_challenges d (tc_TokenHash challenge) = None
              then (Inr True, d\<lparr>rt_challenges := (rt_challenges d)(tc_TokenHash challenge \<mapsto> challenge)\<rparr>)
              else (Inr False, d)))
       (\<lambda>created. retM (if created then Inr () else Inl (ETotp Totp_ErrConflict)))"

definition rd_totp_FindChallenge ::
  "secret_codec option \<Rightarrow> hash \<Rightarrow> redis_totp redis \<Rightarrow> (err + TotpChallenge \<times> Credential) \<times> redis_totp redis" where
  "rd_totp_FindChallenge codec challengeHash =
     bindM (on_err (\<lambda>e. if errors_is e ENoRows then ETotp Totp_ErrNotFound else e)
              (readJSON rt_challenges challengeHash)) (\<lambda>challenge.
     bindM (on_err (\<lambda>e. if errors_is e ENoRows then ETotp Totp_ErrNotFound else e)
              (readJSON rt_credentials (tc_SubjectID challenge))) (\<lambda>credential.
     if cd_DisabledAt credential \<noteq> None then retM (Inl (ETotp Totp_ErrNotFound))
     else
     bindM (rd_totp_decrypt codec (cd_Secret credential)) (\<lambda>secret.
     retM (Inr (challenge, (Credential.truncate credential)\<lparr>cd_Secret := secret\<rparr>)))))"

text \<open>
  The reads of the two completions. A failing read leaves the zero challenge, whose expiry is the zero
  time, so from then on the failure is reported as \<^verbatim>\<open>ErrInactiveChallenge\<close>.
\<close>

definition inactive_unless_before_zero :: "time \<Rightarrow> err \<Rightarrow> err" where
  "inactive_unless_before_zero t e =
     (if errors_is e ENoRows \<or> \<not> t < 0 then ETotp Totp_ErrInactiveChallenge else e)"

definition rd_totp_CompleteCode ::
  "hash \<Rightarrow> counter \<Rightarrow> time \<Rightarrow> redis_totp redis \<Rightarrow> (err + string) \<times> redis_totp redis" where
  "rd_totp_CompleteCode challengeHash counter completedAt =
     watch
       (bindM (on_err (inactive_unless_before_zero completedAt) (readJSON rt_challenges challengeHash)) (\<lambda>challenge.
        if \<not> completedAt < tc_ExpiresAt challenge then retM (Inl (ETotp Totp_ErrInactiveChallenge))
        else
        bindM (on_err (\<lambda>e. if errors_is e ENoRows then ETotp Totp_ErrInvalidCode else e)
                 (readJSON rt_credentials (tc_SubjectID challenge))) (\<lambda>credential.
        if cd_DisabledAt credential \<noteq> None then retM (Inl (ETotp Totp_ErrInvalidCode))
        else if cd_HasLastUsedCounter credential \<and> counter \<le> cd_LastUsedCounter credential
        then retM (Inl (ETotp Totp_ErrInvalidCode))
        else
        bindM (redis_exec (\<lambda>d. d\<lparr>rt_challenges := (rt_challenges d)(challengeHash := None),
                 rt_credentials := (rt_credentials d)(tc_SubjectID challenge \<mapsto>
                   credential\<lparr>cd_LastUsedCounter := counter, cd_HasLastUsedCounter := True\<rparr>)\<rparr>))
          (\<lambda>_. retM (Inr (tc_SubjectID challenge))))))"

definition rd_totp_CompleteRecovery ::
  "hash \<Rightarrow> hash \<Rightarrow> time \<Rightarrow> redis_totp redis \<Rightarrow> (err + string) \<times> redis_totp redis" where
  "rd_totp_CompleteRecovery challengeHash recoveryCode completedAt =
     watch
       (bindM (on_err (inactive_unless_before_zero completedAt) (readJSON rt_challenges challengeHash)) (\<lambda>challenge.
        if \<not> completedAt < tc_ExpiresAt challenge then retM (Inl (ETotp Totp_ErrInactiveChallenge))
        else
        let field = rd_recoveryField (tc_SubjectID challenge) recoveryCode in
        bindM (on_err (\<lambda>e. if errors_is e ENoRows then ETotp Totp_ErrInvalidCode else e)
                 (readJSON rt_recovery field)) (\<lambda>status.
        if status \<noteq> Unused then retM (Inl (ETotp Totp_ErrInvalidCode))
        else
        bindM (redis_exec (\<lambda>d. d\<lparr>rt_challenges := (rt_challenges d)(challengeHash := None),
                 rt_recovery := (rt_recovery d)(field \<mapsto> UsedAt completedAt)\<rparr>))
          (\<lambda>_. retM (Inr (tc_SubjectID challenge))))))"

definition rd_TOTPStore :: "secret_codec option \<Rightarrow> redis_totp redis TotpStore" where
  "rd_TOTPStore codec =
     \<lparr>ts_IsEnabled = rd_totp_IsEnabled, ts_BeginEnrollment = rd_totp_BeginEnrollment codec,
      ts_FindEnrollment = rd_totp_FindEnrollment codec, ts_Enable = rd_totp_Enable, ts_Disable = rd_totp_Disable,
      ts_CreateChallenge = rd_totp_CreateChallenge, ts_FindChallenge = rd_totp_FindChallenge codec,
      ts_CompleteCode = rd_totp_CompleteCode, ts_CompleteRecovery = rd_totp_CompleteRecovery\<rparr>"

section \<open>The data as the state of the contract\<close>

definition redis_totp_db :: "redis_totp \<Rightarrow> totp_db" where
  "redis_totp_db d =
     \<lparr>enrollments = rt_enrollments d, totp_credentials = rt_credentials d, totp_challenges = rt_challenges d,
      unused_codes = {f. rt_recovery d f = Some Unused}\<rparr>"

definition redis_totp_ok :: "redis_totp \<Rightarrow> bool" where
  "redis_totp_ok d \<longleftrightarrow> totp_ok (redis_totp_db d) \<and>
     (\<forall>i f. f \<in> set (rt_recovery_sets d i) \<longleftrightarrow> fst f = i \<and> rt_recovery d f \<noteq> None)"

definition rd_totp_view :: "redis_totp redis \<Rightarrow> totp_db" where
  "rd_totp_view r = redis_totp_db (rd_db r)"

definition rd_totp_ok :: "redis_totp redis \<Rightarrow> bool" where
  "rd_totp_ok r \<longleftrightarrow> redis_totp_ok (rd_db r)"

lemma redis_totp_db_simps [simp]:
  "enrollments (redis_totp_db d) = rt_enrollments d" "totp_credentials (redis_totp_db d) = rt_credentials d"
  "totp_challenges (redis_totp_db d) = rt_challenges d"
  "unused_codes (redis_totp_db d) = {f. rt_recovery d f = Some Unused}"
  by (simp_all add: redis_totp_db_def)

lemma redis_totp_okD:
  assumes "redis_totp_ok d"
  shows "totp_ok (redis_totp_db d)" and "f \<in> set (rt_recovery_sets d i) \<longleftrightarrow> fst f = i \<and> rt_recovery d f \<noteq> None"
  using assms unfolding redis_totp_ok_def by blast+

lemma rd_totp_implements:
  assumes "\<And>d. redis_totp_ok d \<Longrightarrow> attempt d op (\<lambda>x d'. redis_totp_ok d' \<and> spec (redis_totp_db d) x (redis_totp_db d'))"
  shows "implements rd_totp_view rd_totp_ok op spec"
  using attempt_implements [where ok = redis_totp_ok and vw = redis_totp_db, OF assms]
  by (simp add: rd_totp_view_def [abs_def] rd_totp_ok_def [abs_def])

lemma attempt_codec:
  fixes d :: 'db
  assumes "\<And>n. case g n of Inl e \<Rightarrow> P (Inl e) d | Inr v \<Rightarrow> attempt d (k v) P"
  shows "attempt d (bindM (\<lambda>r. (g (rd_pos r), r)) k) P"
  unfolding attempt_def
proof (intro allI impI)
  fix r :: "'db redis" assume r: "rd_db r = d"
  show "(\<exists>e. is_driver e \<and> fst (bindM (\<lambda>r. (g (rd_pos r), r)) k r) = Inl e) \<and>
      rd_db (snd (bindM (\<lambda>r. (g (rd_pos r), r)) k r)) = d \<or>
    P (fst (bindM (\<lambda>r. (g (rd_pos r), r)) k r)) (rd_db (snd (bindM (\<lambda>r. (g (rd_pos r), r)) k r)))"
    using assms [of "rd_pos r"] r by (cases "g (rd_pos r)") (auto simp: bindM_eq attempt_def)
qed

lemma attempt_codec_ret:
  assumes "\<And>n. P (case g n of Inl e \<Rightarrow> Inl e | Inr v \<Rightarrow> Inr (f v)) d"
  shows "attempt d (bindM (\<lambda>r. (g (rd_pos r), r)) (\<lambda>v. retM (Inr (f v)))) P"
proof (rule attempt_codec)
  fix n
  show "case g n of Inl e \<Rightarrow> P (Inl e) d | Inr v \<Rightarrow> attempt d (retM (Inr (f v))) P"
    using assms [of n] by (cases "g n") (simp_all add: attempt_def)
qed

text \<open>The lossy read of the two completions.\<close>

lemma attempt_inactive:
  fixes d :: 'db
  assumes "P (Inl (ETotp Totp_ErrInactiveChallenge)) d" and "\<And>v. key d field = Some v \<Longrightarrow> attempt d (k v) P"
  shows "attempt d (bindM (on_err (inactive_unless_before_zero t) (readJSON key field)) k) P"
  unfolding attempt_def
proof (intro allI impI)
  let ?op = "bindM (on_err (inactive_unless_before_zero t) (readJSON key field)) k"
  fix r :: "'db redis" assume d: "rd_db r = d"
  show "(\<exists>x. is_driver x \<and> fst (?op r) = Inl x) \<and> rd_db (snd (?op r)) = d \<or> P (fst (?op r)) (rd_db (snd (?op r)))"
    using assms d
    by (cases "fst (readJSON key field r)")
      (auto simp: bindM_eq on_err_eq attempt_def readJSON_def redis_get_def redis_cmd_def
        inactive_unless_before_zero_def split: option.splits if_splits)
qed

lemma attempt_cmd: "P (fst (f d)) (snd (f d)) \<Longrightarrow> attempt d (redis_cmd f) P"
  by (auto simp: attempt_def redis_cmd_def)

section \<open>Every operation meets the contract\<close>

lemma rd_totp_IsEnabled_implements:
  "implements rd_totp_view rd_totp_ok (rd_totp_IsEnabled i) (fun_spec (spec_IsEnabled i))"
  by (rule rd_totp_implements)
    (auto simp: rd_totp_IsEnabled_def fun_spec_def spec_IsEnabled_def intro!: attempt_reads [OF reads_optional] attempt_ret)

lemma rd_totp_BeginEnrollment_implements:
  "implements rd_totp_view rd_totp_ok (rd_totp_BeginEnrollment codec e)
     (spec_BeginEnrollment (codec_encrypt ''redis'' codec) e)"
proof (rule rd_totp_implements)
  fix d assume d: "redis_totp_ok d"
  have ok: "redis_totp_ok (d\<lparr>rt_enrollments := (rt_enrollments d)(en_SubjectID e \<mapsto> e\<lparr>en_Secret := s\<rparr>)\<rparr>)" for s
    using d by (auto simp: redis_totp_ok_def totp_ok_def)
  show "attempt d (rd_totp_BeginEnrollment codec e) (\<lambda>x d'. redis_totp_ok d' \<and>
      spec_BeginEnrollment (codec_encrypt ''redis'' codec) e (redis_totp_db d) x (redis_totp_db d'))"
    unfolding rd_totp_BeginEnrollment_def rd_totp_encrypt_def
  proof (rule attempt_codec)
    fix n
    show "case codec_encrypt ''redis'' codec n (en_Secret e) of
        Inl err \<Rightarrow> redis_totp_ok d \<and>
          spec_BeginEnrollment (codec_encrypt ''redis'' codec) e (redis_totp_db d) (Inl err) (redis_totp_db d)
      | Inr s \<Rightarrow> attempt d (redis_cmd (\<lambda>d. (Inr (), d\<lparr>rt_enrollments :=
          (rt_enrollments d)(en_SubjectID e \<mapsto> e\<lparr>en_Secret := s\<rparr>)\<rparr>))) (\<lambda>x d'. redis_totp_ok d' \<and>
          spec_BeginEnrollment (codec_encrypt ''redis'' codec) e (redis_totp_db d) x (redis_totp_db d'))"
      using d ok by (auto simp: spec_BeginEnrollment_def redis_totp_db_def intro!: attempt_cmd exI [of _ n]
          split: sum.split)
  qed
qed

lemma rd_totp_FindEnrollment_implements:
  "implements rd_totp_view rd_totp_ok (rd_totp_FindEnrollment codec i)
     (spec_FindEnrollment (codec_decrypt ''redis'' codec) i)"
  unfolding rd_totp_FindEnrollment_def rd_totp_decrypt_def
proof (rule rd_totp_implements, rule attempt_read_err, simp, goal_cases)
  case (1 d)
  show ?case
  proof (cases "rt_enrollments d i")
    case (Some e)
    show ?thesis
      unfolding Some option.case using Some
      by (intro attempt_codec_ret conjI 1 spec_FindEnrollmentI [where e = e]) simp_all
  qed (use 1 in \<open>simp add: spec_FindEnrollment_def\<close>)
qed

lemma rd_add_codes:
  "rt_enrollments (fold (rd_add_code i) codes d) = rt_enrollments d"
  "rt_credentials (fold (rd_add_code i) codes d) = rt_credentials d"
  "rt_challenges (fold (rd_add_code i) codes d) = rt_challenges d"
  "rt_recovery (fold (rd_add_code i) codes d) f =
     (if fst f = i \<and> snd f \<in> set codes then Some Unused else rt_recovery d f)"
  "set (rt_recovery_sets (fold (rd_add_code i) codes d) j) =
     (if j = i then Pair i ` set codes else {}) \<union> set (rt_recovery_sets d j)"
  by (induction codes arbitrary: d) (auto simp: rd_add_code_def rd_recoveryField_def)

lemma rd_totp_Enable_implements:
  "implements rd_totp_view rd_totp_ok (rd_totp_Enable i n codes t) (fun_spec (spec_Enable i n codes t))"
  unfolding rd_totp_Enable_def
proof (rule rd_totp_implements, rule attempt_watch, rule attempt_read_err, simp, goal_cases)
  case (1 d)
  let ?g = "\<lambda>e. fold (rd_add_code i) codes (rd_drop_codes i (rt_recovery_sets d i)
      (d\<lparr>rt_credentials := (rt_credentials d)(i \<mapsto>
           \<lparr>cd_SubjectID = i, cd_Secret = en_Secret e, cd_EnabledAt = t,
            cd_LastUsedCounter = n, cd_HasLastUsedCounter = True, cd_DisabledAt = None\<rparr>),
         rt_enrollments := (rt_enrollments d)(i := None)\<rparr>))"
  note D = redis_totp_okD [OF 1]
  have "redis_totp_ok (?g e)" for e
    using D(1) unfolding redis_totp_ok_def totp_ok_def
    by (auto simp: rd_add_codes rd_drop_codes_def D(2) split: if_splits)
  moreover have "redis_totp_db (?g e) = snd (spec_Enable i n codes t (redis_totp_db d))"
    if "rt_enrollments d i = Some e" "t < en_ExpiresAt e" for e
    using that by (auto simp: spec_Enable_def redis_totp_db_def rd_add_codes rd_drop_codes_def D(2) fun_eq_iff)
  moreover have "fst (spec_Enable i n codes t (redis_totp_db d)) = Inr ()"
    if "rt_enrollments d i = Some e" "t < en_ExpiresAt e" for e
    using that by (simp add: spec_Enable_def)
  ultimately show ?case
    using 1 by (cases "rt_enrollments d i")
      (auto simp: fun_spec_def spec_Enable_def prod_eq_iff intro!: attempt_get attempt_exec attempt_ret)
qed (auto simp: fun_spec_def spec_Enable_def tx_failed_def split: option.splits if_splits)

lemma rd_totp_Disable_implements:
  "implements rd_totp_view rd_totp_ok (rd_totp_Disable i t) (fun_spec (spec_Disable i t))"
  unfolding rd_totp_Disable_def
proof (rule rd_totp_implements, rule attempt_watch, rule attempt_read_err, simp, goal_cases)
  case (1 d)
  note D = redis_totp_okD [OF 1]
  let ?g = "\<lambda>c. rd_drop_codes i (rt_recovery_sets d i) (d\<lparr>rt_credentials := (rt_credentials d)(i \<mapsto>
      if cd_DisabledAt c = None then c\<lparr>cd_DisabledAt := Some t\<rparr> else c)\<rparr>)"
  have "redis_totp_ok (?g c)" if "rt_credentials d i = Some c" for c
    using D(1) that unfolding redis_totp_ok_def totp_ok_def
    by (auto simp: rd_drop_codes_def D(2) split: if_splits)
  moreover have "redis_totp_db (?g c) = snd (spec_Disable i t (redis_totp_db d))" if "rt_credentials d i = Some c" for c
    using that by (auto simp: spec_Disable_def redis_totp_db_def rd_drop_codes_def D(2) fun_eq_iff split: option.split)
  ultimately show ?case
    using 1 by (cases "rt_credentials d i")
      (auto simp: fun_spec_def spec_Disable_def prod_eq_iff Let_def intro!: attempt_get attempt_exec attempt_ret)
qed (auto simp: fun_spec_def spec_Disable_def tx_failed_def split: option.splits)

lemma rd_totp_CreateChallenge_implements:
  "implements rd_totp_view rd_totp_ok (rd_totp_CreateChallenge ch) (spec_CreateTotpChallenge ch)"
proof (rule rd_totp_implements)
  fix d assume d: "redis_totp_ok d"
  have "redis_totp_ok (d\<lparr>rt_challenges := (rt_challenges d)(tc_TokenHash ch \<mapsto> ch)\<rparr>)"
    using d by (auto simp: redis_totp_ok_def totp_ok_def)
  then show "attempt d (rd_totp_CreateChallenge ch)
      (\<lambda>x d'. redis_totp_ok d' \<and> spec_CreateTotpChallenge ch (redis_totp_db d) x (redis_totp_db d'))"
    unfolding rd_totp_CreateChallenge_def using d
    by (intro attempt_then_ret attempt_cmd) (simp add: spec_CreateTotpChallenge_def redis_totp_db_def)
qed

lemma rd_totp_FindChallenge_implements:
  "implements rd_totp_view rd_totp_ok (rd_totp_FindChallenge codec h)
     (spec_FindChallenge (codec_decrypt ''redis'' codec) h)"
  unfolding rd_totp_FindChallenge_def rd_totp_decrypt_def
proof (rule rd_totp_implements, rule attempt_read_err, simp, goal_cases)
  case (1 d)
  show ?case
  proof (cases "rt_challenges d h")
    case ch: (Some ch)
    show ?thesis
      unfolding ch option.case
    proof (rule attempt_read_err, simp, goal_cases)
      case 1
      show ?case
      proof (cases "rt_credentials d (tc_SubjectID ch)")
        case c: (Some c)
        show ?thesis
        proof (cases "cd_DisabledAt c = None")
          case True
          then have "(if cd_DisabledAt c \<noteq> None then retM (Inl (ETotp Totp_ErrNotFound))
              else bindM (\<lambda>r. (codec_decrypt ''redis'' codec (rd_pos r) (cd_Secret c), r))
                (\<lambda>secret. retM (Inr (ch, (Credential.truncate c)\<lparr>cd_Secret := secret\<rparr>)))) =
            bindM (\<lambda>r. (codec_decrypt ''redis'' codec (rd_pos r) (cd_Secret c), r))
                (\<lambda>secret. retM (Inr (ch, (Credential.truncate c)\<lparr>cd_Secret := secret\<rparr>)))" by simp
          then show ?thesis
            unfolding c option.case using \<open>redis_totp_ok d\<close> ch c True
            by (auto intro!: attempt_codec_ret spec_FindChallengeI [of _ _ ch c])
        qed (use \<open>redis_totp_ok d\<close> ch c in \<open>auto simp: spec_FindChallenge_def\<close>)
      qed (use \<open>redis_totp_ok d\<close> ch in \<open>simp add: spec_FindChallenge_def\<close>)
    qed
  qed (use 1 in \<open>simp add: spec_FindChallenge_def\<close>)
qed

lemma rd_totp_CompleteCode_implements:
  "implements rd_totp_view rd_totp_ok (rd_totp_CompleteCode h n t) (lossy_spec True (code_fun h n t))"
  unfolding rd_totp_CompleteCode_def
proof (rule rd_totp_implements, rule attempt_watch, rule attempt_inactive, goal_cases)
  case (2 d ch)
  let ?g = "\<lambda>c. d\<lparr>rt_challenges := (rt_challenges d)(h := None), rt_credentials := (rt_credentials d)(tc_SubjectID ch \<mapsto>
      c\<lparr>cd_LastUsedCounter := n, cd_HasLastUsedCounter := True\<rparr>)\<rparr>"
  have "redis_totp_ok (?g c)" if "rt_credentials d (tc_SubjectID ch) = Some c" for c
    using 2(1) that by (auto simp: redis_totp_ok_def totp_ok_def)
  then show ?case
    using 2 by (cases "rt_credentials d (tc_SubjectID ch)")
      (auto simp: lossy_spec_def code_fun_def redis_totp_db_def intro!: attempt_read_err attempt_exec_ret)
qed (auto simp: lossy_spec_def code_fun_def tx_failed_def split: option.splits if_splits)

lemma rd_totp_CompleteRecovery_implements:
  "implements rd_totp_view rd_totp_ok (rd_totp_CompleteRecovery h code t) (lossy_spec True (recovery_fun h code t))"
  unfolding rd_totp_CompleteRecovery_def rd_recoveryField_def
proof (rule rd_totp_implements, rule attempt_watch, rule attempt_inactive, goal_cases)
  case (2 d ch)
  let ?g = "d\<lparr>rt_challenges := (rt_challenges d)(h := None),
      rt_recovery := (rt_recovery d)((tc_SubjectID ch, code) \<mapsto> UsedAt t)\<rparr>"
  have "redis_totp_ok ?g" if "rt_recovery d (tc_SubjectID ch, code) = Some Unused"
    using 2(1) that unfolding redis_totp_ok_def totp_ok_def by auto
  moreover have "redis_totp_db ?g = (redis_totp_db d)\<lparr>totp_challenges := (rt_challenges d)(h := None),
      unused_codes := unused_codes (redis_totp_db d) - {(tc_SubjectID ch, code)}\<rparr>"
    by (auto simp: redis_totp_db_def)
  ultimately show ?case
    using 2 by (cases "rt_recovery d (tc_SubjectID ch, code)")
      (auto simp: lossy_spec_def recovery_fun_def Let_def intro!: attempt_read_err attempt_exec_ret)
qed (auto simp: lossy_spec_def recovery_fun_def tx_failed_def split: option.splits if_splits)

interpretation rd_totp: totp_store "rd_TOTPStore codec" "codec_encrypt ''redis'' codec"
  "codec_decrypt ''redis'' codec" rd_totp_view rd_totp_ok True
  for codec
proof
  show "rd_totp_ok s \<Longrightarrow> totp_ok (rd_totp_view s)" for s
    by (simp add: rd_totp_ok_def rd_totp_view_def redis_totp_okD)
qed (simp_all add: rd_TOTPStore_def rd_totp_IsEnabled_implements rd_totp_BeginEnrollment_implements
    rd_totp_FindEnrollment_implements rd_totp_Enable_implements rd_totp_Disable_implements
    rd_totp_CreateChallenge_implements rd_totp_FindChallenge_implements rd_totp_CompleteCode_implements
    rd_totp_CompleteRecovery_implements)

end
