(* ===== verification/TotpProperties.thy ===== *)
theory TotpProperties
  imports TotpService PostgresTotp MysqlTotp MongoTotp RedisTotp
begin

text \<open>
  The guarantees of the second factor, over every store that meets the contract \<open>totp_store\<close>, which
  \<open>totp_adapters_refine\<close> shows of the four that the repository ships; the witnesses run them there.
\<close>

section \<open>Completed challenges\<close>

lemma totp_evolves_challenge:
  assumes "totp_evolves H I a b" and "totp_challenges b h \<noteq> None" and "totp_challenges a h = None"
  shows "h \<in> H"
proof (rule ccontr)
  assume "h \<notin> H"
  moreover obtain ch where "totp_challenges b h = Some ch" using assms(2) by blast
  ultimately have "totp_challenges a h = Some ch" using assms(1) unfolding totp_evolves_def by blast
  with assms(3) show False by simp
qed

lemma totp_evolves_counter:
  assumes "totp_evolves H I a b" and "totp_credentials a i = Some c" and "totp_credentials b i = Some d"
    and "i \<notin> I" and "cd_HasLastUsedCounter c"
  shows "cd_Secret d = cd_Secret c" and "cd_HasLastUsedCounter d" and "cd_LastUsedCounter c \<le> cd_LastUsedCounter d"
proof -
  obtain c' where "totp_credentials a i = Some c'" "cd_Secret d = cd_Secret c'"
    "cd_HasLastUsedCounter c' \<longrightarrow> cd_HasLastUsedCounter d \<and> cd_LastUsedCounter c' \<le> cd_LastUsedCounter d"
    using assms(1,3,4) unfolding totp_evolves_def by blast
  with assms(2,5) show "cd_Secret d = cd_Secret c" "cd_HasLastUsedCounter d"
    "cd_LastUsedCounter c \<le> cd_LastUsedCounter d" by simp_all
qed

lemma code_fun_Inr:
  assumes "code_fun h c t a = (Inr i, b)"
  shows "totp_challenges a h \<noteq> None" and "totp_challenges b h = None"
    and "totp_credentials a i = Some cr \<Longrightarrow>
      totp_credentials b i = Some (cr\<lparr>cd_LastUsedCounter := c, cd_HasLastUsedCounter := True\<rparr>)"
  using assms by (auto simp: code_fun_def split: option.splits if_splits)

lemma recovery_fun_Inr:
  assumes "recovery_fun h code t a = (Inr i, b)"
  shows "totp_challenges a h \<noteq> None" and "totp_challenges b h = None"
    and "(i, code) \<in> unused_codes a" and "(i, code) \<notin> unused_codes b"
  using assms by (auto simp: recovery_fun_def split: option.splits if_splits)

lemma spec_Enable_Inr:
  assumes "spec_Enable i c codes t a = (Inr (), b)" and "enrollments a i = Some e"
  shows "totp_credentials b i = Some \<lparr>cd_SubjectID = i, cd_Secret = en_Secret e, cd_EnabledAt = t,
      cd_LastUsedCounter = c, cd_HasLastUsedCounter = True, cd_DisabledAt = None\<rparr>"
    and "code \<in> set codes \<Longrightarrow> (i, code) \<in> unused_codes b"
  using assms by (auto simp: spec_Enable_def split: if_splits)

context totp_store
begin

text \<open>A call that looks up a live challenge.\<close>

lemma findChallenge_works:
  assumes "tm_store mgr = ts" and "ok (aw_store w)" and "HashToken sha raw = Inr h"
    and "totp_challenges (view (aw_store w)) h = Some ch" and "totp_validChallenge ch h"
    and "totp_credentials (view (aw_store w)) (tc_SubjectID ch) = Some cr" and "cd_DisabledAt cr = None"
    and "cd_SubjectID cr = tc_SubjectID ch" and "cd_EnabledAt cr \<noteq> 0"
    and "\<forall>n. \<exists>s. decrypt n (cd_Secret cr) = Inr s \<and> \<not> blank s" and "\<forall>n. clock w n < tc_ExpiresAt ch"
    and "totp_findChallenge sha mgr raw w = (x, w1)"
  shows "ok (aw_store w1) \<and> tape w1 = tape w \<and> view (aw_store w1) = view (aw_store w) \<and>
    ((\<exists>c. x = Inr (ch, c, h)) \<or> (\<exists>d. is_driver d \<and> x = Inl (EWrap ''find TOTP challenge'' d)))"
proof -
  obtain y w2 where o: "on_accounts (ts_FindChallenge ts h) w = (y, w2)" by fastforce
  have s: "fst (ts_FindChallenge ts h (aw_store w)) = y" "snd (ts_FindChallenge ts h (aw_store w)) = aw_store w2"
    "tape w2 = tape w" using o by (auto simp: on_accounts_def)
  have ok2: "ok (aw_store w2)" using implements_inv [OF FindChallenge assms(2)] s(2) by metis
  have cl: "clock w2 = clock w" using s(3) by (simp add: tape_def)
  from FindChallenge [of h] assms(2) show ?thesis
  proof (cases rule: implements_cases)
    case (driver e)
    have "x = Inl (EWrap ''find TOTP challenge'' e)" "w1 = w2"
      using assms(12) o s(1) driver(1,2) unfolding totp_findChallenge_def assms(1)
      by (auto simp: assms(3) bindM_eq on_err_eq driver_errors_is)
    then show ?thesis using driver s ok2 by auto
  next
    case spec
    then have v: "view (aw_store w2) = view (aw_store w)" using s by (auto simp: spec_FindChallenge_def)
    obtain n where "y = (case decrypt n (cd_Secret cr) of Inl err \<Rightarrow> Inl err
        | Inr s \<Rightarrow> Inr (ch, (Credential.truncate cr)\<lparr>cd_Secret := s\<rparr>))"
      using spec s(1) assms(4,6,7) by (auto simp: spec_FindChallenge_def)
    moreover obtain sec where "decrypt n (cd_Secret cr) = Inr sec" "\<not> blank sec" using assms(10) by blast
    ultimately have "y = Inr (ch, (Credential.truncate cr)\<lparr>cd_Secret := sec\<rparr>)" by simp
    then have "x = Inr (ch, (Credential.truncate cr)\<lparr>cd_Secret := sec\<rparr>, h)" "w1 = w2\<lparr>pos := Suc (pos w2)\<rparr>"
      using assms(5,8,9,11,12) o cl \<open>\<not> blank sec\<close> unfolding totp_findChallenge_def assms(1)
      by (auto simp: assms(3) bindM_eq on_err_eq totp_validCredential_def Credential.truncate_def)
    then show ?thesis using v ok2 s(3) by auto
  qed
qed

lemma Recover_works:
  assumes "tm_store mgr = ts" and "ok (aw_store w)" and "tm_attemptGuard mgr = None"
    and "HashToken sha (vi_ChallengeToken input) = Inr h" and "HashRecoveryCode sha (vi_Code input) = Inr r"
    and "totp_challenges (view (aw_store w)) h = Some ch" and "totp_validChallenge ch h"
    and "totp_credentials (view (aw_store w)) (tc_SubjectID ch) = Some cr" and "cd_DisabledAt cr = None"
    and "cd_SubjectID cr = tc_SubjectID ch" and "cd_EnabledAt cr \<noteq> 0"
    and "\<forall>n. \<exists>s. decrypt n (cd_Secret cr) = Inr s \<and> \<not> blank s" and "\<forall>n. clock w n < tc_ExpiresAt ch"
    and "(tc_SubjectID ch, r) \<in> unused_codes (view (aw_store w))"
  shows "fst (totp_Recover sha mgr input w) = Inr \<lparr>au_SubjectID = tc_SubjectID ch, au_UsedRecoveryCode = True\<rparr> \<or>
    (\<exists>d text. is_driver d \<and> fst (totp_Recover sha mgr input w) = Inl (EWrap text d)) \<or>
    lossy \<and> fst (totp_Recover sha mgr input w) = Inl (ETotp Totp_ErrInvalidChallenge)"
proof -
  obtain x w1 where f: "totp_findChallenge sha mgr (vi_ChallengeToken input) w = (x, w1)" by fastforce
  note F = findChallenge_works [OF assms(1,2,4,6-13) f]
  show ?thesis
  proof (cases x)
    case (Inl e)
    then show ?thesis using F f by (auto simp: totp_Recover_def)
  next
    case (Inr y)
    then obtain c where y: "y = (ch, c, h)" using F by auto
    let ?t = "clock w1 (pos w1)" and ?w = "w1\<lparr>pos := Suc (pos w1)\<rparr>"
    have t: "?t < tc_ExpiresAt ch" using F assms(13) by (simp add: tape_def)
    obtain z w2 where o: "on_accounts (ts_CompleteRecovery ts h r ?t) ?w = (z, w2)" by fastforce
    have s: "fst (ts_CompleteRecovery ts h r ?t (aw_store ?w)) = z" using o by (auto simp: on_accounts_def)
    have run: "fst (totp_Recover sha mgr input w) =
        fst (totp_complete mgr (tc_SubjectID ch) (vi_SourceKey input) ''totp_recovery_used'' True
          (ts_CompleteRecovery ts h r ?t) ?w)"
      using f Inr y assms(1,3,5) by (simp add: totp_Recover_def totp_checkAttempt_def check_attempt_def)
    have rf: "fst (recovery_fun h r ?t (view (aw_store w))) = Inr (tc_SubjectID ch)"
      using t assms(6,14) by (simp add: recovery_fun_def)
    have "ok (aw_store ?w)" using F by simp
    from CompleteRecovery [of h r ?t] this show ?thesis
    proof (cases rule: implements_cases)
      case (driver e)
      then have "z = Inl e" using s by simp
      then show ?thesis
        using o run driver(1) by (auto simp: totp_complete_def totp_completionError_def driver_errors_is)
    next
      case spec
      then have "z = Inr (tc_SubjectID ch) \<or> lossy \<and> z = Inl (ETotp Totp_ErrInactiveChallenge)"
        using s F rf by (auto simp: lossy_spec_def)
      then show ?thesis
        using o run by (auto simp: totp_complete_def totp_completionError_def ret_event_def)
    qed
  qed
qed

text \<open>What a completed challenge leaves behind, for later calls.\<close>

lemma completed_challenge:
  assumes "tm_store mgr = ts" and "ok (aw_store w)"
    and "totp_Verify lib sha mgr input w = (Inr x, w1) \<or> totp_Recover sha mgr input w = (Inr x, w1)"
  obtains h where "HashToken sha (vi_ChallengeToken input) = Inr h" "totp_challenges (view (aw_store w)) h \<noteq> None"
    "totp_challenges (view (aw_store w1)) h = None" "ok (aw_store w1)"
  using assms(3)
proof (elim disjE)
  assume "totp_Verify lib sha mgr input w = (Inr x, w1)"
  with assms(1,2) show thesis
    by (rule Verify_Inr) (rule that, auto dest: code_fun_Inr(1,2))
next
  assume "totp_Recover sha mgr input w = (Inr x, w1)"
  with assms(1,2) show thesis
    by (rule Recover_Inr) (rule that, auto dest: recovery_fun_Inr(1,2))
qed

lemma verified_counter:
  assumes "tm_store mgr = ts" and "ok (aw_store w)" and "totp_Verify lib sha mgr input w = (Inr x, w1)"
  obtains c n cr secret where "decrypt n (cd_Secret cr) = Inr secret"
    "tl_ValidateCustom lib (vi_Code input) c secret = Inr True"
    "totp_credentials (view (aw_store w1)) (au_SubjectID x) =
      Some (cr\<lparr>cd_LastUsedCounter := c, cd_HasLastUsedCounter := True\<rparr>)" "ok (aw_store w1)"
    "totp_credentials (view (aw_store w)) (au_SubjectID x) = Some cr"
    "cd_HasLastUsedCounter cr \<longrightarrow> cd_LastUsedCounter cr < c"
  using assms
  by (rule Verify_Inr) (rule that, auto dest: code_fun_Inr(3) matchCounter_True(1))

lemma recovered_code:
  assumes "tm_store mgr = ts" and "ok (aw_store w)" and "totp_Recover sha mgr input w = (Inr x, w1)"
  obtains r where "HashRecoveryCode sha (vi_Code input) = Inr r"
    "(au_SubjectID x, r) \<notin> unused_codes (view (aw_store w1))" "ok (aw_store w1)"
    "(au_SubjectID x, r) \<in> unused_codes (view (aw_store w))"
  using assms
  by (rule Recover_Inr) (rule that, auto dest: recovery_fun_Inr(3,4))

end

section \<open>Sample managers\<close>

lemma on_accounts_code [code]:
  "on_accounts f w = (case f (aw_store w) of (x, s) \<Rightarrow> (x, w\<lparr>aw_store := s\<rparr>))"
  by (simp add: on_accounts_def split: prod.split)

definition sample_codec :: "secret_codec option" where
  "sample_codec = Some \<lparr>sc_Encrypt = (\<lambda>_ s. Inr (CHR ''x'' # s)), sc_Decrypt = (\<lambda>_ s. Inr (tl s))\<rparr>"

definition sample_totp_library :: totp_library where
  "sample_totp_library = \<lparr>tl_Generate = (\<lambda>_ _ _. Inr (''S'', ''u'')),
     tl_ValidateCustom = (\<lambda>code _ secret. Inr (code = ''123456'' \<and> secret = ''S''))\<rparr>"

definition sample_totp_manager :: "'s TotpStore \<Rightarrow> 's TotpManager" where
  "sample_totp_manager st = \<lparr>tm_store = st, tm_issuer = ''i'', tm_enrollmentLifetime = 3600 * second_ns,
     tm_challengeLifetime = 3600 * second_ns, tm_recoveryCodeCount = 2, tm_attemptGuard = None,
     tm_securityEvents = False\<rparr>"

text \<open>A clock after 1970 that moves on by two minutes between two readings.\<close>

definition sample_ticks :: "nat \<Rightarrow> time" where
  "sample_ticks n = (62135600000 + 120 * int n) * second_ns"

definition sample_bytes :: "nat \<Rightarrow> nat \<Rightarrow> char" where
  "sample_bytes n i = char_of (n + i)"

definition sample_totp_world :: "'s \<Rightarrow> 's account_world" where
  "sample_totp_world s =
     \<lparr>pos = 0, clock = sample_ticks, rand_byte = sample_bytes,
      rand_err = (\<lambda>_. False), uuid_v7 = (\<lambda>_. None), aw_store = s, aw_events = [], aw_mail = []\<rparr>"

definition sample_totp_conn :: totp_conn where
  "sample_totp_conn =
     \<lparr>tables = \<lparr>t_enrollments = [], t_credentials = [], t_recovery = [], t_totp_challenges = []\<rparr>,
      fault = (\<lambda>_. False), stmt_pos = 0, db_clock = (\<lambda>_. 0), found_rows = True\<rparr>"

definition sample_totp_redis :: "redis_totp redis" where
  "sample_totp_redis =
     \<lparr>rd_db = \<lparr>rt_enrollments = Map.empty, rt_credentials = Map.empty, rt_challenges = Map.empty,
        rt_recovery = Map.empty, rt_recovery_sets = (\<lambda>_. [])\<rparr>,
      rd_fault = (\<lambda>_. False), rd_abort = (\<lambda>_. False), rd_clock = (\<lambda>_. 0), rd_pos = 0\<rparr>"

text \<open>A digest that tells the sample's codes and tokens apart.\<close>

definition totp_sha :: "string \<Rightarrow> hash" where
  "totp_sha s = (case s of [] \<Rightarrow> 1 | c # _ \<Rightarrow> of_char c + 2)"

definition totp_enrolled :: "'s TotpManager \<Rightarrow> 's account_world \<Rightarrow> string list \<times> 's account_world" where
  "totp_enrolled mgr w =
     (case totp_ConfirmEnrollment sample_totp_library totp_sha mgr ''a'' ''123456'' ''k''
         (snd (totp_BeginEnrollment sample_totp_library mgr ''a'' ''a'' w)) of
        Some (Inr codes, w1) \<Rightarrow> (codes, w1) | _ \<Rightarrow> ([], w))"

definition totp_challenged :: "'s TotpManager \<Rightarrow> 's account_world \<Rightarrow> string \<times> 's account_world" where
  "totp_challenged mgr w =
     (case totp_BeginChallenge totp_sha mgr ''a'' w of (Inr c, w1) \<Rightarrow> (cs_Token c, w1) | (_, w1) \<Rightarrow> ([], w1))"

lemma sample_totp_ok:
  "totp_conn_ok sample_totp_conn" "rd_totp_ok sample_totp_redis" "my_totp_ok sample_totp_conn"
  by (simp_all add: totp_conn_ok_def totp_tables_ok_def sample_totp_conn_def rd_totp_ok_def redis_totp_ok_def
      sample_totp_redis_def my_totp_ok_def totp_ok_def redis_totp_db_def)

section \<open>Properties\<close>

text \<open>C10: All four database adapters implement the contract of the second factor: enrollments, credentials,
  challenges and recovery codes act on one abstract state that holds the secrets as the secret codec
  encrypted them, and a call either fails with a driver error without effect or does what the reference
  operation does. Redis may report a failing read as an inactive challenge.\<close>

theorem totp_adapters_refine:
  "totp_store (pg_TOTPStore codec) (codec_encrypt ''postgres'' codec) (codec_decrypt ''postgres'' codec)
     totp_view totp_conn_ok False \<and>
   totp_store (my_TOTPStore codec) (codec_encrypt ''mysql'' codec) (codec_decrypt ''mysql'' codec)
     totp_view my_totp_ok False \<and>
   totp_store (mg_TOTPStore codec) (codec_encrypt ''mongodb'' codec) (codec_decrypt ''mongodb'' codec)
     totp_view totp_conn_ok False \<and>
   totp_store (rd_TOTPStore codec) (codec_encrypt ''redis'' codec) (codec_decrypt ''redis'' codec)
     rd_totp_view rd_totp_ok True"
  by (intro conjI pg_totp.totp_store_axioms my_totp.totp_store_axioms mg_totp.totp_store_axioms
      rd_totp.totp_store_axioms)

text \<open>C11: A second factor is used once. After a code or a recovery code completed a challenge, no later call
  completes a challenge with the same token, unless \<^verbatim>\<open>BeginChallenge\<close> issued it again. As long as the
  subject does not enroll again, the codes that \<^verbatim>\<open>Verify\<close> accepts belong to ever larger counters (the same
  code in the same time step is refused), and \<^verbatim>\<open>Recover\<close> never accepts a recovery code again.\<close>

theorem second_factor_single_use:
  assumes "totp_store ts encrypt decrypt view ok lossy" and "tm_store mgr = ts" and "ok (aw_store w)"
    and "totp_run lib sha mgr w1 H I v"
  shows "((totp_Verify lib sha mgr a w = (Inr x, w1) \<or> totp_Recover sha mgr a w = (Inr x, w1)) \<and>
     (totp_Verify lib sha mgr b v = (Inr y, v1) \<or> totp_Recover sha mgr b v = (Inr y, v1)) \<and>
     HashToken sha (vi_ChallengeToken a) = HashToken sha (vi_ChallengeToken b) \<longrightarrow>
       HashToken sha (vi_ChallengeToken b) \<in> Inr ` H) \<and>
   (totp_Verify lib sha mgr a w = (Inr x, w1) \<and> totp_Verify lib sha mgr b v = (Inr y, v1) \<and>
     au_SubjectID x = au_SubjectID y \<and> au_SubjectID x \<notin> I \<longrightarrow>
       (\<exists>c d m n e s s'. c < d \<and> decrypt m e = Inr s \<and> decrypt n e = Inr s' \<and>
          tl_ValidateCustom lib (vi_Code a) c s = Inr True \<and> tl_ValidateCustom lib (vi_Code b) d s' = Inr True)) \<and>
   (totp_Recover sha mgr a w = (Inr x, w1) \<and> totp_Recover sha mgr b v = (Inr y, v1) \<and>
     au_SubjectID x = au_SubjectID y \<and> au_SubjectID x \<notin> I \<longrightarrow>
       HashRecoveryCode sha (vi_Code a) \<noteq> HashRecoveryCode sha (vi_Code b))"
proof (intro conjI impI; elim conjE)
  assume a: "totp_Verify lib sha mgr a w = (Inr x, w1) \<or> totp_Recover sha mgr a w = (Inr x, w1)"
    and b: "totp_Verify lib sha mgr b v = (Inr y, v1) \<or> totp_Recover sha mgr b v = (Inr y, v1)"
    and same: "HashToken sha (vi_ChallengeToken a) = HashToken sha (vi_ChallengeToken b)"
  from totp_store.completed_challenge [OF assms(1-3) a] obtain h where
    h: "HashToken sha (vi_ChallengeToken a) = Inr h" "totp_challenges (view (aw_store w1)) h = None" "ok (aw_store w1)" .
  note E = totp_store.totp_run_evolves [OF assms(1,4,2) h(3)]
  from totp_store.completed_challenge [OF assms(1,2) _ b] E obtain g where
    g: "HashToken sha (vi_ChallengeToken b) = Inr g" "totp_challenges (view (aw_store v)) g \<noteq> None" by blast
  from h(1) g(1) same have "g = h" by simp
  with totp_evolves_challenge [OF conjunct2 [OF E] g(2)] h(2) g(1)
  show "HashToken sha (vi_ChallengeToken b) \<in> Inr ` H" by simp
next
  assume a: "totp_Verify lib sha mgr a w = (Inr x, w1)" and b: "totp_Verify lib sha mgr b v = (Inr y, v1)"
    and same: "au_SubjectID x = au_SubjectID y" "au_SubjectID x \<notin> I"
  from totp_store.verified_counter [OF assms(1-3) a] obtain c m cr s where
    c: "decrypt m (cd_Secret cr) = Inr s" "tl_ValidateCustom lib (vi_Code a) c s = Inr True"
    "totp_credentials (view (aw_store w1)) (au_SubjectID x) =
      Some (cr\<lparr>cd_LastUsedCounter := c, cd_HasLastUsedCounter := True\<rparr>)" "ok (aw_store w1)" .
  note E = totp_store.totp_run_evolves [OF assms(1,4,2) c(4)]
  from totp_store.verified_counter [OF assms(1,2) conjunct1 [OF E] b] obtain d n dr s' where
    d: "decrypt n (cd_Secret dr) = Inr s'" "tl_ValidateCustom lib (vi_Code b) d s' = Inr True"
    "totp_credentials (view (aw_store v)) (au_SubjectID y) = Some dr"
    "cd_HasLastUsedCounter dr \<longrightarrow> cd_LastUsedCounter dr < d" .
  have "cd_Secret dr = cd_Secret cr" "cd_HasLastUsedCounter dr" "c \<le> cd_LastUsedCounter dr"
    using totp_evolves_counter [OF conjunct2 [OF E] c(3) d(3) [folded same(1)] same(2)] by simp_all
  then have "c < d" "decrypt n (cd_Secret cr) = Inr s'" using d(1,4) by simp_all
  with c(1,2) d(2) show "\<exists>c d m n e s s'. c < d \<and> decrypt m e = Inr s \<and> decrypt n e = Inr s' \<and>
      tl_ValidateCustom lib (vi_Code a) c s = Inr True \<and> tl_ValidateCustom lib (vi_Code b) d s' = Inr True"
    by blast
next
  assume a: "totp_Recover sha mgr a w = (Inr x, w1)" and b: "totp_Recover sha mgr b v = (Inr y, v1)"
    and same: "au_SubjectID x = au_SubjectID y" "au_SubjectID x \<notin> I"
  from totp_store.recovered_code [OF assms(1-3) a] obtain r where
    r: "HashRecoveryCode sha (vi_Code a) = Inr r" "(au_SubjectID x, r) \<notin> unused_codes (view (aw_store w1))"
    "ok (aw_store w1)" .
  note E = totp_store.totp_run_evolves [OF assms(1,4,2) r(3)]
  from totp_store.recovered_code [OF assms(1,2) _ b] E obtain q where
    q: "HashRecoveryCode sha (vi_Code b) = Inr q" "(au_SubjectID y, q) \<in> unused_codes (view (aw_store v))" by blast
  have "(au_SubjectID x, q) \<in> unused_codes (view (aw_store w1))"
    using conjunct2 [OF E] q(2) same unfolding totp_evolves_def by metis
  with r(2) have "q \<noteq> r" by blast
  with q(1) r(1) show "HashRecoveryCode sha (vi_Code a) \<noteq> HashRecoveryCode sha (vi_Code b)" by simp
qed

lemma totp_sample_states:
  fixes st :: "'s TotpStore"
  assumes "totp_store st encrypt decrypt view ok lossy" and "ok (aw_store w)"
  shows "ok (aw_store (snd (totp_enrolled (sample_totp_manager st) w)))"
    and "ok (aw_store (snd (totp_challenged (sample_totp_manager st) w)))"
proof -
  let ?m = "sample_totp_manager st"
  have st: "tm_store ?m = st" by (simp add: sample_totp_manager_def)
  note run = totp_run_BeginEnrollment [OF totp_run_stop, of sample_totp_library totp_sha ?m w "''a''" "''a''"]
  note b = conjunct1 [OF totp_store.totp_run_evolves [OF assms(1) run st assms(2)]]
  show "ok (aw_store (snd (totp_enrolled ?m w)))"
    using totp_store.Confirm_evolves(1) [OF assms(1) st b] assms(2)
    by (auto simp: totp_enrolled_def split: option.splits prod.splits sum.splits)
  show "ok (aw_store (snd (totp_challenged ?m w)))"
    using totp_store.BeginChallenge_result(1) [OF assms(1) st assms(2)]
    by (auto simp: totp_challenged_def split: prod.splits sum.splits)
qed

text \<open>The sample's enrolled subject with a challenge, on PostgreSQL and on Redis.\<close>

abbreviation pg_totp_sample :: "totp_conn TotpManager" where
  "pg_totp_sample \<equiv> sample_totp_manager (pg_TOTPStore sample_codec)"

abbreviation rd_totp_sample :: "redis_totp redis TotpManager" where
  "rd_totp_sample \<equiv> sample_totp_manager (rd_TOTPStore sample_codec)"

definition pg_totp_ready :: "totp_conn account_world" where
  "pg_totp_ready = snd (totp_challenged pg_totp_sample (snd (totp_enrolled pg_totp_sample (sample_totp_world sample_totp_conn))))"

definition rd_totp_ready :: "redis_totp redis account_world" where
  "rd_totp_ready = snd (totp_challenged rd_totp_sample (snd (totp_enrolled rd_totp_sample (sample_totp_world sample_totp_redis))))"

lemma totp_ready_ok: "totp_conn_ok (aw_store pg_totp_ready)" "rd_totp_ok (aw_store rd_totp_ready)"
  unfolding pg_totp_ready_def rd_totp_ready_def
  by (intro totp_sample_states [OF pg_totp.totp_store_axioms] totp_sample_states [OF rd_totp.totp_store_axioms];
      simp add: sample_totp_world_def sample_totp_ok)+

definition sample_totp_input :: "string \<Rightarrow> VerifyInput" where
  "sample_totp_input code =
     \<lparr>vi_ChallengeToken = ''BQYHCAkKCwwNDg8QERITFBUWFxgZGhscHR4fICEiIyQ'', vi_Code = code, vi_SourceKey = ''k''\<rparr>"

theorem second_factor_single_use_witness:
  "\<exists>x w1. totp_Recover totp_sha rd_totp_sample (sample_totp_input ''AwQFBgcICQoLDA0ODxAREg'') rd_totp_ready = (Inr x, w1) \<and>
     isl (fst (totp_Verify sample_totp_library totp_sha rd_totp_sample (sample_totp_input ''123456'') w1))"
proof -
  let ?a = "sample_totp_input ''AwQFBgcICQoLDA0ODxAREg''" and ?b = "sample_totp_input ''123456''"
  have "\<not> isl (fst (totp_Recover totp_sha rd_totp_sample ?a rd_totp_ready))" by code_simp
  from sample_result [OF this] obtain x w1 where r: "totp_Recover totp_sha rd_totp_sample ?a rd_totp_ready = (Inr x, w1)"
    by blast
  have st: "tm_store rd_totp_sample = rd_TOTPStore sample_codec" by (simp add: sample_totp_manager_def)
  have "HashToken totp_sha (vi_ChallengeToken ?a) = HashToken totp_sha (vi_ChallengeToken ?b)"
    by (simp add: sample_totp_input_def)
  with second_factor_single_use [OF rd_totp.totp_store_axioms st totp_ready_ok(2) totp_run_stop,
      THEN conjunct1, of sample_totp_library totp_sha ?a x w1 ?b] r
  have "totp_Verify sample_totp_library totp_sha rd_totp_sample ?b w1 \<noteq> (Inr y, v1)" for y v1 by auto
  then have "isl (fst (totp_Verify sample_totp_library totp_sha rd_totp_sample ?b w1))"
    by (metis sample_result)
  with r show ?thesis by blast
qed

text \<open>C12: \<^verbatim>\<open>Verify\<close> succeeds only for the owner of the authenticator: the challenge is stored, not expired and
  now consumed; the code validates under the decrypted secret of the challenge's subject for a time step at
  most one away from the clock, which is newer than every step used before and is recorded as used. Nothing
  else changes.\<close>

theorem totp_Verify_sound:
  assumes "totp_store ts encrypt decrypt view ok lossy" and "tm_store mgr = ts" and "ok (aw_store w)"
    and "totp_Verify lib sha mgr input w = (Inr au, w1)"
  shows "\<exists>h ch cr c n secret t m. HashToken sha (vi_ChallengeToken input) = Inr h \<and>
    totp_challenges (view (aw_store w)) h = Some ch \<and> t = clock w m \<and> t < tc_ExpiresAt ch \<and>
    totp_credentials (view (aw_store w)) (tc_SubjectID ch) = Some cr \<and> cd_DisabledAt cr = None \<and>
    decrypt n (cd_Secret cr) = Inr secret \<and> tl_ValidateCustom lib (vi_Code input) c secret = Inr True \<and>
    \<bar>uint c - time_Unix t sdiv periodSeconds\<bar> \<le> 1 \<and>
    (cd_HasLastUsedCounter cr \<longrightarrow> cd_LastUsedCounter cr < c) \<and>
    au = \<lparr>au_SubjectID = tc_SubjectID ch, au_UsedRecoveryCode = False\<rparr> \<and>
    view (aw_store w1) = (view (aw_store w))
      \<lparr>totp_challenges := (totp_challenges (view (aw_store w)))(h := None),
       totp_credentials := (totp_credentials (view (aw_store w)))(tc_SubjectID ch \<mapsto>
         cr\<lparr>cd_LastUsedCounter := c, cd_HasLastUsedCounter := True\<rparr>)\<rparr>"
  using assms
proof (rule totp_store.Verify_Inr)
  fix h ch cr c n secret t m
  assume V: "HashToken sha (vi_ChallengeToken input) = Inr h" "totp_challenges (view (aw_store w)) h = Some ch"
    "totp_credentials (view (aw_store w)) (tc_SubjectID ch) = Some cr" "cd_DisabledAt cr = None"
    "decrypt n (cd_Secret cr) = Inr secret" "t = clock w m" "t < tc_ExpiresAt ch"
    "matchCounter lib secret (vi_Code input) t = Inr (c, True)"
    "cd_HasLastUsedCounter cr \<longrightarrow> cd_LastUsedCounter cr < c"
    "au = \<lparr>au_SubjectID = tc_SubjectID ch, au_UsedRecoveryCode = False\<rparr>"
    "code_fun h c t (view (aw_store w)) = (Inr (tc_SubjectID ch), view (aw_store w1))" "ok (aw_store w1)"
  have "view (aw_store w1) = (view (aw_store w))
      \<lparr>totp_challenges := (totp_challenges (view (aw_store w)))(h := None),
       totp_credentials := (totp_credentials (view (aw_store w)))(tc_SubjectID ch \<mapsto>
         cr\<lparr>cd_LastUsedCounter := c, cd_HasLastUsedCounter := True\<rparr>)\<rparr>"
    using V(2,3,4,7,9,11) by (auto simp: code_fun_def split: if_splits)
  then show ?thesis
    using V matchCounter_True(1,3) [OF V(8)]
    by (intro exI [of _ h] exI [of _ ch] exI [of _ cr] exI [of _ c] exI [of _ n] exI [of _ secret] exI [of _ t]
        exI [of _ m]) simp
qed

theorem totp_Verify_sound_witness:
  "\<exists>au w1. totp_Verify sample_totp_library totp_sha pg_totp_sample (sample_totp_input ''123456'') pg_totp_ready = (Inr au, w1) \<and>
     \<not> au_UsedRecoveryCode au \<and> totp_view (aw_store w1) \<noteq> totp_view (aw_store pg_totp_ready)"
proof -
  let ?r = "totp_Verify sample_totp_library totp_sha pg_totp_sample (sample_totp_input ''123456'') pg_totp_ready"
  have "\<not> isl (fst ?r)" by code_simp
  from sample_result [OF this] obtain au w1 where r: "?r = (Inr au, w1)" by blast
  have st: "tm_store pg_totp_sample = pg_TOTPStore sample_codec" by (simp add: sample_totp_manager_def)
  from totp_Verify_sound [OF pg_totp.totp_store_axioms st totp_ready_ok(1) r] show ?thesis
  proof (elim exE conjE)
    fix h ch c and cr :: storedTOTPCredential
    assume h: "totp_challenges (totp_view (aw_store pg_totp_ready)) h = Some ch"
      "au = \<lparr>au_SubjectID = tc_SubjectID ch, au_UsedRecoveryCode = False\<rparr>"
      "totp_view (aw_store w1) = (totp_view (aw_store pg_totp_ready))
        \<lparr>totp_challenges := (totp_challenges (totp_view (aw_store pg_totp_ready)))(h := None),
         totp_credentials := (totp_credentials (totp_view (aw_store pg_totp_ready)))(tc_SubjectID ch \<mapsto>
           cr\<lparr>cd_LastUsedCounter := c, cd_HasLastUsedCounter := True\<rparr>)\<rparr>"
    have "totp_challenges (totp_view (aw_store w1)) h = None" unfolding h(3) by simp
    then have "totp_view (aw_store w1) \<noteq> totp_view (aw_store pg_totp_ready)" using h(1) by auto
    with r h(2) show ?thesis by (metis Authentication.select_convs(2))
  qed
qed

text \<open>C14: Confirming an enrollment returns: provided that the random source fails or gives, from every point
  on, enough different codes, the loop that draws recovery codes ends, and then the codes that are handed
  out are as many as configured and have different hashes.\<close>

theorem recovery_codes_terminate:
  assumes "varied sha (tm_recoveryCodeCount mgr) w" and "0 \<le> tm_recoveryCodeCount mgr"
  shows "\<exists>x w1. totp_ConfirmEnrollment lib sha mgr i code k w = Some (x, w1) \<and>
    (\<forall>codes. x = Inr codes \<longrightarrow> distinct (map sha codes) \<and> int (length codes) = tm_recoveryCodeCount mgr)"
proof -
  obtain x w1 where r: "totp_ConfirmEnrollment lib sha mgr i code k w = Some (x, w1)"
    using ConfirmEnrollment_returns [OF assms(1)] by blast
  have "distinct (map sha codes) \<and> int (length codes) = tm_recoveryCodeCount mgr" if "x = Inr codes" for codes
  proof -
    have r': "totp_ConfirmEnrollment lib sha mgr i code k w = Some (Inr codes, w1)" using r that by simp
    obtain c t w2 cs hs w3 where g: "generateRecoveryCodes sha (tm_recoveryCodeCount mgr) w2 = Some (Inr (cs, hs), w3)"
      and en: "totp_enable mgr (TrimSpace i) k c t cs hs w3 = (Inr codes, w1)"
      using r' by (auto simp: totp_ConfirmEnrollment_def Let_def split: prod.splits sum.splits option.splits)
    have "codes = cs" using en by (auto simp: totp_enable_def bindM_eq ret_event_def split: sum.splits)
    with generateRecoveryCodes_Inr(2-4) [OF g assms(2)] show ?thesis by simp
  qed
  with r show ?thesis by blast
qed

lemma sample_varied: "varied totp_sha 2 (sample_totp_world s)"
  unfolding varied_def
proof (intro allI impI)
  fix n :: nat and S :: "hash set" assume S: "finite S \<and> int (card S) < 2"
  let ?f = "\<lambda>m. totp_sha (b64_encode b64_url (map (sample_bytes m) [0..<recoveryCodeBytes]))"
  have per: "sample_bytes (256 * n + k) = sample_bytes k" for k
    by (rule ext, unfold sample_bytes_def) (metis add.assoc char_of_mod_256 mod_mult_self4)
  have "?f 0 \<noteq> ?f 4" by code_simp
  then have "\<not> {?f 0, ?f 4} \<subseteq> S"
    using S card_mono [of S "{?f 0, ?f 4}"] by auto
  then obtain k where "?f (256 * n + k) \<notin> S" unfolding per by blast
  then show "\<exists>m\<ge>n. rand_err (sample_totp_world s) m \<or>
      totp_sha (b64_encode b64_url (map (rand_byte (sample_totp_world s) m) [0..<recoveryCodeBytes])) \<notin> S"
    by (intro exI [of _ "256 * n + k"]) (simp add: sample_totp_world_def)
qed

theorem recovery_codes_terminate_witness:
  "\<exists>x w1. totp_ConfirmEnrollment sample_totp_library totp_sha rd_totp_sample ''a'' ''123456'' ''k''
     (sample_totp_world sample_totp_redis) = Some (x, w1)"
  using recovery_codes_terminate [of totp_sha rd_totp_sample "sample_totp_world sample_totp_redis"
      sample_totp_library "''a''" "''123456''" "''k''"] sample_varied [of sample_totp_redis]
  by (auto simp: sample_totp_manager_def)

text \<open>C13: An issued recovery code can be used. After \<^verbatim>\<open>ConfirmEnrollment\<close> returned recovery codes and
  \<^verbatim>\<open>BeginChallenge\<close> a challenge for the subject, \<^verbatim>\<open>Recover\<close> with the challenge's token and any of the codes
  authenticates the subject until the challenge expires, unless the database fails (on Redis a failing read
  may be reported as an invalid challenge).\<close>

theorem enrolled_codes_work:
  assumes "totp_store ts encrypt decrypt view ok lossy" and "tm_store mgr = ts" and "ok (aw_store w)"
    and "tm_attemptGuard mgr = None" and "0 < tm_challengeLifetime mgr" and "0 \<le> tm_recoveryCodeCount mgr"
    and "\<forall>m n s x. decrypt m s = Inr x \<longrightarrow> decrypt n s = Inr x" and "\<forall>n. 0 < clock w n \<and> 0 < clock v n"
    and "totp_ConfirmEnrollment lib sha mgr i code k w = Some (Inr codes, w1)"
    and "aw_store v = aw_store w1" and "totp_BeginChallenge sha mgr i v = (Inr c, v1)"
    and "aw_store u = aw_store v1" and "\<forall>n. clock u n < cs_ExpiresAt c" and "x \<in> set codes"
  shows "fst (totp_Recover sha mgr \<lparr>vi_ChallengeToken = cs_Token c, vi_Code = x, vi_SourceKey = k'\<rparr> u) =
      Inr \<lparr>au_SubjectID = TrimSpace i, au_UsedRecoveryCode = True\<rparr> \<or>
    (\<exists>d text. is_driver d \<and>
      fst (totp_Recover sha mgr \<lparr>vi_ChallengeToken = cs_Token c, vi_Code = x, vi_SourceKey = k'\<rparr> u) =
        Inl (EWrap text d)) \<or>
    lossy \<and> fst (totp_Recover sha mgr \<lparr>vi_ChallengeToken = cs_Token c, vi_Code = x, vi_SourceKey = k'\<rparr> u) =
      Inl (ETotp Totp_ErrInvalidChallenge)"
  using assms(1-3,6,9)
proof (rule totp_store.Confirm_Inr)
  fix e secret n m t ct
  assume C: "enrollments (view (aw_store w)) (TrimSpace i) = Some e" "decrypt n (en_Secret e) = Inr secret"
    "\<not> blank secret" "t = clock w m" "t < en_ExpiresAt e" "matchCounter lib secret code t = Inr (ct, True)"
    "spec_Enable (TrimSpace i) ct (map sha codes) t (view (aw_store w)) = (Inr (), view (aw_store w1))"
    "ok (aw_store w1)" "tape w1 = tape w" "distinct (map sha codes)" "int (length codes) = tm_recoveryCodeCount mgr"
    "\<forall>x\<in>set codes. HashRecoveryCode sha x = Inr (sha x)"
  have okv: "ok (aw_store v)" using C(8) assms(10) by simp
  note B = totp_store.BeginChallenge_result [OF assms(1,2) okv assms(11)]
  from B(4) [OF refl] obtain h t' m' where
    b: "HashToken sha (cs_Token c) = Inr h" "t' = clock v m'" "cs_ExpiresAt c = t' + tm_challengeLifetime mgr"
    "TrimSpace i \<noteq> []"
    "view (aw_store v1) = (view (aw_store v))\<lparr>totp_challenges := (totp_challenges (view (aw_store v)))
       (h \<mapsto> \<lparr>tc_SubjectID = TrimSpace i, tc_TokenHash = h, tc_CreatedAt = t', tc_ExpiresAt = cs_ExpiresAt c\<rparr>)\<rparr>"
    by blast
  let ?ch = "\<lparr>tc_SubjectID = TrimSpace i, tc_TokenHash = h, tc_CreatedAt = t', tc_ExpiresAt = cs_ExpiresAt c\<rparr>"
  let ?cr = "\<lparr>cd_SubjectID = TrimSpace i, cd_Secret = en_Secret e, cd_EnabledAt = t, cd_LastUsedCounter = ct,
    cd_HasLastUsedCounter = True, cd_DisabledAt = None\<rparr>"
  have s: "totp_credentials (view (aw_store w1)) (TrimSpace i) = Some ?cr"
    "(TrimSpace i, sha x) \<in> unused_codes (view (aw_store w1))"
    using spec_Enable_Inr [OF C(7,1)] assms(14) by simp_all
  have v: "totp_challenges (view (aw_store u)) h = Some ?ch"
    "totp_credentials (view (aw_store u)) (TrimSpace i) = Some ?cr"
    "(TrimSpace i, sha x) \<in> unused_codes (view (aw_store u))"
    using s b(5) assms(10,12) by simp_all
  have pos: "0 < t'" "0 < t" using assms(8) b(2) C(4) by simp_all
  have val: "totp_validChallenge ?ch h"
    using b(3,4) pos assms(5) by (simp add: totp_validChallenge_def)
  have dec: "\<forall>n. \<exists>s. decrypt n (cd_Secret ?cr) = Inr s \<and> \<not> blank s"
    using C(2,3) assms(7) by (metis storedTOTPCredential.select_convs Credential.select_convs(2))
  have oku: "ok (aw_store u)" using B(1) assms(12) by simp
  from totp_store.Recover_works [OF assms(1,2) oku assms(4), of sha
      "\<lparr>vi_ChallengeToken = cs_Token c, vi_Code = x, vi_SourceKey = k'\<rparr>" h "sha x" ?ch ?cr]
  show ?thesis using b(1) C(12) assms(13,14) v val dec pos by simp
qed

lemma totp_enrolled_Confirm:
  "totp_enrolled mgr w = (codes, w1) \<Longrightarrow> codes \<noteq> [] \<Longrightarrow>
     totp_ConfirmEnrollment sample_totp_library totp_sha mgr ''a'' ''123456'' ''k''
       (snd (totp_BeginEnrollment sample_totp_library mgr ''a'' ''a'' w)) = Some (Inr codes, w1)"
  by (auto simp: totp_enrolled_def split: option.splits prod.splits sum.splits)

theorem enrolled_codes_work_witness:
  "\<exists>codes w1 c v1. totp_ConfirmEnrollment sample_totp_library totp_sha pg_totp_sample ''a'' ''123456'' ''k''
       (snd (totp_BeginEnrollment sample_totp_library pg_totp_sample ''a'' ''a'' (sample_totp_world sample_totp_conn))) =
       Some (Inr codes, w1) \<and>
     totp_BeginChallenge totp_sha pg_totp_sample ''a'' w1 = (Inr c, v1) \<and>
     (fst (totp_Recover totp_sha pg_totp_sample \<lparr>vi_ChallengeToken = cs_Token c, vi_Code = hd codes, vi_SourceKey = []\<rparr>
        (v1\<lparr>clock := \<lambda>_. 0\<rparr>)) = Inr \<lparr>au_SubjectID = ''a'', au_UsedRecoveryCode = True\<rparr> \<or>
      (\<exists>d text. is_driver d \<and> fst (totp_Recover totp_sha pg_totp_sample
        \<lparr>vi_ChallengeToken = cs_Token c, vi_Code = hd codes, vi_SourceKey = []\<rparr> (v1\<lparr>clock := \<lambda>_. 0\<rparr>)) =
        Inl (EWrap text d)))"
proof -
  let ?s = "sample_totp_world sample_totp_conn"
  let ?w = "snd (totp_BeginEnrollment sample_totp_library pg_totp_sample ''a'' ''a'' ?s)"
  let ?e = "totp_enrolled pg_totp_sample ?s" and ?m = pg_totp_sample
  have st: "tm_store ?m = pg_TOTPStore sample_codec" by (simp add: sample_totp_manager_def)
  have ok: "totp_conn_ok (aw_store ?w)"
    by (rule conjunct1 [OF totp_store.totp_run_evolves [OF pg_totp.totp_store_axioms
        totp_run_BeginEnrollment [OF totp_run_stop] st]])
      (simp add: sample_totp_world_def sample_totp_ok)
  have ne: "fst ?e \<noteq> []" by code_simp
  have conf: "totp_ConfirmEnrollment sample_totp_library totp_sha ?m ''a'' ''123456'' ''k'' ?w = Some (Inr (fst ?e), snd ?e)"
    by (rule totp_enrolled_Confirm [OF prod.collapse [symmetric] ne])
  have cw: "clock ?w = sample_ticks"
    by (simp add: totp_BeginEnrollment_def sample_totp_library_def bindM_eq on_err_eq Let_def sample_totp_world_def on_accounts_def
        split: sum.split)
  have cl: "clock ?w = sample_ticks" "clock (snd ?e) = sample_ticks"
    using cw totp_store.Confirm_Inr [OF pg_totp.totp_store_axioms st ok _ conf, of "clock (snd ?e) = sample_ticks"]
    by (auto simp: tape_def sample_totp_manager_def)
  have "case fst (totp_BeginChallenge totp_sha ?m ''a'' (snd ?e)) of Inl _ \<Rightarrow> False | Inr c \<Rightarrow> 0 < cs_ExpiresAt c"
    by code_simp
  then obtain c v1 where c: "totp_BeginChallenge totp_sha ?m ''a'' (snd ?e) = (Inr c, v1)" "0 < cs_ExpiresAt c"
    by (cases "totp_BeginChallenge totp_sha ?m ''a'' (snd ?e)") (auto split: sum.splits)
  have T: "TrimSpace ''a'' = ''a''" by code_simp
  from enrolled_codes_work [OF pg_totp.totp_store_axioms st ok _ _ _ _ _ conf refl c(1), of "v1\<lparr>clock := \<lambda>_. 0\<rparr>"
      "hd (fst ?e)" "[]"] ne c(2) cl
  have "fst (totp_Recover totp_sha ?m \<lparr>vi_ChallengeToken = cs_Token c, vi_Code = hd (fst ?e), vi_SourceKey = []\<rparr>
        (v1\<lparr>clock := \<lambda>_. 0\<rparr>)) = Inr \<lparr>au_SubjectID = ''a'', au_UsedRecoveryCode = True\<rparr> \<or>
      (\<exists>d text. is_driver d \<and> fst (totp_Recover totp_sha ?m
        \<lparr>vi_ChallengeToken = cs_Token c, vi_Code = hd (fst ?e), vi_SourceKey = []\<rparr> (v1\<lparr>clock := \<lambda>_. 0\<rparr>)) =
        Inl (EWrap text d))"
    by (simp add: T sample_totp_manager_def codec_decrypt_def sample_codec_def sample_ticks_def second_ns_def)
  with conf c(1) show ?thesis by blast
qed

end
