(* ===== verification/Spec2Isabelle.thy ===== *)
theory Spec2Isabelle
  imports SessionProperties BearerProperties AccountProperties TotpProperties
begin

text \<open>
  authlier is an authentication library for Go. This is a verification library of its core.

  \<^bold>\<open>The program.\<close> Managers (packages \<^verbatim>\<open>sessiontoken\<close>, \<^verbatim>\<open>refreshtoken\<close>, \<^verbatim>\<open>accesstoken\<close> and the bearer
  session manager of token_session.go) implement the authentication flows over storage interfaces.
  Four adapters (src/storage) implement the interfaces on PostgreSQL, MySQL, MongoDB and Redis.

  \<^bold>\<open>Theories.\<close>
  \<^item> \<open>Prelude\<close>: Go values, errors and \<^verbatim>\<open>errors.Is\<close>, \<^verbatim>\<open>strings.TrimSpace\<close>, time, the readings of clock,
    random bytes and UUIDs (\<open>world\<close>), computations with early return.
  \<^item> \<open>Database\<close>: connections, statements, transactions, tables, and \<open>implements\<close>, the refinement
    relation in which every storage contract is stated. \<open>Redis\<close>: commands, \<^verbatim>\<open>WATCH\<close>/\<^verbatim>\<open>EXEC\<close> and the
    retry loop of src/storage/redis/redis.go.
  \<^item> \<open>Token\<close>: src/token/token.go with base64.
  \<^item> \<open>Sessiontoken\<close>: src/sessiontoken/sessiontoken.go and the locales \<open>session_store\<close>, \<open>session_cache\<close>
    of its interfaces; \<open>SessionService\<close>: the manager over any store and cache that meet the contracts;
    \<open>SessionTable\<close>, \<open>PostgresSessions\<close>, \<open>MysqlSessions\<close>, \<open>MongoSessions\<close>, \<open>RedisSessions\<close>: the adapters
    and their interpretations; \<open>SessionProperties\<close>: the properties.
  \<^item> \<open>Refreshtoken\<close>, \<open>Accesstoken\<close>, \<open>TokenSession\<close>: src/refreshtoken, src/accesstoken,
    src/token_session.go; \<open>BearerStore\<close>: the contract \<open>bearer_store\<close> of both durable stores;
    \<open>BearerTables\<close>, \<open>PostgresBearer\<close>, \<open>MysqlBearer\<close>, \<open>MongoBearer\<close>, \<open>RedisBearer\<close>: the adapters;
    \<open>BearerProperties\<close>: the properties.

  \<^item> \<open>Password\<close>: src/password/password.go with the encoding of Argon2id hashes; \<open>Gostrings\<close>, \<open>Gourl\<close>: the
    string and URL functions of the standard library that the packages use; \<open>Emailaddress\<close>:
    src/emailaddress/emailaddress.go.
  \<^item> \<open>Emailpassword\<close>, \<open>Emailverification\<close>, \<open>Passwordreset\<close>, \<open>Googleoauth\<close>: the account managers of the
    packages of these names, over \<open>AccountWorld\<close> (the store, mail sent, events recorded, readings taken).
  \<^item> \<open>AccountStore\<close>: the abstract state of accounts and the contract \<open>account_store\<close> of the five store
    interfaces; \<open>AccountTables\<close>, \<open>PostgresAccounts\<close>, \<open>MysqlAccounts\<close>, \<open>MongoAccounts\<close>, \<open>RedisAccounts\<close>:
    src/storage/*/accounts.go and the interpretations.
  \<^item> \<open>AccountSafety\<close>, \<open>AccountSteps\<close>, \<open>EmailpasswordService\<close>, \<open>RecoveryService\<close>, \<open>GoogleService\<close>,
    \<open>AccountRuns\<close>: the managers over any store that meets the contract, and their runs;
    \<open>AccountProperties\<close>: the properties.

  \<^item> \<open>TotpStore\<close>: the abstract state and the contract \<open>totp_store\<close> of the second factor; \<open>TotpTables\<close>,
    \<open>PostgresTotp\<close>, \<open>MysqlTotp\<close>, \<open>MongoTotp\<close>, \<open>RedisTotp\<close>: src/storage/*/totp.go and the interpretations;
    \<open>Totp\<close>: src/totp/totp.go; \<open>TotpService\<close>: the manager over any store that meets the contract, and its
    runs; \<open>TotpProperties\<close>: the properties.

  \<^bold>\<open>Parameters and bounds.\<close> SHA-256 is the parameter \<open>sha\<close> and the JWT library the parameter \<open>lib\<close> with
  its documented behaviour \<open>jwt_documented\<close>. HMAC, Argon2 and bcrypt, \<^verbatim>\<open>net/mail\<close>, \<^verbatim>\<open>net/url\<close> and the
  OpenID Connect client are parameters too (\<open>hmac\<close>, \<open>password_library\<close>, \<open>mail_library\<close>, \<open>url_library\<close>,
  \<open>oidc_library\<close>). The database fails where the connection says so; random bytes, UUIDs and the clock are
  tapes of readings (\<open>world\<close>, \<open>draws\<close>). The contract of accounts has two flags: \<open>overwrites\<close> holds for
  MySQL, whose upsert may replace the record of another user with the same token hash, and \<open>lossy\<close> for
  Redis, which reports a failing read as a missing token. The one-time-password library is \<open>totp_library\<close>, the
  application's encryption of secrets \<open>secret_codec\<close>. The retry loops run at most as often as the constants
  of the source say; no fuel is used beyond them. The loop that draws recovery codes has no bound in the
  source: it is a partial function with values in option, and \<open>recovery_codes_terminate\<close> shows that it ends
  when the random source is \<open>varied\<close>.
\<close>

end
